(* ===== verification/Prelude.thy ===== *)
theory Prelude
  imports Main "HOL-Library.Word"
begin

text \<open>
  Shared vocabulary of the development: C buffers and strings as lists of \<^typ>\<open>char\<close>, character
  classes, the string functions the sources call (\<open>strchr\<close>, \<open>strstr\<close>, case-insensitive comparison),
  \<open>strtol\<close> and \<open>atoi\<close>, decimal and hexadecimal text and padding. A byte is a \<^typ>\<open>char\<close>; a C string
  is a list without the character \<open>NUL\<close>; the content of a buffer is any list, and \<open>cstr\<close> reads the
  C string it holds.
\<close>

named_theorems c_limits \<open>the size limits the sources define as macros\<close>

subsection \<open>Bytes and C strings\<close>

type_synonym bytes = "char list"
type_synonym path = string
type_synonym fstore = "path \<Rightarrow> bytes option"

abbreviation NUL :: char where "NUL \<equiv> CHR 0x00"
abbreviation LF :: char where "LF \<equiv> CHR 0x0A"
abbreviation CR :: char where "CR \<equiv> CHR 0x0D"
abbreviation TAB :: char where "TAB \<equiv> CHR 0x09"
abbreviation CRLF :: string where "CRLF \<equiv> [CHR 0x0D, CHR 0x0A]"

definition cstr :: "bytes \<Rightarrow> string" where
  "cstr b = takeWhile (\<lambda>c. c \<noteq> NUL) b"

definition is_cstr :: "bytes \<Rightarrow> bool" where
  "is_cstr s \<longleftrightarrow> NUL \<notin> set s"

lemma cstr_ident [simp]: "is_cstr s \<Longrightarrow> cstr s = s"
  by (auto simp: is_cstr_def cstr_def takeWhile_eq_all_conv)

lemma is_cstr_cstr [simp]: "is_cstr (cstr b)"
  unfolding is_cstr_def cstr_def using set_takeWhileD by fastforce

lemma length_cstr: "length (cstr b) \<le> length b"
  by (simp add: cstr_def length_takeWhile_le)

lemma is_cstr_simps [simp]:
  "is_cstr []" "is_cstr (c # s) \<longleftrightarrow> c \<noteq> NUL \<and> is_cstr s"
  "is_cstr (s @ t) \<longleftrightarrow> is_cstr s \<and> is_cstr t"
  by (auto simp: is_cstr_def)

lemma is_cstr_take [simp]: "is_cstr s \<Longrightarrow> is_cstr (take n s)"
  unfolding is_cstr_def by (meson in_set_takeD)

lemma is_cstr_drop [simp]: "is_cstr s \<Longrightarrow> is_cstr (drop n s)"
  unfolding is_cstr_def by (meson in_set_dropD)

text \<open>
  The value of a \<open>char\<close> promoted to \<open>int\<close>: the implementation chooses whether
  \<open>char\<close> is signed, so it is a parameter.
\<close>

definition char_to_int :: "bool \<Rightarrow> char \<Rightarrow> int" where
  "char_to_int signed_char c =
     (let n = int (of_char c :: nat) in if signed_char \<and> 128 \<le> n then n - 256 else n)"

lemma char_high_nibble: "(of_char c :: nat) div 16 < 16"
  by (rule less_mult_imp_div_less) (simp add: nat_of_char_less_256 [of c, simplified])

subsection \<open>Character classes\<close>

definition c_isspace :: "char \<Rightarrow> bool" where
  "c_isspace c \<longleftrightarrow> c = CHR '' '' \<or> (9 \<le> (of_char c :: nat) \<and> (of_char c :: nat) \<le> 13)"

definition c_isdigit :: "char \<Rightarrow> bool" where
  "c_isdigit c \<longleftrightarrow> 48 \<le> (of_char c :: nat) \<and> (of_char c :: nat) \<le> 57"

definition c_isupper :: "char \<Rightarrow> bool" where
  "c_isupper c \<longleftrightarrow> 65 \<le> (of_char c :: nat) \<and> (of_char c :: nat) \<le> 90"

definition c_islower :: "char \<Rightarrow> bool" where
  "c_islower c \<longleftrightarrow> 97 \<le> (of_char c :: nat) \<and> (of_char c :: nat) \<le> 122"

definition c_isalnum :: "char \<Rightarrow> bool" where
  "c_isalnum c \<longleftrightarrow> c_isdigit c \<or> c_isupper c \<or> c_islower c"

definition c_isprint :: "char \<Rightarrow> bool" where
  "c_isprint c \<longleftrightarrow> 32 \<le> (of_char c :: nat) \<and> (of_char c :: nat) \<le> 126"

definition c_tolower :: "char \<Rightarrow> char" where
  "c_tolower c = (if c_isupper c then char_of ((of_char c :: nat) + 32) else c)"

definition c_toupper :: "char \<Rightarrow> char" where
  "c_toupper c = (if c_islower c then char_of ((of_char c :: nat) - 32) else c)"

definition strcaseeq :: "string \<Rightarrow> string \<Rightarrow> bool" where
  "strcaseeq s t \<longleftrightarrow> map c_tolower s = map c_tolower t"

definition strncaseeq :: "nat \<Rightarrow> string \<Rightarrow> string \<Rightarrow> bool" where
  "strncaseeq n s t \<longleftrightarrow> map c_tolower (take n s) = map c_tolower (take n t)"

subsection \<open>Searching\<close>

text \<open>\<open>strchr\<close>: the rest of the string from the first occurrence of a character on.\<close>

definition strchr :: "string \<Rightarrow> char \<Rightarrow> string option" where
  "strchr s c = (case dropWhile (\<lambda>x. x \<noteq> c) s of [] \<Rightarrow> None | r \<Rightarrow> Some r)"

fun strstr :: "string \<Rightarrow> string \<Rightarrow> nat option" where
  "strstr [] p = (if p = [] then Some 0 else None)"
| "strstr (c # s) p =
     (if take (length p) (c # s) = p then Some 0 else map_option Suc (strstr s p))"

lemma strstr_take: "strstr s p = Some n \<Longrightarrow> take (length p) (drop n s) = p \<and> n + length p \<le> length s"
proof (induction s arbitrary: n)
  case Nil
  then show ?case by (auto split: if_splits)
next
  case (Cons c s)
  show ?case
  proof (cases "take (length p) (c # s) = p")
    case True
    with Cons.prems have "n = 0" by simp
    moreover have "length p \<le> Suc (length s)"
      using True by (metis length_Cons length_take min.cobounded1)
    ultimately show ?thesis using True by simp
  next
    case False
    with Cons.prems obtain m where "strstr s p = Some m" "n = Suc m" by auto
    with Cons.IH show ?thesis by simp
  qed
qed

lemma strstr_None: "strstr s p = None \<Longrightarrow> s \<noteq> u @ p @ v"
proof (induction s arbitrary: u)
  case Nil
  then show ?case by (auto split: if_splits)
next
  case (Cons c s)
  from Cons.prems have h: "take (length p) (c # s) \<noteq> p" and t: "strstr s p = None"
    by (auto split: if_splits)
  show ?case
  proof
    assume eq: "c # s = u @ p @ v"
    show False
    proof (cases u)
      case Nil
      then have "c # s = p @ v" using eq by simp
      then have "take (length p) (c # s) = p" by (metis append_eq_conv_conj)
      with h show False by blast
    next
      case (Cons a u')
      with eq Cons.IH [OF t] show False by simp
    qed
  qed
qed

text \<open>The end of a line is where its first CR LF is.\<close>

lemma strstr_crlf: "CR \<notin> set a \<Longrightarrow> strstr (a @ CRLF @ b) CRLF = Some (length a)"
  by (induction a) (auto simp: numeral_2_eq_2)

lemma drop_length_append: "drop (length a) (a @ b) = b"
  by simp

lemma drop_crlf: "drop (length a + 2) (a @ CRLF @ b) = b"
  by simp

lemma cstr_append: "is_cstr a \<Longrightarrow> cstr (a @ b) = a @ cstr b"
  by (induction a) (auto simp: cstr_def)

definition strrchr :: "string \<Rightarrow> char \<Rightarrow> string option" where
  "strrchr s c = (if c \<in> set s then Some (c # rev (takeWhile (\<lambda>x. x \<noteq> c) (rev s))) else None)"

lemma strchr_None: "strchr s c = None \<longleftrightarrow> c \<notin> set s"
proof -
  have "strchr s c = None \<longleftrightarrow> dropWhile (\<lambda>x. x \<noteq> c) s = []"
    unfolding strchr_def by (cases "dropWhile (\<lambda>x. x \<noteq> c) s") (simp_all only: list.case, simp_all)
  then show ?thesis by auto
qed

subsection \<open>Numbers in text: strtol and atoi\<close>

definition digit_val :: "char \<Rightarrow> nat option" where
  "digit_val c =
     (let n = (of_char c :: nat) in
      if 48 \<le> n \<and> n \<le> 57 then Some (n - 48)
      else if 65 \<le> n \<and> n \<le> 90 then Some (n - 55)
      else if 97 \<le> n \<and> n \<le> 122 then Some (n - 87)
      else None)"

fun digits_val :: "nat \<Rightarrow> nat \<Rightarrow> string \<Rightarrow> nat" where
  "digits_val b acc [] = acc"
| "digits_val b acc (c # s) =
     (case digit_val c of None \<Rightarrow> acc
      | Some d \<Rightarrow> if d < b then digits_val b (acc * b + d) s else acc)"

text \<open>
  \<open>atoi\<close> as glibc implements it: \<open>(int) strtol(s, NULL, 10)\<close>, where \<open>strtol\<close>
  skips white space, takes a sign and digits and saturates at the range of \<open>long\<close>, and the
  conversion to \<open>int\<close> keeps the low 32 bits.
\<close>

definition strtol10 :: "string \<Rightarrow> int" where
  "strtol10 s =
     (let r = dropWhile c_isspace s;
          neg = (r \<noteq> [] \<and> hd r = CHR ''-'');
          d = (if r \<noteq> [] \<and> (hd r = CHR ''-'' \<or> hd r = CHR ''+'') then tl r else r);
          v = int (digits_val 10 0 d)
      in max (- (2 ^ 63)) (min (2 ^ 63 - 1) (if neg then - v else v)))"

text \<open>
  \<open>strtol(s, NULL, 16)\<close> on short strings (no saturation): white space, a sign, an optional
  \<open>0x\<close> that is taken only before a hexadecimal digit, and the digits.
\<close>

definition is_hex :: "char \<Rightarrow> bool" where
  "is_hex c \<longleftrightarrow> (case digit_val c of None \<Rightarrow> False | Some d \<Rightarrow> d < 16)"

definition strtol16 :: "string \<Rightarrow> int" where
  "strtol16 s =
     (let r = dropWhile c_isspace s;
          neg = (r \<noteq> [] \<and> hd r = CHR ''-'');
          d = (if r \<noteq> [] \<and> (hd r = CHR ''-'' \<or> hd r = CHR ''+'') then tl r else r);
          e = (case d of z # x # c # t \<Rightarrow>
                 if z = CHR ''0'' \<and> c_tolower x = CHR ''x'' \<and> is_hex c then c # t else d | _ \<Rightarrow> d);
          v = int (digits_val 16 0 e)
      in if neg then - v else v)"

text \<open>Conversion of an \<open>int\<close> to \<open>char\<close>: the low eight bits.\<close>

definition to_char :: "int \<Rightarrow> char" where
  "to_char i = char_of (nat (i mod 256))"

definition to_int32 :: "int \<Rightarrow> int" where
  "to_int32 v = (v + 2 ^ 31) mod 2 ^ 32 - 2 ^ 31"

definition atoi :: "string \<Rightarrow> int" where
  "atoi s = to_int32 (strtol10 s)"

lemma to_int32_range: "- (2 ^ 31) \<le> to_int32 v \<and> to_int32 v < 2 ^ 31"
  unfolding to_int32_def by auto

lemma to_int32_id: "- (2 ^ 31) \<le> v \<Longrightarrow> v < 2 ^ 31 \<Longrightarrow> to_int32 v = v"
  unfolding to_int32_def by simp

subsection \<open>Decimal printing\<close>

fun dec_nat :: "nat \<Rightarrow> string" where
  "dec_nat n = (if n < 10 then [char_of (n + 48)] else dec_nat (n div 10) @ [char_of (n mod 10 + 48)])"

declare dec_nat.simps [simp del]

definition dec_int :: "int \<Rightarrow> string" where
  "dec_int i = (if i < 0 then CHR ''-'' # dec_nat (nat (- i)) else dec_nat (nat i))"

lemma dec_nat_nonempty [simp]: "dec_nat n \<noteq> []"
  by (subst dec_nat.simps) simp

lemma digit_char_val: "d < 10 \<Longrightarrow> digit_val (char_of (d + 48)) = Some d"
  by (simp add: digit_val_def Let_def of_char_of)

lemma digits_val_append:
  "\<forall>c \<in> set s. \<exists>d < b. digit_val c = Some d \<Longrightarrow> digits_val b acc (s @ t) = digits_val b (digits_val b acc s) t"
  by (induction s arbitrary: acc) auto

lemma dec_nat_digits: "\<forall>c \<in> set (dec_nat n). \<exists>d < 10. digit_val c = Some d"
proof (induction n rule: dec_nat.induct)
  case (1 n)
  then show ?case by (subst dec_nat.simps) (auto simp: digit_char_val)
qed

lemma digits_val_dec_nat: "digits_val 10 0 (dec_nat n) = n"
proof (induction n rule: dec_nat.induct)
  case (1 n)
  show ?case
  proof (cases "n < 10")
    case True
    then show ?thesis by (subst dec_nat.simps) (simp add: digit_char_val)
  next
    case False
    then have "digits_val 10 0 (dec_nat n) = digits_val 10 (n div 10) [char_of (n mod 10 + 48)]"
      using 1 dec_nat_digits [of "n div 10"] by (subst dec_nat.simps) (simp add: digits_val_append)
    then show ?thesis by (simp add: digit_char_val)
  qed
qed

lemma digit_char_plain:
  assumes "digit_val c = Some d" and "d < 10"
  shows "\<not> c_isspace c" and "c \<noteq> CHR ''-''" and "c \<noteq> CHR ''+''" and "c \<noteq> CHR ''/''" and "c \<noteq> CHR '':''" and "c_isdigit c"
  using assms by (auto simp: digit_val_def Let_def c_isspace_def c_isdigit_def split: if_splits)

lemma atoi_dec_nat: "n < 2 ^ 31 \<Longrightarrow> atoi (dec_nat n) = int n"
proof -
  assume n: "n < 2 ^ 31"
  obtain c t where ct: "dec_nat n = c # t" by (cases "dec_nat n") (auto simp: dec_nat_nonempty)
  then obtain d where "digit_val c = Some d" "d < 10" using dec_nat_digits [of n] by auto
  note p = digit_char_plain [OF this]
  have "strtol10 (dec_nat n) = int n"
    using p n digits_val_dec_nat [of n] by (simp add: strtol10_def ct Let_def)
  then show ?thesis using n by (simp add: atoi_def to_int32_id)
qed

lemma dec_nat_length: "n < 10 ^ k \<Longrightarrow> 0 < k \<Longrightarrow> length (dec_nat n) \<le> k"
proof (induction n arbitrary: k rule: dec_nat.induct)
  case (1 n)
  show ?case
  proof (cases "n < 10")
    case True
    then show ?thesis using 1 by (subst dec_nat.simps) simp
  next
    case False
    then obtain j where k: "k = Suc j" "0 < j" using 1 by (cases k; cases "k - 1") auto
    then have "n div 10 < 10 ^ j" using 1 by (simp add: less_mult_imp_div_less mult.commute)
    then show ?thesis using 1 False k by (subst dec_nat.simps) fastforce
  qed
qed

definition pad_right :: "nat \<Rightarrow> string \<Rightarrow> string" where
  "pad_right n s = s @ replicate (n - length s) (CHR '' '')"

definition pad_left :: "nat \<Rightarrow> char \<Rightarrow> string \<Rightarrow> string" where
  "pad_left n c s = replicate (n - length s) c @ s"

lemma length_pad [simp]:
  "length (pad_right n s) = max n (length s)" "length (pad_left n c s) = max n (length s)"
  by (auto simp: pad_right_def pad_left_def)

definition hex_digit :: "nat \<Rightarrow> char" where
  "hex_digit n = (''0123456789abcdef'' ! n)"

definition hex2 :: "char \<Rightarrow> string" where
  "hex2 c = [hex_digit ((of_char c :: nat) div 16), hex_digit ((of_char c :: nat) mod 16)]"

fun hex_nat :: "nat \<Rightarrow> string" where
  "hex_nat n = (if n < 16 then [hex_digit n] else hex_nat (n div 16) @ [hex_digit (n mod 16)])"

declare hex_nat.simps [simp del]

lemma hex_nat_length: "n < 16 ^ k \<Longrightarrow> 0 < k \<Longrightarrow> length (hex_nat n) \<le> k"
proof (induction n arbitrary: k rule: hex_nat.induct)
  case (1 n)
  show ?case
  proof (cases "n < 16")
    case True
    then show ?thesis using 1 by (subst hex_nat.simps) simp
  next
    case False
    then obtain j where k: "k = Suc j" "0 < j" using 1 by (cases k; cases "k - 1") auto
    then have "n div 16 < 16 ^ j" using 1 by (simp add: less_mult_imp_div_less mult.commute)
    then show ?thesis using 1 False k by (subst hex_nat.simps) fastforce
  qed
qed

end
