(* ===== verification/C_Stdio.thy ===== *)
theory C_Stdio
  imports Prelude
begin

text \<open>
  The C run-time services the components share: allocation outcomes, \<open>fopen\<close> on a store of
  files, fixed-width little-endian integers in files and messages, \<open>strncpy\<close> into a
  zero-filled array, the accumulating \<open>snprintf\<close> idiom
  \<open>pos += snprintf(buf + pos, size - pos, ...)\<close>, the \<open>sscanf\<close> conversions
  \<open>%Ns\<close> and \<open>%N[^set]\<close>, and \<open>fgets\<close>.
\<close>

subsection \<open>Allocation\<close>

text \<open>
  Whether each call of \<open>malloc\<close>, \<open>calloc\<close> or \<open>strdup\<close> succeeds is decided by the
  environment: a script lists the outcomes of the next calls; past its end every call succeeds.
\<close>

type_synonym alloc_script = "bool list"

fun next_alloc :: "alloc_script \<Rightarrow> bool \<times> alloc_script" where
  "next_alloc [] = (True, [])"
| "next_alloc (b # bs) = (b, bs)"

subsection \<open>Files\<close>

text \<open>
  \<open>fopen\<close> follows the C standard: \<open>r\<close> and \<open>r+\<close> need an existing file, \<open>w\<close>
  and \<open>w+\<close> create or truncate it, \<open>a\<close> and \<open>a+\<close> create it and keep its content.
  Any other reason to fail (permissions, descriptor limits) is the parameter \<open>can\<close>.
\<close>

datatype fmode = ModeR | ModeRPlus | ModeW | ModeA

definition fopen :: "(path \<Rightarrow> fmode \<Rightarrow> bool) \<Rightarrow> fstore \<Rightarrow> path \<Rightarrow> fmode \<Rightarrow> fstore option" where
  "fopen can fs p m =
     (if \<not> can p m then None
      else case m of
        ModeW \<Rightarrow> Some (fs(p \<mapsto> []))
      | ModeA \<Rightarrow> Some (case fs p of None \<Rightarrow> fs(p \<mapsto> []) | Some _ \<Rightarrow> fs)
      | _ \<Rightarrow> (case fs p of None \<Rightarrow> None | Some _ \<Rightarrow> Some fs))"

definition fappend :: "path \<Rightarrow> bytes \<Rightarrow> fstore \<Rightarrow> fstore" where
  "fappend p b fs = fs(p \<mapsto> (case fs p of None \<Rightarrow> b | Some old \<Rightarrow> old @ b))"

subsection \<open>Little-endian 32-bit integers\<close>

definition le32 :: "32 word \<Rightarrow> bytes" where
  "le32 w = (let n = unat w in
     [char_of (n mod 256), char_of (n div 256 mod 256),
      char_of (n div 65536 mod 256), char_of (n div 16777216 mod 256)])"

definition le32_val :: "bytes \<Rightarrow> nat" where
  "le32_val b = foldr (\<lambda>c acc. of_char c + 256 * acc) b 0"

lemma length_le32 [simp]: "length (le32 w) = 4"
  by (simp add: le32_def Let_def)

lemma of_char_char_of_mod [simp]: "(of_char (char_of (n mod 256) :: char) :: nat) = n mod 256"
  by (simp add: of_char_of)

lemma le32_roundtrip: "le32_val (le32 w) = unat w"
proof -
  define n where "n = unat w"
  have n: "n < 4294967296" using unsigned_less [of w] by (simp add: n_def)
  define a where "a = n div 256"
  define b where "b = a div 256"
  define c where "c = b div 256"
  have ab: "n div 65536 = b" and ac: "n div 16777216 = c"
    by (simp_all add: a_def b_def c_def flip: div_mult2_eq)
  have "c < 256" using n by (simp add: c_def b_def a_def flip: div_mult2_eq)
  then have "n mod 256 + 256 * (a mod 256 + 256 * (b mod 256 + 256 * (c mod 256))) = n"
    by (simp add: a_def b_def c_def)
  then have "n mod 256 + 256 * (n div 256 mod 256 + 256 * (n div 65536 mod 256 + 256 * (n div 16777216 mod 256))) = n"
    unfolding ab ac by (simp add: a_def)
  moreover have "n div 16777216 mod 256 = n div 16777216" using \<open>c < 256\<close> ac by simp
  ultimately show ?thesis by (simp add: le32_def le32_val_def Let_def of_char_of flip: n_def)
qed

lemma le32_of_nat: "n < 2 ^ 32 \<Longrightarrow> le32_val (le32 (of_nat n)) = n"
  by (simp add: le32_roundtrip unat_of_nat)

text \<open>\<open>fread(&x, 4, 1, f)\<close>: the integer and the rest of the file, if four bytes are left.\<close>

definition read_le32 :: "bytes \<Rightarrow> (nat \<times> bytes) option" where
  "read_le32 b = (if length b < 4 then None else Some (le32_val (take 4 b), drop 4 b))"

lemma read_le32_append [simp]: "read_le32 (le32 w @ b) = Some (unat w, b)"
  by (simp add: read_le32_def le32_roundtrip)

definition fread_n :: "nat \<Rightarrow> bytes \<Rightarrow> (bytes \<times> bytes) option" where
  "fread_n n b = (if length b < n then None else Some (take n b, drop n b))"

lemma fread_n_append [simp]: "length s = n \<Longrightarrow> fread_n n (s @ b) = Some (s, b)"
  by (simp add: fread_n_def)

subsection \<open>strncpy\<close>

text \<open>
  \<open>strncpy(dst, src, n)\<close> into a zero-filled array of more than \<open>n\<close> bytes: the C string it
  then holds.
\<close>

definition strncpy0 :: "nat \<Rightarrow> string \<Rightarrow> string" where
  "strncpy0 n s = take n s"

subsection \<open>Accumulating snprintf\<close>

text \<open>
  \<open>snprintf(buf, size, ...)\<close> stores at most \<open>size - 1\<close> characters and a \<open>NUL\<close> and
  returns the length it would have needed. The idiom
  \<open>pos += snprintf(buf + pos, size - pos, ...)\<close> keeps the characters stored so far and
  \<open>pos\<close>. Once \<open>pos\<close> exceeds \<open>size\<close> the subtraction wraps around in \<open>size_t\<close>
  and the next call writes outside the buffer: that is \<^const>\<open>None\<close>.
\<close>

type_synonym sbuf = "string \<times> nat"

definition snp :: "nat \<Rightarrow> string \<Rightarrow> sbuf \<Rightarrow> sbuf option" where
  "snp sz s st = (case st of (b, pos) \<Rightarrow>
     if sz < pos then None
     else Some (b @ take (sz - pos - 1) s, pos + length s))"

fun snp_all :: "nat \<Rightarrow> string list \<Rightarrow> sbuf \<Rightarrow> sbuf option" where
  "snp_all sz [] st = Some st"
| "snp_all sz (s # ss) st = (case snp sz s st of None \<Rightarrow> None | Some st' \<Rightarrow> snp_all sz ss st')"

lemma snp_fits [simp]:
  "pos + length s < sz \<Longrightarrow> snp sz s (b, pos) = Some (b @ s, pos + length s)"
  by (simp add: snp_def)

lemma snp_overrun [simp]: "sz < pos \<Longrightarrow> snp sz s (b, pos) = None"
  by (simp add: snp_def)

lemma snp_all_append:
  "snp_all sz (ss @ ts) st =
     (case snp_all sz ss st of None \<Rightarrow> None | Some st' \<Rightarrow> snp_all sz ts st')"
  by (induction ss arbitrary: st) (auto split: option.splits)

lemma snp_all_fits:
  "pos + length (concat ss) < sz \<Longrightarrow>
   snp_all sz ss (b, pos) = Some (b @ concat ss, pos + length (concat ss))"
proof (induction ss arbitrary: b pos)
  case Nil
  then show ?case by simp
next
  case (Cons s ss)
  from Cons.prems have "pos + length s < sz" and "pos + length s + length (concat ss) < sz"
    by simp_all
  then show ?case using Cons.IH [of "pos + length s" "b @ s"] by (simp add: add.assoc)
qed

text \<open>Whatever the pieces, the characters stored never exceed the buffer while it is in bounds.\<close>

lemma snp_stored:
  assumes "snp sz s (b, pos) = Some (b', pos')" and "length b \<le> pos" and "length b < sz"
  shows "length b' \<le> pos' \<and> length b' < sz"
  using assms by (auto simp: snp_def min_def split: if_splits)

lemma snp_all_stored:
  "snp_all sz ss (b, pos) = Some (b', pos') \<Longrightarrow> length b \<le> pos \<Longrightarrow> length b < sz \<Longrightarrow>
   length b' \<le> pos' \<and> length b' < sz"
proof (induction ss arbitrary: b pos)
  case Nil
  then show ?case by simp
next
  case (Cons s ss)
  then obtain c q where step: "snp sz s (b, pos) = Some (c, q)"
    and rest: "snp_all sz ss (c, q) = Some (b', pos')"
    by (auto split: option.splits)
  from snp_stored [OF step Cons.prems(2,3)] show ?case using Cons.IH [OF rest] by blast
qed

lemma snp_all_pos:
  "snp_all sz ss (b, pos) = Some (b', pos') \<Longrightarrow> pos' = pos + length (concat ss)"
proof (induction ss arbitrary: b pos)
  case Nil
  then show ?case by simp
next
  case (Cons s ss)
  then obtain c where "snp_all sz ss (c, pos + length s) = Some (b', pos')"
    by (auto simp: snp_def split: option.splits if_splits)
  then show ?case using Cons.IH by fastforce
qed

text \<open>The overrun happens exactly when all but the last piece already exceed the buffer.\<close>

lemma snp_all_overrun:
  assumes "sz < pos + length (concat ss)" and "t \<noteq> []"
  shows "snp_all sz (ss @ t) (b, pos) = None"
proof (cases "snp_all sz ss (b, pos)")
  case None
  then show ?thesis by (simp add: snp_all_append)
next
  case (Some st)
  then obtain b' where "snp_all sz ss (b, pos) = Some (b', pos + length (concat ss))"
    by (metis snp_all_pos surj_pair)
  with assms show ?thesis by (cases t) (simp_all add: snp_all_append)
qed

subsection \<open>sscanf\<close>

text \<open>
  \<open>%Ns\<close>: skip white space, then take at most \<open>N\<close> characters up to white space; the
  conversion fails at the end of the input. \<open>%N[...]\<close> takes at most \<open>N\<close> characters of a
  set, and at least one, without skipping.
\<close>

definition scan_s :: "nat \<Rightarrow> string \<Rightarrow> (string \<times> string) option" where
  "scan_s n s =
     (let r = dropWhile c_isspace s; w = take n (takeWhile (\<lambda>c. \<not> c_isspace c) r)
      in if w = [] then None else Some (w, drop (length w) r))"

definition scan_set :: "nat \<Rightarrow> (char \<Rightarrow> bool) \<Rightarrow> string \<Rightarrow> (string \<times> string) option" where
  "scan_set n ok s =
     (let w = take n (takeWhile ok s) in if w = [] then None else Some (w, drop (length w) s))"

lemma scan_s_bound: "scan_s n s = Some (w, r) \<Longrightarrow> w \<noteq> [] \<and> length w \<le> n"
  by (auto simp: scan_s_def Let_def split: if_splits)

lemma scan_set_bound: "scan_set n ok s = Some (w, r) \<Longrightarrow> w \<noteq> [] \<and> length w \<le> n"
  by (auto simp: scan_set_def Let_def split: if_splits)

lemma scan_s_nospace: "scan_s n s = Some (w, r) \<Longrightarrow> c \<in> set w \<Longrightarrow> \<not> c_isspace c"
  by (auto simp: scan_s_def Let_def split: if_splits dest!: in_set_takeD set_takeWhileD)

text \<open>A token followed by white space is read back whole.\<close>

lemma scan_s_token:
  assumes "w \<noteq> []" and "length w \<le> n" and "\<forall>c \<in> set w. \<not> c_isspace c"
    and "r = [] \<or> c_isspace (hd r)"
  shows "scan_s n (w @ r) = Some (w, r)"
proof -
  have d: "dropWhile c_isspace (w @ r) = w @ r"
    using assms(1,3) by (cases w) auto
  have "takeWhile (\<lambda>c. \<not> c_isspace c) r = []"
    using assms(4) by (cases r) auto
  then have t: "takeWhile (\<lambda>c. \<not> c_isspace c) (w @ r) = w"
    using assms(3) by (simp add: takeWhile_append2)
  have "take n w = w" using assms(2) by simp
  then show ?thesis using assms(1) unfolding scan_s_def d t Let_def by simp
qed

lemma scan_s_skip: "c_isspace c \<Longrightarrow> scan_s n (c # s) = scan_s n s"
  by (simp add: scan_s_def)

subsection \<open>Lines\<close>

text \<open>
  \<open>fgets(line, n, fp)\<close>: at most \<open>n - 1\<close> characters up to and with the first line end. A longer line is
  delivered in pieces.
\<close>

definition fgets1 :: "nat \<Rightarrow> bytes \<Rightarrow> bytes" where
  "fgets1 n b = (let l = take (n - 1) b; h = takeWhile (\<lambda>c. c \<noteq> LF) l
     in if length h < length l then h @ [LF] else h)"

lemma fgets1_take: "fgets1 n b = take (length (fgets1 n b)) b \<and> length (fgets1 n b) \<le> n - 1"
proof -
  define l where "l = take (n - 1) b"
  define h where "h = takeWhile (\<lambda>c. c \<noteq> LF) l"
  have h: "h = take (length h) l" unfolding h_def by (rule takeWhile_eq_take)
  have ll: "length l \<le> n - 1" by (simp add: l_def)
  have g: "fgets1 n b = (if length h < length l then h @ [LF] else h)"
    unfolding fgets1_def Let_def h_def l_def ..
  show ?thesis
  proof (cases "length h < length l")
    case True
    then have "l ! length h = LF" using nth_length_takeWhile [of "\<lambda>c. c \<noteq> LF" l] by (simp add: h_def)
    then have "h @ [LF] = take (Suc (length h)) l" using h True by (simp add: take_Suc_conv_app_nth)
    also have "\<dots> = take (Suc (length h)) b" using True by (auto simp: l_def)
    finally have e: "h @ [LF] = take (Suc (length h)) b" .
    have "length (h @ [LF]) = Suc (length h)" by simp
    then show ?thesis using True ll e unfolding g if_P [OF True] by (metis Suc_leI le_trans)
  next
    case False
    then have "h = l" using h by simp
    then have "fgets1 n b = l" by (simp add: g)
    moreover have "take (length l) b = l" by (simp add: l_def min_def)
    ultimately show ?thesis using ll by simp
  qed
qed

lemma fgets1_empty: "1 < n \<Longrightarrow> fgets1 n b = [] \<longleftrightarrow> b = []"
  by (cases b; cases "n - 1") (auto simp: fgets1_def Let_def)

text \<open>
  The lines a loop over \<open>fgets\<close> sees. A buffer of one byte holds no character, so the loop would not end
  there; the sources use 256 and more.
\<close>

function fgets_lines :: "nat \<Rightarrow> bytes \<Rightarrow> bytes list" where
  "fgets_lines n b = (if b = [] \<or> n \<le> 1 then [] else fgets1 n b # fgets_lines n (drop (length (fgets1 n b)) b))"
  by pat_completeness auto
termination by (relation "measure (\<lambda>(n, b). length b)") (auto simp: fgets1_empty)

declare fgets_lines.simps [simp del]

lemma fgets_lines_concat: "1 < n \<Longrightarrow> concat (fgets_lines n b) = b"
proof (induction n b rule: fgets_lines.induct)
  case (1 n b)
  show ?case
  proof (cases "b = []")
    case True
    then show ?thesis by (simp add: fgets_lines.simps)
  next
    case False
    have "fgets1 n b @ drop (length (fgets1 n b)) b = b"
      using fgets1_take [of n b] by (metis append_take_drop_id)
    then show ?thesis using 1 False by (subst fgets_lines.simps) simp
  qed
qed

lemma fgets1_line:
  assumes "LF \<notin> set l" and "length l + 1 < n"
  shows "fgets1 n (l @ LF # r) = l @ [LF]"
proof -
  have t: "take (n - 1) (l @ LF # r) = l @ LF # take (n - 2 - length l) r"
    using assms(2) by (simp add: take_Cons' numeral_2_eq_2)
  have "takeWhile (\<lambda>c. c \<noteq> LF) (l @ LF # x) = l" for x
    using assms(1) by (subst takeWhile_append2) auto
  then show ?thesis unfolding fgets1_def Let_def t by simp
qed

lemma fgets_lines_line:
  assumes "LF \<notin> set l" and "length l + 1 < n"
  shows "fgets_lines n (l @ LF # r) = (l @ [LF]) # fgets_lines n r"
  using fgets1_line [OF assms] assms(2) by (subst fgets_lines.simps) simp

lemma fgets_lines_nil [simp]: "fgets_lines n [] = []"
  by (simp add: fgets_lines.simps)

lemma fgets_lines_lines:
  "list_all (\<lambda>l. LF \<notin> set l \<and> length l + 1 < n) ls \<Longrightarrow>
   fgets_lines n (concat (map (\<lambda>l. l @ [LF]) ls)) = map (\<lambda>l. l @ [LF]) ls"
  by (induction ls) (simp_all add: fgets_lines_line)

subsection \<open>Sending on a socket\<close>

text \<open>
  The loop every server uses to send a buffer: \<open>send\<close> takes some of the bytes or fails. The results
  of the calls are a script; past its end each call takes all that is left. The value is the
  return code of the loop and the bytes the peer receives.
\<close>

function send_all :: "int list \<Rightarrow> bytes \<Rightarrow> int \<times> bytes" where
  "send_all ns [] = (0, [])"
| "send_all [] (b # bs) = (0, b # bs)"
| "send_all (n # ns) (b # bs) =
     (if n \<le> 0 then (-1, [])
      else case send_all ns (drop (nat n) (b # bs)) of
        (r, out) \<Rightarrow> (r, take (nat n) (b # bs) @ out))"
  by pat_completeness auto
termination by (relation "measure (\<lambda>(ns, b). length b)") auto

lemma send_all_complete: "\<forall>n \<in> set ns. 0 < n \<Longrightarrow> send_all ns b = (0, b)"
proof (induction ns b rule: send_all.induct)
  case (3 n ns b bs)
  then have pos: "0 < n" and IH: "send_all ns (drop (nat n) (b # bs)) = (0, drop (nat n) (b # bs))" by auto
  show ?case unfolding send_all.simps(3) IH using pos by (simp add: append_take_drop_id del: append_take_drop_id drop_Cons' take_Cons') (metis append_take_drop_id)
qed auto

lemma send_all_prefix: "\<exists>rest. b = snd (send_all ns b) @ rest"
proof (induction ns b rule: send_all.induct)
  case (3 n ns b bs)
  show ?case
  proof (cases "n \<le> 0")
    case False
    then obtain rest where "drop (nat n) (b # bs) = snd (send_all ns (drop (nat n) (b # bs))) @ rest" using 3 by auto
    then have "b # bs = (take (nat n) (b # bs) @ snd (send_all ns (drop (nat n) (b # bs)))) @ rest"
      by (metis append.assoc append_take_drop_id)
    then show ?thesis using False by (auto split: prod.splits)
  qed simp
qed auto

lemma send_all_result: "send_all ns b = (r, out) \<Longrightarrow> (r = 0 \<and> out = b) \<or> r = -1"
proof (induction ns b arbitrary: out rule: send_all.induct)
  case (3 n ns b bs)
  show ?case
  proof (cases "n \<le> 0")
    case True
    then show ?thesis using 3(2) by simp
  next
    case False
    obtain r' out' where d: "send_all ns (drop (nat n) (b # bs)) = (r', out')" by (metis prod.exhaust)
    then have eq: "r = r'" "out = take (nat n) (b # bs) @ out'" using 3(2) False by auto
    from 3(1) [OF False, of out'] d eq(1) have "(r = 0 \<and> out' = drop (nat n) (b # bs)) \<or> r = -1" by simp
    then show ?thesis using eq(2) by (metis append_take_drop_id)
  qed
qed auto

end
