(* ===== verification/Map_Store.thy ===== *)
theory Map_Store
  imports Main
begin

text \<open>
  The contract of a key-value table: what a lookup returns after an insertion or a removal, and
  that the entry counter is the number of keys. Clients of a table (a database, a loader of
  saved entries) reason from these laws only. The locale is interpreted by the hash table of
  the key-value database.
\<close>

datatype ('k, 'v) map_op = MSet 'k 'v | MDel 'k

fun abs_op :: "('k, 'v) map_op \<Rightarrow> ('k \<rightharpoonup> 'v) \<Rightarrow> ('k \<rightharpoonup> 'v)" where
  "abs_op (MSet k v) f = f(k \<mapsto> v)"
| "abs_op (MDel k) f = f(k := None)"

locale map_store =
  fixes lookup :: "'m \<Rightarrow> 'k \<Rightarrow> 'v option"
    and put :: "'m \<Rightarrow> 'k \<Rightarrow> 'v \<Rightarrow> 'm"
    and del :: "'m \<Rightarrow> 'k \<Rightarrow> 'm"
    and count :: "'m \<Rightarrow> nat"
    and invar :: "'m \<Rightarrow> bool"
  assumes lookup_put: "invar m \<Longrightarrow> lookup (put m k v) = (lookup m)(k \<mapsto> v)"
    and lookup_del: "invar m \<Longrightarrow> lookup (del m k) = (lookup m)(k := None)"
    and invar_put: "invar m \<Longrightarrow> invar (put m k v)"
    and invar_del: "invar m \<Longrightarrow> invar (del m k)"
    and finite_dom: "invar m \<Longrightarrow> finite (dom (lookup m))"
    and count_card: "invar m \<Longrightarrow> count m = card (dom (lookup m))"
begin

fun do_op :: "('k, 'v) map_op \<Rightarrow> 'm \<Rightarrow> 'm" where
  "do_op (MSet k v) m = put m k v"
| "do_op (MDel k) m = del m k"

lemma do_op_refines: "invar m \<Longrightarrow> invar (do_op x m) \<and> lookup (do_op x m) = abs_op x (lookup m)"
  by (cases x) (simp_all add: lookup_put lookup_del invar_put invar_del)

text \<open>Any sequence of operations on the table is the same sequence on the partial map.\<close>

lemma run_refines:
  "invar m \<Longrightarrow> invar (fold do_op xs m) \<and> lookup (fold do_op xs m) = fold abs_op xs (lookup m)"
proof (induction xs arbitrary: m)
  case Nil
  then show ?case by simp
next
  case (Cons x xs)
  then show ?case using do_op_refines [of m x] by simp
qed

text \<open>Inserting a list of entries one after the other: later entries win.\<close>

lemma put_all:
  "invar m \<Longrightarrow> invar (fold (\<lambda>(k, v) m. put m k v) kvs m) \<and>
   lookup (fold (\<lambda>(k, v) m. put m k v) kvs m) = lookup m ++ map_of (rev kvs)"
proof (induction kvs arbitrary: m)
  case Nil
  then show ?case by simp
next
  case (Cons kv kvs)
  obtain k v where kv: "kv = (k, v)" by (cases kv)
  have "invar (put m k v)" using Cons.prems by (rule invar_put)
  note IH = Cons.IH [OF this]
  have "lookup (put m k v) ++ map_of (rev kvs) = lookup m ++ map_of (rev (kv # kvs))"
    by (simp add: kv lookup_put [OF Cons.prems])
  with IH show ?case by (simp add: kv)
qed

lemma count_put_fresh: "invar m \<Longrightarrow> lookup m k = None \<Longrightarrow> count (put m k v) = Suc (count m)"
  by (simp add: count_card invar_put lookup_put finite_dom dom_def [symmetric] domIff)

lemma count_del_present: "invar m \<Longrightarrow> lookup m k = Some v \<Longrightarrow> count (del m k) = count m - 1"
  by (simp add: count_card invar_del lookup_del finite_dom domIff card_Diff_singleton_if)

end

end
