(* ===== verification/Kvdb.thy ===== *)
theory Kvdb
  imports C_Stdio Map_Store
begin

text \<open>
  The key-value database of \<open>kv-database/src/kvdb.c\<close>: the chained hash table with its
  32-bit string hash, the database handle with its error codes, modes and counters, the
  write-ahead log records, and the data file format written by \<open>kvdb_close\<close> and read by
  \<open>kvdb_open\<close>. A chain of nodes is owned by its bucket and is a list; a node's
  \<open>value_size\<close> is the length of its value. The reader/writer lock makes every operation
  atomic and is not part of the state. \<open>time(NULL)\<close> and the outcome of each allocation are
  arguments; file writes are taken to succeed.
\<close>

unbundle bit_operations_syntax

subsection \<open>The hash table\<close>

record kv_node =
  kv_key :: string
  kv_value :: bytes
  kv_created :: int
  kv_modified :: int

record hashmap =
  buckets :: "kv_node list list"
  capacity :: nat
  hm_size :: nat

fun hash_loop :: "bool \<Rightarrow> 32 word \<Rightarrow> string \<Rightarrow> 32 word" where
  "hash_loop sc h [] = h"
| "hash_loop sc h (c # s) = hash_loop sc ((push_bit 5 h + h) + word_of_int (char_to_int sc c)) s"

definition hash_string :: "bool \<Rightarrow> string \<Rightarrow> 32 word" where
  "hash_string sc s = hash_loop sc 5381 s"

definition bucket_of :: "bool \<Rightarrow> nat \<Rightarrow> string \<Rightarrow> nat" where
  "bucket_of sc cap k = unat (hash_string sc k) mod cap"

definition hashmap_create :: "alloc_script \<Rightarrow> nat \<Rightarrow> hashmap option \<times> alloc_script" where
  "hashmap_create al cap =
     (let (ok1, al1) = next_alloc al in
      if \<not> ok1 then (None, al1)
      else let (ok2, al2) = next_alloc al1 in
        if \<not> ok2 then (None, al2)
        else (Some \<lparr>buckets = replicate cap [], capacity = cap, hm_size = 0\<rparr>, al2))"

text \<open>The nodes \<open>hashmap_destroy\<close> releases, in the order it walks the buckets.\<close>

definition hashmap_destroy :: "hashmap \<Rightarrow> kv_node list" where
  "hashmap_destroy m = concat (map (\<lambda>i. buckets m ! i) [0..<capacity m])"

fun find_chain :: "string \<Rightarrow> kv_node list \<Rightarrow> kv_node option" where
  "find_chain k [] = None"
| "find_chain k (n # ns) = (if kv_key n = k then Some n else find_chain k ns)"

definition hashmap_find :: "bool \<Rightarrow> hashmap \<Rightarrow> string \<Rightarrow> kv_node option" where
  "hashmap_find sc m k = find_chain k (buckets m ! bucket_of sc (capacity m) k)"

fun update_chain :: "string \<Rightarrow> bytes \<Rightarrow> int \<Rightarrow> kv_node list \<Rightarrow> kv_node list" where
  "update_chain k v now [] = []"
| "update_chain k v now (n # ns) =
     (if kv_key n = k then n\<lparr>kv_value := v, kv_modified := now\<rparr> # ns
      else n # update_chain k v now ns)"

definition hashmap_insert ::
  "bool \<Rightarrow> alloc_script \<Rightarrow> int \<Rightarrow> hashmap \<Rightarrow> string \<Rightarrow> bytes \<Rightarrow> int \<times> hashmap \<times> alloc_script" where
  "hashmap_insert sc al now m k v =
     (let h = bucket_of sc (capacity m) k in
      case hashmap_find sc m k of
        Some existing \<Rightarrow>
          (let (ok, al1) = next_alloc al in
           if \<not> ok then (-1, m, al1)
           else (0, m\<lparr>buckets := (buckets m)[h := update_chain k v now (buckets m ! h)]\<rparr>, al1))
      | None \<Rightarrow>
          (let (ok1, al1) = next_alloc al in
           if \<not> ok1 then (-1, m, al1)
           else let (ok2, al2) = next_alloc al1 in
             if \<not> ok2 then (-1, m, al2)
             else let (ok3, al3) = next_alloc al2 in
               if \<not> ok3 then (-1, m, al3)
               else let node = \<lparr>kv_key = k, kv_value = v, kv_created = now, kv_modified = now\<rparr> in
                 (0, m\<lparr>buckets := (buckets m)[h := node # buckets m ! h],
                       hm_size := hm_size m + 1\<rparr>, al3)))"

fun remove_chain :: "string \<Rightarrow> kv_node list \<Rightarrow> kv_node list option" where
  "remove_chain k [] = None"
| "remove_chain k (n # ns) =
     (if kv_key n = k then Some ns else map_option (\<lambda>r. n # r) (remove_chain k ns))"

definition hashmap_remove :: "bool \<Rightarrow> hashmap \<Rightarrow> string \<Rightarrow> int \<times> hashmap" where
  "hashmap_remove sc m k =
     (let h = bucket_of sc (capacity m) k in
      case remove_chain k (buckets m ! h) of
        None \<Rightarrow> (-1, m)
      | Some ns \<Rightarrow> (0, m\<lparr>buckets := (buckets m)[h := ns], hm_size := hm_size m - 1\<rparr>))"

subsection \<open>The database handle\<close>

datatype kvdb_err = KVDB_OK | KVDB_ERR_NOT_FOUND | KVDB_ERR_KEY_TOO_LONG
  | KVDB_ERR_VALUE_TOO_LONG | KVDB_ERR_DISK_FULL | KVDB_ERR_CORRUPTED | KVDB_ERR_LOCK
  | KVDB_ERR_READONLY | KVDB_ERR_OUT_OF_MEMORY

datatype kvdb_mode = KVDB_MODE_READWRITE | KVDB_MODE_READONLY | KVDB_MODE_CREATE

record kvdb_config =
  db_path :: path
  db_mode :: kvdb_mode
  cache_size :: nat
  enable_wal :: bool
  enable_compression :: bool
  auto_compact :: bool

datatype wal_op = WAL_OP_SET | WAL_OP_DELETE | WAL_OP_COMMIT | WAL_OP_ROLLBACK

text \<open>A log record as written: the entry header and, after it, the value bytes of a set.\<close>

record wal_entry =
  wal_opcode :: wal_op
  wal_txn :: int
  wal_key :: string
  wal_value_size :: nat
  wal_payload :: bytes

record kvdb =
  db_config :: kvdb_config
  db_map :: hashmap
  wal_file :: "wal_entry list option"
  cache_hits :: nat
  cache_misses :: nat
  read_ops :: nat
  write_ops :: nat
  created_at :: int
  last_modified :: int
  next_txn_id :: int

definition KVDB_MAX_KEY_SIZE :: nat where "KVDB_MAX_KEY_SIZE = 256"
definition KVDB_MAX_VALUE_SIZE :: nat where "KVDB_MAX_VALUE_SIZE = 65536"
definition KVDB_DEFAULT_CAPACITY :: nat where "KVDB_DEFAULT_CAPACITY = 1024"

lemmas kvdb_limits [c_limits] = KVDB_MAX_KEY_SIZE_def KVDB_MAX_VALUE_SIZE_def KVDB_DEFAULT_CAPACITY_def

text \<open>
  The loading loop of \<open>kvdb_open\<close>. A record with \<open>key_len = 256\<close> passes the length
  check and then \<open>key[key_len] = 0\<close> writes one byte past \<open>char key[256]\<close>: undefined
  behaviour, \<^const>\<open>None\<close>.
\<close>

function load_entries ::
  "bool \<Rightarrow> int \<Rightarrow> alloc_script \<Rightarrow> hashmap \<Rightarrow> bytes \<Rightarrow> (hashmap \<times> alloc_script) option" where
  "load_entries sc now al m b =
     (case read_le32 b of
        None \<Rightarrow> Some (m, al)
      | Some (klen, b1) \<Rightarrow>
          if klen > KVDB_MAX_KEY_SIZE then Some (m, al)
          else case fread_n klen b1 of
            None \<Rightarrow> Some (m, al)
          | Some (kb, b2) \<Rightarrow>
              if klen = KVDB_MAX_KEY_SIZE then None
              else case read_le32 b2 of
                None \<Rightarrow> Some (m, al)
              | Some (vlen, b3) \<Rightarrow>
                  if vlen > KVDB_MAX_VALUE_SIZE then Some (m, al)
                  else let (ok, al1) = next_alloc al in
                    if \<not> ok then Some (m, al1)
                    else case fread_n vlen b3 of
                      None \<Rightarrow> Some (m, al1)
                    | Some (v, b4) \<Rightarrow>
                        (case hashmap_insert sc al1 now m (cstr kb) v of
                           (_, m', al2) \<Rightarrow> load_entries sc now al2 m' b4))"
  by pat_completeness auto
termination
  by (relation "measure (\<lambda>(sc, now, al, m, b). length b)")
    (auto simp: read_le32_def fread_n_def split: if_splits)

declare load_entries.simps [simp del]

datatype open_result = OpenNull | OpenOverrun | Opened kvdb

definition kvdb_open ::
  "bool \<Rightarrow> (path \<Rightarrow> fmode \<Rightarrow> bool) \<Rightarrow> int \<Rightarrow> alloc_script \<Rightarrow> kvdb_config \<Rightarrow> fstore \<Rightarrow> open_result \<times> fstore" where
  "kvdb_open sc can now al cfg fs =
     (let (ok, al1) = next_alloc al in
      if \<not> ok then (OpenNull, fs)
      else case hashmap_create al1 KVDB_DEFAULT_CAPACITY of
        (None, _) \<Rightarrow> (OpenNull, fs)
      | (Some hm, al2) \<Rightarrow>
          (let mode = (if db_mode cfg = KVDB_MODE_CREATE then ModeW
                       else if db_mode cfg = KVDB_MODE_READONLY then ModeR else ModeRPlus);
               opened = (case fopen can fs (db_path cfg) mode of
                           Some fs1 \<Rightarrow> Some fs1
                         | None \<Rightarrow> if db_mode cfg \<noteq> KVDB_MODE_CREATE
                                   then fopen can fs (db_path cfg) ModeW else None)
           in case opened of
             None \<Rightarrow> (OpenNull, fs)
           | Some fs1 \<Rightarrow>
               (let wal_path = take 511 (db_path cfg @ ''.wal'');
                    (wal, fs2) = (if enable_wal cfg
                                  then (case fopen can fs1 wal_path ModeA of
                                          None \<Rightarrow> (None, fs1) | Some fs2 \<Rightarrow> (Some [], fs2))
                                  else (None, fs1));
                    db = \<lparr>db_config = cfg, db_map = hm, wal_file = wal, cache_hits = 0,
                          cache_misses = 0, read_ops = 0, write_ops = 0, created_at = now,
                          last_modified = now, next_txn_id = 1\<rparr>
                in if db_mode cfg \<noteq> KVDB_MODE_CREATE
                   then (case load_entries sc now al2 hm
                                (case fs2 (db_path cfg) of None \<Rightarrow> [] | Some b \<Rightarrow> b) of
                           None \<Rightarrow> (OpenOverrun, fs2)
                         | Some (hm', _) \<Rightarrow> (Opened (db\<lparr>db_map := hm'\<rparr>), fs2))
                   else (Opened db, fs2))))"

definition dump_node :: "kv_node \<Rightarrow> bytes" where
  "dump_node n =
     (let key_len = of_nat (length (kv_key n)) :: 32 word;
          value_len = of_nat (length (kv_value n)) :: 32 word
      in le32 key_len @ take (unat key_len) (kv_key n) @
         le32 value_len @ take (unat value_len) (kv_value n))"

definition dump_map :: "hashmap \<Rightarrow> bytes" where
  "dump_map m = concat (map (\<lambda>i. concat (map dump_node (buckets m ! i))) [0..<capacity m])"

text \<open>
  \<open>kvdb_close\<close>: the new file store and whether the handle was released. When the data file
  cannot be reopened for writing, the function returns early and nothing is released.
\<close>

definition kvdb_close ::
  "(path \<Rightarrow> fmode \<Rightarrow> bool) \<Rightarrow> fstore \<Rightarrow> kvdb option \<Rightarrow> fstore \<times> bool" where
  "kvdb_close can fs dbo =
     (case dbo of None \<Rightarrow> (fs, False)
      | Some db \<Rightarrow>
          if db_mode (db_config db) \<noteq> KVDB_MODE_READONLY
          then (case fopen can fs (db_path (db_config db)) ModeW of
                  None \<Rightarrow> (fs, False)
                | Some fs1 \<Rightarrow> (fappend (db_path (db_config db)) (dump_map (db_map db)) fs1, True))
          else (fs, True))"

text \<open>
  The arguments of the operations are pointers, so each is an option. \<open>kvdb_get\<close> copies into
  a buffer of \<open>value_size\<close> bytes, given by its present content.
\<close>

definition kvdb_get ::
  "bool \<Rightarrow> kvdb option \<Rightarrow> string option \<Rightarrow> bytes option \<Rightarrow>
   kvdb_err \<times> bytes option \<times> nat option \<times> kvdb option" where
  "kvdb_get sc dbo ko bufo =
     (case (dbo, ko, bufo) of
        (Some db, Some k, Some buf) \<Rightarrow>
          if length k > KVDB_MAX_KEY_SIZE then (KVDB_ERR_KEY_TOO_LONG, bufo, None, dbo)
          else (case hashmap_find sc (db_map db) k of
                  None \<Rightarrow> (KVDB_ERR_NOT_FOUND, bufo, None,
                           Some (db\<lparr>cache_misses := cache_misses db + 1\<rparr>))
                | Some node \<Rightarrow>
                    (let copy_size = (if length (kv_value node) < length buf
                                      then length (kv_value node) else length buf)
                     in (KVDB_OK, Some (take copy_size (kv_value node) @ drop copy_size buf),
                         Some (length (kv_value node)),
                         Some (db\<lparr>cache_hits := cache_hits db + 1, read_ops := read_ops db + 1\<rparr>))))
      | _ \<Rightarrow> (KVDB_ERR_CORRUPTED, bufo, None, dbo))"

definition wal_append :: "wal_op \<Rightarrow> string \<Rightarrow> bytes \<Rightarrow> kvdb \<Rightarrow> kvdb" where
  "wal_append op k v db =
     (case wal_file db of None \<Rightarrow> db
      | Some w \<Rightarrow> db\<lparr>wal_file := Some (w @ [\<lparr>wal_opcode = op, wal_txn = 0,
           wal_key = strncpy0 (KVDB_MAX_KEY_SIZE - 1) k, wal_value_size = length v,
           wal_payload = v\<rparr>])\<rparr>)"

definition kvdb_set ::
  "bool \<Rightarrow> alloc_script \<Rightarrow> int \<Rightarrow> kvdb option \<Rightarrow> string option \<Rightarrow> bytes option \<Rightarrow> kvdb_err \<times> kvdb option" where
  "kvdb_set sc al now dbo ko vo =
     (case (dbo, ko, vo) of
        (Some db, Some k, Some v) \<Rightarrow>
          if length k > KVDB_MAX_KEY_SIZE then (KVDB_ERR_KEY_TOO_LONG, dbo)
          else if length v > KVDB_MAX_VALUE_SIZE then (KVDB_ERR_VALUE_TOO_LONG, dbo)
          else if db_mode (db_config db) = KVDB_MODE_READONLY then (KVDB_ERR_READONLY, dbo)
          else (case hashmap_insert sc al now (db_map db) k v of
                  (r, hm, _) \<Rightarrow>
                    if r \<noteq> 0 then (KVDB_ERR_OUT_OF_MEMORY, Some (db\<lparr>db_map := hm\<rparr>))
                    else (let db1 = wal_append WAL_OP_SET k v (db\<lparr>db_map := hm\<rparr>)
                          in (KVDB_OK, Some (db1\<lparr>last_modified := now,
                                                 write_ops := write_ops db1 + 1\<rparr>))))
      | _ \<Rightarrow> (KVDB_ERR_CORRUPTED, dbo))"

definition kvdb_delete ::
  "bool \<Rightarrow> int \<Rightarrow> kvdb option \<Rightarrow> string option \<Rightarrow> kvdb_err \<times> kvdb option" where
  "kvdb_delete sc now dbo ko =
     (case (dbo, ko) of
        (Some db, Some k) \<Rightarrow>
          if length k > KVDB_MAX_KEY_SIZE then (KVDB_ERR_KEY_TOO_LONG, dbo)
          else if db_mode (db_config db) = KVDB_MODE_READONLY then (KVDB_ERR_READONLY, dbo)
          else (case hashmap_remove sc (db_map db) k of
                  (r, hm) \<Rightarrow>
                    if r \<noteq> 0 then (KVDB_ERR_NOT_FOUND, Some (db\<lparr>db_map := hm\<rparr>))
                    else (let db1 = wal_append WAL_OP_DELETE k [] (db\<lparr>db_map := hm\<rparr>)
                          in (KVDB_OK, Some (db1\<lparr>last_modified := now,
                                                 write_ops := write_ops db1 + 1\<rparr>))))
      | _ \<Rightarrow> (KVDB_ERR_CORRUPTED, dbo))"

definition kvdb_exists :: "bool \<Rightarrow> kvdb option \<Rightarrow> string option \<Rightarrow> bool" where
  "kvdb_exists sc dbo ko =
     (case (dbo, ko) of
        (Some db, Some k) \<Rightarrow> hashmap_find sc (db_map db) k \<noteq> None
      | _ \<Rightarrow> False)"

definition kvdb_count :: "kvdb option \<Rightarrow> nat" where
  "kvdb_count dbo = (case dbo of None \<Rightarrow> 0 | Some db \<Rightarrow> hm_size (db_map db))"

definition kvdb_clear :: "int \<Rightarrow> kvdb option \<Rightarrow> kvdb_err \<times> kvdb option" where
  "kvdb_clear now dbo =
     (case dbo of None \<Rightarrow> (KVDB_ERR_CORRUPTED, dbo)
      | Some db \<Rightarrow>
          if db_mode (db_config db) = KVDB_MODE_READONLY then (KVDB_ERR_READONLY, dbo)
          else (let hm = db_map db;
                    bs = fold (\<lambda>i bs. bs[i := []]) [0..<capacity hm] (buckets hm)
                in (KVDB_OK, Some (db\<lparr>db_map := hm\<lparr>buckets := bs, hm_size := 0\<rparr>,
                                       last_modified := now\<rparr>))))"

record kvdb_stats_t =
  st_total_keys :: nat
  st_total_size :: nat
  st_file_size :: nat
  st_cache_hits :: nat
  st_cache_misses :: nat
  st_read_ops :: nat
  st_write_ops :: nat
  st_created_at :: int
  st_last_modified :: int

text \<open>\<open>fsize\<close> is what \<open>fstat\<close> on the data file reports, if it succeeds.\<close>

definition kvdb_stats ::
  "nat option \<Rightarrow> kvdb option \<Rightarrow> kvdb_stats_t option \<Rightarrow> kvdb_err \<times> kvdb_stats_t option" where
  "kvdb_stats fsize dbo stats =
     (case (dbo, stats) of (None, _) \<Rightarrow> (KVDB_ERR_CORRUPTED, stats)
      | (_, None) \<Rightarrow> (KVDB_ERR_CORRUPTED, stats)
      | (Some db, Some _) \<Rightarrow> (KVDB_OK, Some
          \<lparr>st_total_keys = hm_size (db_map db), st_total_size = hm_size (db_map db) * 100,
           st_file_size = (case fsize of None \<Rightarrow> 0 | Some n \<Rightarrow> n),
           st_cache_hits = cache_hits db, st_cache_misses = cache_misses db,
           st_read_ops = read_ops db, st_write_ops = write_ops db,
           st_created_at = created_at db, st_last_modified = last_modified db\<rparr>))"

definition kvdb_strerror :: "int \<Rightarrow> string" where
  "kvdb_strerror err =
     (if err < 0 \<or> err > 8 then ''Unknown error''
      else [''Success'', ''Key not found'', ''Key too long'', ''Value too long'', ''Disk full'',
            ''Database corrupted'', ''Lock error'', ''Read-only database'', ''Out of memory'']
           ! nat err)"


subsection \<open>The table refines a partial map\<close>

abbreviation chain_map :: "kv_node list \<Rightarrow> string \<rightharpoonup> bytes" where
  "chain_map ns \<equiv> map_of (map (\<lambda>n. (kv_key n, kv_value n)) ns)"

abbreviation chain_keys :: "kv_node list \<Rightarrow> string list" where
  "chain_keys ns \<equiv> map kv_key ns"

definition hm_lookup :: "bool \<Rightarrow> hashmap \<Rightarrow> string \<rightharpoonup> bytes" where
  "hm_lookup sc m k = map_option kv_value (hashmap_find sc m k)"

definition hm_inv :: "bool \<Rightarrow> hashmap \<Rightarrow> bool" where
  "hm_inv sc m \<longleftrightarrow> 0 < capacity m \<and> length (buckets m) = capacity m \<and>
     (\<forall>i < capacity m. distinct (chain_keys (buckets m ! i)) \<and>
        (\<forall>n \<in> set (buckets m ! i). bucket_of sc (capacity m) (kv_key n) = i)) \<and>
     hm_size m = (\<Sum>i < capacity m. length (buckets m ! i))"

lemma find_chain_map: "map_option kv_value (find_chain k ns) = chain_map ns k"
  by (induction ns) auto

lemma find_chain_None: "find_chain k ns = None \<longleftrightarrow> k \<notin> set (chain_keys ns)"
  by (induction ns) auto

lemma find_chain_Some: "find_chain k ns = Some n \<Longrightarrow> n \<in> set ns \<and> kv_key n = k"
  by (induction ns) (auto split: if_splits)

lemma update_chain_map:
  "k \<in> set (chain_keys ns) \<Longrightarrow> chain_map (update_chain k v now ns) = (chain_map ns)(k \<mapsto> v)"
  by (induction ns) (auto simp: fun_upd_twist)

lemma update_chain_keys [simp]: "chain_keys (update_chain k v now ns) = chain_keys ns"
  by (induction ns) auto

lemma update_chain_key_in: "n \<in> set (update_chain k v now ns) \<Longrightarrow> kv_key n \<in> kv_key ` set ns"
  by (metis image_eqI set_map update_chain_keys)

lemma update_chain_length [simp]: "length (update_chain k v now ns) = length ns"
  by (metis length_map update_chain_keys)

lemma remove_chain_None: "remove_chain k ns = None \<longleftrightarrow> k \<notin> set (chain_keys ns)"
  by (induction ns) auto

lemma remove_chain_Some:
  "remove_chain k ns = Some r \<Longrightarrow> distinct (chain_keys ns) \<Longrightarrow>
   chain_map r = (chain_map ns)(k := None) \<and> length ns = Suc (length r) \<and>
   set r \<subseteq> set ns \<and> distinct (chain_keys r)"
proof (induction ns arbitrary: r)
  case Nil
  then show ?case by simp
next
  case (Cons n ns)
  show ?case
  proof (cases "kv_key n = k")
    case True
    with Cons.prems have "r = ns" and "chain_map ns k = None"
      by (auto simp: map_of_eq_None_iff)
    then show ?thesis using True Cons.prems(2)
      by (auto simp: fun_eq_iff)
  next
    case False
    with Cons.prems obtain r' where r': "remove_chain k ns = Some r'" "r = n # r'" by auto
    have "distinct (chain_keys ns)" using Cons.prems(2) by simp
    note IH = Cons.IH [OF r'(1) this]
    from IH have "set (chain_keys r') \<subseteq> set (chain_keys ns)" by auto
    then show ?thesis using IH r' False Cons.prems(2) by (auto simp: fun_eq_iff)
  qed
qed

lemma hm_lookup_bucket: "hm_lookup sc m k = chain_map (buckets m ! bucket_of sc (capacity m) k) k"
  by (simp add: hm_lookup_def hashmap_find_def find_chain_map)

lemma hm_lookup_None:
  "hm_lookup sc m k = None \<longleftrightarrow> k \<notin> set (chain_keys (buckets m ! bucket_of sc (capacity m) k))"
  by (simp add: hm_lookup_def hashmap_find_def find_chain_None)

lemma bucket_of_less: "0 < cap \<Longrightarrow> bucket_of sc cap k < cap"
  by (simp add: bucket_of_def)

lemma hm_inv_bucket:
  assumes "hm_inv sc m" and "i < capacity m"
  shows "distinct (chain_keys (buckets m ! i))"
    and "n \<in> set (buckets m ! i) \<Longrightarrow> bucket_of sc (capacity m) (kv_key n) = i"
    and "i < length (buckets m)"
  using assms by (auto simp: hm_inv_def)

lemma hm_inv_pos: "hm_inv sc m \<Longrightarrow> 0 < capacity m"
  by (simp add: hm_inv_def)

text \<open>Replacing one bucket changes the lookups of the keys that hash to it and the size.\<close>

lemma sum_length_upd:
  assumes "h < length bs"
  shows "(\<Sum>i < length bs. length (bs[h := ns] ! i)) + length (bs ! h)
       = (\<Sum>i < length bs. length (bs ! i)) + length ns"
proof -
  have s: "(\<Sum>i < length bs. f i) = f h + (\<Sum>i \<in> {..<length bs} - {h}. f i)" for f :: "nat \<Rightarrow> nat"
    using assms by (simp add: sum.remove)
  have "(\<Sum>i \<in> {..<length bs} - {h}. length (bs[h := ns] ! i))
      = (\<Sum>i \<in> {..<length bs} - {h}. length (bs ! i))"
    by (rule sum.cong) auto
  then show ?thesis using assms by (simp add: s)
qed

lemma hm_replace_bucket:
  assumes inv: "hm_inv sc m" and h: "h < capacity m"
    and ns: "distinct (chain_keys ns)" "\<And>n. n \<in> set ns \<Longrightarrow> bucket_of sc (capacity m) (kv_key n) = h"
    and sz: "sz + length (buckets m ! h) = hm_size m + length ns"
  shows "hm_inv sc (m\<lparr>buckets := (buckets m)[h := ns], hm_size := sz\<rparr>)"
    and "hm_lookup sc (m\<lparr>buckets := (buckets m)[h := ns], hm_size := sz\<rparr>) k =
         (if bucket_of sc (capacity m) k = h then chain_map ns k else hm_lookup sc m k)"
proof -
  have len: "length (buckets m) = capacity m" using inv by (simp add: hm_inv_def)
  have "sz = (\<Sum>i < capacity m. length ((buckets m)[h := ns] ! i))"
    using sum_length_upd [of h "buckets m" ns] sz inv h by (simp add: hm_inv_def)
  then show "hm_inv sc (m\<lparr>buckets := (buckets m)[h := ns], hm_size := sz\<rparr>)"
    using inv h ns by (auto simp: hm_inv_def nth_list_update)
  show "hm_lookup sc (m\<lparr>buckets := (buckets m)[h := ns], hm_size := sz\<rparr>) k =
         (if bucket_of sc (capacity m) k = h then chain_map ns k else hm_lookup sc m k)"
    using h len by (auto simp: hm_lookup_bucket nth_list_update)
qed

lemma hm_update:
  assumes inv: "hm_inv sc m" and found: "hashmap_find sc m k \<noteq> None"
    and m': "m' = m\<lparr>buckets := (buckets m)[bucket_of sc (capacity m) k :=
                    update_chain k v now (buckets m ! bucket_of sc (capacity m) k)]\<rparr>"
  shows "hm_inv sc m'" and "hm_lookup sc m' = (hm_lookup sc m)(k \<mapsto> v)" and "hm_size m' = hm_size m"
proof -
  let ?h = "bucket_of sc (capacity m) k"
  let ?ns = "update_chain k v now (buckets m ! ?h)"
  have h: "?h < capacity m" using hm_inv_pos [OF inv] by (rule bucket_of_less)
  note b = hm_inv_bucket [OF inv h]
  have in_keys: "k \<in> set (chain_keys (buckets m ! ?h))"
    using found by (simp add: hashmap_find_def find_chain_None)
  have ks: "bucket_of sc (capacity m) (kv_key n) = ?h" if "n \<in> set ?ns" for n
    using update_chain_key_in [OF that] b(2) by auto
  have eq: "m' = m\<lparr>buckets := (buckets m)[?h := ?ns], hm_size := hm_size m\<rparr>" using m' by simp
  have d: "distinct (chain_keys ?ns)" using b(1) by simp
  show "hm_inv sc m'" unfolding eq by (rule hm_replace_bucket [OF inv h d ks]) simp_all
  show "hm_lookup sc m' = (hm_lookup sc m)(k \<mapsto> v)"
  proof
    fix k'
    have "hm_lookup sc m' k' = (if bucket_of sc (capacity m) k' = ?h then chain_map ?ns k' else hm_lookup sc m k')"
      unfolding eq by (rule hm_replace_bucket [OF inv h d ks]) simp_all
    then show "hm_lookup sc m' k' = ((hm_lookup sc m)(k \<mapsto> v)) k'"
      by (simp add: update_chain_map [OF in_keys] hm_lookup_bucket)
  qed
  show "hm_size m' = hm_size m" by (simp add: m')
qed

lemma hm_add:
  assumes inv: "hm_inv sc m" and fresh: "hashmap_find sc m k = None" and n: "kv_key n = k" "kv_value n = v"
    and m': "m' = m\<lparr>buckets := (buckets m)[bucket_of sc (capacity m) k :=
                      n # buckets m ! bucket_of sc (capacity m) k], hm_size := hm_size m + 1\<rparr>"
  shows "hm_inv sc m'" and "hm_lookup sc m' = (hm_lookup sc m)(k \<mapsto> v)"
proof -
  let ?h = "bucket_of sc (capacity m) k"
  have h: "?h < capacity m" using hm_inv_pos [OF inv] by (rule bucket_of_less)
  note b = hm_inv_bucket [OF inv h]
  have "k \<notin> set (chain_keys (buckets m ! ?h))"
    using fresh by (simp add: hashmap_find_def find_chain_None)
  then have d: "distinct (chain_keys (n # buckets m ! ?h))" using b(1) n by simp
  have ks: "bucket_of sc (capacity m) (kv_key x) = ?h" if "x \<in> set (n # buckets m ! ?h)" for x
    using that n b(2) by auto
  show "hm_inv sc m'" unfolding m' by (rule hm_replace_bucket [OF inv h d ks]) simp_all
  show "hm_lookup sc m' = (hm_lookup sc m)(k \<mapsto> v)"
  proof
    fix k'
    have "hm_lookup sc m' k' = (if bucket_of sc (capacity m) k' = ?h
        then chain_map (n # buckets m ! ?h) k' else hm_lookup sc m k')"
      unfolding m' by (rule hm_replace_bucket [OF inv h d ks]) simp_all
    then show "hm_lookup sc m' k' = ((hm_lookup sc m)(k \<mapsto> v)) k'"
      using n by (simp add: hm_lookup_bucket)
  qed
qed

text \<open>
  \<open>hashmap_insert\<close> either succeeds and binds the key, or reports \<open>-1\<close> and leaves the
  table as it was; with no failing allocation it succeeds.
\<close>

lemma hashmap_insert_cases:
  assumes inv: "hm_inv sc m" and res: "hashmap_insert sc al now m k v = (r, m', al')"
  shows "r = 0 \<and> hm_inv sc m' \<and> hm_lookup sc m' = (hm_lookup sc m)(k \<mapsto> v) \<and> capacity m' = capacity m
         \<or> r = -1 \<and> m' = m"
proof (cases "hashmap_find sc m k")
  case None
  with res consider "r = -1 \<and> m' = m"
    | "r = 0" "m' = m\<lparr>buckets := (buckets m)[bucket_of sc (capacity m) k :=
         \<lparr>kv_key = k, kv_value = v, kv_created = now, kv_modified = now\<rparr> #
           buckets m ! bucket_of sc (capacity m) k], hm_size := hm_size m + 1\<rparr>"
    by (auto simp: hashmap_insert_def Let_def split: prod.splits if_splits)
  then show ?thesis
  proof cases
    case 1
    then show ?thesis by simp
  next
    case 2
    have "hm_inv sc m'" and "hm_lookup sc m' = (hm_lookup sc m)(k \<mapsto> v)"
      by (rule hm_add [OF inv None _ _ 2(2)]; simp)+
    then show ?thesis using 2 by simp
  qed
next
  case (Some n)
  then have found: "hashmap_find sc m k \<noteq> None" by simp
  from res Some consider "r = -1 \<and> m' = m"
    | "r = 0" "m' = m\<lparr>buckets := (buckets m)[bucket_of sc (capacity m) k :=
                    update_chain k v now (buckets m ! bucket_of sc (capacity m) k)]\<rparr>"
    by (auto simp: hashmap_insert_def Let_def split: prod.splits if_splits)
  then show ?thesis
  proof cases
    case 1
    then show ?thesis by simp
  next
    case 2
    then show ?thesis using hm_update [OF inv found 2(2)] by simp
  qed
qed

lemma hashmap_insert_no_failure: "fst (hashmap_insert sc [] now m k v) = 0"
  by (simp add: hashmap_insert_def Let_def split: option.splits)

lemma hashmap_remove_cases:
  assumes inv: "hm_inv sc m" and res: "hashmap_remove sc m k = (r, m')"
  shows "hm_inv sc m' \<and> capacity m' = capacity m \<and> hm_lookup sc m' = (hm_lookup sc m)(k := None) \<and>
         (if hm_lookup sc m k = None then r = -1 \<and> m' = m else r = 0)"
proof -
  let ?h = "bucket_of sc (capacity m) k"
  have h: "?h < capacity m" using hm_inv_pos [OF inv] by (rule bucket_of_less)
  note b = hm_inv_bucket [OF inv h]
  show ?thesis
  proof (cases "remove_chain k (buckets m ! ?h)")
    case None
    then have "k \<notin> set (chain_keys (buckets m ! ?h))" by (simp add: remove_chain_None)
    then have "hm_lookup sc m k = None" by (simp add: hm_lookup_None)
    moreover have "r = -1 \<and> m' = m" using res None by (simp add: hashmap_remove_def)
    ultimately show ?thesis using inv by (auto simp: fun_eq_iff)
  next
    case (Some ns)
    note rem = remove_chain_Some [OF Some b(1)]
    have m': "m' = m\<lparr>buckets := (buckets m)[?h := ns], hm_size := hm_size m - 1\<rparr>" and r: "r = 0"
      using res Some by (simp_all add: hashmap_remove_def)
    have "k \<in> set (chain_keys (buckets m ! ?h))"
      using Some remove_chain_None [of k "buckets m ! ?h"] by auto
    then have present: "hm_lookup sc m k \<noteq> None" by (simp add: hm_lookup_None)
    have "length (buckets m ! ?h) \<le> hm_size m"
      using inv h by (auto simp: hm_inv_def intro: member_le_sum)
    then have sz: "hm_size m - 1 + length (buckets m ! ?h) = hm_size m + length ns"
      using rem by linarith
    have ks: "bucket_of sc (capacity m) (kv_key n) = ?h" if "n \<in> set ns" for n
      using that rem b(2) by blast
    have d: "distinct (chain_keys ns)" using rem by blast
    have "hm_inv sc m'" unfolding m' by (rule hm_replace_bucket(1) [OF inv h d ks sz])
    moreover have "hm_lookup sc m' = (hm_lookup sc m)(k := None)"
    proof
      fix k'
      have "hm_lookup sc m' k' = (if bucket_of sc (capacity m) k' = ?h then chain_map ns k' else hm_lookup sc m k')"
        unfolding m' by (rule hm_replace_bucket(2) [OF inv h d ks sz])
      then show "hm_lookup sc m' k' = ((hm_lookup sc m)(k := None)) k'"
        using rem by (simp add: hm_lookup_bucket)
    qed
    ultimately show ?thesis using present r m' by simp
  qed
qed

lemma hashmap_create_inv:
  "0 < cap \<Longrightarrow> hashmap_create al cap = (Some m, al') \<Longrightarrow>
   hm_inv sc m \<and> hm_lookup sc m = Map.empty \<and> capacity m = cap"
  by (auto simp: hashmap_create_def hm_inv_def hm_lookup_bucket bucket_of_def fun_eq_iff
      split: prod.splits if_splits)

text \<open>The counter is the number of keys.\<close>

lemma dom_hm_lookup:
  assumes inv: "hm_inv sc m"
  shows "dom (hm_lookup sc m) = (\<Union>i < capacity m. set (chain_keys (buckets m ! i)))"
proof -
  have "k \<in> dom (hm_lookup sc m) \<longleftrightarrow> k \<in> set (chain_keys (buckets m ! bucket_of sc (capacity m) k))" for k
    by (simp add: domIff hm_lookup_None)
  moreover have "k \<in> set (chain_keys (buckets m ! bucket_of sc (capacity m) k)) \<longleftrightarrow>
      (\<exists>i < capacity m. k \<in> set (chain_keys (buckets m ! i)))" for k
    using hm_inv_bucket(2) [OF inv] bucket_of_less [OF hm_inv_pos [OF inv], of sc k] by auto
  ultimately show ?thesis by blast
qed

lemma hm_size_card:
  assumes inv: "hm_inv sc m"
  shows "finite (dom (hm_lookup sc m))" and "hm_size m = card (dom (hm_lookup sc m))"
proof -
  let ?ks = "\<lambda>i. set (chain_keys (buckets m ! i))"
  show "finite (dom (hm_lookup sc m))" by (simp add: dom_hm_lookup [OF inv])
  have "?ks i \<inter> ?ks j = {}" if "i < capacity m" "j < capacity m" "i \<noteq> j" for i j
  proof -
    have "bucket_of sc (capacity m) k = l" if "l < capacity m" "k \<in> ?ks l" for k l
      using that hm_inv_bucket(2) [OF inv] by auto
    then show ?thesis using that by blast
  qed
  then have "card (\<Union>i \<in> {..<capacity m}. ?ks i) = (\<Sum>i < capacity m. card (?ks i))"
    by (intro card_UN_disjoint) auto
  also have "\<dots> = (\<Sum>i < capacity m. length (buckets m ! i))"
    by (rule sum.cong) (use hm_inv_bucket(1) [OF inv] in \<open>auto simp: distinct_card simp del: set_map\<close>)
  finally show "hm_size m = card (dom (hm_lookup sc m))"
    using inv by (simp add: dom_hm_lookup [OF inv] hm_inv_def)
qed

definition hm_put :: "bool \<Rightarrow> int \<Rightarrow> hashmap \<Rightarrow> string \<Rightarrow> bytes \<Rightarrow> hashmap" where
  "hm_put sc now m k v = fst (snd (hashmap_insert sc [] now m k v))"

lemma hm_put_spec:
  assumes "hm_inv sc m"
  shows "hm_inv sc (hm_put sc now m k v)"
    and "hm_lookup sc (hm_put sc now m k v) = (hm_lookup sc m)(k \<mapsto> v)"
    and "capacity (hm_put sc now m k v) = capacity m"
proof -
  obtain r m' al' where res: "hashmap_insert sc [] now m k v = (r, m', al')" by (metis prod_cases3)
  have "r = 0" using hashmap_insert_no_failure [of sc now m k v] res by simp
  with hashmap_insert_cases [OF assms res] res
  show "hm_inv sc (hm_put sc now m k v)"
    and "hm_lookup sc (hm_put sc now m k v) = (hm_lookup sc m)(k \<mapsto> v)"
    and "capacity (hm_put sc now m k v) = capacity m"
    by (simp_all add: hm_put_def)
qed

interpretation hm: map_store "hm_lookup sc" "hm_put sc now" "\<lambda>m k. snd (hashmap_remove sc m k)"
  hm_size "hm_inv sc" for sc now
proof
  fix m k and v :: bytes
  assume inv: "hm_inv sc m"
  show "hm_lookup sc (hm_put sc now m k v) = (hm_lookup sc m)(k \<mapsto> v)"
    and "hm_inv sc (hm_put sc now m k v)"
    using inv by (simp_all add: hm_put_spec)
  obtain r m' where res: "hashmap_remove sc m k = (r, m')" by (cases "hashmap_remove sc m k")
  from hashmap_remove_cases [OF inv res] res
  show "hm_lookup sc (snd (hashmap_remove sc m k)) = (hm_lookup sc m)(k := None)"
    and "hm_inv sc (snd (hashmap_remove sc m k))"
    by simp_all
  show "finite (dom (hm_lookup sc m))" and "hm_size m = card (dom (hm_lookup sc m))"
    using hm_size_card [OF inv] by simp_all
qed

subsection \<open>Operations on a handle\<close>

definition db_view :: "bool \<Rightarrow> kvdb \<Rightarrow> string \<rightharpoonup> bytes" where
  "db_view sc db = hm_lookup sc (db_map db)"

text \<open>
  The invariant of an open database: the table is well formed and every entry respects the
  limits that \<open>kvdb_set\<close> enforces.
\<close>

definition kvdb_inv :: "bool \<Rightarrow> kvdb \<Rightarrow> bool" where
  "kvdb_inv sc db \<longleftrightarrow> hm_inv sc (db_map db) \<and>
     (\<forall>k v. db_view sc db k = Some v \<longrightarrow>
        is_cstr k \<and> length k \<le> KVDB_MAX_KEY_SIZE \<and> length v \<le> KVDB_MAX_VALUE_SIZE)"

lemma wal_append_simps [simp]:
  "db_map (wal_append op k v db) = db_map db" "db_config (wal_append op k v db) = db_config db"
  "write_ops (wal_append op k v db) = write_ops db"
  by (simp_all add: wal_append_def split: option.split)

lemma kvdb_set_result:
  assumes inv: "hm_inv sc (db_map db)" and "length k \<le> KVDB_MAX_KEY_SIZE"
    and "length v \<le> KVDB_MAX_VALUE_SIZE" and "db_mode (db_config db) \<noteq> KVDB_MODE_READONLY"
  shows "kvdb_set sc al now (Some db) (Some k) (Some v) = (KVDB_ERR_OUT_OF_MEMORY, Some db) \<or>
     (\<exists>db'. kvdb_set sc al now (Some db) (Some k) (Some v) = (KVDB_OK, Some db') \<and>
        hm_inv sc (db_map db') \<and> db_view sc db' = (db_view sc db)(k \<mapsto> v) \<and>
        write_ops db' = write_ops db + 1 \<and> db_config db' = db_config db)"
proof -
  obtain r hm al' where res: "hashmap_insert sc al now (db_map db) k v = (r, hm, al')"
    by (metis prod_cases3)
  from hashmap_insert_cases [OF inv res] show ?thesis
    using assms(2-) by (auto simp: kvdb_set_def res db_view_def Let_def)
qed

lemma kvdb_set_no_failure:
  assumes inv: "hm_inv sc (db_map db)" and "length k \<le> KVDB_MAX_KEY_SIZE"
    and "length v \<le> KVDB_MAX_VALUE_SIZE" and "db_mode (db_config db) \<noteq> KVDB_MODE_READONLY"
  shows "fst (kvdb_set sc [] now (Some db) (Some k) (Some v)) = KVDB_OK"
  using assms hashmap_insert_no_failure [of sc now "db_map db" k v]
  by (auto simp: kvdb_set_def Let_def split: prod.splits)

lemma kvdb_delete_result:
  assumes inv: "hm_inv sc (db_map db)" and "length k \<le> KVDB_MAX_KEY_SIZE"
    and "db_mode (db_config db) \<noteq> KVDB_MODE_READONLY"
  shows "if db_view sc db k = None
     then kvdb_delete sc now (Some db) (Some k) = (KVDB_ERR_NOT_FOUND, Some db)
     else (\<exists>db'. kvdb_delete sc now (Some db) (Some k) = (KVDB_OK, Some db') \<and>
        hm_inv sc (db_map db') \<and> db_view sc db' = (db_view sc db)(k := None) \<and>
        write_ops db' = write_ops db + 1 \<and> db_config db' = db_config db)"
proof -
  obtain r hm where res: "hashmap_remove sc (db_map db) k = (r, hm)"
    by (cases "hashmap_remove sc (db_map db) k")
  from hashmap_remove_cases [OF inv res] show ?thesis
    using assms(2-) by (auto simp: kvdb_delete_def res db_view_def Let_def split: if_splits)
qed

lemma kvdb_get_result:
  assumes "length k \<le> KVDB_MAX_KEY_SIZE"
  shows "kvdb_get sc (Some db) (Some k) (Some buf) =
     (case db_view sc db k of
        None \<Rightarrow> (KVDB_ERR_NOT_FOUND, Some buf, None, Some (db\<lparr>cache_misses := cache_misses db + 1\<rparr>))
      | Some v \<Rightarrow> (KVDB_OK, Some (take (length buf) v @ drop (length v) buf), Some (length v),
                   Some (db\<lparr>cache_hits := cache_hits db + 1, read_ops := read_ops db + 1\<rparr>)))"
  using assms by (auto simp: kvdb_get_def db_view_def hm_lookup_def Let_def split: option.split)

text \<open>Emptying every bucket.\<close>

lemma fold_clear_nth:
  "i < length bs \<Longrightarrow> fold (\<lambda>i bs. bs[i := []]) is bs ! i = (if i \<in> set is then [] else bs ! i)"
  by (induction "is" arbitrary: bs) (auto simp: nth_list_update)

lemma fold_clear_length [simp]: "length (fold (\<lambda>i bs. bs[i := []]) is bs) = length bs"
  by (induction "is" arbitrary: bs) auto

lemma kvdb_clear_result:
  assumes inv: "hm_inv sc (db_map db)" and "db_mode (db_config db) \<noteq> KVDB_MODE_READONLY"
  shows "\<exists>db'. kvdb_clear now (Some db) = (KVDB_OK, Some db') \<and> hm_inv sc (db_map db') \<and>
           db_view sc db' = Map.empty \<and> kvdb_count (Some db') = 0"
proof -
  let ?hm = "db_map db"
  let ?bs = "fold (\<lambda>i bs. bs[i := []]) [0..<capacity ?hm] (buckets ?hm)"
  have nth: "?bs ! i = []" if "i < capacity ?hm" for i
    using that inv by (subst fold_clear_nth) (auto simp: hm_inv_def)
  have "hm_inv sc (?hm\<lparr>buckets := ?bs, hm_size := 0\<rparr>)"
    using inv nth by (simp add: hm_inv_def)
  moreover have "hm_lookup sc (?hm\<lparr>buckets := ?bs, hm_size := 0\<rparr>) = Map.empty"
    using inv nth by (auto simp: hm_lookup_bucket bucket_of_def hm_inv_def)
  ultimately show ?thesis using assms(2)
    by (auto simp: kvdb_clear_def Let_def db_view_def kvdb_count_def)
qed

subsection \<open>Saving and loading\<close>

lemma concat_map_concat: "concat (map f (concat xss)) = concat (map (\<lambda>xs. concat (map f xs)) xss)"
  by (induction xss) simp_all

lemma dump_map_nodes: "dump_map m = concat (map dump_node (hashmap_destroy m))"
  by (simp add: dump_map_def hashmap_destroy_def concat_map_concat comp_def)

lemma hashmap_destroy_map:
  assumes inv: "hm_inv sc m"
  shows "distinct (chain_keys (hashmap_destroy m))" and "chain_map (hashmap_destroy m) = hm_lookup sc m"
proof -
  let ?ns = "hashmap_destroy m"
  have sets: "set ?ns = (\<Union>i < capacity m. set (buckets m ! i))"
    by (auto simp: hashmap_destroy_def)
  have keys: "set (chain_keys ?ns) = dom (hm_lookup sc m)"
    by (auto simp: sets dom_hm_lookup [OF inv])
  have "length ?ns = (\<Sum>i < capacity m. length (buckets m ! i))"
    by (simp add: hashmap_destroy_def length_concat comp_def interv_sum_list_conv_sum_set_nat
        atLeast0LessThan)
  then have "length (chain_keys ?ns) = card (set (chain_keys ?ns))"
    using hm_size_card(2) [OF inv] inv keys by (simp add: hm_inv_def)
  then show d: "distinct (chain_keys ?ns)" by (intro card_distinct) simp
  show "chain_map ?ns = hm_lookup sc m"
  proof
    fix k
    show "chain_map ?ns k = hm_lookup sc m k"
    proof (cases "hm_lookup sc m k")
      case None
      then have "k \<notin> set (chain_keys ?ns)" using keys by auto
      then show ?thesis using None by (simp add: map_of_eq_None_iff image_image)
    next
      case (Some v)
      then obtain n where n: "n \<in> set (buckets m ! bucket_of sc (capacity m) k)" "kv_key n = k" "kv_value n = v"
        using find_chain_Some by (fastforce simp: hm_lookup_def hashmap_find_def)
      then have "n \<in> set ?ns" using sets bucket_of_less [OF hm_inv_pos [OF inv]] by blast
      then have "(k, v) \<in> set (map (\<lambda>n. (kv_key n, kv_value n)) ?ns)" using n by auto
      moreover have "distinct (map fst (map (\<lambda>n. (kv_key n, kv_value n)) ?ns))"
        using d by (simp add: comp_def)
      ultimately show ?thesis using Some by (simp only: map_of_eq_Some_iff)
    qed
  qed
qed

lemma map_of_rev_distinct: "distinct (map fst xs) \<Longrightarrow> map_of (rev xs) = map_of xs"
  by (rule map_of_eqI) (auto simp: rev_map [symmetric] map_of_eq_Some_iff)

abbreviation savable :: "kv_node \<Rightarrow> bool" where
  "savable n \<equiv> is_cstr (kv_key n) \<and> length (kv_key n) \<le> KVDB_MAX_KEY_SIZE \<and>
                length (kv_value n) \<le> KVDB_MAX_VALUE_SIZE"

lemma load_one:
  assumes "savable n"
  shows "load_entries sc now [] m (dump_node n @ b) =
    (if length (kv_key n) = KVDB_MAX_KEY_SIZE then None
     else load_entries sc now [] (hm_put sc now m (kv_key n) (kv_value n)) b)"
proof -
  have k: "unat (of_nat (length (kv_key n)) :: 32 word) = length (kv_key n)"
    and v: "unat (of_nat (length (kv_value n)) :: 32 word) = length (kv_value n)"
    using assms by (simp_all add: unat_of_nat kvdb_limits)
  have d: "dump_node n @ b = le32 (of_nat (length (kv_key n))) @ kv_key n @
      le32 (of_nat (length (kv_value n))) @ kv_value n @ b"
    by (simp add: dump_node_def Let_def k v)
  have al: "snd (snd (hashmap_insert sc [] now m (kv_key n) (kv_value n))) = []"
    by (simp add: hashmap_insert_def Let_def split: option.split)
  have ins: "hashmap_insert sc [] now m (kv_key n) (kv_value n) =
      (fst (hashmap_insert sc [] now m (kv_key n) (kv_value n)),
       hm_put sc now m (kv_key n) (kv_value n), [])"
    using al by (simp add: hm_put_def prod_eq_iff)
  show ?thesis
    unfolding d using assms
    by (subst load_entries.simps) (simp add: k v, subst ins, simp)
qed

lemma load_dump:
  "\<forall>n \<in> set ns. savable n \<Longrightarrow>
   load_entries sc now [] m (concat (map dump_node ns)) =
     (if \<exists>n \<in> set ns. length (kv_key n) = KVDB_MAX_KEY_SIZE then None
      else Some (fold (\<lambda>(k, v) m. hm_put sc now m k v) (map (\<lambda>n. (kv_key n, kv_value n)) ns) m, []))"
proof (induction ns arbitrary: m)
  case Nil
  then show ?case by (subst load_entries.simps) (simp add: read_le32_def)
next
  case (Cons n ns)
  then show ?case using load_one [of n sc now m "concat (map dump_node ns)"] by simp
qed

lemma savable_nodes:
  assumes "kvdb_inv sc db"
  shows "\<forall>n \<in> set (hashmap_destroy (db_map db)). savable n"
    and "(\<exists>n \<in> set (hashmap_destroy (db_map db)). P (kv_key n)) \<longleftrightarrow> (\<exists>k v. db_view sc db k = Some v \<and> P k)"
proof -
  have inv: "hm_inv sc (db_map db)" using assms by (simp add: kvdb_inv_def)
  note d = hashmap_destroy_map [OF inv]
  have iff: "db_view sc db k = Some v \<longleftrightarrow> (\<exists>n \<in> set (hashmap_destroy (db_map db)). kv_key n = k \<and> kv_value n = v)" for k v
    using d by (subst db_view_def, subst d(2) [symmetric], subst map_of_eq_Some_iff) (auto simp: comp_def)
  show "\<forall>n \<in> set (hashmap_destroy (db_map db)). savable n"
    using assms iff unfolding kvdb_inv_def by blast
  show "(\<exists>n \<in> set (hashmap_destroy (db_map db)). P (kv_key n)) \<longleftrightarrow> (\<exists>k v. db_view sc db k = Some v \<and> P k)"
    by (auto simp: iff)
qed

text \<open>
  Opening a file that \<open>kvdb_close\<close> wrote, with the data file and the log at different paths:
  either a saved key has 256 bytes and the load overruns its key buffer, or every entry is back.
\<close>

lemma reopen_saved:
  assumes inv: "kvdb_inv sc db" and mode: "db_mode cfg \<noteq> KVDB_MODE_CREATE"
    and can: "\<forall>p m. can p m" and path: "length (db_path cfg) < 507"
    and data: "fs (db_path cfg) = Some (dump_map (db_map db))"
  shows "if \<exists>k v. db_view sc db k = Some v \<and> length k = KVDB_MAX_KEY_SIZE
     then fst (kvdb_open sc can now [] cfg fs) = OpenOverrun
     else (\<exists>db'. fst (kvdb_open sc can now [] cfg fs) = Opened db' \<and>
        hm_inv sc (db_map db') \<and> db_view sc db' = db_view sc db)"
proof -
  let ?ns = "hashmap_destroy (db_map db)"
  let ?kvs = "map (\<lambda>n. (kv_key n, kv_value n)) ?ns"
  obtain hm where hm: "hashmap_create [] KVDB_DEFAULT_CAPACITY = (Some hm, [])"
    by (simp add: hashmap_create_def)
  have hm_inv0: "hm_inv sc hm" and hm_empty: "hm_lookup sc hm = Map.empty"
    using hashmap_create_inv [OF _ hm, of sc] by (simp_all add: kvdb_limits)
  have invm: "hm_inv sc (db_map db)" using inv by (simp add: kvdb_inv_def)
  note load = load_dump [OF savable_nodes(1) [OF inv], of sc now hm, folded dump_map_nodes]
  let ?m = "fold (\<lambda>(k, v) m. hm_put sc now m k v) ?kvs hm"
  have put: "hm_inv sc ?m" "hm_lookup sc ?m = db_view sc db"
    using hm.put_all [OF hm_inv0, of now ?kvs] hashmap_destroy_map [OF invm]
    by (simp_all add: hm_empty map_of_rev_distinct comp_def db_view_def del: map_of_map)
  have wal: "(case fopen can fs (take 511 (db_path cfg @ ''.wal'')) ModeA of
       None \<Rightarrow> (None, fs) | Some fs2 \<Rightarrow> (Some [], fs2)) = (Some [], the (fopen can fs (take 511 (db_path cfg @ ''.wal'')) ModeA))"
    and walp: "the (fopen can fs (take 511 (db_path cfg @ ''.wal'')) ModeA) (db_path cfg) = fs (db_path cfg)"
    using can path by (auto simp: fopen_def split: option.splits)
  note [simp del] = take_append
  have opened: "fopen can fs (db_path cfg) (if db_mode cfg = KVDB_MODE_READONLY then ModeR else ModeRPlus) = Some fs"
    using can data by (simp add: fopen_def)
  show ?thesis
    using mode savable_nodes(2) [OF inv, of "\<lambda>k. length k = KVDB_MAX_KEY_SIZE"] put
    by (auto simp: kvdb_open_def hm opened Let_def wal walp data load db_view_def
        split: if_splits)
qed

subsection \<open>Properties\<close>

text \<open>A small open database, used to instantiate the properties.\<close>

definition small_db :: "kvdb_mode \<Rightarrow> kvdb" where
  "small_db mode =
     \<lparr>db_config = \<lparr>db_path = ''d'', db_mode = mode, cache_size = 1000, enable_wal = True,
                    enable_compression = False, auto_compact = True\<rparr>,
      db_map = \<lparr>buckets = replicate 4 [], capacity = 4, hm_size = 0\<rparr>, wal_file = Some [],
      cache_hits = 0, cache_misses = 0, read_ops = 0, write_ops = 0, created_at = 0,
      last_modified = 0, next_txn_id = 1\<rparr>"

lemma small_db_inv [simp]: "kvdb_inv sc (small_db mode)" "hm_inv sc (db_map (small_db mode))"
  "db_view sc (small_db mode) = Map.empty" "db_mode (db_config (small_db mode)) = mode"
  "db_path (db_config (small_db mode)) = ''d''" "kvdb_count (Some (small_db mode)) = 0"
  by (auto simp: kvdb_count_def kvdb_inv_def hm_inv_def small_db_def db_view_def hm_lookup_bucket bucket_of_def)



text \<open>
  Reading back: after a successful \<open>kvdb_set\<close> of a key, \<open>kvdb_get\<close> of the same key
  returns the value (cut to the caller's buffer) and its full size, and \<open>kvdb_get\<close> of
  any other key gives what it gave before.
\<close>

lemma kvdb_get_after_set:
  assumes "kvdb_inv sc db" and "is_cstr k"
    and "kvdb_set sc al now (Some db) (Some k) (Some v) = (KVDB_OK, Some db')"
    and "length k' \<le> KVDB_MAX_KEY_SIZE"
  shows "(case kvdb_get sc (Some db') (Some k') (Some buf) of (e, out, n, _) \<Rightarrow> (e, out, n)) =
    (if k' = k then (KVDB_OK, Some (take (length buf) v @ drop (length v) buf), Some (length v))
     else (case kvdb_get sc (Some db) (Some k') (Some buf) of (e, out, n, _) \<Rightarrow> (e, out, n)))"
proof -
  have inv: "hm_inv sc (db_map db)" using assms(1) by (simp add: kvdb_inv_def)
  have legal: "length k \<le> KVDB_MAX_KEY_SIZE" "length v \<le> KVDB_MAX_VALUE_SIZE"
      "db_mode (db_config db) \<noteq> KVDB_MODE_READONLY"
    using assms(3) by (auto simp: kvdb_set_def split: if_splits)
  from kvdb_set_result [OF inv legal, of al now] assms(3)
  have "db_view sc db' = (db_view sc db)(k \<mapsto> v)" by auto
  then show ?thesis by (auto simp: kvdb_get_result [OF assms(4)] split: option.split)
qed

lemma kvdb_get_after_set_witness:
  "\<exists>db'. (case kvdb_get True (Some db') (Some ''k'') (Some ''....'') of (e, out, n, _) \<Rightarrow> (e, out, n)) =
     (KVDB_OK, Some ''hi..'', Some 2)"
proof -
  let ?r = "kvdb_set True [] 7 (Some (small_db KVDB_MODE_READWRITE)) (Some ''k'') (Some ''hi'')"
  have "fst ?r = KVDB_OK" by (rule kvdb_set_no_failure) (simp_all add: kvdb_limits)
  moreover have "snd ?r \<noteq> None" by (simp add: kvdb_set_def kvdb_limits Let_def split: prod.split)
  ultimately obtain db' where "?r = (KVDB_OK, Some db')" by (metis option.exhaust prod.collapse)
  from kvdb_get_after_set [OF _ _ this, of "''k''" "''....''"] show ?thesis
    by (intro exI [of _ db']) (simp add: kvdb_limits)
qed

text \<open>A sequence of updates through the public interface, with no allocation failing.\<close>

fun kvdb_do :: "bool \<Rightarrow> int \<Rightarrow> (string, bytes) map_op \<Rightarrow> kvdb option \<Rightarrow> kvdb option" where
  "kvdb_do sc now (MSet k v) dbo = snd (kvdb_set sc [] now dbo (Some k) (Some v))"
| "kvdb_do sc now (MDel k) dbo = snd (kvdb_delete sc now dbo (Some k))"

fun legal_op :: "(string, bytes) map_op \<Rightarrow> bool" where
  "legal_op (MSet k v) \<longleftrightarrow> length k \<le> KVDB_MAX_KEY_SIZE \<and> length v \<le> KVDB_MAX_VALUE_SIZE"
| "legal_op (MDel k) \<longleftrightarrow> length k \<le> KVDB_MAX_KEY_SIZE"

lemma kvdb_do_refines:
  assumes "hm_inv sc (db_map db)" "db_mode (db_config db) \<noteq> KVDB_MODE_READONLY" "legal_op x"
  shows "\<exists>db'. kvdb_do sc now x (Some db) = Some db' \<and> hm_inv sc (db_map db') \<and>
    db_mode (db_config db') \<noteq> KVDB_MODE_READONLY \<and> db_view sc db' = abs_op x (db_view sc db)"
proof (cases x)
  case (MSet k v)
  then have l: "length k \<le> KVDB_MAX_KEY_SIZE" "length v \<le> KVDB_MAX_VALUE_SIZE" using assms(3) by auto
  from kvdb_set_result [OF assms(1) l assms(2), of "[]" now] kvdb_set_no_failure [OF assms(1) l assms(2), of now]
  show ?thesis using MSet assms(2) by auto
next
  case (MDel k)
  then have l: "length k \<le> KVDB_MAX_KEY_SIZE" using assms(3) by auto
  have "db_view sc db k = None \<Longrightarrow> (db_view sc db)(k := None) = db_view sc db" by (simp add: fun_upd_idem)
  with kvdb_delete_result [OF assms(1) l assms(2), of now] show ?thesis
    using MDel assms by (auto split: if_splits)
qed

text \<open>
  C3. The database refines a partial map: any sequence of legal sets and deletes on a writable
  handle leaves exactly the bindings the same sequence leaves in a partial map, and
  \<open>kvdb_count\<close> is the number of bound keys.
\<close>

theorem kvdb_run_refines:
  assumes "hm_inv sc (db_map db)" "db_mode (db_config db) \<noteq> KVDB_MODE_READONLY" "list_all legal_op xs"
  shows "\<exists>db'. fold (kvdb_do sc now) xs (Some db) = Some db' \<and>
    db_view sc db' = fold abs_op xs (db_view sc db) \<and>
    kvdb_count (Some db') = card (dom (fold abs_op xs (db_view sc db)))"
  using assms
proof (induction xs arbitrary: db)
  case Nil
  then show ?case by (auto simp: kvdb_count_def db_view_def hm_size_card(2))
next
  case (Cons x xs)
  from kvdb_do_refines [OF Cons.prems(1,2), of x now] Cons.prems(3) obtain db1 where
    "kvdb_do sc now x (Some db) = Some db1" "hm_inv sc (db_map db1)"
    "db_mode (db_config db1) \<noteq> KVDB_MODE_READONLY" "db_view sc db1 = abs_op x (db_view sc db)" by auto
  with Cons.IH [of db1] Cons.prems(3) show ?case by simp
qed

lemma kvdb_run_refines_witness:
  "\<exists>db'. fold (kvdb_do True 0) [MSet ''a'' ''1'', MSet ''b'' ''2'', MDel ''a''] (Some (small_db KVDB_MODE_READWRITE)) = Some db' \<and>
     kvdb_count (Some db') = 1"
proof -
  have "dom (Map.empty(''a'' := None, ''b'' \<mapsto> ''2'')) = {''b''}" by auto
  then show ?thesis
    using kvdb_run_refines [of True "small_db KVDB_MODE_READWRITE"
        "[MSet ''a'' ''1'', MSet ''b'' ''2'', MDel ''a'']" 0]
    by (auto simp: kvdb_limits)
qed



text \<open>
  A key of exactly 256 bytes is accepted by \<open>kvdb_set\<close> and saved by \<open>kvdb_close\<close>,
  but opening the file again stores the terminator of that key one byte past
  \<open>char key[KVDB_MAX_KEY_SIZE]\<close>.
\<close>

lemma kvdb_reopen_overrun:
  assumes "kvdb_inv sc db" and "is_cstr k" and "length k = KVDB_MAX_KEY_SIZE"
    and "kvdb_set sc al now (Some db) (Some k) (Some v) = (KVDB_OK, Some db')"
    and "\<forall>p m. can p m" and "length (db_path cfg) < 507"
    and "db_path cfg = db_path (db_config db)" and "db_mode cfg \<noteq> KVDB_MODE_CREATE"
  shows "fst (kvdb_open sc can now [] cfg (fst (kvdb_close can fs (Some db')))) = OpenOverrun"
proof -
  have inv: "hm_inv sc (db_map db)" using assms(1) by (simp add: kvdb_inv_def)
  have legal: "length k \<le> KVDB_MAX_KEY_SIZE" "length v \<le> KVDB_MAX_VALUE_SIZE"
      "db_mode (db_config db) \<noteq> KVDB_MODE_READONLY"
    using assms(4) by (auto simp: kvdb_set_def split: if_splits)
  from kvdb_set_result [OF inv legal, of al now] assms(4)
  have view: "db_view sc db' = (db_view sc db)(k \<mapsto> v)" and cfg: "db_config db' = db_config db"
    and "hm_inv sc (db_map db')" by auto
  then have inv': "kvdb_inv sc db'" using assms(1,2) legal by (auto simp: kvdb_inv_def)
  have data: "fst (kvdb_close can fs (Some db')) (db_path cfg) = Some (dump_map (db_map db'))"
    using assms legal cfg by (simp add: kvdb_close_def fopen_def fappend_def)
  have "\<exists>k v. db_view sc db' k = Some v \<and> length k = KVDB_MAX_KEY_SIZE"
    using view assms(3) by auto
  with reopen_saved [where fs = "fst (kvdb_close can fs (Some db'))", OF inv' assms(8,5,6) data, of now] show ?thesis by simp
qed

lemma kvdb_reopen_overrun_witness:
  "fst (kvdb_open True (\<lambda>_ _. True) 7 [] (db_config (small_db KVDB_MODE_READWRITE))
     (fst (kvdb_close (\<lambda>_ _. True) Map.empty
        (snd (kvdb_set True [] 7 (Some (small_db KVDB_MODE_READWRITE)) (Some (replicate 256 CHR ''k'')) (Some ''v'')))))) = OpenOverrun"
proof -
  let ?k = "replicate 256 CHR ''k''"
  let ?r = "kvdb_set True [] 7 (Some (small_db KVDB_MODE_READWRITE)) (Some ?k) (Some ''v'')"
  have "fst ?r = KVDB_OK" by (rule kvdb_set_no_failure) (simp_all add: kvdb_limits)
  moreover have "snd ?r \<noteq> None" by (simp add: kvdb_set_def kvdb_limits Let_def split: prod.split)
  ultimately obtain db' where r: "?r = (KVDB_OK, Some db')" by (metis option.exhaust prod.collapse)
  have "is_cstr ?k" by (simp add: is_cstr_def)
  from kvdb_reopen_overrun [OF _ this _ r, of "\<lambda>_ _. True" "db_config (small_db KVDB_MODE_READWRITE)" Map.empty]
  show ?thesis unfolding r by (simp add: kvdb_limits)
qed

end
