(* ===== verification/Float_Text.thy ===== *)
theory Float_Text
  imports Prelude Complex_Main
begin

text \<open>
  Floating-point numbers as text: the conversions \<open>%.nf\<close> of \<open>printf\<close> and the conversion \<open>(int)\<close> of a \<open>double\<close>, for
  the programs that print measurements. \<open>double\<close> is \<^typ>\<open>rat\<close>; the conversion to decimal rounds to the nearest
  number with \<open>n\<close> places and, halfway, to the one whose last digit is even.
\<close>

definition round_even :: "rat \<Rightarrow> int" where
  "round_even q = (let f = \<lfloor>q\<rfloor>; r = q - of_int f in if r < 1 / 2 then f else if 1 / 2 < r then f + 1 else if even f then f else f + 1)"

definition fmt_fixed :: "nat \<Rightarrow> rat \<Rightarrow> string" where
  "fmt_fixed p v =
     (let n = nat (round_even (\<bar>v\<bar> * 10 ^ p))
      in (if v < 0 then ''-'' else []) @ dec_nat (n div 10 ^ p) @ (if p = 0 then [] else ''.'' @ pad_left p (CHR ''0'') (dec_nat (n mod 10 ^ p))))"

text \<open>\<open>(int)\<close> of a \<open>double\<close> whose value fits: towards zero.\<close>

definition c_trunc :: "rat \<Rightarrow> int" where
  "c_trunc x = (if 0 \<le> x then \<lfloor>x\<rfloor> else \<lceil>x\<rceil>)"

lemma round_even_near: "\<bar>of_int (round_even q) - q\<bar> \<le> 1 / 2"
proof -
  define r where "r = q - of_int \<lfloor>q\<rfloor>"
  have "0 \<le> r" "r < 1" by (simp_all add: r_def) linarith
  moreover have "of_int (round_even q) - q = (if r < 1 / 2 then - r else if 1 / 2 < r then 1 - r else if even \<lfloor>q\<rfloor> then - r else 1 - r)"
    by (simp add: round_even_def Let_def r_def)
  ultimately show ?thesis by (auto simp: abs_if)
qed

lemma round_even_int [simp]: "round_even (of_int k) = k"
  by (simp add: round_even_def)

lemma round_even_nonneg: "0 \<le> q \<Longrightarrow> 0 \<le> round_even q"
  by (simp add: round_even_def Let_def add_nonneg_nonneg)

lemma round_even_mono_int: "q \<le> of_int k \<Longrightarrow> round_even q \<le> k"
proof -
  assume "q \<le> of_int k"
  then have "of_int (round_even q) \<le> (of_int k :: rat) + 1 / 2" using round_even_near [of q] by linarith
  then show ?thesis by linarith
qed

lemma round_even_ge_int: "of_int k \<le> q \<Longrightarrow> k \<le> round_even q"
proof -
  assume "of_int k \<le> q"
  then have "(of_int k :: rat) - 1 / 2 \<le> of_int (round_even q)" using round_even_near [of q] by linarith
  then show ?thesis by linarith
qed

text \<open>The number a text \<open>i.f\<close> with \<open>p\<close> places stands for, and that it is the one nearest to the value printed.\<close>

definition fixed_val :: "nat \<Rightarrow> string \<Rightarrow> rat" where
  "fixed_val p s = of_nat (digits_val 10 0 (filter c_isdigit s)) / 10 ^ p"

lemma digits_val_zeros: "digits_val 10 a (replicate k (CHR ''0'') @ s) = digits_val 10 (a * 10 ^ k) s"
  by (induction k arbitrary: a) (auto simp: digit_val_def mult.assoc)

lemma dec_nat_all_digits: "filter c_isdigit (dec_nat n) = dec_nat n"
proof (rule filter_True)
  show "\<forall>c \<in> set (dec_nat n). c_isdigit c"
  proof
    fix c
    assume "c \<in> set (dec_nat n)"
    then obtain d where "digit_val c = Some d" "d < 10" using dec_nat_digits [of n] by auto
    from digit_char_plain [OF this] show "c_isdigit c" by simp
  qed
qed

lemma digits_val_shift:
  "\<forall>c \<in> set s. \<exists>d < 10. digit_val c = Some d \<Longrightarrow> digits_val 10 a s = a * 10 ^ length s + digits_val 10 0 s"
proof (induction s arbitrary: a)
  case (Cons c s)
  then obtain d where d: "digit_val c = Some d" "d < 10" by auto
  then show ?case using Cons.IH [of "a * 10 + d"] Cons.IH [of d] Cons.prems by (simp add: algebra_simps)
qed simp

lemma fixed_digits:
  assumes "p \<noteq> 0"
  shows "digits_val 10 0 (dec_nat (n div 10 ^ p) @ pad_left p (CHR ''0'') (dec_nat (n mod 10 ^ p))) = n"
proof -
  let ?i = "n div 10 ^ p" and ?f = "n mod 10 ^ p"
  have len: "length (dec_nat ?f) \<le> p" using assms by (intro dec_nat_length) auto
  have "digits_val 10 0 (dec_nat ?i @ pad_left p (CHR ''0'') (dec_nat ?f)) = digits_val 10 (?i * 10 ^ (p - length (dec_nat ?f))) (dec_nat ?f)"
    using dec_nat_digits [of ?i]
    by (subst digits_val_append) (auto simp: digits_val_dec_nat pad_left_def digits_val_zeros)
  also have "\<dots> = ?i * 10 ^ (p - length (dec_nat ?f)) * 10 ^ length (dec_nat ?f) + ?f"
    using dec_nat_digits [of ?f] by (subst digits_val_shift) (auto simp: digits_val_dec_nat)
  also have "\<dots> = ?i * 10 ^ p + ?f" using len by (simp add: mult.assoc flip: power_add)
  also have "\<dots> = n" by (rule div_mult_mod_eq)
  finally show ?thesis .
qed

lemma fmt_fixed_near:
  assumes "0 \<le> v" and "p \<noteq> 0"
  shows "\<bar>fixed_val p (fmt_fixed p v) - v\<bar> \<le> 1 / 2 / 10 ^ p"
proof -
  let ?n = "nat (round_even (v * 10 ^ p))"
  have dig: "filter c_isdigit (pad_left p (CHR ''0'') (dec_nat k)) = pad_left p (CHR ''0'') (dec_nat k)" for k
    by (simp add: pad_left_def dec_nat_all_digits c_isdigit_def)
  have "filter c_isdigit (fmt_fixed p v) = dec_nat (?n div 10 ^ p) @ pad_left p (CHR ''0'') (dec_nat (?n mod 10 ^ p))"
    using assms by (simp add: fmt_fixed_def Let_def dec_nat_all_digits dig c_isdigit_def)
  then have val: "fixed_val p (fmt_fixed p v) = of_nat ?n / 10 ^ p" using fixed_digits [OF assms(2)] by (simp add: fixed_val_def)
  have nn: "(of_nat ?n :: rat) = of_int (round_even (v * 10 ^ p))" using assms(1) round_even_nonneg [of "v * 10 ^ p"] by simp
  have "fixed_val p (fmt_fixed p v) - v = (of_int (round_even (v * 10 ^ p)) - v * 10 ^ p) / 10 ^ p"
    by (simp add: val nn field_simps)
  then have "\<bar>fixed_val p (fmt_fixed p v) - v\<bar> = \<bar>of_int (round_even (v * 10 ^ p)) - v * 10 ^ p\<bar> / 10 ^ p" by (simp add: abs_divide)
  also have "\<dots> \<le> 1 / 2 / 10 ^ p" by (intro divide_right_mono round_even_near) simp
  finally show ?thesis .
qed

lemma fmt_fixed_1_length: "0 \<le> v \<Longrightarrow> v < 1000 - 1 / 20 \<Longrightarrow> length (fmt_fixed 1 v) \<le> 5"
proof -
  assume v: "0 \<le> v" "v < 1000 - 1 / 20"
  have r: "\<bar>of_int (round_even (v * 10)) - v * 10\<bar> \<le> 1 / 2" by (rule round_even_near)
  have "v * 10 < 10000 - 1 / 2" using v(2) by simp
  then have "of_int (round_even (v * 10)) < (10000 :: rat)" using r by linarith
  then have "round_even (v * 10) < 10000" by linarith
  then have "nat (round_even (v * 10)) div 10 < 10 ^ 3" by simp
  then have "length (dec_nat (nat (round_even (v * 10)) div 10)) \<le> 3" by (rule dec_nat_length) simp
  moreover have "length (dec_nat (nat (round_even (v * 10)) mod 10)) \<le> 1" by (rule dec_nat_length) simp_all
  ultimately show ?thesis using v(1) by (simp add: fmt_fixed_def Let_def pad_left_def)
qed

end
