(* ===== verification/Mempool.thy ===== *)
theory Mempool
  imports C_Stdio Float_Text "HOL-Library.Monad_Syntax"
begin

text \<open>
  The fixed-size block allocator of \<open>memory-pool/src/mempool.c\<close>, on an explicit heap. A block
  header lives at an address and is a record with its list pointers; the user bytes are a second
  map on addresses, since the pool places them beside the headers and never on top of them
  (property on the layout below). \<open>NULL\<close> is the address 0. Every operation is an option:
  \<^const>\<open>None\<close> is undefined behaviour (an access to an address that holds no header, a header
  written outside the region) or a lock taken twice by the same thread, which never returns.
  \<open>size_t\<close> arithmetic that may wrap is done on 64-bit words; values that are known to be
  in range are kept as naturals. \<open>sizeof(mempool_block_t)\<close> is 32 on a 64-bit target without
  \<open>MEMPOOL_DEBUG\<close>.
\<close>

unbundle bit_operations_syntax

subsection \<open>Data\<close>

datatype mempool_err = MEMPOOL_OK | MEMPOOL_ERR_NULL_PTR | MEMPOOL_ERR_INVALID_SIZE
  | MEMPOOL_ERR_NO_MEMORY | MEMPOOL_ERR_DOUBLE_FREE | MEMPOOL_ERR_CORRUPTED
  | MEMPOOL_ERR_NOT_OWNER

type_synonym addr = nat

record mempool_block =
  magic :: "32 word"
  is_free :: bool
  blk_size :: nat
  blk_next :: addr
  blk_prev :: addr

record mempool_stats =
  s_total_size :: nat
  s_used_size :: nat
  s_free_size :: nat
  s_block_size :: nat
  s_total_blocks :: nat
  s_used_blocks :: nat
  s_free_blocks :: nat
  s_max_used :: nat
  s_alloc_count :: nat
  s_free_count :: nat
  s_fail_count :: nat

record mempool =
  mp_memory :: addr
  mp_total_size :: nat
  mp_block_size :: nat
  mp_block_count :: nat
  free_list :: addr
  used_list :: addr
  mp_locked :: bool
  mp_stats :: mempool_stats
  is_thread_safe :: bool

record heap =
  hdr :: "addr \<rightharpoonup> mempool_block"
  dat :: "addr \<Rightarrow> char"

abbreviation MEMPOOL_ALIGNMENT :: "64 word" where "MEMPOOL_ALIGNMENT \<equiv> 8"

definition MEMPOOL_MAGIC :: "32 word" where "MEMPOOL_MAGIC = 0xDEADBEEF"

definition ALIGN_UP :: "64 word \<Rightarrow> 64 word \<Rightarrow> 64 word" where
  "ALIGN_UP sz alignment = (sz + alignment - 1) AND NOT (alignment - 1)"

definition BLOCK_HEADER_SIZE :: "64 word" where
  "BLOCK_HEADER_SIZE = ALIGN_UP 32 MEMPOOL_ALIGNMENT"

abbreviation HDR :: nat where "HDR \<equiv> unat BLOCK_HEADER_SIZE"

definition get_block_header :: "addr \<Rightarrow> addr" where
  "get_block_header ptr = ptr - HDR"

definition get_block_data :: "addr \<Rightarrow> addr" where
  "get_block_data block = block + HDR"

definition check_magic :: "mempool_block \<Rightarrow> bool" where
  "check_magic b \<longleftrightarrow> magic b = MEMPOOL_MAGIC"

definition mempool_strerror :: "int \<Rightarrow> string" where
  "mempool_strerror err =
     (if err < 0 \<or> err > 6 then ''Unknown error''
      else [''Success'', ''Null pointer'', ''Invalid size'', ''No memory available'',
            ''Double free detected'', ''Memory corrupted'', ''Not pool owner''] ! nat err)"

text \<open>Access to a header through a pointer, and the pool's optional lock.\<close>

definition modify_block :: "addr \<Rightarrow> (mempool_block \<Rightarrow> mempool_block) \<Rightarrow> heap \<Rightarrow> heap option" where
  "modify_block a f h = (case hdr h a of None \<Rightarrow> None | Some b \<Rightarrow> Some (h\<lparr>hdr := (hdr h)(a \<mapsto> f b)\<rparr>))"

definition pool_lock :: "mempool \<Rightarrow> mempool option" where
  "pool_lock p = (if is_thread_safe p
     then (if mp_locked p then None else Some (p\<lparr>mp_locked := True\<rparr>)) else Some p)"

definition pool_unlock :: "mempool \<Rightarrow> mempool" where
  "pool_unlock p = (if is_thread_safe p then p\<lparr>mp_locked := False\<rparr> else p)"

subsection \<open>Creation\<close>

text \<open>The loop of \<open>init_blocks\<close>; a header that does not fit the region is an overrun.\<close>

function init_loop :: "mempool \<Rightarrow> nat \<Rightarrow> nat \<Rightarrow> heap \<Rightarrow> heap option" where
  "init_loop p tbs i h =
     (if i < mp_block_count p then
        (if i * tbs + HDR \<le> mp_total_size p then
           init_loop p tbs (Suc i) (h\<lparr>hdr := (hdr h)(mp_memory p + i * tbs \<mapsto>
             \<lparr>magic = MEMPOOL_MAGIC, is_free = True, blk_size = mp_block_size p,
              blk_next = (if i < mp_block_count p - 1 then mp_memory p + (i + 1) * tbs else 0),
              blk_prev = (if i > 0 then mp_memory p + (i - 1) * tbs else 0)\<rparr>)\<rparr>)
         else None)
      else Some h)"
  by pat_completeness auto
termination by (relation "measure (\<lambda>(p, tbs, i, h). mp_block_count p - i)") auto

declare init_loop.simps [simp del]

definition init_blocks :: "mempool \<Rightarrow> heap \<Rightarrow> (mempool \<times> heap) option" where
  "init_blocks p h =
     (let total_block_size = unat (of_nat (mp_block_size p) + BLOCK_HEADER_SIZE) in
      case init_loop p total_block_size 0 h of
        None \<Rightarrow> None
      | Some h' \<Rightarrow> Some (p\<lparr>free_list := mp_memory p, used_list := 0\<rparr>, h'))"

datatype create_result = CreateNull | CreateOverrun | Created mempool

text \<open>
  \<open>pool_ok\<close> is the outcome of \<open>malloc(sizeof(mempool_t))\<close> and \<open>region\<close> the behaviour of
  \<open>aligned_alloc\<close> for a given size.
\<close>

definition mempool_create ::
  "bool \<Rightarrow> (nat \<Rightarrow> addr option) \<Rightarrow> 64 word \<Rightarrow> 64 word \<Rightarrow> bool \<Rightarrow> heap \<Rightarrow> create_result \<times> heap" where
  "mempool_create pool_ok region block_size0 block_count thread_safe h =
     (if block_count = 0 then (CreateNull, h)
      else
        let block_size1 = (if block_size0 < 8 then 8 else block_size0);
            block_size = ALIGN_UP block_size1 MEMPOOL_ALIGNMENT
        in if \<not> pool_ok then (CreateNull, h)
           else
             let total_block_size = block_size + BLOCK_HEADER_SIZE;
                 total_size = total_block_size * block_count
             in case region (unat total_size) of
                  None \<Rightarrow> (CreateNull, h)
                | Some base \<Rightarrow>
                    let h1 = h\<lparr>dat := (\<lambda>a. if base \<le> a \<and> a < base + unat total_size then NUL else dat h a)\<rparr>;
                        pool = \<lparr>mp_memory = base, mp_total_size = unat total_size,
                                mp_block_size = unat block_size, mp_block_count = unat block_count,
                                free_list = 0, used_list = 0, mp_locked = False,
                                mp_stats = \<lparr>s_total_size = unat total_size, s_used_size = 0,
                                  s_free_size = unat total_size, s_block_size = unat block_size,
                                  s_total_blocks = unat block_count, s_used_blocks = 0,
                                  s_free_blocks = unat block_count, s_max_used = 0,
                                  s_alloc_count = 0, s_free_count = 0, s_fail_count = 0\<rparr>,
                                is_thread_safe = thread_safe\<rparr>
                    in case init_blocks pool h1 of
                         None \<Rightarrow> (CreateOverrun, h1)
                       | Some (pool', h2) \<Rightarrow> (Created pool', h2))"

text \<open>\<open>mempool_destroy\<close>: whether the leak warning is printed, and the region released.\<close>

definition mempool_destroy :: "mempool option \<Rightarrow> (bool \<times> addr) option" where
  "mempool_destroy po = (case po of None \<Rightarrow> None
     | Some p \<Rightarrow> Some (s_used_blocks (mp_stats p) > 0, mp_memory p))"

subsection \<open>Allocation and release\<close>

definition count_fail :: "mempool \<Rightarrow> mempool" where
  "count_fail p = p\<lparr>mp_stats := (mp_stats p)\<lparr>s_fail_count := s_fail_count (mp_stats p) + 1\<rparr>\<rparr>"

definition stats_alloc :: "nat \<Rightarrow> mempool_stats \<Rightarrow> mempool_stats" where
  "stats_alloc bs s =
     (let s1 = s\<lparr>s_used_size := s_used_size s + bs, s_free_size := s_free_size s - bs,
                 s_used_blocks := s_used_blocks s + 1, s_free_blocks := s_free_blocks s - 1,
                 s_alloc_count := s_alloc_count s + 1\<rparr>
      in if s_used_size s1 > s_max_used s1 then s1\<lparr>s_max_used := s_used_size s1\<rparr> else s1)"

definition stats_free :: "nat \<Rightarrow> mempool_stats \<Rightarrow> mempool_stats" where
  "stats_free bs s =
     s\<lparr>s_used_size := s_used_size s - bs, s_free_size := s_free_size s + bs,
       s_used_blocks := s_used_blocks s - 1, s_free_blocks := s_free_blocks s + 1,
       s_free_count := s_free_count s + 1\<rparr>"

definition mempool_alloc :: "mempool \<Rightarrow> nat \<Rightarrow> heap \<Rightarrow> (addr \<times> mempool \<times> heap) option" where
  "mempool_alloc p sz h =
     (if sz = 0 \<or> sz > mp_block_size p then Some (0, count_fail p, h)
      else do {
        p1 \<leftarrow> pool_lock p;
        let block = free_list p1;
        if block = 0 then Some (0, pool_unlock (count_fail p1), h)
        else do {
          b \<leftarrow> hdr h block;
          if \<not> check_magic b then Some (0, pool_unlock p1, h)
          else do {
            let p2 = p1\<lparr>free_list := blk_next b\<rparr>;
            h2 \<leftarrow> (if free_list p2 \<noteq> 0
                   then modify_block (free_list p2) (\<lambda>c. c\<lparr>blk_prev := 0\<rparr>) h else Some h);
            h3 \<leftarrow> modify_block block
                   (\<lambda>c. c\<lparr>is_free := False, blk_next := used_list p2, blk_prev := 0\<rparr>) h2;
            h4 \<leftarrow> (if used_list p2 \<noteq> 0
                   then modify_block (used_list p2) (\<lambda>c. c\<lparr>blk_prev := block\<rparr>) h3 else Some h3);
            let p3 = p2\<lparr>used_list := block,
                        mp_stats := stats_alloc (mp_block_size p2) (mp_stats p2)\<rparr>;
            Some (get_block_data block, pool_unlock p3, h4)
          }
        }
      })"

definition memset0 :: "addr \<Rightarrow> nat \<Rightarrow> heap \<Rightarrow> heap" where
  "memset0 a n h = h\<lparr>dat := (\<lambda>x. if a \<le> x \<and> x < a + n then NUL else dat h x)\<rparr>"

definition memcpy :: "addr \<Rightarrow> addr \<Rightarrow> nat \<Rightarrow> heap \<Rightarrow> heap" where
  "memcpy d s n h = h\<lparr>dat := (\<lambda>x. if d \<le> x \<and> x < d + n then dat h (s + (x - d)) else dat h x)\<rparr>"

definition mempool_calloc :: "mempool \<Rightarrow> nat \<Rightarrow> heap \<Rightarrow> (addr \<times> mempool \<times> heap) option" where
  "mempool_calloc p sz h = do {
     (ptr, p', h') \<leftarrow> mempool_alloc p sz h;
     Some (ptr, p', if ptr \<noteq> 0 then memset0 ptr sz h' else h')
   }"

definition mempool_free ::
  "mempool \<Rightarrow> addr \<Rightarrow> heap \<Rightarrow> (mempool_err \<times> mempool \<times> heap) option" where
  "mempool_free p ptr h =
     (if ptr = 0 then Some (MEMPOOL_OK, p, h)
      else do {
        let block = get_block_header ptr;
        b \<leftarrow> hdr h block;
        if \<not> check_magic b then Some (MEMPOOL_ERR_CORRUPTED, p, h)
        else if is_free b then Some (MEMPOOL_ERR_DOUBLE_FREE, p, h)
        else do {
          p1 \<leftarrow> pool_lock p;
          (p2, h2) \<leftarrow> (if blk_prev b \<noteq> 0
             then map_option (\<lambda>h'. (p1, h'))
                    (modify_block (blk_prev b) (\<lambda>c. c\<lparr>blk_next := blk_next b\<rparr>) h)
             else Some (p1\<lparr>used_list := blk_next b\<rparr>, h));
          h3 \<leftarrow> (if blk_next b \<noteq> 0
             then modify_block (blk_next b) (\<lambda>c. c\<lparr>blk_prev := blk_prev b\<rparr>) h2 else Some h2);
          h4 \<leftarrow> modify_block block
             (\<lambda>c. c\<lparr>is_free := True, blk_next := free_list p2, blk_prev := 0\<rparr>) h3;
          h5 \<leftarrow> (if free_list p2 \<noteq> 0
             then modify_block (free_list p2) (\<lambda>c. c\<lparr>blk_prev := block\<rparr>) h4 else Some h4);
          let p3 = p2\<lparr>free_list := block, mp_stats := stats_free (mp_block_size p2) (mp_stats p2)\<rparr>;
          Some (MEMPOOL_OK, pool_unlock p3, h5)
        }
      })"

definition mempool_realloc ::
  "mempool \<Rightarrow> addr \<Rightarrow> nat \<Rightarrow> heap \<Rightarrow> (addr \<times> mempool \<times> heap) option" where
  "mempool_realloc p ptr sz h =
     (if ptr = 0 then mempool_alloc p sz h
      else if sz = 0 then do { (_, p', h') \<leftarrow> mempool_free p ptr h; Some (0, p', h') }
      else if sz > mp_block_size p then Some (0, p, h)
      else do {
        (new_ptr, p1, h1) \<leftarrow> mempool_alloc p sz h;
        if new_ptr = 0 then Some (0, p1, h1)
        else do {
          old_block \<leftarrow> hdr h1 (get_block_header ptr);
          let copy_size = (if sz < blk_size old_block then sz else blk_size old_block);
          let h2 = memcpy new_ptr ptr copy_size h1;
          (_, p3, h3) \<leftarrow> mempool_free p1 ptr h2;
          Some (new_ptr, p3, h3)
        }
      })"

text \<open>
  Every entry point opens with a test of \<open>pool\<close>: a null pool gives \<open>NULL\<close> or
  \<open>MEMPOOL_ERR_NULL_PTR\<close>, the value \<open>r\<close>, before anything is read.
\<close>

definition with_pool ::
  "'r \<Rightarrow> (mempool \<Rightarrow> heap \<Rightarrow> ('r \<times> mempool \<times> heap) option) \<Rightarrow> mempool option \<Rightarrow> heap \<Rightarrow>
   ('r \<times> mempool option \<times> heap) option" where
  "with_pool r f po h = (case po of None \<Rightarrow> Some (r, None, h)
     | Some p \<Rightarrow> map_option (\<lambda>(x, p', h'). (x, Some p', h')) (f p h))"

subsection \<open>Inspection and reset\<close>

definition mempool_get_stats ::
  "mempool option \<Rightarrow> (mempool_err \<times> mempool_stats option \<times> mempool option) option" where
  "mempool_get_stats po = (case po of None \<Rightarrow> Some (MEMPOOL_ERR_NULL_PTR, None, None)
     | Some p \<Rightarrow> do { p1 \<leftarrow> pool_lock p;
                       Some (MEMPOOL_OK, Some (mp_stats p1), Some (pool_unlock p1)) })"

text \<open>
  \<open>mempool_dump\<close>: what it prints. A pool has at least one byte, so the percentages are numbers; the result of
  \<open>mempool_get_stats\<close> is not looked at.
\<close>

definition dump_text :: "mempool_stats \<Rightarrow> string" where
  "dump_text s =
     (let percent = (\<lambda>n. fmt_fixed 1 (100 * of_nat n / of_nat (s_total_size s))) in
      ''=== Memory Pool Dump ==='' @ [LF] @
      ''Total size:    '' @ dec_nat (s_total_size s) @ '' bytes'' @ [LF] @
      ''Used size:     '' @ dec_nat (s_used_size s) @ '' bytes ('' @ percent (s_used_size s) @ ''%)'' @ [LF] @
      ''Free size:     '' @ dec_nat (s_free_size s) @ '' bytes ('' @ percent (s_free_size s) @ ''%)'' @ [LF] @
      ''Block size:    '' @ dec_nat (s_block_size s) @ '' bytes'' @ [LF] @
      ''Total blocks:  '' @ dec_nat (s_total_blocks s) @ [LF] @
      ''Used blocks:   '' @ dec_nat (s_used_blocks s) @ [LF] @
      ''Free blocks:   '' @ dec_nat (s_free_blocks s) @ [LF] @
      ''Max used:      '' @ dec_nat (s_max_used s) @ '' bytes'' @ [LF] @
      ''Alloc count:   '' @ dec_nat (s_alloc_count s) @ [LF] @
      ''Free count:    '' @ dec_nat (s_free_count s) @ [LF] @
      ''Fail count:    '' @ dec_nat (s_fail_count s) @ [LF] @
      ''========================'' @ [LF])"

definition mempool_dump :: "mempool option \<Rightarrow> (string \<times> mempool option) option" where
  "mempool_dump po =
     (case po of None \<Rightarrow> Some ([], None)
      | Some p \<Rightarrow> (case mempool_get_stats (Some p) of
          Some (_, Some s, po') \<Rightarrow> Some (dump_text s, po') | _ \<Rightarrow> None))"

text \<open>
  A loop of \<open>mempool_check\<close>: \<^const>\<open>Inl\<close> when a header fails its test, \<^const>\<open>Inr\<close> with
  the number of blocks otherwise. On a cyclic list the loop does not end.
\<close>

partial_function (option) check_walk ::
  "heap \<Rightarrow> bool \<Rightarrow> addr \<Rightarrow> nat \<Rightarrow> (mempool_err + nat) option" where
  "check_walk h want_free block n =
     (if block = 0 then Some (Inr n)
      else case hdr h block of
        None \<Rightarrow> None
      | Some b \<Rightarrow>
          if \<not> check_magic b then Some (Inl MEMPOOL_ERR_CORRUPTED)
          else if is_free b \<noteq> want_free then Some (Inl MEMPOOL_ERR_CORRUPTED)
          else check_walk h want_free (blk_next b) (n + 1))"

definition mempool_check :: "mempool \<Rightarrow> heap \<Rightarrow> (mempool_err \<times> mempool) option" where
  "mempool_check p h = do {
     p1 \<leftarrow> pool_lock p;
     f \<leftarrow> check_walk h True (free_list p1) 0;
     case f of Inl e \<Rightarrow> Some (e, pool_unlock p1)
     | Inr free_count \<Rightarrow> do {
         u \<leftarrow> check_walk h False (used_list p1) 0;
         case u of Inl e \<Rightarrow> Some (e, pool_unlock p1)
         | Inr used_count \<Rightarrow>
             if free_count \<noteq> s_free_blocks (mp_stats p1) \<or> used_count \<noteq> s_used_blocks (mp_stats p1)
             then Some (MEMPOOL_ERR_CORRUPTED, pool_unlock p1)
             else Some (MEMPOOL_OK, pool_unlock p1)
       }
   }"

text \<open>The offsets \<open>mempool_warmup\<close> reads.\<close>

function warmup_from :: "nat \<Rightarrow> nat \<Rightarrow> nat list" where
  "warmup_from tot i = (if i < tot then i # warmup_from tot (i + 4096) else [])"
  by pat_completeness auto
termination by (relation "measure (\<lambda>(tot, i). tot - i)") auto

declare warmup_from.simps [simp del]

definition mempool_warmup :: "mempool \<Rightarrow> nat list" where
  "mempool_warmup p = warmup_from (mp_total_size p) 0"

definition mempool_reset :: "mempool \<Rightarrow> heap \<Rightarrow> (mempool \<times> heap) option" where
  "mempool_reset p h = do {
     p1 \<leftarrow> pool_lock p;
     (p2, h2) \<leftarrow> init_blocks p1 h;
     Some (pool_unlock (p2\<lparr>mp_stats := (mp_stats p2)\<lparr>s_used_size := 0, s_free_size := mp_total_size p2,
             s_used_blocks := 0, s_free_blocks := mp_block_count p2\<rparr>\<rparr>), h2)
   }"


subsection \<open>Doubly linked lists in the heap\<close>

text \<open>
  \<open>dseg H pr a xs q l\<close>: starting at address \<open>a\<close> with predecessor \<open>pr\<close>, the headers at
  \<open>xs\<close> are linked in this order, the last one is \<open>l\<close> and its successor is \<open>q\<close>.
\<close>

fun dseg :: "(addr \<rightharpoonup> mempool_block) \<Rightarrow> addr \<Rightarrow> addr \<Rightarrow> addr list \<Rightarrow> addr \<Rightarrow> addr \<Rightarrow> bool" where
  "dseg H pr a [] q l \<longleftrightarrow> a = q \<and> pr = l"
| "dseg H pr a (x # xs) q l \<longleftrightarrow> a = x \<and> x \<noteq> 0 \<and>
     (\<exists>b. H x = Some b \<and> blk_prev b = pr \<and> dseg H x (blk_next b) xs q l)"

lemma dseg_append:
  "dseg H pr a (xs @ ys) q l \<longleftrightarrow> (\<exists>r m. dseg H pr a xs r m \<and> dseg H m r ys q l)"
  by (induction xs arbitrary: pr a) auto

lemma dseg_frame:
  "(\<And>x. x \<in> set xs \<Longrightarrow> H' x = H x) \<Longrightarrow> dseg H' pr a xs q l \<longleftrightarrow> dseg H pr a xs q l"
  by (induction xs arbitrary: pr a) auto

lemma dseg_upd [simp]: "y \<notin> set xs \<Longrightarrow> dseg (H(y := b)) pr a xs q l \<longleftrightarrow> dseg H pr a xs q l"
  by (rule dseg_frame) auto

lemma dseg_head: "dseg H pr a xs 0 l \<Longrightarrow> a = (if xs = [] then 0 else hd xs)"
  by (cases xs) auto

lemma dseg_nonzero: "dseg H pr a xs q l \<Longrightarrow> 0 \<notin> set xs"
  by (induction xs arbitrary: pr a) auto

lemma dseg_dom: "dseg H pr a xs q l \<Longrightarrow> x \<in> set xs \<Longrightarrow> H x \<noteq> None"
  by (induction xs arbitrary: pr a) auto

text \<open>Changing the predecessor of the first header, or the successor of the last.\<close>

lemma dseg_set_prev:
  "dseg H pr a (x # xs) q l \<Longrightarrow> distinct (x # xs) \<Longrightarrow>
   dseg (H(x \<mapsto> (the (H x))\<lparr>blk_prev := pr'\<rparr>)) pr' a (x # xs) q l"
  by auto

lemma dseg_last: "dseg H pr a (xs @ [y]) q l \<Longrightarrow> l = y \<and> (\<exists>b. H y = Some b \<and> blk_next b = q)"
  by (induction xs arbitrary: pr a) auto

lemma dseg_set_next:
  "dseg H pr a (xs @ [y]) q l \<Longrightarrow> distinct (xs @ [y]) \<Longrightarrow>
   dseg (H(y \<mapsto> (the (H y))\<lparr>blk_next := q'\<rparr>)) pr a (xs @ [y]) q' l"
  by (auto simp: dseg_append)

text \<open>Adding a header in front, as both \<open>mempool_alloc\<close> and \<open>mempool_free\<close> do.\<close>

definition push_front :: "addr \<Rightarrow> mempool_block \<Rightarrow> addr \<Rightarrow> (addr \<rightharpoonup> mempool_block) \<Rightarrow> (addr \<rightharpoonup> mempool_block)" where
  "push_front x b a H =
     (let H1 = H(x \<mapsto> b\<lparr>blk_next := a, blk_prev := 0\<rparr>)
      in if a \<noteq> 0 then H1(a \<mapsto> (the (H1 a))\<lparr>blk_prev := x\<rparr>) else H1)"

lemma dseg_push_front:
  assumes "dseg H 0 a xs 0 l" and "x \<notin> set xs" and "x \<noteq> 0" and "distinct xs"
  shows "\<exists>l'. dseg (push_front x b a H) 0 x (x # xs) 0 l'"
proof (cases xs)
  case Nil
  then show ?thesis using assms by (auto simp: push_front_def)
next
  case (Cons y ys)
  with assms have "a = y" "y \<noteq> x" "y \<noteq> 0" "y \<notin> set ys" by auto
  then show ?thesis using assms Cons by (auto simp: push_front_def Let_def)
qed

lemma push_front_other:
  "z \<noteq> x \<Longrightarrow> z \<noteq> a \<Longrightarrow> push_front x b a H z = H z"
  by (simp add: push_front_def Let_def)

text \<open>Unlinking a header from the middle of a list, as \<open>mempool_free\<close> does.\<close>

definition unlink :: "mempool_block \<Rightarrow> (addr \<rightharpoonup> mempool_block) \<Rightarrow> (addr \<rightharpoonup> mempool_block)" where
  "unlink b H =
     (let H1 = (if blk_prev b \<noteq> 0 then H(blk_prev b \<mapsto> (the (H (blk_prev b)))\<lparr>blk_next := blk_next b\<rparr>) else H)
      in if blk_next b \<noteq> 0 then H1(blk_next b \<mapsto> (the (H1 (blk_next b)))\<lparr>blk_prev := blk_prev b\<rparr>) else H1)"

lemma dseg_unlink:
  assumes seg: "dseg H 0 a (us @ x # vs) 0 l" and d: "distinct (us @ x # vs)" and b: "H x = Some b"
  shows "\<exists>l'. dseg (unlink b H) 0 (if blk_prev b \<noteq> 0 then a else blk_next b) (us @ vs) 0 l'"
    and "blk_prev b \<noteq> 0 \<longleftrightarrow> us \<noteq> []" and "us \<noteq> [] \<Longrightarrow> blk_prev b = last us"
    and "blk_next b \<noteq> 0 \<longleftrightarrow> vs \<noteq> []" and "vs \<noteq> [] \<Longrightarrow> blk_next b = hd vs"
proof -
  from seg b obtain m where us: "dseg H 0 a us x m" and m: "blk_prev b = m"
    and vs: "dseg H x (blk_next b) vs 0 l" and x: "x \<noteq> 0"
    by (auto simp: dseg_append)
  have nz: "0 \<notin> set us" "0 \<notin> set vs" using us vs by (auto dest: dseg_nonzero)
  show n: "blk_next b \<noteq> 0 \<longleftrightarrow> vs \<noteq> []" and n': "vs \<noteq> [] \<Longrightarrow> blk_next b = hd vs"
    using dseg_head [OF vs] nz by (cases vs; auto)+
  show p': "us \<noteq> [] \<Longrightarrow> blk_prev b = last us"
    using us m by (cases us rule: rev_cases) (auto dest: dseg_last)
  show p: "blk_prev b \<noteq> 0 \<longleftrightarrow> us \<noteq> []"
    using us m p' nz by (cases us rule: rev_cases) auto
  let ?H1 = "if blk_prev b \<noteq> 0 then H(blk_prev b \<mapsto> (the (H (blk_prev b)))\<lparr>blk_next := blk_next b\<rparr>) else H"
  have us1: "dseg ?H1 0 (if blk_prev b \<noteq> 0 then a else blk_next b) us (blk_next b) m"
  proof (cases us rule: rev_cases)
    case Nil
    then show ?thesis using p m us by auto
  next
    case (snoc us0 y)
    then have "m = y" "blk_prev b = y" using us m by (auto dest: dseg_last)
    then show ?thesis using dseg_set_next [of H 0 a us0 y x m "blk_next b"] us d p snoc by simp
  qed
  have vs1: "dseg ?H1 x (blk_next b) vs 0 l"
    using vs p' p d by (auto intro!: dseg_upd [THEN iffD2] simp: last_in_set disjoint_iff)
  have "\<exists>l'. dseg (unlink b H) m (blk_next b) vs 0 l'"
  proof (cases vs)
    case Nil
    then show ?thesis using n vs1 by (auto simp: unlink_def Let_def)
  next
    case (Cons y ys)
    then have "blk_next b = y" "y \<noteq> 0" using n' nz by auto
    then show ?thesis using dseg_set_prev [of ?H1 x "blk_next b" y ys 0 l m] vs1 d Cons m
      by (auto simp: unlink_def Let_def)
  qed
  moreover have "dseg (unlink b H) 0 (if blk_prev b \<noteq> 0 then a else blk_next b) us (blk_next b) m"
  proof -
    have "blk_next b \<notin> set us" using n' n d nz by (cases vs) auto
    then show ?thesis using us1
      by (cases "blk_next b = 0") (simp_all add: unlink_def Let_def split del: if_split)
  qed
  ultimately show "\<exists>l'. dseg (unlink b H) 0 (if blk_prev b \<noteq> 0 then a else blk_next b) (us @ vs) 0 l'"
    unfolding dseg_append by blast
qed

subsection \<open>The pool invariant\<close>

definition blk_meta :: "(addr \<rightharpoonup> mempool_block) \<Rightarrow> addr \<Rightarrow> (32 word \<times> bool \<times> nat) option" where
  "blk_meta H x = map_option (\<lambda>b. (magic b, is_free b, blk_size b)) (H x)"

lemma blk_meta_push_front:
  "a = 0 \<or> (a \<noteq> x \<and> H a \<noteq> None) \<Longrightarrow>
   blk_meta (push_front x b a H) = (blk_meta H)(x \<mapsto> (magic b, is_free b, blk_size b))"
  by (auto simp: blk_meta_def push_front_def Let_def fun_eq_iff)

lemma blk_meta_unlink:
  "blk_prev b = 0 \<or> H (blk_prev b) \<noteq> None \<Longrightarrow> blk_next b = 0 \<or> H (blk_next b) \<noteq> None \<Longrightarrow>
   blk_meta (unlink b H) = blk_meta H"
  by (auto simp: blk_meta_def unlink_def Let_def fun_eq_iff)

lemma blk_meta_set_prev: "H x = Some b \<Longrightarrow> blk_meta (H(x \<mapsto> b\<lparr>blk_prev := pr\<rparr>)) = blk_meta H"
  by (auto simp: blk_meta_def fun_eq_iff)

definition block_addr :: "mempool \<Rightarrow> nat \<Rightarrow> addr" where
  "block_addr p i = mp_memory p + i * (mp_block_size p + HDR)"

definition pool_geometry :: "mempool \<Rightarrow> bool" where
  "pool_geometry p \<longleftrightarrow> 0 < mp_memory p \<and> 8 \<le> mp_block_size p \<and> mp_block_size p mod 8 = 0 \<and>
     0 < mp_block_count p \<and> mp_block_count p * (mp_block_size p + HDR) = mp_total_size p \<and>
     mp_total_size p < 2 ^ 64"

definition stats_ok :: "mempool \<Rightarrow> nat \<Rightarrow> nat \<Rightarrow> bool" where
  "stats_ok p nf nu \<longleftrightarrow> s_free_blocks (mp_stats p) = nf \<and> s_used_blocks (mp_stats p) = nu \<and>
     s_used_size (mp_stats p) = nu * mp_block_size p \<and>
     s_free_size (mp_stats p) + s_used_size (mp_stats p) = mp_total_size p \<and>
     s_used_size (mp_stats p) \<le> s_max_used (mp_stats p)"

definition pool_inv :: "heap \<Rightarrow> mempool \<Rightarrow> addr list \<Rightarrow> addr list \<Rightarrow> bool" where
  "pool_inv h p fs us \<longleftrightarrow> \<not> mp_locked p \<and> pool_geometry p \<and>
     (\<exists>l. dseg (hdr h) 0 (free_list p) fs 0 l) \<and> (\<exists>l. dseg (hdr h) 0 (used_list p) us 0 l) \<and>
     distinct (fs @ us) \<and> set (fs @ us) = block_addr p ` {..<mp_block_count p} \<and>
     (\<forall>x \<in> set fs. blk_meta (hdr h) x = Some (MEMPOOL_MAGIC, True, mp_block_size p)) \<and>
     (\<forall>x \<in> set us. blk_meta (hdr h) x = Some (MEMPOOL_MAGIC, False, mp_block_size p)) \<and>
     stats_ok p (length fs) (length us)"

lemma HDR_value [simp]: "HDR = 32"
  by (simp add: BLOCK_HEADER_SIZE_def ALIGN_UP_def)

lemma blk_metaD:
  "blk_meta H x = Some (MEMPOOL_MAGIC, f, bs) \<Longrightarrow>
   \<exists>b. H x = Some b \<and> check_magic b \<and> is_free b = f \<and> blk_size b = bs"
  by (auto simp: blk_meta_def check_magic_def)

lemma pool_lock_unlocked: "\<not> mp_locked p \<Longrightarrow> pool_lock p = Some (p\<lparr>mp_locked := is_thread_safe p\<rparr>)"
  by (cases p) (auto simp: pool_lock_def)

lemma pool_unlock_locked: "mp_locked p = is_thread_safe p \<Longrightarrow> pool_unlock p = p\<lparr>mp_locked := False\<rparr>"
  by (cases p) (auto simp: pool_unlock_def)

lemma modify_block_Some: "hdr h a = Some b \<Longrightarrow> modify_block a f h = Some (h\<lparr>hdr := (hdr h)(a \<mapsto> f b)\<rparr>)"
  by (simp add: modify_block_def)

text \<open>
  What a successful allocation does to the heap: the second free header becomes the first of its
  list, and the block moves to the front of the used list.
\<close>

definition alloc_heap :: "mempool \<Rightarrow> addr \<Rightarrow> mempool_block \<Rightarrow> heap \<Rightarrow> heap" where
  "alloc_heap p x b h =
     (let H1 = (if blk_next b \<noteq> 0 then (hdr h)(blk_next b \<mapsto> (the (hdr h (blk_next b)))\<lparr>blk_prev := 0\<rparr>)
                else hdr h)
      in h\<lparr>hdr := push_front x (b\<lparr>is_free := False\<rparr>) (used_list p) H1\<rparr>)"

definition alloc_pool :: "mempool \<Rightarrow> addr \<Rightarrow> mempool_block \<Rightarrow> mempool" where
  "alloc_pool p x b = p\<lparr>free_list := blk_next b, used_list := x,
     mp_stats := stats_alloc (mp_block_size p) (mp_stats p)\<rparr>"

lemma mempool_alloc_steps:
  assumes sz: "0 < sz" "sz \<le> mp_block_size p" and unl: "\<not> mp_locked p"
    and x: "free_list p = x" "x \<noteq> 0" "hdr h x = Some b" "check_magic b"
    and n: "blk_next b = 0 \<or> (blk_next b \<noteq> x \<and> hdr h (blk_next b) \<noteq> None)"
    and u: "used_list p = 0 \<or> (used_list p \<noteq> x \<and> used_list p \<noteq> blk_next b \<and> hdr h (used_list p) \<noteq> None)"
  shows "mempool_alloc p sz h = Some (x + HDR, alloc_pool p x b, alloc_heap p x b h)"
  using assms
  by (auto simp: mempool_alloc_def pool_lock_unlocked pool_unlock_locked modify_block_def alloc_heap_def
      alloc_pool_def push_front_def Let_def get_block_data_def)

lemma stats_ok_alloc:
  "stats_ok p (Suc nf) nu \<Longrightarrow> Suc nu * mp_block_size p \<le> mp_total_size p \<Longrightarrow>
   stats_ok (p\<lparr>mp_stats := stats_alloc (mp_block_size p) (mp_stats p)\<rparr>) nf (Suc nu)"
  by (auto simp: stats_ok_def stats_alloc_def Let_def)

lemma stats_ok_free:
  "stats_ok p nf (Suc nu) \<Longrightarrow>
   stats_ok (p\<lparr>mp_stats := stats_free (mp_block_size p) (mp_stats p)\<rparr>) (Suc nf) nu"
  by (auto simp: stats_ok_def stats_free_def)

lemma pool_inv_count: "pool_inv h p fs us \<Longrightarrow> length fs + length us = mp_block_count p"
proof -
  assume inv: "pool_inv h p fs us"
  have "inj_on (block_addr p) {..<mp_block_count p}"
    by (rule inj_onI) (simp add: block_addr_def)
  then have "card (set (fs @ us)) = mp_block_count p"
    using inv by (simp add: pool_inv_def card_image)
  moreover have "card (set (fs @ us)) = length (fs @ us)"
    using inv unfolding pool_inv_def by (intro distinct_card) blast
  ultimately show ?thesis by simp
qed

lemma pool_inv_used_size:
  assumes "pool_inv h p fs us" and "n \<le> length fs + length us"
  shows "n * mp_block_size p \<le> mp_total_size p"
proof -
  have "n * mp_block_size p \<le> mp_block_count p * mp_block_size p"
    using assms pool_inv_count by (intro mult_right_mono) auto
  also have "\<dots> \<le> mp_block_count p * (mp_block_size p + HDR)" by (rule mult_left_mono) auto
  finally show ?thesis using assms(1) by (simp add: pool_inv_def pool_geometry_def)
qed

text \<open>The block \<open>x\<close> at the head of the free list becomes the head of the list of used blocks.\<close>

lemma alloc_heap_lists:
  assumes fs: "dseg (hdr h) x (blk_next b) fs 0 l" and useg: "dseg (hdr h) 0 (used_list p) us 0 m"
    and d: "distinct (x # fs @ us)" and x: "x \<noteq> 0"
  defines "H \<equiv> hdr (alloc_heap p x b h)"
  shows "\<exists>l. dseg H 0 x (x # us) 0 l" and "\<exists>l. dseg H 0 (blk_next b) fs 0 l"
    and "check_magic b \<Longrightarrow> blk_size b = mp_block_size p \<Longrightarrow> blk_meta H = (blk_meta (hdr h))(x \<mapsto> (MEMPOOL_MAGIC, False, mp_block_size p))"
proof -
  let ?H1 = "if blk_next b \<noteq> 0 then (hdr h)(blk_next b \<mapsto> (the (hdr h (blk_next b)))\<lparr>blk_prev := 0\<rparr>) else hdr h"
  note nxt = dseg_head [OF fs]
  have nd: "blk_next b = 0 \<or> (blk_next b \<in> set fs \<and> hdr h (blk_next b) \<noteq> None)" using nxt dseg_dom [OF fs] by (cases fs) auto
  have ud: "used_list p = 0 \<or> (used_list p \<in> set us \<and> hdr h (used_list p) \<noteq> None)"
    using dseg_head [OF useg] dseg_dom [OF useg] by (cases us) auto
  have H: "H = push_front x (b\<lparr>is_free := False\<rparr>) (used_list p) ?H1" by (simp add: H_def alloc_heap_def Let_def)
  have "blk_next b \<notin> set us" if "blk_next b \<noteq> 0" using nd d that by auto
  then have useg1: "dseg ?H1 0 (used_list p) us 0 m" using useg by simp
  show "\<exists>l. dseg H 0 x (x # us) 0 l" unfolding H by (rule dseg_push_front [OF useg1]) (use d x in auto)
  have fseg1: "\<exists>l. dseg ?H1 0 (blk_next b) fs 0 l"
  proof (cases fs)
    case (Cons y ys)
    have eq: "blk_next b = y" and y: "y \<noteq> 0" using nxt dseg_nonzero [OF fs] Cons by auto
    have "dseg ((hdr h)(y \<mapsto> (the (hdr h y))\<lparr>blk_prev := 0\<rparr>)) 0 y (y # ys) 0 l"
      by (rule dseg_set_prev [of "hdr h" x]) (use fs d Cons eq in auto)
    then show ?thesis using eq y Cons by auto
  qed (use nxt in simp)
  have "H z = ?H1 z" if "z \<in> set fs" for z unfolding H using that d ud dseg_nonzero [OF fs] by (intro push_front_other) auto
  then show "\<exists>l. dseg H 0 (blk_next b) fs 0 l" using fseg1 by (subst dseg_frame) auto
  have "blk_meta ?H1 = blk_meta (hdr h)" using nd by (auto simp: blk_meta_set_prev)
  then show "blk_meta H = (blk_meta (hdr h))(x \<mapsto> (MEMPOOL_MAGIC, False, mp_block_size p))"
    if "check_magic b" "blk_size b = mp_block_size p"
    unfolding H using ud d that by (subst blk_meta_push_front) (auto simp: check_magic_def)
qed

lemma mempool_alloc_ok:
  assumes inv: "pool_inv h p (x # fs) us" and sz: "0 < sz" "sz \<le> mp_block_size p"
  obtains p' h' where "mempool_alloc p sz h = Some (x + HDR, p', h')" and "pool_inv h' p' fs (x # us)"
    and "dat h' = dat h" and "mp_block_size p' = mp_block_size p"
proof -
  from inv obtain l m where fseg: "dseg (hdr h) 0 (free_list p) (x # fs) 0 l"
    and useg: "dseg (hdr h) 0 (used_list p) us 0 m" and d: "distinct (x # fs @ us)"
    by (auto simp: pool_inv_def)
  from inv blk_metaD obtain b where b: "hdr h x = Some b" "check_magic b" "blk_size b = mp_block_size p"
    unfolding pool_inv_def by (metis list.set_intros(1))
  have x: "free_list p = x" "x \<noteq> 0" and fs: "dseg (hdr h) x (blk_next b) fs 0 l" using fseg b by auto
  have nd: "blk_next b = 0 \<or> (blk_next b \<in> set fs \<and> hdr h (blk_next b) \<noteq> None)"
    using dseg_head [OF fs] dseg_dom [OF fs] by (cases fs) auto
  have ud: "used_list p = 0 \<or> (used_list p \<in> set us \<and> hdr h (used_list p) \<noteq> None)"
    using dseg_head [OF useg] dseg_dom [OF useg] by (cases us) auto
  have alloc: "mempool_alloc p sz h = Some (x + HDR, alloc_pool p x b, alloc_heap p x b h)"
  proof (rule mempool_alloc_steps [OF sz _ x b(1,2)])
    show "\<not> mp_locked p" using inv by (simp add: pool_inv_def)
    show "blk_next b = 0 \<or> (blk_next b \<noteq> x \<and> hdr h (blk_next b) \<noteq> None)" using nd d by auto
    show "used_list p = 0 \<or> (used_list p \<noteq> x \<and> used_list p \<noteq> blk_next b \<and> hdr h (used_list p) \<noteq> None)"
      using ud nd d by auto
  qed
  have "stats_ok (alloc_pool p x b) (length fs) (length (x # us))"
    using stats_ok_alloc [of p "length fs" "length us"] inv pool_inv_used_size [OF inv, of "Suc (length us)"]
    by (simp add: pool_inv_def alloc_pool_def stats_ok_def)
  with alloc_heap_lists [OF fs useg d x(2)] b(2,3) have "pool_inv (alloc_heap p x b h) (alloc_pool p x b) fs (x # us)"
    using inv d by (auto simp: pool_inv_def alloc_pool_def pool_geometry_def block_addr_def)
  then show thesis by (rule that [OF alloc]) (simp_all add: alloc_heap_def Let_def alloc_pool_def)
qed

lemma mempool_alloc_fail:
  assumes inv: "pool_inv h p fs us" and "sz = 0 \<or> sz > mp_block_size p \<or> fs = []"
  shows "mempool_alloc p sz h = Some (0, count_fail p, h)" and "pool_inv h (count_fail p) fs us"
proof -
  have "fs = [] \<Longrightarrow> free_list p = 0" using inv by (auto simp: pool_inv_def)
  then show "mempool_alloc p sz h = Some (0, count_fail p, h)"
    using assms by (auto simp: mempool_alloc_def pool_inv_def pool_lock_unlocked pool_unlock_locked
        count_fail_def)
  show "pool_inv h (count_fail p) fs us"
    using inv by (simp add: pool_inv_def count_fail_def pool_geometry_def stats_ok_def block_addr_def
        image_def)
qed

definition free_heap :: "mempool \<Rightarrow> addr \<Rightarrow> mempool_block \<Rightarrow> heap \<Rightarrow> heap" where
  "free_heap p x b h =
     h\<lparr>hdr := push_front x (b\<lparr>is_free := True\<rparr>) (free_list p) (unlink b (hdr h))\<rparr>"

definition free_pool :: "mempool \<Rightarrow> addr \<Rightarrow> mempool_block \<Rightarrow> mempool" where
  "free_pool p x b = p\<lparr>free_list := x, used_list := (if blk_prev b \<noteq> 0 then used_list p else blk_next b),
     mp_stats := stats_free (mp_block_size p) (mp_stats p)\<rparr>"

lemma mempool_free_steps:
  assumes unl: "\<not> mp_locked p" and x: "x \<noteq> 0" "hdr h x = Some b" "check_magic b" "\<not> is_free b"
    and pr: "blk_prev b = 0 \<or> (blk_prev b \<noteq> x \<and> blk_prev b \<noteq> free_list p \<and> hdr h (blk_prev b) \<noteq> None)"
    and nx: "blk_next b = 0 \<or> (blk_next b \<noteq> x \<and> blk_next b \<noteq> free_list p \<and>
               blk_next b \<noteq> blk_prev b \<and> hdr h (blk_next b) \<noteq> None)"
    and f: "free_list p = 0 \<or> (free_list p \<noteq> x \<and> hdr h (free_list p) \<noteq> None)"
  shows "mempool_free p (x + HDR) h = Some (MEMPOOL_OK, free_pool p x b, free_heap p x b h)"
  using assms
  by (cases "blk_prev b = 0"; cases "blk_next b = 0"; cases "free_list p = 0")
    (auto simp: mempool_free_def pool_lock_unlocked pool_unlock_locked modify_block_def free_heap_def
      free_pool_def push_front_def unlink_def Let_def get_block_header_def)

text \<open>The used block \<open>x\<close> leaves its place in the list of used blocks and becomes the head of the free list.\<close>

lemma unlink_neighbours:
  assumes useg: "dseg (hdr h) 0 (used_list p) (us @ x # vs) 0 m" and d: "distinct (us @ x # vs)" and b: "hdr h x = Some b"
  shows "blk_prev b = 0 \<or> (blk_prev b \<in> set us \<and> hdr h (blk_prev b) \<noteq> None)"
    and "blk_next b = 0 \<or> (blk_next b \<in> set vs \<and> hdr h (blk_next b) \<noteq> None)"
proof -
  note un = dseg_unlink [OF useg d b]
  have dom: "hdr h z \<noteq> None" if "z \<in> set (us @ x # vs)" for z using dseg_dom [OF useg that] .
  show "blk_prev b = 0 \<or> (blk_prev b \<in> set us \<and> hdr h (blk_prev b) \<noteq> None)" using un(2,3) dom by (cases us rule: rev_cases) auto
  show "blk_next b = 0 \<or> (blk_next b \<in> set vs \<and> hdr h (blk_next b) \<noteq> None)" using un(4,5) dom by (cases vs) auto
qed

lemma free_heap_lists:
  assumes fseg: "dseg (hdr h) 0 (free_list p) fs 0 l" and useg: "dseg (hdr h) 0 (used_list p) (us @ x # vs) 0 m"
    and d: "distinct (fs @ us @ x # vs)" and b: "hdr h x = Some b"
  defines "H \<equiv> hdr (free_heap p x b h)"
  shows "\<exists>l. dseg H 0 x (x # fs) 0 l" and "\<exists>l. dseg H 0 (used_list (free_pool p x b)) (us @ vs) 0 l"
    and "check_magic b \<Longrightarrow> blk_size b = mp_block_size p \<Longrightarrow> blk_meta H = (blk_meta (hdr h))(x \<mapsto> (MEMPOOL_MAGIC, True, mp_block_size p))"
proof -
  let ?H1 = "unlink b (hdr h)"
  have du: "distinct (us @ x # vs)" using d by simp
  note nb = unlink_neighbours [OF useg du b]
  have fl: "free_list p = 0 \<or> (free_list p \<in> set fs \<and> hdr h (free_list p) \<noteq> None)"
    using dseg_head [OF fseg] dseg_dom [OF fseg] by (cases fs) auto
  have x0: "x \<noteq> 0" using dseg_nonzero [OF useg] by auto
  have H: "H = push_front x (b\<lparr>is_free := True\<rparr>) (free_list p) ?H1" by (simp add: H_def free_heap_def)
  have un_other: "?H1 z = hdr h z" if "z \<notin> set us" "z \<notin> set vs" for z using that nb by (auto simp: unlink_def Let_def)
  have fseg1: "dseg ?H1 0 (free_list p) fs 0 l" using fseg d un_other by (subst dseg_frame) auto
  show "\<exists>l. dseg H 0 x (x # fs) 0 l" unfolding H by (rule dseg_push_front [OF fseg1]) (use d x0 in auto)
  have "H z = ?H1 z" if "z \<in> set (us @ vs)" for z
    unfolding H using that d fl dseg_nonzero [OF useg] by (intro push_front_other) auto
  then show "\<exists>l. dseg H 0 (used_list (free_pool p x b)) (us @ vs) 0 l"
    using dseg_unlink(1) [OF useg du b] by (subst dseg_frame) (auto simp: free_pool_def)
  have m1: "blk_meta ?H1 = blk_meta (hdr h)" using nb by (intro blk_meta_unlink) auto
  have "free_list p \<noteq> 0 \<Longrightarrow> ?H1 (free_list p) = hdr h (free_list p)" using fl d by (intro un_other) auto
  then show "blk_meta H = (blk_meta (hdr h))(x \<mapsto> (MEMPOOL_MAGIC, True, mp_block_size p))"
    if "check_magic b" "blk_size b = mp_block_size p"
    unfolding H using fl d that m1 by (subst blk_meta_push_front) (auto simp: check_magic_def)
qed

lemma mempool_free_ok:
  assumes inv: "pool_inv h p fs (us @ x # vs)"
  obtains p' h' where "mempool_free p (x + HDR) h = Some (MEMPOOL_OK, p', h')"
    and "pool_inv h' p' (x # fs) (us @ vs)" and "dat h' = dat h" and "mp_block_size p' = mp_block_size p"
proof -
  from inv obtain l m where fseg: "dseg (hdr h) 0 (free_list p) fs 0 l"
    and useg: "dseg (hdr h) 0 (used_list p) (us @ x # vs) 0 m" and d: "distinct (fs @ us @ x # vs)"
    unfolding pool_inv_def by blast
  from inv blk_metaD obtain b where b: "hdr h x = Some b" "check_magic b" "\<not> is_free b" "blk_size b = mp_block_size p"
    unfolding pool_inv_def by (metis in_set_conv_decomp)
  have "distinct (us @ x # vs)" using d by simp
  note nb = unlink_neighbours [OF useg this b(1)]
  have fl: "free_list p = 0 \<or> (free_list p \<in> set fs \<and> hdr h (free_list p) \<noteq> None)"
    using dseg_head [OF fseg] dseg_dom [OF fseg] by (cases fs) auto
  have x0: "x \<noteq> 0" using dseg_nonzero [OF useg] by auto
  have free: "mempool_free p (x + HDR) h = Some (MEMPOOL_OK, free_pool p x b, free_heap p x b h)"
  proof (rule mempool_free_steps [OF _ x0 b(1,2,3)])
    show "\<not> mp_locked p" using inv by (simp add: pool_inv_def)
    show "blk_prev b = 0 \<or> (blk_prev b \<noteq> x \<and> blk_prev b \<noteq> free_list p \<and> hdr h (blk_prev b) \<noteq> None)"
      using nb d fl dseg_nonzero [OF useg] by auto
    show "blk_next b = 0 \<or> (blk_next b \<noteq> x \<and> blk_next b \<noteq> free_list p \<and> blk_next b \<noteq> blk_prev b \<and>
        hdr h (blk_next b) \<noteq> None)"
      using nb d fl dseg_nonzero [OF useg] by auto
    show "free_list p = 0 \<or> (free_list p \<noteq> x \<and> hdr h (free_list p) \<noteq> None)" using fl d by auto
  qed
  have "stats_ok (free_pool p x b) (length (x # fs)) (length (us @ vs))"
    using stats_ok_free [of p "length fs" "length us + length vs"] inv by (simp add: pool_inv_def free_pool_def stats_ok_def)
  with free_heap_lists [OF fseg useg d b(1)] b(2,4) have "pool_inv (free_heap p x b h) (free_pool p x b) (x # fs) (us @ vs)"
    using inv d by (auto simp: pool_inv_def free_pool_def pool_geometry_def block_addr_def)
  then show thesis by (rule that [OF free]) (simp_all add: free_heap_def free_pool_def)
qed

lemma mempool_free_twice:
  assumes "pool_inv h p fs us" and "x \<in> set fs"
  shows "mempool_free p (x + HDR) h = Some (MEMPOOL_ERR_DOUBLE_FREE, p, h)"
proof -
  from assms blk_metaD obtain b where "hdr h x = Some b" "check_magic b" "is_free b"
    unfolding pool_inv_def by metis
  then show ?thesis by (simp add: mempool_free_def get_block_header_def)
qed

subsection \<open>Creating, resetting and checking a pool\<close>

definition fresh_hdr :: "mempool \<Rightarrow> nat \<Rightarrow> nat \<Rightarrow> mempool_block" where
  "fresh_hdr p tbs i = \<lparr>magic = MEMPOOL_MAGIC, is_free = True, blk_size = mp_block_size p,
     blk_next = (if i < mp_block_count p - 1 then mp_memory p + (i + 1) * tbs else 0),
     blk_prev = (if i > 0 then mp_memory p + (i - 1) * tbs else 0)\<rparr>"

lemma init_loop_ok:
  assumes "HDR \<le> tbs" and "mp_block_count p * tbs \<le> mp_total_size p"
  shows "\<exists>h'. init_loop p tbs i h = Some h' \<and> dat h' = dat h \<and>
    (\<forall>j. i \<le> j \<and> j < mp_block_count p \<longrightarrow> hdr h' (mp_memory p + j * tbs) = Some (fresh_hdr p tbs j)) \<and>
    (\<forall>a. (\<forall>j. i \<le> j \<and> j < mp_block_count p \<longrightarrow> a \<noteq> mp_memory p + j * tbs) \<longrightarrow> hdr h' a = hdr h a)"
proof (induction "mp_block_count p - i" arbitrary: i h)
  case 0
  then show ?case by (subst init_loop.simps) auto
next
  case (Suc n)
  let ?h = "h\<lparr>hdr := (hdr h)(mp_memory p + i * tbs \<mapsto> fresh_hdr p tbs i)\<rparr>"
  have i: "i < mp_block_count p" using Suc.hyps(2) by simp
  then have "(i + 1) * tbs \<le> mp_block_count p * tbs" by (intro mult_right_mono) auto
  then have fits: "i * tbs + HDR \<le> mp_total_size p" using assms by simp
  have step: "init_loop p tbs i h = init_loop p tbs (Suc i) ?h"
    by (subst init_loop.simps) (use i fits in \<open>simp add: fresh_hdr_def\<close>)
  have "n = mp_block_count p - Suc i" using Suc.hyps(2) by simp
  from Suc.hyps(1) [OF this, of ?h] obtain h' where h': "init_loop p tbs (Suc i) ?h = Some h'" "dat h' = dat h"
    and new: "\<forall>j. Suc i \<le> j \<and> j < mp_block_count p \<longrightarrow> hdr h' (mp_memory p + j * tbs) = Some (fresh_hdr p tbs j)"
    and old: "\<forall>a. (\<forall>j. Suc i \<le> j \<and> j < mp_block_count p \<longrightarrow> a \<noteq> mp_memory p + j * tbs) \<longrightarrow> hdr h' a = hdr ?h a"
    by auto
  have "hdr h' (mp_memory p + i * tbs) = Some (fresh_hdr p tbs i)"
    using old assms(1) by auto
  then have "hdr h' (mp_memory p + j * tbs) = Some (fresh_hdr p tbs j)" if "i \<le> j" "j < mp_block_count p" for j
    using that new by (cases "i = j") auto
  moreover have "hdr h' a = hdr h a" if "\<forall>j. i \<le> j \<and> j < mp_block_count p \<longrightarrow> a \<noteq> mp_memory p + j * tbs" for a
    using that old i by (metis (no_types, lifting) Suc_leD fun_upd_other heap.select_convs(1) heap.surjective heap.update_convs(1) order_refl)
  ultimately show ?case using h' step by auto
qed

lemma init_loop_overrun:
  assumes "mp_total_size p < j * tbs + HDR" and "i \<le> j" and "j < mp_block_count p"
  shows "init_loop p tbs i h = None"
  using assms
proof (induction "j - i" arbitrary: i h)
  case 0
  then have "i = j" by simp
  then show ?case using 0 by (subst init_loop.simps) simp
next
  case (Suc n)
  then have "n = j - Suc i" "Suc i \<le> j" by simp_all
  with Suc.hyps(1) [of "Suc i"] Suc.prems show ?case by (subst init_loop.simps) simp
qed

lemma fresh_dseg:
  assumes "\<forall>j. i \<le> j \<and> j < mp_block_count p \<longrightarrow> H (mp_memory p + j * tbs) = Some (fresh_hdr p tbs j)"
    and "0 < mp_memory p" and "i \<le> mp_block_count p"
  shows "\<exists>l. dseg H (if i > 0 then mp_memory p + (i - 1) * tbs else 0)
     (if i < mp_block_count p then mp_memory p + i * tbs else 0)
     (map (\<lambda>j. mp_memory p + j * tbs) [i..<mp_block_count p]) 0 l"
  using assms
proof (induction "mp_block_count p - i" arbitrary: i)
  case 0
  then show ?case by simp
next
  case (Suc n)
  then have i: "i < mp_block_count p" and n: "n = mp_block_count p - Suc i" "Suc i \<le> mp_block_count p"
    by simp_all
  from Suc.hyps(1) [OF n(1)] Suc.prems n(2) obtain l where
    "dseg H (mp_memory p + i * tbs) (if Suc i < mp_block_count p then mp_memory p + Suc i * tbs else 0)
      (map (\<lambda>j. mp_memory p + j * tbs) [Suc i..<mp_block_count p]) 0 l" by auto
  moreover have "H (mp_memory p + i * tbs) = Some (fresh_hdr p tbs i)" using Suc.prems i by simp
  moreover have "(i < mp_block_count p - 1) = (Suc i < mp_block_count p)" by arith
  ultimately show ?case using i Suc.prems(2) by (auto simp: upt_conv_Cons fresh_hdr_def)
qed

text \<open>\<open>init_blocks\<close> on a pool whose size is the exact product puts every block on the free list.\<close>

lemma geometry_tbs:
  assumes "pool_geometry p"
  shows "unat (of_nat (mp_block_size p) + BLOCK_HEADER_SIZE) = mp_block_size p + HDR"
proof -
  have "mp_block_size p + HDR \<le> mp_block_count p * (mp_block_size p + HDR)"
    using assms by (cases "mp_block_count p") (auto simp: pool_geometry_def)
  also have "\<dots> < 2 ^ 64" using assms unfolding pool_geometry_def by metis
  finally have lt: "mp_block_size p + HDR < 2 ^ 64" .
  then show ?thesis by (simp add: unat_word_ariths unat_of_nat)
qed

lemma init_blocks_inv:
  assumes geo: "pool_geometry p" and unl: "\<not> mp_locked p"
    and st: "stats_ok p (mp_block_count p) 0"
  obtains h' where "init_blocks p h = Some (p\<lparr>free_list := mp_memory p, used_list := 0\<rparr>, h')"
    and "pool_inv h' (p\<lparr>free_list := mp_memory p, used_list := 0\<rparr>) (map (block_addr p) [0..<mp_block_count p]) []"
    and "dat h' = dat h"
proof -
  let ?tbs = "mp_block_size p + HDR"
  have size: "mp_block_count p * ?tbs \<le> mp_total_size p" using geo by (simp add: pool_geometry_def)
  obtain h' where h': "init_loop p ?tbs 0 h = Some h'" "dat h' = dat h"
    and new: "\<forall>j. 0 \<le> j \<and> j < mp_block_count p \<longrightarrow> hdr h' (mp_memory p + j * ?tbs) = Some (fresh_hdr p ?tbs j)"
    using init_loop_ok [OF _ size, of 0 h] by auto
  have mem: "0 < mp_memory p" and cnt: "0 < mp_block_count p" using geo by (simp_all add: pool_geometry_def)
  have addr: "block_addr p = (\<lambda>j. mp_memory p + j * ?tbs)" by (simp add: block_addr_def fun_eq_iff)
  have "\<exists>l. dseg (hdr h') 0 (mp_memory p) (map (block_addr p) [0..<mp_block_count p]) 0 l"
    using fresh_dseg [OF new mem] cnt unfolding addr by simp
  moreover have "distinct (map (block_addr p) [0..<mp_block_count p])"
    by (auto simp: distinct_map block_addr_def inj_on_def)
  moreover have "blk_meta (hdr h') (block_addr p j) = Some (MEMPOOL_MAGIC, True, mp_block_size p)"
    if "j < mp_block_count p" for j
    using new that unfolding addr by (simp add: blk_meta_def fresh_hdr_def)
  ultimately have "pool_inv h' (p\<lparr>free_list := mp_memory p, used_list := 0\<rparr>) (map (block_addr p) [0..<mp_block_count p]) []"
    using geo unl st by (auto simp: pool_inv_def pool_geometry_def stats_ok_def block_addr_def)
  moreover have "init_blocks p h = Some (p\<lparr>free_list := mp_memory p, used_list := 0\<rparr>, h')"
    using h' by (simp add: init_blocks_def geometry_tbs [OF geo] Let_def del: HDR_value)
  ultimately show thesis using that h'(2) by blast
qed

lemma check_walk_list:
  assumes "dseg (hdr h) pr a xs 0 l"
    and "\<forall>x \<in> set xs. blk_meta (hdr h) x = Some (MEMPOOL_MAGIC, f, bs)"
  shows "check_walk h f a n = Some (Inr (n + length xs))"
  using assms
proof (induction xs arbitrary: pr a n)
  case Nil
  then show ?case by (subst check_walk.simps) simp
next
  case (Cons x xs)
  then obtain b where b: "hdr h x = Some b" "dseg (hdr h) x (blk_next b) xs 0 l" "a = x" "x \<noteq> 0" by auto
  moreover have "check_magic b" "is_free b = f" using Cons.prems(2) b(1)
    by (auto simp: blk_meta_def check_magic_def)
  ultimately show ?case using Cons.IH [OF b(2)] Cons.prems(2) by (subst check_walk.simps) simp
qed

lemma init_loop_step:
  "init_loop p tbs i h =
     (if i < mp_block_count p then
        (if i * tbs + HDR \<le> mp_total_size p
         then init_loop p tbs (Suc i) (h\<lparr>hdr := (hdr h)(mp_memory p + i * tbs \<mapsto> fresh_hdr p tbs i)\<rparr>)
         else None)
      else Some h)"
  by (subst init_loop.simps) (simp add: fresh_hdr_def)

lemma init_loop_other:
  "init_loop (p\<lparr>mp_locked := b\<rparr>) t i g = init_loop p t i g"
  "init_loop (p\<lparr>mp_stats := s\<rparr>) t i g = init_loop p t i g"
proof -
  have "init_loop q t i g = init_loop p t i g"
    if "mp_block_count q = mp_block_count p" "mp_total_size q = mp_total_size p"
      "mp_memory q = mp_memory p" "mp_block_size q = mp_block_size p" for q
  proof (induction "mp_block_count p - i" arbitrary: i g)
    case 0
    then show ?case using that by (subst (1 2) init_loop_step) simp
  next
    case (Suc n)
    have f: "fresh_hdr q t i = fresh_hdr p t i" using that by (simp add: fresh_hdr_def)
    have "n = mp_block_count p - Suc i" using Suc.hyps(2) by simp
    from Suc.hyps(1) [OF this] show ?case by (subst (1 2) init_loop_step) (simp only: that f)
  qed
  from this [of "p\<lparr>mp_locked := b\<rparr>"] this [of "p\<lparr>mp_stats := s\<rparr>"]
  show "init_loop (p\<lparr>mp_locked := b\<rparr>) t i g = init_loop p t i g"
    and "init_loop (p\<lparr>mp_stats := s\<rparr>) t i g = init_loop p t i g"
    by simp_all
qed

lemma mempool_check_ok:
  assumes inv: "pool_inv h p fs us"
  shows "mempool_check p h = Some (MEMPOOL_OK, p)"
proof -
  from inv obtain l m where f: "dseg (hdr h) 0 (free_list p) fs 0 l" and u: "dseg (hdr h) 0 (used_list p) us 0 m"
    by (auto simp: pool_inv_def)
  have "check_walk h True (free_list p) 0 = Some (Inr (length fs))"
    using check_walk_list [OF f, of True "mp_block_size p" 0] inv by (simp add: pool_inv_def)
  moreover have "check_walk h False (used_list p) 0 = Some (Inr (length us))"
    using check_walk_list [OF u, of False "mp_block_size p" 0] inv by (simp add: pool_inv_def)
  moreover have "p\<lparr>mp_locked := False\<rparr> = p" using inv by (cases p) (simp add: pool_inv_def)
  ultimately show ?thesis using inv
    by (simp add: mempool_check_def pool_inv_def stats_ok_def pool_lock_unlocked pool_unlock_locked)
qed

lemma mempool_reset_ok:
  assumes inv: "pool_inv h p fs us"
  obtains p' h' where "mempool_reset p h = Some (p', h')"
    and "pool_inv h' p' (map (block_addr p) [0..<mp_block_count p]) []" and "dat h' = dat h"
proof -
  let ?st = "(mp_stats p)\<lparr>s_used_size := 0, s_free_size := mp_total_size p, s_used_blocks := 0,
               s_free_blocks := mp_block_count p\<rparr>"
  let ?p = "p\<lparr>mp_stats := ?st\<rparr>"
  have geo: "pool_geometry p" and unl: "\<not> mp_locked p" using inv by (simp_all add: pool_inv_def)
  have "pool_geometry ?p" "\<not> mp_locked ?p" "stats_ok ?p (mp_block_count ?p) 0"
    using geo unl by (simp_all add: pool_geometry_def stats_ok_def)
  from init_blocks_inv [OF this, of h] obtain h' where
    h': "init_blocks ?p h = Some (?p\<lparr>free_list := mp_memory p, used_list := 0\<rparr>, h')"
      "pool_inv h' (?p\<lparr>free_list := mp_memory p, used_list := 0\<rparr>) (map (block_addr p) [0..<mp_block_count p]) []"
      "dat h' = dat h"
    by (auto simp: block_addr_def cong: map_cong)
  then have "init_loop p (unat (of_nat (mp_block_size p) + BLOCK_HEADER_SIZE)) 0 h = Some h'"
    by (simp add: init_blocks_def init_loop_other Let_def split: option.splits)
  then have "mempool_reset p h = Some (?p\<lparr>mp_locked := False, free_list := mp_memory p, used_list := 0\<rparr>, h')"
    using unl by (simp add: mempool_reset_def pool_lock_unlocked init_blocks_def init_loop_other Let_def
        pool_unlock_locked)
  moreover have "?p\<lparr>mp_locked := False\<rparr> = ?p" using unl by (cases p) simp
  ultimately have "mempool_reset p h = Some (?p\<lparr>free_list := mp_memory p, used_list := 0\<rparr>, h')" by simp
  with h' show thesis by (intro that)
qed

subsection \<open>Sizes at their machine width\<close>

lemma ALIGN_UP_value:
  assumes "unat sz + 7 < 2 ^ 64"
  shows "unat (ALIGN_UP sz MEMPOOL_ALIGNMENT) = (unat sz + 7) div 8 * 8"
proof -
  have seven: "(7 :: 64 word) = mask 3" by (simp add: mask_eq_exp_minus_1)
  have "w AND NOT (mask 3) = push_bit 3 (drop_bit 3 w)" for w :: "64 word"
    by (rule bit_word_eqI) (auto simp: bit_simps)
  then have eq: "ALIGN_UP sz MEMPOOL_ALIGNMENT = push_bit 3 (drop_bit 3 (sz + 7))"
    by (simp add: ALIGN_UP_def seven add.commute)
  have s7: "unat (sz + 7) = unat sz + 7" using assms by (simp add: unat_word_ariths)
  have "(unat sz + 7) div 8 * 8 < 2 ^ 64" using assms by (meson div_times_less_eq_dividend le_less_trans)
  then show ?thesis
    by (simp add: eq push_bit_eq_mult drop_bit_eq_div unat_word_ariths unat_div s7)
qed

text \<open>The block size the pool settles on, as a natural number.\<close>

definition rounded_size :: "nat \<Rightarrow> nat" where
  "rounded_size n = (max 8 n + 7) div 8 * 8"

lemma rounded_size_bounds: "n \<le> rounded_size n" "8 \<le> rounded_size n" "rounded_size n mod 8 = 0"
  "rounded_size n < max 8 n + 8"
  by (auto simp: rounded_size_def)

lemma create_block_size:
  assumes "unat (bs :: 64 word) + 7 < 2 ^ 64"
  shows "unat (ALIGN_UP (if bs < 8 then 8 else bs) MEMPOOL_ALIGNMENT) = rounded_size (unat bs)"
proof -
  have m: "unat (if bs < 8 then 8 else bs) = max 8 (unat bs)"
    by (auto simp: word_less_nat_alt max_def)
  then have "unat (if bs < 8 then 8 else bs) + 7 < 2 ^ 64" using assms by simp
  from ALIGN_UP_value [OF this] show ?thesis by (simp only: m rounded_size_def)
qed

lemma mempool_create_ok:
  assumes cnt: "cnt \<noteq> 0" and bs: "unat bs + 7 < 2 ^ 64"
    and fits: "unat cnt * (rounded_size (unat bs) + HDR) < 2 ^ 64"
    and region: "region (unat cnt * (rounded_size (unat bs) + HDR)) = Some base" "0 < base"
  obtains p h' where "mempool_create True region bs cnt ts h = (Created p, h')"
    and "pool_inv h' p (map (block_addr p) [0..<unat cnt]) []"
    and "mp_block_size p = rounded_size (unat bs)" and "mp_memory p = base"
    and "mp_block_count p = unat cnt"
proof -
  let ?bs = "ALIGN_UP (if bs < 8 then 8 else bs) MEMPOOL_ALIGNMENT"
  let ?tbs = "?bs + BLOCK_HEADER_SIZE"
  have ub: "unat ?bs = rounded_size (unat bs)" by (rule create_block_size [OF bs])
  have c: "0 < unat cnt" using cnt by (simp add: unat_gt_0)
  then have "rounded_size (unat bs) + HDR \<le> unat cnt * (rounded_size (unat bs) + HDR)"
    by (cases "unat cnt") auto
  then have "rounded_size (unat bs) + HDR < 2 ^ 64" using fits by linarith
  then have ut: "unat ?tbs = rounded_size (unat bs) + HDR"
    by (simp add: unat_word_ariths ub del: HDR_value)
  have us: "unat (?tbs * cnt) = unat cnt * (rounded_size (unat bs) + HDR)"
    using fits by (subst unat_word_ariths(2), subst ut) (simp add: mult.commute del: HDR_value)
  define st where "st = \<lparr>s_total_size = unat (?tbs * cnt), s_used_size = 0, s_free_size = unat (?tbs * cnt),
    s_block_size = unat ?bs, s_total_blocks = unat cnt, s_used_blocks = 0, s_free_blocks = unat cnt,
    s_max_used = 0, s_alloc_count = 0, s_free_count = 0, s_fail_count = 0\<rparr>"
  define p where "p = \<lparr>mp_memory = base, mp_total_size = unat (?tbs * cnt), mp_block_size = unat ?bs,
    mp_block_count = unat cnt, free_list = 0, used_list = 0, mp_locked = False, mp_stats = st,
    is_thread_safe = ts\<rparr>"
  define h1 where "h1 = h\<lparr>dat := (\<lambda>a. if base \<le> a \<and> a < base + unat (?tbs * cnt) then NUL else dat h a)\<rparr>"
  have "pool_geometry p" using region(2) c fits rounded_size_bounds [of "unat bs"]
    by (simp add: pool_geometry_def p_def us ub)
  moreover have "\<not> mp_locked p" by (simp add: p_def)
  moreover have "stats_ok p (mp_block_count p) 0" by (simp add: stats_ok_def p_def st_def)
  ultimately obtain h' where h': "init_blocks p h1 = Some (p\<lparr>free_list := mp_memory p, used_list := 0\<rparr>, h')"
    "pool_inv h' (p\<lparr>free_list := mp_memory p, used_list := 0\<rparr>) (map (block_addr p) [0..<mp_block_count p]) []"
    by (rule init_blocks_inv [of p h1])
  let ?p' = "p\<lparr>free_list := mp_memory p, used_list := 0\<rparr>"
  have "region (unat (?tbs * cnt)) = Some base" using region(1) by (simp add: us)
  then have "mempool_create True region bs cnt ts h = (Created ?p', h')"
    using cnt h'(1) unfolding p_def st_def h1_def by (simp add: mempool_create_def Let_def)
  moreover have "block_addr ?p' = block_addr p" by (simp add: block_addr_def fun_eq_iff)
  ultimately show thesis
    using h'(2) ub by (intro that [of ?p' h']) (simp_all add: p_def)
qed

subsection \<open>Every client history\<close>

text \<open>A pointer a client can hold: \<open>NULL\<close> or the data address of a block of the pool.\<close>

definition block_ptr :: "mempool \<Rightarrow> addr \<Rightarrow> bool" where
  "block_ptr p ptr \<longleftrightarrow> ptr = 0 \<or> (\<exists>i < mp_block_count p. ptr = block_addr p i + HDR)"

inductive pool_step :: "heap \<times> mempool \<Rightarrow> heap \<times> mempool \<Rightarrow> bool" where
  step_alloc: "mempool_alloc p sz h = Some (r, p', h') \<Longrightarrow> pool_step (h, p) (h', p')"
| step_calloc: "mempool_calloc p sz h = Some (r, p', h') \<Longrightarrow> pool_step (h, p) (h', p')"
| step_free: "block_ptr p ptr \<Longrightarrow> mempool_free p ptr h = Some (e, p', h') \<Longrightarrow> pool_step (h, p) (h', p')"
| step_realloc: "block_ptr p ptr \<Longrightarrow> mempool_realloc p ptr sz h = Some (r, p', h') \<Longrightarrow>
    pool_step (h, p) (h', p')"
| step_check: "mempool_check p h = Some (e, p') \<Longrightarrow> pool_step (h, p) (h, p')"
| step_reset: "mempool_reset p h = Some (p', h') \<Longrightarrow> pool_step (h, p) (h', p')"
| step_write: "pool_step (h, p) (h\<lparr>dat := d\<rparr>, p)"

definition pool_good :: "heap \<Rightarrow> mempool \<Rightarrow> bool" where
  "pool_good h p \<longleftrightarrow> (\<exists>fs us. pool_inv h p fs us)"

lemma pool_inv_dat [simp]: "pool_inv (h\<lparr>dat := d\<rparr>) p fs us = pool_inv h p fs us"
  by (simp add: pool_inv_def)

lemma pool_inv_frame:
  assumes "\<And>x. x \<in> set (fs @ us) \<Longrightarrow> hdr h' x = hdr h x"
  shows "pool_inv h' p fs us = pool_inv h p fs us"
proof -
  have "dseg (hdr h') pr a xs q l = dseg (hdr h) pr a xs q l" if "set xs \<subseteq> set (fs @ us)" for pr a xs q l
    using assms that by (intro dseg_frame) blast
  then have "dseg (hdr h') pr a fs q l = dseg (hdr h) pr a fs q l" "dseg (hdr h') pr a us q l = dseg (hdr h) pr a us q l"
    for pr a q l by simp_all
  moreover have "blk_meta (hdr h') x = blk_meta (hdr h) x" if "x \<in> set (fs @ us)" for x
    using assms that by (simp add: blk_meta_def)
  ultimately show ?thesis by (simp add: pool_inv_def)
qed

lemma alloc_total:
  assumes inv: "pool_inv h p fs us"
  obtains r p' h' fs' us' where "mempool_alloc p sz h = Some (r, p', h')" and "pool_inv h' p' fs' us'"
    and "set (fs' @ us') = set (fs @ us)" and "mp_block_size p' = mp_block_size p"
proof (cases "sz = 0 \<or> sz > mp_block_size p \<or> fs = []")
  case True
  show thesis
    by (rule that [OF mempool_alloc_fail(1) [OF inv True] mempool_alloc_fail(2) [OF inv True]])
      (auto simp: count_fail_def)
next
  case False
  then obtain x fs' where "fs = x # fs'" and sz: "0 < sz" "sz \<le> mp_block_size p" by (cases fs) auto
  with inv have i: "pool_inv h p (x # fs') us" by simp
  from mempool_alloc_ok [OF i sz] obtain p' h' where
    al: "mempool_alloc p sz h = Some (x + HDR, p', h')" "pool_inv h' p' fs' (x # us)"
    "mp_block_size p' = mp_block_size p" .
  show thesis by (rule that [OF al(1,2) _ al(3)]) (use \<open>fs = x # fs'\<close> in auto)
qed

lemma free_total:
  assumes inv: "pool_inv h p fs us" and x: "x \<in> set (fs @ us)"
  obtains e p' h' fs' us' where "mempool_free p (x + HDR) h = Some (e, p', h')" and "pool_inv h' p' fs' us'"
proof (cases "x \<in> set fs")
  case True
  show thesis by (rule that [OF mempool_free_twice [OF inv True] inv])
next
  case False
  with x obtain vs ws where "us = vs @ x # ws" by (auto dest: split_list)
  with inv have "pool_inv h p fs (vs @ x # ws)" by simp
  from mempool_free_ok [OF this] show thesis using that by metis
qed

lemma block_ptr_in:
  assumes "pool_inv h p fs us" and "block_ptr p ptr" and "ptr \<noteq> 0"
  obtains x where "x \<in> set (fs @ us)" and "ptr = x + HDR"
  using assms by (auto simp: block_ptr_def pool_inv_def simp del: HDR_value set_append)

lemma free_good:
  assumes "pool_good h p" and "block_ptr p ptr"
  shows "\<exists>e p' h'. mempool_free p ptr h = Some (e, p', h') \<and> pool_good h' p'"
proof (cases "ptr = 0")
  case True
  then show ?thesis using assms by (simp add: mempool_free_def)
next
  case False
  from assms(1) obtain fs us where inv: "pool_inv h p fs us" by (auto simp: pool_good_def)
  from block_ptr_in [OF inv assms(2) False] obtain x where x: "x \<in> set (fs @ us)" "ptr = x + HDR" .
  from free_total [OF inv x(1)] show ?thesis unfolding x(2) pool_good_def by metis
qed

lemma realloc_good:
  assumes good: "pool_good h p" and ptr: "block_ptr p ptr"
  shows "\<exists>r p' h'. mempool_realloc p ptr sz h = Some (r, p', h') \<and> pool_good h' p'"
proof -
  from good obtain fs us where inv: "pool_inv h p fs us" by (auto simp: pool_good_def)
  from alloc_total [OF inv, of sz] obtain r p1 h1 fs1 us1 where
    al: "mempool_alloc p sz h = Some (r, p1, h1)" and inv1: "pool_inv h1 p1 fs1 us1"
    and same: "set (fs1 @ us1) = set (fs @ us)" .
  consider "ptr = 0" | "ptr \<noteq> 0" "sz = 0" | "ptr \<noteq> 0" "sz > mp_block_size p"
    | (copy) "ptr \<noteq> 0" "0 < sz" "sz \<le> mp_block_size p" by linarith
  then show ?thesis
  proof cases
    case 1
    then show ?thesis using al inv1 by (auto simp: mempool_realloc_def pool_good_def)
  next
    case 2
    from free_good [OF good ptr] 2 show ?thesis by (auto simp: mempool_realloc_def)
  next
    case 3
    then show ?thesis using good by (auto simp: mempool_realloc_def)
  next
    case copy
    from block_ptr_in [OF inv ptr copy(1)] obtain x where x: "x \<in> set (fs @ us)" "ptr = x + HDR" .
    then have x1: "x \<in> set (fs1 @ us1)" using same by simp
    have gh: "get_block_header ptr = x" by (simp add: get_block_header_def x(2))
    obtain b where b: "hdr h1 x = Some b"
      using inv1 x1 unfolding pool_inv_def blk_meta_def by fastforce
    let ?h2 = "memcpy r ptr (if sz < blk_size b then sz else blk_size b) h1"
    have "pool_inv ?h2 p1 fs1 us1" using inv1 by (simp add: memcpy_def)
    from free_total [OF this x1] obtain e p3 h3 fs3 us3 where
      "mempool_free p1 ptr ?h2 = Some (e, p3, h3)" "pool_inv h3 p3 fs3 us3" unfolding x(2) .
    then have "mempool_realloc p ptr sz h = Some (if r = 0 then (0, p1, h1) else (r, p3, h3))" "pool_good h3 p3"
      using al copy b gh by (auto simp: mempool_realloc_def pool_good_def Let_def)
    then show ?thesis using inv1 by (auto simp: pool_good_def)
  qed
qed

lemma pool_step_good:
  assumes good: "pool_good h p" and step: "pool_step (h, p) (h', p')"
  shows "pool_good h' p'"
proof -
  from good obtain fs us where inv: "pool_inv h p fs us" by (auto simp: pool_good_def)
  from step show ?thesis
  proof cases
    case (step_alloc sz r)
    then show ?thesis using alloc_total [OF inv, of sz] unfolding pool_good_def by (metis Pair_inject option.inject)
  next
    case (step_calloc sz r)
    obtain r1 p1 h1 fs1 us1 where al: "mempool_alloc p sz h = Some (r1, p1, h1)" and "pool_inv h1 p1 fs1 us1"
      by (rule alloc_total [OF inv, of sz])
    then have "pool_inv h' p' fs1 us1" using step_calloc
      by (auto simp: mempool_calloc_def memset0_def split: if_splits)
    then show ?thesis by (auto simp: pool_good_def)
  next
    case (step_free ptr e)
    then show ?thesis using free_good [OF good, of ptr] by auto
  next
    case (step_realloc ptr sz r)
    then show ?thesis using realloc_good [OF good, of ptr sz] by auto
  next
    case (step_check e)
    then show ?thesis using mempool_check_ok [OF inv] good by simp
  next
    case step_reset
    then show ?thesis using mempool_reset_ok [OF inv] unfolding pool_good_def by (metis Pair_inject option.inject)
  next
    case (step_write d)
    then show ?thesis using good by (simp add: pool_good_def)
  qed
qed

subsection \<open>Properties\<close>

text \<open>A pool of two 16-byte blocks at address 4096, used to instantiate the properties.\<close>

lemma tiny_pool:
  obtains p h where "mempool_create True (\<lambda>_. Some 4096) 16 2 True \<lparr>hdr = Map.empty, dat = (\<lambda>_. NUL)\<rparr> = (Created p, h)"
    and "pool_inv h p [4096, 4144] []" and "mp_block_size p = 16" and "mp_memory p = 4096" and "mp_block_count p = 2"
proof -
  have r: "rounded_size 16 = 16" by (simp add: rounded_size_def)
  have "[0..<2] = [0, 1::nat]" by (simp add: upt_rec)
  then show thesis
    using mempool_create_ok [of 2 16 "\<lambda>_. Some 4096" 4096 True "\<lparr>hdr = Map.empty, dat = (\<lambda>_. NUL)\<rparr>"] r that
    by (auto simp: block_addr_def)
qed

lemma tiny_used:
  obtains p h where "pool_inv h p [4144] ([] @ 4096 # [])" and "mp_block_size p = 16"
proof -
  obtain p h where t: "pool_inv h p [4096, 4144] []" "mp_block_size p = 16" by (rule tiny_pool)
  have sz: "(0::nat) < 16" "16 \<le> mp_block_size p" using t(2) by simp_all
  show thesis by (rule mempool_alloc_ok [OF t(1) sz]) (use that t(2) in auto)
qed

text \<open>
  \<open>mempool_create\<close> with sizes that do not overflow gives a pool whose invariant holds: the
  block size is the request rounded up to a multiple of 8 and at least 8, every block of the region
  is on the free list in address order and none is in use.
\<close>

lemma mempool_create_correct:
  assumes "cnt \<noteq> 0" and "unat bs + 7 < 2 ^ 64"
    and "unat cnt * (rounded_size (unat bs) + HDR) < 2 ^ 64"
    and "region (unat cnt * (rounded_size (unat bs) + HDR)) = Some base" and "0 < base"
  shows "\<exists>p h'. mempool_create True region bs cnt ts h = (Created p, h') \<and>
    pool_inv h' p (map (\<lambda>i. base + i * (mp_block_size p + HDR)) [0..<unat cnt]) [] \<and>
    unat bs \<le> mp_block_size p \<and> mp_block_size p mod 8 = 0 \<and> mp_block_size p < max 8 (unat bs) + 8"
proof -
  obtain p h' where "mempool_create True region bs cnt ts h = (Created p, h')"
    "pool_inv h' p (map (block_addr p) [0..<unat cnt]) []" "mp_block_size p = rounded_size (unat bs)"
    "mp_memory p = base"
    by (rule mempool_create_ok [where region = region, OF assms(1,2,3,4,5), of ts h])
  moreover from this have "block_addr p = (\<lambda>i. base + i * (mp_block_size p + HDR))"
    by (simp add: block_addr_def fun_eq_iff)
  ultimately show ?thesis using rounded_size_bounds [of "unat bs"] by (metis (no_types, lifting))
qed

lemma mempool_create_correct_witness:
  "\<exists>p h'. mempool_create True (\<lambda>_. Some 4096) 20 3 True \<lparr>hdr = Map.empty, dat = (\<lambda>_. NUL)\<rparr> = (Created p, h') \<and>
     mp_block_size p mod 8 = 0 \<and> 20 \<le> mp_block_size p"
  using mempool_create_correct [of 3 20 "\<lambda>_. Some 4096" 4096 True "\<lparr>hdr = Map.empty, dat = (\<lambda>_. NUL)\<rparr>"]
  by (auto simp: rounded_size_def)

text \<open>
  The product \<open>total_block_size * block_count\<close> is not checked: when it does not fit
  \<open>size_t\<close> the region is smaller than the blocks it must hold, and \<open>init_blocks\<close> writes a
  header outside it.
\<close>

lemma mempool_create_overflow:
  assumes "unat bs + 7 + HDR < 2 ^ 64" and "2 ^ 64 \<le> unat cnt * (rounded_size (unat bs) + HDR)"
    and "region (unat cnt * (rounded_size (unat bs) + HDR) mod 2 ^ 64) = Some base"
  shows "fst (mempool_create True region bs cnt ts h) = CreateOverrun"
proof -
  let ?bs = "ALIGN_UP (if bs < 8 then 8 else bs) MEMPOOL_ALIGNMENT"
  let ?tbs = "?bs + BLOCK_HEADER_SIZE"
  let ?r = "rounded_size (unat bs)"
  have ub: "unat ?bs = ?r" using assms(1) by (intro create_block_size) simp
  have "?r + HDR < 2 ^ 64" using rounded_size_bounds(4) [of "unat bs"] assms(1) by (simp add: max_def split: if_splits)
  then have ut: "unat ?tbs = ?r + HDR" by (simp add: unat_word_ariths ub del: HDR_value)
  have us: "unat (?tbs * cnt) = unat cnt * (?r + HDR) mod 2 ^ 64"
    by (subst unat_word_ariths(2), subst ut) (simp add: mult.commute del: HDR_value)
  have cnt: "cnt \<noteq> 0" and c: "0 < unat cnt" using assms(2) by (auto simp: unat_gt_0 intro!: gr0I)
  have "unat cnt * (?r + HDR) mod 2 ^ 64 < 2 ^ 64" by simp
  have split: "unat cnt * (?r + HDR) = (unat cnt - 1) * (?r + HDR) + (?r + HDR)"
    using c by (cases "unat cnt") auto
  have "unat cnt * (?r + HDR) mod 2 ^ 64 + 2 ^ 64 \<le> unat cnt * (?r + HDR)"
    using assms(2) by (metis add.commute le_add_diff_inverse mod_less_eq_dividend le_mod_geq nat_add_left_cancel_le)
  then have short: "unat (?tbs * cnt) < (unat cnt - 1) * (?r + HDR) + HDR"
    using split us \<open>?r + HDR < 2 ^ 64\<close> by linarith
  have "init_blocks p g = None" if "mp_memory p = base" "mp_total_size p = unat (?tbs * cnt)"
      "mp_block_size p = unat ?bs" "mp_block_count p = unat cnt" for p g
  proof -
    have "(of_nat (mp_block_size p) :: 64 word) = ?bs" using that(3) by simp
    then have "unat ((of_nat (mp_block_size p) :: 64 word) + BLOCK_HEADER_SIZE) = ?r + HDR" using ut by simp
    moreover have "init_loop p (?r + HDR) 0 g = None"
      using init_loop_overrun [of p "unat cnt - 1" "?r + HDR" 0 g] short c that by simp
    ultimately show ?thesis by (simp add: init_blocks_def Let_def)
  qed
  then show ?thesis using cnt assms(3) us by (simp add: mempool_create_def Let_def)
qed

lemma mempool_create_overflow_witness:
  "fst (mempool_create True (\<lambda>_. Some 4096) 32 0x0400000000000001 False \<lparr>hdr = Map.empty, dat = (\<lambda>_. NUL)\<rparr>) = CreateOverrun"
  by (rule mempool_create_overflow [where base = 4096]) (simp_all add: rounded_size_def)

text \<open>
  \<open>mempool_alloc\<close>: a size between 1 and the block size is served, while any block is
  free, from the front of the free list, which moves to the front of the used list; every other call
  returns \<open>NULL\<close> and only counts a failure. User bytes are never touched.
\<close>

lemma mempool_alloc_spec:
  assumes inv: "pool_inv h p fs us"
  shows "\<exists>p' h'. if 0 < sz \<and> sz \<le> mp_block_size p \<and> fs \<noteq> []
    then mempool_alloc p sz h = Some (hd fs + HDR, p', h') \<and> pool_inv h' p' (tl fs) (hd fs # us) \<and> dat h' = dat h
    else mempool_alloc p sz h = Some (0, p', h) \<and> pool_inv h p' fs us \<and>
         s_fail_count (mp_stats p') = s_fail_count (mp_stats p) + 1"
proof (cases "0 < sz \<and> sz \<le> mp_block_size p \<and> fs \<noteq> []")
  case True
  then have i: "pool_inv h p (hd fs # tl fs) us" using inv by simp
  show ?thesis using True by (auto intro: mempool_alloc_ok [OF i, of sz])
next
  case False
  then have c: "sz = 0 \<or> sz > mp_block_size p \<or> fs = []" by auto
  show ?thesis using False mempool_alloc_fail [OF inv c] by (auto simp: count_fail_def)
qed

lemma mempool_alloc_spec_witness:
  "\<exists>p h p' h'. mempool_alloc p 16 h = Some (4128, p', h') \<and> pool_inv h' p' [4144] [4096]"
proof -
  obtain p h where t: "pool_inv h p [4096, 4144] []" "mp_block_size p = 16" by (rule tiny_pool)
  from mempool_alloc_spec [OF t(1), of 16] t(2) show ?thesis by auto
qed

text \<open>
  \<open>mempool_free\<close>: releasing a used block, wherever it stands in the used list, puts it in
  front of the free list and keeps every other block, so that the next allocation returns it again;
  releasing it a second time is reported as a double free and changes nothing.
\<close>

lemma mempool_free_spec:
  assumes inv: "pool_inv h p fs (us @ x # vs)" and sz: "0 < sz" "sz \<le> mp_block_size p"
  shows "\<exists>p' h'. mempool_free p (x + HDR) h = Some (MEMPOOL_OK, p', h') \<and>
    pool_inv h' p' (x # fs) (us @ vs) \<and> dat h' = dat h \<and>
    mempool_free p' (x + HDR) h' = Some (MEMPOOL_ERR_DOUBLE_FREE, p', h') \<and>
    map_option fst (mempool_alloc p' sz h') = Some (x + HDR)"
proof -
  obtain p' h' where f: "mempool_free p (x + HDR) h = Some (MEMPOOL_OK, p', h')" "pool_inv h' p' (x # fs) (us @ vs)"
    "dat h' = dat h" "mp_block_size p' = mp_block_size p" by (rule mempool_free_ok [OF inv])
  moreover have "map_option fst (mempool_alloc p' sz h') = Some (x + HDR)"
    by (rule mempool_alloc_ok [OF f(2) sz(1)]) (use sz f(4) in auto)
  ultimately show ?thesis using mempool_free_twice [OF f(2), of x] by auto
qed

lemma mempool_free_spec_witness:
  "\<exists>p h p' h'. mempool_free p 4128 h = Some (MEMPOOL_OK, p', h') \<and> pool_inv h' p' [4096, 4144] []"
proof -
  obtain p h where a: "pool_inv h p [4144] ([] @ 4096 # [])" "mp_block_size p = 16" by (rule tiny_used)
  from mempool_free_spec [OF a(1), of 16] a(2) show ?thesis by auto
qed

text \<open>
  \<open>mempool_realloc\<close> of a used block to a size of 1 up to the block size: when a block is
  free, the data moves to a different block, byte for byte, and the old block is released; when none
  is free the result is \<open>NULL\<close>, even to shrink in place, and the old block stays valid.
\<close>

lemma mempool_realloc_spec:
  assumes inv: "pool_inv h p fs (us @ x # vs)" and sz: "0 < sz" "sz \<le> mp_block_size p"
  shows "\<exists>p' h'. if fs = []
    then mempool_realloc p (x + HDR) sz h = Some (0, p', h) \<and> pool_inv h p' fs (us @ x # vs)
    else mempool_realloc p (x + HDR) sz h = Some (hd fs + HDR, p', h') \<and> hd fs \<noteq> x \<and>
         pool_inv h' p' (x # tl fs) (hd fs # us @ vs) \<and>
         (\<forall>i < sz. dat h' (hd fs + HDR + i) = dat h (x + HDR + i))"
proof (cases fs)
  case Nil
  then have c: "sz = 0 \<or> sz > mp_block_size p \<or> fs = []" by simp
  show ?thesis using mempool_alloc_fail [OF inv c] sz Nil by (auto simp: mempool_realloc_def)
next
  case (Cons y fs')
  with inv have i: "pool_inv h p (y # fs') (us @ x # vs)" by simp
  obtain p1 h1 where al: "mempool_alloc p sz h = Some (y + HDR, p1, h1)"
    and inv0: "pool_inv h1 p1 fs' (y # us @ x # vs)" and d1: "dat h1 = dat h" and bs: "mp_block_size p1 = mp_block_size p"
    by (rule mempool_alloc_ok [OF i sz])
  from inv0 have inv1: "pool_inv h1 p1 fs' ((y # us) @ x # vs)" by simp
  obtain b where b: "hdr h1 x = Some b" "blk_size b = mp_block_size p1"
    using inv1 blk_metaD unfolding pool_inv_def by (metis in_set_conv_decomp)
  let ?h2 = "memcpy (y + HDR) (x + HDR) sz h1"
  have "pool_inv ?h2 p1 fs' ((y # us) @ x # vs)" using inv1 by (simp add: memcpy_def)
  then obtain p3 h3 where f: "mempool_free p1 (x + HDR) ?h2 = Some (MEMPOOL_OK, p3, h3)"
    "pool_inv h3 p3 (x # fs') ((y # us) @ vs)" "dat h3 = dat ?h2"
    by (rule mempool_free_ok)
  have cp: "(if sz < blk_size b then sz else blk_size b) = sz" using b bs sz by simp
  have "mempool_realloc p (x + HDR) sz h = Some (y + HDR, p3, h3)"
    using al b cp f sz by (simp add: mempool_realloc_def get_block_header_def Let_def)
  moreover have "y \<noteq> x" using i by (auto simp: pool_inv_def)
  moreover have "\<forall>i < sz. dat h3 (y + HDR + i) = dat h (x + HDR + i)"
    using f(3) d1 by (simp add: memcpy_def)
  ultimately show ?thesis using f(2) Cons by (intro exI [of _ p3] exI [of _ h3]) simp
qed

lemma mempool_realloc_spec_witness:
  "\<exists>p h p' h'. mempool_realloc p 4128 8 h = Some (4176, p', h') \<and> pool_inv h' p' [4096] [4144]"
proof -
  obtain p h where a: "pool_inv h p [4144] ([] @ 4096 # [])" "mp_block_size p = 16" by (rule tiny_used)
  from mempool_realloc_spec [OF a(1), of 8] a(2) show ?thesis by auto
qed

text \<open>
  C2. In every state a client can reach from \<open>mempool_create\<close> by allocating, releasing any block
  (also twice), reallocating, checking, resetting and writing its data, \<open>mempool_check\<close> ends and
  answers \<open>MEMPOOL_OK\<close>, and every operation returns: no wild access and no lock left held.
\<close>

theorem pool_history_safe:
  assumes create: "mempool_create True region bs cnt ts h0 = (Created p0, h1)"
    and sizes: "unat bs + 7 < 2 ^ 64" "unat cnt * (rounded_size (unat bs) + HDR) < 2 ^ 64"
      "region (unat cnt * (rounded_size (unat bs) + HDR)) = Some base" "0 < base"
    and steps: "pool_step\<^sup>*\<^sup>* (h1, p0) (h, p)"
  shows "mempool_check p h = Some (MEMPOOL_OK, p) \<and> mempool_alloc p sz h \<noteq> None \<and>
    mempool_reset p h \<noteq> None \<and>
    (\<forall>ptr. block_ptr p ptr \<longrightarrow> mempool_free p ptr h \<noteq> None \<and> mempool_realloc p ptr sz h \<noteq> None)"
proof -
  have "cnt \<noteq> 0" using create by (auto simp: mempool_create_def)
  then obtain q g where "mempool_create True region bs cnt ts h0 = (Created q, g)"
    "pool_inv g q (map (block_addr q) [0..<unat cnt]) []"
    by (rule mempool_create_ok [where region = region, OF _ sizes, of ts h0])
  with create have start: "pool_good h1 p0" unfolding pool_good_def by auto
  have "pool_good (fst s) (snd s)" if "pool_step\<^sup>*\<^sup>* (h1, p0) s" for s
    using that by (induction rule: rtranclp_induct) (use start pool_step_good in auto)
  from this [OF steps] have good: "pool_good h p" by simp
  then obtain fs us where inv: "pool_inv h p fs us" by (auto simp: pool_good_def)
  have "mempool_alloc p sz h \<noteq> None" by (rule alloc_total [OF inv, of sz]) auto
  moreover have "mempool_reset p h \<noteq> None" by (rule mempool_reset_ok [OF inv]) auto
  ultimately show ?thesis
    using mempool_check_ok [OF inv] free_good [OF good] realloc_good [OF good] by fastforce
qed

lemma pool_history_safe_witness:
  "\<exists>p h p' h'. mempool_create True (\<lambda>_. Some 4096) 16 2 True \<lparr>hdr = Map.empty, dat = (\<lambda>_. NUL)\<rparr> = (Created p, h) \<and>
     pool_step\<^sup>*\<^sup>* (h, p) (h', p') \<and> mempool_check p' h' = Some (MEMPOOL_OK, p')"
proof -
  obtain p h where t: "mempool_create True (\<lambda>_. Some 4096) 16 2 True \<lparr>hdr = Map.empty, dat = (\<lambda>_. NUL)\<rparr> = (Created p, h)"
    "pool_inv h p [4096, 4144] []" "mp_block_size p = 16" by (rule tiny_pool)
  have sz: "(0::nat) < 16" "16 \<le> mp_block_size p" using t(3) by simp_all
  obtain p1 h1 where "mempool_alloc p 16 h = Some (4096 + HDR, p1, h1)"
    by (rule mempool_alloc_ok [OF t(2) sz])
  then have s: "pool_step\<^sup>*\<^sup>* (h, p) (h1, p1)" by (blast intro: step_alloc)
  show ?thesis using t(1) s pool_history_safe [OF t(1) _ _ _ _ s, of 4096] by (auto simp: rounded_size_def)
qed

text \<open>
  The layout: in a well-formed pool the data of two different blocks never overlap, no block's
  data overlaps a header, and every block lies inside the region the pool allocated.
\<close>

lemma pool_layout_disjoint:
  assumes inv: "pool_inv h p fs us" and x: "x \<in> set (fs @ us)" and y: "y \<in> set (fs @ us)" and "x < y"
  shows "mp_memory p \<le> x \<and> x + HDR + mp_block_size p \<le> y \<and>
    y + HDR + mp_block_size p \<le> mp_memory p + mp_total_size p"
proof -
  have geo: "pool_geometry p" and sets: "set (fs @ us) = block_addr p ` {..<mp_block_count p}"
    using inv unfolding pool_inv_def by blast+
  obtain i j where ij: "x = block_addr p i" "y = block_addr p j" "j < mp_block_count p"
    using x y unfolding sets by blast
  have "i < j" using \<open>x < y\<close> ij by (auto simp: block_addr_def)
  then have 1: "Suc i * (mp_block_size p + HDR) \<le> j * (mp_block_size p + HDR)" by (intro mult_right_mono) auto
  have 2: "Suc j * (mp_block_size p + HDR) \<le> mp_block_count p * (mp_block_size p + HDR)"
    using ij(3) by (intro mult_right_mono) auto
  have 3: "mp_block_count p * (mp_block_size p + HDR) = mp_total_size p"
    using geo unfolding pool_geometry_def by blast
  show ?thesis using 1 2 unfolding 3 ij block_addr_def by simp
qed

lemma pool_layout_disjoint_witness:
  "\<exists>p h. pool_inv h p [4096, 4144] [] \<and> 4096 + HDR + mp_block_size p \<le> 4144"
proof -
  obtain p h where t: "pool_inv h p [4096, 4144] []" by (rule tiny_pool)
  show ?thesis using t pool_layout_disjoint [OF t, of 4096 4144] by auto
qed

text \<open>
  \<open>MEMPOOL_ERR_NOT_OWNER\<close> is never returned: releasing, through a well-formed pool, a used
  block of some other pool (alone on that pool's used list) answers \<open>MEMPOOL_OK\<close>, and the foreign
  block becomes the first block this pool will hand out.
\<close>

lemma mempool_free_foreign:
  assumes inv: "pool_inv h p fs us" and foreign: "x \<notin> block_addr p ` {..<mp_block_count p}" and "x \<noteq> 0"
    and b: "hdr h x = Some b" "check_magic b" "\<not> is_free b" "blk_prev b = 0" "blk_next b = 0"
  shows "\<exists>p' h'. mempool_free p (x + HDR) h = Some (MEMPOOL_OK, p', h') \<and> free_list p' = x \<and>
    mp_memory p' = mp_memory p \<and> mp_block_size p' = mp_block_size p \<and> mp_block_count p' = mp_block_count p"
proof -
  from inv obtain l where f: "dseg (hdr h) 0 (free_list p) fs 0 l" by (auto simp: pool_inv_def)
  have sets: "set (fs @ us) = block_addr p ` {..<mp_block_count p}" using inv unfolding pool_inv_def by blast
  have "free_list p = 0 \<or> free_list p \<in> set fs" using dseg_head [OF f] by (cases fs) auto
  then have "free_list p = 0 \<or> (free_list p \<noteq> x \<and> hdr h (free_list p) \<noteq> None)"
    using dseg_dom [OF f] foreign sets by auto
  moreover have "\<not> mp_locked p" using inv by (simp add: pool_inv_def)
  ultimately have "mempool_free p (x + HDR) h = Some (MEMPOOL_OK, free_pool p x b, free_heap p x b h)"
    using b \<open>x \<noteq> 0\<close> by (intro mempool_free_steps) auto
  then show ?thesis by (auto simp: free_pool_def)
qed

lemma mempool_free_foreign_witness:
  "\<exists>p h p' h'. pool_inv h p [4096, 4144] [] \<and> mempool_free p 8032 h = Some (MEMPOOL_OK, p', h') \<and> free_list p' = 8000"
proof -
  obtain p h where t: "pool_inv h p [4096, 4144] []" "mp_block_size p = 16" "mp_memory p = 4096" "mp_block_count p = 2"
    by (rule tiny_pool)
  let ?b = "\<lparr>magic = MEMPOOL_MAGIC, is_free = False, blk_size = 16, blk_next = 0, blk_prev = 0\<rparr>"
  let ?h = "h\<lparr>hdr := (hdr h)(8000 \<mapsto> ?b)\<rparr>"
  have "pool_inv ?h p [4096, 4144] []" using t(1) by (subst pool_inv_frame [where h = h]) auto
  moreover have "8000 \<notin> block_addr p ` {..<mp_block_count p}"
  proof
    assume "8000 \<in> block_addr p ` {..<mp_block_count p}"
    then obtain i where "i < 2" "8000 = 4096 + i * (48::nat)" using t by (auto simp: block_addr_def)
    then show False by presburger
  qed
  moreover from mempool_free_foreign [OF calculation, of ?b] t
  have "\<exists>p' h'. mempool_free p 8032 ?h = Some (MEMPOOL_OK, p', h') \<and> free_list p' = 8000"
    by (auto simp: check_magic_def)
  ultimately show ?thesis by blast
qed

end
