(* ===== verification/Ring_Queue.thy ===== *)
theory Ring_Queue
  imports Main
begin

text \<open>
  Bounded first-in first-out queues. The ring buffer of the log system and the connection queues
  of the web server and of the proxy are the same index arithmetic on different structures: the
  list a ring holds and the effect of one write and one read on it are proved here once. The
  locale \<open>bounded_queue\<close> is the contract their clients use; inside it every history of
  accepted and delivered elements is shown to be first-in first-out, with nothing lost, repeated or
  invented.
\<close>

subsection \<open>Index arithmetic of a ring\<close>

definition ring_list :: "'a list \<Rightarrow> nat \<Rightarrow> nat \<Rightarrow> nat \<Rightarrow> 'a list" where
  "ring_list slots cap h n = map (\<lambda>i. slots ! ((h + i) mod cap)) [0..<n]"

lemma length_ring_list [simp]: "length (ring_list slots cap h n) = n"
  by (simp add: ring_list_def)

definition ring_wf :: "'a list \<Rightarrow> nat \<Rightarrow> nat \<Rightarrow> nat \<Rightarrow> nat \<Rightarrow> bool" where
  "ring_wf slots cap h t n \<longleftrightarrow>
     0 < cap \<and> length slots = cap \<and> h < cap \<and> n \<le> cap \<and> t = (h + n) mod cap"

lemma ring_push:
  assumes "ring_wf slots cap h t n" and "n < cap"
  shows "ring_wf (slots[t := x]) cap h ((t + 1) mod cap) (n + 1)"
    and "ring_list (slots[t := x]) cap h (n + 1) = ring_list slots cap h n @ [x]"
proof -
  from assms have cap: "0 < cap" "length slots = cap" and t: "t = (h + n) mod cap" "t < cap"
    by (auto simp: ring_wf_def)
  show "ring_wf (slots[t := x]) cap h ((t + 1) mod cap) (n + 1)"
    using assms by (auto simp: ring_wf_def mod_Suc_eq)
  have "slots[t := x] ! ((h + i) mod cap) = slots ! ((h + i) mod cap)" if "i < n" for i
  proof -
    have "(h + i) mod cap \<noteq> (h + n) mod cap"
    proof
      assume "(h + i) mod cap = (h + n) mod cap"
      then have "cap dvd (h + n) - (h + i)" using that by (intro mod_eq_dvd_iff_nat [THEN iffD1]) auto
      then have "cap dvd n - i" by simp
      moreover have "0 < n - i" "n - i < cap" using that assms(2) by auto
      ultimately show False using dvd_imp_le by fastforce
    qed
    then show ?thesis using t by simp
  qed
  then show "ring_list (slots[t := x]) cap h (n + 1) = ring_list slots cap h n @ [x]"
    using t cap by (simp add: ring_list_def)
qed

lemma ring_pop:
  assumes "ring_wf slots cap h t n" and "0 < n"
  shows "ring_wf slots cap ((h + 1) mod cap) t (n - 1)"
    and "ring_list slots cap h n = slots ! h # ring_list slots cap ((h + 1) mod cap) (n - 1)"
proof -
  from assms have cap: "0 < cap" "h < cap" by (auto simp: ring_wf_def)
  have "((h + 1) mod cap + (n - 1)) mod cap = (h + 1 + (n - 1)) mod cap" by (rule mod_add_left_eq)
  then have "((h + 1) mod cap + (n - 1)) mod cap = (h + n) mod cap" using assms(2) by simp
  then show "ring_wf slots cap ((h + 1) mod cap) t (n - 1)" using assms by (auto simp: ring_wf_def)
  obtain m where n: "n = Suc m" using assms(2) gr0_conv_Suc by auto
  have "(h + Suc i) mod cap = ((h + 1) mod cap + i) mod cap" for i by (simp add: mod_add_left_eq)
  then show "ring_list slots cap h n = slots ! h # ring_list slots cap ((h + 1) mod cap) (n - 1)"
    using cap n by (simp add: ring_list_def map_upt_Suc del: upt_Suc)
qed

subsection \<open>The contract\<close>

datatype 'a qop = Enq 'a | Deq

locale bounded_queue =
  fixes enq :: "'q \<Rightarrow> 'a \<Rightarrow> 'q option"
    and deq :: "'q \<Rightarrow> ('a \<times> 'q) option"
    and contents :: "'q \<Rightarrow> 'a list"
    and room :: "'q \<Rightarrow> nat"
    and inv :: "'q \<Rightarrow> bool"
  assumes enq_full: "inv q \<Longrightarrow> enq q x = None \<longleftrightarrow> room q \<le> length (contents q)"
    and enq_ok: "inv q \<Longrightarrow> enq q x = Some q' \<Longrightarrow> inv q' \<and> contents q' = contents q @ [x] \<and> room q' = room q"
    and deq_empty: "inv q \<Longrightarrow> deq q = None \<longleftrightarrow> contents q = []"
    and deq_ok: "inv q \<Longrightarrow> deq q = Some (x, q') \<Longrightarrow> inv q' \<and> contents q = x # contents q' \<and> room q' = room q"
    and bounded: "inv q \<Longrightarrow> length (contents q) \<le> room q"
begin

text \<open>
  One history: the elements accepted so far, the elements delivered so far and the queue. A full
  queue refuses an element and an empty one delivers nothing.
\<close>

fun qstep :: "'a qop \<Rightarrow> 'a list \<times> 'a list \<times> 'q \<Rightarrow> 'a list \<times> 'a list \<times> 'q" where
  "qstep (Enq x) (ins, outs, q) = (case enq q x of None \<Rightarrow> (ins, outs, q) | Some q' \<Rightarrow> (ins @ [x], outs, q'))"
| "qstep Deq (ins, outs, q) = (case deq q of None \<Rightarrow> (ins, outs, q) | Some (x, q') \<Rightarrow> (ins, outs @ [x], q'))"

definition fifo_ok :: "nat \<Rightarrow> 'a list \<times> 'a list \<times> 'q \<Rightarrow> bool" where
  "fifo_ok r s \<longleftrightarrow> (case s of (ins, outs, q) \<Rightarrow> inv q \<and> ins = outs @ contents q \<and> room q = r)"

lemma qstep_fifo: "fifo_ok r s \<Longrightarrow> fifo_ok r (qstep op s)"
proof (cases op)
  case (Enq x)
  assume s: "fifo_ok r s"
  obtain ins outs q where [simp]: "s = (ins, outs, q)" by (cases s)
  show ?thesis
    using s Enq enq_ok [of q x] by (auto simp: fifo_ok_def split: option.splits)
next
  case Deq
  assume s: "fifo_ok r s"
  obtain ins outs q where [simp]: "s = (ins, outs, q)" by (cases s)
  show ?thesis
    using s Deq deq_ok [of q] by (auto simp: fifo_ok_def split: option.splits)
qed

lemma history_fifo:
  assumes "inv q"
  shows "case fold qstep ops (contents q, [], q) of
    (ins, outs, q') \<Rightarrow> inv q' \<and> ins = outs @ contents q' \<and> length (contents q') \<le> room q"
proof -
  have "fifo_ok (room q) (fold qstep ops (contents q, [], q))"
  proof -
    have "fifo_ok (room q) (contents q, [], q)" using assms by (simp add: fifo_ok_def)
    then show ?thesis
    proof (induction ops rule: rev_induct)
      case Nil
      then show ?case by simp
    next
      case (snoc op ops)
      then show ?case using qstep_fifo by simp
    qed
  qed
  then show ?thesis by (auto simp: fifo_ok_def dest: bounded split: prod.splits)
qed

text \<open>Delivering until the queue is empty delivers exactly its content, in order.\<close>

fun drain :: "nat \<Rightarrow> 'q \<Rightarrow> 'a list \<times> 'q" where
  "drain 0 q = ([], q)"
| "drain (Suc n) q = (case deq q of None \<Rightarrow> ([], q)
     | Some (x, q') \<Rightarrow> (let (xs, q'') = drain n q' in (x # xs, q'')))"

lemma drain_all:
  "inv q \<Longrightarrow> length (contents q) \<le> n \<Longrightarrow> fst (drain n q) = contents q \<and> contents (snd (drain n q)) = []"
proof (induction n arbitrary: q)
  case 0
  then show ?case by simp
next
  case (Suc n)
  show ?case
  proof (cases "deq q")
    case None
    then show ?thesis using deq_empty [OF Suc.prems(1)] by simp
  next
    case (Some r)
    obtain x q' where r: "r = (x, q')" by (cases r)
    from deq_ok [OF Suc.prems(1)] Some r have "inv q'" "contents q = x # contents q'" by auto
    with Suc.IH [of q'] Suc.prems(2) show ?thesis by (auto simp: Some r split: prod.splits)
  qed
qed

end

end
