(* ===== verification/Log_System.thy ===== *)
theory Log_System
  imports C_Stdio Ring_Queue
begin

text \<open>
  The logging library of \<open>log-system/src/log.c\<close>: levels, the formatting of an entry, the three
  outputs, size-based rotation, the ring buffer of the asynchronous mode with its worker thread, and
  the hex dump. The global \<open>g_log\<close> and \<open>g_ring\<close> are one state record; \<open>mutex_held\<close> says
  that the calling thread holds \<open>g_log.mutex\<close>, which is not recursive. The text that
  \<open>vsnprintf\<close> makes of the caller's format is an argument, and so are the clock, the thread id,
  \<open>localtime_r\<close> and whether a file can be opened. An operation that locks a mutex it holds
  is \<open>Deadlock\<close>, one that would wait on a condition variable is \<open>Waits\<close>, and a buffer overrun or
  a write through a null stream is \<open>Undefined\<close>.
\<close>

unbundle bit_operations_syntax

subsection \<open>Data\<close>

abbreviation (input) LOG_TRACE :: int where "LOG_TRACE \<equiv> 0"
abbreviation (input) LOG_DEBUG :: int where "LOG_DEBUG \<equiv> 1"
abbreviation (input) LOG_INFO :: int where "LOG_INFO \<equiv> 2"
abbreviation (input) LOG_WARN :: int where "LOG_WARN \<equiv> 3"
abbreviation (input) LOG_ERROR :: int where "LOG_ERROR \<equiv> 4"
abbreviation (input) LOG_FATAL :: int where "LOG_FATAL \<equiv> 5"
abbreviation (input) LOG_OFF :: int where "LOG_OFF \<equiv> 6"

abbreviation (input) LOG_TARGET_CONSOLE :: "32 word" where "LOG_TARGET_CONSOLE \<equiv> 1"
abbreviation (input) LOG_TARGET_FILE :: "32 word" where "LOG_TARGET_FILE \<equiv> 2"
abbreviation (input) LOG_TARGET_CALLBACK :: "32 word" where "LOG_TARGET_CALLBACK \<equiv> 8"

abbreviation (input) LOG_FORMAT_TIME :: "32 word" where "LOG_FORMAT_TIME \<equiv> 0x01"
abbreviation (input) LOG_FORMAT_LEVEL :: "32 word" where "LOG_FORMAT_LEVEL \<equiv> 0x02"
abbreviation (input) LOG_FORMAT_TID :: "32 word" where "LOG_FORMAT_TID \<equiv> 0x04"
abbreviation (input) LOG_FORMAT_FILE :: "32 word" where "LOG_FORMAT_FILE \<equiv> 0x08"
abbreviation (input) LOG_FORMAT_LINE :: "32 word" where "LOG_FORMAT_LINE \<equiv> 0x10"
abbreviation (input) LOG_FORMAT_FUNC :: "32 word" where "LOG_FORMAT_FUNC \<equiv> 0x20"

datatype log_rotate_policy = LOG_ROTATE_NONE | LOG_ROTATE_SIZE | LOG_ROTATE_TIME | LOG_ROTATE_BOTH

record log_entry =
  le_level :: int
  le_file :: string
  le_line :: int
  le_func :: string
  le_timestamp :: nat
  le_tid :: nat
  le_message :: string

record log_config =
  lc_level :: int
  lc_targets :: "32 word"
  lc_format :: "32 word"
  log_dir :: string
  log_prefix :: string
  max_file_size :: nat
  max_file_count :: int
  rotate_policy :: log_rotate_policy
  async_mode :: bool
  ring_buffer_size :: nat
  has_callback :: bool

definition LOG_DEFAULT_CONFIG :: log_config where
  "LOG_DEFAULT_CONFIG = \<lparr>lc_level = LOG_INFO, lc_targets = LOG_TARGET_CONSOLE,
     lc_format = LOG_FORMAT_TIME OR LOG_FORMAT_LEVEL, log_dir = ''./log'', log_prefix = ''app'',
     max_file_size = 10 * 1024 * 1024, max_file_count = 10, rotate_policy = LOG_ROTATE_SIZE,
     async_mode = False, ring_buffer_size = 65536, has_callback = False\<rparr>"

record ring_buffer =
  rb_entries :: "log_entry list"
  rb_capacity :: nat
  rb_head :: nat
  rb_tail :: nat
  rb_count :: nat

record log_state =
  lg_config :: log_config
  log_file :: "path option"
  log_filepath :: path
  current_file_index :: int
  current_file_size :: nat
  mutex_held :: bool
  lg_running :: bool
  total_bytes :: nat
  total_entries :: nat
  lg_ring :: ring_buffer
  lg_console :: "(bool \<times> string) list"
  lg_callbacks :: "log_entry list"
  lg_files :: fstore

record tm =
  tm_year :: int
  tm_mon :: int
  tm_mday :: int
  tm_hour :: int
  tm_min :: int
  tm_sec :: int

datatype 'a outcome = Done 'a | Deadlock | Waits | Undefined

fun andThen :: "'a outcome \<Rightarrow> ('a \<Rightarrow> 'b outcome) \<Rightarrow> 'b outcome" where
  "andThen (Done x) f = f x"
| "andThen Deadlock f = Deadlock"
| "andThen Waits f = Waits"
| "andThen Undefined f = Undefined"

definition flag :: "32 word \<Rightarrow> 32 word \<Rightarrow> bool" where
  "flag w b \<longleftrightarrow> w AND b \<noteq> 0"

subsection \<open>Levels and formatting\<close>

definition log_level_name :: "int \<Rightarrow> string" where
  "log_level_name level =
     (if level < LOG_TRACE \<or> level > LOG_OFF then ''UNKNOWN''
      else [''TRACE'', ''DEBUG'', ''INFO'', ''WARN'', ''ERROR'', ''FATAL'', ''OFF''] ! nat level)"

definition log_level_from_name :: "string \<Rightarrow> int" where
  "log_level_from_name name =
     (if strcaseeq name ''trace'' then LOG_TRACE
      else if strcaseeq name ''debug'' then LOG_DEBUG
      else if strcaseeq name ''info'' then LOG_INFO
      else if strcaseeq name ''warn'' then LOG_WARN
      else if strcaseeq name ''error'' then LOG_ERROR
      else if strcaseeq name ''fatal'' then LOG_FATAL
      else if strcaseeq name ''off'' then LOG_OFF
      else LOG_INFO)"

text \<open>\<open>%0Nd\<close>: zero padding counts the sign.\<close>

definition zpad :: "nat \<Rightarrow> int \<Rightarrow> string" where
  "zpad n i = (if i < 0 then CHR ''-'' # pad_left (n - 1) (CHR ''0'') (dec_nat (nat (- i)))
               else pad_left n (CHR ''0'') (dec_nat (nat i)))"

definition format_timestamp :: "(int \<Rightarrow> tm) \<Rightarrow> nat \<Rightarrow> nat \<Rightarrow> string" where
  "format_timestamp lt len timestamp =
     (let sec = timestamp div 1000000; usec = timestamp mod 1000000; t = lt (int sec) in
      take (len - 1)
        (zpad 4 (tm_year t + 1900) @ ''-'' @ zpad 2 (tm_mon t + 1) @ ''-'' @ zpad 2 (tm_mday t) @ '' '' @
         zpad 2 (tm_hour t) @ '':'' @ zpad 2 (tm_min t) @ '':'' @ zpad 2 (tm_sec t) @ ''.'' @
         pad_left 6 (CHR ''0'') (dec_nat usec)))"

text \<open>The pieces \<open>format_entry\<close> prints before the message, by the format flags.\<close>

definition entry_prefix :: "(int \<Rightarrow> tm) \<Rightarrow> log_config \<Rightarrow> log_entry \<Rightarrow> string list" where
  "entry_prefix lt cfg e =
     (let f = lc_format cfg; timestamp = format_timestamp lt 64 (le_timestamp e) in
      (if flag f LOG_FORMAT_TIME then [''['' @ timestamp @ ''] ''] else []) @
      (if flag f LOG_FORMAT_LEVEL then [''['' @ pad_right 5 (log_level_name (le_level e)) @ ''] ''] else []) @
      (if flag f LOG_FORMAT_TID then [''['' @ dec_nat (le_tid e) @ ''] ''] else []) @
      (if flag f LOG_FORMAT_FILE then
         [''['' @ le_file e] @ (if flag f LOG_FORMAT_LINE then ['':'' @ dec_int (le_line e)] else []) @ [''] '']
       else if flag f LOG_FORMAT_LINE then [''[:'' @ dec_int (le_line e) @ ''] ''] else []) @
      (if flag f LOG_FORMAT_FUNC then [''['' @ le_func e @ ''] ''] else []))"

definition format_entry :: "(int \<Rightarrow> tm) \<Rightarrow> log_config \<Rightarrow> nat \<Rightarrow> log_entry \<Rightarrow> string option" where
  "format_entry lt cfg len e =
     map_option fst (snp_all len (entry_prefix lt cfg e @ [le_message e @ [LF]]) ([], 0))"

subsection \<open>Outputs and rotation\<close>

definition output_console :: "(int \<Rightarrow> tm) \<Rightarrow> log_entry \<Rightarrow> log_state \<Rightarrow> log_state outcome" where
  "output_console lt e s =
     (case format_entry lt (lg_config s) 4096 e of None \<Rightarrow> Undefined
      | Some buf \<Rightarrow> Done (s\<lparr>lg_console := lg_console s @ [(le_level e \<ge> LOG_ERROR, buf)]\<rparr>))"

definition log_path :: "(int \<Rightarrow> tm) \<Rightarrow> int \<Rightarrow> log_state \<Rightarrow> path" where
  "log_path lt now s =
     (let t = lt now in
      take 511 (log_dir (lg_config s) @ ''/'' @ log_prefix (lg_config s) @ ''_'' @
        zpad 4 (tm_year t + 1900) @ zpad 2 (tm_mon t + 1) @ zpad 2 (tm_mday t) @ ''_'' @
        zpad 6 (current_file_index s) @ ''.log''))"

definition open_log_file ::
  "(path \<Rightarrow> fmode \<Rightarrow> bool) \<Rightarrow> (int \<Rightarrow> tm) \<Rightarrow> int \<Rightarrow> log_state \<Rightarrow> int \<times> log_state" where
  "open_log_file can lt now s =
     (let s1 = s\<lparr>log_file := None, log_filepath := log_path lt now s\<rparr> in
      case fopen can (lg_files s1) (log_filepath s1) ModeA of
        None \<Rightarrow> (-1, s1)
      | Some fs \<Rightarrow> (0, s1\<lparr>log_file := Some (log_filepath s1), lg_files := fs, current_file_size := 0\<rparr>))"

definition log_rotate ::
  "(path \<Rightarrow> fmode \<Rightarrow> bool) \<Rightarrow> (int \<Rightarrow> tm) \<Rightarrow> int \<Rightarrow> log_state \<Rightarrow> log_state outcome" where
  "log_rotate can lt now s =
     (if log_file s = None then Done s
      else if mutex_held s then Deadlock
      else
        let s1 = s\<lparr>mutex_held := True, current_file_index := current_file_index s + 1\<rparr>;
            s2 = (if current_file_index s1 \<ge> max_file_count (lg_config s1)
                  then s1\<lparr>current_file_index := 0\<rparr> else s1);
            s3 = snd (open_log_file can lt now s2)
        in Done (s3\<lparr>mutex_held := False\<rparr>))"

definition output_file ::
  "(path \<Rightarrow> fmode \<Rightarrow> bool) \<Rightarrow> (int \<Rightarrow> tm) \<Rightarrow> int \<Rightarrow> log_entry \<Rightarrow> log_state \<Rightarrow> log_state outcome" where
  "output_file can lt now e s =
     (if log_file s = None then Done s
      else case format_entry lt (lg_config s) 4096 e of None \<Rightarrow> Undefined
      | Some buf \<Rightarrow>
          let len = length (cstr buf) in
          andThen
            (if (rotate_policy (lg_config s) = LOG_ROTATE_SIZE \<or> rotate_policy (lg_config s) = LOG_ROTATE_BOTH)
                \<and> current_file_size s + len > max_file_size (lg_config s)
             then log_rotate can lt now s else Done s)
            (\<lambda>s1. case log_file s1 of None \<Rightarrow> Undefined
               | Some p \<Rightarrow> Done (s1\<lparr>lg_files := fappend p (cstr buf) (lg_files s1),
                     current_file_size := current_file_size s1 + len, total_bytes := total_bytes s1 + len\<rparr>)))"

definition output_callback :: "log_entry \<Rightarrow> log_state \<Rightarrow> log_state" where
  "output_callback e s =
     (if has_callback (lg_config s) then s\<lparr>lg_callbacks := lg_callbacks s @ [e]\<rparr> else s)"

text \<open>The block both the worker and the synchronous writer run for one entry.\<close>

definition deliver ::
  "(path \<Rightarrow> fmode \<Rightarrow> bool) \<Rightarrow> (int \<Rightarrow> tm) \<Rightarrow> int \<Rightarrow> log_entry \<Rightarrow> log_state \<Rightarrow> log_state outcome" where
  "deliver can lt now e s =
     (let tg = lc_targets (lg_config s) in
      andThen (if flag tg LOG_TARGET_CONSOLE then output_console lt e s else Done s) (\<lambda>s1.
      andThen (if flag tg LOG_TARGET_FILE then output_file can lt now e s1 else Done s1) (\<lambda>s2.
      let s3 = (if flag tg LOG_TARGET_CALLBACK then output_callback e s2 else s2)
      in Done (s3\<lparr>total_entries := total_entries s3 + 1\<rparr>))))"

subsection \<open>The ring buffer and the worker\<close>

definition ring_buffer_init :: "bool \<Rightarrow> nat \<Rightarrow> ring_buffer \<Rightarrow> int \<times> ring_buffer" where
  "ring_buffer_init ok cap r =
     (if \<not> ok then (-1, r\<lparr>rb_entries := []\<rparr>)
      else (0, \<lparr>rb_entries = replicate cap \<lparr>le_level = 0, le_file = [], le_line = 0, le_func = [],
                  le_timestamp = 0, le_tid = 0, le_message = []\<rparr>,
                rb_capacity = cap, rb_head = 0, rb_tail = 0, rb_count = 0\<rparr>))"

definition ring_buffer_destroy :: "ring_buffer \<Rightarrow> ring_buffer" where
  "ring_buffer_destroy r = r\<lparr>rb_entries := []\<rparr>"

text \<open>A push into a full ring waits: \<^const>\<open>None\<close>.\<close>

definition ring_buffer_push :: "ring_buffer \<Rightarrow> log_entry \<Rightarrow> ring_buffer option" where
  "ring_buffer_push r e =
     (if rb_count r \<ge> rb_capacity r then None
      else Some (r\<lparr>rb_entries := (rb_entries r)[rb_tail r := e],
                   rb_tail := (rb_tail r + 1) mod rb_capacity r, rb_count := rb_count r + 1\<rparr>))"

datatype pop_result = PopWaits | PopEmpty | Popped log_entry ring_buffer

definition ring_buffer_pop :: "bool \<Rightarrow> ring_buffer \<Rightarrow> pop_result" where
  "ring_buffer_pop running r =
     (if rb_count r = 0 \<and> running then PopWaits
      else if rb_count r = 0 then PopEmpty
      else Popped (rb_entries r ! rb_head r)
             (r\<lparr>rb_head := (rb_head r + 1) mod rb_capacity r, rb_count := rb_count r - 1\<rparr>))"

text \<open>
  One turn of the worker's main loop, and its second loop, which runs after \<open>running\<close> was
  cleared; the fuel of the latter is the number of entries in the ring.
\<close>

definition async_step ::
  "(path \<Rightarrow> fmode \<Rightarrow> bool) \<Rightarrow> (int \<Rightarrow> tm) \<Rightarrow> int \<Rightarrow> log_state \<Rightarrow> log_state outcome" where
  "async_step can lt now s =
     (case ring_buffer_pop (lg_running s) (lg_ring s) of
        PopWaits \<Rightarrow> Waits | PopEmpty \<Rightarrow> Done s
      | Popped e r \<Rightarrow> deliver can lt now e (s\<lparr>lg_ring := r\<rparr>))"

fun async_drain ::
  "(path \<Rightarrow> fmode \<Rightarrow> bool) \<Rightarrow> (int \<Rightarrow> tm) \<Rightarrow> int \<Rightarrow> nat \<Rightarrow> log_state \<Rightarrow> log_state outcome" where
  "async_drain can lt now 0 s = Done s"
| "async_drain can lt now (Suc n) s =
     (case ring_buffer_pop False (lg_ring s) of
        Popped e r \<Rightarrow> andThen (deliver can lt now e (s\<lparr>lg_ring := r\<rparr>)) (async_drain can lt now n)
      | _ \<Rightarrow> Done s)"

subsection \<open>The public interface\<close>

text \<open>
  \<open>log_init\<close>: \<open>dir_ok\<close> says that the directory exists or could be made, \<open>ring_ok\<close> that the ring
  was allocated, \<open>thread_ok\<close> that the worker was started.
\<close>

definition log_init ::
  "(path \<Rightarrow> fmode \<Rightarrow> bool) \<Rightarrow> (int \<Rightarrow> tm) \<Rightarrow> int \<Rightarrow> bool \<Rightarrow> bool \<Rightarrow> bool \<Rightarrow> log_config option \<Rightarrow> log_state \<Rightarrow>
   int \<times> log_state" where
  "log_init can lt now dir_ok ring_ok thread_ok cfg s =
     (let s1 = (case cfg of None \<Rightarrow> s | Some c \<Rightarrow> s\<lparr>lg_config := c\<rparr>);
          opened = (if flag (lc_targets (lg_config s1)) LOG_TARGET_FILE
                    then (if dir_ok then open_log_file can lt now s1 else (-1, s1)) else (0, s1))
      in if fst opened \<noteq> 0 then (-1, snd opened)
         else let s2 = (snd opened)\<lparr>mutex_held := False\<rparr> in
           if \<not> async_mode (lg_config s2) then (0, s2)
           else case ring_buffer_init ring_ok (ring_buffer_size (lg_config s2)) (lg_ring s2) of
             (r, ring) \<Rightarrow>
               if r \<noteq> 0 then (-1, s2\<lparr>lg_ring := ring\<rparr>)
               else if thread_ok then (0, s2\<lparr>lg_ring := ring, lg_running := True\<rparr>)
               else (-1, s2\<lparr>lg_ring := ring_buffer_destroy ring, lg_running := True\<rparr>))"

definition log_close ::
  "(path \<Rightarrow> fmode \<Rightarrow> bool) \<Rightarrow> (int \<Rightarrow> tm) \<Rightarrow> int \<Rightarrow> log_state \<Rightarrow> log_state outcome" where
  "log_close can lt now s =
     andThen
       (if async_mode (lg_config s) \<and> lg_running s
        then andThen (async_drain can lt now (rb_count (lg_ring s)) (s\<lparr>lg_running := False\<rparr>))
               (\<lambda>s1. Done (s1\<lparr>lg_ring := ring_buffer_destroy (lg_ring s1)\<rparr>))
        else Done s)
       (\<lambda>s1. Done (s1\<lparr>log_file := None\<rparr>))"

text \<open>
  The directory: it exists, or \<open>mkdir\<close> makes it; \<open>dir_ok\<close> of \<open>log_init\<close> is a result of 0. Flushing hands
  buffered bytes to the kernel; the files of the model hold what was written, buffered or not.
\<close>

definition create_log_dir :: "bool \<Rightarrow> int \<Rightarrow> int" where
  "create_log_dir exists mkdir_result = (if exists then 0 else mkdir_result)"

definition log_flush :: "log_state \<Rightarrow> log_state" where
  "log_flush s = s"

definition log_set_level :: "int \<Rightarrow> log_state \<Rightarrow> log_state" where
  "log_set_level level s = s\<lparr>lg_config := (lg_config s)\<lparr>lc_level := level\<rparr>\<rparr>"

definition log_write_va ::
  "(path \<Rightarrow> fmode \<Rightarrow> bool) \<Rightarrow> (int \<Rightarrow> tm) \<Rightarrow> nat \<Rightarrow> nat \<Rightarrow> int \<Rightarrow> string \<Rightarrow> int \<Rightarrow> string \<Rightarrow> string \<Rightarrow>
   log_state \<Rightarrow> log_state outcome" where
  "log_write_va can lt now_us tid level srcfile line func text s =
     (if level < lc_level (lg_config s) then Done s
      else
        let e = \<lparr>le_level = level, le_file = srcfile, le_line = line, le_func = func,
                 le_timestamp = now_us, le_tid = tid, le_message = take 4095 text\<rparr>
        in if async_mode (lg_config s)
           then (case ring_buffer_push (lg_ring s) e of None \<Rightarrow> Waits | Some r \<Rightarrow> Done (s\<lparr>lg_ring := r\<rparr>))
           else if mutex_held s then Deadlock
           else andThen (deliver can lt (int (now_us div 1000000)) e (s\<lparr>mutex_held := True\<rparr>))
                  (\<lambda>s1. Done (s1\<lparr>mutex_held := False\<rparr>)))"

definition log_write ::
  "(path \<Rightarrow> fmode \<Rightarrow> bool) \<Rightarrow> (int \<Rightarrow> tm) \<Rightarrow> nat \<Rightarrow> nat \<Rightarrow> int \<Rightarrow> string \<Rightarrow> int \<Rightarrow> string \<Rightarrow> string \<Rightarrow>
   log_state \<Rightarrow> log_state outcome" where
  "log_write = log_write_va"

definition log_get_stats :: "log_state \<Rightarrow> nat \<times> nat" where
  "log_get_stats s = (total_bytes s, total_entries s)"

subsection \<open>Hex dump\<close>

definition ascii_or_dot :: "char \<Rightarrow> char" where
  "ascii_or_dot c = (if 32 \<le> (of_char c :: nat) \<and> (of_char c :: nat) < 127 then c else CHR ''.'')"

text \<open>The pieces of one line, for the bytes \<open>p[i] ... p[i+15]\<close> that exist.\<close>

definition dump_pieces :: "bytes \<Rightarrow> nat \<Rightarrow> string list" where
  "dump_pieces p i =
     [''  '' @ pad_left 4 (CHR ''0'') (hex_nat i) @ '': ''] @
     map (\<lambda>j. if i + j < length p then hex2 (p ! (i + j)) @ '' '' else ''   '') [0..<16] @
     ['' |''] @ map (\<lambda>j. [ascii_or_dot (p ! (i + j))]) (filter (\<lambda>j. i + j < length p) [0..<16]) @ [''|'']"

definition dump_line :: "bytes \<Rightarrow> nat \<Rightarrow> string option" where
  "dump_line p i = map_option fst (snp_all 128 (dump_pieces p i) ([], 0))"

definition log_hexdump ::
  "(path \<Rightarrow> fmode \<Rightarrow> bool) \<Rightarrow> (int \<Rightarrow> tm) \<Rightarrow> nat \<Rightarrow> nat \<Rightarrow> int \<Rightarrow> bytes \<Rightarrow> string \<Rightarrow> log_state \<Rightarrow> log_state outcome" where
  "log_hexdump can lt now_us tid level p label s =
     (if level < lc_level (lg_config s) then Done s
      else
        let w = (\<lambda>line text. log_write can lt now_us tid level ''src/log.c'' line ''log_hexdump'' text)
        in case snp 128 (label @ '' ['' @ dec_nat (length p) @ '' bytes]:'' @ [LF]) ([], 0) of
             None \<Rightarrow> Undefined
           | Some (l, _) \<Rightarrow>
               andThen (w 523 l s) (\<lambda>s1.
                 foldl (\<lambda>r i. andThen r (\<lambda>s2. case dump_line p i of None \<Rightarrow> Undefined | Some t \<Rightarrow> w 549 t s2))
                   (Done s1) (map (\<lambda>k. 16 * k) [0..<(length p + 15) div 16])))"

subsection \<open>The ring is a bounded queue\<close>

definition rb_inv :: "ring_buffer \<Rightarrow> bool" where
  "rb_inv r \<longleftrightarrow> ring_wf (rb_entries r) (rb_capacity r) (rb_head r) (rb_tail r) (rb_count r)"

definition rb_contents :: "ring_buffer \<Rightarrow> log_entry list" where
  "rb_contents r = ring_list (rb_entries r) (rb_capacity r) (rb_head r) (rb_count r)"

definition rb_take :: "ring_buffer \<Rightarrow> (log_entry \<times> ring_buffer) option" where
  "rb_take r = (case ring_buffer_pop False r of Popped e r' \<Rightarrow> Some (e, r') | _ \<Rightarrow> None)"

lemma rb_contents_length [simp]: "length (rb_contents r) = rb_count r"
  by (simp add: rb_contents_def)

lemma rb_push_ok:
  assumes "rb_inv r" and "ring_buffer_push r e = Some r'"
  shows "rb_inv r'" and "rb_contents r' = rb_contents r @ [e]" and "rb_capacity r' = rb_capacity r"
proof -
  have lt: "rb_count r < rb_capacity r" and r': "r' = r\<lparr>rb_entries := (rb_entries r)[rb_tail r := e],
      rb_tail := (rb_tail r + 1) mod rb_capacity r, rb_count := rb_count r + 1\<rparr>"
    using assms(2) by (auto simp: ring_buffer_push_def split: if_splits)
  note p = ring_push [OF assms(1) [unfolded rb_inv_def] lt, of e]
  show "rb_inv r'" and "rb_contents r' = rb_contents r @ [e]" and "rb_capacity r' = rb_capacity r"
    using p by (simp_all add: rb_inv_def rb_contents_def r')
qed

lemma rb_pop_ok:
  assumes "rb_inv r" and "ring_buffer_pop b r = Popped e r'"
  shows "rb_inv r'" and "rb_contents r = e # rb_contents r'" and "rb_capacity r' = rb_capacity r"
proof -
  have pos: "0 < rb_count r" and e: "e = rb_entries r ! rb_head r"
    and r': "r' = r\<lparr>rb_head := (rb_head r + 1) mod rb_capacity r, rb_count := rb_count r - 1\<rparr>"
    using assms(2) by (auto simp: ring_buffer_pop_def split: if_splits)
  note p = ring_pop [OF assms(1) [unfolded rb_inv_def] pos]
  show "rb_inv r'" and "rb_contents r = e # rb_contents r'" and "rb_capacity r' = rb_capacity r"
    using p by (simp_all add: rb_inv_def rb_contents_def r' e)
qed

interpretation lr: bounded_queue ring_buffer_push rb_take rb_contents rb_capacity rb_inv
proof
  fix q q' :: ring_buffer and x
  assume inv: "rb_inv q"
  have le: "rb_count q \<le> rb_capacity q" using inv by (simp add: rb_inv_def ring_wf_def)
  show "(ring_buffer_push q x = None) = (rb_capacity q \<le> length (rb_contents q))"
    by (simp add: ring_buffer_push_def)
  show "ring_buffer_push q x = Some q' \<Longrightarrow> rb_inv q' \<and> rb_contents q' = rb_contents q @ [x] \<and> rb_capacity q' = rb_capacity q"
    using rb_push_ok [OF inv] by blast
  have "rb_contents q = [] \<longleftrightarrow> rb_count q = 0" by (metis length_0_conv rb_contents_length)
  then show "(rb_take q = None) = (rb_contents q = [])"
    by (simp add: rb_take_def ring_buffer_pop_def)
  show "rb_take q = Some (x, q') \<Longrightarrow> rb_inv q' \<and> rb_contents q = x # rb_contents q' \<and> rb_capacity q' = rb_capacity q"
    using rb_pop_ok [OF inv, of False x q'] by (auto simp: rb_take_def split: pop_result.splits)
  show "length (rb_contents q) \<le> rb_capacity q" using le by simp
qed

lemma rb_init_ok: "0 < cap \<Longrightarrow> ring_buffer_init True cap r = (c, r') \<Longrightarrow>
  c = 0 \<and> rb_inv r' \<and> rb_contents r' = [] \<and> rb_capacity r' = cap"
  by (auto simp: ring_buffer_init_def rb_inv_def ring_wf_def rb_contents_def ring_list_def)

subsection \<open>Delivery to a callback\<close>

abbreviation callback_only :: "log_state \<Rightarrow> bool" where
  "callback_only s \<equiv> lc_targets (lg_config s) = LOG_TARGET_CALLBACK \<and> has_callback (lg_config s)"

lemma deliver_callback:
  "callback_only s \<Longrightarrow> deliver can lt now e s =
     Done (s\<lparr>lg_callbacks := lg_callbacks s @ [e], total_entries := total_entries s + 1\<rparr>)"
  by (simp add: deliver_def flag_def output_callback_def Let_def)

lemma async_drain_callback:
  "rb_inv (lg_ring s) \<Longrightarrow> callback_only s \<Longrightarrow> rb_count (lg_ring s) \<le> n \<Longrightarrow>
   \<exists>r. async_drain can lt now n s = Done (s\<lparr>lg_ring := r,
      lg_callbacks := lg_callbacks s @ rb_contents (lg_ring s), total_entries := total_entries s + rb_count (lg_ring s)\<rparr>)"
proof (induction n arbitrary: s)
  case 0
  then have "rb_contents (lg_ring s) = []" by (metis le_zero_eq length_0_conv rb_contents_length)
  then show ?case using 0 by (intro exI [of _ "lg_ring s"]) simp
next
  case (Suc n)
  show ?case
  proof (cases "ring_buffer_pop False (lg_ring s)")
    case PopWaits
    then show ?thesis by (simp add: ring_buffer_pop_def split: if_splits)
  next
    case PopEmpty
    then have zero: "rb_count (lg_ring s) = 0" by (simp add: ring_buffer_pop_def split: if_splits)
    then have "rb_contents (lg_ring s) = []" by (metis length_0_conv rb_contents_length)
    with zero show ?thesis using PopEmpty by (intro exI [of _ "lg_ring s"]) simp
  next
    case (Popped e r)
    note p = rb_pop_ok [OF Suc.prems(1) Popped]
    let ?s = "s\<lparr>lg_ring := r, lg_callbacks := lg_callbacks s @ [e], total_entries := total_entries s + 1\<rparr>"
    have cnt: "rb_count (lg_ring s) = Suc (rb_count r)" using p(2) by (metis length_Cons rb_contents_length)
    then have "rb_count (lg_ring ?s) \<le> n" using Suc.prems(3) by simp
    from Suc.IH [of ?s, OF _ _ this] p(1) Suc.prems(2) obtain r' where
      "async_drain can lt now n ?s = Done (?s\<lparr>lg_ring := r', lg_callbacks := lg_callbacks ?s @ rb_contents r,
          total_entries := total_entries ?s + rb_count r\<rparr>)" by auto
    then show ?thesis using Popped Suc.prems(2) p(2) cnt by (auto simp: deliver_callback)
  qed
qed

text \<open>Writing a sequence of records in asynchronous mode, nobody popping in between.\<close>

definition write_all ::
  "(path \<Rightarrow> fmode \<Rightarrow> bool) \<Rightarrow> (int \<Rightarrow> tm) \<Rightarrow> (nat \<times> nat \<times> int \<times> string) list \<Rightarrow> log_state \<Rightarrow> log_state outcome" where
  "write_all can lt ws s = foldl (\<lambda>r (us, tid, level, msg). andThen r
     (log_write can lt us tid level ''f.c'' 1 ''fn'' msg)) (Done s) ws"

lemma write_all_async:
  assumes "rb_inv (lg_ring s)" "async_mode (lg_config s)"
    "\<forall>(us, tid, level, msg) \<in> set ws. lc_level (lg_config s) \<le> level"
    "rb_count (lg_ring s) + length ws \<le> rb_capacity (lg_ring s)"
  shows "\<exists>r. write_all can lt ws s = Done (s\<lparr>lg_ring := r\<rparr>) \<and> rb_inv r \<and> rb_capacity r = rb_capacity (lg_ring s) \<and>
    map le_message (rb_contents r) =
      map le_message (rb_contents (lg_ring s)) @ map (\<lambda>(us, tid, level, msg). take 4095 msg) ws"
  using assms
proof (induction ws rule: rev_induct)
  case Nil
  then show ?case by (intro exI [of _ "lg_ring s"]) (simp add: write_all_def)
next
  case (snoc w ws)
  obtain us tid level msg where w: "w = (us, tid, level, msg)" by (cases w)
  from snoc obtain r where r: "write_all can lt ws s = Done (s\<lparr>lg_ring := r\<rparr>)" "rb_inv r"
    "rb_capacity r = rb_capacity (lg_ring s)" "map le_message (rb_contents r) =
      map le_message (rb_contents (lg_ring s)) @ map (\<lambda>(us, tid, level, msg). take 4095 msg) ws" by auto
  have "rb_count r = rb_count (lg_ring s) + length ws"
    using arg_cong [OF r(4), of length] by simp
  then have room: "rb_count r < rb_capacity r" using snoc.prems(4) r(3) by simp
  let ?e = "\<lparr>le_level = level, le_file = ''f.c'', le_line = 1, le_func = ''fn'', le_timestamp = us,
             le_tid = tid, le_message = take 4095 msg\<rparr>"
  from room obtain r' where p: "ring_buffer_push r ?e = Some r'" by (auto simp: ring_buffer_push_def)
  have "write_all can lt (ws @ [w]) s = Done (s\<lparr>lg_ring := r'\<rparr>)"
    using r(1) p snoc.prems(2,3) by (auto simp: write_all_def w log_write_def log_write_va_def Let_def)
  then show ?case using rb_push_ok [OF r(2) p] r(3,4) w by auto
qed

subsection \<open>Formatting stays inside its buffers\<close>

lemma dump_pieces_length:
  assumes "i < 2 ^ 64"
  shows "length (concat (dump_pieces p i)) \<le> 87"
proof -
  have "i < 16 ^ 16" using assms by simp
  then have h: "length (hex_nat i) \<le> 16" by (rule hex_nat_length) simp
  have hex: "length (concat (map (\<lambda>j. if i + j < length p then hex2 (p ! (i + j)) @ '' '' else ''   '') js)) = 3 * length js" for js
    by (induction js) (auto simp: hex2_def)
  have asc: "length (concat (map (\<lambda>j. [ascii_or_dot (p ! (i + j))]) js)) = length js" for js
    by (induction js) auto
  have f: "length (filter (\<lambda>j. i + j < length p) [0..<16]) \<le> 16"
    using length_filter_le [of "\<lambda>j. i + j < length p" "[0..<16]"] by simp
  have "length (concat (dump_pieces p i)) =
      4 + max 4 (length (hex_nat i)) + 48 + 2 + length (filter (\<lambda>j. i + j < length p) [0..<16]) + 1"
    unfolding dump_pieces_def concat_append length_append hex asc by simp
  then show ?thesis using h f by simp
qed

lemma zpad_length: "- (10 ^ 10) < i \<Longrightarrow> i < 10 ^ 10 \<Longrightarrow> n \<le> 10 \<Longrightarrow> length (zpad n i) \<le> 11"
  using dec_nat_length [of "nat (- i)" 10] dec_nat_length [of "nat i" 10]
  by (auto simp: zpad_def nat_less_iff)

lemma log_level_name_length: "length (log_level_name l) \<le> 7"
proof (cases "l < LOG_TRACE \<or> l > LOG_OFF")
  case True
  then show ?thesis by (auto simp: log_level_name_def)
next
  case False
  then have "nat l \<in> {0,1,2,3,4,5,6}" by auto
  then show ?thesis using False by (auto simp: log_level_name_def)
qed

lemma dec_int_length: "- (10 ^ 10) < i \<Longrightarrow> i < 10 ^ 10 \<Longrightarrow> length (dec_int i) \<le> 11"
  using dec_nat_length [of "nat (- i)" 10] dec_nat_length [of "nat i" 10]
  by (auto simp: dec_int_def nat_less_iff)

lemma format_timestamp_length: "length (format_timestamp lt 64 t) \<le> 63"
  unfolding format_timestamp_def Let_def length_take by (rule min.coboundedI2) simp

lemma length_concat_if: "length (concat (if b then xs else [])) = (if b then length (concat xs) else 0)"
  by simp

lemma entry_prefix_length:
  assumes "le_tid e < 2 ^ 32" and "\<bar>le_line e\<bar> < 2 ^ 31" and "length (le_file e) + length (le_func e) \<le> 3900"
  shows "length (concat (entry_prefix lt cfg e)) \<le> 4040"
proof -
  have tid: "length (dec_nat (le_tid e)) \<le> 10" using assms(1) by (intro dec_nat_length) simp_all
  have line: "length (dec_int (le_line e)) \<le> 11" using assms(2) by (intro dec_int_length) auto
  note lens = tid line format_timestamp_length [of lt "le_timestamp e"] log_level_name_length [of "le_level e"] assms(3)
  show ?thesis
    unfolding entry_prefix_def Let_def concat_append length_append length_concat_if
    using lens by (auto simp: max_def)
qed

subsection \<open>Rotation\<close>

lemma log_rotate_done:
  assumes "log_file s \<noteq> None" and "\<not> mutex_held s" and "0 < max_file_count (lg_config s)"
    and "0 \<le> current_file_index s"
  obtains s' where "log_rotate can lt now s = Done s'" and "\<not> mutex_held s'"
    and "0 \<le> current_file_index s'" "current_file_index s' < max_file_count (lg_config s)"
    and "lg_config s' = lg_config s" and "total_bytes s' = total_bytes s"
    and "log_file s' = None \<or> current_file_size s' = 0"
    and "log_file s' = None \<longleftrightarrow> \<not> can (log_filepath s') ModeA"
proof -
  let ?s1 = "s\<lparr>mutex_held := True, current_file_index := current_file_index s + 1\<rparr>"
  let ?s2 = "if current_file_index ?s1 \<ge> max_file_count (lg_config ?s1) then ?s1\<lparr>current_file_index := 0\<rparr> else ?s1"
  let ?s3 = "snd (open_log_file can lt now ?s2)"
  have "log_rotate can lt now s = Done (?s3\<lparr>mutex_held := False\<rparr>)"
    using assms by (auto simp: log_rotate_def Let_def)
  moreover have "0 \<le> current_file_index ?s3" "current_file_index ?s3 < max_file_count (lg_config s)"
    "lg_config ?s3 = lg_config s" "total_bytes ?s3 = total_bytes s" "log_file ?s3 = None \<or> current_file_size ?s3 = 0"
    "log_file ?s3 = None \<longleftrightarrow> \<not> can (log_filepath ?s3) ModeA"
    using assms(3,4) by (auto simp: open_log_file_def Let_def fopen_def split: option.splits)
  ultimately show thesis by (intro that [of "?s3\<lparr>mutex_held := False\<rparr>"]) simp_all
qed

abbreviation by_size :: "log_state \<Rightarrow> bool" where
  "by_size s \<equiv> rotate_policy (lg_config s) = LOG_ROTATE_SIZE \<or> rotate_policy (lg_config s) = LOG_ROTATE_BOTH"

subsection \<open>Properties\<close>


definition utc0 :: "int \<Rightarrow> tm" where
  "utc0 t = \<lparr>tm_year = 70, tm_mon = 0, tm_mday = 1, tm_hour = 0, tm_min = 0, tm_sec = t mod 60\<rparr>"

definition two_records :: "(nat \<times> nat \<times> int \<times> string) list" where
  "two_records = [(5, 1, LOG_INFO, ''a''), (6, 1, LOG_WARN, ''b'')]"


text \<open>
  In synchronous mode, the default, a record that makes the log file exceed its size limit
  never gets written: \<open>log_write\<close> holds \<open>g_log.mutex\<close> and \<open>log_rotate\<close> locks it again.
\<close>

lemma sync_rotation_deadlocks:
  assumes "\<not> async_mode (lg_config s)" and "\<not> mutex_held s" and "lc_level (lg_config s) \<le> level"
    and "lc_targets (lg_config s) = LOG_TARGET_FILE" and "log_file s \<noteq> None"
    and "rotate_policy (lg_config s) = LOG_ROTATE_SIZE \<or> rotate_policy (lg_config s) = LOG_ROTATE_BOTH"
    and "format_entry lt (lg_config s) 4096 \<lparr>le_level = level, le_file = f, le_line = line, le_func = fn,
           le_timestamp = us, le_tid = tid, le_message = take 4095 msg\<rparr> = Some buf"
    and "max_file_size (lg_config s) < current_file_size s + length (cstr buf)"
  shows "log_write can lt us tid level f line fn msg s = Deadlock"
  using assms by (auto simp: log_write_def log_write_va_def deliver_def output_file_def log_rotate_def flag_def Let_def)

definition full_log :: log_state where
  "full_log = \<lparr>lg_config = LOG_DEFAULT_CONFIG\<lparr>lc_targets := LOG_TARGET_FILE, lc_format := 0, max_file_size := 10\<rparr>,
     log_file = Some ''l'', log_filepath = ''l'', current_file_index = 0, current_file_size = 9,
     mutex_held = False, lg_running = False, total_bytes = 9, total_entries = 1,
     lg_ring = \<lparr>rb_entries = [], rb_capacity = 0, rb_head = 0, rb_tail = 0, rb_count = 0\<rparr>,
     lg_console = [], lg_callbacks = [], lg_files = [''l'' \<mapsto> ''12345678'' @ [LF]]\<rparr>"

lemma sync_rotation_deadlocks_witness:
  "log_write (\<lambda>_ _. True) utc0 0 1 LOG_INFO ''f.c'' 1 ''fn'' ''hello'' full_log = Deadlock"
  by (rule sync_rotation_deadlocks [where buf = "''hello'' @ [LF]"])
    (simp_all add: full_log_def LOG_DEFAULT_CONFIG_def format_entry_def entry_prefix_def flag_def snp_def)

text \<open>
  In the worker thread, rotation keeps its promises: with size-based rotation and files that can
  be opened, writing an entry leaves a file index within \<open>max_file_count\<close>, counts the bytes,
  releases the mutex, and the size counter exceeds the limit only if a single entry does.
\<close>

lemma output_file_rotates:
  assumes "\<forall>p m. can p m" and "\<not> mutex_held s" and "log_file s \<noteq> None"
    and "rotate_policy (lg_config s) = LOG_ROTATE_SIZE \<or> rotate_policy (lg_config s) = LOG_ROTATE_BOTH"
    and "0 \<le> current_file_index s" and "current_file_index s < max_file_count (lg_config s)"
    and "format_entry lt (lg_config s) 4096 e = Some buf"
  shows "\<exists>s'. output_file can lt now e s = Done s' \<and> \<not> mutex_held s' \<and>
    0 \<le> current_file_index s' \<and> current_file_index s' < max_file_count (lg_config s) \<and>
    total_bytes s' = total_bytes s + length (cstr buf) \<and>
    current_file_size s' \<le> max (max_file_size (lg_config s)) (length (cstr buf))"
proof (cases "current_file_size s + length (cstr buf) > max_file_size (lg_config s)")
  case False
  obtain p where "log_file s = Some p" using assms(3) by blast
  then show ?thesis using assms False by (auto simp: output_file_def Let_def)
next
  case True
  have "0 < max_file_count (lg_config s)" using assms(5,6) by simp
  from log_rotate_done [OF assms(3,2) this assms(5), of can lt now] obtain s1 where
    r: "log_rotate can lt now s = Done s1" "\<not> mutex_held s1" "0 \<le> current_file_index s1"
       "current_file_index s1 < max_file_count (lg_config s)" "total_bytes s1 = total_bytes s"
       "log_file s1 = None \<or> current_file_size s1 = 0" "log_file s1 = None \<longleftrightarrow> \<not> can (log_filepath s1) ModeA"
    by metis
  then obtain p where "log_file s1 = Some p" using assms(1) by auto
  then show ?thesis using r assms True by (auto simp: output_file_def Let_def)
qed

lemma output_file_rotates_witness:
  "\<exists>s'. output_file (\<lambda>_ _. True) utc0 0 \<lparr>le_level = LOG_INFO, le_file = ''f.c'', le_line = 1, le_func = ''fn'',
       le_timestamp = 0, le_tid = 1, le_message = ''hello''\<rparr> full_log = Done s' \<and>
     current_file_index s' < 10 \<and> current_file_size s' \<le> 10"
  using output_file_rotates [where can = "\<lambda>_ _. True" and lt = utc0 and now = 0 and s = full_log and buf = "''hello'' @ [LF]"
      and e = "\<lparr>le_level = LOG_INFO, le_file = ''f.c'', le_line = 1, le_func = ''fn'',
       le_timestamp = 0, le_tid = 1, le_message = ''hello''\<rparr>"]
  by (auto simp: full_log_def LOG_DEFAULT_CONFIG_def format_entry_def entry_prefix_def flag_def snp_def)

text \<open>
  Rotation does not bound the files: the new file is opened for appending and the size counter
  starts at zero, so when the index comes round to an existing file (or the day's first file exists),
  its old content stays and is not counted.
\<close>

lemma rotation_keeps_old_bytes:
  assumes "log_file s \<noteq> None" and "\<not> mutex_held s" and "\<forall>p m. can p m"
    and "idx = (if current_file_index s + 1 \<ge> max_file_count (lg_config s) then 0 else current_file_index s + 1)"
    and "p = log_path lt now (s\<lparr>current_file_index := idx\<rparr>)" and "lg_files s p = Some old"
  shows "\<exists>s'. log_rotate can lt now s = Done s' \<and> log_file s' = Some p \<and>
    lg_files s' p = Some old \<and> current_file_size s' = 0"
proof -
  have "log_path lt now (s\<lparr>mutex_held := b, current_file_index := i\<rparr>) = log_path lt now (s\<lparr>current_file_index := i\<rparr>)" for b i
    by (simp add: log_path_def)
  then show ?thesis using assms
    by (auto simp: log_rotate_def open_log_file_def fopen_def Let_def)
qed

lemma rotation_keeps_old_bytes_witness:
  "\<exists>s'. log_rotate (\<lambda>_ _. True) utc0 0
      (full_log\<lparr>current_file_index := 9, lg_files := [log_path utc0 0 full_log \<mapsto> ''old'']\<rparr>) = Done s' \<and>
    current_file_size s' = 0"
proof -
  have "log_path utc0 0 (full_log\<lparr>current_file_index := 9, lg_files := f, current_file_index := 0\<rparr>) = log_path utc0 0 full_log" for f
    by (simp add: log_path_def full_log_def)
  then show ?thesis
    using rotation_keeps_old_bytes [of "full_log\<lparr>current_file_index := 9, lg_files := [log_path utc0 0 full_log \<mapsto> ''old'']\<rparr>"
        "\<lambda>_ _. True" 0 "log_path utc0 0 full_log" utc0 0 "''old''"]
    by (auto simp: full_log_def LOG_DEFAULT_CONFIG_def log_path_def)
qed

text \<open>
  \<open>format_entry\<close> with the 4096-byte buffers of its callers never writes outside them, for any
  thread id and line number and any file and function names of at most 3900 bytes together; the
  result always fits, and it is the full record whenever that is shorter than the buffer.
\<close>

lemma format_entry_in_bounds:
  assumes "le_tid e < 2 ^ 32" and "\<bar>le_line e\<bar> < 2 ^ 31" and "length (le_file e) + length (le_func e) \<le> 3900"
  shows "\<exists>buf. format_entry lt cfg 4096 e = Some buf \<and> length buf < 4096 \<and>
    (length (concat (entry_prefix lt cfg e)) + length (le_message e) + 1 < 4096 \<longrightarrow>
      buf = concat (entry_prefix lt cfg e) @ le_message e @ [LF])"
proof -
  let ?pre = "entry_prefix lt cfg e"
  have pre: "length (concat ?pre) \<le> 4040" by (rule entry_prefix_length [OF assms])
  then have fit: "snp_all 4096 ?pre ([], 0) = Some (concat ?pre, length (concat ?pre))"
    by (subst snp_all_fits) auto
  then have f: "format_entry lt cfg 4096 e =
      Some (concat ?pre @ take (4096 - length (concat ?pre) - 1) (le_message e @ [LF]))"
    using pre by (simp add: format_entry_def snp_all_append snp_def)
  show ?thesis unfolding f using pre by auto
qed

lemma format_entry_in_bounds_witness:
  "\<exists>buf. format_entry utc0 LOG_DEFAULT_CONFIG 4096 \<lparr>le_level = LOG_INFO, le_file = ''f.c'', le_line = 1, le_func = ''fn'',
       le_timestamp = 0, le_tid = 1, le_message = ''hello''\<rparr> = Some buf \<and> length buf < 4096"
  using format_entry_in_bounds [of "\<lparr>le_level = LOG_INFO, le_file = ''f.c'', le_line = 1, le_func = ''fn'',
       le_timestamp = 0, le_tid = 1, le_message = ''hello''\<rparr>" utc0 LOG_DEFAULT_CONFIG] by auto

text \<open>
  Every line of a hex dump fits its 128-byte buffer, at any offset a \<open>size_t\<close> can hold, and is
  the offset, the sixteen hex columns and the printable characters, nothing cut.
\<close>

lemma dump_line_exact:
  assumes "i < 2 ^ 64"
  shows "dump_line p i = Some (concat (dump_pieces p i)) \<and> length (concat (dump_pieces p i)) < 128"
  using dump_pieces_length [OF assms, of p] by (simp add: dump_line_def snp_all_fits)

lemma dump_line_exact_witness: "dump_line ''A'' 0 = Some (concat (dump_pieces ''A'' 0))"
  using dump_line_exact [of 0 "''A''"] by simp

end
