(* ===== verification/Http.thy ===== *)
theory Http
  imports C_Stdio Ring_Queue
begin

text \<open>
  The web server of \<open>web-server/src/http.c\<close>: methods, status texts and MIME types, URL coding, the
  request parser, the response builder, static files and routes, the handling of one connection,
  and the queue that carries accepted connections to the worker threads. A received request is
  the list of bytes \<open>recv\<close> stored, terminated by the server, so string functions see \<^const>\<open>cstr\<close> of
  it. Route handlers are function pointers and stay functions. What is written to the client is a
  list of events. \<open>strdup\<close> and \<open>malloc\<close> are taken to succeed; a request or response that would be
  read or written outside its buffer is \<^const>\<open>None\<close>.
\<close>

subsection \<open>Tables\<close>

datatype http_method = HTTP_METHOD_GET | HTTP_METHOD_POST | HTTP_METHOD_PUT | HTTP_METHOD_DELETE
  | HTTP_METHOD_HEAD | HTTP_METHOD_OPTIONS | HTTP_METHOD_UNKNOWN

datatype http_version = HTTP_VERSION_1_0 | HTTP_VERSION_1_1 | HTTP_VERSION_UNKNOWN

fun http_method_name :: "http_method \<Rightarrow> string" where
  "http_method_name HTTP_METHOD_GET = ''GET''"
| "http_method_name HTTP_METHOD_POST = ''POST''"
| "http_method_name HTTP_METHOD_PUT = ''PUT''"
| "http_method_name HTTP_METHOD_DELETE = ''DELETE''"
| "http_method_name HTTP_METHOD_HEAD = ''HEAD''"
| "http_method_name HTTP_METHOD_OPTIONS = ''OPTIONS''"
| "http_method_name HTTP_METHOD_UNKNOWN = ''UNKNOWN''"

definition http_method_parse :: "string \<Rightarrow> http_method" where
  "http_method_parse name =
     (if name = ''GET'' then HTTP_METHOD_GET
      else if name = ''POST'' then HTTP_METHOD_POST
      else if name = ''PUT'' then HTTP_METHOD_PUT
      else if name = ''DELETE'' then HTTP_METHOD_DELETE
      else if name = ''HEAD'' then HTTP_METHOD_HEAD
      else if name = ''OPTIONS'' then HTTP_METHOD_OPTIONS
      else HTTP_METHOD_UNKNOWN)"

definition http_status_text :: "int \<Rightarrow> string" where
  "http_status_text status =
     (case map_of [(200, ''OK''), (201, ''Created''), (204, ''No Content''), (301, ''Moved Permanently''),
        (302, ''Found''), (304, ''Not Modified''), (400, ''Bad Request''), (401, ''Unauthorized''),
        (403, ''Forbidden''), (404, ''Not Found''), (405, ''Method Not Allowed''),
        (500, ''Internal Server Error''), (501, ''Not Implemented''), (503, ''Service Unavailable'')] status of
        None \<Rightarrow> ''Unknown'' | Some t \<Rightarrow> t)"

definition mime_types :: "(string \<times> string) list" where
  "mime_types = [(''.html'', ''text/html''), (''.htm'', ''text/html''), (''.css'', ''text/css''),
     (''.js'', ''application/javascript''), (''.json'', ''application/json''), (''.xml'', ''application/xml''),
     (''.txt'', ''text/plain''), (''.jpg'', ''image/jpeg''), (''.jpeg'', ''image/jpeg''), (''.png'', ''image/png''),
     (''.gif'', ''image/gif''), (''.svg'', ''image/svg+xml''), (''.ico'', ''image/x-icon''),
     (''.pdf'', ''application/pdf''), (''.zip'', ''application/zip''), (''.gz'', ''application/gzip''),
     (''.tar'', ''application/x-tar''), (''.mp3'', ''audio/mpeg''), (''.mp4'', ''video/mp4''),
     (''.woff'', ''font/woff''), (''.woff2'', ''font/woff2''), (''.ttf'', ''font/ttf'')]"

definition http_mime_type :: "string \<Rightarrow> string" where
  "http_mime_type extension =
     (case map_of mime_types extension of None \<Rightarrow> ''application/octet-stream'' | Some t \<Rightarrow> t)"

subsection \<open>URL coding\<close>

text \<open>The loops; \<open>room\<close> is \<open>dst_size - 1\<close>. With \<open>dst_size = 0\<close> the subtraction wraps around.\<close>

fun decode_loop :: "nat \<Rightarrow> string \<Rightarrow> bytes" where
  "decode_loop 0 s = []"
| "decode_loop (Suc room) [] = []"
| "decode_loop (Suc room) (c # s) =
     (if c = CHR ''%'' \<and> 2 \<le> length s
      then to_char (strtol16 (take 2 s)) # decode_loop room (drop 2 s)
      else if c = CHR ''+'' then CHR '' '' # decode_loop room s
      else c # decode_loop room s)"

definition http_url_decode :: "string \<Rightarrow> nat \<Rightarrow> bytes option" where
  "http_url_decode src dst_size = (if dst_size = 0 then None else Some (decode_loop (dst_size - 1) src))"

definition hex_upper :: "nat \<Rightarrow> char" where
  "hex_upper n = (''0123456789ABCDEF'' ! n)"

definition url_safe :: "char \<Rightarrow> bool" where
  "url_safe c \<longleftrightarrow> c_isalnum c \<or> c = CHR ''-'' \<or> c = CHR ''_'' \<or> c = CHR ''.'' \<or> c = CHR ''~''"

fun encode_loop :: "nat \<Rightarrow> nat \<Rightarrow> string \<Rightarrow> string" where
  "encode_loop dst_size j [] = []"
| "encode_loop dst_size j (c # s) =
     (if j < dst_size - 1 then
        (if url_safe c then c # encode_loop dst_size (j + 1) s
         else if j + 3 < dst_size
         then [CHR ''%'', hex_upper ((of_char c :: nat) div 16), hex_upper ((of_char c :: nat) mod 16)]
              @ encode_loop dst_size (j + 3) s
         else encode_loop dst_size j s)
      else [])"

definition http_url_encode :: "string \<Rightarrow> nat \<Rightarrow> string option" where
  "http_url_encode src dst_size = (if dst_size = 0 then None else Some (encode_loop dst_size 0 src))"

subsection \<open>Requests\<close>

record http_headers =
  hd_host :: "string option"
  hd_user_agent :: "string option"
  hd_accept :: "string option"
  hd_connection :: "string option"
  hd_content_type :: "string option"
  hd_content_length :: "string option"
  hd_cookie :: "string option"
  hd_authorization :: "string option"
  hd_keep_alive :: bool

record http_request =
  rq_method :: http_method
  rq_version :: http_version
  rq_path :: string
  rq_query_string :: "string option"
  rq_headers :: http_headers
  rq_body :: "bytes option"
  rq_body_length :: nat

definition no_headers :: http_headers where
  "no_headers = \<lparr>hd_host = None, hd_user_agent = None, hd_accept = None, hd_connection = None,
     hd_content_type = None, hd_content_length = None, hd_cookie = None, hd_authorization = None,
     hd_keep_alive = False\<rparr>"

definition parse_request_line :: "string \<Rightarrow> http_request option" where
  "parse_request_line line =
     (case scan_s 15 line of None \<Rightarrow> None
      | Some (method, r1) \<Rightarrow>
        (case scan_s 1023 r1 of None \<Rightarrow> None
         | Some (path, r2) \<Rightarrow>
           (case scan_s 15 r2 of None \<Rightarrow> None
            | Some (version, _) \<Rightarrow>
                if http_method_parse method = HTTP_METHOD_UNKNOWN then None
                else
                  let query = strchr path (CHR ''?'');
                      path1 = takeWhile (\<lambda>c. c \<noteq> CHR ''?'') path
                  in Some \<lparr>rq_method = http_method_parse method,
                       rq_version = (if version = ''HTTP/1.0'' then HTTP_VERSION_1_0
                                     else if version = ''HTTP/1.1'' then HTTP_VERSION_1_1
                                     else HTTP_VERSION_UNKNOWN),
                       rq_path = cstr (decode_loop 1023 path1),
                       rq_query_string = map_option tl query,
                       rq_headers = no_headers, rq_body = None, rq_body_length = 0\<rparr>)))"

text \<open>
  \<open>sscanf(line, "%255[^:]: %1023[^\r\n]", key, value)\<close>, lower-casing of the key and removal of
  leading blanks of the value.
\<close>

definition scan_header :: "string \<Rightarrow> (string \<times> string) option" where
  "scan_header line =
     (case scan_set 255 (\<lambda>c. c \<noteq> CHR '':'') line of None \<Rightarrow> None
      | Some (key, r) \<Rightarrow>
        (case r of [] \<Rightarrow> None
         | c # r1 \<Rightarrow>
             if c \<noteq> CHR '':'' then None
             else (case scan_set 1023 (\<lambda>c. c \<noteq> CR \<and> c \<noteq> LF) (dropWhile c_isspace r1) of None \<Rightarrow> None
                   | Some (v, _) \<Rightarrow> Some (map c_tolower key, dropWhile (\<lambda>c. c = CHR '' '') v))))"

definition parse_header :: "string \<Rightarrow> http_headers \<Rightarrow> http_headers" where
  "parse_header line h =
     (case scan_header line of None \<Rightarrow> h
      | Some (key, v) \<Rightarrow>
          if key = ''host'' then h\<lparr>hd_host := Some v\<rparr>
          else if key = ''user-agent'' then h\<lparr>hd_user_agent := Some v\<rparr>
          else if key = ''accept'' then h\<lparr>hd_accept := Some v\<rparr>
          else if key = ''connection'' then
            h\<lparr>hd_connection := Some v, hd_keep_alive := (hd_keep_alive h \<or> strcaseeq v ''keep-alive'')\<rparr>
          else if key = ''content-type'' then h\<lparr>hd_content_type := Some v\<rparr>
          else if key = ''content-length'' then h\<lparr>hd_content_length := Some v\<rparr>
          else if key = ''cookie'' then h\<lparr>hd_cookie := Some v\<rparr>
          else if key = ''authorization'' then h\<lparr>hd_authorization := Some v\<rparr>
          else h)"

text \<open>The header loop: the headers and the text at which the loop stopped.\<close>

function header_loop :: "string \<Rightarrow> http_headers \<Rightarrow> http_headers \<times> string" where
  "header_loop pos h =
     (if pos = [] \<or> hd pos = CR then (h, pos)
      else case strstr pos CRLF of
        None \<Rightarrow> (h, pos)
      | Some n \<Rightarrow> if n \<ge> 2048 then (h, pos)
                  else header_loop (drop (n + 2) pos) (parse_header (take n pos) h))"
  by pat_completeness auto
termination by (relation "measure (\<lambda>(pos, h). length pos)") auto

declare header_loop.simps [simp del]

text \<open>
  \<open>data\<close> holds \<open>length\<close> bytes and is terminated; the body is cut out of it by the number that
  \<open>Content-Length\<close> gives, if it is there.
\<close>

definition http_request_parse :: "bytes \<Rightarrow> http_request option" where
  "http_request_parse raw =
     (let data = cstr raw in
      case strstr data CRLF of None \<Rightarrow> None
      | Some line_len \<Rightarrow>
          if line_len \<ge> 2048 then None
          else case parse_request_line (take line_len data) of None \<Rightarrow> None
          | Some rq \<Rightarrow>
              let (h, rest) = header_loop (drop (line_len + 2) data) no_headers;
                  pos = length data - length rest + (if take 2 rest = CRLF then 2 else 0);
                  body_len = length raw - pos;
                  rq1 = rq\<lparr>rq_headers := h\<rparr>
              in case hd_content_length h of
                   None \<Rightarrow> Some rq1
                 | Some cl \<Rightarrow>
                     if 0 < body_len \<and> 0 < atoi cl \<and> atoi cl \<le> int body_len
                     then Some (rq1\<lparr>rq_body := Some (take (nat (atoi cl)) (drop pos raw)),
                                    rq_body_length := nat (atoi cl)\<rparr>)
                     else Some rq1)"

text \<open>The strings \<open>http_request_free\<close> releases: those that are present, in its order.\<close>

definition http_request_free :: "http_request \<Rightarrow> bytes list" where
  "http_request_free rq =
     (let h = rq_headers rq; present = (\<lambda>x. case x of None \<Rightarrow> [] | Some s \<Rightarrow> [s]) in
      rq_path rq # present (rq_query_string rq) @ present (rq_body rq) @ present (hd_host h) @
      present (hd_user_agent h) @ present (hd_accept h) @ present (hd_connection h) @
      present (hd_content_type h) @ present (hd_content_length h) @ present (hd_cookie h) @
      present (hd_authorization h))"

subsection \<open>Responses\<close>

record http_response =
  rs_status :: int
  rs_content_type :: "string option"
  rs_body :: "bytes option"
  rs_body_length :: nat

definition response_pieces :: "http_response \<Rightarrow> string list" where
  "response_pieces rs =
     [''HTTP/1.1 '' @ dec_int (rs_status rs) @ '' '' @ http_status_text (rs_status rs) @ CRLF] @
     (case rs_content_type rs of None \<Rightarrow> [] | Some t \<Rightarrow> [''Content-Type: '' @ t @ CRLF]) @
     (if rs_body_length rs > 0 then [''Content-Length: '' @ dec_nat (rs_body_length rs) @ CRLF] else []) @
     [''Connection: close'' @ CRLF, ''Server: SimpleHTTP/1.0'' @ CRLF, CRLF]"

text \<open>
  The bytes of the buffer up to the returned length; when \<open>pos\<close> ends beyond the buffer the
  caller would read and the body copy would write outside it.
\<close>

definition http_response_build :: "http_response \<Rightarrow> nat \<Rightarrow> bytes option" where
  "http_response_build rs buffer_size =
     (case snp_all buffer_size (response_pieces rs) ([], 0) of
        None \<Rightarrow> None
      | Some (b, pos) \<Rightarrow>
          if buffer_size < pos then None
          else
            let stored = take pos (b @ [NUL]) in
            case rs_body rs of
              None \<Rightarrow> Some stored
            | Some body \<Rightarrow>
                if rs_body_length rs > 0
                then let copy_len = (if rs_body_length rs > buffer_size - pos then buffer_size - pos
                                     else rs_body_length rs)
                     in Some (stored @ take copy_len body)
                else Some stored)"

definition MAX_RESPONSE_SIZE :: nat where "MAX_RESPONSE_SIZE = 65536"

definition http_response_send :: "int list \<Rightarrow> http_response \<Rightarrow> (int \<times> bytes) option" where
  "http_response_send script rs = map_option (send_all script) (http_response_build rs MAX_RESPONSE_SIZE)"

definition error_body :: "int \<Rightarrow> string" where
  "error_body status =
     ''<html><head><title>'' @ dec_int status @ '' '' @ http_status_text status @ ''</title></head>'' @
     ''<body><h1>'' @ dec_int status @ '' '' @ http_status_text status @ ''</h1></body></html>''"

definition error_response :: "int \<Rightarrow> http_response" where
  "error_response status =
     \<lparr>rs_status = status, rs_content_type = Some ''text/html'', rs_body = Some (take 1023 (error_body status)),
      rs_body_length = length (error_body status)\<rparr>"

subsection \<open>Static files and one connection\<close>

text \<open>What \<open>stat\<close> says of a path; \<open>read\<close> on a directory fails at once, so it yields no bytes.\<close>

datatype file_kind = Regular bytes | Directory nat | Special nat bytes

fun st_size :: "file_kind \<Rightarrow> nat" where
  "st_size (Regular b) = length b" | "st_size (Directory n) = n" | "st_size (Special n b) = n"

fun readable_bytes :: "file_kind \<Rightarrow> bytes" where
  "readable_bytes (Regular b) = b" | "readable_bytes (Directory n) = []" | "readable_bytes (Special n b) = b"

definition is_dir :: "file_kind option \<Rightarrow> bool" where
  "is_dir k \<longleftrightarrow> (case k of Some (Directory _) \<Rightarrow> True | _ \<Rightarrow> False)"

definition is_reg :: "file_kind option \<Rightarrow> bool" where
  "is_reg k \<longleftrightarrow> (case k of Some (Regular _) \<Rightarrow> True | _ \<Rightarrow> False)"

type_synonym file_tree = "path \<Rightarrow> file_kind option"

datatype client_event = Response http_response | RawHeader string | Chunk bytes | CloseFd

text \<open>Consecutive reads of at most 4096 bytes.\<close>

function read_chunks :: "bytes \<Rightarrow> bytes list" where
  "read_chunks [] = []"
| "read_chunks (c # cs) = take 4096 (c # cs) # read_chunks (drop 4096 (c # cs))"
  by pat_completeness auto
termination by (relation "measure length") auto

text \<open>
  The results of the \<open>send\<close> calls of one file: the value returned for the header (\<^const>\<open>None\<close>: all of
  it is sent), and for each chunk the values returned while it is sent (missing values: all that is
  left is sent).
\<close>

type_synonym send_script = "int option \<times> int list list"

fun send_chunks :: "int list list \<Rightarrow> bytes list \<Rightarrow> int \<times> client_event list" where
  "send_chunks nss [] = (0, [])"
| "send_chunks nss (b # bs) =
     (case send_all (if nss = [] then [] else hd nss) b of
        (r, out) \<Rightarrow>
          if r \<noteq> 0 then (-1, [Chunk out])
          else (case send_chunks (tl nss) bs of (r', es) \<Rightarrow> (r', Chunk out # es)))"

definition file_header :: "path \<Rightarrow> nat \<Rightarrow> string" where
  "file_header file_path n =
     (let mime = (case strrchr file_path (CHR ''.'') of None \<Rightarrow> ''application/octet-stream''
                  | Some ext \<Rightarrow> http_mime_type ext)
      in ''HTTP/1.1 200 OK'' @ CRLF @ ''Content-Type: '' @ mime @ CRLF @
         ''Content-Length: '' @ dec_nat n @ CRLF @ ''Connection: close'' @ CRLF @
         ''Server: SimpleHTTP/1.0'' @ CRLF @ CRLF)"

text \<open>\<open>open_ok\<close> and \<open>stat_ok\<close> are the outcomes of \<open>open\<close> and \<open>fstat\<close>; reads succeed.\<close>

definition http_send_file :: "send_script \<Rightarrow> (path \<Rightarrow> bool) \<Rightarrow> (path \<Rightarrow> bool) \<Rightarrow> file_tree \<Rightarrow> path \<Rightarrow> int \<times> client_event list" where
  "http_send_file net open_ok stat_ok fs file_path =
     (case fs file_path of
        None \<Rightarrow> (-1, [Response (error_response 404)])
      | Some k \<Rightarrow>
          if \<not> open_ok file_path then (-1, [Response (error_response 404)])
          else if \<not> stat_ok file_path then (-1, [Response (error_response 500)])
          else
            let header = file_header file_path (st_size k)
            in (case fst net of
                  Some n \<Rightarrow>
                    if n \<noteq> int (length header) then (-1, [RawHeader (take (nat n) header)])
                    else (case send_chunks (snd net) (read_chunks (readable_bytes k)) of
                            (res, es) \<Rightarrow> (res, RawHeader header # es))
                | None \<Rightarrow>
                    (case send_chunks (snd net) (read_chunks (readable_bytes k)) of
                       (res, es) \<Rightarrow> (res, RawHeader header # es))))"

record http_route =
  rt_method :: http_method
  rt_pattern :: string
  rt_handler :: "http_request \<Rightarrow> http_response \<Rightarrow> http_response"

record http_server_config =
  sc_port :: nat
  max_connections :: int
  thread_pool_size :: int
  document_root :: string
  index_file :: string
  enable_directory_listing :: bool

definition MAX_ROUTES :: nat where "MAX_ROUTES = 64"

fun find_route :: "http_route list \<Rightarrow> http_request \<Rightarrow> http_route option" where
  "find_route [] rq = None"
| "find_route (r # rs) rq =
     (if rt_method r = rq_method rq \<and> rt_pattern r = rq_path rq then Some r else find_route rs rq)"

definition serve_static :: "send_script \<Rightarrow> (path \<Rightarrow> bool) \<Rightarrow> (path \<Rightarrow> bool) \<Rightarrow> file_tree \<Rightarrow> http_server_config \<Rightarrow> http_request \<Rightarrow> client_event list" where
  "serve_static net open_ok stat_ok fs cfg rq =
     (let file_path = take 1023 (document_root cfg @ rq_path rq);
          index_path = take 1023 (file_path @ ''/'' @ index_file cfg);
          (path2, first) =
            (if is_dir (fs file_path) then
               (if fs index_path \<noteq> None then (index_path, [])
                else if enable_directory_listing cfg then (file_path, [Response (error_response 403)])
                else (file_path, [Response (error_response 403)]))
             else (file_path, []))
      in first @
         (if is_reg (fs path2) then snd (http_send_file net open_ok stat_ok fs path2)
          else [Response (error_response 404)]))"

definition handle_client ::
  "send_script \<Rightarrow> (path \<Rightarrow> bool) \<Rightarrow> (path \<Rightarrow> bool) \<Rightarrow> file_tree \<Rightarrow> http_server_config \<Rightarrow> http_route list \<Rightarrow> bytes option \<Rightarrow> client_event list" where
  "handle_client net open_ok stat_ok fs cfg routes received =
     (case received of None \<Rightarrow> [CloseFd]
      | Some raw \<Rightarrow>
          if raw = [] then [CloseFd]
          else (case http_request_parse raw of
                  None \<Rightarrow> [Response (error_response 400), CloseFd]
                | Some rq \<Rightarrow>
                    (case find_route routes rq of
                       Some r \<Rightarrow> [Response (rt_handler r rq \<lparr>rs_status = 200, rs_content_type = None,
                                    rs_body = None, rs_body_length = 0\<rparr>)]
                     | None \<Rightarrow> serve_static net open_ok stat_ok fs cfg rq) @ [CloseFd]))"

subsection \<open>The server\<close>

record http_server =
  sv_config :: http_server_config
  sv_running :: bool
  connection_queue :: "int list"
  queue_head :: nat
  queue_tail :: nat
  queue_size :: nat
  sv_routes :: "http_route list"

text \<open>The outcomes of \<open>malloc\<close>, \<open>socket\<close>, \<open>bind\<close> and the two queue allocations, in order.\<close>

definition http_server_create :: "bool list \<Rightarrow> http_server_config \<Rightarrow> http_server option" where
  "http_server_create oks cfg =
     (if False \<in> set (take 5 oks) then None
      else Some \<lparr>sv_config = cfg, sv_running = False,
                 connection_queue = replicate (nat (max_connections cfg)) 0,
                 queue_head = 0, queue_tail = 0, queue_size = 0, sv_routes = []\<rparr>)"

definition http_server_add_route ::
  "http_server option \<Rightarrow> http_method \<Rightarrow> string \<Rightarrow> (http_request \<Rightarrow> http_response \<Rightarrow> http_response) \<Rightarrow>
   int \<times> http_server option" where
  "http_server_add_route so m pat h =
     (case so of None \<Rightarrow> (-1, None)
      | Some s \<Rightarrow>
          if length (sv_routes s) \<ge> MAX_ROUTES then (-1, so)
          else (0, Some (s\<lparr>sv_routes := sv_routes s @ [\<lparr>rt_method = m, rt_pattern = pat, rt_handler = h\<rparr>]\<rparr>)))"

text \<open>
  The accept loop's queueing of a connection (\<^const>\<open>None\<close>: the queue is full and the client gets
  503), and a worker's removal of one.
\<close>

definition http_enqueue :: "http_server \<Rightarrow> int \<Rightarrow> http_server option" where
  "http_enqueue s fd =
     (if int (queue_size s) < max_connections (sv_config s)
      then Some (s\<lparr>connection_queue := (connection_queue s)[queue_tail s := fd],
                   queue_tail := (queue_tail s + 1) mod nat (max_connections (sv_config s)),
                   queue_size := queue_size s + 1\<rparr>)
      else None)"

definition accept_step :: "http_server \<Rightarrow> int \<Rightarrow> http_server \<times> client_event list" where
  "accept_step s fd =
     (case http_enqueue s fd of Some s' \<Rightarrow> (s', [])
      | None \<Rightarrow> (s, [Response (error_response 503), CloseFd]))"

definition http_dequeue :: "http_server \<Rightarrow> (int \<times> http_server) option" where
  "http_dequeue s =
     (if queue_size s > 0
      then Some (connection_queue s ! queue_head s,
                 s\<lparr>queue_head := (queue_head s + 1) mod nat (max_connections (sv_config s)),
                   queue_size := queue_size s - 1\<rparr>)
      else None)"

definition http_server_stop :: "http_server option \<Rightarrow> http_server option" where
  "http_server_stop so = map_option (\<lambda>s. s\<lparr>sv_running := False\<rparr>) so"

subsection \<open>URL coding\<close>

lemma hex_upper_facts:
  assumes "a < 16"
  shows "digit_val (hex_upper a) = Some a" and "\<not> c_isspace (hex_upper a)" and "hex_upper a \<noteq> CHR ''-''"
    and "hex_upper a \<noteq> CHR ''+''" and "hex_upper a \<noteq> CHR ''%''" and "hex_upper a \<noteq> CHR ''?''" and "hex_upper a \<noteq> NUL"
proof -
  have "a \<in> {0,1,2,3,4,5,6,7,8,9,10,11,12,13,14,15}" using assms by (simp only: insert_iff empty_iff) presburger
  then show "digit_val (hex_upper a) = Some a" and "\<not> c_isspace (hex_upper a)" and "hex_upper a \<noteq> CHR ''-''"
    and "hex_upper a \<noteq> CHR ''+''" and "hex_upper a \<noteq> CHR ''%''" and "hex_upper a \<noteq> CHR ''?''" and "hex_upper a \<noteq> NUL"
    by (auto simp: hex_upper_def digit_val_def c_isspace_def)
qed

lemma strtol16_pair:
  assumes "a < 16" and "b < 16"
  shows "strtol16 [hex_upper a, hex_upper b] = int (16 * a + b)"
  using hex_upper_facts [OF assms(1)] hex_upper_facts [OF assms(2)] assms
  by (simp add: strtol16_def Let_def)

lemma decode_hex_char: "to_char (strtol16 [hex_upper ((of_char c :: nat) div 16), hex_upper ((of_char c :: nat) mod 16)]) = c"
proof -
  have d: "(of_char c :: nat) div 16 < 16" by (rule char_high_nibble)
  have "int (16 * ((of_char c :: nat) div 16) + (of_char c :: nat) mod 16) = int (of_char c :: nat)" by simp
  then show ?thesis
    by (subst strtol16_pair [OF d]) (auto simp: to_char_def)
qed

definition encode_char :: "char \<Rightarrow> string" where
  "encode_char c = (if url_safe c then [c]
     else [CHR ''%'', hex_upper ((of_char c :: nat) div 16), hex_upper ((of_char c :: nat) mod 16)])"

definition url_encoded :: "string \<Rightarrow> string" where
  "url_encoded s = concat (map encode_char s)"

lemma encode_char_length: "length (encode_char c) \<le> 3" "encode_char c \<noteq> []"
  by (auto simp: encode_char_def)

lemma url_encoded_length: "length (url_encoded s) \<le> 3 * length s" "length s \<le> length (url_encoded s)"
proof -
  show "length (url_encoded s) \<le> 3 * length s"
    by (induction s) (auto simp: url_encoded_def intro: add_mono encode_char_length(1))
  show "length s \<le> length (url_encoded s)"
  proof (induction s)
    case (Cons c s)
    moreover have "1 \<le> length (encode_char c)" by (simp add: encode_char_def)
    ultimately show ?case by (simp add: url_encoded_def)
  qed simp
qed

lemma encode_loop_fits: "j + 3 * length s < n \<Longrightarrow> encode_loop n j s = url_encoded s"
  by (induction s arbitrary: j) (auto simp: url_encoded_def encode_char_def)

lemma url_safe_plain: "url_safe c \<Longrightarrow> c \<noteq> CHR ''%'' \<and> c \<noteq> CHR ''+'' \<and> c \<noteq> CHR ''?'' \<and> c \<noteq> NUL \<and> \<not> c_isspace c"
  by (auto simp: url_safe_def c_isalnum_def c_isdigit_def c_isupper_def c_islower_def c_isspace_def)

lemma decode_url_encoded: "length s \<le> room \<Longrightarrow> decode_loop room (url_encoded s) = s"
proof (induction s arbitrary: room)
  case Nil
  then show ?case by (cases room) (simp_all add: url_encoded_def)
next
  case (Cons c s)
  then obtain r where r: "room = Suc r" by (cases room) auto
  then have IH: "decode_loop r (url_encoded s) = s" using Cons by simp
  show ?case
  proof (cases "url_safe c")
    case True
    then show ?thesis using IH r url_safe_plain [OF True] by (simp add: url_encoded_def encode_char_def)
  next
    case False
    then show ?thesis using IH r decode_hex_char [of c] by (simp add: url_encoded_def encode_char_def)
  qed
qed

lemma encoded_char_plain:
  assumes "x \<in> set (url_encoded s)"
  shows "x \<noteq> CHR ''?'' \<and> x \<noteq> NUL \<and> \<not> c_isspace x"
proof -
  from assms obtain c where "x \<in> set (encode_char c)" by (auto simp: url_encoded_def)
  moreover have "(of_char c :: nat) div 16 < 16" by (rule char_high_nibble)
  ultimately show ?thesis
    using url_safe_plain [of c] hex_upper_facts [of "(of_char c :: nat) div 16"] hex_upper_facts [of "(of_char c :: nat) mod 16"]
    by (auto simp: encode_char_def c_isspace_def split: if_splits)
qed

subsection \<open>Parsing what was printed\<close>

lemma scan_s_after_space: "scan_s n (CHR '' '' # s) = scan_s n s"
  by (rule scan_s_skip) (simp add: c_isspace_def)

lemma method_name_facts:
  assumes "m \<noteq> HTTP_METHOD_UNKNOWN"
  shows "http_method_parse (http_method_name m) = m" and "http_method_name m \<noteq> []" and "length (http_method_name m) \<le> 15"
    and "\<forall>c \<in> set (http_method_name m). \<not> c_isspace c" and "CR \<notin> set (http_method_name m)" and "is_cstr (http_method_name m)"
  using assms by (cases m; simp add: http_method_parse_def c_isspace_def)+

lemma version_facts: "\<forall>c \<in> set ''HTTP/1.1''. \<not> c_isspace c"
  by (simp add: c_isspace_def)

lemma parse_request_line_printed:
  assumes m: "m \<noteq> HTTP_METHOD_UNKNOWN" and p: "path \<noteq> []" "length (url_encoded path) \<le> 1023" and c: "is_cstr path"
  shows "parse_request_line (http_method_name m @ '' '' @ url_encoded path @ '' HTTP/1.1'') =
    Some \<lparr>rq_method = m, rq_version = HTTP_VERSION_1_1, rq_path = path, rq_query_string = None,
          rq_headers = no_headers, rq_body = None, rq_body_length = 0\<rparr>"
proof -
  note mf = method_name_facts [OF m]
  have e: "url_encoded path \<noteq> []" using p(1) url_encoded_length(2) [of path] by auto
  have sp: "c_isspace (CHR '' '')" by (simp add: c_isspace_def)
  have s1: "scan_s 15 (http_method_name m @ '' '' @ url_encoded path @ '' HTTP/1.1'')
      = Some (http_method_name m, '' '' @ url_encoded path @ '' HTTP/1.1'')"
    using mf by (intro scan_s_token) (simp_all add: sp)
  have s2: "scan_s 1023 ('' '' @ url_encoded path @ '' HTTP/1.1'') = Some (url_encoded path, '' HTTP/1.1'')"
    using e p(2) encoded_char_plain [of _ path]
    by (subst append_Cons, subst scan_s_after_space, subst append_Nil, intro scan_s_token) (simp_all add: sp)
  have s3: "scan_s 15 '' HTTP/1.1'' = Some (''HTTP/1.1'', [])"
    using scan_s_token [of "''HTTP/1.1''" 15 "[]"] version_facts by (simp add: scan_s_after_space)
  have q: "strchr (url_encoded path) (CHR ''?'') = None" using encoded_char_plain [of _ path] by (auto simp: strchr_None)
  have t: "takeWhile (\<lambda>c. c \<noteq> CHR ''?'') (url_encoded path) = url_encoded path"
    using encoded_char_plain [of _ path] by (auto simp: takeWhile_eq_all_conv)
  have "length path \<le> 1023" using url_encoded_length(2) [of path] p(2) by linarith
  then have d: "decode_loop 1023 (url_encoded path) = path" by (rule decode_url_encoded)
  show ?thesis unfolding parse_request_line_def s1 s2 s3 option.case prod.case
    using m c mf(1) by (simp add: q t d)
qed

abbreviation header_line :: "string \<Rightarrow> bool" where
  "header_line h \<equiv> h \<noteq> [] \<and> CR \<notin> set h \<and> is_cstr h \<and> length h < 2048"

lemma header_loop_printed:
  "list_all header_line hs \<Longrightarrow>
   header_loop (concat (map (\<lambda>h. h @ CRLF) hs) @ CRLF @ rest) h0 = (fold parse_header hs h0, CRLF @ rest)"
proof (induction hs arbitrary: h0)
  case Nil
  then show ?case by (subst header_loop.simps) simp
next
  case (Cons h hs)
  let ?tl = "concat (map (\<lambda>h. h @ CRLF) hs) @ CRLF @ rest"
  have h: "h \<noteq> []" "CR \<notin> set h" "length h < 2048" using Cons.prems by auto
  have eq: "concat (map (\<lambda>h. h @ CRLF) (h # hs)) @ CRLF @ rest = h @ CRLF @ ?tl" by simp
  have s: "strstr (h @ CRLF @ ?tl) CRLF = Some (length h)" by (rule strstr_crlf [OF h(2)])
  have hd: "hd (h @ CRLF @ ?tl) \<noteq> CR" using h(1,2) by (cases h) auto
  have "header_loop (h @ CRLF @ ?tl) h0 = header_loop ?tl (parse_header h h0)"
    by (subst header_loop.simps) (use h hd s in auto)
  then show ?case unfolding eq using Cons by simp
qed

definition print_request :: "http_method \<Rightarrow> string \<Rightarrow> string list \<Rightarrow> bytes \<Rightarrow> bytes" where
  "print_request m path hs body =
     http_method_name m @ '' '' @ url_encoded path @ '' HTTP/1.1'' @ CRLF @
     concat (map (\<lambda>h. h @ CRLF) hs) @ CRLF @ body"

lemma http_request_parse_printed:
  assumes m: "m \<noteq> HTTP_METHOD_UNKNOWN" and p: "path \<noteq> []" "length (url_encoded path) \<le> 1023" and c: "is_cstr path"
    and hs: "list_all header_line hs"
  shows "http_request_parse (print_request m path hs body) =
    Some (let h = fold parse_header hs no_headers;
              rq = \<lparr>rq_method = m, rq_version = HTTP_VERSION_1_1, rq_path = path, rq_query_string = None,
                    rq_headers = h, rq_body = None, rq_body_length = 0\<rparr>
          in case hd_content_length h of None \<Rightarrow> rq
             | Some cl \<Rightarrow> if 0 < atoi cl \<and> atoi cl \<le> int (length body)
                 then rq\<lparr>rq_body := Some (take (nat (atoi cl)) body), rq_body_length := nat (atoi cl)\<rparr> else rq)"
proof -
  define l0 where "l0 = http_method_name m @ '' '' @ url_encoded path @ '' HTTP/1.1''"
  define hl where "hl = concat (map (\<lambda>h. h @ CRLF) hs)"
  let ?raw = "print_request m path hs body"
  note mf = method_name_facts [OF m]
  have sp: "c_isspace CR" by (simp add: c_isspace_def)
  have e: "CR \<notin> set (url_encoded path)" "is_cstr (url_encoded path)"
    using encoded_char_plain [of CR path] encoded_char_plain [of NUL path] sp by (auto simp: is_cstr_def)
  have l0: "CR \<notin> set l0" "is_cstr l0" "length l0 < 2048" using e mf p(2) by (simp_all add: l0_def)
  have hc: "is_cstr hl" unfolding hl_def using hs by (induction hs) auto
  have raw: "?raw = (l0 @ CRLF @ hl @ CRLF) @ body" by (simp add: print_request_def l0_def hl_def)
  have data: "cstr ?raw = l0 @ CRLF @ hl @ CRLF @ cstr body"
    unfolding raw using hc l0(2) by (subst cstr_append) simp_all
  have s: "strstr (cstr ?raw) CRLF = Some (length l0)" unfolding data by (rule strstr_crlf [OF l0(1)])
  have tk: "take (length l0) (cstr ?raw) = l0" unfolding data by simp
  have dr: "drop (length l0 + 2) (cstr ?raw) = hl @ CRLF @ cstr body" unfolding data by simp
  have pos: "length (cstr ?raw) - length (CRLF @ cstr body) + 2 = length (l0 @ CRLF @ hl @ CRLF)"
    unfolding data by simp
  have db: "drop (length (l0 @ CRLF @ hl @ CRLF)) ?raw = body" unfolding raw by (rule drop_length_append)
  have bl: "length ?raw - length (l0 @ CRLF @ hl @ CRLF) = length body" unfolding raw by simp
  have t2: "take 2 (CRLF @ cstr body) = CRLF" by simp
  note line = parse_request_line_printed [OF m p c, folded l0_def]
  note loop = header_loop_printed [OF hs, of "cstr body" no_headers, folded hl_def]
  show ?thesis
    unfolding http_request_parse_def Let_def s option.case tk line dr loop prod.case t2 simp_thms if_True pos db bl
    using l0(3) by (auto split: option.split)
qed

subsection \<open>The connection queue\<close>

definition hq_inv :: "http_server \<Rightarrow> bool" where
  "hq_inv s \<longleftrightarrow> ring_wf (connection_queue s) (nat (max_connections (sv_config s))) (queue_head s) (queue_tail s) (queue_size s)"

definition hq_contents :: "http_server \<Rightarrow> int list" where
  "hq_contents s = ring_list (connection_queue s) (nat (max_connections (sv_config s))) (queue_head s) (queue_size s)"

interpretation hq: bounded_queue http_enqueue http_dequeue hq_contents
  "\<lambda>s. nat (max_connections (sv_config s))" hq_inv
proof
  fix q q' :: http_server and x
  assume inv: "hq_inv q"
  let ?cap = "nat (max_connections (sv_config q))"
  have len: "length (hq_contents q) = queue_size q" by (simp add: hq_contents_def)
  show "(http_enqueue q x = None) = (?cap \<le> length (hq_contents q))"
    unfolding len by (auto simp: http_enqueue_def)
  show "hq_inv q' \<and> hq_contents q' = hq_contents q @ [x] \<and> nat (max_connections (sv_config q')) = ?cap"
    if e: "http_enqueue q x = Some q'"
  proof -
    have lt: "queue_size q < ?cap" and q': "q' = q\<lparr>connection_queue := (connection_queue q)[queue_tail q := x],
        queue_tail := (queue_tail q + 1) mod ?cap, queue_size := queue_size q + 1\<rparr>"
      using e by (auto simp: http_enqueue_def split: if_splits)
    from ring_push [OF inv [unfolded hq_inv_def] lt, of x] show ?thesis
      by (simp add: hq_inv_def hq_contents_def q')
  qed
  have "hq_contents q = [] \<longleftrightarrow> queue_size q = 0" by (metis len length_0_conv)
  then show "(http_dequeue q = None) = (hq_contents q = [])" by (auto simp: http_dequeue_def)
  show "hq_inv q' \<and> hq_contents q = x # hq_contents q' \<and> nat (max_connections (sv_config q')) = ?cap"
    if d: "http_dequeue q = Some (x, q')"
  proof -
    have pos: "0 < queue_size q" and x: "x = connection_queue q ! queue_head q"
      and q': "q' = q\<lparr>queue_head := (queue_head q + 1) mod ?cap, queue_size := queue_size q - 1\<rparr>"
      using d by (auto simp: http_dequeue_def split: if_splits)
    from ring_pop [OF inv [unfolded hq_inv_def] pos] show ?thesis
      by (simp add: hq_inv_def hq_contents_def q' x)
  qed
  show "length (hq_contents q) \<le> ?cap" unfolding len using inv by (simp add: hq_inv_def ring_wf_def)
qed

lemma server_create_queue:
  "0 < max_connections cfg \<Longrightarrow> http_server_create oks cfg = Some s \<Longrightarrow> hq_inv s \<and> hq_contents s = []"
  by (auto simp: http_server_create_def hq_inv_def hq_contents_def ring_wf_def ring_list_def split: if_splits)

text \<open>A day in the life of the queue: connections arrive and workers take them.\<close>

fun conn_step :: "int qop \<Rightarrow> int list \<times> int list \<times> http_server \<Rightarrow> int list \<times> int list \<times> http_server" where
  "conn_step (Enq fd) (acc, del, s) = (case http_enqueue s fd of None \<Rightarrow> (acc, del, s) | Some s' \<Rightarrow> (acc @ [fd], del, s'))"
| "conn_step Deq (acc, del, s) = (case http_dequeue s of None \<Rightarrow> (acc, del, s) | Some (fd, s') \<Rightarrow> (acc, del @ [fd], s'))"

lemma conn_step_is_qstep: "conn_step op st = hq.qstep op st"
  by (cases op; cases st) (auto split: option.split)

subsection \<open>Properties\<close>

text \<open>
  URL decoding inverts URL encoding for every byte string, whenever both buffers are large
  enough (three bytes per character for the encoding, one for the decoding, and the terminator).
\<close>

lemma url_roundtrip:
  assumes "3 * length s < enc_size" and "length s < dec_size"
  shows "\<exists>e. http_url_encode s enc_size = Some e \<and> http_url_decode e dec_size = Some s"
proof -
  have "http_url_encode s enc_size = Some (url_encoded s)"
    using assms(1) encode_loop_fits [of 0 s enc_size] by (simp add: http_url_encode_def)
  moreover have "http_url_decode (url_encoded s) dec_size = Some s"
    using assms(2) decode_url_encoded [of s "dec_size - 1"] by (simp add: http_url_decode_def)
  ultimately show ?thesis by blast
qed

lemma url_roundtrip_witness:
  "\<exists>e. http_url_encode ''a b/c'' 64 = Some e \<and> http_url_decode e 64 = Some ''a b/c''"
  by (rule url_roundtrip) simp_all



lemma concat_read_chunks: "concat (read_chunks b) = b"
  by (induction b rule: read_chunks.induct) (simp_all only: read_chunks.simps concat.simps append_take_drop_id)

lemma send_chunks_no_close: "CloseFd \<notin> set (snd (send_chunks nss bs))"
  by (induction nss bs rule: send_chunks.induct) (auto split: prod.splits)

lemma send_chunks_complete: "\<forall>ns \<in> set nss. \<forall>n \<in> set ns. 0 < n \<Longrightarrow> send_chunks nss bs = (0, map Chunk bs)"
proof (induction nss bs rule: send_chunks.induct)
  case (2 nss b bs)
  have "\<forall>n \<in> set (if nss = [] then [] else hd nss). 0 < n" using 2(2) by (cases nss) auto
  then have all: "send_all (if nss = [] then [] else hd nss) b = (0, b)" by (rule send_all_complete)
  moreover have "\<forall>ns \<in> set (tl nss). \<forall>n \<in> set ns. 0 < n" using 2(2) by (cases nss) auto
  ultimately show ?case using 2(1) [OF all [symmetric]] by simp
qed simp

lemma send_file_no_close: "CloseFd \<notin> set (snd (http_send_file net open_ok stat_ok fs p))"
  using send_chunks_no_close by (auto simp: http_send_file_def Let_def split: option.split prod.split) (metis snd_conv)+

lemma send_file_nonempty: "snd (http_send_file net open_ok stat_ok fs p) \<noteq> []"
  by (simp add: http_send_file_def Let_def split: option.split prod.split)

lemma static_nonempty: "serve_static net open_ok stat_ok fs cfg rq \<noteq> []"
  unfolding serve_static_def Let_def using send_file_nonempty by (simp split: prod.splits)

lemma static_no_close: "CloseFd \<notin> set (serve_static net open_ok stat_ok fs cfg rq)"
  using send_file_no_close by (auto simp: serve_static_def Let_def split: prod.splits if_splits)

text \<open>
  Every connection is answered and closed exactly once: whatever was received, the last thing
  \<open>handle_client\<close> does is close the socket, it closes it only then, and unless nothing was received
  it has sent something before.
\<close>

lemma handle_client_closes_once:
  "\<exists>es. handle_client net open_ok stat_ok fs cfg routes received = es @ [CloseFd] \<and> CloseFd \<notin> set es \<and>
     (received = None \<or> received = Some [] \<or> es \<noteq> [])"
proof (cases received)
  case None
  then show ?thesis by (intro exI [of _ "[]"]) (simp add: handle_client_def)
next
  case (Some raw)
  show ?thesis
  proof (cases "raw = [] \<or> http_request_parse raw = None")
    case True
    then show ?thesis using Some
      by (intro exI [of _ "if raw = [] then [] else [Response (error_response 400)]"]) (auto simp: handle_client_def)
  next
    case False
    then obtain rq where "raw \<noteq> []" "http_request_parse raw = Some rq" by auto
    then show ?thesis using Some static_nonempty static_no_close
      by (auto simp: handle_client_def split: option.split)
  qed
qed


definition www :: http_server_config where
  "www = \<lparr>sc_port = 8080, max_connections = 100, thread_pool_size = 4, document_root = ''./www'',
     index_file = ''index.html'', enable_directory_listing = False\<rparr>"

lemma handle_client_closes_once_witness:
  "\<exists>es. handle_client (None, []) (\<lambda>_. True) (\<lambda>_. True) Map.empty www [] (Some ''x'') = es @ [CloseFd] \<and>
     CloseFd \<notin> set es \<and> 0 < length es"
  using handle_client_closes_once [of "(None, [])" "\<lambda>_. True" "\<lambda>_. True" Map.empty www "[]" "Some ''x''"] by auto


text \<open>
  A directory without index file gets two answers on the same connection: 403, and then 404,
  because the code falls through to the regular-file test.
\<close>

lemma directory_answered_twice:
  assumes "http_request_parse raw = Some rq" and "raw \<noteq> []" and "find_route routes rq = None"
    and "fs (take 1023 (document_root cfg @ rq_path rq)) = Some (Directory n)"
    and "fs (take 1023 (take 1023 (document_root cfg @ rq_path rq) @ ''/'' @ index_file cfg)) = None"
  shows "handle_client net open_ok stat_ok fs cfg routes (Some raw) =
    [Response (error_response 403), Response (error_response 404), CloseFd]"
proof -
  let ?p = "take 1023 (document_root cfg @ rq_path rq)"
  have "serve_static net open_ok stat_ok fs cfg rq = [Response (error_response 403), Response (error_response 404)]"
    unfolding serve_static_def Let_def using assms(4,5) by (simp add: is_dir_def is_reg_def del: take_append)
  then show ?thesis using assms(1,2,3) by (simp add: handle_client_def)
qed

lemma directory_answered_twice_witness:
  "handle_client (None, []) (\<lambda>_. True) (\<lambda>_. True) [''./www/d'' \<mapsto> Directory 4096] www []
     (Some (print_request HTTP_METHOD_GET ''/d'' [] [])) =
   [Response (error_response 403), Response (error_response 404), CloseFd]"
proof -
  have len: "length (url_encoded ''/d'') \<le> 1023" using url_encoded_length(1) [of "''/d''"] by simp
  obtain rq where rq: "http_request_parse (print_request HTTP_METHOD_GET ''/d'' [] []) = Some rq" "rq_path rq = ''/d''"
    using http_request_parse_printed [OF _ _ len, of HTTP_METHOD_GET "[]" "[]"] by (auto simp: no_headers_def Let_def)
  show ?thesis by (rule directory_answered_twice [OF rq(1)]) (simp_all add: rq(2) www_def print_request_def)
qed

text \<open>
  The response buffer: when the status line and headers fit, the built response is exactly
  these headers followed by the body, cut to the room left in the buffer, and it never exceeds the
  buffer.
\<close>

lemma response_build_framed:
  assumes "length (concat (response_pieces rs)) < bsz" and "rs_body rs = Some body" and "rs_body_length rs = length body"
  shows "\<exists>out. http_response_build rs bsz = Some out \<and> length out \<le> bsz \<and>
    out = concat (response_pieces rs) @ take (bsz - length (concat (response_pieces rs))) body"
proof -
  have f: "snp_all bsz (response_pieces rs) ([], 0) = Some (concat (response_pieces rs), length (concat (response_pieces rs)))"
    using assms(1) by (subst snp_all_fits) auto
  show ?thesis unfolding http_response_build_def f using assms by (auto simp: Let_def min_def)
qed

lemma response_build_framed_witness:
  "\<exists>out. http_response_build (error_response 404) 65536 = Some out \<and> length out \<le> 65536"
proof -
  have d: "length (dec_int 404) \<le> 3" using dec_nat_length [of 404 3] by (simp add: dec_int_def)
  have t: "http_status_text 404 = ''Not Found''" by (simp add: http_status_text_def)
  have b: "length (error_body 404) \<le> 120" using d unfolding error_body_def t by simp
  have "length (dec_nat (length (error_body 404))) \<le> 3" using b by (intro dec_nat_length) simp_all
  then have "length (concat (response_pieces (error_response 404))) < 65536"
    using d t by (simp add: response_pieces_def error_response_def)
  from response_build_framed [OF this] b show ?thesis by (auto simp: error_response_def)
qed

text \<open>
  The connection queue of the web server is first-in first-out and bounded: after any
  interleaving of arrivals and workers, the accepted connections are those delivered, in order,
  followed by those still queued, never more than \<open>max_connections\<close>.
\<close>

lemma connections_fifo:
  assumes "0 < max_connections cfg" and "http_server_create oks cfg = Some s"
  shows "case fold conn_step ops ([], [], s) of (acc, del, s') \<Rightarrow>
    acc = del @ hq_contents s' \<and> length (hq_contents s') \<le> nat (max_connections cfg)"
proof -
  have "hq_inv s" "hq_contents s = []" using server_create_queue [OF assms] by auto
  moreover have "sv_config s = cfg" using assms(2) by (auto simp: http_server_create_def split: if_splits)
  moreover have "conn_step = hq.qstep" by (intro ext) (rule conn_step_is_qstep)
  ultimately show ?thesis using hq.history_fifo [of s ops] by (auto split: prod.splits)
qed

lemma connections_fifo_witness:
  "\<exists>s. http_server_create [] www = Some s \<and>
     (case fold conn_step [Enq 4, Enq 5, Deq] ([], [], s) of (acc, del, s') \<Rightarrow> acc = del @ hq_contents s')"
proof -
  obtain s where s: "http_server_create [] www = Some s" by (simp add: http_server_create_def)
  then show ?thesis using connections_fifo [OF _ s, of "[Enq 4, Enq 5, Deq]"]
    by (auto simp: www_def split: prod.splits)
qed

end
