(* ===== verification/Proxy.thy ===== *)
theory Proxy
  imports C_Stdio Ring_Queue
begin

text \<open>
  The HTTP proxy of \<open>network-proxy/src/proxy.c\<close>: URL parsing, the two request handlers, the
  bidirectional tunnel, the statistics and the connection queue. A request is the terminated text
  \<open>recv\<close> left in the 8192-byte buffer. The network is a parameter: \<open>connect\<close> gives the
  descriptor \<open>proxy_connect_upstream\<close> returns for a host and port (negative on failure), and a tunnel is
  driven by a script of what each \<open>select\<close> round finds. What a handler does is a list of events;
  \<^const>\<open>None\<close> is a write past a buffer or a read of an unterminated one.
\<close>

subsection \<open>Parsing\<close>

definition MAX_REQUEST_SIZE :: nat where "MAX_REQUEST_SIZE = 8192"
definition MAX_HOST_LENGTH :: nat where "MAX_HOST_LENGTH = 256"
definition MAX_PATH_LENGTH :: nat where "MAX_PATH_LENGTH = 1024"

lemmas proxy_limits [c_limits] = MAX_REQUEST_SIZE_def MAX_HOST_LENGTH_def MAX_PATH_LENGTH_def

definition proxy_parse_request_line :: "string \<Rightarrow> (string \<times> string \<times> string) option" where
  "proxy_parse_request_line request =
     (case scan_s 15 request of None \<Rightarrow> None
      | Some (method, r1) \<Rightarrow>
        (case scan_s 2047 r1 of None \<Rightarrow> None
         | Some (url, r2) \<Rightarrow>
           (case scan_s 15 r2 of None \<Rightarrow> None
            | Some (version, _) \<Rightarrow> Some (method, url, version))))"

definition to_uint16 :: "int \<Rightarrow> nat" where
  "to_uint16 i = nat (i mod 65536)"

definition skip_scheme :: "string \<Rightarrow> string" where
  "skip_scheme url =
     (if take 7 url = ''http://'' then drop 7 url
      else if take 8 url = ''https://'' then drop 8 url else url)"

definition proxy_parse_url :: "string \<Rightarrow> (string \<times> nat \<times> string) option" where
  "proxy_parse_url url =
     (let p = skip_scheme url;
          host = takeWhile (\<lambda>c. c \<noteq> CHR '':'' \<and> c \<noteq> CHR ''/'') p;
          r1 = drop (length host) p;
          has_port = (r1 \<noteq> [] \<and> hd r1 = CHR '':'');
          port_str = (if has_port then takeWhile (\<lambda>c. c \<noteq> CHR ''/'') (tl r1) else []);
          r2 = (if has_port then drop (length port_str) (tl r1) else r1)
      in if length host \<ge> MAX_HOST_LENGTH then None
         else if has_port \<and> length port_str \<ge> 16 then None
         else Some (host, if has_port then to_uint16 (atoi port_str) else 80,
                    if r2 \<noteq> [] \<and> hd r2 = CHR ''/'' then take (MAX_PATH_LENGTH - 1) r2 else ''/''))"

subsection \<open>Statistics and the tunnel\<close>

record proxy_stats =
  total_connections :: nat
  active_connections :: nat
  bytes_sent :: nat
  bytes_received :: nat
  cache_hits :: nat
  cache_misses :: nat
  proxy_errors :: nat

text \<open>
  One round: \<open>select\<close> is interrupted, fails, times out, or reports the readable sides. A readable side
  gives the bytes of \<open>recv\<close> (none: end of stream or error) and the results of the \<open>send\<close> calls
  that forward them.
\<close>

datatype side = Quiet | Ended | Data bytes "int list"

datatype tunnel_round = Interrupted | SelectFailed | TimedOut | Readable side side

record tunnel =
  to_upstream :: bytes
  to_client :: bytes
  tn_stats :: proxy_stats

text \<open>\<^const>\<open>Inl\<close>: the tunnel returns; \<^const>\<open>Inr\<close>: it goes on to the next round.\<close>

definition from_client :: "side \<Rightarrow> tunnel \<Rightarrow> (int \<times> tunnel) + tunnel" where
  "from_client s t =
     (case s of Quiet \<Rightarrow> Inr t | Ended \<Rightarrow> Inl (0, t)
      | Data b script \<Rightarrow>
          (case send_all script b of
             (r, out) \<Rightarrow>
               let t1 = t\<lparr>to_upstream := to_upstream t @ out\<rparr> in
               if r < 0 then Inl (-1, t1)
               else Inr (t1\<lparr>tn_stats := (tn_stats t1)\<lparr>bytes_sent := bytes_sent (tn_stats t1) + length b\<rparr>\<rparr>)))"

definition from_upstream :: "side \<Rightarrow> tunnel \<Rightarrow> (int \<times> tunnel) + tunnel" where
  "from_upstream s t =
     (case s of Quiet \<Rightarrow> Inr t | Ended \<Rightarrow> Inl (0, t)
      | Data b script \<Rightarrow>
          (case send_all script b of
             (r, out) \<Rightarrow>
               let t1 = t\<lparr>to_client := to_client t @ out\<rparr> in
               if r < 0 then Inl (-1, t1)
               else Inr (t1\<lparr>tn_stats := (tn_stats t1)\<lparr>bytes_received := bytes_received (tn_stats t1) + length b\<rparr>\<rparr>)))"

text \<open>The loop, as long as the script of rounds lasts; \<^const>\<open>None\<close>: still running.\<close>

fun proxy_tunnel :: "tunnel_round list \<Rightarrow> tunnel \<Rightarrow> int option \<times> tunnel" where
  "proxy_tunnel [] t = (None, t)"
| "proxy_tunnel (Interrupted # rs) t = proxy_tunnel rs t"
| "proxy_tunnel (SelectFailed # rs) t = (Some (-1), t)"
| "proxy_tunnel (TimedOut # rs) t = (Some 0, t)"
| "proxy_tunnel (Readable c u # rs) t =
     (case from_client c t of Inl (r, t1) \<Rightarrow> (Some r, t1)
      | Inr t1 \<Rightarrow> (case from_upstream u t1 of Inl (r, t2) \<Rightarrow> (Some r, t2) | Inr t2 \<Rightarrow> proxy_tunnel rs t2))"

subsection \<open>The handlers\<close>

datatype proxy_event = ToClient bytes | Connect string nat | ToUpstream bytes | Tunnel | CloseUpstream | CloseClient

definition proxy_error :: "nat \<Rightarrow> string \<Rightarrow> string" where
  "proxy_error status_code message =
     take 1023 (''HTTP/1.1 '' @ dec_nat status_code @ '' '' @ message @ CRLF @ ''Content-Type: text/html'' @ CRLF @
       ''Connection: close'' @ CRLF @ CRLF @ ''<html><body><h1>'' @ dec_nat status_code @ '' '' @ message @ ''</h1></body></html>'')"

text \<open>
  The request for the upstream server: \<open>snprintf\<close> of the new request line, then \<open>strcat\<close> of
  everything after the first line end. \<^const>\<open>None\<close> when the result does not fit \<open>new_request\<close>.
\<close>

definition rewrite_request :: "string \<Rightarrow> string \<Rightarrow> string \<Rightarrow> string \<Rightarrow> string option" where
  "rewrite_request request method path version =
     (let line = take (MAX_REQUEST_SIZE - 1) (method @ '' '' @ path @ '' '' @ version @ CRLF);
          new_request = (case strstr request CRLF of None \<Rightarrow> line | Some n \<Rightarrow> line @ drop (n + 2) request)
      in if length new_request < MAX_REQUEST_SIZE then Some new_request else None)"

definition handle_http_proxy :: "(string \<Rightarrow> nat \<Rightarrow> int) \<Rightarrow> string \<Rightarrow> proxy_event list option" where
  "handle_http_proxy connect request =
     (case proxy_parse_request_line request of
        None \<Rightarrow> Some [ToClient (proxy_error 400 ''Bad Request''), CloseClient]
      | Some (method, url, version) \<Rightarrow>
          (case proxy_parse_url url of
             None \<Rightarrow> Some [ToClient (proxy_error 400 ''Bad Request''), CloseClient]
           | Some (host, port, path) \<Rightarrow>
               if connect host port < 0
               then Some [Connect host port, ToClient (proxy_error 502 ''Bad Gateway''), CloseClient]
               else (case rewrite_request request method path version of
                       None \<Rightarrow> None
                     | Some new_request \<Rightarrow>
                         Some [Connect host port, ToUpstream new_request, Tunnel, CloseUpstream, CloseClient])))"

text \<open>
  \<open>strncpy(host, host_port, sizeof(host) - 1)\<close> into an uninitialised array: the string is
  terminated only when it has fewer than 255 characters.
\<close>

definition connect_host :: "string \<Rightarrow> string option" where
  "connect_host name = (if length name < MAX_HOST_LENGTH - 1 then Some name else None)"

definition handle_connect :: "(string \<Rightarrow> nat \<Rightarrow> int) \<Rightarrow> string \<Rightarrow> proxy_event list option" where
  "handle_connect connect request =
     (case proxy_parse_request_line request of
        None \<Rightarrow> Some [ToClient (proxy_error 400 ''Bad Request''), CloseClient]
      | Some (method, host_port, version) \<Rightarrow>
          let (name, port) =
            (case strchr host_port (CHR '':'') of
               Some colon \<Rightarrow> (takeWhile (\<lambda>c. c \<noteq> CHR '':'') host_port, to_uint16 (atoi (tl colon)))
             | None \<Rightarrow> (host_port, 443))
          in (case connect_host name of
                None \<Rightarrow> None
              | Some host \<Rightarrow>
                  if connect host port < 0
                  then Some [Connect host port, ToClient (proxy_error 502 ''Bad Gateway''), CloseClient]
                  else Some [Connect host port, ToClient (''HTTP/1.1 200 Connection Established'' @ CRLF @ CRLF),
                             Tunnel, CloseUpstream, CloseClient]))"

text \<open>
  One connection: the events and the statistics before and after the handler ran. The tunnel adds
  its byte counts in between.
\<close>

definition proxy_handle_client ::
  "(string \<Rightarrow> nat \<Rightarrow> int) \<Rightarrow> (proxy_stats \<Rightarrow> proxy_stats) \<Rightarrow> bytes option \<Rightarrow> proxy_stats \<Rightarrow>
   (proxy_event list \<times> proxy_stats) option" where
  "proxy_handle_client connect tunnel_stats received st =
     (case received of None \<Rightarrow> Some ([CloseClient], st)
      | Some raw \<Rightarrow>
          if raw = [] then Some ([CloseClient], st)
          else
            let request = cstr raw;
                st1 = st\<lparr>total_connections := total_connections st + 1, active_connections := active_connections st + 1\<rparr>;
                handled = (case scan_s 15 request of
                   Some (method, _) \<Rightarrow>
                     if method = ''CONNECT'' then handle_connect connect request else handle_http_proxy connect request
                 | None \<Rightarrow> Some [])
            in case handled of None \<Rightarrow> None
               | Some es \<Rightarrow>
                   let st2 = (if Tunnel \<in> set es then tunnel_stats st1 else st1)
                   in Some (es, st2\<lparr>active_connections := active_connections st2 - 1\<rparr>))"

subsection \<open>The server\<close>

record proxy_server =
  px_max_connections :: int
  px_running :: bool
  px_queue :: "int list"
  px_head :: nat
  px_tail :: nat
  px_size :: nat
  px_stats :: proxy_stats
  px_log_file :: "path option"

definition zero_stats :: proxy_stats where
  "zero_stats = \<lparr>total_connections = 0, active_connections = 0, bytes_sent = 0, bytes_received = 0,
     cache_hits = 0, cache_misses = 0, proxy_errors = 0\<rparr>"

text \<open>The outcomes of \<open>malloc\<close>, \<open>socket\<close>, \<open>bind\<close> and the two queue allocations, in order.\<close>

definition proxy_create :: "bool list \<Rightarrow> (path \<Rightarrow> fmode \<Rightarrow> bool) \<Rightarrow> int \<Rightarrow> bool \<Rightarrow> path option \<Rightarrow> proxy_server option" where
  "proxy_create oks can max_conn enable_logging log =
     (if False \<in> set (take 5 oks) then None
      else Some \<lparr>px_max_connections = max_conn, px_running = False, px_queue = replicate (nat max_conn) 0,
                 px_head = 0, px_tail = 0, px_size = 0, px_stats = zero_stats,
                 px_log_file = (case log of None \<Rightarrow> None
                    | Some p \<Rightarrow> if enable_logging \<and> can p ModeA then Some p else None)\<rparr>)"

definition proxy_enqueue :: "proxy_server \<Rightarrow> int \<Rightarrow> proxy_server option" where
  "proxy_enqueue s fd =
     (if int (px_size s) < px_max_connections s
      then Some (s\<lparr>px_queue := (px_queue s)[px_tail s := fd],
                   px_tail := (px_tail s + 1) mod nat (px_max_connections s), px_size := px_size s + 1\<rparr>)
      else None)"

definition proxy_accept :: "proxy_server \<Rightarrow> int \<Rightarrow> proxy_server \<times> proxy_event list" where
  "proxy_accept s fd =
     (case proxy_enqueue s fd of Some s' \<Rightarrow> (s', [])
      | None \<Rightarrow> (s, [ToClient (proxy_error 503 ''Service Unavailable''), CloseClient]))"

definition proxy_dequeue :: "proxy_server \<Rightarrow> (int \<times> proxy_server) option" where
  "proxy_dequeue s =
     (if px_size s > 0
      then Some (px_queue s ! px_head s,
                 s\<lparr>px_head := (px_head s + 1) mod nat (px_max_connections s), px_size := px_size s - 1\<rparr>)
      else None)"

text \<open>
  A worker thread until it waits or leaves its loop: the connections it hands to \<open>handle_client\<close>, in order, when no
  other thread changes the queue meanwhile.
\<close>

function worker_run :: "proxy_server \<Rightarrow> int list \<times> proxy_server" where
  "worker_run s =
     (if \<not> px_running s then ([], s)
      else case proxy_dequeue s of
        None \<Rightarrow> ([], s)
      | Some (client_fd, s') \<Rightarrow>
          (case worker_run s' of (fds, s'') \<Rightarrow> (if 0 \<le> client_fd then client_fd # fds else fds, s'')))"
  by pat_completeness auto
termination by (relation "measure px_size") (auto simp: proxy_dequeue_def split: if_splits)

declare worker_run.simps [simp del]

definition proxy_stop :: "proxy_server option \<Rightarrow> proxy_server option" where
  "proxy_stop so = map_option (\<lambda>s. s\<lparr>px_running := False\<rparr>) so"

definition proxy_get_stats :: "proxy_server option \<Rightarrow> proxy_stats option \<Rightarrow> int \<times> proxy_stats option" where
  "proxy_get_stats so out =
     (case (so, out) of (Some s, Some _) \<Rightarrow> (0, Some (px_stats s)) | _ \<Rightarrow> (-1, out))"

subsection \<open>The connection queue\<close>

definition pq_inv :: "proxy_server \<Rightarrow> bool" where
  "pq_inv s \<longleftrightarrow> ring_wf (px_queue s) (nat (px_max_connections s)) (px_head s) (px_tail s) (px_size s)"

definition pq_contents :: "proxy_server \<Rightarrow> int list" where
  "pq_contents s = ring_list (px_queue s) (nat (px_max_connections s)) (px_head s) (px_size s)"

interpretation pq: bounded_queue proxy_enqueue proxy_dequeue pq_contents "\<lambda>s. nat (px_max_connections s)" pq_inv
proof
  fix q q' :: proxy_server and x
  assume inv: "pq_inv q"
  let ?cap = "nat (px_max_connections q)"
  have len: "length (pq_contents q) = px_size q" by (simp add: pq_contents_def)
  show "(proxy_enqueue q x = None) = (?cap \<le> length (pq_contents q))"
    unfolding len by (auto simp: proxy_enqueue_def)
  show "pq_inv q' \<and> pq_contents q' = pq_contents q @ [x] \<and> nat (px_max_connections q') = ?cap"
    if e: "proxy_enqueue q x = Some q'"
  proof -
    have lt: "px_size q < ?cap" and q': "q' = q\<lparr>px_queue := (px_queue q)[px_tail q := x],
        px_tail := (px_tail q + 1) mod ?cap, px_size := px_size q + 1\<rparr>"
      using e by (auto simp: proxy_enqueue_def split: if_splits)
    from ring_push [OF inv [unfolded pq_inv_def] lt, of x] show ?thesis
      by (simp add: pq_inv_def pq_contents_def q')
  qed
  have "pq_contents q = [] \<longleftrightarrow> px_size q = 0" by (metis len length_0_conv)
  then show "(proxy_dequeue q = None) = (pq_contents q = [])" by (auto simp: proxy_dequeue_def)
  show "pq_inv q' \<and> pq_contents q = x # pq_contents q' \<and> nat (px_max_connections q') = ?cap"
    if d: "proxy_dequeue q = Some (x, q')"
  proof -
    have pos: "0 < px_size q" and x: "x = px_queue q ! px_head q"
      and q': "q' = q\<lparr>px_head := (px_head q + 1) mod ?cap, px_size := px_size q - 1\<rparr>"
      using d by (auto simp: proxy_dequeue_def split: if_splits)
    from ring_pop [OF inv [unfolded pq_inv_def] pos] show ?thesis
      by (simp add: pq_inv_def pq_contents_def q' x)
  qed
  show "length (pq_contents q) \<le> ?cap" unfolding len using inv by (simp add: pq_inv_def ring_wf_def)
qed

text \<open>A worker that is left alone serves everything in the queue, in the order of arrival; once the proxy is stopped, nothing.\<close>

lemma worker_serves_queue:
  "pq_inv s \<Longrightarrow> px_running s \<Longrightarrow> fst (worker_run s) = filter (\<lambda>fd. 0 \<le> fd) (pq_contents s) \<and> pq_contents (snd (worker_run s)) = []"
proof (induction s rule: worker_run.induct)
  case (1 s)
  show ?case
  proof (cases "proxy_dequeue s")
    case None
    then have "pq_contents s = []" using pq.deq_empty [OF "1.prems"(1)] by simp
    then show ?thesis using None "1.prems" by (subst (1 2) worker_run.simps) simp
  next
    case (Some a)
    obtain fd s' where d: "proxy_dequeue s = Some (fd, s')" using Some by (cases a) auto
    have i: "pq_inv s'" "pq_contents s = fd # pq_contents s'" using pq.deq_ok [OF "1.prems"(1) d] by auto
    have "px_running s'" using d "1.prems"(2) by (auto simp: proxy_dequeue_def split: if_splits)
    from "1.IH" [OF _ d refl i(1) this] "1.prems"(2) have "fst (worker_run s') = filter (\<lambda>fd. 0 \<le> fd) (pq_contents s')" "pq_contents (snd (worker_run s')) = []"
      by auto
    then show ?thesis using "1.prems"(2) d i(2) by (subst (1 2) worker_run.simps) (cases "worker_run s'", simp)
  qed
qed

lemma worker_stopped: "\<not> px_running s \<Longrightarrow> worker_run s = ([], s)"
  by (subst worker_run.simps) simp

subsection \<open>Properties\<close>

lemma parse_line_tokens:
  assumes "m \<noteq> []" "length m \<le> 15" "\<forall>c \<in> set m. \<not> c_isspace c" and "u \<noteq> []" "length u \<le> 2047" "\<forall>c \<in> set u. \<not> c_isspace c"
    and "v \<noteq> []" "length v \<le> 15" "\<forall>c \<in> set v. \<not> c_isspace c"
    and "c_isspace s1" and "c_isspace s2" and "rest = [] \<or> c_isspace (hd rest)"
    and "ws = [] \<or> ws = [LF]"
  shows "proxy_parse_request_line (m @ s1 # ws @ u @ s2 # v @ rest) = Some (m, u, v)"
proof -
  have a: "scan_s 15 (m @ s1 # ws @ u @ s2 # v @ rest) = Some (m, s1 # ws @ u @ s2 # v @ rest)"
    using assms(1-3,10) by (intro scan_s_token) auto
  have lf: "c_isspace LF" by (simp add: c_isspace_def)
  have "scan_s 2047 (u @ s2 # v @ rest) = Some (u, s2 # v @ rest)"
    using assms(4-6,11) by (intro scan_s_token) auto
  then have b: "scan_s 2047 (s1 # ws @ u @ s2 # v @ rest) = Some (u, s2 # v @ rest)"
    using assms(10,13) lf by (auto simp: scan_s_skip)
  have "scan_s 15 (v @ rest) = Some (v, rest)" using assms(7-9,12) by (intro scan_s_token) auto
  then have c: "scan_s 15 (s2 # v @ rest) = Some (v, rest)" using assms(11) by (simp add: scan_s_skip)
  show ?thesis by (simp add: proxy_parse_request_line_def a b c)
qed

lemma parse_url_path_short:
  assumes "proxy_parse_url url = Some (host, port, path)" and "url \<noteq> []"
  shows "length path \<le> length url \<and> length path \<le> 1023"
proof -
  have sk: "length (skip_scheme url) \<le> length url" by (simp add: skip_scheme_def)
  have one: "1 \<le> length url" using assms(2) by (cases url) auto
  show ?thesis using assms(1) sk one
    by (auto simp: proxy_parse_url_def Let_def proxy_limits split: if_splits)
qed

text \<open>
  URL parsing reads back host, port and path of an absolute URL, for every port number and any
  host and path within the buffer limits.
\<close>

lemma parse_url_roundtrip:
  assumes "CHR '':'' \<notin> set host" and "CHR ''/'' \<notin> set host" and "length host < 256" and "port < 65536"
    and "length path < 1023"
  shows "proxy_parse_url (''http://'' @ host @ '':'' @ dec_nat port @ ''/'' @ path) = Some (host, port, ''/'' @ path)"
proof -
  have dp: "c \<noteq> CHR ''/''" if "c \<in> set (dec_nat port)" for c
    using that dec_nat_digits [of port] digit_char_plain(4) by blast
  have h: "takeWhile (\<lambda>c. c \<noteq> CHR '':'' \<and> c \<noteq> CHR ''/'') (host @ '':'' @ dec_nat port @ ''/'' @ path) = host"
    using assms(1,2) by (subst takeWhile_append2) auto
  have p: "takeWhile (\<lambda>c. c \<noteq> CHR ''/'') (dec_nat port @ ''/'' @ path) = dec_nat port"
    using dp by (subst takeWhile_append2) auto
  have a: "to_uint16 (atoi (dec_nat port)) = port" using assms(4) by (simp add: atoi_dec_nat to_uint16_def)
  have l: "length (dec_nat port) < 16" using dec_nat_length [of port 5] assms(4) by simp
  have sk: "skip_scheme (''http://'' @ x) = x" for x by (simp add: skip_scheme_def)
  show ?thesis unfolding proxy_parse_url_def Let_def sk h using assms(3,5) a l p by (simp add: proxy_limits)
qed

lemma parse_url_roundtrip_witness:
  "proxy_parse_url (''http://'' @ ''h'' @ '':'' @ dec_nat 8080 @ ''/'' @ ''x'') = Some (''h'', 8080, ''/'' @ ''x'')"
  by (rule parse_url_roundtrip) simp_all

text \<open>
  A request whose first line holds method, URL and version separated by single blanks is
  forwarded with the host removed from the line and everything after the line unchanged, and the
  rewritten request fits its buffer for every request that fits the receive buffer.
\<close>

lemma http_request_forwarded:
  assumes "m \<noteq> []" "length m \<le> 15" "\<forall>c \<in> set m. \<not> c_isspace c" and "u \<noteq> []" "length u \<le> 2047" "\<forall>c \<in> set u. \<not> c_isspace c"
    and "v \<noteq> []" "length v \<le> 15" "\<forall>c \<in> set v. \<not> c_isspace c"
    and "proxy_parse_url u = Some (host, port, path)" and "0 \<le> connect host port"
    and "length (m @ '' '' @ u @ '' '' @ v @ CRLF @ rest) < MAX_REQUEST_SIZE"
  shows "handle_http_proxy connect (m @ '' '' @ u @ '' '' @ v @ CRLF @ rest) =
    Some [Connect host port, ToUpstream (m @ '' '' @ path @ '' '' @ v @ CRLF @ rest), Tunnel, CloseUpstream, CloseClient]"
proof -
  have sp: "c_isspace (CHR '' '')" "c_isspace CR" by (simp_all add: c_isspace_def)
  have nocr: "CR \<notin> set x" if "\<forall>c \<in> set x. \<not> c_isspace c" for x using that sp(2) by blast
  have line: "proxy_parse_request_line (m @ '' '' @ u @ '' '' @ v @ CRLF @ rest) = Some (m, u, v)"
    using parse_line_tokens [OF assms(1-9) sp(1) sp(1), of "CRLF @ rest" "[]"] sp(2) by simp
  have cr: "CR \<notin> set (m @ '' '' @ u @ '' '' @ v)" using nocr assms(3,6,9) by auto
  have s: "strstr ((m @ '' '' @ u @ '' '' @ v) @ CRLF @ rest) CRLF = Some (length (m @ '' '' @ u @ '' '' @ v))"
    by (rule strstr_crlf [OF cr])
  have eq: "m @ '' '' @ u @ '' '' @ v @ CRLF @ rest = (m @ '' '' @ u @ '' '' @ v) @ CRLF @ rest" by simp
  have dr: "drop (length (m @ '' '' @ u @ '' '' @ v) + 2) ((m @ '' '' @ u @ '' '' @ v) @ CRLF @ rest) = rest"
    by (rule drop_crlf)
  note pl = parse_url_path_short [OF assms(10,4)]
  have tk: "take (MAX_REQUEST_SIZE - 1) (m @ '' '' @ path @ '' '' @ v @ CRLF) = m @ '' '' @ path @ '' '' @ v @ CRLF"
    using pl assms(2,8) by (intro take_all) (simp add: proxy_limits)
  have "rewrite_request (m @ '' '' @ u @ '' '' @ v @ CRLF @ rest) m path v = Some (m @ '' '' @ path @ '' '' @ v @ CRLF @ rest)"
    unfolding rewrite_request_def Let_def eq s option.case dr tk using pl assms(12) by simp
  then show ?thesis using assms(10,11) by (simp add: handle_http_proxy_def line [simplified])
qed

lemma http_request_forwarded_witness:
  "handle_http_proxy (\<lambda>_ _. 5) (''GET'' @ '' '' @ ''http://h/x'' @ '' '' @ ''HTTP/1.1'' @ CRLF @ ''Host: h'' @ CRLF @ CRLF) =
   Some [Connect ''h'' 80, ToUpstream (''GET'' @ '' '' @ ''/x'' @ '' '' @ ''HTTP/1.1'' @ CRLF @ ''Host: h'' @ CRLF @ CRLF), Tunnel, CloseUpstream, CloseClient]"
  by (rule http_request_forwarded)
    (simp_all add: c_isspace_def proxy_parse_url_def skip_scheme_def proxy_limits Let_def)

text \<open>
  The rewritten request can overrun its 8192-byte buffer: white space between the fields may be a
  line end, then everything after the method is appended again behind the new request line. There is
  a request that fits the receive buffer and makes the copy write past \<open>new_request\<close>.
\<close>

lemma http_request_overruns:
  "\<exists>request. is_cstr request \<and> length request < MAX_REQUEST_SIZE \<and> handle_http_proxy (\<lambda>_ _. 3) request = None"
proof -
  define a where "a = replicate 1000 (CHR ''a'')"
  define b where "b = replicate 7000 (CHR ''b'')"
  let ?u = "''http://h/'' @ a" and ?v = "''HTTP/1.1''"
  let ?req = "''GET'' @ CR # [LF] @ ?u @ CHR '' '' # ?v @ CRLF @ b"
  have sp: "c_isspace (CHR '' '')" "c_isspace CR" by (simp_all add: c_isspace_def)
  have ab: "set a = {CHR ''a''}" "length a = 1000" "length b = 7000" "set b = {CHR ''b''}" by (simp_all add: a_def b_def)
  have line: "proxy_parse_request_line ?req = Some (''GET'', ?u, ?v)"
    using ab by (intro parse_line_tokens) (auto simp: c_isspace_def)
  have path: "proxy_parse_url ?u = Some (''h'', 80, ''/'' @ a)"
    using ab by (simp add: proxy_parse_url_def skip_scheme_def proxy_limits Let_def)
  have "strstr (''GET'' @ CRLF @ ?u @ CHR '' '' # ?v @ CRLF @ b) CRLF = Some (length ''GET'')"
    by (rule strstr_crlf) simp
  then have s: "strstr ?req CRLF = Some 3" by simp
  have "rewrite_request ?req ''GET'' (''/'' @ a) ?v = None"
    using s ab by (simp add: rewrite_request_def proxy_limits Let_def)
  then have "handle_http_proxy (\<lambda>_ _. 3) ?req = None"
    using line path by (simp add: handle_http_proxy_def)
  moreover have "is_cstr ?req" using ab by (simp add: is_cstr_def)
  moreover have "length ?req < MAX_REQUEST_SIZE" using ab by (simp add: proxy_limits)
  ultimately show ?thesis by blast
qed

text \<open>The bytes each side handed over in a round.\<close>

fun side_bytes :: "side \<Rightarrow> bytes" where
  "side_bytes (Data b script) = b" | "side_bytes Quiet = []" | "side_bytes Ended = []"

fun client_bytes :: "tunnel_round \<Rightarrow> bytes" where
  "client_bytes (Readable c u) = side_bytes c" | "client_bytes Interrupted = []"
| "client_bytes SelectFailed = []" | "client_bytes TimedOut = []"

fun upstream_bytes :: "tunnel_round \<Rightarrow> bytes" where
  "upstream_bytes (Readable c u) = side_bytes u" | "upstream_bytes Interrupted = []"
| "upstream_bytes SelectFailed = []" | "upstream_bytes TimedOut = []"

definition forwarded :: "tunnel \<Rightarrow> bytes \<Rightarrow> bytes \<Rightarrow> tunnel" where
  "forwarded t c u = t\<lparr>to_upstream := to_upstream t @ c, to_client := to_client t @ u,
     tn_stats := (tn_stats t)\<lparr>bytes_sent := bytes_sent (tn_stats t) + length c,
                              bytes_received := bytes_received (tn_stats t) + length u\<rparr>\<rparr>"

lemma forwarded_forwarded: "forwarded (forwarded t c u) c' u' = forwarded t (c @ c') (u @ u')"
  by (simp add: forwarded_def)

lemma from_client_Inr: "from_client s t = Inr t1 \<Longrightarrow> t1 = forwarded t (side_bytes s) []"
  by (cases t; cases s) (auto simp: from_client_def forwarded_def Let_def dest: send_all_result split: prod.splits if_splits)

lemma from_upstream_Inr: "from_upstream s t = Inr t1 \<Longrightarrow> t1 = forwarded t [] (side_bytes s)"
  by (cases t; cases s) (auto simp: from_upstream_def forwarded_def Let_def dest: send_all_result split: prod.splits if_splits)

text \<open>
  C13. The tunnel is transparent: as long as it runs, what the upstream server received is exactly
  what the client sent, and conversely, in order, and the byte counters are exact.
\<close>

theorem tunnel_transparent:
  assumes "proxy_tunnel rounds t = (None, t')"
  shows "to_upstream t' = to_upstream t @ concat (map client_bytes rounds) \<and>
    to_client t' = to_client t @ concat (map upstream_bytes rounds) \<and>
    bytes_sent (tn_stats t') = bytes_sent (tn_stats t) + length (concat (map client_bytes rounds)) \<and>
    bytes_received (tn_stats t') = bytes_received (tn_stats t) + length (concat (map upstream_bytes rounds))"
proof -
  have "t' = forwarded t (concat (map client_bytes rounds)) (concat (map upstream_bytes rounds))"
    using assms
  proof (induction rounds t rule: proxy_tunnel.induct)
    case (1 t)
    then show ?case by (simp add: forwarded_def)
  next
    case (5 c u rs t)
    then obtain t1 t2 where t12: "from_client c t = Inr t1" "from_upstream u t1 = Inr t2" "proxy_tunnel rs t2 = (None, t')"
      by (auto split: sum.splits prod.splits)
    have "t2 = forwarded t (side_bytes c) (side_bytes u)"
      using from_client_Inr [OF t12(1)] from_upstream_Inr [OF t12(2)] by (simp add: forwarded_forwarded)
    with 5(1) [OF t12] show ?case by (simp add: forwarded_forwarded)
  qed simp_all
  then show ?thesis by (simp add: forwarded_def)
qed

lemma tunnel_transparent_witness:
  "to_upstream (snd (proxy_tunnel [Readable (Data ''abc'' [2]) Quiet, Readable Quiet (Data ''ok'' [])]
     \<lparr>to_upstream = [], to_client = [], tn_stats = zero_stats\<rparr>)) = ''abc''"
proof -
  let ?rs = "[Readable (Data ''abc'' [2]) Quiet, Readable Quiet (Data ''ok'' [])]"
  let ?t = "\<lparr>to_upstream = [], to_client = [], tn_stats = zero_stats\<rparr>"
  have "fst (proxy_tunnel ?rs ?t) = None" by (simp add: from_client_def from_upstream_def)
  then have "proxy_tunnel ?rs ?t = (None, snd (proxy_tunnel ?rs ?t))" by (metis prod.collapse)
  from tunnel_transparent [OF this] show ?thesis by simp
qed

lemma http_proxy_closes:
  "handle_http_proxy connect rq = Some es \<Longrightarrow> \<exists>fs. es = fs @ [CloseClient] \<and> CloseClient \<notin> set fs"
  by (auto simp: handle_http_proxy_def split: option.splits if_splits)

lemma connect_closes:
  "handle_connect connect rq = Some es \<Longrightarrow> \<exists>fs. es = fs @ [CloseClient] \<and> CloseClient \<notin> set fs"
  by (auto simp: handle_connect_def Let_def split: option.splits if_splits prod.splits)

text \<open>
  One connection is counted once and no longer active when its handler is done. Its socket is
  closed as the last action, exactly once, if the request holds any word at all; a request of white
  space only is left open, answered by nothing.
\<close>

lemma proxy_connection_accounting:
  assumes "proxy_handle_client connect ts (Some raw) st = Some (es, st')" and "raw \<noteq> []"
    and "\<And>s. total_connections (ts s) = total_connections s \<and> active_connections (ts s) = active_connections s"
  shows "total_connections st' = total_connections st + 1 \<and> active_connections st' = active_connections st \<and>
    (if scan_s 15 (cstr raw) = None then es = []
     else \<exists>fs. es = fs @ [CloseClient] \<and> CloseClient \<notin> set fs)"
proof (cases "scan_s 15 (cstr raw)")
  case None
  then show ?thesis using assms(1,2) by (auto simp: proxy_handle_client_def Let_def)
next
  case (Some mr)
  obtain meth r where mr: "mr = (meth, r)" by (cases mr)
  let ?h = "if meth = ''CONNECT'' then handle_connect connect (cstr raw) else handle_http_proxy connect (cstr raw)"
  from assms(1,2) Some mr have h: "?h = Some es"
    and st: "total_connections st' = total_connections st + 1" "active_connections st' = active_connections st"
    using assms(3) by (auto simp: proxy_handle_client_def Let_def split: option.splits if_splits)
  from h have "\<exists>fs. es = fs @ [CloseClient] \<and> CloseClient \<notin> set fs"
    using http_proxy_closes connect_closes by (auto split: if_splits)
  with st Some show ?thesis by simp
qed

lemma proxy_connection_accounting_witness:
  "proxy_handle_client (\<lambda>_ _. -1) id (Some '' '') zero_stats = Some ([], zero_stats\<lparr>total_connections := 1\<rparr>) \<and>
   total_connections (zero_stats\<lparr>total_connections := 1\<rparr>) = total_connections zero_stats + 1"
proof -
  have r: "proxy_handle_client (\<lambda>_ _. -1) id (Some '' '') zero_stats = Some ([], zero_stats\<lparr>total_connections := 1\<rparr>)"
    by (simp add: proxy_handle_client_def scan_s_def c_isspace_def zero_stats_def cstr_def)
  show ?thesis using r proxy_connection_accounting [OF r] by simp
qed

text \<open>
  A \<open>CONNECT\<close> request for a host name of 255 or more characters makes the proxy read
  \<open>host\<close> without a terminator; shorter names reach the resolver intact, with port 443 by default.
\<close>

lemma connect_long_host:
  assumes "CHR '':'' \<notin> set name" and "name \<noteq> []" and "\<forall>c \<in> set name. \<not> c_isspace c" and "length name \<le> 2047"
  shows "handle_connect connect (''CONNECT'' @ '' '' @ name @ '' '' @ ''HTTP/1.1'' @ CRLF) =
    (if 255 \<le> length name then None
     else if connect name 443 < 0 then Some [Connect name 443, ToClient (proxy_error 502 ''Bad Gateway''), CloseClient]
     else Some [Connect name 443, ToClient (''HTTP/1.1 200 Connection Established'' @ CRLF @ CRLF), Tunnel, CloseUpstream, CloseClient])"
proof -
  have "proxy_parse_request_line (''CONNECT'' @ CHR '' '' # [] @ name @ CHR '' '' # ''HTTP/1.1'' @ CRLF) = Some (''CONNECT'', name, ''HTTP/1.1'')"
    using assms by (intro parse_line_tokens) (simp_all add: c_isspace_def)
  then have line: "proxy_parse_request_line (''CONNECT'' @ '' '' @ name @ '' '' @ ''HTTP/1.1'' @ CRLF) = Some (''CONNECT'', name, ''HTTP/1.1'')"
    by simp
  have "strchr name (CHR '':'') = None" using assms(1) by (simp add: strchr_None)
  then show ?thesis unfolding handle_connect_def line by (simp add: connect_host_def proxy_limits)
qed

lemma connect_long_host_witness:
  "handle_connect (\<lambda>_ _. 3) (''CONNECT'' @ '' '' @ replicate 300 (CHR ''h'') @ '' '' @ ''HTTP/1.1'' @ CRLF) = None"
  by (subst connect_long_host) (simp_all add: c_isspace_def)

end
