(* ===== verification/Fs_Protocol.thy ===== *)
theory Fs_Protocol
  imports C_Stdio
begin

text \<open>
  The wire protocol of the file server (\<open>linux-file-server/src/protocol.c\<close>, \<open>include/common.h\<close>): the
  packed headers as byte strings, the loops that send and receive whole buffers on a connection whose
  calls may transfer any part of them, and the additive checksum. The connection and the calls on it
  are shared by the server and the client.
\<close>

subsection \<open>Codes\<close>

definition SUCCESS :: int where "SUCCESS = 0"
definition ERR_SOCKET :: int where "ERR_SOCKET = -1"
definition ERR_CONNECT :: int where "ERR_CONNECT = -5"
definition ERR_SEND :: int where "ERR_SEND = -6"
definition ERR_RECV :: int where "ERR_RECV = -7"
definition ERR_FILE_OPEN :: int where "ERR_FILE_OPEN = -8"
definition ERR_FILE_WRITE :: int where "ERR_FILE_WRITE = -10"
definition ERR_MEMORY :: int where "ERR_MEMORY = -12"
definition ERR_PROTOCOL :: int where "ERR_PROTOCOL = -14"

lemmas error_codes = SUCCESS_def ERR_SOCKET_def ERR_CONNECT_def ERR_SEND_def ERR_RECV_def
  ERR_FILE_OPEN_def ERR_FILE_WRITE_def ERR_MEMORY_def ERR_PROTOCOL_def

text \<open>
  The commands and the states of a response travel as 32-bit integers. The numbers the server and the
  client use are those of the enumerations.
\<close>

datatype cmd_type = CMD_LIST | CMD_UPLOAD | CMD_DOWNLOAD | CMD_DELETE | CMD_QUIT | CMD_AUTH | CMD_MKDIR
  | CMD_RMDIR | CMD_PWD | CMD_CD | CMD_RESUME | CMD_HEARTBEAT | CMD_HASH | CMD_WEB

fun cmd_code :: "cmd_type \<Rightarrow> 32 word" where
  "cmd_code CMD_LIST = 1"
| "cmd_code CMD_UPLOAD = 2"
| "cmd_code CMD_DOWNLOAD = 3"
| "cmd_code CMD_DELETE = 4"
| "cmd_code CMD_QUIT = 5"
| "cmd_code CMD_AUTH = 6"
| "cmd_code CMD_MKDIR = 7"
| "cmd_code CMD_RMDIR = 8"
| "cmd_code CMD_PWD = 9"
| "cmd_code CMD_CD = 10"
| "cmd_code CMD_RESUME = 11"
| "cmd_code CMD_HEARTBEAT = 12"
| "cmd_code CMD_HASH = 13"
| "cmd_code CMD_WEB = 14"

datatype status_code = STATUS_OK | STATUS_ERROR | STATUS_NOT_FOUND | STATUS_DENIED | STATUS_PARTIAL
  | STATUS_AUTH_REQUIRED

fun status_val :: "status_code \<Rightarrow> 32 word" where
  "status_val STATUS_OK = 0"
| "status_val STATUS_ERROR = 1"
| "status_val STATUS_NOT_FOUND = 2"
| "status_val STATUS_DENIED = 3"
| "status_val STATUS_PARTIAL = 4"
| "status_val STATUS_AUTH_REQUIRED = 5"

lemma status_val_inject [simp]: "status_val a = status_val b \<longleftrightarrow> a = b"
  by (cases a; cases b) simp_all

definition PROTOCOL_MAGIC :: "32 word" where "PROTOCOL_MAGIC = 0x46535256"

subsection \<open>Headers\<close>

record protocol_header =
  h_magic :: "32 word"
  h_cmd :: "32 word"
  h_data_len :: "32 word"
  h_checksum :: "32 word"
  h_offset :: "64 word"
  h_filename :: bytes

record response_header =
  r_status :: "32 word"
  r_data_len :: "32 word"
  r_message :: bytes

definition NAME_SIZE :: nat where [c_limits]: "NAME_SIZE = 256"
definition HEADER_SIZE :: nat where [c_limits]: "HEADER_SIZE = 280"
definition RESPONSE_SIZE :: nat where [c_limits]: "RESPONSE_SIZE = 264"

text \<open>The little-endian bytes of an integer, least significant first.\<close>

primrec le_enc :: "nat \<Rightarrow> nat \<Rightarrow> bytes" where
  "le_enc 0 v = []"
| "le_enc (Suc k) v = char_of (v mod 256) # le_enc k (v div 256)"

lemma length_le_enc [simp]: "length (le_enc k v) = k"
  by (induction k arbitrary: v) simp_all

lemma le32_val_Cons: "le32_val (c # b) = of_char c + 256 * le32_val b"
  by (simp add: le32_val_def)

lemma le_enc_val: "le32_val (le_enc k v) = v mod 256 ^ k"
proof (induction k arbitrary: v)
  case 0
  then show ?case by (simp add: le32_val_def)
next
  case (Suc k)
  then show ?case by (simp add: le32_val_Cons mod_mult2_eq)
qed

lemma le_val_less: "le32_val b < 256 ^ length b"
proof (induction b)
  case Nil
  then show ?case by (simp add: le32_val_def)
next
  case (Cons c b)
  have "(of_char c :: nat) < 256" using nat_of_char_less_256 [of c] by simp
  moreover have "256 * le32_val b + 256 \<le> 256 * 256 ^ length b"
    using Cons by (metis Suc_leI mult_Suc_right mult_le_mono2 add.commute)
  ultimately have "of_char c + 256 * le32_val b < 256 * 256 ^ length b" by linarith
  then show ?case by (simp add: le32_val_Cons)
qed

lemma le_val_enc: "length b = k \<Longrightarrow> le_enc k (le32_val b) = b"
proof (induction b arbitrary: k)
  case Nil
  then show ?case by simp
next
  case (Cons c b)
  have c: "(of_char c :: nat) < 256" using nat_of_char_less_256 [of c] by simp
  then have "char_of ((of_char c + 256 * le32_val b) mod 256) = c" by simp
  moreover have "(of_char c + 256 * le32_val b) div 256 = le32_val b" using c by simp
  ultimately show ?case using Cons by (auto simp: le32_val_Cons)
qed

lemma word_le_roundtrip:
  fixes w :: "'a::len word"
  assumes "256 ^ k = (2 :: nat) ^ LENGTH('a)"
  shows "word_of_nat (le32_val (le_enc k (unat w))) = w"
  using assms unsigned_less [of w] by (simp add: le_enc_val)

lemma le_word_roundtrip:
  assumes "length b = k" and "256 ^ k = (2 :: nat) ^ LENGTH('a::len)"
  shows "le_enc k (unat (word_of_nat (le32_val b) :: 'a word)) = b"
proof -
  have "le32_val b < 2 ^ LENGTH('a)" using le_val_less [of b] assms by simp
  then have "unat (word_of_nat (le32_val b) :: 'a word) = le32_val b" by (simp add: unat_of_nat)
  then show ?thesis using le_val_enc [OF assms(1)] by simp
qed

definition u32 :: "32 word \<Rightarrow> bytes" where "u32 w = le_enc 4 (unat w)"
definition u64 :: "64 word \<Rightarrow> bytes" where "u64 w = le_enc 8 (unat w)"
definition get_u32 :: "bytes \<Rightarrow> 32 word" where "get_u32 b = word_of_nat (le32_val b)"
definition get_u64 :: "bytes \<Rightarrow> 64 word" where "get_u64 b = word_of_nat (le32_val b)"

lemma u32_facts [simp]: "length (u32 w) = 4" "get_u32 (u32 w) = w" "length b = 4 \<Longrightarrow> u32 (get_u32 b) = b"
  by (simp_all add: u32_def get_u32_def word_le_roundtrip le_word_roundtrip)

lemma u64_facts [simp]: "length (u64 w) = 8" "get_u64 (u64 w) = w" "length b = 8 \<Longrightarrow> u64 (get_u64 b) = b"
  by (simp_all add: u64_def get_u64_def word_le_roundtrip le_word_roundtrip)

text \<open>The bytes of the packed structures, in the order of their fields.\<close>

definition encode_header :: "protocol_header \<Rightarrow> bytes" where
  "encode_header h = u32 (h_magic h) @ u32 (h_cmd h) @ u32 (h_data_len h) @ u32 (h_checksum h)
     @ u64 (h_offset h) @ h_filename h"

definition decode_header :: "bytes \<Rightarrow> protocol_header" where
  "decode_header b = \<lparr>h_magic = get_u32 (take 4 b), h_cmd = get_u32 (take 4 (drop 4 b)),
     h_data_len = get_u32 (take 4 (drop 8 b)), h_checksum = get_u32 (take 4 (drop 12 b)),
     h_offset = get_u64 (take 8 (drop 16 b)), h_filename = drop 24 b\<rparr>"

definition encode_response :: "response_header \<Rightarrow> bytes" where
  "encode_response r = u32 (r_status r) @ u32 (r_data_len r) @ r_message r"

definition decode_response :: "bytes \<Rightarrow> response_header" where
  "decode_response b = \<lparr>r_status = get_u32 (take 4 b), r_data_len = get_u32 (take 4 (drop 4 b)),
     r_message = drop 8 b\<rparr>"

lemma decode_encode_header [simp]: "decode_header (encode_header h) = h"
  by (simp add: decode_header_def encode_header_def)

lemma decode_encode_response [simp]: "decode_response (encode_response r) = r"
  by (simp add: decode_response_def encode_response_def)

lemma length_encode_header [simp]:
  "length (h_filename h) = NAME_SIZE \<Longrightarrow> length (encode_header h) = HEADER_SIZE"
  by (simp add: encode_header_def c_limits)

lemma length_encode_response [simp]:
  "length (r_message r) = NAME_SIZE \<Longrightarrow> length (encode_response r) = RESPONSE_SIZE"
  by (simp add: encode_response_def c_limits)

lemma take_drop_split: "take n (drop m b) @ drop (m + n) b = drop m b"
  by (metis add.commute append_take_drop_id drop_drop)

lemma encode_decode_header: "length b = HEADER_SIZE \<Longrightarrow> encode_header (decode_header b) = b"
proof -
  assume b: "length b = HEADER_SIZE"
  have "encode_header (decode_header b) =
      take 4 b @ take 4 (drop 4 b) @ take 4 (drop 8 b) @ take 4 (drop 12 b) @ take 8 (drop 16 b) @ drop 24 b"
    using b by (simp add: encode_header_def decode_header_def c_limits)
  also have "\<dots> = b"
    using take_drop_split [of 8 16 b] take_drop_split [of 4 12 b] take_drop_split [of 4 8 b]
      take_drop_split [of 4 4 b] by simp
  finally show ?thesis .
qed

lemma encode_decode_response: "length b = RESPONSE_SIZE \<Longrightarrow> encode_response (decode_response b) = b"
  using take_drop_split [of 4 4 b] by (simp add: encode_response_def decode_response_def c_limits)

text \<open>
  A character array filled by \<open>memset\<close> and \<open>strncpy(a, s, sizeof(a) - 1)\<close>, and the C string an array
  holds: reading an array with no \<open>NUL\<close> runs past its end.
\<close>

definition char_array :: "nat \<Rightarrow> string \<Rightarrow> bytes" where
  "char_array n s = take (n - 1) s @ replicate (n - min (n - 1) (length s)) NUL"

definition array_str :: "bytes \<Rightarrow> string option" where
  "array_str b = (if NUL \<in> set b then Some (cstr b) else None)"

lemma length_char_array [simp]: "length (char_array n s) = n"
  by (simp add: char_array_def)

lemma array_str_char_array: "0 < n \<Longrightarrow> is_cstr s \<Longrightarrow> array_str (char_array n s) = Some (take (n - 1) s)"
proof -
  assume n: "0 < n" and s: "is_cstr s"
  then have k: "0 < n - min (n - 1) (length s)" by simp
  then have m: "NUL \<in> set (char_array n s)" unfolding char_array_def by (metis UnCI set_append set_replicate insertI1 less_irrefl_nat)
  have "cstr (char_array n s) = take (n - 1) s @ cstr (replicate (n - min (n - 1) (length s)) NUL)"
    using s by (simp add: char_array_def cstr_append)
  also have "cstr (replicate (n - min (n - 1) (length s)) NUL) = []"
    using k by (cases "n - min (n - 1) (length s)") (simp_all add: cstr_def)
  finally show ?thesis using m by (simp add: array_str_def)
qed

lemma array_str_fits: "length s < n \<Longrightarrow> is_cstr s \<Longrightarrow> array_str (char_array n s) = Some s"
  by (subst array_str_char_array) auto

subsection \<open>Connections\<close>

text \<open>
  One end of a connection: the bytes that will arrive before the peer stops sending, what \<open>recv\<close> and
  \<open>send\<close> let through call by call, and the bytes sent so far. A positive entry of a script bounds the
  bytes of one call, any other makes it fail; past the end of a script a call transfers all it can.
\<close>

record conn =
  inp :: bytes
  rscript :: "int list"
  sscript :: "int list"
  outp :: bytes

definition sock_recv :: "nat \<Rightarrow> conn \<Rightarrow> bytes \<times> conn" where
  "sock_recv n s = (case rscript s of
     [] \<Rightarrow> (take n (inp s), s\<lparr>inp := drop n (inp s)\<rparr>)
   | r # rs \<Rightarrow> if r \<le> 0 then ([], s\<lparr>rscript := rs\<rparr>)
       else (take (min n (nat r)) (inp s), s\<lparr>inp := drop (min n (nat r)) (inp s), rscript := rs\<rparr>))"

definition sock_send :: "bytes \<Rightarrow> conn \<Rightarrow> int \<times> conn" where
  "sock_send b s = (case sscript s of
     [] \<Rightarrow> (int (length b), s\<lparr>outp := outp s @ b\<rparr>)
   | r # rs \<Rightarrow> if r < 0 then (-1, s\<lparr>sscript := rs\<rparr>)
       else (int (min (nat r) (length b)), s\<lparr>sscript := rs, outp := outp s @ take (nat r) b\<rparr>))"

lemma sock_recv_inp: "sock_recv n s = (b, s') \<Longrightarrow> inp s = b @ inp s' \<and> length b \<le> n"
  by (auto simp: sock_recv_def split: list.splits if_splits)

lemma sock_recv_frame: "sock_recv n s = (b, s') \<Longrightarrow> outp s' = outp s \<and> sscript s' = sscript s"
  by (auto simp: sock_recv_def split: list.splits if_splits)

lemma sock_send_frame:
  "sock_send b s = (r, s') \<Longrightarrow> inp s' = inp s \<and> rscript s' = rscript s \<and> (\<exists>d e. outp s' = outp s @ d \<and> b = d @ e)"
  by (auto simp: sock_send_def split: list.splits if_splits) (metis append_take_drop_id)+

text \<open>\<open>recv_all\<close>: the whole buffer, or failure when a call does not deliver.\<close>

function recv_all :: "nat \<Rightarrow> conn \<Rightarrow> bytes option \<times> conn" where
  "recv_all n s =
     (if n = 0 then (Some [], s)
      else case sock_recv n s of (b, s') \<Rightarrow>
        if b = [] then (None, s')
        else case recv_all (n - length b) s' of (r, s'') \<Rightarrow> (map_option (\<lambda>t. b @ t) r, s''))"
  by pat_completeness auto
termination by (relation "measure fst") auto

declare recv_all.simps [simp del]

text \<open>\<open>send_all\<close>: the code is 0 when every byte was taken and -1 when a call failed or took none.\<close>

function conn_send_all :: "bytes \<Rightarrow> conn \<Rightarrow> int \<times> conn" where
  "conn_send_all b s =
     (if b = [] then (0, s)
      else case sock_send b s of (n, s') \<Rightarrow>
        if n \<le> 0 then (-1, s') else conn_send_all (drop (nat n) b) s')"
  by pat_completeness auto
termination by (relation "measure (\<lambda>(b, s). length b)") auto

declare conn_send_all.simps [simp del]

lemma recv_all_zero [simp]: "recv_all 0 s = (Some [], s)"
  by (simp add: recv_all.simps)

lemma recv_all_inp:
  "recv_all n s = (r, s') \<Longrightarrow> outp s' = outp s \<and> sscript s' = sscript s \<and>
     (\<exists>b. inp s = b @ inp s' \<and> (case r of None \<Rightarrow> length b < n | Some d \<Rightarrow> d = b \<and> length b = n))"
proof (induction n s arbitrary: r s' rule: recv_all.induct)
  case (1 n s)
  show ?case
  proof (cases "n = 0")
    case True
    then show ?thesis using 1(2) by auto
  next
    case False
    obtain b s1 where b: "sock_recv n s = (b, s1)" by fastforce
    note r = sock_recv_inp [OF b] sock_recv_frame [OF b]
    show ?thesis
    proof (cases "b = []")
      case True
      then show ?thesis using 1(2) False b r by (auto simp: recv_all.simps [of n s])
    next
      case bn: False
      obtain t s2 where t: "recv_all (n - length b) s1 = (t, s2)" by fastforce
      then have eq: "r = map_option (\<lambda>t. b @ t) t" "s' = s2"
        using 1(2) False b bn by (auto simp: recv_all.simps [of n s])
      show ?thesis using 1(1) [OF False b [symmetric] bn t] r eq by (cases t) auto
    qed
  qed
qed

lemma recv_all_Some:
  assumes "recv_all n s = (Some d, s')"
  shows "inp s = d @ inp s'" and "length d = n" and "outp s' = outp s" and "sscript s' = sscript s"
  using recv_all_inp [OF assms] by auto

text \<open>
  A connection whose reads all deliver something and whose writes take at least \<open>w\<close> bytes, if so many are
  given: it hands over any buffer that has arrived, and a buffer of at most \<open>w\<close> bytes goes out in one call.
\<close>

definition live_conn :: "nat \<Rightarrow> conn \<Rightarrow> bool" where
  "live_conn w s \<longleftrightarrow> 0 < w \<and> (\<forall>r \<in> set (rscript s). 0 < r) \<and> (\<forall>r \<in> set (sscript s). int w \<le> r)"

lemma sock_recv_live:
  assumes "live_conn w s" and "0 < n" and "inp s \<noteq> []" and "sock_recv n s = (b, s')"
  shows "b \<noteq> [] \<and> live_conn w s'"
  using assms by (auto simp: sock_recv_def live_conn_def split: list.splits if_splits)

lemma recv_all_live:
  "live_conn w s \<Longrightarrow> inp s = d @ e \<Longrightarrow> length d = n \<Longrightarrow>
   \<exists>s'. recv_all n s = (Some d, s') \<and> inp s' = e \<and> outp s' = outp s \<and> live_conn w s'"
proof (induction n s arbitrary: d rule: recv_all.induct)
  case (1 n s)
  show ?case
  proof (cases "n = 0")
    case True
    then show ?thesis using 1 by simp
  next
    case False
    obtain b s1 where b: "sock_recv n s = (b, s1)" by fastforce
    note r = sock_recv_inp [OF b] sock_recv_frame [OF b]
    have ne: "inp s \<noteq> []" using 1(3,4) False by auto
    have lv: "b \<noteq> [] \<and> live_conn w s1" by (rule sock_recv_live [OF 1(2) _ ne b]) (use False in simp)
    have db: "d = b @ drop (length b) d" and i1: "inp s1 = drop (length b) d @ e"
      using r 1(3,4) by (auto simp: append_eq_append_conv_if append_eq_conv_conj split: if_splits)
    have "length (drop (length b) d) = n - length b" using 1(4) by simp
    from 1(1) [OF False b [symmetric] conjunct1 [OF lv] conjunct2 [OF lv] i1 this]
    obtain s' where "recv_all (n - length b) s1 = (Some (drop (length b) d), s')" "inp s' = e"
      "outp s' = outp s1" "live_conn w s'" by blast
    then show ?thesis using False b lv r db by (simp add: recv_all.simps [of n s])
  qed
qed

lemma recv_all_short: "length (inp s) < n \<Longrightarrow> fst (recv_all n s) = None"
proof -
  assume l: "length (inp s) < n"
  obtain r s' where r: "recv_all n s = (r, s')" by fastforce
  have "r \<noteq> Some d" for d using recv_all_Some [of n s d s'] r l by auto
  then show ?thesis using r by (cases r) auto
qed

lemma conn_send_all_frame:
  "conn_send_all b s = (r, s') \<Longrightarrow> inp s' = inp s \<and> rscript s' = rscript s \<and>
     (\<exists>d e. outp s' = outp s @ d \<and> b = d @ e \<and> (r = 0 \<longrightarrow> e = [])) \<and> (r = 0 \<or> r = -1)"
proof (induction b s arbitrary: r s' rule: conn_send_all.induct)
  case (1 b s)
  show ?case
  proof (cases "b = []")
    case True
    then show ?thesis using 1(2) by (auto simp: conn_send_all.simps)
  next
    case False
    obtain n s1 where n: "sock_send b s = (n, s1)" by fastforce
    note f = sock_send_frame [OF n]
    show ?thesis
    proof (cases "n \<le> 0")
      case True
      then show ?thesis using 1(2) False n f by (auto simp: conn_send_all.simps [of b s])
    next
      case pos: False
      have st: "outp s1 = outp s @ take (nat n) b"
        using n pos by (auto simp: sock_send_def min_def split: list.splits if_splits)
      have "conn_send_all (drop (nat n) b) s1 = (r, s')"
        using 1(2) False n pos by (simp add: conn_send_all.simps [of b s])
      from 1(1) [OF False n [symmetric] pos this]
      obtain d e where "inp s' = inp s1" "rscript s' = rscript s1" "outp s' = outp s1 @ d"
        "drop (nat n) b = d @ e" "r = 0 \<longrightarrow> e = []" "r = 0 \<or> r = -1" by blast
      then show ?thesis using f st by (metis append.assoc append_take_drop_id)
    qed
  qed
qed

lemma sock_send_live:
  assumes "live_conn w s" and "b \<noteq> []" and "sock_send b s = (n, s')"
  shows "0 < n \<and> live_conn w s' \<and> outp s' = outp s @ take (nat n) b \<and> nat n \<le> length b"
  using assms by (auto simp: sock_send_def live_conn_def min_def split: list.splits if_splits)

lemma sock_send_whole:
  assumes "live_conn w s" and "length b \<le> w"
  shows "\<exists>s'. sock_send b s = (int (length b), s') \<and> live_conn w s' \<and> outp s' = outp s @ b \<and> inp s' = inp s"
  using assms by (auto simp: sock_send_def live_conn_def min_def split: list.splits)

lemma conn_send_all_live:
  "live_conn w s \<Longrightarrow> \<exists>s'. conn_send_all b s = (0, s') \<and> outp s' = outp s @ b \<and> inp s' = inp s \<and> live_conn w s'"
proof (induction b s rule: conn_send_all.induct)
  case (1 b s)
  show ?case
  proof (cases "b = []")
    case True
    then show ?thesis using 1(2) by (simp add: conn_send_all.simps)
  next
    case False
    obtain n s1 where n: "sock_send b s = (n, s1)" by fastforce
    note l = sock_send_live [OF 1(2) False n]
    have "\<not> n \<le> 0" using l by simp
    from 1(1) [OF False n [symmetric] this] l obtain s' where
      "conn_send_all (drop (nat n) b) s1 = (0, s')" "outp s' = outp s1 @ drop (nat n) b"
      "inp s' = inp s1" "live_conn w s'" by blast
    then show ?thesis using False n l sock_send_frame [OF n] by (simp add: conn_send_all.simps [of b s])
  qed
qed

subsection \<open>Messages\<close>

definition protocol_send_header :: "protocol_header option \<Rightarrow> conn \<Rightarrow> int \<times> conn" where
  "protocol_send_header h s = (case h of None \<Rightarrow> (-1, s) | Some h \<Rightarrow> conn_send_all (encode_header h) s)"

definition protocol_recv_header :: "conn \<Rightarrow> protocol_header option \<times> conn" where
  "protocol_recv_header s = (case recv_all HEADER_SIZE s of (r, s') \<Rightarrow> (map_option decode_header r, s'))"

definition make_response :: "status_code \<Rightarrow> nat \<Rightarrow> string \<Rightarrow> response_header" where
  "make_response st len msg =
     \<lparr>r_status = status_val st, r_data_len = of_nat len, r_message = char_array NAME_SIZE msg\<rparr>"

definition protocol_send_response :: "status_code \<Rightarrow> string option \<Rightarrow> conn \<Rightarrow> int \<times> conn" where
  "protocol_send_response st msg s =
     conn_send_all (encode_response (make_response st 0 (case msg of None \<Rightarrow> [] | Some m \<Rightarrow> m))) s"

definition protocol_recv_response :: "conn \<Rightarrow> response_header option \<times> conn" where
  "protocol_recv_response s = (case recv_all RESPONSE_SIZE s of (r, s') \<Rightarrow> (map_option decode_response r, s'))"

lemma length_make_response [simp]: "length (encode_response (make_response st n m)) = RESPONSE_SIZE"
  by (simp add: make_response_def)

definition protocol_checksum :: "bytes \<Rightarrow> 32 word" where
  "protocol_checksum data = fold (\<lambda>c sum. sum + of_nat (of_char c :: nat)) data 0"

subsection \<open>Properties\<close>

lemma fold_sum_word:
  "fold (\<lambda>c sum. sum + of_nat (of_char c :: nat)) data (a :: 32 word) = a + of_nat (\<Sum>c\<leftarrow>data. of_char c)"
  by (induction data arbitrary: a) (simp_all add: algebra_simps)

text \<open>
  The checksum loop, which adds bytes in 32-bit arithmetic, computes the sum of the bytes modulo
  \<open>2^32\<close>; the sum of two pieces is the sum of their checksums.
\<close>

lemma protocol_checksum_sum:
  "unat (protocol_checksum data) = (\<Sum>c\<leftarrow>data. of_char c) mod 2 ^ 32 \<and>
   protocol_checksum (data @ rest) = protocol_checksum data + protocol_checksum rest"
  by (simp add: protocol_checksum_def fold_sum_word unat_of_nat)

lemma recv_header_live:
  assumes "live_conn w s" and "length (h_filename h) = NAME_SIZE" and "inp s = encode_header h @ rest"
  shows "\<exists>s'. recv_all HEADER_SIZE s = (Some (encode_header h), s') \<and> inp s' = rest \<and> outp s' = outp s \<and> live_conn w s'"
  by (rule recv_all_live [OF assms(1,3)]) (simp add: assms)

lemma recv_response_live:
  assumes "live_conn w s" and "inp s = encode_response (make_response st n m) @ rest"
  shows "\<exists>s'. recv_all RESPONSE_SIZE s = (Some (encode_response (make_response st n m)), s') \<and>
    inp s' = rest \<and> outp s' = outp s \<and> live_conn w s'"
  by (rule recv_all_live [OF assms]) simp

text \<open>
  C17. A header sent with \<open>protocol_send_header\<close> and received with \<open>protocol_recv_header\<close> is the same header,
  however the bytes are cut into pieces by either end, and what follows it on the connection is left to
  the next call; and every 280 bytes on the wire are the encoding of the header they decode to.
\<close>

theorem header_roundtrip:
  assumes "length (h_filename h) = NAME_SIZE" and "live_conn w a" and "live_conn w b" and "outp a = []"
    and "protocol_send_header (Some h) a = (r, a')" and "inp b = outp a' @ rest"
    and "length raw = HEADER_SIZE"
  shows "r = 0 \<and> (\<exists>b'. protocol_recv_header b = (Some h, b') \<and> inp b' = rest \<and> live_conn w b') \<and>
    encode_header (decode_header raw) = raw"
proof -
  obtain a1 where "conn_send_all (encode_header h) a = (0, a1)" "outp a1 = outp a @ encode_header h"
    using conn_send_all_live [OF assms(2)] by blast
  then have r: "r = 0" and "inp b = encode_header h @ rest"
    using assms(4-6) by (auto simp: protocol_send_header_def)
  from recv_header_live [OF assms(3,1) this(2)] show ?thesis
    using r encode_decode_header [OF assms(7)] by (auto simp: protocol_recv_header_def)
qed

lemma header_roundtrip_witness:
  "\<exists>b'. protocol_recv_header \<lparr>inp = encode_header (decode_header (replicate 280 CHR ''x'')) @ ''tail'',
      rscript = [100, 1, 7], sscript = [], outp = []\<rparr> = (Some (decode_header (replicate 280 CHR ''x'')), b') \<and>
      inp b' = ''tail''"
proof -
  define h where "h = decode_header (replicate 280 CHR ''x'')"
  have n: "length (h_filename h) = NAME_SIZE" by (simp add: h_def decode_header_def c_limits)
  obtain a' where a: "conn_send_all (encode_header h) \<lparr>inp = [], rscript = [], sscript = [3], outp = []\<rparr> = (0, a')"
    "outp a' = encode_header h"
    using conn_send_all_live [of 1 "\<lparr>inp = [], rscript = [], sscript = [3], outp = []\<rparr>" "encode_header h"]
    by (auto simp: live_conn_def)
  show ?thesis
    using header_roundtrip [of h 1 "\<lparr>inp = [], rscript = [], sscript = [3], outp = []\<rparr>"
        "\<lparr>inp = encode_header h @ ''tail'', rscript = [100, 1, 7], sscript = [], outp = []\<rparr>" 0 a' "''tail''"
        "replicate 280 CHR ''x''"] n a
    by (auto simp: live_conn_def protocol_send_header_def c_limits h_def)
qed

text \<open>
  A response reaches the other end with its status and its message, cut to 255 characters.
\<close>

lemma response_roundtrip:
  assumes "live_conn w a" and "live_conn w b" and "outp a = []" and "is_cstr m"
    and "protocol_send_response st (Some m) a = (r, a')" and "inp b = outp a' @ rest"
  shows "r = 0 \<and> (\<exists>b' q. protocol_recv_response b = (Some q, b') \<and> inp b' = rest \<and>
    r_status q = status_val st \<and> r_data_len q = 0 \<and> array_str (r_message q) = Some (take 255 m))"
proof -
  obtain a1 where "conn_send_all (encode_response (make_response st 0 m)) a = (0, a1)"
    "outp a1 = outp a @ encode_response (make_response st 0 m)"
    using conn_send_all_live [OF assms(1)] by blast
  then have r: "r = 0" and i: "inp b = encode_response (make_response st 0 m) @ rest"
    using assms(3,5,6) by (auto simp: protocol_send_response_def)
  have "array_str (char_array NAME_SIZE m) = Some (take 255 m)"
    using assms(4) by (subst array_str_char_array) (simp_all add: c_limits)
  then show ?thesis using recv_response_live [OF assms(2) i] r
    by (auto simp: protocol_recv_response_def make_response_def)
qed

end
