(* ===== verification/Fs_Transfer.thy ===== *)
theory Fs_Transfer
  imports Fs_Protocol
begin

text \<open>
  Files and the two transfer loops the server and the client of the file server share: reading a file
  in pieces of 4096 bytes and sending them, and receiving a number of bytes and writing them from a
  position on. The system calls on files, like those on the connection, may transfer part of what they
  are asked for or fail.
\<close>

subsection \<open>Files\<close>

text \<open>
  The files by path, which paths are directories, and what the next calls of \<open>read\<close> and \<open>write\<close> let
  through, as for a connection.
\<close>

record disk =
  dfiles :: fstore
  ddirs :: "path \<Rightarrow> bool"
  dreads :: "int list"
  dwrites :: "int list"

text \<open>
  What the kernel decides besides: whether an \<open>open\<close> is permitted, the names a directory lists, the size
  \<open>fstat\<close> reports for a directory, and the outcome of \<open>mkdir\<close>, \<open>rmdir\<close> (the text of the error) and
  \<open>unlink\<close>.
\<close>

record os_env =
  os_open :: "path \<Rightarrow> fmode \<Rightarrow> bool"
  os_readdir :: "disk \<Rightarrow> path \<Rightarrow> string list option"
  os_dir_size :: nat
  os_mkdir :: "disk \<Rightarrow> path \<Rightarrow> string option"
  os_rmdir :: "disk \<Rightarrow> path \<Rightarrow> string option"
  os_unlink :: "path \<Rightarrow> bool"

text \<open>
  \<open>open(p, O_RDONLY)\<close> followed by \<open>fstat\<close>: the reported size and the bytes \<open>read\<close> can deliver. A directory
  opens, but nothing can be read from it.
\<close>

definition open_read :: "os_env \<Rightarrow> disk \<Rightarrow> path \<Rightarrow> (nat \<times> bytes) option" where
  "open_read e d p =
     (if \<not> os_open e p ModeR then None
      else if ddirs d p then Some (os_dir_size e, [])
      else map_option (\<lambda>c. (length c, c)) (dfiles d p))"

text \<open>\<open>O_WRONLY | O_CREAT\<close> with \<open>O_TRUNC\<close> (\<^const>\<open>ModeW\<close>) and without (\<^const>\<open>ModeA\<close>).\<close>

definition open_write :: "os_env \<Rightarrow> disk \<Rightarrow> path \<Rightarrow> fmode \<Rightarrow> disk option" where
  "open_write e d p m =
     (if ddirs d p then None
      else case fopen (os_open e) (dfiles d) p m of None \<Rightarrow> None | Some fs \<Rightarrow> Some (d\<lparr>dfiles := fs\<rparr>))"

definition pwrite :: "nat \<Rightarrow> bytes \<Rightarrow> bytes \<Rightarrow> bytes" where
  "pwrite pos b old = take pos (old @ replicate (pos - length old) NUL) @ b @ drop (pos + length b) old"

definition file_content :: "disk \<Rightarrow> path \<Rightarrow> bytes" where
  "file_content d p = (case dfiles d p of None \<Rightarrow> [] | Some c \<Rightarrow> c)"

definition disk_write :: "path \<Rightarrow> nat \<Rightarrow> bytes \<Rightarrow> disk \<Rightarrow> bool \<times> disk" where
  "disk_write p pos b d = (case dwrites d of
     [] \<Rightarrow> (True, d\<lparr>dfiles := (dfiles d)(p \<mapsto> pwrite pos b (file_content d p))\<rparr>)
   | r # rs \<Rightarrow> if r \<le> 0 then (False, d\<lparr>dwrites := rs\<rparr>)
       else (length b \<le> nat r,
         d\<lparr>dwrites := rs, dfiles := (dfiles d)(p \<mapsto> pwrite pos (take (nat r) b) (file_content d p))\<rparr>))"

definition disk_unlink :: "path \<Rightarrow> disk \<Rightarrow> disk" where
  "disk_unlink p d = d\<lparr>dfiles := (dfiles d)(p := None)\<rparr>"

definition disk_read :: "nat \<Rightarrow> bytes \<Rightarrow> disk \<Rightarrow> bytes \<times> disk" where
  "disk_read n c d = (case dreads d of
     [] \<Rightarrow> (take n c, d)
   | r # rs \<Rightarrow> (if r \<le> 0 then [] else take (min n (nat r)) c, d\<lparr>dreads := rs\<rparr>))"

text \<open>\<open>lseek(fd, (off_t) off, SEEK_SET)\<close>: an offset that is negative as a signed number fails and leaves the position at 0.\<close>

definition lseek_pos :: "64 word \<Rightarrow> nat" where
  "lseek_pos off = (if unat off < 2 ^ 63 then unat off else 0)"

lemma pwrite_zero_nil [simp]: "pwrite 0 b [] = b"
  by (simp add: pwrite_def)

lemma pwrite_append [simp]: "pwrite (length old) b old = old @ b"
  by (simp add: pwrite_def)

lemma pwrite_nil: "pos \<le> length old \<Longrightarrow> pwrite pos [] old = old"
  by (simp add: pwrite_def)

lemma pwrite_pwrite: "pwrite (pos + length a) b (pwrite pos a old) = pwrite pos (a @ b) old"
proof -
  define z where "z = take pos (old @ replicate (pos - length old) NUL)"
  have z: "length z = pos" by (simp add: z_def)
  have w: "pwrite pos a old = z @ a @ drop (pos + length a) old" by (simp only: pwrite_def z_def)
  have "take (pos + length a) (pwrite pos a old @ y) = z @ a" for y
    unfolding w using z by simp
  moreover have "drop (pos + length a + length b) (pwrite pos a old) = drop (pos + length (a @ b)) old"
    unfolding w using z by (simp add: add.commute add.left_commute)
  ultimately have "pwrite (pos + length a) b (pwrite pos a old) = (z @ a) @ b @ drop (pos + length (a @ b)) old"
    by (simp only: pwrite_def [of "pos + length a"])
  then show ?thesis by (simp only: pwrite_def [of pos] z_def append.assoc)
qed

subsection \<open>Transfer loops\<close>

definition BUFFER_SIZE :: nat where [c_limits]: "BUFFER_SIZE = 4096"

text \<open>
  \<open>while ((n = read(file_fd, buffer, sizeof(buffer))) > 0) if (send_all(...) < 0) ...\<close>: whether every
  \<open>send_all\<close> succeeded. A failing \<open>read\<close> ends the loop like the end of the file.
\<close>

function send_file_loop :: "bytes \<Rightarrow> disk \<Rightarrow> conn \<Rightarrow> bool \<times> disk \<times> conn" where
  "send_file_loop c d s =
     (case disk_read BUFFER_SIZE c d of (b, d') \<Rightarrow>
        if b = [] then (True, d', s)
        else case conn_send_all b s of (r, s') \<Rightarrow>
          if r < 0 then (False, d', s') else send_file_loop (drop (length b) c) d' s')"
  by pat_completeness auto
termination
  by (relation "measure (\<lambda>(c, d, s). length c)") (auto simp: disk_read_def split: list.splits if_splits)

declare send_file_loop.simps [simp del]

datatype xfer = XferOk | XferRecv | XferWrite

text \<open>
  \<open>while (remaining > 0)\<close>: receive at most a buffer and write it at the file position. The loop ends
  early when \<open>recv\<close> fails or the peer is gone, or when \<open>write\<close> does not take the whole piece.
\<close>

function recv_file_loop :: "nat \<Rightarrow> path \<Rightarrow> nat \<Rightarrow> conn \<Rightarrow> disk \<Rightarrow> xfer \<times> conn \<times> disk" where
  "recv_file_loop n p pos s d =
     (if n = 0 then (XferOk, s, d)
      else case sock_recv (min n BUFFER_SIZE) s of (b, s') \<Rightarrow>
        if b = [] then (XferRecv, s', d)
        else case disk_write p pos b d of (ok, d') \<Rightarrow>
          if \<not> ok then (XferWrite, s', d') else recv_file_loop (n - length b) p (pos + length b) s' d')"
  by pat_completeness auto
termination by (relation "measure fst") auto

declare recv_file_loop.simps [simp del]

subsubsection \<open>What the loops leave alone\<close>

lemma disk_write_frame:
  "disk_write p pos b d = (ok, d') \<Longrightarrow> ddirs d' = ddirs d \<and> dreads d' = dreads d \<and> (\<forall>q. q \<noteq> p \<longrightarrow> dfiles d' q = dfiles d q)"
  by (auto simp: disk_write_def split: list.splits if_splits)

lemma disk_read_frame: "disk_read n c d = (b, d') \<Longrightarrow> dfiles d' = dfiles d \<and> ddirs d' = ddirs d \<and> dwrites d' = dwrites d"
  by (auto simp: disk_read_def split: list.splits if_splits)

lemma disk_read_prefix: "disk_read n c d = (b, d') \<Longrightarrow> c = b @ drop (length b) c"
  by (auto simp: disk_read_def min_def split: list.splits if_splits)

lemma recv_file_loop_frame:
  "recv_file_loop n p pos s d = (x, s', d') \<Longrightarrow>
     ddirs d' = ddirs d \<and> (\<forall>q. q \<noteq> p \<longrightarrow> dfiles d' q = dfiles d q) \<and> outp s' = outp s \<and> length (inp s') \<le> length (inp s)"
proof (induction n p pos s d arbitrary: x s' d' rule: recv_file_loop.induct)
  case (1 n p pos s d)
  show ?case
  proof (cases "n = 0")
    case True
    then show ?thesis using 1(2) by (simp add: recv_file_loop.simps)
  next
    case False
    obtain b s1 where b: "sock_recv (min n BUFFER_SIZE) s = (b, s1)" by fastforce
    note r = sock_recv_inp [OF b] sock_recv_frame [OF b]
    obtain ok d1 where w: "disk_write p pos b d = (ok, d1)" by fastforce
    note f = disk_write_frame [OF w]
    show ?thesis
    proof (cases "b = [] \<or> \<not> ok")
      case True
      then show ?thesis using 1(2) False b w r f
        by (cases "b = []") (auto simp: recv_file_loop.simps [of n])
    next
      case ok: False
      then have "recv_file_loop (n - length b) p (pos + length b) s1 d1 = (x, s', d')"
        using 1(2) False b w by (simp add: recv_file_loop.simps [of n])
      from 1(1) [OF False b [symmetric] _ w [symmetric] _ this] ok show ?thesis using r f by auto
    qed
  qed
qed

lemma send_file_loop_frame:
  "send_file_loop c d s = (ok, d', s') \<Longrightarrow>
     dfiles d' = dfiles d \<and> ddirs d' = ddirs d \<and> inp s' = inp s \<and> rscript s' = rscript s \<and>
     (\<exists>a b. outp s' = outp s @ a \<and> c = a @ b)"
proof (induction c d s arbitrary: ok d' s' rule: send_file_loop.induct)
  case (1 c d s)
  obtain b d1 where b: "disk_read BUFFER_SIZE c d = (b, d1)" by fastforce
  note rd = disk_read_frame [OF b] disk_read_prefix [OF b]
  show ?case
  proof (cases "b = []")
    case True
    then show ?thesis using 1(2) b rd by (auto simp: send_file_loop.simps [of c])
  next
    case False
    obtain r s1 where r: "conn_send_all b s = (r, s1)" by fastforce
    note sf = conn_send_all_frame [OF r]
    show ?thesis
    proof (cases "r < 0")
      case True
      then obtain u v where "outp s1 = outp s @ u" "b = u @ v" using sf by blast
      then have "outp s1 = outp s @ u" "c = u @ v @ drop (length b) c" using rd(2) by (metis, metis append.assoc)
      then show ?thesis using 1(2) b False r True rd sf by (auto simp: send_file_loop.simps [of c])
    next
      case neg: False
      then have "send_file_loop (drop (length b) c) d1 s1 = (ok, d', s')"
        using 1(2) b False r by (simp add: send_file_loop.simps [of c])
      from 1(1) [OF b [symmetric] False r [symmetric] neg this] obtain u v where
        u: "dfiles d' = dfiles d1" "ddirs d' = ddirs d1" "inp s' = inp s1" "rscript s' = rscript s1"
          "outp s' = outp s1 @ u" "drop (length b) c = u @ v" by blast
      have "outp s1 = outp s @ b" using sf neg by auto
      then have "outp s' = outp s @ (b @ u)" "c = (b @ u) @ v" using u rd(2) by simp_all
      then show ?thesis using u rd sf by metis
    qed
  qed
qed

subsubsection \<open>Complete transfers\<close>

definition live_disk :: "disk \<Rightarrow> bool" where
  "live_disk d \<longleftrightarrow> (\<forall>r \<in> set (dreads d). 0 < r) \<and> (\<forall>r \<in> set (dwrites d). int BUFFER_SIZE \<le> r)"

lemma disk_read_live: "live_disk d \<Longrightarrow> c \<noteq> [] \<Longrightarrow> disk_read BUFFER_SIZE c d = (b, d') \<Longrightarrow> b \<noteq> [] \<and> live_disk d'"
  by (auto simp: disk_read_def live_disk_def c_limits split: list.splits if_splits)

lemma disk_write_live:
  "live_disk d \<Longrightarrow> length b \<le> BUFFER_SIZE \<Longrightarrow> \<exists>d'. disk_write p pos b d = (True, d') \<and> live_disk d' \<and>
     ddirs d' = ddirs d \<and> dfiles d' = (dfiles d)(p \<mapsto> pwrite pos b (file_content d p))"
  by (auto simp: disk_write_def live_disk_def c_limits split: list.splits)

lemma send_file_loop_live:
  "live_disk d \<Longrightarrow> live_conn w s \<Longrightarrow> \<exists>d' s'. send_file_loop c d s = (True, d', s') \<and> outp s' = outp s @ c \<and>
     inp s' = inp s \<and> live_conn w s' \<and> live_disk d' \<and> dfiles d' = dfiles d \<and> ddirs d' = ddirs d"
proof (induction c d s rule: send_file_loop.induct)
  case (1 c d s)
  obtain b d1 where b: "disk_read BUFFER_SIZE c d = (b, d1)" by fastforce
  note rd = disk_read_frame [OF b] disk_read_prefix [OF b]
  show ?case
  proof (cases "c = []")
    case True
    then have "b = []" using rd(2) by simp
    moreover have "live_disk d1" using b 1(2) by (auto simp: disk_read_def live_disk_def split: list.splits if_splits)
    ultimately show ?thesis using True b rd(1) 1(3) by (simp add: send_file_loop.simps)
  next
    case False
    then have bl: "b \<noteq> []" "live_disk d1" using disk_read_live [OF 1(2) False b] by auto
    obtain s1 where s: "conn_send_all b s = (0, s1)" "outp s1 = outp s @ b" "inp s1 = inp s" "live_conn w s1"
      using conn_send_all_live [OF 1(3)] by blast
    from 1(1) [OF b [symmetric] bl(1) s(1) [symmetric] _ bl(2) s(4)] obtain d' s' where
      t: "send_file_loop (drop (length b) c) d1 s1 = (True, d', s')" "outp s' = outp s1 @ drop (length b) c"
        "inp s' = inp s1" "live_conn w s'" "live_disk d'" "dfiles d' = dfiles d1" "ddirs d' = ddirs d1" by auto
    have "outp s' = outp s @ c" using t(2) s(2) rd(2) by (metis append.assoc)
    moreover have "send_file_loop c d s = (True, d', s')" using b bl s t by (simp add: send_file_loop.simps [of c])
    ultimately show ?thesis using t s rd(1) by auto
  qed
qed

lemma recv_file_loop_live:
  "live_conn w s \<Longrightarrow> live_disk d \<Longrightarrow> inp s = data @ rest \<Longrightarrow> length data = n \<Longrightarrow> dfiles d p = Some old \<Longrightarrow> pos \<le> length old \<Longrightarrow>
   \<exists>s' d'. recv_file_loop n p pos s d = (XferOk, s', d') \<and> inp s' = rest \<and> outp s' = outp s \<and> live_conn w s' \<and> live_disk d' \<and>
     ddirs d' = ddirs d \<and> dfiles d' = (dfiles d)(p \<mapsto> pwrite pos data old)"
proof (induction n p pos s d arbitrary: data old rule: recv_file_loop.induct)
  case (1 n p pos s d)
  show ?case
  proof (cases "n = 0")
    case True
    then show ?thesis using 1 by (auto simp: recv_file_loop.simps pwrite_nil fun_upd_idem)
  next
    case False
    obtain b s1 where b: "sock_recv (min n BUFFER_SIZE) s = (b, s1)" by fastforce
    note r = sock_recv_inp [OF b] sock_recv_frame [OF b]
    have ne: "inp s \<noteq> []" using 1(4,5) False by auto
    have lv: "b \<noteq> []" "live_conn w s1" using sock_recv_live [OF 1(2) _ ne b] False by (auto simp: c_limits)
    have db: "data = b @ drop (length b) data" and i1: "inp s1 = drop (length b) data @ rest"
      using r 1(4,5) by (auto simp: append_eq_append_conv_if append_eq_conv_conj split: if_splits)
    have len: "length (drop (length b) data) = n - length b" using 1(5) by simp
    have "length b \<le> BUFFER_SIZE" using r by simp
    then obtain d1 where w: "disk_write p pos b d = (True, d1)" "live_disk d1" "ddirs d1 = ddirs d"
      "dfiles d1 = (dfiles d)(p \<mapsto> pwrite pos b old)"
      using disk_write_live [OF 1(3), of b p pos] 1(6) by (auto simp: file_content_def)
    have f1: "dfiles d1 p = Some (pwrite pos b old)" using w(4) by simp
    have "pos + length b \<le> length (pwrite pos b old)" using 1(7) by (simp add: pwrite_def)
    from 1(1) [OF False b [symmetric] lv(1) w(1) [symmetric] _ lv(2) w(2) i1 len f1 this] obtain s' d' where
      "recv_file_loop (n - length b) p (pos + length b) s1 d1 = (XferOk, s', d')" "inp s' = rest" "outp s' = outp s1"
      "live_conn w s'" "live_disk d'" "ddirs d' = ddirs d1"
      "dfiles d' = (dfiles d1)(p \<mapsto> pwrite (pos + length b) (drop (length b) data) (pwrite pos b old))" by blast
    then show ?thesis using False b lv w r db by (auto simp: recv_file_loop.simps [of n] pwrite_pwrite)
  qed
qed

end
