(* ===== verification/Fs_Config.thy ===== *)
theory Fs_Config
  imports C_Stdio
begin

text \<open>
  The configuration of the file server (\<open>linux-file-server/include/common.h\<close>, \<open>src/main_server.c\<close>): the
  lines \<open>fgets\<close> delivers, the keys \<open>parse_config_file\<close> knows, and the reload on \<open>SIGHUP\<close> in
  \<open>server_start\<close>, which only sets the log level.
\<close>

datatype log_level = LOG_DEBUG | LOG_INFO | LOG_WARN | LOG_ERROR | LOG_FATAL

record server_config =
  cfg_port :: int
  cfg_backlog :: int
  cfg_max_clients :: int
  cfg_thread_num :: int
  cfg_buffer_size :: int
  cfg_log_level :: log_level
  cfg_log_dir :: string
  cfg_shared_dir :: string
  cfg_config_file :: string
  cfg_ssl_enabled :: int
  cfg_cert_file :: string
  cfg_key_file :: string
  cfg_db_path :: string
  cfg_users_file :: string
  cfg_web_port :: int
  cfg_rate_limit :: int

text \<open>The defaults \<open>main\<close> sets before it reads the file.\<close>

definition default_config :: server_config where
  "default_config = \<lparr>cfg_port = 8888, cfg_backlog = 128, cfg_max_clients = 1024, cfg_thread_num = 4,
     cfg_buffer_size = 4096, cfg_log_level = LOG_INFO, cfg_log_dir = ''./log'', cfg_shared_dir = ''./shared'',
     cfg_config_file = ''./config/server.conf'', cfg_ssl_enabled = 0, cfg_cert_file = [], cfg_key_file = [],
     cfg_db_path = [], cfg_users_file = [], cfg_web_port = 0, cfg_rate_limit = 0\<rparr>"

subsection \<open>Keys and values\<close>

text \<open>
  \<open>sscanf(line, "%63[^=]=%191[^\n]", key, value) == 2\<close>, then the blanks before each are skipped. The text
  of a line ends at its first \<open>NUL\<close>.
\<close>

definition config_pair :: "bytes \<Rightarrow> (string \<times> string) option" where
  "config_pair line =
     (case scan_set 63 (\<lambda>c. c \<noteq> CHR ''='') (cstr line) of
        Some (key, CHR ''='' # r) \<Rightarrow>
          (case scan_set 191 (\<lambda>c. c \<noteq> LF) r of
             Some (v, _) \<Rightarrow> Some (dropWhile (\<lambda>c. c = CHR '' '') key, dropWhile (\<lambda>c. c = CHR '' '') v)
           | None \<Rightarrow> None)
      | _ \<Rightarrow> None)"

definition level_of :: "string \<Rightarrow> log_level option" where
  "level_of v = (if v = ''debug'' then Some LOG_DEBUG else if v = ''info'' then Some LOG_INFO
     else if v = ''warn'' then Some LOG_WARN else if v = ''error'' then Some LOG_ERROR else None)"

text \<open>
  \<open>strncpy\<close> into a field of 256 bytes of a structure that is zero beyond what was copied before: at most
  191 characters are copied, and \<open>strncpy\<close> fills the rest with zeros.
\<close>

definition config_set :: "string \<Rightarrow> string \<Rightarrow> server_config \<Rightarrow> server_config" where
  "config_set k v c =
     (if k = ''port'' then c\<lparr>cfg_port := atoi v\<rparr>
      else if k = ''threads'' then c\<lparr>cfg_thread_num := atoi v\<rparr>
      else if k = ''max_clients'' then c\<lparr>cfg_max_clients := atoi v\<rparr>
      else if k = ''log_dir'' then c\<lparr>cfg_log_dir := strncpy0 255 v\<rparr>
      else if k = ''shared_dir'' then c\<lparr>cfg_shared_dir := strncpy0 255 v\<rparr>
      else if k = ''log_level'' then (case level_of v of None \<Rightarrow> c | Some l \<Rightarrow> c\<lparr>cfg_log_level := l\<rparr>)
      else c)"

definition config_skip :: "bytes \<Rightarrow> bool" where
  "config_skip line \<longleftrightarrow> (case line of [] \<Rightarrow> False | c # _ \<Rightarrow> c = CHR ''#'' \<or> c = LF)"

definition config_line :: "bytes \<Rightarrow> server_config \<Rightarrow> server_config" where
  "config_line line c =
     (if config_skip line then c
      else case config_pair line of None \<Rightarrow> c | Some (k, v) \<Rightarrow> config_set k v c)"

definition parse_config_file :: "bytes option \<Rightarrow> server_config \<Rightarrow> int \<times> server_config" where
  "parse_config_file fp c =
     (case fp of None \<Rightarrow> (-1, c) | Some b \<Rightarrow> (0, fold config_line (fgets_lines 256 b) c))"

text \<open>The reload in \<open>server_start\<close>: the level after reading the file, which stays when it cannot be opened.\<close>

definition reload_line :: "bytes \<Rightarrow> log_level \<Rightarrow> log_level" where
  "reload_line line l =
     (if config_skip line then l
      else case config_pair line of
        Some (k, v) \<Rightarrow> if k = ''log_level'' then (case level_of v of None \<Rightarrow> l | Some l' \<Rightarrow> l') else l
      | None \<Rightarrow> l)"

definition server_reload :: "bytes option \<Rightarrow> log_level \<Rightarrow> log_level" where
  "server_reload fp l = (case fp of None \<Rightarrow> l | Some b \<Rightarrow> fold reload_line (fgets_lines 256 b) l)"

subsection \<open>Properties\<close>

text \<open>The text of a configuration, one \<open>key=value\<close> line per entry.\<close>

definition config_text :: "(string \<times> string) list \<Rightarrow> bytes" where
  "config_text kvs = concat (map (\<lambda>l. l @ [LF]) (map (\<lambda>(k, v). k @ CHR ''='' # v) kvs))"

definition plain_key :: "string \<Rightarrow> bool" where
  "plain_key k \<longleftrightarrow> k \<noteq> [] \<and> length k \<le> 63 \<and> is_cstr k \<and> CHR ''='' \<notin> set k \<and> LF \<notin> set k \<and> hd k \<noteq> CHR ''#'' \<and> hd k \<noteq> CHR '' ''"

definition plain_value :: "string \<Rightarrow> bool" where
  "plain_value v \<longleftrightarrow> v \<noteq> [] \<and> length v \<le> 190 \<and> is_cstr v \<and> LF \<notin> set v \<and> hd v \<noteq> CHR '' ''"

lemma scan_set_all:
  assumes "w \<noteq> []" and "length w \<le> n" and "\<forall>c \<in> set w. ok c" and "r = [] \<or> \<not> ok (hd r)"
  shows "scan_set n ok (w @ r) = Some (w, r)"
proof -
  have "takeWhile ok (w @ r) = w" using assms(3,4) by (cases r) (auto simp: takeWhile_append2 takeWhile_eq_all_conv)
  then show ?thesis using assms(1,2) by (simp add: scan_set_def)
qed

lemma config_pair_plain:
  assumes "plain_key k" and "plain_value v"
  shows "config_pair (k @ CHR ''='' # v @ [LF]) = Some (k, v)"
proof -
  have c: "cstr (k @ CHR ''='' # v @ [LF]) = k @ CHR ''='' # v @ [LF]"
    using assms by (simp add: plain_key_def plain_value_def)
  have a: "scan_set 63 (\<lambda>c. c \<noteq> CHR ''='') (k @ CHR ''='' # v @ [LF]) = Some (k, CHR ''='' # v @ [LF])"
    using assms(1) by (intro scan_set_all) (auto simp: plain_key_def)
  have b: "scan_set 191 (\<lambda>c. c \<noteq> LF) (v @ [LF]) = Some (v, [LF])"
    using assms(2) by (intro scan_set_all) (auto simp: plain_value_def)
  have "dropWhile (\<lambda>c. c = CHR '' '') k = k" "dropWhile (\<lambda>c. c = CHR '' '') v = v"
    using assms by (cases k, simp_all add: plain_key_def) (cases v, simp_all add: plain_value_def)
  then show ?thesis using a b c by (simp add: config_pair_def)
qed

lemma config_lines_plain:
  assumes "list_all (\<lambda>(k, v). plain_key k \<and> plain_value v) kvs"
  shows "fgets_lines 256 (config_text kvs) = map (\<lambda>(k, v). k @ CHR ''='' # v @ [LF]) kvs"
proof -
  have "list_all (\<lambda>l. LF \<notin> set l \<and> length l + 1 < 256) (map (\<lambda>(k, v). k @ CHR ''='' # v) kvs)"
    using assms by (auto simp: list_all_iff plain_key_def plain_value_def)
  from fgets_lines_lines [OF this] show ?thesis by (simp add: config_text_def comp_def case_prod_unfold)
qed

lemma config_skip_plain: "plain_key k \<Longrightarrow> \<not> config_skip (k @ r)"
  by (cases k) (auto simp: config_skip_def plain_key_def)



text \<open>
  A blank between the key and the equals sign stays part of the key, so the line is ignored: only the
  blanks in front of the key and of the value are skipped, although the comment says both ends.
\<close>

lemma config_blank_before_equals:
  assumes "plain_value v"
  shows "config_line (''port ='' @ v @ [LF]) c = c"
proof -
  have c: "cstr (''port ='' @ v @ [LF]) = ''port ='' @ v @ [LF]" using assms by (simp add: plain_value_def)
  have a: "scan_set 63 (\<lambda>c. c \<noteq> CHR ''='') (''port '' @ CHR ''='' # v @ [LF]) = Some (''port '', CHR ''='' # v @ [LF])"
    by (intro scan_set_all) auto
  have b: "scan_set 191 (\<lambda>c. c \<noteq> LF) (v @ [LF]) = Some (v, [LF])"
    using assms by (intro scan_set_all) (auto simp: plain_value_def)
  show ?thesis using a b c by (simp add: config_line_def config_skip_def config_pair_def config_set_def)
qed

end
