(* ===== verification/Thread_Pool.thy ===== *)
theory Thread_Pool
  imports Prelude
begin

text \<open>
  The thread pool of \<open>linux-file-server/src/thread_pool.c\<close> as a state machine. The mutex makes
  each critical section one step; a thread waiting on a condition variable is a thread whose
  step is not enabled. The task list is owned by the pool: \<open>task_head\<close> is the list of tasks
  and \<open>tail_null\<close> says that \<open>task_tail\<close> is \<open>NULL\<close>, which decides where a new task is linked.
  A task is a natural number standing for its function and argument. Two ghost fields record the
  tasks accepted and the tasks taken by a worker, in order, and a third the tasks that have run.
\<close>

subsection \<open>State\<close>

type_synonym task = nat

datatype worker = Waiting | Busy task | Exited

record thread_pool =
  workers :: "worker list"
  task_head :: "task list"
  tail_null :: bool
  task_count :: int
  max_tasks :: int
  shutdown :: bool
  accepted :: "task list"
  taken :: "task list"
  executed :: "task list"

text \<open>
  \<open>thread_pool_create\<close>: \<open>oks\<close> are the outcomes of the allocation of the pool, the three
  initialisations and the allocation of the thread array; \<open>started\<close> is the number of threads
  \<open>pthread_create\<close> manages to start.
\<close>

definition thread_pool_create :: "bool list \<Rightarrow> int \<Rightarrow> int \<Rightarrow> int \<Rightarrow> thread_pool option" where
  "thread_pool_create oks started thread_count max_n =
     (if thread_count \<le> 0 \<or> max_n \<le> 0 then None
      else if False \<in> set (take 5 oks) then None
      else if started < thread_count then None
      else Some \<lparr>workers = replicate (nat thread_count) Waiting, task_head = [], tail_null = True,
                 task_count = 0, max_tasks = max_n, shutdown = False, accepted = [], taken = [], executed = []\<rparr>)"

datatype add_result = AddWaits | AddFails | Added thread_pool

text \<open>
  The critical section of \<open>thread_pool_add_task\<close>, from every point where the mutex is held again; \<open>ok\<close> is
  the outcome of \<open>malloc\<close>. A null pool or function is refused before the mutex is taken.
\<close>

definition add_task_locked :: "bool \<Rightarrow> task \<Rightarrow> thread_pool \<Rightarrow> add_result" where
  "add_task_locked ok t p =
     (if shutdown p then AddFails
      else if task_count p \<ge> max_tasks p then AddWaits
      else if \<not> ok then AddFails
      else Added (p\<lparr>task_head := (if tail_null p then [t] else task_head p @ [t]), tail_null := False,
                    task_count := task_count p + 1, accepted := accepted p @ [t]\<rparr>))"

definition thread_pool_add_task :: "bool \<Rightarrow> task option \<Rightarrow> thread_pool option \<Rightarrow> add_result" where
  "thread_pool_add_task ok function po =
     (case (po, function) of (Some p, Some t) \<Rightarrow> add_task_locked ok t p | _ \<Rightarrow> AddFails)"

text \<open>
  A worker's critical section: wait, leave, or take the first task (\<open>task_head\<close> may be \<open>NULL\<close>, then
  nothing is taken).
\<close>

datatype take_result = TakeWaits | TakeExits | TakesTask "task option" thread_pool

definition worker_take :: "thread_pool \<Rightarrow> take_result" where
  "worker_take p =
     (if task_count p = 0 \<and> \<not> shutdown p then TakeWaits
      else if shutdown p \<and> task_count p = 0 then TakeExits
      else (case task_head p of
              [] \<Rightarrow> TakesTask None p
            | t # ts \<Rightarrow> TakesTask (Some t)
                (p\<lparr>task_head := ts, tail_null := (if ts = [] then True else tail_null p),
                   task_count := task_count p - 1, taken := taken p @ [t]\<rparr>)))"

definition set_worker :: "nat \<Rightarrow> worker \<Rightarrow> thread_pool \<Rightarrow> thread_pool" where
  "set_worker i w p = p\<lparr>workers := (workers p)[i := w]\<rparr>"

text \<open>The first half of \<open>thread_pool_destroy\<close>; the joins wait until every worker has exited.\<close>

definition thread_pool_shutdown :: "thread_pool \<Rightarrow> thread_pool" where
  "thread_pool_shutdown p = p\<lparr>shutdown := True\<rparr>"

text \<open>The tasks the second half of \<open>thread_pool_destroy\<close> throws away.\<close>

definition thread_pool_leftover :: "thread_pool \<Rightarrow> task list" where
  "thread_pool_leftover p = task_head p"

text \<open>
  \<open>thread_pool_destroy\<close> as a whole: the return value and the tasks thrown away. \<open>join\<close> is the pool when the last
  \<open>pthread_join\<close> returns, \<^const>\<open>None\<close> when one never does.
\<close>

definition thread_pool_destroy :: "(thread_pool \<Rightarrow> thread_pool option) \<Rightarrow> thread_pool option \<Rightarrow> (int \<times> task list) option" where
  "thread_pool_destroy join po =
     (case po of None \<Rightarrow> Some (-1, [])
      | Some p \<Rightarrow> map_option (\<lambda>q. (0, thread_pool_leftover q)) (join (thread_pool_shutdown p)))"

definition thread_pool_get_task_count :: "thread_pool option \<Rightarrow> int" where
  "thread_pool_get_task_count po = (case po of None \<Rightarrow> 0 | Some p \<Rightarrow> task_count p)"

definition thread_pool_get_thread_count :: "thread_pool option \<Rightarrow> int" where
  "thread_pool_get_thread_count po = (case po of None \<Rightarrow> 0 | Some p \<Rightarrow> int (length (workers p)))"

subsection \<open>Steps\<close>

inductive worker_step :: "thread_pool \<Rightarrow> thread_pool \<Rightarrow> bool" where
  take: "i < length (workers p) \<Longrightarrow> workers p ! i = Waiting \<Longrightarrow> worker_take p = TakesTask (Some t) p' \<Longrightarrow>
    worker_step p (set_worker i (Busy t) p')"
| finish: "i < length (workers p) \<Longrightarrow> workers p ! i = Busy t \<Longrightarrow>
    worker_step p (set_worker i Waiting (p\<lparr>executed := executed p @ [t]\<rparr>))"
| exit: "i < length (workers p) \<Longrightarrow> workers p ! i = Waiting \<Longrightarrow> worker_take p = TakeExits \<Longrightarrow>
    worker_step p (set_worker i Exited p)"

inductive pool_trans :: "thread_pool \<Rightarrow> thread_pool \<Rightarrow> bool" where
  add: "thread_pool_add_task ok (Some t) (Some p) = Added p' \<Longrightarrow> pool_trans p p'"
| work: "worker_step p p' \<Longrightarrow> pool_trans p p'"
| destroy: "pool_trans p (thread_pool_shutdown p)"

inductive_cases worker_stepE: "worker_step p p'"
inductive_cases pool_transE: "pool_trans p p'"

subsection \<open>Invariant\<close>

definition busy_tasks :: "worker list \<Rightarrow> task list" where
  "busy_tasks ws = concat (map (\<lambda>w. case w of Busy t \<Rightarrow> [t] | _ \<Rightarrow> []) ws)"

definition tp_inv :: "thread_pool \<Rightarrow> bool" where
  "tp_inv p \<longleftrightarrow> task_count p = int (length (task_head p)) \<and> task_count p \<le> max_tasks p \<and>
     (tail_null p \<longleftrightarrow> task_head p = []) \<and> accepted p = taken p @ task_head p \<and>
     (\<forall>t. count_list (taken p) t = count_list (executed p) t + count_list (busy_tasks (workers p)) t) \<and>
     (Exited \<in> set (workers p) \<longrightarrow> shutdown p \<and> task_head p = [])"

lemma busy_tasks_simps:
  "busy_tasks (xs @ ys) = busy_tasks xs @ busy_tasks ys" "busy_tasks (x # xs) = busy_tasks [x] @ busy_tasks xs"
  by (simp_all add: busy_tasks_def)

lemma busy_tasks_update:
  assumes "i < length ws"
  shows "count_list (busy_tasks (ws[i := w])) t + count_list (busy_tasks [ws ! i]) t
       = count_list (busy_tasks ws) t + count_list (busy_tasks [w]) t"
proof -
  have "busy_tasks ws = busy_tasks (take i ws @ ws ! i # drop (Suc i) ws)"
    using id_take_nth_drop [OF assms] by (rule arg_cong)
  also have "\<dots> = busy_tasks (take i ws) @ busy_tasks [ws ! i] @ busy_tasks (drop (Suc i) ws)"
    unfolding busy_tasks_simps(1) by (subst busy_tasks_simps(2)) simp
  finally have old: "busy_tasks ws = busy_tasks (take i ws) @ busy_tasks [ws ! i] @ busy_tasks (drop (Suc i) ws)" .
  have "busy_tasks (ws[i := w]) = busy_tasks (take i ws @ w # drop (Suc i) ws)"
    by (simp add: upd_conv_take_nth_drop [OF assms])
  also have "\<dots> = busy_tasks (take i ws) @ busy_tasks [w] @ busy_tasks (drop (Suc i) ws)"
    unfolding busy_tasks_simps(1) by (subst busy_tasks_simps(2)) simp
  finally show ?thesis using old by simp
qed

lemma exited_update: "Exited \<in> set (ws[i := w]) \<Longrightarrow> w \<noteq> Exited \<Longrightarrow> Exited \<in> set ws"
  using set_update_subset_insert [of ws i w] by auto

lemma busy_tasks_one [simp]:
  "busy_tasks [Waiting] = []" "busy_tasks [Exited] = []" "busy_tasks [Busy t] = [t]"
  by (simp_all add: busy_tasks_def)

lemma worker_take_task:
  "worker_take p = TakesTask (Some t) p' \<Longrightarrow> \<exists>ts. task_head p = t # ts \<and>
     p' = p\<lparr>task_head := ts, tail_null := (if ts = [] then True else tail_null p),
            task_count := task_count p - 1, taken := taken p @ [t]\<rparr>"
  by (auto simp: worker_take_def split: if_splits list.splits)

lemma worker_step_inv:
  assumes "worker_step p p'" and inv: "tp_inv p"
  shows "tp_inv p'"
proof -
  have cnt: "count_list (taken p) x = count_list (executed p) x + count_list (busy_tasks (workers p)) x" for x
    using inv by (simp add: tp_inv_def)
  from assms(1) show ?thesis
  proof cases
    case (take i t q)
    then obtain ts where q: "task_head p = t # ts" "q = p\<lparr>task_head := ts, tail_null := (if ts = [] then True else tail_null p),
        task_count := task_count p - 1, taken := taken p @ [t]\<rparr>" using worker_take_task by blast
    have "Exited \<notin> set (workers p)" using inv q(1) by (auto simp: tp_inv_def)
    then have "Exited \<notin> set ((workers p)[i := Busy t])" using exited_update by blast
    moreover have "count_list (taken p @ [t]) x = count_list (executed p) x + count_list (busy_tasks ((workers p)[i := Busy t])) x" for x
      using cnt [of x] busy_tasks_update [OF take(2), of "Busy t" x] take(3) by simp
    ultimately show ?thesis using inv q take(1) by (auto simp: tp_inv_def set_worker_def)
  next
    case (finish i t)
    have "Exited \<in> set ((workers p)[i := Waiting]) \<Longrightarrow> Exited \<in> set (workers p)"
      by (erule exited_update) simp
    moreover have "count_list (taken p) x = count_list (executed p @ [t]) x + count_list (busy_tasks ((workers p)[i := Waiting])) x" for x
      using cnt [of x] busy_tasks_update [OF finish(2), of Waiting x] finish(3) by simp
    ultimately show ?thesis using inv finish(1) by (auto simp: tp_inv_def set_worker_def)
  next
    case (exit i)
    have "shutdown p" "task_count p = 0" using exit(4) by (auto simp: worker_take_def split: if_splits list.splits)
    moreover have "count_list (taken p) x = count_list (executed p) x + count_list (busy_tasks ((workers p)[i := Exited])) x" for x
      using cnt [of x] busy_tasks_update [OF exit(2), of Exited x] exit(3) by simp
    ultimately show ?thesis using inv exit(1) by (auto simp: tp_inv_def set_worker_def)
  qed
qed

lemma pool_trans_inv:
  assumes "pool_trans p p'" and inv: "tp_inv p"
  shows "tp_inv p'"
  using assms(1)
proof cases
  case (add ok t)
  then show ?thesis using inv by (auto simp: thread_pool_add_task_def add_task_locked_def tp_inv_def split: if_splits)
next
  case work
  then show ?thesis using worker_step_inv inv by blast
next
  case destroy
  then show ?thesis using inv by (auto simp: tp_inv_def thread_pool_shutdown_def)
qed

lemma created_inv: "thread_pool_create oks started n max_n = Some p \<Longrightarrow> tp_inv p \<and> length (workers p) = nat n \<and> 0 < n \<and> max_tasks p = max_n"
  by (auto simp: thread_pool_create_def tp_inv_def busy_tasks_def split: if_splits)

lemma reachable_inv:
  assumes "thread_pool_create oks started n max_n = Some p0" and "pool_trans\<^sup>*\<^sup>* p0 p"
  shows "tp_inv p"
  using assms(2) by (induction rule: rtranclp_induct) (use created_inv [OF assms(1)] pool_trans_inv in auto)

subsection \<open>Shutting down\<close>

fun worker_weight :: "worker \<Rightarrow> nat" where
  "worker_weight Waiting = 1" | "worker_weight (Busy t) = 2" | "worker_weight Exited = 0"

definition pool_weight :: "thread_pool \<Rightarrow> nat" where
  "pool_weight p = 3 * length (task_head p) + sum_list (map worker_weight (workers p))"

lemma weight_update:
  "i < length ws \<Longrightarrow> sum_list (map worker_weight (ws[i := w])) + worker_weight (ws ! i)
     = sum_list (map worker_weight ws) + worker_weight w"
  by (induction ws arbitrary: i) (auto split: nat.split)

lemma worker_step_decreases:
  assumes "worker_step p p'"
  shows "pool_weight p' < pool_weight p" and "shutdown p' = shutdown p" and "length (workers p') = length (workers p)"
proof -
  have "pool_weight p' < pool_weight p \<and> shutdown p' = shutdown p \<and> length (workers p') = length (workers p)"
    using assms
  proof cases
    case (take i t q)
    then obtain ts where "task_head p = t # ts" "q = p\<lparr>task_head := ts, tail_null := (if ts = [] then True else tail_null p),
        task_count := task_count p - 1, taken := taken p @ [t]\<rparr>" using worker_take_task by blast
    then show ?thesis using take weight_update [OF take(2), of "Busy t"] by (simp add: pool_weight_def set_worker_def)
  next
    case (finish i t)
    then show ?thesis using weight_update [OF finish(2), of Waiting] by (simp add: pool_weight_def set_worker_def)
  next
    case (exit i)
    then show ?thesis using weight_update [OF exit(2), of Exited] by (simp add: pool_weight_def set_worker_def)
  qed
  then show "pool_weight p' < pool_weight p" and "shutdown p' = shutdown p" and "length (workers p') = length (workers p)"
    by blast+
qed

lemma shutdown_progress:
  assumes inv: "tp_inv p" and "shutdown p" and "i < length (workers p)" and "workers p ! i \<noteq> Exited"
  shows "\<exists>p'. worker_step p p'"
proof (cases "workers p ! i")
  case Waiting
  show ?thesis
  proof (cases "task_head p")
    case Nil
    then have "worker_take p = TakeExits" using inv assms(2) by (simp add: worker_take_def tp_inv_def)
    then show ?thesis using worker_step.exit [OF assms(3) Waiting] by blast
  next
    case (Cons t ts)
    then have "\<exists>q. worker_take p = TakesTask (Some t) q" using inv by (simp add: worker_take_def tp_inv_def)
    then show ?thesis using worker_step.take [OF assms(3) Waiting] by blast
  qed
next
  case (Busy t)
  then show ?thesis using worker_step.finish [OF assms(3)] by blast
next
  case Exited
  then show ?thesis using assms(4) by simp
qed

lemma shutdown_ends:
  assumes "tp_inv p" and "shutdown p"
  shows "\<exists>p'. worker_step\<^sup>*\<^sup>* p p' \<and> set (workers p') \<subseteq> {Exited} \<and> length (workers p') = length (workers p) \<and> tp_inv p'"
  using assms
proof (induction "pool_weight p" arbitrary: p rule: less_induct)
  case less
  show ?case
  proof (cases "set (workers p) \<subseteq> {Exited}")
    case True
    then show ?thesis using less.prems by blast
  next
    case False
    then obtain w where "w \<in> set (workers p)" "w \<noteq> Exited" by blast
    then obtain i where "i < length (workers p)" "workers p ! i \<noteq> Exited" unfolding in_set_conv_nth by blast
    from shutdown_progress [OF less.prems this] obtain q where q: "worker_step p q" by blast
    note d = worker_step_decreases [OF q]
    from less.hyps [OF d(1) worker_step_inv [OF q less.prems(1)]] d(2,3) less.prems(2) obtain p' where
      "worker_step\<^sup>*\<^sup>* q p'" "set (workers p') \<subseteq> {Exited}" "length (workers p') = length (workers p)" "tp_inv p'" by auto
    then show ?thesis using q by (meson converse_rtranclp_into_rtranclp)
  qed
qed

lemma all_exited_done:
  assumes inv: "tp_inv p" and "workers p \<noteq> []" and "set (workers p) \<subseteq> {Exited}"
  shows "task_head p = [] \<and> accepted p = taken p \<and> (\<forall>t. count_list (executed p) t = count_list (accepted p) t)"
proof -
  have "Exited \<in> set (workers p)" using assms(2,3) by (cases "workers p") auto
  then have e: "task_head p = []" using inv by (simp add: tp_inv_def)
  have "busy_tasks ws = []" if "set ws \<subseteq> {Exited}" for ws
    using that by (induction ws) (auto simp: busy_tasks_def)
  then have "busy_tasks (workers p) = []" using assms(3) by blast
  then show ?thesis using inv e by (simp add: tp_inv_def)
qed

subsection \<open>Properties\<close>

text \<open>
  In every reachable state, whatever the interleaving of producers, workers and the destroyer,
  the counter is the length of the queue and within \<open>max_tasks\<close>, the tail pointer is consistent, and
  tasks are taken in the order in which they were accepted, each exactly once.
\<close>

lemma pool_queue_fifo:
  assumes "thread_pool_create oks started n max_n = Some p0" and "pool_trans\<^sup>*\<^sup>* p0 p"
  shows "accepted p = taken p @ task_head p \<and> task_count p = int (length (task_head p)) \<and>
    task_count p \<le> max_tasks p \<and> (tail_null p \<longleftrightarrow> task_head p = [])"
  using reachable_inv [OF assms] by (simp add: tp_inv_def)

lemma pool_queue_fifo_witness:
  "\<exists>p0 p. thread_pool_create [] 2 2 4 = Some p0 \<and> thread_pool_add_task True (Some 7) (Some p0) = Added p \<and>
     accepted p = taken p @ task_head p"
proof -
  obtain p0 where p0: "thread_pool_create [] 2 2 4 = Some p0" by (simp add: thread_pool_create_def)
  then obtain p where p: "thread_pool_add_task True (Some 7) (Some p0) = Added p" by (auto simp: thread_pool_create_def thread_pool_add_task_def add_task_locked_def)
  have "pool_trans\<^sup>*\<^sup>* p0 p" using pool_trans.add [OF p] by blast
  from pool_queue_fifo [OF p0 this] show ?thesis using p0 p by blast
qed

text \<open>
  C9. Shutting down drains the pool: once every worker has exited, no accepted task is left for
  \<open>thread_pool_destroy\<close> to throw away, and every accepted task has run exactly as often as it was
  accepted.
\<close>

theorem pool_shutdown_drains:
  assumes "thread_pool_create oks started n max_n = Some p0" and "pool_trans\<^sup>*\<^sup>* p0 p"
    and "workers p \<noteq> []" and "set (workers p) \<subseteq> {Exited}"
  shows "thread_pool_leftover p = [] \<and> (\<forall>t. count_list (executed p) t = count_list (accepted p) t)"
  using all_exited_done [OF reachable_inv [OF assms(1,2)] assms(3,4)] by (simp add: thread_pool_leftover_def)

lemma pool_shutdown_drains_witness:
  "\<exists>p0 p. thread_pool_create [] 1 1 4 = Some p0 \<and> workers p = [Exited] \<and> thread_pool_leftover p = []"
proof -
  obtain p0 where p0: "thread_pool_create [] 1 1 4 = Some p0" by (simp add: thread_pool_create_def)
  let ?p1 = "thread_pool_shutdown p0" and ?p2 = "set_worker 0 Exited (thread_pool_shutdown p0)"
  have w: "workers ?p1 = [Waiting]" "worker_take ?p1 = TakeExits"
    using p0 by (auto simp: thread_pool_create_def thread_pool_shutdown_def worker_take_def)
  have "worker_step ?p1 ?p2" by (rule worker_step.exit) (simp_all add: w)
  then have r: "pool_trans\<^sup>*\<^sup>* p0 ?p2"
    by (meson pool_trans.destroy pool_trans.work r_into_rtranclp rtranclp.rtrancl_into_rtrancl)
  have e: "workers ?p2 = [Exited]" using w by (simp add: set_worker_def)
  from pool_shutdown_drains [OF p0 r] e p0 show ?thesis by auto
qed



text \<open>When the joins have returned, the workers having done what they do, \<open>thread_pool_destroy\<close> succeeds and throws nothing away.\<close>

lemma destroy_throws_nothing_away:
  assumes "thread_pool_create oks started n max_n = Some p0" and "pool_trans\<^sup>*\<^sup>* p0 p"
    and "join (thread_pool_shutdown p) = Some q" and "worker_step\<^sup>*\<^sup>* (thread_pool_shutdown p) q"
    and "workers q \<noteq> []" and "set (workers q) \<subseteq> {Exited}"
  shows "thread_pool_destroy join (Some p) = Some (0, [])"
proof -
  have "pool_trans\<^sup>*\<^sup>* (thread_pool_shutdown p) q" using assms(4) by (rule rtranclp_mono [THEN predicate2D, rotated]) (blast intro: pool_trans.work)
  then have "pool_trans\<^sup>*\<^sup>* p0 q" using assms(2) pool_trans.destroy [of p] by (meson converse_rtranclp_into_rtranclp rtranclp_trans)
  from all_exited_done [OF reachable_inv [OF assms(1) this] assms(5,6)] show ?thesis
    using assms(3) by (simp add: thread_pool_destroy_def thread_pool_leftover_def)
qed

end
