(* ===== verification/Resources.thy ===== *)
theory Resources
  imports Prelude
begin

text \<open>
  Start-up code acquires resources (locks, memory, descriptors, threads) one after the other and gives back
  what it holds when a step fails. A trace lists what happens in order; running it gives what is held at the
  end, and \<^const>\<open>None\<close> when something is released that is not held.
\<close>

datatype 'r res_event = Acquire 'r | Release 'r

fun run_trace :: "'r list \<Rightarrow> 'r res_event list \<Rightarrow> 'r list option" where
  "run_trace hs [] = Some hs"
| "run_trace hs (Acquire r # tr) = run_trace (r # hs) tr"
| "run_trace hs (Release r # tr) = (if r \<in> set hs then run_trace (remove1 r hs) tr else None)"

abbreviation held :: "'r res_event list \<Rightarrow> 'r list option" where
  "held \<equiv> run_trace []"

lemma run_trace_append: "run_trace hs (a @ b) = Option.bind (run_trace hs a) (\<lambda>hs'. run_trace hs' b)"
  by (induction hs a rule: run_trace.induct) auto

lemma run_trace_acquires: "run_trace hs (map Acquire rs) = Some (rev rs @ hs)"
  by (induction rs arbitrary: hs) auto

text \<open>Giving back in the reverse order leaves nothing more than before.\<close>

lemma run_trace_releases: "run_trace (rs @ hs) (map Release rs) = Some hs"
  by (induction rs) auto

lemma run_trace_undo: "run_trace hs (map Acquire rs @ map Release (rev rs)) = Some hs"
  by (simp add: run_trace_append run_trace_acquires run_trace_releases)

end
