(* ===== verification/Fs_Server.thy ===== *)
theory Fs_Server
  imports Fs_Transfer Fs_Config Thread_Pool Resources "HOL-Library.Multiset"
begin

text \<open>
  The file server (\<open>linux-file-server/src/server.c\<close>): the table of clients, the handlers of the commands,
  the loop that serves one connection, the accept loop, start-up and shutdown. A handler works on the
  connection of its client and on the files; undefined behaviour is \<^const>\<open>None\<close>: an overrun of the
  list buffer, or the use of a file name that arrives without a terminating \<open>NUL\<close>.
\<close>

subsection \<open>State\<close>

record client_info =
  ci_fd :: int
  ci_ip :: string
  ci_port :: int
  ci_connect_time :: int
  ci_active :: bool

text \<open>The context; \<open>srv_closed\<close> records the descriptors closed, in order.\<close>

record server_context =
  srv_config :: server_config
  srv_clients :: "client_info list"
  srv_client_count :: int
  srv_running :: bool
  srv_listen_fd :: int
  srv_epfd :: int
  srv_closed :: "int list"

definition no_client :: client_info where
  "no_client = \<lparr>ci_fd = -1, ci_ip = [], ci_port = 0, ci_connect_time = 0, ci_active = False\<rparr>"

subsection \<open>Start-up\<close>

text \<open>
  \<open>server_init\<close> acquires its resources one after the other; when a step fails it gives back what it has and
  reports the error of that step. \<open>ok\<close> says which steps succeed, the pool being the one of
  \<open>thread_pool_create\<close>; the trace lists what is acquired and released.
\<close>

datatype resource = RMutex | RClients | RPool | RListen | REpoll
datatype init_step = ISMutex | ISClients | ISSocket | ISBind | ISListen | ISEpoll | ISEpollAdd

definition ERR_BIND :: int where "ERR_BIND = -2"
definition ERR_LISTEN :: int where "ERR_LISTEN = -3"
definition ERR_THREAD :: int where "ERR_THREAD = -11"

definition server_init ::
  "(init_step \<Rightarrow> bool) \<Rightarrow> bool list \<Rightarrow> int \<Rightarrow> int \<Rightarrow> int \<Rightarrow> server_config \<Rightarrow>
   int \<times> (server_context \<times> thread_pool) option \<times> resource res_event list" where
  "server_init ok pool_oks started lfd efd cfg =
     (if \<not> ok ISMutex then (ERR_THREAD, None, [])
      else if \<not> ok ISClients then (ERR_MEMORY, None, [Acquire RMutex, Release RMutex])
      else case thread_pool_create pool_oks started (cfg_thread_num cfg) (cfg_max_clients cfg * 2) of
        None \<Rightarrow> (ERR_THREAD, None, [Acquire RMutex, Acquire RClients, Release RClients, Release RMutex])
      | Some pool \<Rightarrow>
        (let base = [Acquire RMutex, Acquire RClients, Acquire RPool];
             undo = [Release RPool, Release RClients, Release RMutex]
         in if \<not> ok ISSocket then (ERR_SOCKET, None, base @ undo)
            else if \<not> ok ISBind then (ERR_BIND, None, base @ [Acquire RListen, Release RListen] @ undo)
            else if \<not> ok ISListen then (ERR_LISTEN, None, base @ [Acquire RListen, Release RListen] @ undo)
            else if \<not> ok ISEpoll then (ERR_SOCKET, None, base @ [Acquire RListen, Release RListen] @ undo)
            else if \<not> ok ISEpollAdd then
              (ERR_SOCKET, None, base @ [Acquire RListen, Acquire REpoll, Release REpoll, Release RListen] @ undo)
            else (SUCCESS,
              Some (\<lparr>srv_config = cfg, srv_clients = replicate (nat (cfg_max_clients cfg)) no_client,
                     srv_client_count = 0, srv_running = False, srv_listen_fd = lfd, srv_epfd = efd,
                     srv_closed = []\<rparr>, pool),
              base @ [Acquire RListen, Acquire REpoll])))"

subsection \<open>The client table\<close>

text \<open>The first free slot.\<close>

fun find_slot :: "client_info list \<Rightarrow> nat option" where
  "find_slot [] = None"
| "find_slot (c # cs) = (if \<not> ci_active c then Some 0 else map_option Suc (find_slot cs))"

fun find_fd :: "int \<Rightarrow> client_info list \<Rightarrow> nat option" where
  "find_fd fd [] = None"
| "find_fd fd (c # cs) = (if ci_active c \<and> ci_fd c = fd then Some 0 else map_option Suc (find_fd fd cs))"

definition add_client :: "int \<Rightarrow> string \<Rightarrow> int \<Rightarrow> int \<Rightarrow> server_context \<Rightarrow> int \<times> server_context" where
  "add_client fd ip port now ctx =
     (case find_slot (srv_clients ctx) of
        None \<Rightarrow> (-1, ctx)
      | Some i \<Rightarrow> (int i, ctx\<lparr>srv_clients := (srv_clients ctx)[i :=
            \<lparr>ci_fd = fd, ci_ip = ip, ci_port = port, ci_connect_time = now, ci_active = True\<rparr>],
          srv_client_count := srv_client_count ctx + 1\<rparr>))"

text \<open>\<open>SAFE_CLOSE\<close> closes a descriptor that is not negative.\<close>

definition safe_close :: "int \<Rightarrow> server_context \<Rightarrow> server_context" where
  "safe_close fd ctx = (if 0 \<le> fd then ctx\<lparr>srv_closed := srv_closed ctx @ [fd]\<rparr> else ctx)"

definition remove_client :: "int \<Rightarrow> server_context \<Rightarrow> server_context" where
  "remove_client fd ctx = safe_close fd
     (case find_fd fd (srv_clients ctx) of
        None \<Rightarrow> ctx
      | Some i \<Rightarrow> ctx\<lparr>srv_clients := (srv_clients ctx)[i := (srv_clients ctx ! i)\<lparr>ci_active := False, ci_fd := -1\<rparr>],
          srv_client_count := srv_client_count ctx - 1\<rparr>)"

subsection \<open>Handlers\<close>

definition server_send_response :: "status_code \<Rightarrow> string \<Rightarrow> conn \<Rightarrow> int \<times> conn" where
  "server_send_response st msg s =
     (case sock_send (encode_response (make_response st 0 msg)) s of
        (n, s') \<Rightarrow> (if n < 0 then ERR_SEND else SUCCESS, s'))"

definition respond :: "status_code \<Rightarrow> string \<Rightarrow> conn \<Rightarrow> conn" where
  "respond st msg s = snd (server_send_response st msg s)"

text \<open>The check against path traversal, and the path of a name in the shared directory.\<close>

definition name_ok :: "string \<Rightarrow> bool" where
  "name_ok name \<longleftrightarrow> strstr name ''..'' = None \<and> strchr name (CHR ''/'') = None"

definition shared_path :: "server_config \<Rightarrow> string \<Rightarrow> path" where
  "shared_path cfg name = take 511 (cfg_shared_dir cfg @ ''/'' @ name)"

definition LIST_SIZE :: nat where [c_limits]: "LIST_SIZE = 4096"

definition list_entry :: "string \<Rightarrow> nat \<Rightarrow> string" where
  "list_entry name sz = pad_right 30 name @ '' '' @ pad_left 10 (CHR '' '') (dec_nat sz) @ '' bytes'' @ [LF]"

definition listed :: "server_config \<Rightarrow> disk \<Rightarrow> string \<Rightarrow> string option" where
  "listed cfg d name =
     (if take 1 name = ''.'' then None
      else case dfiles d (shared_path cfg name) of
        None \<Rightarrow> None | Some c \<Rightarrow> Some (list_entry name (length c)))"

definition server_list_files :: "server_config \<Rightarrow> os_env \<Rightarrow> conn \<Rightarrow> disk \<Rightarrow> (int \<times> conn) option" where
  "server_list_files cfg e s d =
     (case os_readdir e d (cfg_shared_dir cfg) of
        None \<Rightarrow> Some (ERR_FILE_OPEN, respond STATUS_ERROR ''Failed to open directory'' s)
      | Some names \<Rightarrow>
        (case snp_all LIST_SIZE (List.map_filter (listed cfg d) names) ([], 0) of
           None \<Rightarrow> None
         | Some (b, pos) \<Rightarrow>
           (let text = (if pos = 0 then ''(empty directory)'' @ [LF] else b);
                s1 = snd (sock_send (encode_response (make_response STATUS_OK (length text) ''File list'')) s)
            in Some (SUCCESS, snd (sock_send text s1)))))"

definition server_send_file :: "server_config \<Rightarrow> os_env \<Rightarrow> string \<Rightarrow> 64 word \<Rightarrow> conn \<Rightarrow> disk \<Rightarrow> int \<times> conn \<times> disk" where
  "server_send_file cfg e filename offset s d =
     (if \<not> name_ok filename then (ERR_FILE_OPEN, respond STATUS_DENIED ''Invalid filename'' s, d)
      else case open_read e d (shared_path cfg filename) of
        None \<Rightarrow> (ERR_FILE_OPEN, respond STATUS_NOT_FOUND ''File not found'' s, d)
      | Some (sz, content) \<Rightarrow>
        if sz < unat offset then (ERR_PROTOCOL, respond STATUS_ERROR ''Offset exceeds file size'' s, d)
        else
          (let st = (if 0 < offset then STATUS_PARTIAL else STATUS_OK);
               s1 = snd (sock_send (encode_response (make_response st (sz - unat offset) (''File: '' @ filename))) s)
           in case send_file_loop (drop (lseek_pos offset) content) d s1 of
             (_, d', s') \<Rightarrow> (SUCCESS, s', d')))"

definition server_recv_file ::
  "server_config \<Rightarrow> os_env \<Rightarrow> string \<Rightarrow> 32 word \<Rightarrow> 64 word \<Rightarrow> conn \<Rightarrow> disk \<Rightarrow> int \<times> conn \<times> disk" where
  "server_recv_file cfg e filename file_size offset s d =
     (if \<not> name_ok filename then (ERR_FILE_OPEN, respond STATUS_DENIED ''Invalid filename'' s, d)
      else
        (let p = shared_path cfg filename in
         case open_write e d p (if 0 < offset then ModeA else ModeW) of
           None \<Rightarrow> (ERR_FILE_OPEN,
             respond STATUS_ERROR (if 0 < offset then ''Failed to open file for resume'' else ''Failed to create file'') s, d)
         | Some d1 \<Rightarrow>
           (case recv_file_loop (unat file_size) p (lseek_pos offset) s d1 of
              (XferOk, s', d') \<Rightarrow> (SUCCESS, respond STATUS_OK ''File uploaded successfully'' s', d')
            | (XferRecv, s', d') \<Rightarrow> (ERR_RECV, s', if offset = 0 then disk_unlink p d' else d')
            | (XferWrite, s', d') \<Rightarrow> (ERR_FILE_WRITE, s', if offset = 0 then disk_unlink p d' else d'))))"

definition server_delete_file :: "server_config \<Rightarrow> os_env \<Rightarrow> string \<Rightarrow> conn \<Rightarrow> disk \<Rightarrow> int \<times> conn \<times> disk" where
  "server_delete_file cfg e filename s d =
     (if \<not> name_ok filename then (ERR_FILE_OPEN, respond STATUS_DENIED ''Invalid filename'' s, d)
      else let p = shared_path cfg filename in
        if dfiles d p \<noteq> None \<and> os_unlink e p
        then (SUCCESS, respond STATUS_OK ''File deleted'' s, disk_unlink p d)
        else (ERR_FILE_OPEN, respond STATUS_NOT_FOUND ''File not found'' s, d))"

definition server_mkdir :: "server_config \<Rightarrow> os_env \<Rightarrow> string \<Rightarrow> conn \<Rightarrow> disk \<Rightarrow> int \<times> conn \<times> disk" where
  "server_mkdir cfg e dirname s d =
     (if \<not> name_ok dirname then (ERR_FILE_OPEN, respond STATUS_DENIED ''Invalid directory name'' s, d)
      else let p = shared_path cfg dirname in
        case os_mkdir e d p of
          None \<Rightarrow> (SUCCESS, respond STATUS_OK ''Directory created'' s, d\<lparr>ddirs := (ddirs d)(p := True)\<rparr>)
        | Some err \<Rightarrow> (ERR_FILE_OPEN, respond STATUS_ERROR err s, d))"

definition server_rmdir :: "server_config \<Rightarrow> os_env \<Rightarrow> string \<Rightarrow> conn \<Rightarrow> disk \<Rightarrow> int \<times> conn \<times> disk" where
  "server_rmdir cfg e dirname s d =
     (if \<not> name_ok dirname then (ERR_FILE_OPEN, respond STATUS_DENIED ''Invalid directory name'' s, d)
      else let p = shared_path cfg dirname in
        case os_rmdir e d p of
          None \<Rightarrow> (SUCCESS, respond STATUS_OK ''Directory removed'' s, d\<lparr>ddirs := (ddirs d)(p := False)\<rparr>)
        | Some err \<Rightarrow> (ERR_FILE_OPEN, respond STATUS_ERROR err s, d))"

definition server_pwd :: "server_config \<Rightarrow> conn \<Rightarrow> int \<times> conn" where
  "server_pwd cfg s = (SUCCESS, respond STATUS_OK (cfg_shared_dir cfg) s)"

subsection \<open>One connection\<close>

text \<open>
  The \<open>switch\<close> on the command: the flag says whether the loop goes on. The handlers that use the file name
  read it as a C string.
\<close>

definition with_name :: "protocol_header \<Rightarrow> (string \<Rightarrow> int \<times> conn \<times> disk) \<Rightarrow> (bool \<times> conn \<times> disk) option" where
  "with_name h f = (case array_str (h_filename h) of None \<Rightarrow> None | Some n \<Rightarrow> (case f n of (_, s, d) \<Rightarrow> Some (True, s, d)))"

definition server_dispatch ::
  "server_config \<Rightarrow> os_env \<Rightarrow> protocol_header \<Rightarrow> conn \<Rightarrow> disk \<Rightarrow> (bool \<times> conn \<times> disk) option" where
  "server_dispatch cfg e h s d =
     (if h_cmd h = cmd_code CMD_LIST then map_option (\<lambda>(_, s'). (True, s', d)) (server_list_files cfg e s d)
      else if h_cmd h = cmd_code CMD_DOWNLOAD then with_name h (\<lambda>n. server_send_file cfg e n (h_offset h) s d)
      else if h_cmd h = cmd_code CMD_UPLOAD then with_name h (\<lambda>n. server_recv_file cfg e n (h_data_len h) (h_offset h) s d)
      else if h_cmd h = cmd_code CMD_DELETE then with_name h (\<lambda>n. server_delete_file cfg e n s d)
      else if h_cmd h = cmd_code CMD_MKDIR then with_name h (\<lambda>n. server_mkdir cfg e n s d)
      else if h_cmd h = cmd_code CMD_RMDIR then with_name h (\<lambda>n. server_rmdir cfg e n s d)
      else if h_cmd h = cmd_code CMD_PWD then Some (True, snd (server_pwd cfg s), d)
      else if h_cmd h = cmd_code CMD_QUIT then Some (False, respond STATUS_OK ''Goodbye'' s, d)
      else Some (True, respond STATUS_ERROR ''Unknown command'' s, d))"

lemma respond_inp [simp]: "inp (respond st m s) = inp s" "rscript (respond st m s) = rscript s"
  by (auto simp: respond_def server_send_response_def split: prod.splits dest: sock_send_frame)

lemma sock_send_inp [simp]: "inp (snd (sock_send b s)) = inp s"
  by (cases "sock_send b s") (auto dest: sock_send_frame)

lemma server_recv_file_inp: "server_recv_file cfg e f n off s d = (r, s', d') \<Longrightarrow> length (inp s') \<le> length (inp s)"
proof -
  assume a: "server_recv_file cfg e f n off s d = (r, s', d')"
  show ?thesis
  proof (cases "\<not> name_ok f \<or> open_write e d (shared_path cfg f) (if 0 < off then ModeA else ModeW) = None")
    case True
    then show ?thesis using a by (auto simp: server_recv_file_def Let_def split: if_splits)
  next
    case False
    then obtain d1 where w: "open_write e d (shared_path cfg f) (if 0 < off then ModeA else ModeW) = Some d1" by blast
    obtain x s1 d2 where l: "recv_file_loop (unat n) (shared_path cfg f) (lseek_pos off) s d1 = (x, s1, d2)"
      by (metis prod.exhaust)
    have "s' = s1 \<or> s' = respond STATUS_OK ''File uploaded successfully'' s1"
      using a False w l by (auto simp: server_recv_file_def Let_def split: xfer.splits)
    then show ?thesis using recv_file_loop_frame [OF l] by auto
  qed
qed

lemma server_send_file_inp: "server_send_file cfg e f off s d = (r, s', d') \<Longrightarrow> inp s' = inp s"
  by (auto simp: server_send_file_def Let_def split: if_splits option.splits prod.splits dest!: send_file_loop_frame)

lemmas small_handlers = server_delete_file_def server_mkdir_def server_rmdir_def server_pwd_def server_list_files_def

lemma server_dispatch_inp: "server_dispatch cfg e h s d = Some (go, s', d') \<Longrightarrow> length (inp s') \<le> length (inp s)"
proof -
  assume a: "server_dispatch cfg e h s d = Some (go, s', d')"
  have sm: "server_delete_file cfg e n s d = (r, s1, d1) \<Longrightarrow> inp s1 = inp s"
    "server_mkdir cfg e n s d = (r, s1, d1) \<Longrightarrow> inp s1 = inp s"
    "server_rmdir cfg e n s d = (r, s1, d1) \<Longrightarrow> inp s1 = inp s"
    "server_list_files cfg e s d = Some (r, s1) \<Longrightarrow> inp s1 = inp s" for n r s1 d1
    by (auto simp: small_handlers Let_def split: if_splits option.splits)
  show ?thesis using a
    by (auto simp: server_dispatch_def with_name_def server_pwd_def split: if_splits option.splits prod.splits
        dest!: server_recv_file_inp server_send_file_inp sm)
qed

text \<open>
  The loop of \<open>server_handle_client\<close>. What \<open>g_ctx->running\<close> is at each turn is a script; past its end the
  server keeps running. Every turn takes a header from the input, so the loop ends with the input.
\<close>

function server_loop :: "server_config \<Rightarrow> os_env \<Rightarrow> bool list \<Rightarrow> conn \<Rightarrow> disk \<Rightarrow> (conn \<times> disk) option" where
  "server_loop cfg e run s d =
     (if run \<noteq> [] \<and> \<not> hd run then Some (s, d)
      else case recv_all HEADER_SIZE s of
        (None, s') \<Rightarrow> Some (s', d)
      | (Some b, s') \<Rightarrow>
        if h_magic (decode_header b) \<noteq> PROTOCOL_MAGIC then Some (respond STATUS_ERROR ''Invalid protocol'' s', d)
        else case server_dispatch cfg e (decode_header b) s' d of
          None \<Rightarrow> None
        | Some (go, s'', d') \<Rightarrow> if go then server_loop cfg e (tl run) s'' d' else Some (s'', d'))"
  by pat_completeness auto
termination
proof (relation "measure (\<lambda>(cfg, e, run, s, d). length (inp s))", goal_cases)
  case (2 cfg e run s d r s' b x go y s'' d')
  then have "length (inp s'') \<le> length (inp s')" by (auto dest: server_dispatch_inp)
  moreover have "length (inp s') < length (inp s)" using recv_all_Some [of HEADER_SIZE s b s'] 2 by (auto simp: c_limits)
  ultimately show ?case by simp
qed simp

declare server_loop.simps [simp del]

definition server_handle_client ::
  "os_env \<Rightarrow> bool list \<Rightarrow> nat \<Rightarrow> conn \<Rightarrow> disk \<Rightarrow> server_context \<Rightarrow> (conn \<times> disk \<times> server_context) option" where
  "server_handle_client e run i s d ctx =
     (let fd = ci_fd (srv_clients ctx ! i) in
      case server_loop (srv_config ctx) e run s d of
        None \<Rightarrow> None
      | Some (s', d') \<Rightarrow> Some (s', d', remove_client fd ctx))"

subsection \<open>Accepting and stopping\<close>

text \<open>
  What one ready event of the listening socket brings: \<open>accept\<close> fails, or it gives a descriptor with the
  address of the peer, at a time, and \<open>thread_pool_add_task\<close> takes the task or not. The events record
  which slot was handed to the pool and which connection was turned away.
\<close>

datatype accept_result = AcceptErr | Accepted int string int int bool
datatype accept_event = Submitted nat | Rejected int

fun server_accept :: "accept_result \<Rightarrow> server_context \<Rightarrow> accept_event list \<times> server_context" where
  "server_accept AcceptErr ctx = ([], ctx)"
| "server_accept (Accepted fd ip port now added) ctx =
     (case add_client fd ip port now ctx of (idx, ctx') \<Rightarrow>
        if idx < 0 then ([Rejected fd], safe_close fd ctx')
        else if added then ([Submitted (nat idx)], ctx')
        else ([], remove_client fd ctx'))"

text \<open>
  A turn of the loop of \<open>server_start\<close>: whether \<open>running\<close> is still set, whether \<open>SIGHUP\<close> arrived and what the
  configuration file then holds, and what \<open>epoll_wait\<close> reports (\<^const>\<open>None\<close>: it fails).
\<close>

record start_turn =
  t_running :: bool
  t_reload :: "bytes option option"
  t_ready :: "accept_result list option"

fun accept_all :: "accept_result list \<Rightarrow> server_context \<Rightarrow> accept_event list \<times> server_context" where
  "accept_all [] ctx = ([], ctx)"
| "accept_all (a # as) ctx = (case server_accept a ctx of (ev, ctx1) \<Rightarrow>
     case accept_all as ctx1 of (evs, ctx2) \<Rightarrow> (ev @ evs, ctx2))"

fun start_loop :: "start_turn list \<Rightarrow> log_level \<Rightarrow> server_context \<Rightarrow> accept_event list \<times> log_level \<times> server_context" where
  "start_loop [] l ctx = ([], l, ctx)"
| "start_loop (t # ts) l ctx =
     (if \<not> t_running t then ([], l, ctx)
      else let l' = (case t_reload t of None \<Rightarrow> l | Some fp \<Rightarrow> server_reload fp l) in
        case t_ready t of
          None \<Rightarrow> start_loop ts l' ctx
        | Some as \<Rightarrow> (case accept_all as ctx of (ev, ctx1) \<Rightarrow>
            case start_loop ts l' ctx1 of (evs, l2, ctx2) \<Rightarrow> (ev @ evs, l2, ctx2)))"

definition server_start :: "start_turn list \<Rightarrow> log_level \<Rightarrow> server_context \<Rightarrow> accept_event list \<times> log_level \<times> server_context" where
  "server_start ts l ctx = start_loop ts l (ctx\<lparr>srv_running := True\<rparr>)"

text \<open>
  \<open>server_stop\<close> up to the end of the thread pool: the epoll instance, the listening socket and every active
  client are closed and the slots are free. The count of clients is not touched.
\<close>

definition active_fds :: "client_info list \<Rightarrow> int list" where
  "active_fds cs = map ci_fd (filter ci_active cs)"

definition server_stop :: "server_context \<Rightarrow> server_context" where
  "server_stop ctx =
     (let c1 = safe_close (srv_listen_fd ctx) (safe_close (srv_epfd ctx) (ctx\<lparr>srv_running := False\<rparr>))
      in fold safe_close (active_fds (srv_clients ctx)) c1
           \<lparr>srv_clients := map (\<lambda>c. if ci_active c then c\<lparr>ci_fd := -1, ci_active := False\<rparr> else c) (srv_clients ctx)\<rparr>)"

subsection \<open>The client table\<close>

definition table_ok :: "server_context \<Rightarrow> bool" where
  "table_ok ctx \<longleftrightarrow> length (srv_clients ctx) = nat (cfg_max_clients (srv_config ctx)) \<and>
     srv_client_count ctx = int (length (active_fds (srv_clients ctx))) \<and>
     distinct (active_fds (srv_clients ctx))"

lemma active_fds_simps [simp]:
  "active_fds [] = []" "active_fds (c # cs) = (if ci_active c then ci_fd c # active_fds cs else active_fds cs)"
  "active_fds (cs @ ds) = active_fds cs @ active_fds ds"
  by (simp_all add: active_fds_def)

lemma find_slot_Some: "find_slot cs = Some i \<Longrightarrow> i < length cs \<and> \<not> ci_active (cs ! i)"
  by (induction cs arbitrary: i) (auto split: if_splits)

lemma find_slot_None: "find_slot cs = None \<longleftrightarrow> list_all ci_active cs"
  by (induction cs) auto

lemma find_fd_Some: "find_fd fd cs = Some i \<Longrightarrow> i < length cs \<and> ci_active (cs ! i) \<and> ci_fd (cs ! i) = fd"
  by (induction cs arbitrary: i) (auto split: if_splits)

lemma find_fd_None: "find_fd fd cs = None \<longleftrightarrow> fd \<notin> set (active_fds cs)"
  by (induction cs) auto

text \<open>The effect of writing one slot, in the multiset of active descriptors.\<close>

lemma active_update_add:
  "i < length cs \<Longrightarrow> \<not> ci_active (cs ! i) \<Longrightarrow> ci_active c \<Longrightarrow>
     mset (active_fds (cs[i := c])) = add_mset (ci_fd c) (mset (active_fds cs))"
proof (induction cs arbitrary: i)
  case (Cons x xs)
  then show ?case by (cases i) auto
qed simp

lemma active_update_del:
  "i < length cs \<Longrightarrow> ci_active (cs ! i) \<Longrightarrow> \<not> ci_active c \<Longrightarrow>
     add_mset (ci_fd (cs ! i)) (mset (active_fds (cs[i := c]))) = mset (active_fds cs)"
proof (induction cs arbitrary: i)
  case (Cons x xs)
  then show ?case by (cases i) (auto simp: add_mset_commute)
qed simp

lemma length_active: "length (active_fds cs) \<le> length cs"
  by (simp add: active_fds_def)

lemma add_client_ok:
  assumes "table_ok ctx" and "fd \<notin> set (active_fds (srv_clients ctx))" and "add_client fd ip port now ctx = (idx, ctx')"
    and "0 \<le> idx"
  shows "table_ok ctx'" and "mset (active_fds (srv_clients ctx')) = add_mset fd (mset (active_fds (srv_clients ctx)))"
    and "srv_closed ctx' = srv_closed ctx" and "srv_config ctx' = srv_config ctx"
    and "nat idx < length (srv_clients ctx')" and "ci_active (srv_clients ctx' ! nat idx)" and "ci_fd (srv_clients ctx' ! nat idx) = fd"
proof -
  obtain i where i: "find_slot (srv_clients ctx) = Some i"
    using assms(3,4) by (auto simp: add_client_def split: option.splits)
  note f = find_slot_Some [OF i]
  define c where "c = \<lparr>ci_fd = fd, ci_ip = ip, ci_port = port, ci_connect_time = now, ci_active = True\<rparr>"
  have eq: "ctx' = ctx\<lparr>srv_clients := (srv_clients ctx)[i := c], srv_client_count := srv_client_count ctx + 1\<rparr>" "idx = int i"
    using assms(3) i by (auto simp: add_client_def c_def)
  show m: "mset (active_fds (srv_clients ctx')) = add_mset fd (mset (active_fds (srv_clients ctx)))"
    using active_update_add [of i "srv_clients ctx" c] f by (simp add: eq c_def)
  then have "distinct (active_fds (srv_clients ctx'))"
    using assms(1,2) by (metis distinct.simps(2) mset.simps(2) mset_eq_imp_distinct_iff table_ok_def)
  moreover have "length (active_fds (srv_clients ctx')) = Suc (length (active_fds (srv_clients ctx)))"
    using m by (metis size_add_mset size_mset)
  ultimately show "table_ok ctx'" using assms(1) by (simp add: table_ok_def eq)
  show "srv_closed ctx' = srv_closed ctx" "srv_config ctx' = srv_config ctx" by (simp_all add: eq)
  show "nat idx < length (srv_clients ctx')" "ci_active (srv_clients ctx' ! nat idx)" "ci_fd (srv_clients ctx' ! nat idx) = fd"
    using f by (simp_all add: eq c_def)
qed

lemma safe_close_simps [simp]:
  "srv_clients (safe_close fd ctx) = srv_clients ctx" "srv_config (safe_close fd ctx) = srv_config ctx"
  "srv_client_count (safe_close fd ctx) = srv_client_count ctx"
  "0 \<le> fd \<Longrightarrow> srv_closed (safe_close fd ctx) = srv_closed ctx @ [fd]"
  "table_ok (safe_close fd ctx) \<longleftrightarrow> table_ok ctx"
  by (simp_all add: safe_close_def table_ok_def)

lemma remove_client_ok:
  assumes "table_ok ctx" and "fd \<in> set (active_fds (srv_clients ctx))" and "0 \<le> fd"
  shows "table_ok (remove_client fd ctx)"
    and "add_mset fd (mset (active_fds (srv_clients (remove_client fd ctx)))) = mset (active_fds (srv_clients ctx))"
    and "srv_closed (remove_client fd ctx) = srv_closed ctx @ [fd]" and "srv_config (remove_client fd ctx) = srv_config ctx"
proof -
  obtain i where i: "find_fd fd (srv_clients ctx) = Some i" using assms(2) find_fd_None by (cases "find_fd fd (srv_clients ctx)") auto
  note f = find_fd_Some [OF i]
  define c where "c = (srv_clients ctx ! i)\<lparr>ci_active := False, ci_fd := -1\<rparr>"
  define k where "k = ctx\<lparr>srv_clients := (srv_clients ctx)[i := c], srv_client_count := srv_client_count ctx - 1\<rparr>"
  have eq: "remove_client fd ctx = safe_close fd k" using i by (simp add: remove_client_def k_def c_def)
  have m: "add_mset fd (mset (active_fds (srv_clients k))) = mset (active_fds (srv_clients ctx))"
    using active_update_del [of i "srv_clients ctx" c] f by (simp add: k_def c_def)
  then show "add_mset fd (mset (active_fds (srv_clients (remove_client fd ctx)))) = mset (active_fds (srv_clients ctx))"
    by (simp add: eq)
  have "distinct (active_fds (srv_clients k))"
    using assms(1) m by (metis distinct.simps(2) mset.simps(2) mset_eq_imp_distinct_iff table_ok_def)
  moreover have "Suc (length (active_fds (srv_clients k))) = length (active_fds (srv_clients ctx))"
    using m by (metis size_add_mset size_mset)
  ultimately have "table_ok k" using assms(1) by (auto simp: table_ok_def k_def)
  then show "table_ok (remove_client fd ctx)" by (simp add: eq)
  show "srv_closed (remove_client fd ctx) = srv_closed ctx @ [fd]" "srv_config (remove_client fd ctx) = srv_config ctx"
    using assms(3) by (simp_all add: eq k_def)
qed

text \<open>
  The life of the table: the accept loop takes a connection, whose descriptor the kernel chose among those
  not open, or a worker finishes serving an active slot. The first component of the state lists the
  descriptors accepted so far.
\<close>

inductive table_step :: "int list \<times> server_context \<Rightarrow> int list \<times> server_context \<Rightarrow> bool" where
  accept: "0 \<le> fd \<Longrightarrow> fd \<notin> set (active_fds (srv_clients ctx)) \<Longrightarrow>
    server_accept (Accepted fd ip port now added) ctx = (ev, ctx') \<Longrightarrow> table_step (acc, ctx) (acc @ [fd], ctx')"
| finish: "i < length (srv_clients ctx) \<Longrightarrow> ci_active (srv_clients ctx ! i) \<Longrightarrow>
    server_handle_client e run i s d ctx = Some (s', d', ctx') \<Longrightarrow> table_step (acc, ctx) (acc, ctx')"

inductive_cases table_stepE: "table_step st st'"

definition accounted :: "int list \<times> server_context \<Rightarrow> bool" where
  "accounted st \<longleftrightarrow> table_ok (snd st) \<and> (\<forall>fd \<in> set (active_fds (srv_clients (snd st))). 0 \<le> fd) \<and>
     mset (fst st) = mset (srv_closed (snd st)) + mset (active_fds (srv_clients (snd st)))"

lemma accounted_accept:
  assumes "accounted (acc, ctx)" and "0 \<le> fd" and "fd \<notin> set (active_fds (srv_clients ctx))"
    and "server_accept (Accepted fd ip port now added) ctx = (ev, ctx')"
  shows "accounted (acc @ [fd], ctx')"
proof -
  obtain idx c1 where a: "add_client fd ip port now ctx = (idx, c1)" by fastforce
  have ok: "table_ok ctx" and nn: "\<forall>fd \<in> set (active_fds (srv_clients ctx)). 0 \<le> fd"
    and m: "mset acc = mset (srv_closed ctx) + mset (active_fds (srv_clients ctx))"
    using assms(1) by (auto simp: accounted_def)
  show ?thesis
  proof (cases "idx < 0")
    case True
    then have "ctx' = safe_close fd ctx" using assms(4) a by (auto simp: add_client_def split: option.splits)
    then show ?thesis using ok nn m assms(2) by (simp add: accounted_def)
  next
    case False
    note c = add_client_ok [OF ok assms(3) a]
    have set1: "set (active_fds (srv_clients c1)) = insert fd (set (active_fds (srv_clients ctx)))"
      using c(2) False by (metis set_mset_add_mset_insert set_mset_mset not_less)
    have nn1: "\<forall>fd \<in> set (active_fds (srv_clients c1)). 0 \<le> fd" using nn assms(2) set1 by auto
    show ?thesis
    proof (cases added)
      case True
      then have "ctx' = c1" using assms(4) a False by simp
      then show ?thesis using c False nn1 m by (simp add: accounted_def)
    next
      case na: False
      then have x: "ctx' = remove_client fd c1" using assms(4) a False by simp
      have "fd \<in> set (active_fds (srv_clients c1))" using set1 by simp
      note r = remove_client_ok [OF c(1) this assms(2)]
      have "mset (active_fds (srv_clients ctx')) = mset (active_fds (srv_clients ctx))"
        using r(2) c(2) False by (simp add: x)
      moreover from this have "set (active_fds (srv_clients ctx')) = set (active_fds (srv_clients ctx))"
        by (rule mset_eq_setD)
      ultimately show ?thesis using r(1,3) c(3) False nn m by (simp add: accounted_def x)
    qed
  qed
qed

lemma accounted_finish:
  assumes "accounted (acc, ctx)" and "i < length (srv_clients ctx)" and "ci_active (srv_clients ctx ! i)"
    and "server_handle_client e run i s d ctx = Some (s', d', ctx')"
  shows "accounted (acc, ctx')"
proof -
  define fd where "fd = ci_fd (srv_clients ctx ! i)"
  have x: "ctx' = remove_client fd ctx"
    using assms(4) by (auto simp: server_handle_client_def Let_def fd_def split: option.splits)
  have fd: "fd \<in> set (active_fds (srv_clients ctx))" using assms(2,3) by (auto simp: active_fds_def fd_def)
  have "0 \<le> fd" using assms(1) fd by (auto simp: accounted_def)
  note r = remove_client_ok [OF _ fd this]
  have "table_ok ctx" using assms(1) by (simp add: accounted_def)
  note r = r [OF this]
  have "set (active_fds (srv_clients ctx')) \<subseteq> set (active_fds (srv_clients ctx))"
    using r(2) unfolding x by (metis set_mset_mset set_mset_add_mset_insert subset_insertI)
  moreover have "mset acc = mset (srv_closed ctx') + mset (active_fds (srv_clients ctx'))"
  proof -
    have "mset acc = mset (srv_closed ctx) + mset (active_fds (srv_clients ctx))" using assms(1) by (simp add: accounted_def)
    also have "\<dots> = mset (srv_closed ctx) + add_mset fd (mset (active_fds (srv_clients ctx')))" using r(2) by (simp add: x)
    finally show ?thesis using r(3) by (simp add: x)
  qed
  ultimately show ?thesis using assms(1) r(1) by (auto simp: accounted_def x)
qed

lemma accounted_step: "table_step st st' \<Longrightarrow> accounted st \<Longrightarrow> accounted st'"
  by (induction rule: table_step.induct) (auto intro: accounted_accept accounted_finish)

lemma accounted_run: "table_step\<^sup>*\<^sup>* st st' \<Longrightarrow> accounted st \<Longrightarrow> accounted st'"
  by (induction rule: rtranclp_induct) (auto intro: accounted_step)

lemma server_init_accounted: "server_init ok po n lfd efd cfg = (r, Some (ctx, pool), tr) \<Longrightarrow> accounted ([], ctx)"
  by (auto simp: server_init_def Let_def accounted_def table_ok_def active_fds_def no_client_def
      split: if_splits option.splits)

text \<open>
  C7. From a successful \<open>server_init\<close> on, whatever connections arrive, are turned away or refused by the pool,
  and in whatever order workers finish with clients: every accepted descriptor has been closed exactly
  once or belongs to exactly one active slot, the client count is the number of active slots, and it
  never exceeds the configured maximum.
\<close>

theorem client_table_history:
  assumes "server_init ok po n lfd efd cfg = (r, Some (ctx0, pool), tr)"
    and "table_step\<^sup>*\<^sup>* ([], ctx0) (acc, ctx)"
  shows "mset acc = mset (srv_closed ctx) + mset (active_fds (srv_clients ctx)) \<and>
    distinct (active_fds (srv_clients ctx)) \<and>
    srv_client_count ctx = int (length (active_fds (srv_clients ctx))) \<and>
    srv_client_count ctx \<le> int (nat (cfg_max_clients (srv_config ctx)))"
proof -
  have a: "accounted (acc, ctx)" using accounted_run [OF assms(2)] server_init_accounted [OF assms(1)] by simp
  then have "length (active_fds (srv_clients ctx)) \<le> nat (cfg_max_clients (srv_config ctx))"
    using length_active [of "srv_clients ctx"] by (auto simp: accounted_def table_ok_def)
  then show ?thesis using a by (auto simp: accounted_def table_ok_def)
qed

definition demo_config :: server_config where
  "demo_config = default_config\<lparr>cfg_max_clients := 1, cfg_shared_dir := ''d''\<rparr>"

lemma client_table_history_witness:
  "\<exists>ctx0 pool tr ctx. server_init (\<lambda>_. True) [] 4 3 4 demo_config = (SUCCESS, Some (ctx0, pool), tr) \<and>
     table_step\<^sup>*\<^sup>* ([], ctx0) ([7, 9], ctx) \<and> srv_closed ctx = [9] \<and> srv_client_count ctx = 1"
proof -
  obtain ctx0 pool tr where i: "server_init (\<lambda>_. True) [] 4 3 4 demo_config = (SUCCESS, Some (ctx0, pool), tr)"
    and c0: "srv_clients ctx0 = [no_client]" "srv_closed ctx0 = []" "srv_client_count ctx0 = 0"
    by (simp add: server_init_def thread_pool_create_def demo_config_def default_config_def)
  define ctx1 where "ctx1 = snd (add_client 7 [] 1 0 ctx0)"
  have s1: "table_step ([], ctx0) ([] @ [7], ctx1)"
    by (rule table_step.accept [where ip = "[]" and port = 1 and now = 0 and added = True and ev = "[Submitted 0]"])
      (simp_all add: c0 ctx1_def add_client_def no_client_def)
  have s2: "table_step ([7], ctx1) ([7] @ [9], safe_close 9 ctx1)"
    by (rule table_step.accept [where ip = "[]" and port = 1 and now = 0 and added = True and ev = "[Rejected 9]"])
      (simp_all add: c0 ctx1_def add_client_def no_client_def)
  have run: "table_step\<^sup>*\<^sup>* ([], ctx0) ([7, 9], safe_close 9 ctx1)"
    using s1 s2 by (metis append_Cons append_Nil rtranclp.rtrancl_into_rtrancl rtranclp.rtrancl_refl)
  have "srv_client_count (safe_close 9 ctx1) = int (length (active_fds (srv_clients (safe_close 9 ctx1))))"
    using client_table_history [OF i run] by blast
  also have "\<dots> = 1" by (simp add: ctx1_def add_client_def c0 no_client_def)
  finally show ?thesis using i run by (auto simp: ctx1_def add_client_def c0 no_client_def)
qed

text \<open>
  A failing \<open>server_init\<close> releases all it acquired, in the reverse order.
\<close>

lemma server_init_no_leak:
  "server_init ok po n lfd efd cfg = (r, res, tr) \<Longrightarrow>
     (r = SUCCESS \<longleftrightarrow> res \<noteq> None) \<and> (res = None \<longrightarrow> held tr = Some []) \<and>
     (res \<noteq> None \<longrightarrow> held tr = Some [REpoll, RListen, RPool, RClients, RMutex])"
  by (auto simp: server_init_def Let_def error_codes ERR_BIND_def ERR_LISTEN_def ERR_THREAD_def
      split: if_splits option.splits)

text \<open>
  When the server stops while a client is being served, \<open>server_stop\<close> closes the client's descriptor and
  frees its slot; the worker, which then leaves its loop, no longer finds the slot and closes the same
  descriptor again, and the count of clients is never brought down.
\<close>

lemma stop_closes_twice:
  assumes "table_ok ctx" and "i < length (srv_clients ctx)" and "ci_active (srv_clients ctx ! i)"
    and "0 \<le> ci_fd (srv_clients ctx ! i)" and "fd = ci_fd (srv_clients ctx ! i)"
  shows "2 \<le> count (mset (srv_closed (remove_client fd (server_stop ctx)))) fd \<and>
    srv_client_count (remove_client fd (server_stop ctx)) = srv_client_count ctx \<and>
    active_fds (srv_clients (server_stop ctx)) = []"
proof -
  have fold_close: "srv_closed (fold safe_close fds c) = srv_closed c @ filter (\<lambda>x. 0 \<le> x) fds" for fds c
    by (induction fds arbitrary: c) (auto simp: safe_close_def)
  have fold_other: "srv_client_count (fold safe_close fds c) = srv_client_count c"
    "srv_clients (fold safe_close fds c) = srv_clients c" for fds c
    by (induction fds arbitrary: c) simp_all
  have none: "active_fds (srv_clients (server_stop ctx)) = []"
    by (auto simp: server_stop_def Let_def active_fds_def filter_empty_conv)
  then have "find_fd fd (srv_clients (server_stop ctx)) = None" by (simp add: find_fd_None)
  then have r: "remove_client fd (server_stop ctx) = safe_close fd (server_stop ctx)" by (simp add: remove_client_def)
  have mem: "fd \<in> set (filter (\<lambda>x. 0 \<le> x) (active_fds (srv_clients ctx)))" using assms(2-5) by (auto simp: active_fds_def)
  have "fd \<in> set (srv_closed (server_stop ctx))"
    using mem by (simp add: server_stop_def Let_def fold_close)
  then have "1 \<le> count (mset (srv_closed (server_stop ctx))) fd" by (metis count_greater_eq_one_iff set_mset_mset)
  moreover have "srv_client_count (server_stop ctx) = srv_client_count ctx"
    by (simp add: server_stop_def Let_def fold_other)
  moreover have "0 \<le> fd" using assms(4,5) by simp
  ultimately show ?thesis using none unfolding r by simp
qed

lemma stop_closes_twice_witness:
  "2 \<le> count (mset (srv_closed (remove_client 7 (server_stop
     \<lparr>srv_config = demo_config, srv_clients = [\<lparr>ci_fd = 7, ci_ip = [], ci_port = 1, ci_connect_time = 0, ci_active = True\<rparr>],
      srv_client_count = 1, srv_running = True, srv_listen_fd = 3, srv_epfd = 4, srv_closed = []\<rparr>)))) 7"
  using stop_closes_twice [of "\<lparr>srv_config = demo_config,
      srv_clients = [\<lparr>ci_fd = 7, ci_ip = [], ci_port = 1, ci_connect_time = 0, ci_active = True\<rparr>],
      srv_client_count = 1, srv_running = True, srv_listen_fd = 3, srv_epfd = 4, srv_closed = []\<rparr>" 0 7]
  by (simp add: table_ok_def demo_config_def default_config_def)

subsection \<open>Confinement\<close>

text \<open>The files and directories a handler may change: names in the shared directory, one level deep.\<close>

definition in_shared :: "server_config \<Rightarrow> path \<Rightarrow> bool" where
  "in_shared cfg p \<longleftrightarrow> (\<exists>name. length name \<le> 255 \<and> name_ok name \<and> p = shared_path cfg name)"

definition same_outside :: "server_config \<Rightarrow> disk \<Rightarrow> disk \<Rightarrow> bool" where
  "same_outside cfg d d' \<longleftrightarrow> (\<forall>p. \<not> in_shared cfg p \<longrightarrow> dfiles d' p = dfiles d p \<and> ddirs d' p = ddirs d p)"

lemma same_outside_refl [simp]: "same_outside cfg d d"
  by (simp add: same_outside_def)

lemma same_outside_trans: "same_outside cfg d d1 \<Longrightarrow> same_outside cfg d1 d2 \<Longrightarrow> same_outside cfg d d2"
  by (simp add: same_outside_def)

lemma same_outsideI:
  "length n \<le> 255 \<Longrightarrow> name_ok n \<Longrightarrow> (\<And>q. q \<noteq> shared_path cfg n \<Longrightarrow> dfiles d' q = dfiles d q \<and> ddirs d' q = ddirs d q) \<Longrightarrow>
   same_outside cfg d d'"
  by (auto simp: same_outside_def in_shared_def)

lemma open_write_frame: "open_write e d p m = Some d' \<Longrightarrow> ddirs d' = ddirs d \<and> (\<forall>q. q \<noteq> p \<longrightarrow> dfiles d' q = dfiles d q)"
  by (auto simp: open_write_def fopen_def split: if_splits option.splits fmode.splits)

lemma recv_file_confined:
  assumes "length n \<le> 255" and "server_recv_file cfg e n sz off s d = (r, s', d')"
  shows "same_outside cfg d d'"
proof (cases "\<not> name_ok n \<or> open_write e d (shared_path cfg n) (if 0 < off then ModeA else ModeW) = None")
  case True
  then show ?thesis using assms(2) by (auto simp: server_recv_file_def Let_def split: if_splits)
next
  case False
  then obtain d1 where w: "open_write e d (shared_path cfg n) (if 0 < off then ModeA else ModeW) = Some d1" by blast
  obtain x s1 d2 where l: "recv_file_loop (unat sz) (shared_path cfg n) (lseek_pos off) s d1 = (x, s1, d2)"
    by (metis prod.exhaust)
  have "d' = d2 \<or> d' = disk_unlink (shared_path cfg n) d2"
    using assms(2) False w l by (auto simp: server_recv_file_def Let_def split: xfer.splits if_splits)
  then show ?thesis using False assms(1) open_write_frame [OF w] recv_file_loop_frame [OF l]
    by (intro same_outsideI [of n]) (auto simp: disk_unlink_def)
qed

lemma send_file_confined:
  assumes "server_send_file cfg e n off s d = (r, s', d')"
  shows "same_outside cfg d d'"
proof -
  have "dfiles d' = dfiles d \<and> ddirs d' = ddirs d"
    using assms by (auto simp: server_send_file_def Let_def split: if_splits option.splits prod.splits dest!: send_file_loop_frame)
  then show ?thesis by (simp add: same_outside_def)
qed

lemma small_confined:
  assumes "length n \<le> 255"
  shows "server_delete_file cfg e n s d = (r, s', d') \<Longrightarrow> same_outside cfg d d'"
    and "server_mkdir cfg e n s d = (r, s', d') \<Longrightarrow> same_outside cfg d d'"
    and "server_rmdir cfg e n s d = (r, s', d') \<Longrightarrow> same_outside cfg d d'"
  using assms
  by (auto simp: small_handlers Let_def disk_unlink_def split: if_splits option.splits intro!: same_outsideI [of n])

lemma array_str_length: "array_str b = Some n \<Longrightarrow> length n < length b"
proof -
  assume "array_str b = Some n"
  then have "NUL \<in> set b" "n = cstr b" by (auto simp: array_str_def split: if_splits)
  then have "cstr b \<noteq> b" using is_cstr_cstr [of b] by (auto simp: is_cstr_def)
  moreover have "cstr b = take (length (cstr b)) b" unfolding cstr_def by (rule takeWhile_eq_take)
  ultimately have "length (cstr b) \<noteq> length b" by auto
  then show ?thesis using length_cstr [of b] \<open>n = cstr b\<close> by simp
qed

lemma dispatch_confined:
  assumes "length (h_filename h) = NAME_SIZE" and "server_dispatch cfg e h s d = Some (go, s', d')"
  shows "same_outside cfg d d'"
proof -
  have wn: "same_outside cfg d d'"
    if w: "with_name h f = Some (go, s', d')" and f: "\<And>n r s1 d1. length n \<le> 255 \<Longrightarrow> f n = (r, s1, d1) \<Longrightarrow> same_outside cfg d d1" for f
  proof -
    obtain n r where "array_str (h_filename h) = Some n" "f n = (r, s', d')"
      using w by (auto simp: with_name_def split: option.splits prod.splits)
    then show ?thesis using f [of n r s' d'] array_str_length [of "h_filename h" n] assms(1) by (simp add: c_limits)
  qed
  show ?thesis using assms(2)
    by (auto simp: server_dispatch_def split: if_splits option.splits prod.splits elim!: wn
        intro: recv_file_confined send_file_confined small_confined)
qed

lemma length_decode_filename: "length b = HEADER_SIZE \<Longrightarrow> length (h_filename (decode_header b)) = NAME_SIZE"
  by (simp add: decode_header_def c_limits)

text \<open>The turns of the loop.\<close>

lemma server_loop_stop: "run \<noteq> [] \<Longrightarrow> \<not> hd run \<Longrightarrow> server_loop cfg e run s d = Some (s, d)"
  by (simp add: server_loop.simps)

lemma server_loop_eof:
  "run = [] \<or> hd run \<Longrightarrow> recv_all HEADER_SIZE s = (None, s1) \<Longrightarrow> server_loop cfg e run s d = Some (s1, d)"
  by (subst server_loop.simps) auto

lemma server_loop_magic:
  "run = [] \<or> hd run \<Longrightarrow> recv_all HEADER_SIZE s = (Some b, s1) \<Longrightarrow> h_magic (decode_header b) \<noteq> PROTOCOL_MAGIC \<Longrightarrow>
   server_loop cfg e run s d = Some (respond STATUS_ERROR ''Invalid protocol'' s1, d)"
  by (subst server_loop.simps) auto

lemma server_loop_turn:
  "run = [] \<or> hd run \<Longrightarrow> recv_all HEADER_SIZE s = (Some b, s1) \<Longrightarrow> h_magic (decode_header b) = PROTOCOL_MAGIC \<Longrightarrow>
   server_loop cfg e run s d =
     (case server_dispatch cfg e (decode_header b) s1 d of None \<Rightarrow> None
      | Some (go, s2, d2) \<Rightarrow> if go then server_loop cfg e (tl run) s2 d2 else Some (s2, d2))"
  by (subst server_loop.simps) auto

lemmas server_loop_ends = server_loop_stop server_loop_eof server_loop_magic

lemma loop_confined: "server_loop cfg e run s d = Some (s', d') \<Longrightarrow> same_outside cfg d d'"
proof (induction cfg e run s d arbitrary: s' d' rule: server_loop.induct)
  case (1 cfg e run s d)
  obtain r s1 where r: "recv_all HEADER_SIZE s = (r, s1)" by fastforce
  show ?case
  proof (cases "(run \<noteq> [] \<and> \<not> hd run) \<or> r = None \<or> h_magic (decode_header (the r)) \<noteq> PROTOCOL_MAGIC")
    case True
    then have "d' = d" using 1(2) r
      by (cases r; cases "run = [] \<or> hd run") (auto simp: server_loop_ends)
    then show ?thesis by simp
  next
    case False
    then obtain b where b: "r = Some b" "h_magic (decode_header b) = PROTOCOL_MAGIC" and go: "run = [] \<or> hd run" by auto
    note turn = server_loop_turn [OF go r [unfolded b(1)] b(2), of cfg e d]
    have len: "length b = HEADER_SIZE" using recv_all_Some(2) r b by auto
    obtain go s2 d2 where d: "server_dispatch cfg e (decode_header b) s1 d = Some (go, s2, d2)"
      using 1(2) turn by (auto split: option.splits)
    have c: "same_outside cfg d d2" by (rule dispatch_confined [OF length_decode_filename [OF len] d])
    show ?thesis
    proof (cases go)
      case True
      then have "server_loop cfg e (tl run) s2 d2 = Some (s', d')" using 1(2) turn d by simp
      from 1(1) [OF _ r [symmetric] b(1) _ d refl refl True this] False b c show ?thesis
        by (auto intro: same_outside_trans)
    next
      case False
      then show ?thesis using 1(2) turn d c by simp
    qed
  qed
qed

lemma strchr_in: "strchr s c = None \<Longrightarrow> c \<notin> set s"
  by (simp add: strchr_None)


subsection \<open>The list of files\<close>

lemma length_list_entry: "48 \<le> length (list_entry name sz)"
  by (simp add: list_entry_def)

lemma concat_entries: "\<forall>x \<in> set xs. (48::nat) \<le> length x \<Longrightarrow> 48 * length xs \<le> length (concat xs)"
  by (induction xs) auto

text \<open>
  The buffer of the list is overrun: each line takes at least 48 of its 4096 bytes and the remaining size
  is computed without a check, so a shared directory with 87 or more regular files makes \<open>LIST\<close> write past
  the end of \<open>file_list\<close>; while the lines fit, the response carries exactly them and their length.
\<close>

lemma list_files_bounds:
  assumes "os_readdir e d (cfg_shared_dir cfg) = Some names"
  shows "(87 \<le> length (List.map_filter (listed cfg d) names) \<longrightarrow> server_list_files cfg e s d = None) \<and>
    (0 < length (concat (List.map_filter (listed cfg d) names)) \<and> length (concat (List.map_filter (listed cfg d) names)) < LIST_SIZE \<and>
      sscript s = [] \<longrightarrow>
      (\<exists>s'. server_list_files cfg e s d = Some (SUCCESS, s') \<and>
        outp s' = outp s @ encode_response (make_response STATUS_OK
          (length (concat (List.map_filter (listed cfg d) names))) ''File list'') @ concat (List.map_filter (listed cfg d) names)))"
proof -
  define ls where "ls = List.map_filter (listed cfg d) names"
  have e48: "\<forall>x \<in> set ls. 48 \<le> length x"
    by (auto simp: ls_def List.map_filter_def listed_def intro: length_list_entry split: if_splits option.splits)
  have over: "server_list_files cfg e s d = None" if "87 \<le> length ls"
  proof -
    have spl: "ls = take 86 ls @ drop 86 ls" by simp
    have "48 * length (take 86 ls) \<le> length (concat (take 86 ls))"
      using e48 by (intro concat_entries) (meson in_set_takeD)
    then have "LIST_SIZE < 0 + length (concat (take 86 ls))" using that by (simp add: c_limits)
    moreover have "drop 86 ls \<noteq> []" using that by simp
    ultimately have "snp_all LIST_SIZE (take 86 ls @ drop 86 ls) ([], 0) = None" by (rule snp_all_overrun)
    then show ?thesis using assms by (simp add: server_list_files_def ls_def [symmetric])
  qed
  have fits: "\<exists>s'. server_list_files cfg e s d = Some (SUCCESS, s') \<and>
      outp s' = outp s @ encode_response (make_response STATUS_OK (length (concat ls)) ''File list'') @ concat ls"
    if "0 < length (concat ls)" and "length (concat ls) < LIST_SIZE" and "sscript s = []"
  proof -
    have "snp_all LIST_SIZE ls ([], 0) = Some (concat ls, length (concat ls))"
      using snp_all_fits [of 0 ls LIST_SIZE "[]"] that(2) by simp
    then have "snp_all LIST_SIZE (List.map_filter (listed cfg d) names) ([], 0) = Some (concat ls, length (concat ls))"
      by (simp only: ls_def)
    moreover have "concat ls \<noteq> []" using that(1) by simp
    ultimately show ?thesis using assms that(3)
      by (simp add: server_list_files_def sock_send_def Let_def del: concat_eq_Nil_conv length_concat)
  qed
  show ?thesis using over fits unfolding ls_def by blast
qed

lemma list_files_bounds_witness:
  "server_list_files demo_config \<lparr>os_open = (\<lambda>p m. True), os_readdir = (\<lambda>d p. Some (map (\<lambda>i. replicate (Suc i) CHR ''a'') [0..<87])),
      os_dir_size = 0, os_mkdir = (\<lambda>d p. None), os_rmdir = (\<lambda>d p. None), os_unlink = (\<lambda>p. True)\<rparr>
     \<lparr>inp = [], rscript = [], sscript = [], outp = []\<rparr>
     \<lparr>dfiles = (\<lambda>p. Some []), ddirs = (\<lambda>p. False), dreads = [], dwrites = []\<rparr> = None"
proof -
  define e where "e = \<lparr>os_open = (\<lambda>p m. True), os_readdir = (\<lambda>d p. Some (map (\<lambda>i. replicate (Suc i) CHR ''a'') [0..<87])),
      os_dir_size = 0, os_mkdir = (\<lambda>d p. None), os_rmdir = (\<lambda>d p. None), os_unlink = (\<lambda>p. True)\<rparr>"
  define d where "d = \<lparr>dfiles = (\<lambda>p. Some []), ddirs = (\<lambda>p. False), dreads = [], dwrites = []\<rparr>"
  define names where "names = map (\<lambda>i. replicate (Suc i) CHR ''a'') [0..<87]"
  have r: "os_readdir e d (cfg_shared_dir demo_config) = Some names" unfolding e_def names_def by (simp only: os_env.select_convs)
  have "\<forall>x \<in> set names. listed demo_config d x \<noteq> None" by (auto simp: names_def listed_def d_def)
  then have "length (List.map_filter (listed demo_config d) names) = length names"
    by (simp add: List.map_filter_def filter_id_conv)
  then have "87 \<le> length (List.map_filter (listed demo_config d) names)" by (simp add: names_def)
  then show ?thesis using list_files_bounds [OF r, of "\<lparr>inp = [], rscript = [], sscript = [], outp = []\<rparr>"] unfolding e_def d_def by blast
qed


end
