(* ===== verification/Fs_Client.thy ===== *)
theory Fs_Client
  imports Fs_Transfer Fs_Config
begin

text \<open>
  The client of the file server (\<open>linux-file-server/src/client.c\<close>). Its state is the context, the
  connection, the local files and what it has printed. An operation gives its code and the new state;
  \<^const>\<open>None\<close> is undefined behaviour: printing a message that arrives with no \<open>NUL\<close>, or storing a list whose
  length plus one is zero in 32 bits.
\<close>

subsection \<open>State\<close>

record client_context =
  cc_sock_fd :: int
  cc_server_ip :: string
  cc_server_port :: int
  cc_connected :: bool
  cc_closed :: "int list"

record client =
  cl_ctx :: client_context
  cl_conn :: conn
  cl_disk :: disk
  cl_out :: string

definition say :: "string \<Rightarrow> client \<Rightarrow> client" where
  "say t c = c\<lparr>cl_out := cl_out c @ t\<rparr>"

definition client_init :: "string option \<Rightarrow> int \<Rightarrow> int \<times> client_context option" where
  "client_init ip port = (case ip of None \<Rightarrow> (ERR_MEMORY, None)
     | Some a \<Rightarrow> (SUCCESS, Some \<lparr>cc_sock_fd = -1, cc_server_ip = strncpy0 63 a, cc_server_port = port,
         cc_connected = False, cc_closed = []\<rparr>))"

text \<open>
  \<open>client_connect\<close>: what \<open>socket\<close> returns, whether the address parses and whether \<open>connect\<close> succeeds are
  the environment's.
\<close>

definition client_connect :: "int \<Rightarrow> (string \<Rightarrow> bool) \<Rightarrow> bool \<Rightarrow> client_context option \<Rightarrow> int \<times> client_context option" where
  "client_connect sock pton ok cc = (case cc of
     None \<Rightarrow> (ERR_MEMORY, None)
   | Some c \<Rightarrow>
     if sock < 0 then (ERR_SOCKET, Some (c\<lparr>cc_sock_fd := sock\<rparr>))
     else if \<not> pton (cc_server_ip c) \<or> \<not> ok
     then (ERR_CONNECT, Some (c\<lparr>cc_sock_fd := -1, cc_closed := cc_closed c @ [sock]\<rparr>))
     else (SUCCESS, Some (c\<lparr>cc_sock_fd := sock, cc_connected := True\<rparr>)))"

subsection \<open>Requests\<close>

definition make_header :: "cmd_type \<Rightarrow> nat \<Rightarrow> 64 word \<Rightarrow> string \<Rightarrow> protocol_header" where
  "make_header cmd len off name =
     \<lparr>h_magic = PROTOCOL_MAGIC, h_cmd = cmd_code cmd, h_data_len = of_nat len, h_checksum = 0, h_offset = off,
      h_filename = char_array NAME_SIZE name\<rparr>"

text \<open>
  Sending a header with one \<open>send\<close>, whose result is only checked for being negative, and receiving a
  response.
\<close>

definition send_header :: "protocol_header \<Rightarrow> client \<Rightarrow> bool \<times> client" where
  "send_header h c = (case sock_send (encode_header h) (cl_conn c) of (n, s) \<Rightarrow> (0 \<le> n, c\<lparr>cl_conn := s\<rparr>))"

definition recv_response :: "client \<Rightarrow> response_header option \<times> client" where
  "recv_response c = (case recv_all RESPONSE_SIZE (cl_conn c) of (r, s) \<Rightarrow> (map_option decode_response r, c\<lparr>cl_conn := s\<rparr>))"

definition say_message :: "string \<Rightarrow> response_header \<Rightarrow> client \<Rightarrow> client option" where
  "say_message label r c = map_option (\<lambda>m. say (label @ m @ [LF]) c) (array_str (r_message r))"

definition client_disconnect :: "client \<Rightarrow> client" where
  "client_disconnect c =
     (if cc_connected (cl_ctx c) then
        let c1 = snd (send_header (make_header CMD_QUIT 0 0 []) c);
            x = cl_ctx c1
        in c1\<lparr>cl_ctx := x\<lparr>cc_closed := (if 0 \<le> cc_sock_fd x then cc_closed x @ [cc_sock_fd x] else cc_closed x),
                          cc_sock_fd := -1, cc_connected := False\<rparr>\<rparr>
      else c)"

text \<open>Most operations end by receiving a response and printing its message, whatever its status.\<close>

definition finish_reply :: "string \<Rightarrow> client \<Rightarrow> (int \<times> client) option" where
  "finish_reply label c = (case recv_response c of
     (None, c2) \<Rightarrow> Some (ERR_RECV, c2)
   | (Some r, c2) \<Rightarrow> map_option (\<lambda>c3. (SUCCESS, c3)) (say_message label r c2))"

text \<open>
  \<open>client_delete_file\<close>, \<open>client_mkdir\<close>, \<open>client_rmdir\<close> and \<open>client_pwd\<close> send one header and print the message
  of the response, whatever its status.
\<close>

definition client_simple :: "protocol_header \<Rightarrow> string \<Rightarrow> client \<Rightarrow> (int \<times> client) option" where
  "client_simple h label c =
     (if \<not> cc_connected (cl_ctx c) then Some (ERR_CONNECT, c)
      else case send_header h c of (ok, c1) \<Rightarrow>
        if \<not> ok then Some (ERR_SEND, c1) else finish_reply label c1)"

definition client_delete_file :: "string \<Rightarrow> client \<Rightarrow> (int \<times> client) option" where
  "client_delete_file name = client_simple (make_header CMD_DELETE 0 0 name) (''Delete '' @ name @ '': '')"

definition client_mkdir :: "string \<Rightarrow> client \<Rightarrow> (int \<times> client) option" where
  "client_mkdir name = client_simple (make_header CMD_MKDIR 0 0 name) (''Mkdir '' @ name @ '': '')"

definition client_rmdir :: "string \<Rightarrow> client \<Rightarrow> (int \<times> client) option" where
  "client_rmdir name = client_simple (make_header CMD_RMDIR 0 0 name) (''Rmdir '' @ name @ '': '')"

definition client_pwd :: "client \<Rightarrow> (int \<times> client) option" where
  "client_pwd = client_simple (make_header CMD_PWD 0 0 []) ''Remote directory: ''"

definition client_list_files :: "bool \<Rightarrow> client \<Rightarrow> (int \<times> client) option" where
  "client_list_files alloc c =
     (if \<not> cc_connected (cl_ctx c) then Some (ERR_CONNECT, c)
      else case send_header (make_header CMD_LIST 0 0 []) c of (ok, c1) \<Rightarrow>
        if \<not> ok then Some (ERR_SEND, c1)
        else case recv_response c1 of
          (None, c2) \<Rightarrow> Some (ERR_RECV, c2)
        | (Some r, c2) \<Rightarrow>
          if r_status r \<noteq> status_val STATUS_OK then map_option (\<lambda>c3. (ERR_PROTOCOL, c3)) (say_message ''Error: '' r c2)
          else if r_data_len r = 0 \<or> \<not> alloc then Some (SUCCESS, c2)
          else if r_data_len r + 1 = 0 then None
          else case recv_all (unat (r_data_len r)) (cl_conn c2) of
            (None, s) \<Rightarrow> Some (SUCCESS, c2\<lparr>cl_conn := s\<rparr>)
          | (Some d, s) \<Rightarrow> Some (SUCCESS, say ([LF] @ ''=== Server Files ==='' @ [LF] @ cstr d) (c2\<lparr>cl_conn := s\<rparr>)))"

subsection \<open>Transfers\<close>

text \<open>The last component of a path.\<close>

definition base_name :: "string \<Rightarrow> string" where
  "base_name p = (case strrchr p (CHR ''/'') of None \<Rightarrow> p | Some r \<Rightarrow> tl r)"

definition client_upload_file :: "os_env \<Rightarrow> path \<Rightarrow> string option \<Rightarrow> client \<Rightarrow> (int \<times> client) option" where
  "client_upload_file e local remote c =
     (if \<not> cc_connected (cl_ctx c) then Some (ERR_CONNECT, c)
      else case open_read e (cl_disk c) local of
        None \<Rightarrow> Some (ERR_FILE_OPEN, say (''Error: Cannot open local file: '' @ local @ [LF]) c)
      | Some (sz, content) \<Rightarrow>
        (let name = (case remote of None \<Rightarrow> base_name local | Some n \<Rightarrow> n) in
         case send_header (make_header CMD_UPLOAD sz 0 name) c of (ok, c1) \<Rightarrow>
           if \<not> ok then Some (ERR_SEND, c1)
           else case send_file_loop content (cl_disk c1) (cl_conn c1) of (ok2, d, s) \<Rightarrow>
             if \<not> ok2 then Some (ERR_SEND, c1\<lparr>cl_disk := d, cl_conn := s\<rparr>)
             else finish_reply (''Upload '' @ name @ '': '') (c1\<lparr>cl_disk := d, cl_conn := s\<rparr>)))"

text \<open>The end of every download: the bytes announced are received into the file, and the result is ignored.\<close>

definition receive_into :: "path \<Rightarrow> nat \<Rightarrow> response_header \<Rightarrow> disk \<Rightarrow> client \<Rightarrow> client" where
  "receive_into p pos r d c = (case recv_file_loop (unat (r_data_len r)) p pos (cl_conn c) d of
     (_, s, d') \<Rightarrow> c\<lparr>cl_conn := s, cl_disk := d'\<rparr>)"

definition saved_line :: "string \<Rightarrow> response_header \<Rightarrow> path \<Rightarrow> string" where
  "saved_line name r p = ''Download '' @ name @ '': '' @ dec_nat (unat (r_data_len r)) @ '' bytes saved to '' @ p @ [LF]"

definition client_download_file :: "os_env \<Rightarrow> string \<Rightarrow> path option \<Rightarrow> client \<Rightarrow> (int \<times> client) option" where
  "client_download_file e remote local c =
     (let p = (case local of None \<Rightarrow> remote | Some l \<Rightarrow> l) in
      if \<not> cc_connected (cl_ctx c) then Some (ERR_CONNECT, c)
      else case send_header (make_header CMD_DOWNLOAD 0 0 remote) c of (ok, c1) \<Rightarrow>
        if \<not> ok then Some (ERR_SEND, c1)
        else case recv_response c1 of
          (None, c2) \<Rightarrow> Some (ERR_RECV, c2)
        | (Some r, c2) \<Rightarrow>
          if r_status r \<noteq> status_val STATUS_OK then map_option (\<lambda>c3. (ERR_PROTOCOL, c3)) (say_message ''Error: '' r c2)
          else case open_write e (cl_disk c2) p ModeW of
            None \<Rightarrow> Some (ERR_FILE_OPEN, say (''Error: Cannot create local file: '' @ p @ [LF]) c2)
          | Some d \<Rightarrow> Some (SUCCESS, say (saved_line remote r p) (receive_into p 0 r d c2)))"

text \<open>\<open>stat(path)\<close>: the size of a file or a directory.\<close>

definition stat_size :: "os_env \<Rightarrow> disk \<Rightarrow> path \<Rightarrow> nat option" where
  "stat_size e d p = (if ddirs d p then Some (os_dir_size e) else map_option length (dfiles d p))"

definition resume_line :: "string \<Rightarrow> response_header \<Rightarrow> nat \<Rightarrow> string" where
  "resume_line name r sz = ''Resume download '' @ name @ '': +'' @ dec_nat (unat (r_data_len r)) @ '' bytes (total ''
     @ dec_nat (sz + unat (r_data_len r)) @ '' bytes)'' @ [LF]"

definition resume_note :: "path \<Rightarrow> nat option \<Rightarrow> string" where
  "resume_note p sz = (case sz of
     Some n \<Rightarrow> ''Local file exists: '' @ p @ '' ('' @ dec_nat n @ '' bytes), requesting resume...'' @ [LF]
   | None \<Rightarrow> ''No local file, starting full download...'' @ [LF])"

definition client_download_resume :: "os_env \<Rightarrow> string \<Rightarrow> path option \<Rightarrow> client \<Rightarrow> (int \<times> client) option" where
  "client_download_resume e remote local c =
     (let p = (case local of None \<Rightarrow> remote | Some l \<Rightarrow> l);
          sz = (case stat_size e (cl_disk c) p of None \<Rightarrow> 0 | Some n \<Rightarrow> n) in
      if \<not> cc_connected (cl_ctx c) then Some (ERR_CONNECT, c)
      else
        (let c0 = say (resume_note p (stat_size e (cl_disk c) p)) c in
         case send_header (make_header CMD_DOWNLOAD 0 (of_nat sz) remote) c0 of (ok, c1) \<Rightarrow>
           if \<not> ok then Some (ERR_SEND, c1)
           else case recv_response c1 of
             (None, c2) \<Rightarrow> Some (ERR_RECV, c2)
           | (Some r, c2) \<Rightarrow>
             if r_status r \<noteq> status_val STATUS_OK \<and> r_status r \<noteq> status_val STATUS_PARTIAL
             then map_option (\<lambda>c3. (ERR_PROTOCOL, c3)) (say_message ''Error: '' r c2)
             else let part = (r_status r = status_val STATUS_PARTIAL); res = (part \<and> 0 < sz) in
               case open_write e (cl_disk c2) p (if res then ModeA else ModeW) of
                 None \<Rightarrow> Some (ERR_FILE_OPEN, say ((if res then ''Error: Cannot open local file for resume: ''
                    else ''Error: Cannot create local file: '') @ p @ [LF]) c2)
               | Some d \<Rightarrow> Some (SUCCESS, say (if part then resume_line remote r sz else saved_line remote r p)
                    (receive_into p (if res then sz else 0) r d c2))))"

text \<open>Data the client asked for only to learn its length is received and dropped.\<close>

function skip_loop :: "nat \<Rightarrow> conn \<Rightarrow> conn" where
  "skip_loop n s = (if n = 0 then s else case sock_recv (min n BUFFER_SIZE) s of (b, s') \<Rightarrow>
     if b = [] then s' else skip_loop (n - length b) s')"
  by pat_completeness auto
termination by (relation "measure fst") auto

declare skip_loop.simps [simp del]

text \<open>
  \<open>client_upload_resume\<close> downloads the remote file to learn its length, drops the data, and sends the rest
  of the local file from there. The comparison of the lengths is made in 32 bits.
\<close>

definition upload_from :: "nat \<Rightarrow> bytes \<Rightarrow> string \<Rightarrow> nat \<Rightarrow> client \<Rightarrow> (int \<times> client) option" where
  "upload_from sz content name off c =
     (case send_header (make_header CMD_UPLOAD (sz - off) (of_nat off) name) c of (ok, c1) \<Rightarrow>
        if \<not> ok then Some (ERR_SEND, c1)
        else case send_file_loop (drop off content) (cl_disk c1) (cl_conn c1) of (ok2, d, s) \<Rightarrow>
          if \<not> ok2 then Some (ERR_SEND, c1\<lparr>cl_disk := d, cl_conn := s\<rparr>)
          else finish_reply
            (if 0 < off then ''Resume upload '' @ name @ '': +'' @ dec_nat (sz - off) @ '' bytes (total ''
               @ dec_nat sz @ '' bytes): '' else ''Upload '' @ name @ '': '') (c1\<lparr>cl_disk := d, cl_conn := s\<rparr>))"

definition client_upload_resume :: "os_env \<Rightarrow> path \<Rightarrow> string option \<Rightarrow> client \<Rightarrow> (int \<times> client) option" where
  "client_upload_resume e local remote c =
     (if \<not> cc_connected (cl_ctx c) then Some (ERR_CONNECT, c)
      else case open_read e (cl_disk c) local of
        None \<Rightarrow> Some (ERR_FILE_OPEN, say (''Error: Cannot open local file: '' @ local @ [LF]) c)
      | Some (sz, content) \<Rightarrow>
        (let name = (case remote of None \<Rightarrow> base_name local | Some n \<Rightarrow> n) in
         case send_header (make_header CMD_DOWNLOAD 0 0 name) c of (ok, c1) \<Rightarrow>
           if \<not> ok then Some (ERR_SEND, c1)
           else case recv_response c1 of
             (None, c2) \<Rightarrow> Some (ERR_RECV, c2)
           | (Some r, c2) \<Rightarrow>
             if r_status r = status_val STATUS_OK \<and> 0 < r_data_len r then
               let c3 = c2\<lparr>cl_conn := skip_loop (unat (r_data_len r)) (cl_conn c2)\<rparr> in
               if r_data_len r < of_nat sz then
                 upload_from sz content name (unat (r_data_len r))
                   (say (''Server file: '' @ dec_nat (unat (r_data_len r)) @ '' bytes, local file: '' @ dec_nat sz
                      @ '' bytes, resuming from offset '' @ dec_nat (unat (r_data_len r)) @ [LF]) c3)
               else Some (SUCCESS, say (''Server file is same size or larger, skipping upload'' @ [LF]) c3)
             else upload_from sz content name 0 c2))"

subsection \<open>The command line\<close>

text \<open>The help names resumption in Chinese, in UTF-8.\<close>

definition zh_resume :: string where
  "zh_resume = map char_of [230, 150, 173, 231, 130, 185, 231, 187, 173, 228, 188, 160 :: nat]"

definition zh_resume_upload :: string where
  "zh_resume_upload = zh_resume @ map char_of [228, 184, 138, 228, 188, 160 :: nat]"

definition help_text :: string where
  "help_text = concat (map (\<lambda>l. l @ [LF])
     [[], ''=== Commands ==='',
      ''  list              - List server files'',
      ''  upload <file>     - Upload file to server'',
      ''  download <file>   - Download file from server'',
      ''  resume <file>     - Resume download ('' @ zh_resume @ '')'',
      ''  resume-upload <f> - Resume upload ('' @ zh_resume_upload @ '')'',
      ''  delete <file>     - Delete file on server'',
      ''  mkdir <dir>       - Create directory on server'',
      ''  rmdir <dir>       - Remove directory on server'',
      ''  pwd               - Show remote working directory'',
      ''  help              - Show this help'',
      ''  quit              - Exit'',
      ''=================='', []])"

text \<open>\<open>sscanf(line, "%63s %255s", cmd, arg)\<close>; what does not convert stays empty.\<close>

definition split_command :: "bytes \<Rightarrow> string \<times> string" where
  "split_command line =
     (case scan_s 63 (takeWhile (\<lambda>c. c \<noteq> LF) (cstr line)) of
        None \<Rightarrow> ([], [])
      | Some (cmd, r) \<Rightarrow> (case scan_s 255 r of None \<Rightarrow> (cmd, []) | Some (arg, _) \<Rightarrow> (cmd, arg)))"

definition with_arg :: "string \<Rightarrow> string \<Rightarrow> (string \<Rightarrow> client \<Rightarrow> (int \<times> client) option) \<Rightarrow> client \<Rightarrow> client option" where
  "with_arg arg usage f c = (if arg = [] then Some (say (''Usage: '' @ usage @ [LF]) c) else map_option snd (f arg c))"

text \<open>One line: whether the loop goes on, and the new state.\<close>

definition client_command :: "os_env \<Rightarrow> bool \<Rightarrow> bytes \<Rightarrow> client \<Rightarrow> (bool \<times> client) option" where
  "client_command e alloc line c =
     (case split_command line of (cmd, arg) \<Rightarrow>
        if cmd = ''quit'' \<or> cmd = ''exit'' then Some (False, c)
        else map_option (\<lambda>c'. (True, c'))
          (if cmd = ''list'' then map_option snd (client_list_files alloc c)
           else if cmd = ''upload'' then with_arg arg ''upload <local_file>'' (\<lambda>a. client_upload_file e a None) c
           else if cmd = ''download'' then with_arg arg ''download <remote_file>'' (\<lambda>a. client_download_file e a None) c
           else if cmd = ''resume'' then with_arg arg ''resume <remote_file>'' (\<lambda>a. client_download_resume e a None) c
           else if cmd = ''resume-upload'' then with_arg arg ''resume-upload <local_file>'' (\<lambda>a. client_upload_resume e a None) c
           else if cmd = ''delete'' then with_arg arg ''delete <remote_file>'' client_delete_file c
           else if cmd = ''mkdir'' then with_arg arg ''mkdir <directory>'' client_mkdir c
           else if cmd = ''rmdir'' then with_arg arg ''rmdir <directory>'' client_rmdir c
           else if cmd = ''pwd'' then map_option snd (client_pwd c)
           else if cmd = ''help'' then Some (say help_text c)
           else if cmd \<noteq> [] then Some (say (''Unknown command: '' @ cmd @ [LF]) c)
           else Some c))"

fun command_loop :: "os_env \<Rightarrow> bool \<Rightarrow> bytes list \<Rightarrow> client \<Rightarrow> client option" where
  "command_loop e alloc [] c = Some (say ''ftp> '' c)"
| "command_loop e alloc (l # ls) c =
     (case client_command e alloc l (say ''ftp> '' c) of
        None \<Rightarrow> None
      | Some (go, c') \<Rightarrow> if go then command_loop e alloc ls c' else Some c')"

definition client_interactive :: "os_env \<Rightarrow> bool \<Rightarrow> bytes \<Rightarrow> client \<Rightarrow> client option" where
  "client_interactive e alloc stdin c = command_loop e alloc (fgets_lines 512 stdin) (say help_text c)"

end
