(* ===== verification/File_Service.thy ===== *)
theory File_Service
  imports Fs_Client
begin

text \<open>
  What the client relies on: the contract of a server of files over a byte stream (locale
  \<open>file_service\<close>), a client operation running against such a server, and what uploads, downloads and
  resumed transfers then achieve. The locale is interpreted by the server of \<open>server.c\<close>.
\<close>

subsection \<open>Client steps on a working connection\<close>

definition client_ready :: "client \<Rightarrow> bool" where
  "client_ready c \<longleftrightarrow> cc_connected (cl_ctx c) \<and> live_conn HEADER_SIZE (cl_conn c) \<and> live_disk (cl_disk c)"

lemma length_make_header [simp]: "length (h_filename (make_header cmd n off name)) = NAME_SIZE"
  by (simp add: make_header_def)

lemma send_header_live:
  assumes "live_conn HEADER_SIZE (cl_conn c)" and "length (h_filename h) = NAME_SIZE"
  shows "\<exists>s. send_header h c = (True, c\<lparr>cl_conn := s\<rparr>) \<and> live_conn HEADER_SIZE s \<and>
    outp s = outp (cl_conn c) @ encode_header h \<and> inp s = inp (cl_conn c)"
  using sock_send_whole [OF assms(1), of "encode_header h"] assms(2) by (auto simp: send_header_def)

lemma recv_response_reads:
  assumes "live_conn w (cl_conn c)" and "inp (cl_conn c) = encode_response (make_response st n m) @ rest"
  shows "\<exists>s. recv_response c = (Some (make_response st n m), c\<lparr>cl_conn := s\<rparr>) \<and> live_conn w s \<and>
    outp s = outp (cl_conn c) \<and> inp s = rest"
  using recv_response_live [OF assms] by (auto simp: recv_response_def)

lemma recv_response_frame: "recv_response c = (r, c') \<Longrightarrow> \<exists>s. c' = c\<lparr>cl_conn := s\<rparr> \<and> outp s = outp (cl_conn c)"
  by (auto simp: recv_response_def split: prod.splits dest!: recv_all_inp)

lemma say_simps [simp]:
  "cl_conn (say t c) = cl_conn c" "cl_disk (say t c) = cl_disk c" "cl_ctx (say t c) = cl_ctx c"
  by (simp_all add: say_def)

lemma say_message_ok:
  "is_cstr m \<Longrightarrow> say_message l (make_response st n m) c = Some (say (l @ take 255 m @ [LF]) c)"
  by (simp add: say_message_def make_response_def array_str_char_array c_limits)

lemma say_message_frame: "say_message l r c = Some c' \<Longrightarrow> cl_conn c' = cl_conn c \<and> cl_disk c' = cl_disk c \<and> cl_ctx c' = cl_ctx c"
  by (auto simp: say_message_def)

lemma make_response_sel [simp]:
  "r_status (make_response st n m) = status_val st" "r_data_len (make_response st n m) = of_nat n"
  by (simp_all add: make_response_def)

subsection \<open>An operation against a server\<close>

text \<open>
  \<open>serve\<close> gives the bytes the server sends back for all the bytes it receives, or \<^const>\<open>None\<close> for undefined
  behaviour. In a run each side reads
  what the other sends: the client's input \<open>r\<close> is the server's output on the client's output.
\<close>

definition with_input :: "bytes \<Rightarrow> client \<Rightarrow> client" where
  "with_input r c = c\<lparr>cl_conn := (cl_conn c)\<lparr>inp := r, outp := []\<rparr>\<rparr>"

definition runs ::
  "(bytes \<Rightarrow> 's \<Rightarrow> (bytes \<times> 's) option) \<Rightarrow> (client \<Rightarrow> (int \<times> client) option) \<Rightarrow> client \<Rightarrow> 's \<Rightarrow> int \<Rightarrow> client \<Rightarrow> 's \<Rightarrow> bool" where
  "runs serve oper c s code c' s' \<longleftrightarrow>
     (\<exists>r. oper (with_input r c) = Some (code, c') \<and> serve (outp (cl_conn c')) s = Some (r, s'))"

lemma with_input_simps [simp]:
  "inp (cl_conn (with_input r c)) = r" "outp (cl_conn (with_input r c)) = []"
  "cl_disk (with_input r c) = cl_disk c" "cl_ctx (with_input r c) = cl_ctx c"
  "live_conn w (cl_conn (with_input r c)) = live_conn w (cl_conn c)"
  by (simp_all add: with_input_def live_conn_def)

definition good_name :: "string \<Rightarrow> bool" where
  "good_name n \<longleftrightarrow> length n \<le> 255 \<and> is_cstr n \<and> strstr n ''..'' = None \<and> strchr n (CHR ''/'') = None"

subsection \<open>What the client sends and does\<close>

definition upload_bytes :: "nat \<Rightarrow> string \<Rightarrow> bytes \<Rightarrow> bytes" where
  "upload_bytes off n content = encode_header (make_header CMD_UPLOAD (length content) (of_nat off) n) @ content"

definition download_bytes :: "nat \<Rightarrow> string \<Rightarrow> bytes" where
  "download_bytes off n = encode_header (make_header CMD_DOWNLOAD 0 (of_nat off) n)"

definition local_file :: "os_env \<Rightarrow> disk \<Rightarrow> path \<Rightarrow> bytes \<Rightarrow> bool" where
  "local_file e d p content \<longleftrightarrow> os_open e p ModeR \<and> \<not> ddirs d p \<and> dfiles d p = Some content"

lemma open_local: "local_file e d p content \<Longrightarrow> open_read e d p = Some (length content, content)"
  by (simp add: local_file_def open_read_def)

lemma upload_from_sends:
  assumes "live_conn HEADER_SIZE (cl_conn c)" and "live_disk (cl_disk c)" and "off \<le> length content"
  shows "\<exists>s d label. live_conn HEADER_SIZE s \<and> live_disk d \<and> dfiles d = dfiles (cl_disk c) \<and> ddirs d = ddirs (cl_disk c) \<and>
      outp s = outp (cl_conn c) @ upload_bytes off n (drop off content) \<and> inp s = inp (cl_conn c) \<and>
      upload_from (length content) content n off c = finish_reply label (c\<lparr>cl_disk := d, cl_conn := s\<rparr>)"
proof -
  obtain s1 where h: "send_header (make_header CMD_UPLOAD (length content - off) (of_nat off) n) c = (True, c\<lparr>cl_conn := s1\<rparr>)"
    and l1: "live_conn HEADER_SIZE s1"
    and o1: "outp s1 = outp (cl_conn c) @ encode_header (make_header CMD_UPLOAD (length content - off) (of_nat off) n)"
    and i1: "inp s1 = inp (cl_conn c)"
    using send_header_live [OF assms(1), of "make_header CMD_UPLOAD (length content - off) (of_nat off) n"] by auto
  obtain d s2 where f: "send_file_loop (drop off content) (cl_disk c) s1 = (True, d, s2)" and l2: "live_conn HEADER_SIZE s2"
    and o2: "outp s2 = outp s1 @ drop off content" and i2: "inp s2 = inp s1"
    and d: "live_disk d" "dfiles d = dfiles (cl_disk c)" "ddirs d = ddirs (cl_disk c)"
    using send_file_loop_live [OF assms(2) l1] by metis
  have "outp s2 = outp (cl_conn c) @ upload_bytes off n (drop off content)"
    using o1 o2 assms(3) by (simp add: upload_bytes_def)
  moreover have "\<exists>label. upload_from (length content) content n off c = finish_reply label (c\<lparr>cl_disk := d, cl_conn := s2\<rparr>)"
    unfolding upload_from_def h using f by auto
  ultimately show ?thesis using l2 d i1 i2 by metis
qed

lemma upload_sends:
  assumes "client_ready c" and "local_file e (cl_disk c) p content"
  shows "client_upload_file e p (Some n) c = upload_from (length content) content n 0 c"
  using assms open_local [OF assms(2)]
  by (simp add: client_upload_file_def upload_from_def client_ready_def split: prod.split)

lemma finish_reply_frame: "finish_reply l c = Some (code, c') \<Longrightarrow> outp (cl_conn c') = outp (cl_conn c)"
  by (auto simp: finish_reply_def split: prod.splits option.splits dest!: recv_response_frame say_message_frame)

lemma finish_reply_ok:
  assumes "live_conn w (cl_conn c)" and "inp (cl_conn c) = encode_response (make_response st n m) @ rest" and "is_cstr m"
  shows "\<exists>s. finish_reply l c = Some (SUCCESS, say (l @ take 255 m @ [LF]) (c\<lparr>cl_conn := s\<rparr>)) \<and> live_conn w s \<and>
    outp s = outp (cl_conn c) \<and> inp s = rest"
  using recv_response_reads [OF assms(1,2)] assms(3) by (auto simp: finish_reply_def say_message_ok)

lemma upload_out:
  assumes "live_conn HEADER_SIZE (cl_conn c)" and "live_disk (cl_disk c)" and "off \<le> length content"
    and "upload_from (length content) content n off c = Some (code, c')"
  shows "outp (cl_conn c') = outp (cl_conn c) @ upload_bytes off n (drop off content)"
proof -
  obtain s d label where "outp s = outp (cl_conn c) @ upload_bytes off n (drop off content)"
    and "upload_from (length content) content n off c = finish_reply label (c\<lparr>cl_disk := d, cl_conn := s\<rparr>)"
    using upload_from_sends [OF assms(1-3), of n] by blast
  then show ?thesis using assms(4) finish_reply_frame [of label "c\<lparr>cl_disk := d, cl_conn := s\<rparr>" code c'] by simp
qed

lemma upload_done:
  assumes "live_conn HEADER_SIZE (cl_conn c)" and "live_disk (cl_disk c)" and "off \<le> length content"
    and "inp (cl_conn c) = encode_response (make_response st 0 m) @ rest" and "is_cstr m"
  shows "\<exists>c'. upload_from (length content) content n off c = Some (SUCCESS, c') \<and> live_conn HEADER_SIZE (cl_conn c') \<and>
    live_disk (cl_disk c') \<and> cl_ctx c' = cl_ctx c \<and> dfiles (cl_disk c') = dfiles (cl_disk c) \<and>
    ddirs (cl_disk c') = ddirs (cl_disk c) \<and> inp (cl_conn c') = rest"
proof -
  obtain s d label where l: "live_conn HEADER_SIZE s" "live_disk d" "dfiles d = dfiles (cl_disk c)" "ddirs d = ddirs (cl_disk c)"
    and i: "inp s = inp (cl_conn c)"
    and u: "upload_from (length content) content n off c = finish_reply label (c\<lparr>cl_disk := d, cl_conn := s\<rparr>)"
    using upload_from_sends [OF assms(1-3), of n] by blast
  show ?thesis using finish_reply_ok [of HEADER_SIZE "c\<lparr>cl_disk := d, cl_conn := s\<rparr>" st 0 m rest label] l i u assms(4,5)
    by auto
qed

text \<open>A download asks with one header; what it then stores depends on the response.\<close>

definition local_target :: "os_env \<Rightarrow> disk \<Rightarrow> path \<Rightarrow> bool" where
  "local_target e d p \<longleftrightarrow> \<not> ddirs d p \<and> (\<forall>m. os_open e p m)"

lemma open_target_w: "local_target e d p \<Longrightarrow> open_write e d p ModeW = Some (d\<lparr>dfiles := (dfiles d)(p \<mapsto> [])\<rparr>)"
  by (simp add: local_target_def open_write_def fopen_def)

lemma open_target_a: "local_target e d p \<Longrightarrow> dfiles d p = Some old \<Longrightarrow> open_write e d p ModeA = Some d"
  by (simp add: local_target_def open_write_def fopen_def)

lemma receive_into_live:
  assumes "live_conn w (cl_conn c)" and "live_disk d" and "inp (cl_conn c) = data @ rest" and "length data < 2 ^ 32"
    and "dfiles d p = Some old" and "pos \<le> length old"
  shows "\<exists>s d'. receive_into p pos (make_response st (length data) m) d c = c\<lparr>cl_conn := s, cl_disk := d'\<rparr> \<and> live_conn w s \<and>
    live_disk d' \<and> inp s = rest \<and> outp s = outp (cl_conn c) \<and> ddirs d' = ddirs d \<and>
    dfiles d' = (dfiles d)(p \<mapsto> pwrite pos data old)"
proof -
  have "unat (of_nat (length data) :: 32 word) = length data" using assms(4) by (simp add: unat_of_nat)
  moreover obtain s' d' where "recv_file_loop (length data) p pos (cl_conn c) d = (XferOk, s', d')" "inp s' = rest"
    "outp s' = outp (cl_conn c)" "live_conn w s'" "live_disk d'" "ddirs d' = ddirs d"
    "dfiles d' = (dfiles d)(p \<mapsto> pwrite pos data old)"
    using recv_file_loop_live [OF assms(1-3) refl assms(5,6)] by blast
  ultimately show ?thesis by (intro exI [of _ s'] exI [of _ d']) (simp add: receive_into_def)
qed

lemma receive_into_frame: "outp (cl_conn (receive_into p pos r d c)) = outp (cl_conn c)"
  by (auto simp: receive_into_def split: prod.splits dest!: recv_file_loop_frame)

lemma download_out:
  assumes "client_ready c" and "client_download_file e n lp c = Some (code, c')"
  shows "outp (cl_conn c') = outp (cl_conn c) @ download_bytes 0 n"
proof -
  obtain s1 where h: "send_header (make_header CMD_DOWNLOAD 0 0 n) c = (True, c\<lparr>cl_conn := s1\<rparr>)"
    and o1: "outp s1 = outp (cl_conn c) @ download_bytes 0 n"
    using send_header_live [of c "make_header CMD_DOWNLOAD 0 0 n"] assms(1) by (auto simp: client_ready_def download_bytes_def)
  obtain r c2 where r: "recv_response (c\<lparr>cl_conn := s1\<rparr>) = (r, c2)" by fastforce
  then have "outp (cl_conn c2) = outp s1" using recv_response_frame by fastforce
  then show ?thesis using assms h r o1
    by (auto simp: client_download_file_def client_ready_def Let_def receive_into_frame
        split: option.splits if_splits dest!: say_message_frame)
qed

lemma download_done:
  assumes "client_ready c" and "local_target e (cl_disk c) p" and "length data < 2 ^ 32"
    and "inp (cl_conn c) = encode_response (make_response STATUS_OK (length data) m) @ data @ rest"
  shows "\<exists>c'. client_download_file e n (Some p) c = Some (SUCCESS, c') \<and> client_ready c' \<and> inp (cl_conn c') = rest \<and>
    ddirs (cl_disk c') = ddirs (cl_disk c) \<and> dfiles (cl_disk c') = (dfiles (cl_disk c))(p \<mapsto> data)"
proof -
  obtain s1 where h: "send_header (make_header CMD_DOWNLOAD 0 0 n) c = (True, c\<lparr>cl_conn := s1\<rparr>)"
    and l1: "live_conn HEADER_SIZE s1" "inp s1 = inp (cl_conn c)"
    using send_header_live [of c "make_header CMD_DOWNLOAD 0 0 n"] assms(1) by (auto simp: client_ready_def)
  obtain s2 where r: "recv_response (c\<lparr>cl_conn := s1\<rparr>) = (Some (make_response STATUS_OK (length data) m), c\<lparr>cl_conn := s2\<rparr>)"
    and l2: "live_conn HEADER_SIZE s2" "inp s2 = data @ rest"
    using recv_response_reads [of HEADER_SIZE "c\<lparr>cl_conn := s1\<rparr>" STATUS_OK "length data" m "data @ rest"] l1 assms(4) by auto
  define d where "d = (cl_disk c)\<lparr>dfiles := (dfiles (cl_disk c))(p \<mapsto> [])\<rparr>"
  have d: "open_write e (cl_disk c) p ModeW = Some d" "live_disk d" "dfiles d p = Some []" "ddirs d = ddirs (cl_disk c)"
    using open_target_w [OF assms(2)] assms(1) by (auto simp: d_def client_ready_def live_disk_def)
  obtain s3 d3 where "receive_into p 0 (make_response STATUS_OK (length data) m) d (c\<lparr>cl_conn := s2\<rparr>) =
      c\<lparr>cl_conn := s3, cl_disk := d3\<rparr>" "live_conn HEADER_SIZE s3" "live_disk d3" "inp s3 = rest" "ddirs d3 = ddirs d"
      "dfiles d3 = (dfiles d)(p \<mapsto> data)"
    using receive_into_live [of HEADER_SIZE "c\<lparr>cl_conn := s2\<rparr>" d data rest p "[]" 0 STATUS_OK m] l2 d assms(3) by auto
  then show ?thesis using assms(1) h r d by (auto simp: client_download_file_def client_ready_def Let_def d_def)
qed

text \<open>The same for a resumed download of a file of which a part is there already.\<close>

lemma resume_out:
  assumes "client_ready c" and "local_target e (cl_disk c) p" and "dfiles (cl_disk c) p = Some old"
    and "client_download_resume e n (Some p) c = Some (code, c')"
  shows "outp (cl_conn c') = outp (cl_conn c) @ download_bytes (length old) n"
proof -
  have st: "stat_size e (cl_disk c) p = Some (length old)" using assms(2,3) by (simp add: stat_size_def local_target_def)
  define c0 where "c0 = say (resume_note p (Some (length old))) c"
  obtain s1 where h: "send_header (make_header CMD_DOWNLOAD 0 (of_nat (length old)) n) c0 = (True, c0\<lparr>cl_conn := s1\<rparr>)"
    and o1: "outp s1 = outp (cl_conn c) @ download_bytes (length old) n"
    using send_header_live [of c0 "make_header CMD_DOWNLOAD 0 (of_nat (length old)) n"] assms(1)
    by (auto simp: client_ready_def download_bytes_def c0_def)
  obtain r c2 where r: "recv_response (c0\<lparr>cl_conn := s1\<rparr>) = (r, c2)" by fastforce
  then have "outp (cl_conn c2) = outp s1" using recv_response_frame by fastforce
  then show ?thesis using assms(1,4) h r o1 st
    by (auto simp: client_download_resume_def client_ready_def Let_def receive_into_frame c0_def [symmetric]
        split: option.splits if_splits dest!: say_message_frame)
qed

lemma resume_done:
  assumes "client_ready c" and "local_target e (cl_disk c) p" and "dfiles (cl_disk c) p = Some old" and "0 < length old"
    and "length data < 2 ^ 32"
    and "inp (cl_conn c) = encode_response (make_response STATUS_PARTIAL (length data) m) @ data @ rest"
  shows "\<exists>c'. client_download_resume e n (Some p) c = Some (SUCCESS, c') \<and> client_ready c' \<and> inp (cl_conn c') = rest \<and>
    ddirs (cl_disk c') = ddirs (cl_disk c) \<and> dfiles (cl_disk c') = (dfiles (cl_disk c))(p \<mapsto> old @ data)"
proof -
  have st: "stat_size e (cl_disk c) p = Some (length old)" using assms(2,3) by (simp add: stat_size_def local_target_def)
  define c0 where "c0 = say (resume_note p (Some (length old))) c"
  have c0: "cl_conn c0 = cl_conn c" "cl_disk c0 = cl_disk c" "cl_ctx c0 = cl_ctx c" by (simp_all add: c0_def)
  obtain s1 where h: "send_header (make_header CMD_DOWNLOAD 0 (of_nat (length old)) n) c0 = (True, c0\<lparr>cl_conn := s1\<rparr>)"
    and l1: "live_conn HEADER_SIZE s1" "inp s1 = inp (cl_conn c)"
    using send_header_live [of c0 "make_header CMD_DOWNLOAD 0 (of_nat (length old)) n"] assms(1) c0 by (auto simp: client_ready_def)
  obtain s2 where r: "recv_response (c0\<lparr>cl_conn := s1\<rparr>) = (Some (make_response STATUS_PARTIAL (length data) m), c0\<lparr>cl_conn := s2\<rparr>)"
    and l2: "live_conn HEADER_SIZE s2" "inp s2 = data @ rest"
    using recv_response_reads [of HEADER_SIZE "c0\<lparr>cl_conn := s1\<rparr>" STATUS_PARTIAL "length data" m "data @ rest"] l1 assms(6) by auto
  have d: "open_write e (cl_disk c) p ModeA = Some (cl_disk c)" "live_disk (cl_disk c)"
    using open_target_a [OF assms(2,3)] assms(1) by (auto simp: client_ready_def)
  obtain s3 d3 where "receive_into p (length old) (make_response STATUS_PARTIAL (length data) m) (cl_disk c) (c0\<lparr>cl_conn := s2\<rparr>) =
      c0\<lparr>cl_conn := s3, cl_disk := d3\<rparr>" "live_conn HEADER_SIZE s3" "live_disk d3" "inp s3 = rest" "ddirs d3 = ddirs (cl_disk c)"
      "dfiles d3 = (dfiles (cl_disk c))(p \<mapsto> old @ data)"
    using receive_into_live [of HEADER_SIZE "c0\<lparr>cl_conn := s2\<rparr>" "cl_disk c" data rest p old "length old" STATUS_PARTIAL m]
      l2 d assms(3,5) by auto
  then show ?thesis using assms(1,4) h r d st c0
    by (auto simp: client_download_resume_def client_ready_def Let_def c0_def [symmetric])
qed

lemma skip_loop_live:
  "live_conn w s \<Longrightarrow> inp s = data @ rest \<Longrightarrow> length data = n \<Longrightarrow>
   live_conn w (skip_loop n s) \<and> inp (skip_loop n s) = rest \<and> outp (skip_loop n s) = outp s"
proof (induction n s arbitrary: data rule: skip_loop.induct)
  case (1 n s)
  show ?case
  proof (cases "n = 0")
    case True
    then show ?thesis using 1 by (simp add: skip_loop.simps)
  next
    case False
    obtain b s1 where b: "sock_recv (min n BUFFER_SIZE) s = (b, s1)" by fastforce
    note r = sock_recv_inp [OF b] sock_recv_frame [OF b]
    have ne: "inp s \<noteq> []" using 1(3,4) False by auto
    have lv: "b \<noteq> []" "live_conn w s1" using sock_recv_live [OF 1(2) _ ne b] False by (auto simp: c_limits)
    have i1: "inp s1 = drop (length b) data @ rest"
      using r 1(3,4) by (auto simp: append_eq_append_conv_if append_eq_conv_conj split: if_splits)
    have len: "length (drop (length b) data) = n - length b" using 1(4) by simp
    from 1(1) [OF False b [symmetric] lv(1) lv(2) i1 len] show ?thesis
      using False b lv r by (simp add: skip_loop.simps [of n s])
  qed
qed

text \<open>A resumed upload: the remote file, which is a proper beginning of the local one, is learnt and completed.\<close>

lemma upload_resume_done:
  assumes "client_ready c" and "local_file e (cl_disk c) p (old @ new)" and "0 < length old" and "0 < length new"
    and "length (old @ new) < 2 ^ 32" and "is_cstr m" and "is_cstr m2"
    and "inp (cl_conn c) = encode_response (make_response STATUS_OK (length old) m) @ old @
      encode_response (make_response STATUS_OK 0 m2) @ rest"
  shows "\<exists>c'. client_upload_resume e p (Some n) c = Some (SUCCESS, c') \<and>
    outp (cl_conn c') = outp (cl_conn c) @ download_bytes 0 n @ upload_bytes (length old) n new"
proof -
  obtain s1 where h: "send_header (make_header CMD_DOWNLOAD 0 0 n) c = (True, c\<lparr>cl_conn := s1\<rparr>)"
    and l1: "live_conn HEADER_SIZE s1" "inp s1 = inp (cl_conn c)" and o1: "outp s1 = outp (cl_conn c) @ download_bytes 0 n"
    using send_header_live [of c "make_header CMD_DOWNLOAD 0 0 n"] assms(1) by (auto simp: client_ready_def download_bytes_def)
  obtain s2 where r: "recv_response (c\<lparr>cl_conn := s1\<rparr>) = (Some (make_response STATUS_OK (length old) m), c\<lparr>cl_conn := s2\<rparr>)"
    and l2: "live_conn HEADER_SIZE s2" "inp s2 = old @ encode_response (make_response STATUS_OK 0 m2) @ rest" "outp s2 = outp s1"
    using recv_response_reads [of HEADER_SIZE "c\<lparr>cl_conn := s1\<rparr>" STATUS_OK "length old" m "old @ _"] l1 assms(8) by auto
  have lens: "length old < 2 ^ 32" "length old < length (old @ new)" using assms(4,5) by simp_all
  have u: "unat (of_nat (length old) :: 32 word) = length old" "(0 :: 32 word) < of_nat (length old)"
    "(of_nat (length old) :: 32 word) < of_nat (length (old @ new))"
    using lens assms(3,5) by (simp_all add: unat_of_nat word_less_nat_alt del: of_nat_add length_append)
  define t where "t = ''Server file: '' @ dec_nat (length old) @ '' bytes, local file: '' @ dec_nat (length (old @ new))
     @ '' bytes, resuming from offset '' @ dec_nat (length old) @ [LF]"
  define c3 where "c3 = say t (c\<lparr>cl_conn := skip_loop (length old) s2\<rparr>)"
  have sk: "live_conn HEADER_SIZE (cl_conn c3)" "inp (cl_conn c3) = encode_response (make_response STATUS_OK 0 m2) @ rest"
    "outp (cl_conn c3) = outp s2" "cl_disk c3 = cl_disk c"
    using skip_loop_live [OF l2(1,2) refl] by (simp_all add: c3_def)
  have eq: "client_upload_resume e p (Some n) c = upload_from (length (old @ new)) (old @ new) n (length old) c3"
    using assms(1) open_local [OF assms(2)] h r u by (simp add: client_upload_resume_def client_ready_def Let_def c3_def t_def)
  have dk: "live_disk (cl_disk c3)" and le: "length old \<le> length (old @ new)" using assms(1) sk by (simp_all add: client_ready_def)
  obtain c' where c': "upload_from (length (old @ new)) (old @ new) n (length old) c3 = Some (SUCCESS, c')"
    using upload_done [OF sk(1) dk le sk(2) assms(7)] by blast
  from upload_out [OF sk(1) dk le c'] show ?thesis using eq c' sk(3) l2(3) o1 by simp
qed

subsection \<open>The contract\<close>

definition done_message :: string where "done_message = ''File uploaded successfully''"

locale file_service =
  fixes serve :: "bytes \<Rightarrow> 's \<Rightarrow> (bytes \<times> 's) option"
    and lookup :: "'s \<Rightarrow> string \<Rightarrow> bytes option"
    and avail :: "'s \<Rightarrow> string \<Rightarrow> bool"
    and ok :: "'s \<Rightarrow> bool"
  assumes avail_good: "avail s n \<Longrightarrow> good_name n"
    and serve_nil: "ok s \<Longrightarrow> \<exists>s'. serve [] s = Some ([], s') \<and> ok s' \<and> lookup s' = lookup s \<and> avail s' = avail s"
    and serve_upload: "ok s \<Longrightarrow> avail s n \<Longrightarrow> length content < 2 ^ 32 \<Longrightarrow>
      \<exists>s'. ok s' \<and> avail s' = avail s \<and> lookup s' = (lookup s)(n \<mapsto> content) \<and>
        serve (upload_bytes 0 n content @ rest) s =
          map_option (\<lambda>(r, t). (encode_response (make_response STATUS_OK 0 done_message) @ r, t)) (serve rest s')"
    and serve_append: "ok s \<Longrightarrow> avail s n \<Longrightarrow> length (old @ content) < 2 ^ 32 \<Longrightarrow> old \<noteq> [] \<Longrightarrow> lookup s n = Some old \<Longrightarrow>
      \<exists>s'. ok s' \<and> avail s' = avail s \<and> lookup s' = (lookup s)(n \<mapsto> old @ content) \<and>
        serve (upload_bytes (length old) n content @ rest) s =
          map_option (\<lambda>(r, t). (encode_response (make_response STATUS_OK 0 done_message) @ r, t)) (serve rest s')"
    and serve_download: "ok s \<Longrightarrow> avail s n \<Longrightarrow> lookup s n = Some content \<Longrightarrow> off \<le> length content \<Longrightarrow> length content < 2 ^ 63 \<Longrightarrow>
      \<exists>s'. ok s' \<and> avail s' = avail s \<and> lookup s' = lookup s \<and>
        serve (download_bytes off n @ rest) s =
          map_option (\<lambda>(r, t). (encode_response (make_response (if 0 < off then STATUS_PARTIAL else STATUS_OK)
             (length content - off) (''File: '' @ n)) @ drop off content @ r, t)) (serve rest s')"
begin

lemma upload_alone:
  "ok s \<Longrightarrow> avail s n \<Longrightarrow> length content < 2 ^ 32 \<Longrightarrow>
   \<exists>s'. serve (upload_bytes 0 n content) s = Some (encode_response (make_response STATUS_OK 0 done_message), s') \<and> ok s' \<and>
     avail s' = avail s \<and> lookup s' = (lookup s)(n \<mapsto> content)"
  using serve_upload [of s n content "[]"] serve_nil by fastforce

lemma download_alone:
  "ok s \<Longrightarrow> avail s n \<Longrightarrow> lookup s n = Some content \<Longrightarrow> off \<le> length content \<Longrightarrow> length content < 2 ^ 63 \<Longrightarrow>
   \<exists>s'. serve (download_bytes off n) s =
      Some (encode_response (make_response (if 0 < off then STATUS_PARTIAL else STATUS_OK) (length content - off) (''File: '' @ n))
         @ drop off content, s') \<and> ok s' \<and> avail s' = avail s \<and> lookup s' = lookup s"
  using serve_download [of s n content off "[]"] serve_nil by fastforce

text \<open>An upload stores the file and leaves the other files alone; it cannot end in another way.\<close>

lemma upload_stores:
  assumes "client_ready c" and "local_file e (cl_disk c) p content" and "ok s" and "avail s n" and "length content < 2 ^ 32"
  shows "\<exists>c' s'. runs serve (client_upload_file e p (Some n)) c s SUCCESS c' s'"
    and "runs serve (client_upload_file e p (Some n)) c s code c' s' \<Longrightarrow>
      code = SUCCESS \<and> ok s' \<and> avail s' = avail s \<and> lookup s' = (lookup s)(n \<mapsto> content) \<and> client_ready c' \<and>
      dfiles (cl_disk c') = dfiles (cl_disk c) \<and> ddirs (cl_disk c') = ddirs (cl_disk c)"
proof -
  define R where "R = encode_response (make_response STATUS_OK 0 done_message)"
  obtain s1 where s1: "serve (upload_bytes 0 n content) s = Some (R, s1)" "ok s1" "avail s1 = avail s" "lookup s1 = (lookup s)(n \<mapsto> content)"
    using upload_alone [OF assms(3-5)] by (auto simp: R_def)
  have ready: "client_ready (with_input r c)" "local_file e (cl_disk (with_input r c)) p content" for r
    using assms(1,2) by (simp_all add: client_ready_def)
  have live: "live_conn HEADER_SIZE (cl_conn (with_input r c))" "live_disk (cl_disk (with_input r c))" for r
    using assms(1) by (simp_all add: client_ready_def)
  have sends: "client_upload_file e p (Some n) (with_input r c) = upload_from (length content) content n 0 (with_input r c)" for r
    by (rule upload_sends [OF ready])
  have out: "outp (cl_conn k) = upload_bytes 0 n content"
    if "client_upload_file e p (Some n) (with_input r c) = Some (x, k)" for r x k
    using upload_out [OF live [of r] le0, of content n x k] that by (simp add: sends)
  obtain k where k: "client_upload_file e p (Some n) (with_input R c) = Some (SUCCESS, k)" "client_ready k"
    "dfiles (cl_disk k) = dfiles (cl_disk c)" "ddirs (cl_disk k) = ddirs (cl_disk c)"
    using upload_done [OF live [of R] le0, of STATUS_OK done_message "[]" content n] assms(1)
    by (auto simp: sends R_def done_message_def client_ready_def)
  show "\<exists>c' s'. runs serve (client_upload_file e p (Some n)) c s SUCCESS c' s'"
    using k(1) s1(1) out unfolding runs_def by metis
  assume "runs serve (client_upload_file e p (Some n)) c s code c' s'"
  then obtain r where r: "client_upload_file e p (Some n) (with_input r c) = Some (code, c')"
    "serve (outp (cl_conn c')) s = Some (r, s')" unfolding runs_def by blast
  then have "r = R" "s' = s1" using out [OF r(1)] s1(1) by simp_all
  then show "code = SUCCESS \<and> ok s' \<and> avail s' = avail s \<and> lookup s' = (lookup s)(n \<mapsto> content) \<and> client_ready c' \<and>
      dfiles (cl_disk c') = dfiles (cl_disk c) \<and> ddirs (cl_disk c') = ddirs (cl_disk c)"
    using r(1) k s1 by simp
qed

lemma download_fetches:
  assumes "client_ready c" and "local_target e (cl_disk c) p" and "ok s" and "avail s n"
    and "lookup s n = Some content" and "length content < 2 ^ 32"
  shows "\<exists>c' s'. runs serve (client_download_file e n (Some p)) c s SUCCESS c' s'"
    and "runs serve (client_download_file e n (Some p)) c s code c' s' \<Longrightarrow>
      code = SUCCESS \<and> ok s' \<and> avail s' = avail s \<and> lookup s' = lookup s \<and> client_ready c' \<and>
      dfiles (cl_disk c') = (dfiles (cl_disk c))(p \<mapsto> content) \<and> ddirs (cl_disk c') = ddirs (cl_disk c)"
proof -
  define R where "R = encode_response (make_response STATUS_OK (length content) (''File: '' @ n)) @ content"
  obtain s1 where s1: "serve (download_bytes 0 n) s = Some (R, s1)" "ok s1" "avail s1 = avail s" "lookup s1 = lookup s"
    using download_alone [OF assms(3-5), of 0] assms(6) by (auto simp: R_def)
  have ready: "client_ready (with_input r c)" for r using assms(1) by (simp add: client_ready_def)
  have out: "outp (cl_conn k) = download_bytes 0 n"
    if "client_download_file e n (Some p) (with_input r c) = Some (x, k)" for r x k
    using download_out [OF ready that] by simp
  obtain k where k: "client_download_file e n (Some p) (with_input R c) = Some (SUCCESS, k)" "client_ready k"
    "dfiles (cl_disk k) = (dfiles (cl_disk c))(p \<mapsto> content)" "ddirs (cl_disk k) = ddirs (cl_disk c)"
    using download_done [OF ready [of R] _ assms(6), of e p _ "[]" n] assms(2) by (auto simp: R_def)
  show "\<exists>c' s'. runs serve (client_download_file e n (Some p)) c s SUCCESS c' s'"
    using k(1) s1(1) out unfolding runs_def by metis
  assume "runs serve (client_download_file e n (Some p)) c s code c' s'"
  then obtain r where r: "client_download_file e n (Some p) (with_input r c) = Some (code, c')"
    "serve (outp (cl_conn c')) s = Some (r, s')" unfolding runs_def by blast
  then have "r = R" "s' = s1" using out [OF r(1)] s1(1) by simp_all
  then show "code = SUCCESS \<and> ok s' \<and> avail s' = avail s \<and> lookup s' = lookup s \<and> client_ready c' \<and>
      dfiles (cl_disk c') = (dfiles (cl_disk c))(p \<mapsto> content) \<and> ddirs (cl_disk c') = ddirs (cl_disk c)"
    using r(1) k s1 by simp
qed

text \<open>A resumed download completes any proper beginning of the remote file.\<close>

lemma resume_completes:
  assumes "client_ready c" and "local_target e (cl_disk c) p" and "ok s" and "avail s n"
    and "lookup s n = Some (old @ new)" and "length (old @ new) < 2 ^ 32" and "old \<noteq> []" and "dfiles (cl_disk c) p = Some old"
  shows "\<exists>c' s'. runs serve (client_download_resume e n (Some p)) c s SUCCESS c' s'"
    and "runs serve (client_download_resume e n (Some p)) c s code c' s' \<Longrightarrow>
      code = SUCCESS \<and> dfiles (cl_disk c') = (dfiles (cl_disk c))(p \<mapsto> old @ new) \<and> lookup s' = lookup s"
proof -
  define R where "R = encode_response (make_response STATUS_PARTIAL (length new) (''File: '' @ n)) @ new"
  obtain s1 where s1: "serve (download_bytes (length old) n) s = Some (R, s1)" "ok s1" "avail s1 = avail s" "lookup s1 = lookup s"
    using download_alone [OF assms(3-5), of "length old"] assms(6,7) by (auto simp: R_def)
  have ready: "client_ready (with_input r c)" "local_target e (cl_disk (with_input r c)) p"
    "dfiles (cl_disk (with_input r c)) p = Some old" for r
    using assms(1,2,8) by (simp_all add: client_ready_def)
  have out: "outp (cl_conn k) = download_bytes (length old) n"
    if "client_download_resume e n (Some p) (with_input r c) = Some (x, k)" for r x k
    using resume_out [OF ready that] by simp
  have ne: "0 < length old" and lt: "length new < 2 ^ 32" using assms(6,7) by simp_all
  obtain k where k: "client_download_resume e n (Some p) (with_input R c) = Some (SUCCESS, k)"
    "dfiles (cl_disk k) = (dfiles (cl_disk c))(p \<mapsto> old @ new)"
    using resume_done [OF ready [of R] ne lt, of _ "[]" n] by (auto simp: R_def)
  show "\<exists>c' s'. runs serve (client_download_resume e n (Some p)) c s SUCCESS c' s'"
    using k(1) s1(1) out unfolding runs_def by metis
  assume "runs serve (client_download_resume e n (Some p)) c s code c' s'"
  then obtain r where r: "client_download_resume e n (Some p) (with_input r c) = Some (code, c')"
    "serve (outp (cl_conn c')) s = Some (r, s')" unfolding runs_def by blast
  then have "r = R" "s' = s1" using out [OF r(1)] s1(1) by simp_all
  then show "code = SUCCESS \<and> dfiles (cl_disk c') = (dfiles (cl_disk c))(p \<mapsto> old @ new) \<and> lookup s' = lookup s"
    using r(1) k s1 by simp
qed

text \<open>A resumed upload completes a file of which the server has a proper beginning.\<close>

lemma upload_resume_completes:
  assumes "client_ready c" and "local_file e (cl_disk c) p (old @ new)" and "ok s" and "avail s n"
    and "lookup s n = Some old" and "old \<noteq> []" and "new \<noteq> []" and "length (old @ new) < 2 ^ 32"
  shows "\<exists>c' s'. runs serve (client_upload_resume e p (Some n)) c s SUCCESS c' s' \<and> lookup s' = (lookup s)(n \<mapsto> old @ new)"
proof -
  have old: "length old < 2 ^ 32" "length old < 2 ^ 63" using assms(8) by simp_all
  obtain s1 where s1: "ok s1" "lookup s1 = lookup s" "avail s1 = avail s"
    and d: "serve (download_bytes 0 n @ upload_bytes (length old) n new) s =
      map_option (\<lambda>(r, t). (encode_response (make_response STATUS_OK (length old) (''File: '' @ n)) @ old @ r, t))
        (serve (upload_bytes (length old) n new) s1)"
    using serve_download [OF assms(3-5), of 0 "upload_bytes (length old) n new"] old by auto
  have "lookup s1 n = Some old" using s1(2) assms(5) by simp
  from serve_append [OF s1(1) _ assms(8,6) this, of "[]"] serve_nil obtain s2 where
    u: "serve (upload_bytes (length old) n new) s1 = Some (encode_response (make_response STATUS_OK 0 done_message), s2)"
      "lookup s2 = (lookup s)(n \<mapsto> old @ new)" using s1(2,3) assms(4) by fastforce
  define R where "R = encode_response (make_response STATUS_OK (length old) (''File: '' @ n)) @ old @
      encode_response (make_response STATUS_OK 0 done_message)"
  have ready: "client_ready (with_input R c)" "local_file e (cl_disk (with_input R c)) p (old @ new)"
    using assms(1,2) by (simp_all add: client_ready_def)
  have "is_cstr (''File: '' @ n)" using avail_good [OF assms(4)] by (simp add: good_name_def)
  moreover have "is_cstr done_message" by (simp add: done_message_def)
  ultimately obtain c' where "client_upload_resume e p (Some n) (with_input R c) = Some (SUCCESS, c')"
    "outp (cl_conn c') = download_bytes 0 n @ upload_bytes (length old) n new"
    using upload_resume_done [OF ready _ _ assms(8), of "''File: '' @ n" done_message "[]" n] assms(6,7) by (auto simp: R_def)
  then show ?thesis using d u unfolding runs_def by (intro exI [of _ c'] exI [of _ s2]) (simp add: R_def)
qed

end

end
