(* ===== verification/Fs_System.thy ===== *)
theory Fs_System
  imports Fs_Server File_Service
begin

text \<open>
  The file server and its client together: the server's connection loop satisfies the contract of
  \<open>file_service\<close>, so uploads, downloads and resumed transfers of the client end as the client expects;
  and what happens where the two sides lose step.
\<close>

subsection \<open>Output only grows\<close>

definition extends :: "conn \<Rightarrow> conn \<Rightarrow> bool" where
  "extends s s' \<longleftrightarrow> (\<exists>x. outp s' = outp s @ x)"

lemma extends_refl [simp]: "extends s s"
  by (simp add: extends_def)

lemma extends_trans: "extends s s1 \<Longrightarrow> extends s1 s2 \<Longrightarrow> extends s s2"
  by (auto simp: extends_def)

lemma extends_send [simp]: "extends s (snd (sock_send b s))"
  by (cases "sock_send b s") (auto simp: extends_def dest!: sock_send_frame)

lemma extends_respond [simp]: "extends s (respond st m s)"
  by (auto simp: respond_def server_send_response_def extends_def split: prod.splits dest!: sock_send_frame)

lemma extends_same: "outp s' = outp s \<Longrightarrow> extends s s'"
  by (simp add: extends_def)

lemma recv_file_extends: "server_recv_file cfg e n sz off s d = (r, s', d') \<Longrightarrow> extends s s'"
proof -
  assume a: "server_recv_file cfg e n sz off s d = (r, s', d')"
  show ?thesis
  proof (cases "\<not> name_ok n \<or> open_write e d (shared_path cfg n) (if 0 < off then ModeA else ModeW) = None")
    case True
    then show ?thesis using a by (auto simp: server_recv_file_def Let_def split: if_splits)
  next
    case False
    then obtain d1 where w: "open_write e d (shared_path cfg n) (if 0 < off then ModeA else ModeW) = Some d1" by blast
    obtain x s1 d2 where l: "recv_file_loop (unat sz) (shared_path cfg n) (lseek_pos off) s d1 = (x, s1, d2)"
      by (metis prod.exhaust)
    have "s' = s1 \<or> s' = respond STATUS_OK ''File uploaded successfully'' s1"
      using a False w l by (auto simp: server_recv_file_def Let_def split: xfer.splits)
    moreover have "extends s s1" using recv_file_loop_frame [OF l] by (simp add: extends_same)
    ultimately show ?thesis using extends_trans extends_respond by blast
  qed
qed

lemma send_file_extends: "server_send_file cfg e n off s d = (r, s', d') \<Longrightarrow> extends s s'"
proof -
  have loop: "extends s s1" if "send_file_loop c d (snd (sock_send b s)) = (x, d1, s1)" for c b x d1 s1
  proof -
    have "extends (snd (sock_send b s)) s1" using send_file_loop_frame [OF that] by (auto simp: extends_def)
    then show ?thesis using extends_trans extends_send by blast
  qed
  show "server_send_file cfg e n off s d = (r, s', d') \<Longrightarrow> extends s s'"
    by (auto simp: server_send_file_def Let_def split: if_splits option.splits prod.splits intro: loop)
qed

lemma small_extends:
  "server_delete_file cfg e n s d = (r, s', d') \<Longrightarrow> extends s s'"
  "server_mkdir cfg e n s d = (r, s', d') \<Longrightarrow> extends s s'"
  "server_rmdir cfg e n s d = (r, s', d') \<Longrightarrow> extends s s'"
  by (auto simp: small_handlers Let_def split: if_splits option.splits)

lemma list_extends: "server_list_files cfg e s d = Some (r, s') \<Longrightarrow> extends s s'"
  by (auto simp: server_list_files_def Let_def split: option.splits prod.splits intro: extends_trans extends_send)

lemma dispatch_extends: "server_dispatch cfg e h s d = Some (go, s', d') \<Longrightarrow> extends s s'"
proof -
  have wn: "extends s s'" if w: "with_name h f = Some (go, s', d')" and f: "\<And>n r. f n = (r, s', d') \<Longrightarrow> extends s s'" for f
  proof -
    obtain n r where "f n = (r, s', d')" using w by (auto simp: with_name_def split: option.splits prod.splits)
    then show ?thesis by (rule f)
  qed
  assume a: "server_dispatch cfg e h s d = Some (go, s', d')"
  then consider (list) r where "server_list_files cfg e s d = Some (r, s')"
    | (named) f where "with_name h f = Some (go, s', d')" "\<And>n r. f n = (r, s', d') \<Longrightarrow> extends s s'"
    | (plain) st m where "s' = respond st m s"
    unfolding server_dispatch_def server_pwd_def
    by (auto split: if_splits intro: recv_file_extends send_file_extends small_extends)
  then show "extends s s'" by cases (auto intro: list_extends wn)
qed

lemma loop_extends: "server_loop cfg e run s d = Some (s', d') \<Longrightarrow> extends s s'"
proof (induction cfg e run s d arbitrary: s' d' rule: server_loop.induct)
  case (1 cfg e run s d)
  obtain r s1 where r: "recv_all HEADER_SIZE s = (r, s1)" by fastforce
  then have x1: "extends s s1" using recv_all_inp [OF r] by (simp add: extends_same)
  show ?case
  proof (cases "(run \<noteq> [] \<and> \<not> hd run) \<or> r = None \<or> h_magic (decode_header (the r)) \<noteq> PROTOCOL_MAGIC")
    case True
    then have "s' = s \<or> s' = s1 \<or> s' = respond STATUS_ERROR ''Invalid protocol'' s1" using 1(2) r
      by (cases r; cases "run = [] \<or> hd run") (auto simp: server_loop_ends)
    then show ?thesis using x1 extends_trans [OF x1 extends_respond] by (elim disjE) simp_all
  next
    case False
    then obtain b where b: "r = Some b" "h_magic (decode_header b) = PROTOCOL_MAGIC" and go: "run = [] \<or> hd run" by auto
    note turn = server_loop_turn [OF go r [unfolded b(1)] b(2), of cfg e d]
    obtain go s2 d2 where d: "server_dispatch cfg e (decode_header b) s1 d = Some (go, s2, d2)"
      using 1(2) turn by (auto split: option.splits)
    have x2: "extends s s2" using x1 dispatch_extends [OF d] extends_trans by blast
    show ?thesis
    proof (cases go)
      case True
      then have "server_loop cfg e (tl run) s2 d2 = Some (s', d')" using 1(2) turn d by simp
      from 1(1) [OF _ r [symmetric] b(1) _ d refl refl True this] False b x2 show ?thesis
        by (auto intro: extends_trans)
    next
      case False
      then show ?thesis using 1(2) turn d x2 by simp
    qed
  qed
qed

subsection \<open>Turns of the server on a working connection\<close>

lemma name_of_header [simp]:
  "length n \<le> 255 \<Longrightarrow> is_cstr n \<Longrightarrow> array_str (h_filename (make_header cmd k off n)) = Some n"
  by (simp add: make_header_def array_str_fits c_limits)

lemma header_sel [simp]:
  "h_magic (make_header cmd k off n) = PROTOCOL_MAGIC" "h_cmd (make_header cmd k off n) = cmd_code cmd"
  "h_data_len (make_header cmd k off n) = of_nat k" "h_offset (make_header cmd k off n) = off"
  by (simp_all add: make_header_def)

lemma respond_live:
  "live_conn RESPONSE_SIZE s \<Longrightarrow> live_conn RESPONSE_SIZE (respond st m s) \<and>
     outp (respond st m s) = outp s @ encode_response (make_response st 0 m)"
  using sock_send_whole [of RESPONSE_SIZE s "encode_response (make_response st 0 m)"]
  by (auto simp: respond_def server_send_response_def)

text \<open>A request the dispatcher handles without leaving the loop.\<close>

lemma turn_live:
  assumes "live_conn w s" and "inp s = encode_header (make_header cmd k off n) @ rest"
  shows "\<exists>s1. live_conn w s1 \<and> inp s1 = rest \<and> outp s1 = outp s \<and>
    (\<forall>cfg e d s2 d2. server_dispatch cfg e (make_header cmd k off n) s1 d = Some (True, s2, d2) \<longrightarrow>
       server_loop cfg e [] s d = server_loop cfg e [] s2 d2)"
proof -
  obtain s1 where s1: "recv_all HEADER_SIZE s = (Some (encode_header (make_header cmd k off n)), s1)"
    "inp s1 = rest" "outp s1 = outp s" "live_conn w s1"
    using recv_header_live [OF assms(1) _ assms(2)] by auto
  have "server_loop cfg e [] s d = server_loop cfg e [] s2 d2"
    if "server_dispatch cfg e (make_header cmd k off n) s1 d = Some (True, s2, d2)" for cfg e d s2 d2
    using server_loop_turn [OF _ s1(1), of "[]" cfg e d] that by simp
  then show ?thesis using s1 by blast
qed

definition shared_avail :: "server_config \<Rightarrow> os_env \<Rightarrow> disk \<Rightarrow> string \<Rightarrow> bool" where
  "shared_avail cfg e d n \<longleftrightarrow> good_name n \<and> \<not> ddirs d (shared_path cfg n) \<and> (\<forall>m. os_open e (shared_path cfg n) m)"

lemma recv_file_live:
  assumes "live_conn RESPONSE_SIZE s" and "live_disk d" and "shared_avail cfg e d n" and "length content < 2 ^ 32"
    and "inp s = content @ rest"
    and "(off = 0 \<and> old = []) \<or> (0 < off \<and> off < 2 ^ 63 \<and> dfiles d (shared_path cfg n) = Some old \<and> off = length old)"
  shows "\<exists>s' d'. server_recv_file cfg e n (of_nat (length content)) (of_nat off) s d = (SUCCESS, s', d') \<and>
    live_conn RESPONSE_SIZE s' \<and> live_disk d' \<and> inp s' = rest \<and>
    outp s' = outp s @ encode_response (make_response STATUS_OK 0 done_message) \<and> ddirs d' = ddirs d \<and>
    dfiles d' = (dfiles d)(shared_path cfg n \<mapsto> old @ content)"
proof -
  define p where "p = shared_path cfg n"
  have ok: "name_ok n" "\<not> ddirs d p" "\<And>m. os_open e p m"
    using assms(3) by (auto simp: shared_avail_def good_name_def name_ok_def p_def)
  have u: "unat (of_nat (length content) :: 32 word) = length content" using assms(4) by (simp add: unat_of_nat)
  have pos: "(0 < (of_nat off :: 64 word)) = (0 < off)" "lseek_pos (of_nat off) = off"
    using assms(6) by (auto simp: lseek_pos_def unat_of_nat word_less_nat_alt)
  obtain d1 where d1: "open_write e d p (if 0 < off then ModeA else ModeW) = Some d1" "live_disk d1" "ddirs d1 = ddirs d"
    "dfiles d1 = (dfiles d)(p \<mapsto> old)"
    using assms(2,6) ok by (auto simp: open_write_def fopen_def live_disk_def p_def [symmetric] fun_upd_idem)
  have "dfiles d1 p = Some old" "off \<le> length old" using d1(4) assms(6) by auto
  from recv_file_loop_live [OF assms(1) d1(2) assms(5) refl this] obtain s2 d2 where
    l: "recv_file_loop (length content) p off s d1 = (XferOk, s2, d2)" "inp s2 = rest" "outp s2 = outp s"
      "live_conn RESPONSE_SIZE s2" "live_disk d2" "ddirs d2 = ddirs d1" "dfiles d2 = (dfiles d1)(p \<mapsto> pwrite off content old)"
    by blast
  have "pwrite off content old = old @ content" using assms(6) by auto
  then show ?thesis using ok u pos d1 l respond_live [OF l(4), of STATUS_OK done_message]
    by (simp add: server_recv_file_def p_def [symmetric] done_message_def)
qed

lemma send_file_live:
  assumes "live_conn RESPONSE_SIZE s" and "live_disk d" and "shared_avail cfg e d n"
    and "dfiles d (shared_path cfg n) = Some content" and "off \<le> length content" and "length content < 2 ^ 63"
  shows "\<exists>s' d'. server_send_file cfg e n (of_nat off) s d = (SUCCESS, s', d') \<and>
    live_conn RESPONSE_SIZE s' \<and> live_disk d' \<and> inp s' = inp s \<and>
    outp s' = outp s @ encode_response (make_response (if 0 < off then STATUS_PARTIAL else STATUS_OK) (length content - off) (''File: '' @ n))
      @ drop off content \<and> ddirs d' = ddirs d \<and> dfiles d' = dfiles d"
proof -
  define p where "p = shared_path cfg n"
  have ok: "name_ok n" "open_read e d p = Some (length content, content)"
    using assms(3,4) by (auto simp: shared_avail_def good_name_def name_ok_def p_def open_read_def)
  have pos: "(0 < (of_nat off :: 64 word)) = (0 < off)" "lseek_pos (of_nat off) = off" "unat (of_nat off :: 64 word) = off"
    using assms(5,6) by (auto simp: lseek_pos_def unat_of_nat word_less_nat_alt)
  define R where "R = encode_response (make_response (if 0 < off then STATUS_PARTIAL else STATUS_OK) (length content - off) (''File: '' @ n))"
  have "length R \<le> RESPONSE_SIZE" by (simp add: R_def)
  from sock_send_whole [OF assms(1) this] obtain s1 where
    s1: "sock_send R s = (int (length R), s1)" "live_conn RESPONSE_SIZE s1" "outp s1 = outp s @ R" "inp s1 = inp s" by blast
  obtain d2 s2 where s2: "send_file_loop (drop off content) d s1 = (True, d2, s2)" "outp s2 = outp s1 @ drop off content"
    "inp s2 = inp s1" "live_conn RESPONSE_SIZE s2" "live_disk d2" "dfiles d2 = dfiles d" "ddirs d2 = ddirs d"
    using send_file_loop_live [OF assms(2) s1(2)] by blast
  have "server_send_file cfg e n (of_nat off) s d = (SUCCESS, s2, d2)"
    unfolding server_send_file_def Let_def p_def [symmetric] ok(2) pos option.case prod.case R_def [symmetric] s1(1) snd_conv s2(1)
    using ok(1) assms(5) by simp
  then show ?thesis using s1 s2 by (simp add: R_def)
qed

subsection \<open>The server keeps the contract\<close>

definition srv_serve :: "server_config \<Rightarrow> os_env \<Rightarrow> bytes \<Rightarrow> conn \<times> disk \<Rightarrow> (bytes \<times> conn \<times> disk) option" where
  "srv_serve cfg e b st = (case st of (s, d) \<Rightarrow>
     (case server_loop cfg e [] (s\<lparr>inp := b\<rparr>) d of
        None \<Rightarrow> None
      | Some (s', d') \<Rightarrow> Some (drop (length (outp s)) (outp s'), (s', d'))))"

definition srv_lookup :: "server_config \<Rightarrow> conn \<times> disk \<Rightarrow> string \<Rightarrow> bytes option" where
  "srv_lookup cfg st n = (if length n \<le> 255 then dfiles (snd st) (shared_path cfg n) else None)"

definition srv_avail :: "server_config \<Rightarrow> os_env \<Rightarrow> conn \<times> disk \<Rightarrow> string \<Rightarrow> bool" where
  "srv_avail cfg e st n \<longleftrightarrow> shared_avail cfg e (snd st) n"

definition srv_ok :: "server_config \<Rightarrow> conn \<times> disk \<Rightarrow> bool" where
  "srv_ok cfg st \<longleftrightarrow> live_conn RESPONSE_SIZE (fst st) \<and> live_disk (snd st) \<and> length (cfg_shared_dir cfg) \<le> 255"

lemma shared_path_inj:
  "length (cfg_shared_dir cfg) \<le> 255 \<Longrightarrow> length n \<le> 255 \<Longrightarrow> length m \<le> 255 \<Longrightarrow> shared_path cfg n = shared_path cfg m \<longleftrightarrow> n = m"
  by (simp add: shared_path_def)

lemma srv_lookup_upd:
  assumes "length (cfg_shared_dir cfg) \<le> 255" and "length n \<le> 255" and "dfiles d' = (dfiles d)(shared_path cfg n \<mapsto> c)"
  shows "srv_lookup cfg (s', d') = (srv_lookup cfg (s, d))(n \<mapsto> c)"
  using assms shared_path_inj [OF assms(1)] by (auto simp: srv_lookup_def fun_eq_iff)

text \<open>A turn that answers \<open>R\<close> and goes on with the rest is what the contract describes.\<close>

lemma serve_turn:
  assumes "server_loop cfg e [] (s\<lparr>inp := b\<rparr>) d = server_loop cfg e [] s1 d1" and "outp s1 = outp s @ R"
  shows "srv_serve cfg e b (s, d) = map_option (\<lambda>(r, t). (R @ r, t)) (srv_serve cfg e (inp s1) (s1, d1))"
proof (cases "server_loop cfg e [] s1 d1")
  case None
  then show ?thesis using assms by (simp add: srv_serve_def)
next
  case (Some k)
  then obtain s2 d2 where l: "server_loop cfg e [] s1 d1 = Some (s2, d2)" by (cases k) auto
  obtain x where x: "outp s2 = outp s1 @ x" using loop_extends [OF l] by (auto simp: extends_def)
  have "s1\<lparr>inp := inp s1\<rparr> = s1" by simp
  then show ?thesis using assms l x by (simp add: srv_serve_def)
qed

lemma srv_nil: "srv_ok cfg st \<Longrightarrow> \<exists>st'. srv_serve cfg e [] st = Some ([], st') \<and> srv_ok cfg st' \<and>
  srv_lookup cfg st' = srv_lookup cfg st \<and> srv_avail cfg e st' = srv_avail cfg e st"
proof -
  assume ok: "srv_ok cfg st"
  obtain s d where st: "st = (s, d)" by fastforce
  obtain r s1 where r: "recv_all HEADER_SIZE (s\<lparr>inp := []\<rparr>) = (r, s1)" by fastforce
  have "r = None" using recv_all_short [of "s\<lparr>inp := []\<rparr>" HEADER_SIZE] r by (simp add: c_limits)
  moreover have "recv_all HEADER_SIZE (s\<lparr>inp := []\<rparr>) = (None, snd (sock_recv HEADER_SIZE (s\<lparr>inp := []\<rparr>)))"
    by (subst recv_all.simps) (auto simp: sock_recv_def c_limits split: list.splits)
  ultimately have s1: "s1 = snd (sock_recv HEADER_SIZE (s\<lparr>inp := []\<rparr>))" using r by simp
  have "live_conn RESPONSE_SIZE s1" "outp s1 = outp s"
    using ok by (auto simp: s1 st srv_ok_def live_conn_def sock_recv_def split: list.splits)
  then show ?thesis using ok server_loop_eof [of "[]" "s\<lparr>inp := []\<rparr>" s1 cfg e d] r \<open>r = None\<close>
    by (auto simp: srv_serve_def st srv_ok_def srv_lookup_def srv_avail_def fun_eq_iff)
qed

lemma srv_upload:
  assumes "srv_ok cfg st" and "srv_avail cfg e st n" and "length content < 2 ^ 32"
    and "(off = 0 \<and> old = []) \<or> (off = length old \<and> old \<noteq> [] \<and> length old < 2 ^ 63 \<and> srv_lookup cfg st n = Some old)"
  shows "\<exists>st'. srv_ok cfg st' \<and> srv_avail cfg e st' = srv_avail cfg e st \<and>
    srv_lookup cfg st' = (srv_lookup cfg st)(n \<mapsto> old @ content) \<and>
    srv_serve cfg e (upload_bytes off n content @ rest) st =
      map_option (\<lambda>(r, t). (encode_response (make_response STATUS_OK 0 done_message) @ r, t)) (srv_serve cfg e rest st')"
proof -
  obtain s d where st: "st = (s, d)" by fastforce
  have av: "shared_avail cfg e d n" and n: "length n \<le> 255" "is_cstr n"
    using assms(2) by (auto simp: st srv_avail_def shared_avail_def good_name_def)
  define b where "b = upload_bytes off n content @ rest"
  have lv: "live_conn RESPONSE_SIZE (s\<lparr>inp := b\<rparr>)" and dk: "live_disk d"
    using assms(1) by (simp_all add: st srv_ok_def live_conn_def)
  have "inp (s\<lparr>inp := b\<rparr>) = encode_header (make_header CMD_UPLOAD (length content) (of_nat off) n) @ content @ rest"
    by (simp add: b_def upload_bytes_def)
  from turn_live [OF lv this] obtain s1 where s1: "live_conn RESPONSE_SIZE s1" "inp s1 = content @ rest" "outp s1 = outp s"
    and t: "\<And>s2 d2. server_dispatch cfg e (make_header CMD_UPLOAD (length content) (of_nat off) n) s1 d = Some (True, s2, d2) \<Longrightarrow>
       server_loop cfg e [] (s\<lparr>inp := b\<rparr>) d = server_loop cfg e [] s2 d2" by auto
  have old: "(off = 0 \<and> old = []) \<or> (0 < off \<and> off < 2 ^ 63 \<and> dfiles d (shared_path cfg n) = Some old \<and> off = length old)"
    using assms(4) n by (auto simp: st srv_lookup_def)
  obtain s2 d2 where r: "server_recv_file cfg e n (of_nat (length content)) (of_nat off) s1 d = (SUCCESS, s2, d2)"
    "live_conn RESPONSE_SIZE s2" "live_disk d2" "inp s2 = rest"
    "outp s2 = outp s1 @ encode_response (make_response STATUS_OK 0 done_message)" "ddirs d2 = ddirs d"
    "dfiles d2 = (dfiles d)(shared_path cfg n \<mapsto> old @ content)"
    using recv_file_live [OF s1(1) dk av assms(3) s1(2) old] by blast
  have "server_dispatch cfg e (make_header CMD_UPLOAD (length content) (of_nat off) n) s1 d = Some (True, s2, d2)"
    using r(1) n by (simp add: server_dispatch_def with_name_def)
  from serve_turn [OF t [OF this], of "encode_response (make_response STATUS_OK 0 done_message)"]
  have "srv_serve cfg e b (s, d) =
      map_option (\<lambda>(r, t). (encode_response (make_response STATUS_OK 0 done_message) @ r, t)) (srv_serve cfg e rest (s2, d2))"
    using r(4,5) s1(3) by simp
  moreover have "srv_ok cfg (s2, d2)" using assms(1) r by (simp add: srv_ok_def st)
  moreover have "srv_lookup cfg (s2, d2) = (srv_lookup cfg st)(n \<mapsto> old @ content)"
    unfolding st by (rule srv_lookup_upd) (use assms(1) n r in \<open>simp_all add: srv_ok_def\<close>)
  moreover have "srv_avail cfg e (s2, d2) = srv_avail cfg e st"
    using r(6) by (simp add: srv_avail_def shared_avail_def st fun_eq_iff)
  ultimately show ?thesis unfolding b_def st by blast
qed

lemma srv_download:
  assumes "srv_ok cfg st" and "srv_avail cfg e st n" and "srv_lookup cfg st n = Some content" and "off \<le> length content"
    and "length content < 2 ^ 63"
  shows "\<exists>st'. srv_ok cfg st' \<and> srv_avail cfg e st' = srv_avail cfg e st \<and> srv_lookup cfg st' = srv_lookup cfg st \<and>
    srv_serve cfg e (download_bytes off n @ rest) st =
      map_option (\<lambda>(r, t). (encode_response (make_response (if 0 < off then STATUS_PARTIAL else STATUS_OK)
        (length content - off) (''File: '' @ n)) @ drop off content @ r, t)) (srv_serve cfg e rest st')"
proof -
  obtain s d where st: "st = (s, d)" by fastforce
  have av: "shared_avail cfg e d n" and n: "length n \<le> 255" "is_cstr n"
    using assms(2) by (auto simp: st srv_avail_def shared_avail_def good_name_def)
  define b where "b = download_bytes off n @ rest"
  define R where "R = encode_response (make_response (if 0 < off then STATUS_PARTIAL else STATUS_OK)
        (length content - off) (''File: '' @ n)) @ drop off content"
  have lv: "live_conn RESPONSE_SIZE (s\<lparr>inp := b\<rparr>)" and dk: "live_disk d"
    using assms(1) by (simp_all add: st srv_ok_def live_conn_def)
  have "inp (s\<lparr>inp := b\<rparr>) = encode_header (make_header CMD_DOWNLOAD 0 (of_nat off) n) @ rest"
    by (simp add: b_def download_bytes_def)
  from turn_live [OF lv this] obtain s1 where s1: "live_conn RESPONSE_SIZE s1" "inp s1 = rest" "outp s1 = outp s"
    and t: "\<And>s2 d2. server_dispatch cfg e (make_header CMD_DOWNLOAD 0 (of_nat off) n) s1 d = Some (True, s2, d2) \<Longrightarrow>
       server_loop cfg e [] (s\<lparr>inp := b\<rparr>) d = server_loop cfg e [] s2 d2" by auto
  have "dfiles d (shared_path cfg n) = Some content" using assms(3) n by (simp add: st srv_lookup_def)
  from send_file_live [OF s1(1) dk av this assms(4,5)] obtain s2 d2 where
    r: "server_send_file cfg e n (of_nat off) s1 d = (SUCCESS, s2, d2)" "live_conn RESPONSE_SIZE s2" "live_disk d2"
      "inp s2 = rest" "outp s2 = outp s1 @ R" "ddirs d2 = ddirs d" "dfiles d2 = dfiles d"
    using s1(2) by (auto simp: R_def)
  have "server_dispatch cfg e (make_header CMD_DOWNLOAD 0 (of_nat off) n) s1 d = Some (True, s2, d2)"
    using r(1) n by (simp add: server_dispatch_def with_name_def)
  from serve_turn [OF t [OF this], of R]
  have "srv_serve cfg e b (s, d) = map_option (\<lambda>(r, t). (R @ r, t)) (srv_serve cfg e rest (s2, d2))"
    using r(4,5) s1(3) by simp
  moreover have "srv_ok cfg (s2, d2)" using assms(1) r by (simp add: srv_ok_def st)
  moreover have "srv_lookup cfg (s2, d2) = srv_lookup cfg st" using r(7) by (simp add: srv_lookup_def st fun_eq_iff)
  moreover have "srv_avail cfg e (s2, d2) = srv_avail cfg e st"
    using r(6) by (simp add: srv_avail_def shared_avail_def st fun_eq_iff)
  ultimately show ?thesis unfolding b_def st R_def append.assoc by blast
qed

interpretation fsrv: file_service "srv_serve cfg e" "srv_lookup cfg" "srv_avail cfg e" "srv_ok cfg" for cfg e
proof unfold_locales
  fix st n content old off rest
  show "srv_avail cfg e st n \<Longrightarrow> good_name n" by (simp add: srv_avail_def shared_avail_def)
  show "srv_ok cfg st \<Longrightarrow> \<exists>st'. srv_serve cfg e [] st = Some ([], st') \<and> srv_ok cfg st' \<and>
    srv_lookup cfg st' = srv_lookup cfg st \<and> srv_avail cfg e st' = srv_avail cfg e st" by (rule srv_nil)
  show "srv_ok cfg st \<Longrightarrow> srv_avail cfg e st n \<Longrightarrow> length content < 2 ^ 32 \<Longrightarrow>
    \<exists>st'. srv_ok cfg st' \<and> srv_avail cfg e st' = srv_avail cfg e st \<and> srv_lookup cfg st' = (srv_lookup cfg st)(n \<mapsto> content) \<and>
      srv_serve cfg e (upload_bytes 0 n content @ rest) st =
      map_option (\<lambda>(r, t). (encode_response (make_response STATUS_OK 0 done_message) @ r, t)) (srv_serve cfg e rest st')"
    using srv_upload [of cfg st e n content 0 "[]" rest] by simp
  show "srv_ok cfg st \<Longrightarrow> srv_avail cfg e st n \<Longrightarrow> length (old @ content) < 2 ^ 32 \<Longrightarrow> old \<noteq> [] \<Longrightarrow> srv_lookup cfg st n = Some old \<Longrightarrow>
    \<exists>st'. srv_ok cfg st' \<and> srv_avail cfg e st' = srv_avail cfg e st \<and> srv_lookup cfg st' = (srv_lookup cfg st)(n \<mapsto> old @ content) \<and>
      srv_serve cfg e (upload_bytes (length old) n content @ rest) st =
      map_option (\<lambda>(r, t). (encode_response (make_response STATUS_OK 0 done_message) @ r, t)) (srv_serve cfg e rest st')"
    using srv_upload [of cfg st e n content "length old" old rest] by simp
  show "srv_ok cfg st \<Longrightarrow> srv_avail cfg e st n \<Longrightarrow> srv_lookup cfg st n = Some content \<Longrightarrow> off \<le> length content \<Longrightarrow> length content < 2 ^ 63 \<Longrightarrow>
    \<exists>st'. srv_ok cfg st' \<and> srv_avail cfg e st' = srv_avail cfg e st \<and> srv_lookup cfg st' = srv_lookup cfg st \<and>
      srv_serve cfg e (download_bytes off n @ rest) st =
      map_option (\<lambda>(r, t). (encode_response (make_response (if 0 < off then STATUS_PARTIAL else STATUS_OK)
        (length content - off) (''File: '' @ n)) @ drop off content @ r, t)) (srv_serve cfg e rest st')"
    by (rule srv_download)
qed

subsection \<open>Transfers\<close>


text \<open>
  A working pair for the witnesses: connections that hand over a few bytes at a time, a client with a
  file \<open>f\<close>, and a server with an empty shared directory.
\<close>

definition demo_env :: os_env where
  "demo_env = \<lparr>os_open = (\<lambda>p m. True), os_readdir = (\<lambda>d p. Some []), os_dir_size = 4096, os_mkdir = (\<lambda>d p. None),
     os_rmdir = (\<lambda>d p. None), os_unlink = (\<lambda>p. True)\<rparr>"

definition demo_disk :: "fstore \<Rightarrow> disk" where
  "demo_disk fs = \<lparr>dfiles = fs, ddirs = (\<lambda>p. False), dreads = [3, 1], dwrites = []\<rparr>"

definition demo_conn :: conn where
  "demo_conn = \<lparr>inp = [], rscript = [100, 5, 2], sscript = [], outp = []\<rparr>"

definition demo_client :: "fstore \<Rightarrow> client" where
  "demo_client fs = \<lparr>cl_ctx = \<lparr>cc_sock_fd = 5, cc_server_ip = ''127.0.0.1'', cc_server_port = 8888, cc_connected = True, cc_closed = []\<rparr>,
     cl_conn = demo_conn, cl_disk = demo_disk fs, cl_out = []\<rparr>"

lemma demo_facts:
  "client_ready (demo_client fs)" "srv_ok demo_config (demo_conn, demo_disk fs)"
  "fs p = Some b \<Longrightarrow> local_file demo_env (cl_disk (demo_client fs)) p b" "local_target demo_env (cl_disk (demo_client fs)) p"
  "good_name n \<Longrightarrow> srv_avail demo_config demo_env (demo_conn, demo_disk fs) n"
  by (simp_all add: client_ready_def demo_client_def demo_conn_def demo_disk_def live_conn_def live_disk_def srv_ok_def
      local_file_def local_target_def demo_env_def srv_avail_def shared_avail_def demo_config_def default_config_def c_limits)


text \<open>
  C11. Interrupted transfers are completed: when the local file is a non-empty beginning of the remote one, a
  resumed download succeeds and every run of it ends with the whole remote file; when the server holds
  a non-empty proper beginning of the local file, a resumed upload succeeds and leaves the whole file
  there and the other remote files alone.
\<close>

theorem resumed_transfers_complete:
  assumes "client_ready c" and "srv_ok cfg st" and "srv_avail cfg es st n" and "old \<noteq> []" and "new \<noteq> []"
    and "length (old @ new) < 2 ^ 32"
  shows "(local_target e (cl_disk c) q \<and> dfiles (cl_disk c) q = Some old \<and> srv_lookup cfg st n = Some (old @ new) \<longrightarrow>
      (\<exists>c' st'. runs (srv_serve cfg es) (client_download_resume e n (Some q)) c st SUCCESS c' st') \<and>
      (\<forall>r c' st'. runs (srv_serve cfg es) (client_download_resume e n (Some q)) c st r c' st' \<longrightarrow>
         r = SUCCESS \<and> dfiles (cl_disk c') = (dfiles (cl_disk c))(q \<mapsto> old @ new))) \<and>
    (local_file e (cl_disk c) p (old @ new) \<and> srv_lookup cfg st n = Some old \<longrightarrow>
      (\<exists>c' st'. runs (srv_serve cfg es) (client_upload_resume e p (Some n)) c st SUCCESS c' st' \<and>
         srv_lookup cfg st' = (srv_lookup cfg st)(n \<mapsto> old @ new)))"
  using fsrv.resume_completes [OF assms(1) _ assms(2,3) _ assms(6,4)]
    fsrv.upload_resume_completes [OF assms(1) _ assms(2,3) _ assms(4,5,6)] by blast

lemma resumed_transfers_complete_witness:
  "\<exists>c' st'. runs (srv_serve demo_config demo_env) (client_download_resume demo_env ''n'' (Some ''g'')) (demo_client [''g'' \<mapsto> ''he''])
     (demo_conn, demo_disk [shared_path demo_config ''n'' \<mapsto> ''hello'']) SUCCESS c' st' \<and> dfiles (cl_disk c') ''g'' = Some ''hello''"
proof -
  have n: "good_name ''n''" by (simp add: good_name_def strchr_def)
  have l: "srv_lookup demo_config (demo_conn, demo_disk [shared_path demo_config ''n'' \<mapsto> ''hello'']) ''n'' = Some (''he'' @ ''llo'')"
    by (simp add: srv_lookup_def demo_disk_def)
  have g: "dfiles (cl_disk (demo_client [''g'' \<mapsto> ''he''])) ''g'' = Some ''he''" by (simp add: demo_client_def demo_disk_def)
  have "(''he'' :: string) \<noteq> []" "(''llo'' :: string) \<noteq> []" "length (''he'' @ ''llo'') < 2 ^ 32" by simp_all
  note w = resumed_transfers_complete [OF demo_facts(1) demo_facts(2) demo_facts(5) [OF n] this]
  then show ?thesis using demo_facts(4) g l by fastforce
qed

subsection \<open>Where the two sides lose step\<close>

lemma delete_live:
  assumes "live_conn RESPONSE_SIZE s" and "good_name v" and "dfiles d (shared_path cfg v) \<noteq> None" and "os_unlink e (shared_path cfg v)"
  shows "server_delete_file cfg e v s d = (SUCCESS, respond STATUS_OK ''File deleted'' s, disk_unlink (shared_path cfg v) d)"
  using assms by (simp add: server_delete_file_def good_name_def name_ok_def)

lemma refused_live:
  assumes "\<not> name_ok n"
  shows "server_recv_file cfg e n sz off s d = (ERR_FILE_OPEN, respond STATUS_DENIED ''Invalid filename'' s, d)"
  using assms by (simp add: server_recv_file_def)

text \<open>What the server makes of a refused upload whose data is the header of a \<open>DELETE\<close>.\<close>

lemma refused_then_deleted:
  assumes "srv_ok cfg (s, d)" and "length n \<le> 255" and "is_cstr n" and "\<not> name_ok n" and "good_name v"
    and "srv_lookup cfg (s, d) v \<noteq> None" and "os_unlink es (shared_path cfg v)"
  shows "\<exists>st'. srv_serve cfg es (upload_bytes 0 n (encode_header (make_header CMD_DELETE 0 0 v))) (s, d) =
      Some (encode_response (make_response STATUS_DENIED 0 ''Invalid filename'')
         @ encode_response (make_response STATUS_OK 0 ''File deleted''), st') \<and>
    srv_lookup cfg st' = (srv_lookup cfg (s, d))(v := None)"
proof -
  define content where "content = encode_header (make_header CMD_DELETE 0 0 v)"
  define b where "b = upload_bytes 0 n content"
  have v: "length v \<le> 255" "is_cstr v" using assms(5) by (simp_all add: good_name_def)
  have lv: "live_conn RESPONSE_SIZE (s\<lparr>inp := b\<rparr>)" using assms(1) by (simp add: srv_ok_def live_conn_def)
  have "inp (s\<lparr>inp := b\<rparr>) = encode_header (make_header CMD_UPLOAD (length content) 0 n) @ content"
    by (simp add: b_def upload_bytes_def)
  from turn_live [OF lv this] obtain s1 where s1: "live_conn RESPONSE_SIZE s1" "inp s1 = content" "outp s1 = outp s"
    and t1: "\<And>s2 d2. server_dispatch cfg es (make_header CMD_UPLOAD (length content) 0 n) s1 d = Some (True, s2, d2) \<Longrightarrow>
       server_loop cfg es [] (s\<lparr>inp := b\<rparr>) d = server_loop cfg es [] s2 d2" by auto
  define s2 where "s2 = respond STATUS_DENIED ''Invalid filename'' s1"
  have l1: "server_loop cfg es [] (s\<lparr>inp := b\<rparr>) d = server_loop cfg es [] s2 d"
    using assms(2-4) by (intro t1) (simp add: server_dispatch_def with_name_def refused_live s2_def)
  have s2: "live_conn RESPONSE_SIZE s2" "inp s2 = content @ []"
    "outp s2 = outp s @ encode_response (make_response STATUS_DENIED 0 ''Invalid filename'')"
    using respond_live [OF s1(1), of STATUS_DENIED "''Invalid filename''"] s1 by (simp_all add: s2_def)
  from turn_live [OF s2(1) s2(2) [unfolded content_def]] obtain s3 where
    s3: "live_conn RESPONSE_SIZE s3" "inp s3 = []" "outp s3 = outp s2"
    and t2: "\<And>s4 d4. server_dispatch cfg es (make_header CMD_DELETE 0 0 v) s3 d = Some (True, s4, d4) \<Longrightarrow>
       server_loop cfg es [] s2 d = server_loop cfg es [] s4 d4" by auto
  define s4 where "s4 = respond STATUS_OK ''File deleted'' s3"
  define d4 where "d4 = disk_unlink (shared_path cfg v) d"
  have "dfiles d (shared_path cfg v) \<noteq> None" using assms(6) by (simp add: srv_lookup_def split: if_splits)
  then have l2: "server_loop cfg es [] s2 d = server_loop cfg es [] s4 d4"
    using v assms(5,7) s3(1) by (intro t2) (simp add: server_dispatch_def with_name_def delete_live s4_def d4_def)
  have s4: "live_conn RESPONSE_SIZE s4" "inp s4 = []" "outp s4 = outp s2 @ encode_response (make_response STATUS_OK 0 ''File deleted'')"
    using respond_live [OF s3(1), of STATUS_OK "''File deleted''"] s3 by (simp_all add: s4_def)
  have "srv_ok cfg (s4, d4)" using assms(1) s4(1) by (simp add: srv_ok_def d4_def disk_unlink_def live_disk_def)
  from srv_nil [OF this] obtain st' where
    n': "srv_serve cfg es [] (s4, d4) = Some ([], st')" "srv_lookup cfg st' = srv_lookup cfg (s4, d4)" by blast
  have "srv_lookup cfg st' = (srv_lookup cfg (s, d))(v := None)"
    using n'(2) assms(1) v shared_path_inj [of cfg] by (auto simp: srv_lookup_def d4_def disk_unlink_def srv_ok_def fun_eq_iff)
  then show ?thesis using serve_turn [of cfg es b s d s4 d4 "_ @ _"] l1 l2 s4 s2(3) n' by (auto simp: b_def content_def)
qed

text \<open>
  A refused upload is executed: the server refuses a name with two dots without taking the data that
  follows the header, so the data is read as the next command. A client that uploads, under such a name,
  a local file whose bytes are the header of a \<open>DELETE\<close> reports success, and the named remote file is gone.
\<close>

lemma refused_upload_executed:
  assumes "client_ready c" and "local_file e (cl_disk c) p (encode_header (make_header CMD_DELETE 0 0 v))"
    and "srv_ok cfg (s, d)" and "length n \<le> 255" and "is_cstr n" and "strstr n ''..'' \<noteq> None" and "good_name v"
    and "srv_lookup cfg (s, d) v \<noteq> None" and "os_unlink es (shared_path cfg v)"
  shows "\<exists>c' st'. runs (srv_serve cfg es) (client_upload_file e p (Some n)) c (s, d) SUCCESS c' st' \<and>
    srv_lookup cfg st' = (srv_lookup cfg (s, d))(v := None)"
proof -
  define content where "content = encode_header (make_header CMD_DELETE 0 0 v)"
  define R where "R = encode_response (make_response STATUS_DENIED 0 ''Invalid filename'')
    @ encode_response (make_response STATUS_OK 0 ''File deleted'')"
  have "\<not> name_ok n" using assms(6) by (simp add: name_ok_def)
  from refused_then_deleted [OF assms(3-5) this assms(7-9)] obtain st' where
    srv: "srv_serve cfg es (upload_bytes 0 n content) (s, d) = Some (R, st')"
    and gone: "srv_lookup cfg st' = (srv_lookup cfg (s, d))(v := None)" by (auto simp: R_def content_def)
  have ready: "client_ready (with_input R c)" "local_file e (cl_disk (with_input R c)) p content"
    using assms(1,2) by (simp_all add: client_ready_def content_def)
  have live: "live_conn HEADER_SIZE (cl_conn (with_input R c))" "live_disk (cl_disk (with_input R c))"
    using assms(1) by (simp_all add: client_ready_def)
  obtain c' where c': "upload_from (length content) content n 0 (with_input R c) = Some (SUCCESS, c')"
    using upload_done [OF live le0, of STATUS_DENIED "''Invalid filename''" _ content n] by (auto simp: R_def)
  have "outp (cl_conn c') = upload_bytes 0 n content" using upload_out [OF live le0 c'] by simp
  then show ?thesis using upload_sends [OF ready, of n] c' srv gone unfolding runs_def by metis
qed

lemma refused_upload_executed_witness:
  "\<exists>c' st'. runs (srv_serve demo_config demo_env) (client_upload_file demo_env ''f'' (Some ''a..b''))
     (demo_client [''f'' \<mapsto> encode_header (make_header CMD_DELETE 0 0 ''v'')])
     (demo_conn, demo_disk [shared_path demo_config ''v'' \<mapsto> ''kept'']) SUCCESS c' st' \<and> srv_lookup demo_config st' ''v'' = None"
proof -
  define h where "h = encode_header (make_header CMD_DELETE 0 0 ''v'')"
  have v: "good_name ''v''" by (simp add: good_name_def strchr_def)
  have fl: "local_file demo_env (cl_disk (demo_client [''f'' \<mapsto> h])) ''f'' h" by (rule demo_facts(3)) simp
  have "\<exists>c' st'. runs (srv_serve demo_config demo_env) (client_upload_file demo_env ''f'' (Some ''a..b'')) (demo_client [''f'' \<mapsto> h])
     (demo_conn, demo_disk [shared_path demo_config ''v'' \<mapsto> ''kept'']) SUCCESS c' st' \<and>
     srv_lookup demo_config st' = (srv_lookup demo_config (demo_conn, demo_disk [shared_path demo_config ''v'' \<mapsto> ''kept'']))(''v'' := None)"
    by (rule refused_upload_executed [OF demo_facts(1) fl [unfolded h_def] demo_facts(2) _ _ _ v, folded h_def])
      (simp_all add: srv_lookup_def demo_disk_def demo_env_def)
  then show ?thesis unfolding h_def by (metis fun_upd_same)
qed

text \<open>
  Sizes are sent in 32 bits: of a remote file of \<open>2^32 + k\<close> bytes a download takes the first \<open>k\<close>, reports
  success, and leaves the other \<open>2^32\<close> bytes in the connection, where the next response is expected.
\<close>

lemma large_download_truncated:
  assumes "client_ready c" and "local_target e (cl_disk c) p" and "srv_ok cfg st" and "srv_avail cfg es st n"
    and "srv_lookup cfg st n = Some content" and "length content = 2 ^ 32 + k" and "k < 2 ^ 32"
  shows "\<exists>c' st'. runs (srv_serve cfg es) (client_download_file e n (Some p)) c st SUCCESS c' st' \<and>
    dfiles (cl_disk c') p = Some (take k content) \<and> inp (cl_conn c') = drop k content"
proof -
  have "(of_nat (2 ^ 32 + k) :: 32 word) = of_nat k" by simp
  then have same: "make_response STATUS_OK (length content) m = make_response STATUS_OK (length (take k content)) m" for m
    using assms(6) by (simp add: make_response_def)
  define R where "R = encode_response (make_response STATUS_OK (length content) (''File: '' @ n)) @ content"
  obtain st' where s: "srv_serve cfg es (download_bytes 0 n) st = Some (R, st')"
    using fsrv.download_alone [OF assms(3-5), of 0] assms(6,7) by (auto simp: R_def)
  have ready: "client_ready (with_input R c)" "local_target e (cl_disk (with_input R c)) p" using assms(1,2) by (simp_all add: client_ready_def)
  have "length (take k content) < 2 ^ 32" using assms(7) by simp
  moreover have "inp (cl_conn (with_input R c)) =
      encode_response (make_response STATUS_OK (length (take k content)) (''File: '' @ n)) @ take k content @ drop k content"
    using same by (simp add: R_def)
  ultimately obtain c' where c': "client_download_file e n (Some p) (with_input R c) = Some (SUCCESS, c')"
    "inp (cl_conn c') = drop k content" "dfiles (cl_disk c') = (dfiles (cl_disk (with_input R c)))(p \<mapsto> take k content)"
    using download_done [OF ready] by blast
  have "outp (cl_conn c') = download_bytes 0 n" using download_out [OF ready(1) c'(1)] by simp
  then show ?thesis using c' s unfolding runs_def by (intro exI [of _ c'] exI [of _ st']) auto
qed

text \<open>
  A directory can be downloaded: the server announces the size of the directory and sends nothing, so the
  next response is taken for the announced data.
\<close>

lemma download_directory:
  assumes "name_ok n" and "ddirs d (shared_path cfg n)" and "os_open es (shared_path cfg n) ModeR" and "live_conn RESPONSE_SIZE s"
  shows "\<exists>s' d'. server_send_file cfg es n 0 s d = (SUCCESS, s', d') \<and>
    outp s' = outp s @ encode_response (make_response STATUS_OK (os_dir_size es) (''File: '' @ n))"
proof -
  define R where "R = encode_response (make_response STATUS_OK (os_dir_size es) (''File: '' @ n))"
  obtain s1 where s1: "sock_send R s = (int (length R), s1)" "outp s1 = outp s @ R"
    using sock_send_whole [OF assms(4), of R] by (auto simp: R_def)
  have op: "open_read es d (shared_path cfg n) = Some (os_dir_size es, [])" using assms(2,3) by (simp add: open_read_def)
  obtain ok d' s' where l: "send_file_loop [] d s1 = (ok, d', s')" by (metis prod.exhaust)
  have "s' = s1" using l by (auto simp: send_file_loop.simps disk_read_def split: list.splits if_splits)
  then have "server_send_file cfg es n 0 s d = (SUCCESS, s1, d')"
    using assms(1) op l s1(1) by (simp add: server_send_file_def R_def)
  then show ?thesis using s1(2) R_def by blast
qed

lemma large_download_truncated_witness:
  "\<exists>c' st'. runs (srv_serve demo_config demo_env) (client_download_file demo_env ''n'' (Some ''g'')) (demo_client Map.empty)
     (demo_conn, demo_disk [shared_path demo_config ''n'' \<mapsto> replicate (2 ^ 32 + 2) CHR ''x'']) SUCCESS c' st' \<and>
     dfiles (cl_disk c') ''g'' = Some ''xx''"
proof -
  have n: "good_name ''n''" by (simp add: good_name_def strchr_def)
  define content where "content = replicate (2 ^ 32 + 2) CHR ''x''"
  have len: "length content = 2 ^ 32 + 2" by (simp only: content_def length_replicate)
  have tk: "take 2 content = ''xx''" unfolding content_def take_replicate by (simp add: numeral_2_eq_2)
  have l: "srv_lookup demo_config (demo_conn, demo_disk [shared_path demo_config ''n'' \<mapsto> content]) ''n'' = Some content"
    by (simp add: srv_lookup_def demo_disk_def)
  have k: "(2 :: nat) < 2 ^ 32" by simp
  show ?thesis
    using large_download_truncated [of "demo_client Map.empty" demo_env "''g''", OF demo_facts(1,4,2) demo_facts(5) [OF n] l len k] tk
    unfolding content_def by auto
qed

text \<open>A transfer that ends early keeps what arrived.\<close>

lemma recv_file_loop_short:
  "rscript s = [] \<Longrightarrow> live_disk d \<Longrightarrow> length (inp s) < n \<Longrightarrow> dfiles d p = Some old \<Longrightarrow> pos \<le> length old \<Longrightarrow>
   \<exists>s' d'. recv_file_loop n p pos s d = (XferRecv, s', d') \<and> dfiles d' = (dfiles d)(p \<mapsto> pwrite pos (inp s) old)"
proof (induction n p pos s d arbitrary: old rule: recv_file_loop.induct)
  case (1 n p pos s d)
  define b where "b = take (min n BUFFER_SIZE) (inp s)"
  define s1 where "s1 = s\<lparr>inp := drop (min n BUFFER_SIZE) (inp s)\<rparr>"
  have b: "sock_recv (min n BUFFER_SIZE) s = (b, s1)" using 1(2) by (simp add: sock_recv_def b_def s1_def)
  have n: "n \<noteq> 0" using 1(4) by simp
  show ?case
  proof (cases "inp s = []")
    case True
    then have "b = []" by (simp add: b_def)
    then show ?thesis using True n b 1(5,6) by (auto simp: recv_file_loop.simps [of n] pwrite_nil fun_upd_idem)
  next
    case False
    have bn: "b \<noteq> []" using False n by (simp add: b_def c_limits)
    have spl: "b @ inp s1 = inp s" by (simp add: b_def s1_def)
    have bl: "length b \<le> BUFFER_SIZE" by (simp add: b_def)
    obtain d1 where w: "disk_write p pos b d = (True, d1)" "live_disk d1" "dfiles d1 = (dfiles d)(p \<mapsto> pwrite pos b old)"
      using disk_write_live [OF 1(3) bl, of p pos] 1(5) by (auto simp: file_content_def)
    have "length (inp s1) < n - length b" using 1(4) spl by (metis length_append less_diff_conv add.commute)
    moreover have "dfiles d1 p = Some (pwrite pos b old)" using w(3) by simp
    moreover have "pos + length b \<le> length (pwrite pos b old)" using 1(6) by (simp add: pwrite_def)
    ultimately obtain s2 d2 where "recv_file_loop (n - length b) p (pos + length b) s1 d1 = (XferRecv, s2, d2)"
      "dfiles d2 = (dfiles d1)(p \<mapsto> pwrite (pos + length b) (inp s1) (pwrite pos b old))"
      using 1(1) [OF n b [symmetric] bn w(1) [symmetric] _ _ w(2)] 1(2) by (metis s1_def conn.select_convs(2) conn.surjective conn.update_convs(1))
    then show ?thesis using n b bn w spl by (auto simp: recv_file_loop.simps [of n] pwrite_pwrite)
  qed
qed

text \<open>
  A broken download is reported as complete: when the server's data ends before the announced length,
  \<open>client_download_file\<close> stores what arrived, prints that the announced number of bytes was saved and
  returns success.
\<close>

lemma broken_download_succeeds:
  assumes "client_ready c" and "local_target e (cl_disk c) p" and "length data < k" and "k < 2 ^ 32" and "rscript (cl_conn c) = []"
    and "inp (cl_conn c) = encode_response (make_response STATUS_OK k m) @ data"
  shows "\<exists>c'. client_download_file e n (Some p) c = Some (SUCCESS, c') \<and> dfiles (cl_disk c') p = Some data \<and>
    cl_out c' = cl_out c @ ''Download '' @ n @ '': '' @ dec_nat k @ '' bytes saved to '' @ p @ [LF]"
proof -
  obtain s1 where h: "send_header (make_header CMD_DOWNLOAD 0 0 n) c = (True, c\<lparr>cl_conn := s1\<rparr>)"
    and l1: "live_conn HEADER_SIZE s1" "inp s1 = inp (cl_conn c)" "rscript s1 = []"
  proof -
    obtain s where s: "sock_send (encode_header (make_header CMD_DOWNLOAD 0 0 n)) (cl_conn c) =
        (int (length (encode_header (make_header CMD_DOWNLOAD 0 0 n))), s)" "live_conn HEADER_SIZE s" "inp s = inp (cl_conn c)"
      using sock_send_whole [of HEADER_SIZE "cl_conn c" "encode_header (make_header CMD_DOWNLOAD 0 0 n)"] assms(1)
      by (auto simp: client_ready_def)
    then show thesis using that [of s] sock_send_frame [OF s(1)] assms(5) by (simp add: send_header_def)
  qed
  obtain s2 where r: "recv_response (c\<lparr>cl_conn := s1\<rparr>) = (Some (make_response STATUS_OK k m), c\<lparr>cl_conn := s2\<rparr>)"
    and l2: "inp s2 = data" "rscript s2 = []"
  proof -
    have "recv_all RESPONSE_SIZE s1 = (Some (encode_response (make_response STATUS_OK k m)), s1\<lparr>inp := data\<rparr>)"
    proof -
      define R where "R = encode_response (make_response STATUS_OK k m)"
      have "length R = RESPONSE_SIZE" "R \<noteq> []" by (auto simp: R_def c_limits dest: arg_cong [of _ _ length])
      then show ?thesis using l1 assms(6) unfolding R_def [symmetric] by (subst recv_all.simps) (simp add: sock_recv_def c_limits)
    qed
    then show thesis using that [of "s1\<lparr>inp := data\<rparr>"] l1(3) by (simp add: recv_response_def)
  qed
  define d where "d = (cl_disk c)\<lparr>dfiles := (dfiles (cl_disk c))(p \<mapsto> [])\<rparr>"
  have d: "open_write e (cl_disk c) p ModeW = Some d" "live_disk d" "dfiles d p = Some []"
    using open_target_w [OF assms(2)] assms(1) by (auto simp: d_def client_ready_def live_disk_def)
  have k: "unat (of_nat k :: 32 word) = k" using assms(4) by (simp add: unat_of_nat)
  obtain s3 d3 where "recv_file_loop k p 0 s2 d = (XferRecv, s3, d3)" "dfiles d3 p = Some data"
    using recv_file_loop_short [OF l2(2) d(2) _ d(3), of k 0] l2(1) assms(3) by auto
  then show ?thesis using assms(1) h r d(1) k
    by (simp add: client_download_file_def client_ready_def receive_into_def say_def saved_line_def)
qed

lemma broken_download_succeeds_witness:
  "\<exists>c'. client_download_file demo_env ''n'' (Some ''g'')
      ((demo_client Map.empty)\<lparr>cl_conn := \<lparr>inp = encode_response (make_response STATUS_OK 9 ''m'') @ ''abc'', rscript = [], sscript = [], outp = []\<rparr>\<rparr>) =
      Some (SUCCESS, c') \<and> dfiles (cl_disk c') ''g'' = Some ''abc''"
proof -
  define c where "c = (demo_client Map.empty)\<lparr>cl_conn :=
      \<lparr>inp = encode_response (make_response STATUS_OK 9 ''m'') @ ''abc'', rscript = [], sscript = [], outp = []\<rparr>\<rparr>"
  have "client_ready c" using demo_facts(1) [of Map.empty] by (simp add: c_def client_ready_def live_conn_def c_limits)
  moreover have "local_target demo_env (cl_disk c) ''g''" using demo_facts(4) [of Map.empty] by (simp add: c_def)
  ultimately show ?thesis
    using broken_download_succeeds [of c demo_env "''g''" "''abc''" 9 "''m''" "''n''"] unfolding c_def by auto
qed

end
