(* ===== verification/Fs_Auth.thy ===== *)
theory Fs_Auth
  imports Fs_Protocol Fs_Config
begin

text \<open>
  Authentication of the file server (\<open>linux-file-server/src/auth.c\<close>): users from a file, salted password
  hashes, and tokens kept in an array of 64 slots of 64 bytes each, which is one block of 4096 bytes. The
  hash function (SHA-256 of OpenSSL) and the random bytes are parameters. Reading a token past the end of
  the block or writing past it is \<^const>\<open>None\<close>.
\<close>

subsection \<open>State\<close>

record auth_user =
  au_username :: string
  au_password_hash :: string
  au_salt :: string
  au_permissions :: int

record auth_context =
  au_users :: "auth_user list"
  au_tokens :: bytes

definition AUTH_MAX_USERS :: nat where [c_limits]: "AUTH_MAX_USERS = 64"
definition AUTH_TOKEN_LEN :: nat where [c_limits]: "AUTH_TOKEN_LEN = 64"
definition AUTH_SALT_LEN :: nat where [c_limits]: "AUTH_SALT_LEN = 16"
definition SHA256_DIGEST_LENGTH :: nat where [c_limits]: "SHA256_DIGEST_LENGTH = 32"

subsection \<open>Hashes, salts and tokens\<close>

definition hex_string :: "bytes \<Rightarrow> string" where
  "hex_string b = concat (map hex2 b)"

definition digest_to_hex :: "bytes \<Rightarrow> nat \<Rightarrow> string" where
  "digest_to_hex digest hex_size =
     (let n = (if hex_size < SHA256_DIGEST_LENGTH * 2 + 1 then (hex_size - 1) div 2 else SHA256_DIGEST_LENGTH)
      in hex_string (take n digest))"

text \<open>\<open>ok\<close>: every call of the hash library succeeds.\<close>

definition auth_hash_password :: "(bytes \<Rightarrow> bytes) \<Rightarrow> bool \<Rightarrow> string \<Rightarrow> string \<Rightarrow> nat \<Rightarrow> string option" where
  "auth_hash_password sha ok password salt hex_size =
     (if hex_size < SHA256_DIGEST_LENGTH * 2 + 1 \<or> \<not> ok then None
      else Some (digest_to_hex (sha (salt @ password)) hex_size))"

text \<open>
  Random bytes: \<open>dev\<close> is what \<open>/dev/urandom\<close> delivers, \<^const>\<open>None\<close> when it cannot be opened; otherwise the bytes come from
  \<open>rand\<close>, whose \<open>i\<close>-th number after \<open>srand\<close> is determined by the seed, the time in seconds.
\<close>

definition read_urandom :: "nat \<Rightarrow> bytes option \<Rightarrow> bytes option" where
  "read_urandom len dev = (case dev of None \<Rightarrow> None | Some b \<Rightarrow> if length b < len then None else Some (take len b))"

definition random_bytes :: "bytes option \<Rightarrow> (nat \<Rightarrow> nat \<Rightarrow> nat) \<Rightarrow> nat \<Rightarrow> nat \<Rightarrow> bytes" where
  "random_bytes dev rand now len =
     (case read_urandom len dev of
        Some b \<Rightarrow> b
      | None \<Rightarrow> map (\<lambda>i. char_of (rand (now mod 2 ^ 32) i mod 256)) [0..<len])"

lemma length_random_bytes [simp]: "length (random_bytes dev rand now len) = len"
  by (auto simp: random_bytes_def read_urandom_def split: option.splits)

text \<open>Below, \<open>rnd\<close> are the random bytes a function asks for.\<close>

definition auth_generate_salt :: "bytes \<Rightarrow> nat \<Rightarrow> string" where
  "auth_generate_salt rnd len = hex_string (take (min len AUTH_SALT_LEN) rnd)"

text \<open>
  The token written at \<open>token_out\<close>, its terminating \<open>NUL\<close> included: \<open>len + 1\<close> bytes.
\<close>

definition auth_generate_token :: "bytes \<Rightarrow> nat \<Rightarrow> bytes" where
  "auth_generate_token rnd len0 =
     (let len = min len0 AUTH_TOKEN_LEN in take len (hex_string (take ((len + 1) div 2) rnd)) @ [NUL])"

subsection \<open>The users file\<close>

text \<open>\<open>strtok_r(s, ":", ...)\<close>: leading colons are skipped; the token and what follows its colon.\<close>

definition strtok :: "string \<Rightarrow> (string \<times> string) option" where
  "strtok s = (let r = dropWhile (\<lambda>c. c = CHR '':'') s; t = takeWhile (\<lambda>c. c \<noteq> CHR '':'') r
     in if r = [] then None else Some (t, drop (Suc (length t)) r))"

definition trim_eol :: "string \<Rightarrow> string" where
  "trim_eol s = rev (dropWhile (\<lambda>c. c = LF \<or> c = CR) (rev s))"

text \<open>One line: the user it describes, if all four fields are there; each is cut to its array.\<close>

definition auth_line :: "bytes \<Rightarrow> auth_user option" where
  "auth_line line =
     (let p = dropWhile c_isspace (trim_eol (cstr line)) in
      if p = [] \<or> hd p = CHR ''#'' then None
      else case strtok p of None \<Rightarrow> None | Some (a, r1) \<Rightarrow>
        (case strtok r1 of None \<Rightarrow> None | Some (b, r2) \<Rightarrow>
          (case strtok r2 of None \<Rightarrow> None | Some (c, r3) \<Rightarrow>
            (case strtok r3 of None \<Rightarrow> None | Some (d, _) \<Rightarrow>
              Some \<lparr>au_username = take 31 a, au_password_hash = take 127 b, au_salt = take AUTH_SALT_LEN c,
                    au_permissions = atoi d\<rparr>))))"

definition auth_add :: "bytes \<Rightarrow> auth_user list \<Rightarrow> auth_user list" where
  "auth_add line us = (if AUTH_MAX_USERS \<le> length us then us
     else case auth_line line of None \<Rightarrow> us | Some u \<Rightarrow> us @ [u])"

definition auth_init :: "bytes option \<Rightarrow> int \<times> auth_context" where
  "auth_init fp = (case fp of
     None \<Rightarrow> (-1, \<lparr>au_users = [], au_tokens = replicate (AUTH_MAX_USERS * AUTH_TOKEN_LEN) NUL\<rparr>)
   | Some b \<Rightarrow> (0, \<lparr>au_users = fold auth_add (fgets_lines 512 b) [],
                    au_tokens = replicate (AUTH_MAX_USERS * AUTH_TOKEN_LEN) NUL\<rparr>))"

subsection \<open>Logging in and verifying\<close>

fun find_user :: "string \<Rightarrow> auth_user list \<Rightarrow> nat option" where
  "find_user n [] = None"
| "find_user n (u # us) = (if au_username u = n then Some 0 else map_option Suc (find_user n us))"

text \<open>Writing at a slot of the token block; a write that reaches past the block is undefined.\<close>

definition slot_write :: "nat \<Rightarrow> bytes \<Rightarrow> bytes \<Rightarrow> bytes option" where
  "slot_write i t b = (let k = i * AUTH_TOKEN_LEN in
     if length b < k + length t then None else Some (take k b @ t @ drop (k + length t) b))"

text \<open>
  \<open>auth_login\<close>: the code, and on success the token handed out and the new context.
\<close>

definition auth_login ::
  "(bytes \<Rightarrow> bytes) \<Rightarrow> bool \<Rightarrow> bytes \<Rightarrow> auth_context \<Rightarrow> string \<Rightarrow> string \<Rightarrow> (int \<times> string \<times> auth_context) option" where
  "auth_login sha ok rnd ctx username password =
     (case find_user username (au_users ctx) of
        None \<Rightarrow> Some (-1, [], ctx)
      | Some i \<Rightarrow>
        let u = au_users ctx ! i in
        case auth_hash_password sha ok password (au_salt u) 128 of
          None \<Rightarrow> Some (-1, [], ctx)
        | Some h \<Rightarrow>
          if h \<noteq> au_password_hash u then Some (-1, [], ctx)
          else case slot_write i (auth_generate_token rnd AUTH_TOKEN_LEN) (au_tokens ctx) of
            None \<Rightarrow> None
          | Some b \<Rightarrow> Some (0, cstr (take AUTH_TOKEN_LEN (drop (i * AUTH_TOKEN_LEN) b)), ctx\<lparr>au_tokens := b\<rparr>))"

text \<open>The C string that starts at a slot.\<close>

definition slot_string :: "nat \<Rightarrow> bytes \<Rightarrow> string option" where
  "slot_string i b = array_str (drop (i * AUTH_TOKEN_LEN) b)"

fun verify_loop :: "nat \<Rightarrow> auth_user list \<Rightarrow> bytes \<Rightarrow> string \<Rightarrow> int option option" where
  "verify_loop i [] b tok = Some None"
| "verify_loop i (u # us) b tok =
     (case slot_string i b of
        None \<Rightarrow> None
      | Some t \<Rightarrow> if t = tok then Some (Some (au_permissions u)) else verify_loop (Suc i) us b tok)"

definition auth_verify :: "auth_context \<Rightarrow> string \<Rightarrow> int option option" where
  "auth_verify ctx tok = verify_loop 0 (au_users ctx) (au_tokens ctx) tok"

subsection \<open>Invariant\<close>

definition auth_ok :: "auth_context \<Rightarrow> bool" where
  "auth_ok ctx \<longleftrightarrow> length (au_users ctx) \<le> AUTH_MAX_USERS \<and> length (au_tokens ctx) = AUTH_MAX_USERS * AUTH_TOKEN_LEN"

lemma length_hex2 [simp]: "length (hex2 c) = 2"
  by (simp add: hex2_def)

lemma length_hex_string [simp]: "length (hex_string b) = 2 * length b"
  by (induction b) (simp_all add: hex_string_def)

lemma hex_digit_not_nul: "n < 16 \<Longrightarrow> hex_digit n \<noteq> NUL"
  by (auto simp: hex_digit_def less_Suc_eq numeral_eq_Suc)

lemma hex_string_cstr: "is_cstr (hex_string b)"
proof (induction b)
  case (Cons c b)
  have "hex_digit ((of_char c :: nat) div 16) \<noteq> NUL" "hex_digit ((of_char c :: nat) mod 16) \<noteq> NUL"
    using char_high_nibble [of c] by (simp_all add: hex_digit_not_nul)
  then show ?case using Cons by (auto simp: hex_string_def hex2_def)
qed (simp add: hex_string_def)

lemma token_shape:
  assumes "length rnd = 32"
  shows "auth_generate_token rnd AUTH_TOKEN_LEN = hex_string rnd @ [NUL]"
  using assms by (simp add: auth_generate_token_def c_limits)

lemma auth_add_length: "length us \<le> AUTH_MAX_USERS \<Longrightarrow> length (auth_add line us) \<le> AUTH_MAX_USERS"
  by (auto simp: auth_add_def split: option.splits)

lemma auth_init_ok: "auth_ok (snd (auth_init fp))"
proof (cases fp)
  case None
  then show ?thesis by (simp add: auth_init_def auth_ok_def)
next
  case (Some b)
  have "length (fold auth_add ls us) \<le> AUTH_MAX_USERS" if "length us \<le> AUTH_MAX_USERS" for ls us
    using that by (induction ls arbitrary: us) (simp_all add: auth_add_length)
  then show ?thesis using Some by (simp add: auth_init_def auth_ok_def)
qed

lemma find_user_Some: "find_user n us = Some i \<Longrightarrow> i < length us \<and> au_username (us ! i) = n"
  by (induction us arbitrary: i) (auto split: if_splits)

lemma slot_write_ok: "slot_write i t b = Some b' \<Longrightarrow> length b' = length b"
  by (auto simp: slot_write_def Let_def split: if_splits)

lemma auth_login_ok:
  "auth_ok ctx \<Longrightarrow> auth_login sha ok rnd ctx name pass = Some (r, tok, ctx') \<Longrightarrow> auth_ok ctx' \<and> au_users ctx' = au_users ctx"
  by (auto simp: auth_login_def Let_def auth_ok_def split: option.splits if_splits dest!: slot_write_ok)

subsection \<open>Tokens\<close>

lemma login_success:
  assumes "auth_ok ctx" and "length rnd = 32" and "find_user name (au_users ctx) = Some i"
    and "auth_login sha ok rnd ctx name pass = Some (0, tok, ctx')"
  shows "i < 63" and "tok = hex_string rnd" and "au_users ctx' = au_users ctx"
    and "au_tokens ctx' = take (i * 64) (au_tokens ctx) @ hex_string rnd @ [NUL] @ drop (i * 64 + 65) (au_tokens ctx)"
    and "hex_string (take 32 (sha (au_salt (au_users ctx ! i) @ pass))) = au_password_hash (au_users ctx ! i)"
proof -
  have len: "length (au_tokens ctx) = 4096" using assms(1) by (simp add: auth_ok_def c_limits)
  obtain b where b: "slot_write i (hex_string rnd @ [NUL]) (au_tokens ctx) = Some b"
    and r: "ctx' = ctx\<lparr>au_tokens := b\<rparr>" "tok = cstr (take 64 (drop (i * 64) b))"
    and h: "hex_string (take 32 (sha (au_salt (au_users ctx ! i) @ pass))) = au_password_hash (au_users ctx ! i)"
    using assms(3,4) token_shape [OF assms(2)]
    by (auto simp: auth_login_def auth_hash_password_def digest_to_hex_def Let_def c_limits split: if_splits option.splits)
  have w: "b = take (i * 64) (au_tokens ctx) @ (hex_string rnd @ [NUL]) @ drop (i * 64 + 65) (au_tokens ctx)" and i: "i * 64 + 65 \<le> 4096"
    using b assms(2) len by (auto simp: slot_write_def Let_def c_limits split: if_splits)
  show "i < 63" using i by simp
  have "take 64 (drop (i * 64) b) = hex_string rnd" using w i len assms(2) by simp
  then show "tok = hex_string rnd" using r(2) hex_string_cstr by simp
  show "au_users ctx' = au_users ctx" "au_tokens ctx' = take (i * 64) (au_tokens ctx) @ hex_string rnd @ [NUL] @ drop (i * 64 + 65) (au_tokens ctx)"
    using r(1) w by simp_all
  show "hex_string (take 32 (sha (au_salt (au_users ctx ! i) @ pass))) = au_password_hash (au_users ctx ! i)" by (rule h)
qed

lemma array_str_prefix: "is_cstr t \<Longrightarrow> array_str (t @ NUL # r) = Some t"
  by (simp add: array_str_def cstr_append) (simp add: cstr_def)

lemma slot_after_login:
  assumes "auth_ok ctx" and "length rnd = 32" and "find_user name (au_users ctx) = Some i"
    and "auth_login sha ok rnd ctx name pass = Some (0, tok, ctx')"
  shows "slot_string i (au_tokens ctx') = Some tok"
proof -
  note l = login_success [OF assms]
  have "length (take (i * 64) (au_tokens ctx)) = i * 64" using l(1) assms(1) by (simp add: auth_ok_def c_limits)
  then have "drop (i * 64) (au_tokens ctx') = hex_string rnd @ NUL # drop (i * 64 + 65) (au_tokens ctx)" unfolding l(4) by simp
  then show ?thesis using l(2) hex_string_cstr by (simp add: slot_string_def c_limits array_str_prefix)
qed

lemma verify_loop_found:
  "k < length us \<Longrightarrow> slot_string (i + k) b = Some tok \<Longrightarrow> \<forall>j < k. slot_string (i + j) b \<noteq> None \<and> slot_string (i + j) b \<noteq> Some tok \<Longrightarrow>
   verify_loop i us b tok = Some (Some (au_permissions (us ! k)))"
proof (induction us arbitrary: i k)
  case (Cons u us)
  show ?case
  proof (cases k)
    case 0
    then show ?thesis using Cons(3) by simp
  next
    case (Suc m)
    have "slot_string i b \<noteq> None" "slot_string i b \<noteq> Some tok" using Cons(4) Suc by auto
    moreover have "verify_loop (Suc i) us b tok = Some (Some (au_permissions (us ! m)))"
      by (rule Cons.IH) (use Cons.prems Suc in auto)
    ultimately show ?thesis using Suc by auto
  qed
qed simp

lemma verify_loop_none:
  "\<forall>j < length us. slot_string (i + j) b \<noteq> None \<and> slot_string (i + j) b \<noteq> Some tok \<Longrightarrow> verify_loop i us b tok = Some None"
proof (induction us arbitrary: i)
  case (Cons u us)
  have "slot_string i b \<noteq> None" "slot_string i b \<noteq> Some tok" using Cons(2) by auto
  moreover have "verify_loop (Suc i) us b tok = Some None" by (rule Cons.IH) (use Cons.prems in auto)
  ultimately show ?case by auto
qed simp


text \<open>
  The empty token is accepted: after \<open>auth_init\<close>, with nobody logged in, \<open>auth_verify\<close> on the empty string
  succeeds with the permissions of the first user of the file.
\<close>

lemma empty_token_accepted:
  assumes "auth_init (Some b) = (r, ctx)" and "au_users ctx = u # us"
  shows "auth_verify ctx [] = Some (Some (au_permissions u))"
proof -
  have n: "(4096 :: nat) = Suc 4095" by simp
  have "au_tokens ctx = replicate 4096 NUL" using assms(1) by (auto simp: auth_init_def c_limits)
  then have "au_tokens ctx = NUL # replicate 4095 NUL" by (simp only: n replicate_Suc)
  then have "slot_string 0 (au_tokens ctx) = Some []" by (simp add: slot_string_def array_str_def cstr_def)
  then show ?thesis using assms(2) by (simp add: auth_verify_def)
qed

text \<open>
  A login ends the session of the user before: a token fills its slot of 64 bytes and its terminator \<open>NUL\<close> is
  the first byte of the next one. After user \<open>i\<close> and then user \<open>i + 1\<close> log in, slot \<open>i\<close> reads as both tokens
  in a row, so the first token is refused unless another slot happens to read as it; and when user \<open>i\<close> logs
  in again, the slot of user \<open>i + 1\<close> reads as the empty string.
\<close>

lemma next_login_revokes:
  assumes "auth_ok ctx" and "length rnd1 = 32" and "length rnd2 = 32" and "length rnd3 = 32"
    and "find_user a (au_users ctx) = Some i" and "find_user b (au_users ctx) = Some (Suc i)"
    and "auth_login sha ok1 rnd1 ctx a pa = Some (0, t1, ctx1)" and "auth_login sha ok2 rnd2 ctx1 b pb = Some (0, t2, ctx2)"
    and "auth_login sha ok3 rnd3 ctx2 a pa = Some (0, t3, ctx3)"
    and "\<forall>j < length (au_users ctx). j \<noteq> i \<longrightarrow> slot_string j (au_tokens ctx2) \<noteq> None \<and> slot_string j (au_tokens ctx2) \<noteq> Some t1"
  shows "slot_string i (au_tokens ctx1) = Some t1 \<and> slot_string i (au_tokens ctx2) = Some (t1 @ t2) \<and>
    auth_verify ctx2 t1 = Some None \<and> slot_string (Suc i) (au_tokens ctx3) = Some []"
proof -
  note l1 = login_success [OF assms(1,2,5,7)]
  have ok1: "auth_ok ctx1" using auth_login_ok [OF assms(1,7)] by blast
  have f2: "find_user b (au_users ctx1) = Some (Suc i)" using assms(6) l1(3) by simp
  note l2 = login_success [OF ok1 assms(3) f2 assms(8)]
  have ok2: "auth_ok ctx2" using auth_login_ok [OF ok1 assms(8)] by blast
  have f3: "find_user a (au_users ctx2) = Some i" using assms(5) l1(3) l2(3) by simp
  note l3 = login_success [OF ok2 assms(4) f3 assms(9)]
  have len: "length (au_tokens ctx) = 4096" "length (au_tokens ctx2) = 4096" using assms(1) ok2 by (simp_all add: auth_ok_def c_limits)
  have pre: "length (take (i * 64) (au_tokens ctx)) = i * 64" using l1(1) len by simp
  have "take (Suc i * 64) (au_tokens ctx1) = take (i * 64) (au_tokens ctx) @ t1" unfolding l1(4) using pre l1(2) assms(2) by simp
  then have "drop (i * 64) (au_tokens ctx2) = (t1 @ t2) @ NUL # drop (Suc i * 64 + 65) (au_tokens ctx1)" unfolding l2(4) using pre l2(2) by simp
  moreover have "is_cstr (t1 @ t2)" using l1(2) l2(2) hex_string_cstr by simp
  ultimately have s2: "slot_string i (au_tokens ctx2) = Some (t1 @ t2)"
    using array_str_prefix [of "t1 @ t2"] by (simp add: slot_string_def c_limits del: append_assoc)
  have "length (take (i * 64) (au_tokens ctx2)) = i * 64" using l1(1) len by simp
  then have "drop (Suc i * 64) (au_tokens ctx3) = [] @ NUL # drop (i * 64 + 65) (au_tokens ctx2)" unfolding l3(4) using assms(4) by simp
  then have s3: "slot_string (Suc i) (au_tokens ctx3) = Some []" by (simp add: slot_string_def c_limits array_str_prefix [of "[]", simplified])
  have "length t2 = 64" using l2(2) assms(3) by simp
  then have "t2 \<noteq> []" by auto
  then have "auth_verify ctx2 t1 = Some None" unfolding auth_verify_def
    using assms(10) s2 l1(3) l2(3) by (intro verify_loop_none) auto
  then show ?thesis using s2 s3 slot_after_login [OF assms(1,2,5,7)] by blast
qed

text \<open>The user in the last slot cannot log in: the \<open>NUL\<close> of the token would go past the end of the store.\<close>

lemma last_user_overruns:
  assumes "auth_ok ctx" and "length rnd = 32" and "find_user name (au_users ctx) = Some 63"
    and "hex_string (take 32 (sha (au_salt (au_users ctx ! 63) @ pass))) = au_password_hash (au_users ctx ! 63)"
  shows "auth_login sha True rnd ctx name pass = None"
  using assms token_shape [OF assms(2)]
  by (simp add: auth_login_def auth_hash_password_def digest_to_hex_def slot_write_def auth_ok_def c_limits)

text \<open>Concrete users for the witnesses; every password has the same hash.\<close>

definition demo_sha :: "bytes \<Rightarrow> bytes" where "demo_sha b = replicate 32 CHR ''h''"

definition demo_auth :: auth_context where
  "demo_auth = \<lparr>au_users =
      [\<lparr>au_username = ''admin'', au_password_hash = hex_string (replicate 32 CHR ''h''), au_salt = ''s'', au_permissions = 3\<rparr>,
       \<lparr>au_username = ''guest'', au_password_hash = hex_string (replicate 32 CHR ''h''), au_salt = ''t'', au_permissions = 1\<rparr>],
     au_tokens = replicate 4096 NUL\<rparr>"

lemma login_works:
  assumes "auth_ok ctx" and "length rnd = 32" and "find_user name (au_users ctx) = Some i" and "i < 63"
    and "hex_string (take 32 (sha (au_salt (au_users ctx ! i) @ pass))) = au_password_hash (au_users ctx ! i)"
  shows "\<exists>tok ctx'. auth_login sha True rnd ctx name pass = Some (0, tok, ctx')"
  using assms token_shape [OF assms(2)]
  by (simp add: auth_login_def auth_hash_password_def digest_to_hex_def slot_write_def auth_ok_def c_limits Let_def)

lemma demo_login:
  assumes "auth_ok ctx" and "au_users ctx = au_users demo_auth" and "length rnd = 32" and "name = ''admin'' \<or> name = ''guest''"
  shows "\<exists>tok ctx'. auth_login demo_sha True rnd ctx name pass = Some (0, tok, ctx')"
proof -
  obtain i where i: "find_user name (au_users ctx) = Some i" "i < 2" using assms(2,4) by (auto simp: demo_auth_def)
  then have "au_password_hash (au_users ctx ! i) = hex_string (take 32 (demo_sha (au_salt (au_users ctx ! i) @ pass)))"
    using assms(2) by (cases i) (auto simp: demo_auth_def demo_sha_def less_Suc_eq numeral_2_eq_2)
  then show ?thesis using login_works [OF assms(1,3) i(1), of demo_sha pass] i(2) by simp
qed

lemma demo_auth_facts: "auth_ok demo_auth" "find_user ''admin'' (au_users demo_auth) = Some 0" "find_user ''guest'' (au_users demo_auth) = Some (Suc 0)"
  by (simp_all add: auth_ok_def demo_auth_def c_limits)


lemma next_login_revokes_witness:
  "\<exists>t1 ctx1 t2 ctx2. auth_login demo_sha True (replicate 32 CHR ''a'') demo_auth ''admin'' ''pw'' = Some (0, t1, ctx1) \<and>
     auth_login demo_sha True (replicate 32 CHR ''b'') ctx1 ''guest'' ''pw'' = Some (0, t2, ctx2) \<and> auth_verify ctx2 t1 = Some None"
proof -
  define ra rb where "ra = replicate 32 CHR ''a''" and "rb = replicate 32 CHR ''b''"
  have len: "length ra = 32" "length rb = 32" by (simp_all only: ra_def rb_def length_replicate)
  obtain t1 ctx1 where l1: "auth_login demo_sha True ra demo_auth ''admin'' ''pw'' = Some (0, t1, ctx1)"
    using demo_login [OF demo_auth_facts(1) refl len(1), of "''admin''" "''pw''"] by auto
  have ok1: "auth_ok ctx1" "au_users ctx1 = au_users demo_auth" using auth_login_ok [OF demo_auth_facts(1) l1] by simp_all
  obtain t2 ctx2 where l2: "auth_login demo_sha True rb ctx1 ''guest'' ''pw'' = Some (0, t2, ctx2)"
    using demo_login [OF ok1 len(2), of "''guest''" "''pw''"] by auto
  have ok2: "auth_ok ctx2" "au_users ctx2 = au_users demo_auth" using auth_login_ok [OF ok1(1) l2] ok1(2) by simp_all
  obtain t3 ctx3 where l3: "auth_login demo_sha True ra ctx2 ''admin'' ''pw'' = Some (0, t3, ctx3)"
    using demo_login [OF ok2 len(1), of "''admin''" "''pw''"] by auto
  have g1: "find_user ''guest'' (au_users ctx1) = Some (Suc 0)" using ok1(2) demo_auth_facts(3) by simp
  have "t1 = hex_string ra" "t2 = hex_string rb"
    using login_success(2) [OF demo_auth_facts(1) len(1) demo_auth_facts(2) l1] login_success(2) [OF ok1(1) len(2) g1 l2] by simp_all
  moreover have "hex_string ra \<noteq> hex_string rb"
  proof -
    have n: "(32 :: nat) = Suc 31" by simp
    show ?thesis unfolding ra_def rb_def n replicate_Suc by (simp add: hex_string_def hex2_def hex_digit_def)
  qed
  ultimately have "t1 \<noteq> t2" by simp
  moreover have "slot_string (Suc 0) (au_tokens ctx2) = Some t2" by (rule slot_after_login [OF ok1(1) len(2) g1 l2])
  ultimately have "\<forall>j < length (au_users demo_auth). j \<noteq> 0 \<longrightarrow> slot_string j (au_tokens ctx2) \<noteq> None \<and> slot_string j (au_tokens ctx2) \<noteq> Some t1"
    by (auto simp: demo_auth_def less_Suc_eq)
  from next_login_revokes [OF demo_auth_facts(1) len(1,2,1) demo_auth_facts(2,3) l1 l2 l3 this] show ?thesis
    using l1 l2 unfolding ra_def rb_def by blast
qed

subsection \<open>Users in text\<close>

definition user_line :: "string \<times> string \<times> string \<times> nat \<Rightarrow> string" where
  "user_line u = (case u of (a, h, s, p) \<Rightarrow> a @ '':'' @ h @ '':'' @ s @ '':'' @ dec_nat p)"

definition field_ok :: "nat \<Rightarrow> string \<Rightarrow> bool" where
  "field_ok n f \<longleftrightarrow> f \<noteq> [] \<and> length f \<le> n \<and> is_cstr f \<and> CHR '':'' \<notin> set f \<and> LF \<notin> set f \<and> CR \<notin> set f"

definition user_entry_ok :: "string \<times> string \<times> string \<times> nat \<Rightarrow> bool" where
  "user_entry_ok u \<longleftrightarrow> (case u of (a, h, s, p) \<Rightarrow> field_ok 31 a \<and> field_ok 127 h \<and> field_ok 16 s \<and> p < 2 ^ 31 \<and>
     \<not> c_isspace (hd a) \<and> hd a \<noteq> CHR ''#'')"

definition user_of :: "string \<times> string \<times> string \<times> nat \<Rightarrow> auth_user" where
  "user_of u = (case u of (a, h, s, p) \<Rightarrow> \<lparr>au_username = a, au_password_hash = h, au_salt = s, au_permissions = int p\<rparr>)"

lemma strtok_field: "f \<noteq> [] \<Longrightarrow> CHR '':'' \<notin> set f \<Longrightarrow> strtok (f @ CHR '':'' # r) = Some (f, r)"
proof -
  assume f: "f \<noteq> []" "CHR '':'' \<notin> set f"
  have "dropWhile (\<lambda>c. c = CHR '':'') (f @ CHR '':'' # r) = f @ CHR '':'' # r" using f by (cases f) auto
  moreover have "takeWhile (\<lambda>c. c \<noteq> CHR '':'') (f @ CHR '':'' # r) = f" using f(2) by (subst takeWhile_append2) auto
  ultimately show ?thesis by (simp add: strtok_def Let_def)
qed

lemma strtok_last: "f \<noteq> [] \<Longrightarrow> CHR '':'' \<notin> set f \<Longrightarrow> strtok f = Some (f, [])"
proof -
  assume f: "f \<noteq> []" "CHR '':'' \<notin> set f"
  have d: "dropWhile (\<lambda>c. c = CHR '':'') f = f" using f by (cases f) auto
  have t: "takeWhile (\<lambda>c. c \<noteq> CHR '':'') f = f" using f(2) by (auto simp: takeWhile_eq_all_conv)
  show ?thesis unfolding strtok_def Let_def d t using f(1) by simp
qed

lemma dec_nat_plain: "c \<in> set (dec_nat n) \<Longrightarrow> c \<noteq> LF \<and> c \<noteq> CR \<and> c \<noteq> NUL \<and> c \<noteq> CHR '':''"
  using dec_nat_digits [of n] digit_char_plain(5,6) by (auto simp: c_isdigit_def digit_val_def Let_def)

lemma trim_eol_line: "s \<noteq> [] \<Longrightarrow> LF \<notin> set s \<Longrightarrow> CR \<notin> set s \<Longrightarrow> trim_eol (s @ [LF]) = s"
  by (cases s rule: rev_cases) (auto simp: trim_eol_def)

lemma user_line_facts:
  assumes "user_entry_ok u"
  shows "LF \<notin> set (user_line u)" "CR \<notin> set (user_line u)" "is_cstr (user_line u)" "length (user_line u) + 1 < 512" "user_line u \<noteq> []"
proof -
  obtain a h s p where u [simp]: "u = (a, h, s, p)" by (cases u) auto
  have f: "field_ok 31 a" "field_ok 127 h" "field_ok 16 s" "p < 2 ^ 31" using assms by (simp_all add: user_entry_ok_def)
  have "p < 10 ^ 10" using f(4) by simp
  then have "length (dec_nat p) \<le> 10" by (rule dec_nat_length) simp
  then show "length (user_line u) + 1 < 512" using f by (simp add: user_line_def field_ok_def)
  show "LF \<notin> set (user_line u)" "CR \<notin> set (user_line u)" "is_cstr (user_line u)" "user_line u \<noteq> []"
    using f dec_nat_plain [of _ p] by (auto simp: user_line_def field_ok_def is_cstr_def)
qed

lemma auth_line_user: "user_entry_ok u \<Longrightarrow> auth_line (user_line u @ [LF]) = Some (user_of u)"
proof -
  assume ok: "user_entry_ok u"
  obtain a h s p where u [simp]: "u = (a, h, s, p)" by (cases u) auto
  have f: "field_ok 31 a" "field_ok 127 h" "field_ok 16 s" "p < 2 ^ 31" "\<not> c_isspace (hd a)" "hd a \<noteq> CHR ''#''"
    using ok by (simp_all add: user_entry_ok_def)
  note uf = user_line_facts [OF ok]
  obtain c t where c: "a = c # t" using f(1) by (cases a) (auto simp: field_ok_def)
  have "cstr (user_line u @ [LF]) = user_line u @ [LF]" using uf(3) by simp
  then have tr: "trim_eol (cstr (user_line u @ [LF])) = user_line u" using trim_eol_line [OF uf(5,1,2)] by simp
  have p: "dropWhile c_isspace (user_line u) = user_line u" "hd (user_line u) = c" "user_line u \<noteq> []"
    using f(5) by (simp_all add: user_line_def c)
  have t: "strtok (user_line u) = Some (a, h @ '':'' @ s @ '':'' @ dec_nat p)"
    "strtok (h @ '':'' @ s @ '':'' @ dec_nat p) = Some (h, s @ '':'' @ dec_nat p)"
    "strtok (s @ '':'' @ dec_nat p) = Some (s, dec_nat p)" "strtok (dec_nat p) = Some (dec_nat p, [])"
    using f(1-3) dec_nat_plain [of _ p] by (auto simp: user_line_def field_ok_def intro!: strtok_field strtok_last)
  show ?thesis using f tr p t c
    by (simp add: auth_line_def user_of_def atoi_dec_nat field_ok_def c_limits)
qed

text \<open>
  The users file is read back: of a file with one line \<open>name:hash:salt:permissions\<close> for each of at most 64
  users (names of at most 31, hashes of at most 127 and salts of at most 16 characters, with no colon or
  line end), \<open>auth_init\<close> loads exactly these users in order, with every token slot empty.
\<close>

lemma users_file_roundtrip:
  assumes "list_all user_entry_ok us" and "length us \<le> AUTH_MAX_USERS"
  shows "auth_init (Some (concat (map (\<lambda>l. l @ [LF]) (map user_line us)))) =
    (0, \<lparr>au_users = map user_of us, au_tokens = replicate (AUTH_MAX_USERS * AUTH_TOKEN_LEN) NUL\<rparr>)"
proof -
  have "list_all (\<lambda>l. LF \<notin> set l \<and> length l + 1 < 512) (map user_line us)"
    using assms(1) user_line_facts by (auto simp: list_all_iff)
  note ls = fgets_lines_lines [OF this]
  have "fold auth_add (map (\<lambda>l. l @ [LF]) (map user_line vs)) acc = acc @ map user_of vs"
    if "list_all user_entry_ok vs" and "length acc + length vs \<le> AUTH_MAX_USERS" for vs acc
    using that
  proof (induction vs arbitrary: acc)
    case (Cons v vs)
    then have "auth_add (user_line v @ [LF]) acc = acc @ [user_of v]" by (simp add: auth_add_def auth_line_user)
    then show ?case using Cons by simp
  qed simp
  from this [of us "[]"] show ?thesis using assms ls by (simp add: auth_init_def)
qed

lemma users_file_roundtrip_witness:
  "auth_init (Some (concat (map (\<lambda>l. l @ [LF]) (map user_line [(''admin'', ''45a2'', ''a1b2'', 3)])))) =
    (0, \<lparr>au_users = [\<lparr>au_username = ''admin'', au_password_hash = ''45a2'', au_salt = ''a1b2'', au_permissions = 3\<rparr>],
         au_tokens = replicate (AUTH_MAX_USERS * AUTH_TOKEN_LEN) NUL\<rparr>)"
  using users_file_roundtrip [of "[(''admin'', ''45a2'', ''a1b2'', 3)]"]
  by (simp add: user_entry_ok_def field_ok_def user_of_def c_isspace_def AUTH_MAX_USERS_def)

lemma empty_token_accepted_witness:
  "auth_verify (snd (auth_init (Some (concat (map (\<lambda>l. l @ [LF]) (map user_line [(''admin'', ''45a2'', ''a1b2'', 3)])))))) [] = Some (Some 3)"
proof -
  define b where "b = concat (map (\<lambda>l. l @ [LF]) (map user_line [(''admin'', ''45a2'', ''a1b2'', 3)]))"
  have u: "user_entry_ok (''admin'', ''45a2'', ''a1b2'', 3)" by (simp add: user_entry_ok_def field_ok_def c_isspace_def)
  have "fgets_lines 512 b = [user_line (''admin'', ''45a2'', ''a1b2'', 3) @ [LF]]"
    using fgets_lines_lines [of 512 "[user_line (''admin'', ''45a2'', ''a1b2'', 3)]"] user_line_facts [OF u] by (simp add: b_def)
  then have us: "au_users (snd (auth_init (Some b))) = [user_of (''admin'', ''45a2'', ''a1b2'', 3)]"
    by (simp add: auth_init_def auth_add_def auth_line_user [OF u] c_limits)
  obtain r ctx where "auth_init (Some b) = (r, ctx)" by fastforce
  then show ?thesis using empty_token_accepted [of b r ctx] us unfolding b_def [symmetric] by (simp add: user_of_def)
qed

text \<open>
  A salt of \<open>auth_generate_salt\<close> at full length has 32 characters, of which a user record keeps 16, so a
  hash computed with the generated salt is checked against another.
\<close>

lemma generated_salt_truncated:
  "length rnd = 16 \<Longrightarrow> length (auth_generate_salt rnd AUTH_SALT_LEN) = 32"
  by (simp add: auth_generate_salt_def c_limits)

text \<open>
  Without \<open>/dev/urandom\<close> the token depends on nothing but the second of the login: two users who log in within one second
  get the same token, and \<open>auth_verify\<close> gives both the permissions of the one listed first.
\<close>

lemma fallback_same_token:
  assumes "read_urandom 32 d1 = None" and "read_urandom 32 d2 = None"
  shows "auth_generate_token (random_bytes d1 rand now 32) len = auth_generate_token (random_bytes d2 rand now 32) len"
  using assms by (simp add: random_bytes_def)

end
