(* ===== verification/Fs_Rate.thy ===== *)
theory Fs_Rate
  imports Complex_Main
begin

text \<open>
  The token bucket of the file server (\<open>linux-file-server/src/rate_limit.c\<close>). Its floating-point numbers are
  exact rationals here and the clock is an argument: what \<open>clock_gettime\<close> returns, in seconds. The lock
  makes every turn of an operation atomic.
\<close>

subsection \<open>Model\<close>

record rate_limiter =
  rl_tokens :: rat
  rl_max_tokens :: rat
  rl_refill_rate :: rat
  rl_last_refill :: rat

definition timespec_to_sec :: "int \<Rightarrow> int \<Rightarrow> rat" where
  "timespec_to_sec tv_sec tv_nsec = of_int tv_sec + of_int tv_nsec / 10 ^ 9"

definition refill_tokens :: "rat \<Rightarrow> rate_limiter \<Rightarrow> rate_limiter" where
  "refill_tokens now li =
     (let elapsed = now - rl_last_refill li in
      if 0 < elapsed then
        let t = rl_tokens li + elapsed * rl_refill_rate li in
        li\<lparr>rl_tokens := (if rl_max_tokens li < t then rl_max_tokens li else t), rl_last_refill := now\<rparr>
      else li)"

definition rate_limiter_create :: "bool \<Rightarrow> rat \<Rightarrow> rat \<Rightarrow> rate_limiter option" where
  "rate_limiter_create alloc now bytes_per_sec =
     (if bytes_per_sec \<le> 0 \<or> \<not> alloc then None
      else Some \<lparr>rl_tokens = bytes_per_sec, rl_max_tokens = bytes_per_sec, rl_refill_rate = bytes_per_sec, rl_last_refill = now\<rparr>)"

text \<open>
  \<open>rate_limiter_consume\<close> reads the clock at each turn of its loop: the readings are a list, and \<^const>\<open>None\<close>
  means that the loop still runs when they end. A null limiter returns at once.
\<close>

fun consume_loop :: "rat list \<Rightarrow> nat \<Rightarrow> rate_limiter \<Rightarrow> rate_limiter option" where
  "consume_loop [] n li = None"
| "consume_loop (t # ts) n li =
     (let l = refill_tokens t li in
      if of_nat n \<le> rl_tokens l then Some (l\<lparr>rl_tokens := rl_tokens l - of_nat n\<rparr>) else consume_loop ts n l)"

definition rate_limiter_consume :: "rat list \<Rightarrow> nat \<Rightarrow> rate_limiter option \<Rightarrow> rate_limiter option option" where
  "rate_limiter_consume ts n li = (case li of None \<Rightarrow> Some None | Some l \<Rightarrow> map_option Some (consume_loop ts n l))"

text \<open>How long the loop sleeps after a turn that found too few tokens.\<close>

definition sleep_sec :: "nat \<Rightarrow> rate_limiter \<Rightarrow> rat" where
  "sleep_sec n li = (of_nat n - rl_tokens li) / rl_refill_rate li"

definition rate_limiter_try_consume :: "rat \<Rightarrow> nat \<Rightarrow> rate_limiter option \<Rightarrow> int \<times> rate_limiter option" where
  "rate_limiter_try_consume now n li = (case li of
     None \<Rightarrow> (0, None)
   | Some l0 \<Rightarrow> let l = refill_tokens now l0 in
       if of_nat n \<le> rl_tokens l then (0, Some (l\<lparr>rl_tokens := rl_tokens l - of_nat n\<rparr>)) else (-1, Some l))"

definition rate_limiter_get_rate :: "rate_limiter option \<Rightarrow> rat" where
  "rate_limiter_get_rate li = (case li of None \<Rightarrow> 0 | Some l \<Rightarrow> rl_refill_rate l)"

definition rate_limiter_set_rate :: "rat \<Rightarrow> rate_limiter option \<Rightarrow> rate_limiter option" where
  "rate_limiter_set_rate r li = map_option (\<lambda>l. l\<lparr>rl_refill_rate := r, rl_max_tokens := r,
     rl_tokens := (if r < rl_tokens l then r else rl_tokens l)\<rparr>) li"

subsection \<open>Invariant\<close>

definition bucket_ok :: "rate_limiter \<Rightarrow> bool" where
  "bucket_ok l \<longleftrightarrow> 0 \<le> rl_tokens l \<and> rl_tokens l \<le> rl_max_tokens l \<and> 0 \<le> rl_refill_rate l"

lemma refill_ok: "bucket_ok l \<Longrightarrow> bucket_ok (refill_tokens t l)"
  by (auto simp: bucket_ok_def refill_tokens_def Let_def)

lemma refill_frame [simp]:
  "rl_max_tokens (refill_tokens t l) = rl_max_tokens l" "rl_refill_rate (refill_tokens t l) = rl_refill_rate l"
  by (simp_all add: refill_tokens_def Let_def)

text \<open>A refill adds at most what the elapsed time allows, and time does not go back.\<close>

lemma refill_gain:
  "bucket_ok l \<Longrightarrow> rl_tokens (refill_tokens t l) \<le>
     rl_tokens l + rl_refill_rate l * (rl_last_refill (refill_tokens t l) - rl_last_refill l) \<and>
   rl_last_refill l \<le> rl_last_refill (refill_tokens t l)"
  by (auto simp: refill_tokens_def Let_def algebra_simps)

lemma try_consume_ok:
  assumes "bucket_ok l" and "rate_limiter_try_consume t n (Some l) = (r, Some l')"
  shows "bucket_ok l'" and "rl_refill_rate l' = rl_refill_rate l" and "rl_max_tokens l' = rl_max_tokens l"
    and "(if r = 0 then of_nat n else 0) + rl_tokens l' \<le> rl_tokens l + rl_refill_rate l * (rl_last_refill l' - rl_last_refill l)"
    and "rl_last_refill l \<le> rl_last_refill l'"
  using assms refill_ok [OF assms(1), of t] refill_gain [OF assms(1), of t]
  by (auto simp: rate_limiter_try_consume_def Let_def bucket_ok_def split: if_splits)

text \<open>What a sequence of attempts is granted.\<close>

fun granted :: "(rat \<times> nat) list \<Rightarrow> rate_limiter \<Rightarrow> nat \<times> rate_limiter" where
  "granted [] l = (0, l)"
| "granted ((t, n) # as) l =
     (case rate_limiter_try_consume t n (Some l) of
        (r, Some l') \<Rightarrow> (case granted as l' of (k, l'') \<Rightarrow> ((if r = 0 then n else 0) + k, l''))
      | (r, None) \<Rightarrow> (0, l))"

lemma try_consume_Some: "\<exists>r l'. rate_limiter_try_consume t n (Some l) = (r, Some l')"
  by (auto simp: rate_limiter_try_consume_def Let_def)

lemma granted_bound:
  "bucket_ok l \<Longrightarrow> granted as l = (k, l') \<Longrightarrow> of_nat k + rl_tokens l' \<le> rl_tokens l + rl_refill_rate l * (rl_last_refill l' - rl_last_refill l) \<and>
     bucket_ok l' \<and> rl_refill_rate l' = rl_refill_rate l \<and> rl_last_refill l \<le> rl_last_refill l'"
proof (induction as arbitrary: l k)
  case Nil
  then show ?case by simp
next
  case (Cons a as)
  obtain t n where a [simp]: "a = (t, n)" by fastforce
  obtain r l1 where c: "rate_limiter_try_consume t n (Some l) = (r, Some l1)" using try_consume_Some by blast
  note o1 = try_consume_ok [OF Cons(2) c]
  obtain m where m: "granted as l1 = (m, l')" and k: "k = (if r = 0 then n else 0) + m"
    using Cons(3) c by (auto split: prod.splits)
  note IH = Cons.IH [OF o1(1) m]
  have "of_nat k + rl_tokens l' \<le> (if r = 0 then of_nat n else 0) + (rl_tokens l1 + rl_refill_rate l1 * (rl_last_refill l' - rl_last_refill l1))"
    using IH k by auto
  also have "\<dots> \<le> rl_tokens l + rl_refill_rate l * (rl_last_refill l1 - rl_last_refill l) + rl_refill_rate l1 * (rl_last_refill l' - rl_last_refill l1)"
    using o1(4) by linarith
  also have "\<dots> = rl_tokens l + rl_refill_rate l * (rl_last_refill l' - rl_last_refill l)"
    using o1(2) by (simp add: algebra_simps)
  finally show ?case using IH o1 by auto
qed

subsection \<open>Properties\<close>

lemma create_bucket: "rate_limiter_create al t0 r = Some l \<Longrightarrow> bucket_ok l \<and> rl_tokens l = r \<and> rl_max_tokens l = r \<and> rl_refill_rate l = r \<and> rl_last_refill l = t0 \<and> 0 < r"
  by (auto simp: rate_limiter_create_def bucket_ok_def split: if_splits)

lemma granted_last: "granted as l = (k, l') \<Longrightarrow> \<forall>(t, n) \<in> set as. t \<le> T \<Longrightarrow> rl_last_refill l \<le> T \<Longrightarrow> rl_last_refill l' \<le> T"
proof (induction as arbitrary: l k)
  case (Cons a as)
  obtain t n where a [simp]: "a = (t, n)" by fastforce
  obtain r l1 where c: "rate_limiter_try_consume t n (Some l) = (r, Some l1)" using try_consume_Some by blast
  have "rl_last_refill l1 \<le> T" using c Cons(3,4)
    by (auto simp: rate_limiter_try_consume_def refill_tokens_def Let_def split: if_splits)
  then show ?case using Cons(1) [of l1] Cons(2,3) c by (auto split: prod.splits)
qed simp

text \<open>
  C16. The rate holds over any interval: from a bucket of \<open>r\<close> bytes per second created at \<open>t0\<close>, whatever amounts
  are tried at whatever times up to \<open>T\<close>, and even if the clock jumps back between them, the bytes granted
  are at most the full bucket and \<open>r\<close> for each second since \<open>t0\<close>; and the bucket never holds less than
  nothing or more than its size.
\<close>

theorem rate_bounded:
  assumes "rate_limiter_create alloc t0 r = Some l" and "granted as l = (k, l')" and "\<forall>(t, n) \<in> set as. t \<le> T" and "t0 \<le> T"
  shows "of_nat k \<le> r + r * (T - t0) \<and> 0 \<le> rl_tokens l' \<and> rl_tokens l' \<le> rl_max_tokens l'"
proof -
  note c = create_bucket [OF assms(1)]
  have b: "bucket_ok l" using c by blast
  note g = granted_bound [OF b assms(2)]
  have last: "rl_last_refill l' \<le> T" by (rule granted_last [OF assms(2,3)]) (use c assms(4) in simp)
  have "r * (rl_last_refill l' - t0) \<le> r * (T - t0)" using last c by (simp add: mult_left_mono)
  moreover have "of_nat k + rl_tokens l' \<le> r + r * (rl_last_refill l' - t0)" using g c by simp
  moreover have "0 \<le> rl_tokens l'" using g by (simp add: bucket_ok_def)
  ultimately show ?thesis using g by (auto simp: bucket_ok_def)
qed

lemma rate_bounded_witness:
  "\<exists>k l'. granted [(1, 60), (1, 60), (2, 100)] \<lparr>rl_tokens = 100, rl_max_tokens = 100, rl_refill_rate = 100, rl_last_refill = 0\<rparr> = (k, l') \<and>
     k = 160 \<and> of_nat k \<le> (100 :: rat) + 100 * (2 - 0)"
proof -
  have g: "\<exists>l'. granted [(1, 60), (1, 60), (2, 100)] \<lparr>rl_tokens = 100, rl_max_tokens = 100, rl_refill_rate = 100, rl_last_refill = 0\<rparr> = (160, l')"
    by (simp add: rate_limiter_try_consume_def refill_tokens_def)
  have "rate_limiter_create True 0 100 = Some \<lparr>rl_tokens = 100, rl_max_tokens = 100, rl_refill_rate = 100, rl_last_refill = 0\<rparr>"
    by (simp add: rate_limiter_create_def)
  then show ?thesis using g rate_bounded [of True 0 100 _ "[(1, 60), (1, 60), (2, 100)]" 160 _ 2] by fastforce
qed



text \<open>Lowering the rate keeps the bucket in its bounds; a rate of zero leaves an empty bucket that never fills.\<close>

lemma set_rate_ok: "bucket_ok l \<Longrightarrow> 0 \<le> r \<Longrightarrow> rate_limiter_set_rate r (Some l) = Some l' \<Longrightarrow> bucket_ok l' \<and> rl_max_tokens l' = r"
  by (auto simp: rate_limiter_set_rate_def bucket_ok_def)

end
