(* ===== verification/Fs_Pool.thy ===== *)
theory Fs_Pool
  imports Prelude
begin

text \<open>
  The fixed-size allocator of the file server (\<open>linux-file-server/src/mempool.c\<close>). The free list is threaded
  through the blocks: \<open>fp_next\<close> is the pointer stored in the first bytes of a block, which its user may
  overwrite while the block is allocated. Addresses are offsets from \<open>pool_base\<close>; the null pointer is
  \<^const>\<open>None\<close>.
\<close>

subsection \<open>Model\<close>

type_synonym addr = nat

record fpool =
  fp_block_size :: nat
  fp_total_blocks :: nat
  fp_free_count :: nat
  fp_free_list :: "addr option"
  fp_next :: "addr \<Rightarrow> addr option"

definition PTR_SIZE :: nat where [c_limits]: "PTR_SIZE = 8"

text \<open>The loop that builds the free list: each block points to the one before, the last is the head.\<close>

fun build_list :: "nat \<Rightarrow> nat \<Rightarrow> (addr option \<times> (addr \<Rightarrow> addr option))" where
  "build_list bs 0 = (None, \<lambda>_. None)"
| "build_list bs (Suc i) = (case build_list bs i of (h, nx) \<Rightarrow> (Some (i * bs), nx(i * bs := h)))"

datatype create_result = CreateNull | CreateOverrun | Created fpool

text \<open>
  \<open>mempool_create\<close>; \<open>ok1\<close> and \<open>ok2\<close> are the outcomes of the two allocations. The size of the region is the
  product in 64 bits; when it wraps around, building the list writes outside.
\<close>

definition fpool_create :: "bool \<Rightarrow> bool \<Rightarrow> nat \<Rightarrow> nat \<Rightarrow> create_result" where
  "fpool_create ok1 ok2 block_size count =
     (let bs = max block_size PTR_SIZE in
      if \<not> ok1 \<or> \<not> ok2 then CreateNull
      else if 2 ^ 64 \<le> bs * count then CreateOverrun
      else case build_list bs count of (h, nx) \<Rightarrow>
        Created \<lparr>fp_block_size = bs, fp_total_blocks = count, fp_free_count = count, fp_free_list = h, fp_next = nx\<rparr>)"

definition fpool_alloc :: "fpool option \<Rightarrow> addr option \<times> fpool option" where
  "fpool_alloc po = (case po of None \<Rightarrow> (None, None)
   | Some p \<Rightarrow> (case fp_free_list p of
       None \<Rightarrow> (None, Some p)
     | Some b \<Rightarrow> (Some b, Some (p\<lparr>fp_free_list := fp_next p b, fp_free_count := fp_free_count p - 1\<rparr>))))"

definition fpool_free :: "addr option \<Rightarrow> fpool option \<Rightarrow> fpool option" where
  "fpool_free ptr po = (case (po, ptr) of
     (Some p, Some b) \<Rightarrow> Some (p\<lparr>fp_next := (fp_next p)(b := fp_free_list p), fp_free_list := Some b,
        fp_free_count := fp_free_count p + 1\<rparr>)
   | _ \<Rightarrow> po)"

definition fpool_block_size :: "fpool option \<Rightarrow> nat" where
  "fpool_block_size po = (case po of None \<Rightarrow> 0 | Some p \<Rightarrow> fp_block_size p)"

definition fpool_total_blocks :: "fpool option \<Rightarrow> nat" where
  "fpool_total_blocks po = (case po of None \<Rightarrow> 0 | Some p \<Rightarrow> fp_total_blocks p)"

definition fpool_free_blocks :: "fpool option \<Rightarrow> nat" where
  "fpool_free_blocks po = (case po of None \<Rightarrow> 0 | Some p \<Rightarrow> fp_free_count p)"

subsection \<open>The free list\<close>

fun chain :: "(addr \<Rightarrow> addr option) \<Rightarrow> addr option \<Rightarrow> addr list \<Rightarrow> bool" where
  "chain nx h [] \<longleftrightarrow> h = None"
| "chain nx h (b # bs) \<longleftrightarrow> h = Some b \<and> chain nx (nx b) bs"

lemma chain_upd [simp]: "b \<notin> set bs \<Longrightarrow> chain (nx(b := v)) h bs \<longleftrightarrow> chain nx h bs"
  by (induction bs arbitrary: h) auto

lemma chain_cong: "(\<forall>b \<in> set bs. nx b = nx' b) \<Longrightarrow> chain nx h bs \<longleftrightarrow> chain nx' h bs"
  by (induction bs arbitrary: h) auto

lemma chain_build:
  assumes "0 < bs" and "build_list bs n = (h, nx)"
  shows "chain nx h (rev (map (\<lambda>i. i * bs) [0..<n]))"
  using assms(2)
proof (induction n arbitrary: h nx)
  case (Suc n)
  obtain h0 nx0 where b: "build_list bs n = (h0, nx0)" by fastforce
  have "n * bs \<notin> set (rev (map (\<lambda>i. i * bs) [0..<n]))" using assms(1) by auto
  then show ?case using Suc b by auto
qed simp

text \<open>
  The allocator owns its blocks: those on the free list and those handed out (\<open>live\<close>) are distinct and
  together all the blocks, and the count is the length of the list.
\<close>

definition fpool_inv :: "addr list \<Rightarrow> fpool \<Rightarrow> bool" where
  "fpool_inv live p \<longleftrightarrow> (\<exists>fr. chain (fp_next p) (fp_free_list p) fr \<and> fp_free_count p = length fr \<and> distinct (fr @ live) \<and>
     set (fr @ live) = (\<lambda>i. i * fp_block_size p) ` {..<fp_total_blocks p} \<and> PTR_SIZE \<le> fp_block_size p)"

lemma create_inv: "fpool_create ok1 ok2 bs n = Created p \<Longrightarrow> fpool_inv [] p \<and> fp_free_count p = n \<and> fp_total_blocks p = n"
proof -
  assume a: "fpool_create ok1 ok2 bs n = Created p"
  define k where "k = max bs PTR_SIZE"
  have k: "0 < k" "PTR_SIZE \<le> k" by (simp_all add: k_def c_limits)
  obtain h nx where b: "build_list k n = (h, nx)" by fastforce
  have p: "p = \<lparr>fp_block_size = k, fp_total_blocks = n, fp_free_count = n, fp_free_list = h, fp_next = nx\<rparr>"
    using a b by (auto simp: fpool_create_def Let_def k_def [symmetric] split: if_splits)
  have "inj_on (\<lambda>i. i * k) A" for A using k(1) by (simp add: inj_on_def)
  then have "distinct (rev (map (\<lambda>i. i * k) [0..<n]))" by (simp add: distinct_map)
  moreover have "set (rev (map (\<lambda>i. i * k) [0..<n])) = (\<lambda>i. i * k) ` {..<n}" by auto
  ultimately show ?thesis using chain_build [OF k(1) b] k(2) unfolding fpool_inv_def p by (auto intro!: exI [of _ "rev (map (\<lambda>i. i * k) [0..<n])"])
qed

lemma alloc_inv:
  assumes "fpool_inv live p" and "fpool_alloc (Some p) = (r, Some p')"
  shows "case r of None \<Rightarrow> p' = p \<and> fp_free_count p = 0 | Some b \<Rightarrow> b \<notin> set live \<and> fpool_inv (b # live) p' \<and> fp_free_count p = Suc (fp_free_count p')"
proof -
  obtain fr where f: "chain (fp_next p) (fp_free_list p) fr" "fp_free_count p = length fr" "distinct (fr @ live)"
    "set (fr @ live) = (\<lambda>i. i * fp_block_size p) ` {..<fp_total_blocks p}" "PTR_SIZE \<le> fp_block_size p"
    using assms(1) by (auto simp: fpool_inv_def)
  show ?thesis
  proof (cases fr)
    case Nil
    then show ?thesis using f assms(2) by (simp add: fpool_alloc_def)
  next
    case (Cons b bs)
    then have p': "r = Some b" "p' = p\<lparr>fp_free_list := fp_next p b, fp_free_count := fp_free_count p - 1\<rparr>"
      using f(1) assms(2) by (auto simp: fpool_alloc_def)
    have "fpool_inv (b # live) p'" unfolding fpool_inv_def using f Cons p' by (intro exI [of _ bs]) auto
    then show ?thesis using f Cons p' by auto
  qed
qed

lemma free_inv:
  assumes "fpool_inv live p" and "b \<in> set live" and "fpool_free (Some b) (Some p) = Some p'"
  shows "fpool_inv (remove1 b live) p'" and "fp_free_count p' = Suc (fp_free_count p)"
proof -
  obtain fr where f: "chain (fp_next p) (fp_free_list p) fr" "fp_free_count p = length fr" "distinct (fr @ live)"
    "set (fr @ live) = (\<lambda>i. i * fp_block_size p) ` {..<fp_total_blocks p}" "PTR_SIZE \<le> fp_block_size p"
    using assms(1) by (auto simp: fpool_inv_def)
  have p': "p' = p\<lparr>fp_next := (fp_next p)(b := fp_free_list p), fp_free_list := Some b, fp_free_count := fp_free_count p + 1\<rparr>"
    using assms(3) by (simp add: fpool_free_def)
  have nb: "b \<notin> set fr" using f(3) assms(2) by auto
  have "distinct ((b # fr) @ remove1 b live)" "set ((b # fr) @ remove1 b live) = set (fr @ live)"
    using f(3) assms(2) nb by (auto simp: set_remove1_eq)
  then show "fpool_inv (remove1 b live) p'" unfolding fpool_inv_def using f nb p' by (intro exI [of _ "b # fr"]) auto
  show "fp_free_count p' = Suc (fp_free_count p)" using p' by simp
qed

text \<open>Writing into an allocated block changes at most the pointer stored in it.\<close>

lemma write_inv: "fpool_inv live p \<Longrightarrow> b \<in> set live \<Longrightarrow> fpool_inv live (p\<lparr>fp_next := (fp_next p)(b := v)\<rparr>)"
proof -
  assume a: "fpool_inv live p" "b \<in> set live"
  obtain fr where f: "chain (fp_next p) (fp_free_list p) fr" "fp_free_count p = length fr" "distinct (fr @ live)"
    "set (fr @ live) = (\<lambda>i. i * fp_block_size p) ` {..<fp_total_blocks p}" "PTR_SIZE \<le> fp_block_size p"
    using a(1) by (auto simp: fpool_inv_def)
  have "b \<notin> set fr" using f(3) a(2) by auto
  then show ?thesis using f unfolding fpool_inv_def by (intro exI [of _ fr]) auto
qed

subsection \<open>Histories\<close>

text \<open>
  A user allocates, gives back blocks it holds and writes into them; what it holds is kept beside the pool.
\<close>

inductive pool_use :: "addr list \<times> fpool \<Rightarrow> addr list \<times> fpool \<Rightarrow> bool" where
  use_alloc: "fpool_alloc (Some p) = (Some b, Some p') \<Longrightarrow> pool_use (live, p) (b # live, p')"
| use_fail: "fpool_alloc (Some p) = (None, Some p') \<Longrightarrow> pool_use (live, p) (live, p')"
| use_free: "b \<in> set live \<Longrightarrow> fpool_free (Some b) (Some p) = Some p' \<Longrightarrow> pool_use (live, p) (remove1 b live, p')"
| use_write: "b \<in> set live \<Longrightarrow> pool_use (live, p) (live, p\<lparr>fp_next := (fp_next p)(b := v)\<rparr>)"

lemma pool_use_inv: "pool_use st st' \<Longrightarrow> fpool_inv (fst st) (snd st) \<Longrightarrow>
  fpool_inv (fst st') (snd st') \<and> fp_total_blocks (snd st') = fp_total_blocks (snd st) \<and> fp_block_size (snd st') = fp_block_size (snd st)"
proof (induction rule: pool_use.induct)
  case (use_alloc p b p' live)
  moreover have "fp_total_blocks p' = fp_total_blocks p" "fp_block_size p' = fp_block_size p"
    using use_alloc(1) by (auto simp: fpool_alloc_def split: option.splits)
  ultimately show ?case using alloc_inv [of live p "Some b" p'] by simp
next
  case (use_fail p p' live)
  then show ?case using alloc_inv [of live p None p'] by auto
next
  case (use_free b live p p')
  then show ?case using free_inv [of live p b p'] by (auto simp: fpool_free_def)
next
  case (use_write b live p v)
  then show ?case using write_inv by simp
qed

lemma pool_run_inv: "pool_use\<^sup>*\<^sup>* st st' \<Longrightarrow> fpool_inv (fst st) (snd st) \<Longrightarrow>
  fpool_inv (fst st') (snd st') \<and> fp_total_blocks (snd st') = fp_total_blocks (snd st) \<and> fp_block_size (snd st') = fp_block_size (snd st)"
  by (induction rule: rtranclp_induct) (auto dest: pool_use_inv)

text \<open>
  C10. Blocks are never handed out twice: from a fresh pool, after any allocations, writes into allocated blocks
  (also over the link stored in them) and returns of allocated blocks, the blocks held are distinct
  blocks of the pool, the free count is what is left, and an allocation fails exactly when nothing is.
\<close>

theorem fpool_history:
  assumes "fpool_create ok1 ok2 bs n = Created p0" and "pool_use\<^sup>*\<^sup>* ([], p0) (live, p)"
  shows "distinct live \<and> set live \<subseteq> (\<lambda>i. i * fp_block_size p0) ` {..<n} \<and> fpool_free_blocks (Some p) + length live = n \<and>
    (fst (fpool_alloc (Some p)) = None \<longleftrightarrow> length live = n)"
proof -
  note c = create_inv [OF assms(1)]
  have i: "fpool_inv live p" and t: "fp_total_blocks p = n" "fp_block_size p = fp_block_size p0"
    using pool_run_inv [OF assms(2)] c by auto
  obtain fr where f: "chain (fp_next p) (fp_free_list p) fr" "fp_free_count p = length fr" "distinct (fr @ live)"
    "set (fr @ live) = (\<lambda>i. i * fp_block_size p) ` {..<fp_total_blocks p}" "PTR_SIZE \<le> fp_block_size p"
    using i by (auto simp: fpool_inv_def)
  have "inj_on (\<lambda>i. i * fp_block_size p) {..<n}" using f(5) by (auto simp: inj_on_def c_limits)
  then have "card (set (fr @ live)) = n" using f(4) t(1) by (simp add: card_image)
  then have sum: "length fr + length live = n" using distinct_card [OF f(3)] by simp
  have "fst (fpool_alloc (Some p)) = None \<longleftrightarrow> fr = []" using f(1) by (cases fr) (auto simp: fpool_alloc_def)
  then show ?thesis using f sum t by (auto simp: fpool_free_blocks_def)
qed

lemma fpool_history_witness:
  "\<exists>p0 p. fpool_create True True 16 2 = Created p0 \<and> pool_use\<^sup>*\<^sup>* ([], p0) ([16], p) \<and> fpool_free_blocks (Some p) = 1"
proof -
  define p0 where "p0 = \<lparr>fp_block_size = 16, fp_total_blocks = 2, fp_free_count = 2, fp_free_list = Some 16, fp_next = [16 \<mapsto> 0]\<rparr>"
  have c: "fpool_create True True 16 2 = Created p0"
  proof -
    have "build_list 16 2 = (Some 16, [16 \<mapsto> 0])" by (simp add: numeral_2_eq_2 fun_eq_iff)
    then show ?thesis by (simp add: fpool_create_def p0_def c_limits)
  qed
  define p where "p = p0\<lparr>fp_free_list := Some 0, fp_free_count := 1\<rparr>"
  have "pool_use ([], p0) ([16], p)" by (rule use_alloc) (simp add: fpool_alloc_def p_def p0_def)
  then have run: "pool_use\<^sup>*\<^sup>* ([], p0) ([16], p)" by blast
  have "fpool_free_blocks (Some p) + length [16 :: nat] = 2" using fpool_history [OF c run] by blast
  then show ?thesis using c run by auto
qed

text \<open>
  A block returned twice is handed out twice: the second return links the block to itself, so every later
  allocation gives the same block, while the free count exceeds the number of blocks it stands for.
\<close>

lemma double_free_shares:
  assumes "fpool_free (Some b) (Some p) = Some p1" and "fpool_free (Some b) (Some p1) = Some p2"
    and "fpool_alloc (Some p2) = (x, Some p3)" and "fpool_alloc (Some p3) = (y, Some p4)"
  shows "x = Some b \<and> y = Some b \<and> fp_free_list p4 = Some b \<and> fp_free_count p2 = fp_free_count p + 2"
  using assms by (auto simp: fpool_free_def fpool_alloc_def)

lemma double_free_shares_witness:
  "\<exists>p2 p3 p4. fpool_free (Some 16) (fpool_free (Some 16) (Some \<lparr>fp_block_size = 16, fp_total_blocks = 2, fp_free_count = 1,
      fp_free_list = Some 0, fp_next = Map.empty\<rparr>)) = Some p2 \<and>
    fpool_alloc (Some p2) = (Some 16, Some p3) \<and> fpool_alloc (Some p3) = (Some 16, Some p4)"
proof -
  define p where "p = \<lparr>fp_block_size = 16, fp_total_blocks = 2, fp_free_count = 1, fp_free_list = Some 0, fp_next = Map.empty\<rparr>"
  obtain p1 p2 where f: "fpool_free (Some 16) (Some p) = Some p1" "fpool_free (Some 16) (Some p1) = Some p2" by (simp add: fpool_free_def)
  then obtain x p3 y p4 where a: "fpool_alloc (Some p2) = (x, Some p3)" "fpool_alloc (Some p3) = (y, Some p4)"
    by (auto simp: fpool_free_def fpool_alloc_def)
  from double_free_shares [OF f a] show ?thesis using f a unfolding p_def by auto
qed

end
