(* ===== verification/Fs_Log.thy ===== *)
theory Fs_Log
  imports Fs_Config "HOL-Library.Sublist"
begin

text \<open>
  The log of the file server (\<open>linux-file-server/src/log.c\<close>): the level filter, the two outputs and the
  rotation that renames the files \<open>path.1\<close>, \<open>path.2\<close>, ... The theory also states the abstract log, a list of
  generations, and shows that the renaming implements it.
\<close>

subsection \<open>State\<close>

text \<open>\<open>lg_fp\<close> says whether \<open>log_fp\<close> is open; it is then a stream that appends to \<open>lg_path\<close>.\<close>

record flog =
  lg_fp :: bool
  lg_level :: log_level
  lg_path :: path
  lg_max_size :: int
  lg_max_files :: int
  lg_stdout :: bytes
  lg_files :: fstore

text \<open>Which calls the file system lets through, besides the existence of the files.\<close>

record log_os =
  los_open :: "path \<Rightarrow> fmode \<Rightarrow> bool"
  los_rename :: "path \<Rightarrow> path \<Rightarrow> bool"
  los_remove :: "path \<Rightarrow> bool"

definition log_start :: flog where
  "log_start = \<lparr>lg_fp = False, lg_level = LOG_INFO, lg_path = [], lg_max_size = 0, lg_max_files = 5,
     lg_stdout = [], lg_files = Map.empty\<rparr>"

primrec level_num :: "log_level \<Rightarrow> nat" where
  "level_num LOG_DEBUG = 0"
| "level_num LOG_INFO = 1"
| "level_num LOG_WARN = 2"
| "level_num LOG_ERROR = 3"
| "level_num LOG_FATAL = 4"

text \<open>The constants of the enumeration are compared as numbers; they are a linear order.\<close>

instantiation log_level :: linorder
begin

definition less_eq_log_level :: "log_level \<Rightarrow> log_level \<Rightarrow> bool" where
  "a \<le> b \<longleftrightarrow> level_num a \<le> level_num b"

definition less_log_level :: "log_level \<Rightarrow> log_level \<Rightarrow> bool" where
  "a < b \<longleftrightarrow> level_num a < level_num b"

instance
proof
  fix a b c :: log_level
  have inj: "level_num a = level_num b \<longrightarrow> a = b" by (cases a; cases b) simp_all
  show "(a < b) = (a \<le> b \<and> \<not> b \<le> a)" by (auto simp: less_eq_log_level_def less_log_level_def)
  show "a \<le> a" "a \<le> b \<or> b \<le> a" by (auto simp: less_eq_log_level_def)
  show "a \<le> b \<Longrightarrow> b \<le> c \<Longrightarrow> a \<le> c" by (simp add: less_eq_log_level_def)
  show "a \<le> b \<Longrightarrow> b \<le> a \<Longrightarrow> a = b" using inj unfolding less_eq_log_level_def by linarith
qed

end

primrec level_string :: "log_level \<Rightarrow> string" where
  "level_string LOG_DEBUG = ''DEBUG''"
| "level_string LOG_INFO = ''INFO ''"
| "level_string LOG_WARN = ''WARN ''"
| "level_string LOG_ERROR = ''ERROR''"
| "level_string LOG_FATAL = ''FATAL''"

subsection \<open>Operations\<close>

text \<open>
  \<open>log_init\<close>: \<open>have_dir\<close> is the result of \<open>stat\<close>, \<open>mkdir_ok\<close> that of \<open>mkdir\<close>, \<open>time_str\<close> the formatted time.
  Blanks and colons are replaced in the whole path.
\<close>

definition log_init_path :: "string \<Rightarrow> string \<Rightarrow> path" where
  "log_init_path dir time_str =
     map (\<lambda>c. if c = CHR '' '' \<or> c = CHR '':'' then CHR ''-'' else c) (take 511 (dir @ ''/server_'' @ time_str @ ''.log''))"

definition log_init :: "log_os \<Rightarrow> bool \<Rightarrow> bool \<Rightarrow> string \<Rightarrow> string option \<Rightarrow> log_level \<Rightarrow> flog \<Rightarrow> int \<times> flog" where
  "log_init os have_dir mkdir_ok time_str log_dir level st =
     (let st1 = st\<lparr>lg_level := level\<rparr> in
      case log_dir of
        None \<Rightarrow> (0, st1)
      | Some dir \<Rightarrow>
        if \<not> have_dir \<and> \<not> mkdir_ok then (-1, st1)
        else let p = log_init_path dir time_str in
          case fopen (los_open os) (lg_files st) p ModeA of
            None \<Rightarrow> (-1, st1\<lparr>lg_path := p, lg_fp := False\<rparr>)
          | Some fs \<Rightarrow> (0, st1\<lparr>lg_path := p, lg_fp := True, lg_files := fs\<rparr>))"

definition log_close :: "flog \<Rightarrow> flog" where
  "log_close st = st\<lparr>lg_fp := False\<rparr>"

definition log_set_level :: "log_level \<Rightarrow> flog \<Rightarrow> flog" where
  "log_set_level l st = st\<lparr>lg_level := l\<rparr>"

text \<open>\<open>max_size_mb * 1024 * 1024\<close> in \<open>int\<close>: \<^const>\<open>None\<close> when it overflows.\<close>

definition log_set_rotate :: "int \<Rightarrow> int \<Rightarrow> flog \<Rightarrow> flog option" where
  "log_set_rotate max_size_mb max_files st =
     (let n = max_size_mb * 1024 * 1024 in
      if n < - (2 ^ 31) \<or> 2 ^ 31 \<le> n then None
      else Some (st\<lparr>lg_max_size := n, lg_max_files := max_files\<rparr>))"

text \<open>Rotation. A rename of a file that does not exist fails and changes nothing.\<close>

definition rot_path :: "path \<Rightarrow> int \<Rightarrow> path" where
  "rot_path p i = take 511 (p @ ''.'' @ dec_int i)"

definition rename_path :: "log_os \<Rightarrow> path \<Rightarrow> path \<Rightarrow> fstore \<Rightarrow> fstore" where
  "rename_path os a b fs = (case fs a of None \<Rightarrow> fs
     | Some c \<Rightarrow> if los_rename os a b then (if a = b then fs else fs(b \<mapsto> c, a := None)) else fs)"

definition remove_path :: "log_os \<Rightarrow> path \<Rightarrow> fstore \<Rightarrow> fstore" where
  "remove_path os a fs = (if los_remove os a then fs(a := None) else fs)"

fun shift_loop :: "log_os \<Rightarrow> path \<Rightarrow> nat \<Rightarrow> fstore \<Rightarrow> fstore" where
  "shift_loop os p 0 fs = fs"
| "shift_loop os p (Suc i) fs =
     shift_loop os p i (rename_path os (rot_path p (int (Suc i))) (rot_path p (int (Suc i) + 1)) fs)"

definition log_check_rotate :: "log_os \<Rightarrow> flog \<Rightarrow> flog" where
  "log_check_rotate os st =
     (if \<not> lg_fp st \<or> lg_max_size st \<le> 0 then st
      else case lg_files st (lg_path st) of
        None \<Rightarrow> st
      | Some c \<Rightarrow>
        if int (length c) < lg_max_size st then st
        else
          let p = lg_path st;
              fs1 = remove_path os (rot_path p (lg_max_files st)) (lg_files st);
              fs2 = shift_loop os p (nat (lg_max_files st - 1)) fs1;
              fs3 = rename_path os p (rot_path p 1) fs2
          in case fopen (los_open os) fs3 p ModeA of
               None \<Rightarrow> st\<lparr>lg_fp := False, lg_files := fs3\<rparr>
             | Some fs4 \<Rightarrow> st\<lparr>lg_fp := True, lg_files := fs4\<rparr>)"

definition log_line :: "string \<Rightarrow> log_level \<Rightarrow> string \<Rightarrow> bytes" where
  "log_line time_str level msg = ''['' @ time_str @ ''] ['' @ level_string level @ ''] '' @ msg @ [LF]"

text \<open>\<open>msg\<close> is the formatted message.\<close>

definition log_write_impl :: "log_os \<Rightarrow> string \<Rightarrow> log_level \<Rightarrow> string \<Rightarrow> flog \<Rightarrow> flog" where
  "log_write_impl os time_str level msg st =
     (if level < lg_level st then st
      else
        let l = log_line time_str level msg;
            st1 = st\<lparr>lg_stdout := lg_stdout st @ l\<rparr>;
            st2 = (if lg_fp st then st1\<lparr>lg_files := fappend (lg_path st) l (lg_files st)\<rparr> else st1)
        in log_check_rotate os st2)"

text \<open>The functions of the levels.\<close>

definition log_debug :: "log_os \<Rightarrow> string \<Rightarrow> string \<Rightarrow> flog \<Rightarrow> flog" where
  "log_debug os time_str msg st = log_write_impl os time_str LOG_DEBUG msg st"

definition log_info :: "log_os \<Rightarrow> string \<Rightarrow> string \<Rightarrow> flog \<Rightarrow> flog" where
  "log_info os time_str msg st = log_write_impl os time_str LOG_INFO msg st"

definition log_warn :: "log_os \<Rightarrow> string \<Rightarrow> string \<Rightarrow> flog \<Rightarrow> flog" where
  "log_warn os time_str msg st = log_write_impl os time_str LOG_WARN msg st"

definition log_error :: "log_os \<Rightarrow> string \<Rightarrow> string \<Rightarrow> flog \<Rightarrow> flog" where
  "log_error os time_str msg st = log_write_impl os time_str LOG_ERROR msg st"

definition log_fatal :: "log_os \<Rightarrow> string \<Rightarrow> string \<Rightarrow> flog \<Rightarrow> flog" where
  "log_fatal os time_str msg st = log_write_impl os time_str LOG_FATAL msg st"

lemma level_extremes [simp]: "LOG_DEBUG \<le> level" "level \<le> LOG_FATAL"
  by (cases level; simp add: less_eq_log_level_def)+

text \<open>What the level lets through: a debugging message only at the lowest level, a fatal one always.\<close>

lemma log_debug_silent: "lg_level st \<noteq> LOG_DEBUG \<Longrightarrow> log_debug os t msg st = st"
  by (cases "lg_level st") (simp_all add: log_debug_def log_write_impl_def less_log_level_def)

lemma log_fatal_kept: "\<exists>st'. log_fatal os t msg st = log_check_rotate os st' \<and> lg_stdout st' = lg_stdout st @ log_line t LOG_FATAL msg"
proof -
  have "\<not> LOG_FATAL < lg_level st" by (simp add: not_less)
  then show ?thesis by (auto simp: log_fatal_def log_write_impl_def Let_def)
qed

subsection \<open>Renaming\<close>

definition los_calm :: "log_os \<Rightarrow> bool" where
  "los_calm os \<longleftrightarrow> (\<forall>p m. los_open os p m) \<and> (\<forall>a b. los_rename os a b) \<and> (\<forall>a. los_remove os a)"

lemma dec_nat_inj: "dec_nat a = dec_nat b \<Longrightarrow> a = b"
  by (metis digits_val_dec_nat)

lemma rot_path_eq:
  assumes "length p \<le> 500" and "i < 2 ^ 31"
  shows "rot_path p (int i) = p @ ''.'' @ dec_nat i"
proof -
  have "i < 10 ^ 10" using assms(2) by simp
  then have "length (dec_nat i) \<le> 10" using dec_nat_length [of i 10] by simp
  then show ?thesis using assms(1) by (simp add: rot_path_def dec_int_def)
qed

lemma rot_path_inj:
  "length p \<le> 500 \<Longrightarrow> i < 2 ^ 31 \<Longrightarrow> j < 2 ^ 31 \<Longrightarrow> rot_path p (int i) = rot_path p (int j) \<longleftrightarrow> i = j"
  using dec_nat_inj by (auto simp: rot_path_eq)

lemma rot_path_neq: "length p \<le> 500 \<Longrightarrow> i < 2 ^ 31 \<Longrightarrow> rot_path p (int i) \<noteq> p"
  by (simp add: rot_path_eq)

lemma rename_calm:
  "los_calm os \<Longrightarrow> a \<noteq> b \<Longrightarrow> fs b = None \<Longrightarrow> rename_path os a b fs = fs(b := fs a, a := None)"
  by (cases "fs a") (auto simp: rename_path_def los_calm_def fun_eq_iff)

text \<open>With the slot above free, the loop moves every file up by one and leaves the first slot free.\<close>

lemma shift_loop_moves:
  assumes "los_calm os" and "length p \<le> 500"
  shows "Suc n < 2 ^ 31 \<Longrightarrow> fs (rot_path p (int (Suc n))) = None \<Longrightarrow>
    (\<forall>i. 1 \<le> i \<longrightarrow> i \<le> n \<longrightarrow> shift_loop os p n fs (rot_path p (int (Suc i))) = fs (rot_path p (int i))) \<and>
    shift_loop os p n fs (rot_path p 1) = None \<and>
    (\<forall>q. (\<forall>i. 1 \<le> i \<longrightarrow> i \<le> Suc n \<longrightarrow> q \<noteq> rot_path p (int i)) \<longrightarrow> shift_loop os p n fs q = fs q)"
proof (induction n arbitrary: fs)
  case 0
  then show ?case by simp
next
  case (Suc n)
  let ?r = "\<lambda>i. rot_path p (int i)"
  define fs1 where "fs1 = fs(?r (Suc (Suc n)) := fs (?r (Suc n)), ?r (Suc n) := None)"
  have ne: "?r (Suc n) \<noteq> ?r (Suc (Suc n))" using assms(2) Suc.prems(1) by (subst rot_path_inj) simp_all
  have step: "shift_loop os p (Suc n) fs = shift_loop os p n fs1"
    using rename_calm [of os, OF assms(1) ne, of fs] Suc.prems(2) by (simp add: fs1_def add.commute)
  have free: "fs1 (?r (Suc n)) = None" by (simp add: fs1_def)
  note IH = Suc.IH [of fs1, OF _ free]
  have keep: "fs1 (?r i) = fs (?r i)" if "i \<le> n" for i
  proof -
    have "?r i \<noteq> ?r (Suc n)" "?r i \<noteq> ?r (Suc (Suc n))"
      using that assms(2) Suc.prems(1) by (simp_all add: rot_path_inj del: of_nat_Suc)
    then show ?thesis by (simp add: fs1_def)
  qed
  have top: "shift_loop os p n fs1 (?r (Suc (Suc n))) = fs1 (?r (Suc (Suc n)))"
  proof -
    have "\<forall>i. 1 \<le> i \<longrightarrow> i \<le> Suc n \<longrightarrow> ?r (Suc (Suc n)) \<noteq> ?r i"
      using assms(2) Suc.prems(1) by (auto simp: rot_path_inj simp del: of_nat_Suc)
    then show ?thesis using IH Suc.prems(1) by simp
  qed
  have "shift_loop os p (Suc n) fs (?r (Suc i)) = fs (?r i)" if "1 \<le> i" "i \<le> Suc n" for i
  proof (cases "i \<le> n")
    case True
    then show ?thesis unfolding step using IH that(1) keep [OF True] Suc.prems(1) by simp
  next
    case False
    then have i: "i = Suc n" using that(2) by simp
    show ?thesis unfolding step i top using ne by (simp add: fs1_def)
  qed
  moreover have "shift_loop os p (Suc n) fs q = fs q" if "\<forall>i. 1 \<le> i \<longrightarrow> i \<le> Suc (Suc n) \<longrightarrow> q \<noteq> ?r i" for q
  proof -
    have "q \<noteq> ?r (Suc n)" "q \<noteq> ?r (Suc (Suc n))" using that by (simp_all del: of_nat_Suc)
    then have "fs1 q = fs q" by (simp add: fs1_def)
    then show ?thesis unfolding step using IH that Suc.prems(1) by simp
  qed
  ultimately show ?case unfolding step using IH Suc.prems(1) by simp
qed

subsection \<open>Generations\<close>

text \<open>
  The abstract log: the kept generations, newest first, and the current one. A line goes to the current
  generation, which becomes the newest kept one when it has reached the size; at most \<open>m\<close> are kept.
\<close>

definition gen_write :: "nat \<Rightarrow> int \<Rightarrow> bytes \<Rightarrow> bytes list \<times> bytes \<Rightarrow> bytes list \<times> bytes" where
  "gen_write m sz l g = (case g of (gens, cur) \<Rightarrow>
     if int (length (cur @ l)) < sz then (gens, cur @ l) else (take m ((cur @ l) # gens), []))"

text \<open>The files hold the generations, and nothing else is at the numbered paths.\<close>

definition log_rep :: "flog \<Rightarrow> bytes list \<times> bytes \<Rightarrow> bool" where
  "log_rep st g \<longleftrightarrow> (case g of (gens, cur) \<Rightarrow>
     lg_fp st \<and> 0 < lg_max_size st \<and> 1 \<le> lg_max_files st \<and> lg_max_files st < 2 ^ 31 - 1 \<and> length (lg_path st) \<le> 500 \<and>
     lg_files st (lg_path st) = Some cur \<and> length gens \<le> nat (lg_max_files st) \<and>
     (\<forall>i. 1 \<le> i \<longrightarrow> i \<le> nat (lg_max_files st) \<longrightarrow>
        lg_files st (rot_path (lg_path st) (int i)) = (if i \<le> length gens then Some (gens ! (i - 1)) else None)))"

text \<open>The files after the oldest is removed, the others are moved up and the current one becomes number 1.\<close>

definition rotated :: "log_os \<Rightarrow> path \<Rightarrow> nat \<Rightarrow> fstore \<Rightarrow> fstore" where
  "rotated os p m fs = (let fs2 = shift_loop os p (m - 1) (fs(rot_path p (int m) := None)) in fs2(rot_path p 1 := fs2 p, p := None))"

lemma shifted_files:
  fixes fs :: fstore
  assumes "los_calm os" and "length p \<le> 500" and "1 \<le> m" and "m < 2 ^ 31 - 1"
  defines "fs2 \<equiv> shift_loop os p (m - 1) (fs(rot_path p (int m) := None))"
  shows "1 \<le> i \<Longrightarrow> i < m \<Longrightarrow> fs2 (rot_path p (int (Suc i))) = fs (rot_path p (int i))" and "fs2 (rot_path p 1) = None"
    and "(\<And>i. 1 \<le> i \<Longrightarrow> i \<le> m \<Longrightarrow> q \<noteq> rot_path p (int i)) \<Longrightarrow> fs2 q = fs q" and "fs2 p = fs p"
proof -
  let ?r = "\<lambda>i. rot_path p (int i)" and ?fs1 = "fs(rot_path p (int m) := None)"
  have sm: "Suc (m - 1) = m" using assms(3) by simp
  have free: "?fs1 (?r (Suc (m - 1))) = None" unfolding sm by simp
  have "Suc (m - 1) < 2 ^ 31" using assms(4) by simp
  note sh = shift_loop_moves [of os p, OF assms(1,2) this, of ?fs1, OF free, folded fs2_def]
  show "fs2 (?r (Suc i)) = fs (?r i)" if "1 \<le> i" "i < m" for i
  proof -
    have "?r i \<noteq> ?r m" using that assms(2,4) by (subst rot_path_inj) simp_all
    then show ?thesis using sh that by simp
  qed
  show "fs2 (rot_path p 1) = None" using sh by simp
  show other: "fs2 q = fs q" if "\<And>i. 1 \<le> i \<Longrightarrow> i \<le> m \<Longrightarrow> q \<noteq> ?r i" for q
  proof -
    have "q \<noteq> ?r m" using that assms(3) by simp
    then show ?thesis using sh that sm by simp
  qed
  have "p \<noteq> ?r i" if "i \<le> m" for i using that assms(2,4) by (intro rot_path_neq [symmetric]) simp_all
  then show "fs2 p = fs p" by (intro other) auto
qed

lemma rotated_numbered:
  assumes "los_calm os" and "length p \<le> 500" and "1 \<le> m" and "m < 2 ^ 31 - 1" and "fs p = Some cur"
    and gens: "\<And>i. 1 \<le> i \<Longrightarrow> i \<le> m \<Longrightarrow> fs (rot_path p (int i)) = (if i \<le> length gens then Some (gens ! (i - 1)) else None)"
    and i: "1 \<le> i" "i \<le> m"
  shows "rotated os p m fs (rot_path p (int i)) = (if i \<le> length (take m (cur # gens)) then Some (take m (cur # gens) ! (i - 1)) else None)"
proof -
  note sh = shifted_files [OF assms(1-4), where fs = fs]
  have np: "rot_path p (int k) \<noteq> p" if "k \<le> m" for k using that assms(2,4) by (intro rot_path_neq) simp_all
  show ?thesis
  proof (cases "i = 1")
    case True
    then show ?thesis using np [of 1] sh(4) assms(3,5) by (simp add: rotated_def Let_def)
  next
    case False
    define j where "j = i - 1"
    have j: "i = Suc j" "1 \<le> j" "j < m" using False i by (auto simp: j_def)
    have "rot_path p (int i) \<noteq> rot_path p (int 1)" using j i assms(2,4) by (subst rot_path_inj) simp_all
    then have "rot_path p (int i) \<noteq> rot_path p 1" by simp
    then have "rotated os p m fs (rot_path p (int i)) = fs (rot_path p (int j))"
      using np [of i] i sh(1) [OF j(2,3)] by (simp add: rotated_def Let_def j(1) del: of_nat_Suc)
    then show ?thesis using gens [of j] j by (auto simp: nth_Cons' simp del: of_nat_Suc)
  qed
qed

lemma rotated_other:
  assumes "los_calm os" and "length p \<le> 500" and "1 \<le> m" and "m < 2 ^ 31 - 1"
    and "q \<noteq> p" and "\<And>i. 1 \<le> i \<Longrightarrow> i \<le> m \<Longrightarrow> q \<noteq> rot_path p (int i)"
  shows "rotated os p m fs q = fs q"
  using shifted_files(3) [OF assms(1-4) assms(6)] assms(3,5) assms(6) [of 1] by (simp add: rotated_def Let_def)

lemma log_check_rotate_files:
  assumes "los_calm os" and "log_rep st (gens, cur)" and "\<not> int (length cur) < lg_max_size st"
  shows "log_check_rotate os st = st\<lparr>lg_fp := True, lg_files := (rotated os (lg_path st) (nat (lg_max_files st)) (lg_files st))(lg_path st \<mapsto> [])\<rparr>"
proof -
  define p where "p = lg_path st"
  define m where "m = nat (lg_max_files st)"
  note rep = assms(2) [unfolded log_rep_def prod.case]
  have m: "1 \<le> m" "m < 2 ^ 31 - 1" "lg_max_files st = int m" using rep by (auto simp: m_def)
  have p: "length p \<le> 500" "lg_files st p = Some cur" using rep by (simp_all add: p_def)
  define fs2 where "fs2 = shift_loop os p (m - 1) ((lg_files st)(rot_path p (int m) := None))"
  note sh = shifted_files [OF assms(1) p(1) m(1,2), where fs = "lg_files st", folded fs2_def]
  have "rot_path p 1 \<noteq> p" using rot_path_neq [of p 1] p(1) by simp
  then have ren: "rename_path os p (rot_path p 1) fs2 = rotated os p m (lg_files st)"
    using rename_calm [of os, OF assms(1), of p "rot_path p 1" fs2] sh(2) by (simp add: rotated_def Let_def fs2_def)
  have open4: "fopen (los_open os) (rotated os p m (lg_files st)) p ModeA = Some ((rotated os p m (lg_files st))(p \<mapsto> []))"
    using assms(1) by (simp add: fopen_def los_calm_def rotated_def Let_def)
  have "remove_path os (rot_path p (int m)) (lg_files st) = (lg_files st)(rot_path p (int m) := None)"
    using assms(1) by (simp add: remove_path_def los_calm_def)
  moreover have "nat (int m - 1) = m - 1" by simp
  ultimately show ?thesis using rep assms(3) p(2) ren open4
    by (simp add: log_check_rotate_def Let_def m(3) fs2_def flip: p_def)
qed

lemma rotate_rep:
  assumes "los_calm os" and "log_rep st (gens, cur)" and "\<not> int (length cur) < lg_max_size st"
  shows "log_rep (log_check_rotate os st) (take (nat (lg_max_files st)) (cur # gens), []) \<and>
    (\<forall>q. q \<noteq> lg_path st \<longrightarrow> (\<forall>i. 1 \<le> i \<longrightarrow> i \<le> nat (lg_max_files st) \<longrightarrow> q \<noteq> rot_path (lg_path st) (int i)) \<longrightarrow>
       lg_files (log_check_rotate os st) q = lg_files st q) \<and>
    log_check_rotate os st = st\<lparr>lg_files := lg_files (log_check_rotate os st)\<rparr>"
proof -
  define p where "p = lg_path st"
  define m where "m = nat (lg_max_files st)"
  note rep = assms(2) [unfolded log_rep_def prod.case]
  have m: "1 \<le> m" "m < 2 ^ 31 - 1" using rep by (auto simp: m_def)
  have p: "length p \<le> 500" "lg_files st p = Some cur" using rep by (simp_all add: p_def)
  have gens: "lg_files st (rot_path p (int i)) = (if i \<le> length gens then Some (gens ! (i - 1)) else None)" if "1 \<le> i" "i \<le> m" for i
    using rep that by (simp add: p_def m_def)
  note st' = log_check_rotate_files [OF assms, folded p_def m_def]
  note files = rotated_numbered [OF assms(1) p(1) m p(2) gens]
  have np: "rot_path p (int i) \<noteq> p" if "i \<le> m" for i using that m(2) p(1) by (intro rot_path_neq) simp_all
  have "log_rep (log_check_rotate os st) (take m (cur # gens), [])"
    unfolding st' log_rep_def prod.case
    using rep files np m(1) by (auto simp: m_def [symmetric] p_def [symmetric])
  moreover have "lg_files (log_check_rotate os st) q = lg_files st q"
    if "q \<noteq> p" "\<forall>i. 1 \<le> i \<longrightarrow> i \<le> m \<longrightarrow> q \<noteq> rot_path p (int i)" for q
    using rotated_other [OF assms(1) p(1) m that(1)] that unfolding st' by auto
  ultimately show ?thesis unfolding st' using rep by (auto simp: m_def p_def)
qed

lemma fappend_other: "q \<noteq> p \<Longrightarrow> fappend p b fs q = fs q"
  by (simp add: fappend_def)

lemma gen_write_rep:
  assumes "los_calm os" and "log_rep st g" and "lg_level st \<le> level"
  shows "log_rep (log_write_impl os t level msg st) (gen_write (nat (lg_max_files st)) (lg_max_size st) (log_line t level msg) g) \<and>
    log_write_impl os t level msg st =
      st\<lparr>lg_stdout := lg_stdout st @ log_line t level msg, lg_files := lg_files (log_write_impl os t level msg st)\<rparr> \<and>
    (\<forall>q. q \<noteq> lg_path st \<longrightarrow> (\<forall>i. 1 \<le> i \<longrightarrow> i \<le> nat (lg_max_files st) \<longrightarrow> q \<noteq> rot_path (lg_path st) (int i)) \<longrightarrow>
       lg_files (log_write_impl os t level msg st) q = lg_files st q)"
proof -
  obtain gens cur where g: "g = (gens, cur)" by (cases g)
  define l where "l = log_line t level msg"
  define st2 where "st2 = st\<lparr>lg_stdout := lg_stdout st @ l, lg_files := fappend (lg_path st) l (lg_files st)\<rparr>"
  note rep = assms(2) [unfolded g log_rep_def prod.case]
  have w: "log_write_impl os t level msg st = log_check_rotate os st2"
    using assms(3) rep by (simp add: log_write_impl_def Let_def l_def st2_def)
  have np: "rot_path (lg_path st) (int i) \<noteq> lg_path st" if "i \<le> nat (lg_max_files st)" for i
    using that rep by (intro rot_path_neq) auto
  have fa: "fappend (lg_path st) l (lg_files st) = (lg_files st)(lg_path st \<mapsto> cur @ l)" using rep by (simp add: fappend_def)
  have rep2: "log_rep st2 (gens, cur @ l)" using rep np by (simp add: log_rep_def st2_def fa)
  show ?thesis
  proof (cases "int (length (cur @ l)) < lg_max_size st")
    case True
    then have "log_check_rotate os st2 = st2" using rep by (simp add: log_check_rotate_def st2_def fa)
    moreover have "gen_write (nat (lg_max_files st)) (lg_max_size st) l g = (gens, cur @ l)" using True by (simp add: gen_write_def g)
    ultimately show ?thesis using w rep2 by (auto simp: st2_def l_def fappend_other)
  next
    case False
    moreover have "gen_write (nat (lg_max_files st)) (lg_max_size st) l g = (take (nat (lg_max_files st)) ((cur @ l) # gens), [])"
      using False by (simp add: gen_write_def g)
    ultimately show ?thesis using rotate_rep [OF assms(1) rep2] w by (auto simp: st2_def l_def fappend_other)
  qed
qed

text \<open>What is kept is the newest part of what was written; nothing is lost before all slots are used.\<close>

lemma gen_history:
  assumes "length c0 < nat sz"
  shows "case fold (gen_write m sz) ls ([], c0) of (gens, cur) \<Rightarrow>
    length gens \<le> m \<and> suffix (concat (rev gens) @ cur) (c0 @ concat ls) \<and>
    (length gens < m \<longrightarrow> concat (rev gens) @ cur = c0 @ concat ls) \<and>
    (\<forall>g \<in> set gens. sz \<le> int (length g)) \<and> int (length cur) < sz"
proof (induction ls rule: rev_induct)
  case Nil
  then show ?case using assms by simp
next
  case (snoc l ls)
  obtain gens cur where f: "fold (gen_write m sz) ls ([], c0) = (gens, cur)" by (metis prod.exhaust)
  note IH = snoc.IH [unfolded f prod.case]
  show ?case
  proof (cases "int (length (cur @ l)) < sz")
    case True
    then have e: "fold (gen_write m sz) (ls @ [l]) ([], c0) = (gens, cur @ l)" using f by (simp add: gen_write_def)
    have "concat (rev gens) @ cur = y \<Longrightarrow> concat (rev gens) @ cur @ l = y @ l" for y by (metis append.assoc)
    moreover have "suffix (concat (rev gens) @ cur @ l) (c0 @ concat ls @ l)" using IH by (auto simp: suffix_def)
    ultimately show ?thesis unfolding e prod.case using IH True by simp
  next
    case False
    have s: "suffix (concat (rev (take m ((cur @ l) # gens)))) (concat (rev gens) @ cur @ l)"
    proof -
      have "concat (rev ((cur @ l) # gens)) = concat (rev (drop m ((cur @ l) # gens))) @ concat (rev (take m ((cur @ l) # gens)))"
        by (metis append_take_drop_id concat_append rev_append)
      then show ?thesis by (auto simp: suffix_def)
    qed
    have e: "fold (gen_write m sz) (ls @ [l]) ([], c0) = (take m ((cur @ l) # gens), [])" using False f by (simp add: gen_write_def)
    have "suffix (concat (rev (take m ((cur @ l) # gens))) @ []) (c0 @ concat (ls @ [l]))"
    proof -
      have "suffix (concat (rev gens) @ cur @ l) (c0 @ concat ls @ l)" using IH by (auto simp: suffix_def)
      then show ?thesis using s by (auto dest: suffix_order.trans)
    qed
    moreover have "concat (rev (take m ((cur @ l) # gens))) @ [] = c0 @ concat (ls @ [l])" if "length (take m ((cur @ l) # gens)) < m"
    proof -
      have "length gens < m" and t: "take m ((cur @ l) # gens) = (cur @ l) # gens" using that by (auto simp: min_def split: if_splits)
      then have "(concat (rev gens) @ cur) @ l = (c0 @ concat ls) @ l" using IH by simp
      then show ?thesis unfolding t by simp
    qed
    moreover have "0 < sz" using assms by simp
    moreover have "\<forall>g \<in> set (take m ((cur @ l) # gens)). sz \<le> int (length g)"
    proof
      fix g assume "g \<in> set (take m ((cur @ l) # gens))"
      then have "g \<in> set ((cur @ l) # gens)" by (rule in_set_takeD)
      then show "sz \<le> int (length g)" using IH False by auto
    qed
    ultimately show ?thesis unfolding e prod.case by simp
  qed
qed

definition log_run :: "log_os \<Rightarrow> (string \<times> log_level \<times> string) list \<Rightarrow> flog \<Rightarrow> flog" where
  "log_run os ws st = fold (\<lambda>(t, level, msg). log_write_impl os t level msg) ws st"

definition log_lines :: "log_level \<Rightarrow> (string \<times> log_level \<times> string) list \<Rightarrow> bytes list" where
  "log_lines lv ws = map (\<lambda>(t, level, msg). log_line t level msg) (filter (\<lambda>(t, level, msg). lv \<le> level) ws)"

lemma log_run_rep:
  assumes "los_calm os"
  shows "log_rep st g \<Longrightarrow> log_rep (log_run os ws st) (fold (gen_write (nat (lg_max_files st)) (lg_max_size st)) (log_lines (lg_level st) ws) g) \<and>
    lg_stdout (log_run os ws st) = lg_stdout st @ concat (log_lines (lg_level st) ws) \<and>
    (\<forall>q. q \<noteq> lg_path st \<longrightarrow> (\<forall>i. 1 \<le> i \<longrightarrow> i \<le> nat (lg_max_files st) \<longrightarrow> q \<noteq> rot_path (lg_path st) (int i)) \<longrightarrow>
       lg_files (log_run os ws st) q = lg_files st q)"
proof (induction ws arbitrary: st g)
  case Nil
  then show ?case by (simp add: log_run_def log_lines_def)
next
  case (Cons w ws)
  obtain t level msg where w: "w = (t, level, msg)" by (cases w) auto
  define st1 where "st1 = log_write_impl os t level msg st"
  have run: "log_run os (w # ws) st = log_run os ws st1" by (simp add: log_run_def w st1_def)
  show ?case
  proof (cases "level < lg_level st")
    case True
    then have "st1 = st" by (simp add: st1_def log_write_impl_def)
    moreover have "log_lines (lg_level st) (w # ws) = log_lines (lg_level st) ws" using True by (simp add: log_lines_def w)
    ultimately show ?thesis using run Cons by simp
  next
    case False
    note s = gen_write_rep [OF assms Cons.prems False [unfolded not_less], of t msg, folded st1_def]
    have same: "lg_path st1 = lg_path st" "lg_level st1 = lg_level st" "lg_max_files st1 = lg_max_files st"
      "lg_max_size st1 = lg_max_size st" "lg_stdout st1 = lg_stdout st @ log_line t level msg"
      using s by (metis flog.surjective flog.select_convs flog.update_convs)+
    have l: "log_lines (lg_level st) (w # ws) = log_line t level msg # log_lines (lg_level st) ws" using False by (simp add: log_lines_def w)
    have "log_rep st1 (gen_write (nat (lg_max_files st)) (lg_max_size st) (log_line t level msg) g)" using s by simp
    from Cons.IH [OF this] show ?thesis unfolding run l same using s by auto
  qed
qed

subsection \<open>Properties\<close>

text \<open>
  C24. The log never loses its newest part: over any sequence of messages, with rotation on, standard output has
  every line at or above the level, the files together are the end of what was written, the whole of it as
  long as not every numbered file is in use, at most \<open>max_files\<close> numbered files exist, each at least as
  large as the limit, the current file is below the limit, and no other file is touched.
\<close>

theorem log_history:
  assumes "los_calm os" and "log_rep st ([], c0)" and "int (length c0) < lg_max_size st"
  shows "\<exists>gens cur. log_rep (log_run os ws st) (gens, cur) \<and> length gens \<le> nat (lg_max_files st) \<and>
    suffix (concat (rev gens) @ cur) (c0 @ concat (log_lines (lg_level st) ws)) \<and>
    (length gens < nat (lg_max_files st) \<longrightarrow> concat (rev gens) @ cur = c0 @ concat (log_lines (lg_level st) ws)) \<and>
    (\<forall>g \<in> set gens. lg_max_size st \<le> int (length g)) \<and> int (length cur) < lg_max_size st \<and>
    lg_stdout (log_run os ws st) = lg_stdout st @ concat (log_lines (lg_level st) ws) \<and>
    (\<forall>q. q \<noteq> lg_path st \<longrightarrow> (\<forall>i. 1 \<le> i \<longrightarrow> i \<le> nat (lg_max_files st) \<longrightarrow> q \<noteq> rot_path (lg_path st) (int i)) \<longrightarrow>
       lg_files (log_run os ws st) q = lg_files st q)"
proof -
  obtain gens cur where f: "fold (gen_write (nat (lg_max_files st)) (lg_max_size st)) (log_lines (lg_level st) ws) ([], c0) = (gens, cur)"
    by (metis prod.exhaust)
  have "length c0 < nat (lg_max_size st)" using assms(3) by simp
  note h = gen_history [OF this, of "nat (lg_max_files st)" "log_lines (lg_level st) ws", unfolded f prod.case]
  note r = log_run_rep [OF assms(1,2), of ws, unfolded f]
  show ?thesis using h r by blast
qed

lemma log_history_witness:
  "\<exists>gens cur. log_rep (log_run \<lparr>los_open = \<lambda>_ _. True, los_rename = \<lambda>_ _. True, los_remove = \<lambda>_. True\<rparr>
     [(''t'', LOG_WARN, ''disk full''), (''t'', LOG_DEBUG, ''x''), (''u'', LOG_ERROR, ''stop'')]
     (log_start\<lparr>lg_fp := True, lg_path := ''a.log'', lg_max_size := 20, lg_max_files := 2, lg_files := [''a.log'' \<mapsto> []]\<rparr>)) (gens, cur) \<and>
   suffix (concat (rev gens) @ cur) (''[t] [WARN ] disk full'' @ [LF] @ ''[u] [ERROR] stop'' @ [LF]) \<and> length gens \<le> 2"
proof -
  let ?os = "\<lparr>los_open = \<lambda>_ _. True, los_rename = \<lambda>_ _. True, los_remove = \<lambda>_. True\<rparr>"
  let ?ws = "[(''t'', LOG_WARN, ''disk full''), (''t'', LOG_DEBUG, ''x''), (''u'', LOG_ERROR, ''stop'')]"
  let ?st = "log_start\<lparr>lg_fp := True, lg_path := ''a.log'', lg_max_size := 20, lg_max_files := 2, lg_files := [''a.log'' \<mapsto> []]\<rparr>"
  have "log_rep ?st ([], [])" using rot_path_neq [of "''a.log''"] by (auto simp: log_rep_def log_start_def)
  then show ?thesis
    using log_history [of ?os ?st "[]" ?ws]
    by (simp add: los_calm_def log_lines_def log_start_def log_line_def less_eq_log_level_def) (metis (no_types, lifting))
qed

text \<open>Rotation counts in bytes in a 32-bit \<open>int\<close>, so limits of 2 GiB and more overflow.\<close>

lemma log_set_rotate_overflow: "2048 \<le> mb \<Longrightarrow> log_set_rotate mb k st = None"
  by (simp add: log_set_rotate_def)

text \<open>
  Blanks and colons are replaced in the directory part as well: a log directory whose name has one is
  created, and the file is then opened in another directory.
\<close>

lemma log_init_leaves_dir:
  assumes "CHR '' '' \<in> set dir \<or> CHR '':'' \<in> set dir" and "length dir \<le> 511"
  shows "\<not> prefix dir (log_init_path dir t)"
proof
  let ?f = "\<lambda>c. if c = CHR '' '' \<or> c = CHR '':'' then CHR ''-'' else c"
  assume "prefix dir (log_init_path dir t)"
  then have "dir = take (length dir) (log_init_path dir t)" by (auto simp: prefix_def)
  also have "\<dots> = map ?f dir" using assms(2) by (simp add: log_init_path_def take_map min_def)
  finally have d: "dir = map ?f dir" .
  from assms(1) obtain c where c: "c \<in> set dir" "c = CHR '' '' \<or> c = CHR '':''" by blast
  have "c \<in> set (map ?f dir)" by (rule subst [of _ _ "\<lambda>x. c \<in> set x", OF d c(1)])
  then show False using c(2) by auto
qed

end
