(* ===== verification/Fs_Hash.thy ===== *)
theory Fs_Hash
  imports Fs_Auth
begin

text \<open>
  Digests of files and of memory (\<open>linux-file-server/src/hash_util.c\<close>). A digest algorithm of OpenSSL is a
  parameter: the state after \<open>EVP_DigestInit_ex\<close>, what \<open>EVP_DigestUpdate\<close> does to it and the bytes
  \<open>EVP_DigestFinal_ex\<close> delivers. Which calls of the library succeed is a script; past its end all do.
\<close>

record 's digest_alg =
  dg_init :: 's
  dg_update :: "'s \<Rightarrow> bytes \<Rightarrow> 's"
  dg_final :: "'s \<Rightarrow> bytes"

definition CHUNK_SIZE :: nat where [c_limits]: "CHUNK_SIZE = 4096"

subsection \<open>Model\<close>

text \<open>
  The loop \<open>for (i = 0; i < digest_len && (i * 2 + 2) < hex_size; i++)\<close>; the buffer has room for the
  terminating \<open>NUL\<close> at least.
\<close>

fun hex_from :: "nat \<Rightarrow> bytes \<Rightarrow> nat \<Rightarrow> string" where
  "hex_from i [] hex_size = []"
| "hex_from i (d # ds) hex_size = (if i * 2 + 2 < hex_size then hex2 d @ hex_from (Suc i) ds hex_size else [])"

definition digest_to_hex :: "bytes \<Rightarrow> nat \<Rightarrow> string" where
  "digest_to_hex digest hex_size = hex_from 0 digest hex_size"

definition hash_data :: "alloc_script \<Rightarrow> 's digest_alg \<Rightarrow> bytes option \<Rightarrow> nat \<Rightarrow> int \<times> string" where
  "hash_data lib md data hex_size =
     (case data of None \<Rightarrow> (-1, [])
      | Some b \<Rightarrow>
        (case next_alloc lib of (new_ok, l1) \<Rightarrow> case next_alloc l1 of (init_ok, l2) \<Rightarrow>
         case next_alloc l2 of (update_ok, l3) \<Rightarrow> case next_alloc l3 of (final_ok, l4) \<Rightarrow>
           if \<not> new_ok \<or> \<not> init_ok \<or> \<not> update_ok \<or> \<not> final_ok then (-1, [])
           else (0, digest_to_hex (dg_final md (dg_update md (dg_init md) b)) hex_size)))"

text \<open>The loop over the pieces of the file; \<^const>\<open>None\<close> when an update fails.\<close>

function hash_loop :: "'s digest_alg \<Rightarrow> alloc_script \<Rightarrow> 's \<Rightarrow> bytes \<Rightarrow> ('s \<times> alloc_script) option" where
  "hash_loop md lib s b =
     (if b = [] then Some (s, lib)
      else case next_alloc lib of (ok, l) \<Rightarrow>
        if \<not> ok then None else hash_loop md l (dg_update md s (take CHUNK_SIZE b)) (drop CHUNK_SIZE b))"
  by pat_completeness auto
termination by (relation "measure (\<lambda>(md, lib, s, b). length b)") (auto simp: c_limits)

declare hash_loop.simps [simp del]

text \<open>
  \<open>hash_file\<close>: \<open>fp\<close> is the content of the file if it opens; \<open>err\<close> is where reading fails, after which
  \<open>ferror\<close> is set.
\<close>

definition hash_file :: "alloc_script \<Rightarrow> 's digest_alg \<Rightarrow> bytes option \<Rightarrow> nat option \<Rightarrow> nat \<Rightarrow> int \<times> string" where
  "hash_file lib md fp err hex_size =
     (case fp of None \<Rightarrow> (-1, [])
      | Some c \<Rightarrow>
        (case next_alloc lib of (new_ok, l1) \<Rightarrow>
         if \<not> new_ok then (-1, [])
         else case next_alloc l1 of (init_ok, l2) \<Rightarrow>
           if \<not> init_ok then (-1, [])
           else case hash_loop md l2 (dg_init md) (case err of None \<Rightarrow> c | Some k \<Rightarrow> take k c) of
             None \<Rightarrow> (-1, [])
           | Some (s, l3) \<Rightarrow>
             if err \<noteq> None then (-1, [])
             else case next_alloc l3 of (final_ok, l4) \<Rightarrow>
               if \<not> final_ok then (-1, []) else (0, digest_to_hex (dg_final md s) hex_size)))"

definition md5_file :: "'s digest_alg \<Rightarrow> alloc_script \<Rightarrow> bytes option \<Rightarrow> nat option \<Rightarrow> nat \<Rightarrow> int \<times> string" where
  "md5_file evp_md5 lib fp err hex_size = hash_file lib evp_md5 fp err hex_size"

definition md5_data :: "'s digest_alg \<Rightarrow> alloc_script \<Rightarrow> bytes option \<Rightarrow> nat \<Rightarrow> int \<times> string" where
  "md5_data evp_md5 lib data hex_size = hash_data lib evp_md5 data hex_size"

definition sha256_file :: "'s digest_alg \<Rightarrow> alloc_script \<Rightarrow> bytes option \<Rightarrow> nat option \<Rightarrow> nat \<Rightarrow> int \<times> string" where
  "sha256_file evp_sha256 lib fp err hex_size = hash_file lib evp_sha256 fp err hex_size"

definition sha256_data :: "'s digest_alg \<Rightarrow> alloc_script \<Rightarrow> bytes option \<Rightarrow> nat \<Rightarrow> int \<times> string" where
  "sha256_data evp_sha256 lib data hex_size = hash_data lib evp_sha256 data hex_size"

subsection \<open>Properties\<close>

lemma hex_from_take: "hex_from i ds hs = hex_string (take ((hs - 1) div 2 - i) ds)"
proof (induction ds arbitrary: i)
  case (Cons d ds)
  show ?case
  proof (cases "i * 2 + 2 < hs")
    case True
    then have "(hs - 1) div 2 - i = Suc ((hs - 1) div 2 - Suc i)" by linarith
    then show ?thesis using True Cons by (simp add: hex_string_def)
  next
    case False
    then have "(hs - 1) div 2 - i = 0" by linarith
    then show ?thesis using False by (simp add: hex_string_def)
  qed
qed (simp add: hex_string_def)

lemma digest_hex_whole: "2 * length d < hex_size \<Longrightarrow> digest_to_hex d hex_size = hex_string d"
proof -
  assume "2 * length d < hex_size"
  then have "length d \<le> (hex_size - 1) div 2" by linarith
  then show ?thesis by (simp add: digest_to_hex_def hex_from_take)
qed

text \<open>The two routines of that name, here and in \<open>auth.c\<close>, agree on a digest of 32 bytes.\<close>

lemma digest_to_hex_agree: "length d = 32 \<Longrightarrow> 65 \<le> n \<Longrightarrow> digest_to_hex d n = Fs_Auth.digest_to_hex d n"
  by (simp add: digest_hex_whole Fs_Auth.digest_to_hex_def c_limits Let_def)

lemma digest_to_hex_fits: "0 < hex_size \<Longrightarrow> length (digest_to_hex d hex_size) < hex_size"
  by (simp add: digest_to_hex_def hex_from_take)

lemma hash_loop_whole:
  assumes "\<And>s a b. dg_update md (dg_update md s a) b = dg_update md s (a @ b)" and "\<And>s. dg_update md s [] = s"
  shows "hash_loop md [] s b = Some (dg_update md s b, [])"
proof (induction "length b" arbitrary: s b rule: less_induct)
  case less
  show ?case
  proof (cases "b = []")
    case False
    then have "length (drop CHUNK_SIZE b) < length b" by (simp add: c_limits)
    then have "hash_loop md [] (dg_update md s (take CHUNK_SIZE b)) (drop CHUNK_SIZE b) =
        Some (dg_update md (dg_update md s (take CHUNK_SIZE b)) (drop CHUNK_SIZE b), [])" by (rule less)
    then show ?thesis using False assms(1) by (subst hash_loop.simps) simp
  qed (simp add: hash_loop.simps assms(2))
qed

text \<open>
  C27. Hashing a file piece by piece gives the digest of its content: with a digest that takes its input in any
  division, \<open>hash_file\<close> returns what \<open>hash_data\<close> returns for the whole content, in full as hexadecimal text
  when the buffer is large enough; a file that cannot be opened or read to its end gives -1.
\<close>

theorem hash_file_whole:
  assumes "\<And>s a b. dg_update md (dg_update md s a) b = dg_update md s (a @ b)" and "\<And>s. dg_update md s [] = s"
  shows "hash_file [] md (Some c) None hex_size = hash_data [] md (Some c) hex_size \<and>
    (2 * length (dg_final md (dg_update md (dg_init md) c)) < hex_size \<longrightarrow>
      hash_file [] md (Some c) None hex_size = (0, hex_string (dg_final md (dg_update md (dg_init md) c)))) \<and>
    hash_file lib md None err hex_size = (-1, []) \<and> hash_file lib md (Some c) (Some k) hex_size = (-1, [])"
  using hash_loop_whole [OF assms, of "dg_init md" c]
  by (auto simp: hash_file_def hash_data_def digest_hex_whole split: option.splits prod.splits)

lemma hash_file_whole_witness:
  "hash_file [] \<lparr>dg_init = 0, dg_update = \<lambda>s b. s + sum_list (map of_char b), dg_final = \<lambda>s :: nat. [char_of s]\<rparr>
     (Some ''ab'') None 33 = (0, ''c3'')"
proof -
  let ?md = "\<lparr>dg_init = 0, dg_update = \<lambda>s b. s + sum_list (map of_char b), dg_final = \<lambda>s :: nat. [char_of s]\<rparr>"
  have "hash_file [] ?md (Some ''ab'') None 33 = (0, hex_string (dg_final ?md (dg_update ?md (dg_init ?md) ''ab'')))"
    by (rule hash_file_whole [THEN conjunct2, THEN conjunct1, rule_format]) simp_all
  then show ?thesis by (simp add: hex_string_def hex2_def hex_digit_def of_char_of)
qed

end
