(* ===== verification/Fs_Module.thy ===== *)
theory Fs_Module
  imports C_Stdio "HOL-Library.Multiset"
begin

text \<open>
  The modules of the file server (\<open>linux-file-server/src/module.c\<close>). A shared object is what \<open>dlsym\<close> finds in
  it: the result of \<open>module_init\<close>, whether there is a \<open>module_cleanup\<close>, and the command handler. Which
  path opens to which object is the argument \<open>dl\<close>; the calls into the dynamic linker and the module are
  recorded as events.
\<close>

subsection \<open>State\<close>

record shared_object =
  so_init :: "int option"
  so_cleanup :: bool
  so_on_command :: "(int \<Rightarrow> int \<Rightarrow> string \<Rightarrow> int) option"

text \<open>\<open>md_handle\<close> is the path the object was opened by, with the object.\<close>

record fmodule =
  md_name :: string
  md_path :: string
  md_handle :: "(path \<times> shared_object) option"
  md_loaded :: bool

record module_manager =
  mm_modules :: "fmodule list"
  mm_count :: nat

datatype dl_event = DlOpen path | DlClose path | ModInit path | ModCleanup path

definition MAX_MODULES :: nat where [c_limits]: "MAX_MODULES = 16"

definition zero_module :: fmodule where
  "zero_module = \<lparr>md_name = [], md_path = [], md_handle = None, md_loaded = False\<rparr>"

subsection \<open>Operations\<close>

definition module_manager_init :: module_manager where
  "module_manager_init = \<lparr>mm_modules = replicate MAX_MODULES zero_module, mm_count = 0\<rparr>"

text \<open>The first loaded module of that name among the first \<open>count\<close> slots.\<close>

fun find_module :: "string \<Rightarrow> fmodule list \<Rightarrow> nat option" where
  "find_module name [] = None"
| "find_module name (m # ms) = (if md_loaded m \<and> md_name m = name then Some 0 else map_option Suc (find_module name ms))"

definition module_load ::
  "(path \<Rightarrow> shared_object option) \<Rightarrow> string \<Rightarrow> path \<Rightarrow> module_manager \<Rightarrow> int \<times> module_manager \<times> dl_event list" where
  "module_load dl name path mgr =
     (if MAX_MODULES \<le> mm_count mgr then (-1, mgr, [])
      else if find_module name (take (mm_count mgr) (mm_modules mgr)) \<noteq> None then (-1, mgr, [])
      else case dl path of
        None \<Rightarrow> (-1, mgr, [])
      | Some so \<Rightarrow>
        let md = \<lparr>md_name = strncpy0 63 name, md_path = strncpy0 255 path, md_handle = Some (path, so), md_loaded = False\<rparr>;
            ev = DlOpen path # (if so_init so = None then [] else [ModInit path])
        in if so_init so \<noteq> None \<and> so_init so \<noteq> Some 0
           then (-1, mgr\<lparr>mm_modules := (mm_modules mgr)[mm_count mgr := md]\<rparr>, ev @ [DlClose path])
           else (0, mgr\<lparr>mm_modules := (mm_modules mgr)[mm_count mgr := md\<lparr>md_loaded := True\<rparr>],
                       mm_count := mm_count mgr + 1\<rparr>, ev))"

definition close_events :: "fmodule \<Rightarrow> dl_event list" where
  "close_events m = (case md_handle m of None \<Rightarrow> []
     | Some (path, so) \<Rightarrow> (if so_cleanup so then [ModCleanup path] else []) @ [DlClose path])"

definition module_unload :: "string \<Rightarrow> module_manager \<Rightarrow> int \<times> module_manager \<times> dl_event list" where
  "module_unload name mgr =
     (case find_module name (take (mm_count mgr) (mm_modules mgr)) of
        None \<Rightarrow> (-1, mgr, [])
      | Some i \<Rightarrow>
        let ms = mm_modules mgr;
            ms1 = ms[i := (ms ! i)\<lparr>md_loaded := False\<rparr>];
            ms2 = (if i < mm_count mgr - 1
                   then ms1[i := ms1 ! (mm_count mgr - 1), mm_count mgr - 1 := zero_module] else ms1)
        in (0, mgr\<lparr>mm_modules := ms2, mm_count := mm_count mgr - 1\<rparr>, close_events (ms ! i)))"

text \<open>The loop of \<open>module_unload_all\<close> from the last module to the first.\<close>

fun unload_from :: "nat \<Rightarrow> fmodule list \<Rightarrow> fmodule list \<times> dl_event list" where
  "unload_from 0 ms = (ms, [])"
| "unload_from (Suc i) ms =
     (if md_loaded (ms ! i)
      then case unload_from i (ms[i := (ms ! i)\<lparr>md_loaded := False\<rparr>]) of (ms', ev) \<Rightarrow> (ms', close_events (ms ! i) @ ev)
      else unload_from i ms)"

definition module_unload_all :: "module_manager \<Rightarrow> module_manager \<times> dl_event list" where
  "module_unload_all mgr = (case unload_from (mm_count mgr) (mm_modules mgr) of
     (ms, ev) \<Rightarrow> (\<lparr>mm_modules = ms, mm_count = 0\<rparr>, ev))"

text \<open>\<open>module_dispatch\<close>: the result, and the names of the modules whose handler was called.\<close>

fun dispatch_loop :: "int \<Rightarrow> int \<Rightarrow> string \<Rightarrow> fmodule list \<Rightarrow> int \<times> string list" where
  "dispatch_loop fd cmd arg [] = (0, [])"
| "dispatch_loop fd cmd arg (m # ms) =
     (case (if md_loaded m then Option.bind (md_handle m) (\<lambda>(_, so). so_on_command so) else None) of
        None \<Rightarrow> dispatch_loop fd cmd arg ms
      | Some h \<Rightarrow> if h fd cmd arg \<noteq> 0 then (1, [md_name m])
          else case dispatch_loop fd cmd arg ms of (r, ns) \<Rightarrow> (r, md_name m # ns))"

definition module_dispatch :: "int \<Rightarrow> int \<Rightarrow> string \<Rightarrow> module_manager \<Rightarrow> int \<times> string list" where
  "module_dispatch fd cmd arg mgr = dispatch_loop fd cmd arg (take (mm_count mgr) (mm_modules mgr))"

text \<open>
  \<open>module_list\<close>: the text in the buffer and the number returned. The entry that does not fit stays in the
  buffer, cut off, without being counted.
\<close>

definition module_line :: "fmodule \<Rightarrow> string" where
  "module_line m = pad_right 20 (md_name m) @ '' '' @ md_path m @ [LF]"

fun list_loop :: "nat \<Rightarrow> fmodule list \<Rightarrow> string \<Rightarrow> string \<times> nat" where
  "list_loop sz [] acc = (acc, length acc)"
| "list_loop sz (m # ms) acc =
     (if \<not> md_loaded m then list_loop sz ms acc
      else if length acc + length (module_line m) < sz then list_loop sz ms (acc @ module_line m)
      else (acc @ take (sz - length acc - 1) (module_line m), length acc))"

definition module_list :: "module_manager \<Rightarrow> nat \<Rightarrow> string \<times> nat" where
  "module_list mgr buf_size = (if buf_size = 0 then ([], 0) else list_loop buf_size (take (mm_count mgr) (mm_modules mgr)) [])"

text \<open>The handler of the example module \<open>plugins/echo_module.c\<close>.\<close>

definition echo_on_command :: "int \<Rightarrow> int \<Rightarrow> string \<Rightarrow> int" where
  "echo_on_command fd cmd arg = (if arg = ''echo'' then 1 else 0)"

definition echo_module :: shared_object where
  "echo_module = \<lparr>so_init = Some 0, so_cleanup = True, so_on_command = Some echo_on_command\<rparr>"

subsection \<open>Invariant\<close>

definition loaded :: "module_manager \<Rightarrow> fmodule list" where
  "loaded mgr = take (mm_count mgr) (mm_modules mgr)"

definition module_ok :: "module_manager \<Rightarrow> bool" where
  "module_ok mgr \<longleftrightarrow> length (mm_modules mgr) = MAX_MODULES \<and> mm_count mgr \<le> MAX_MODULES \<and>
     (\<forall>m \<in> set (loaded mgr). md_loaded m \<and> md_handle m \<noteq> None)"

definition handle_path :: "fmodule \<Rightarrow> path" where
  "handle_path m = (case md_handle m of None \<Rightarrow> [] | Some (p, _) \<Rightarrow> p)"

fun opened :: "dl_event list \<Rightarrow> path multiset" where
  "opened [] = {#}"
| "opened (DlOpen p # es) = add_mset p (opened es)"
| "opened (_ # es) = opened es"

fun closed :: "dl_event list \<Rightarrow> path multiset" where
  "closed [] = {#}"
| "closed (DlClose p # es) = add_mset p (closed es)"
| "closed (_ # es) = closed es"

lemma opened_append [simp]: "opened (a @ b) = opened a + opened b"
  by (induction a rule: opened.induct) simp_all

lemma closed_append [simp]: "closed (a @ b) = closed a + closed b"
  by (induction a rule: closed.induct) simp_all

lemma close_events_count [simp]:
  "md_handle m \<noteq> None \<Longrightarrow> opened (close_events m) = {#} \<and> closed (close_events m) = {#handle_path m#}"
  by (auto simp: close_events_def handle_path_def)

lemma find_module_Some: "find_module name ms = Some i \<Longrightarrow> i < length ms \<and> md_loaded (ms ! i) \<and> md_name (ms ! i) = name"
  by (induction ms arbitrary: i) (auto split: if_splits)

lemma find_module_None: "find_module name ms = None \<Longrightarrow> \<forall>m \<in> set ms. md_loaded m \<longrightarrow> md_name m \<noteq> name"
  by (induction ms) (auto split: if_splits)

text \<open>Removing a slot by moving the last one into it, on the used part of the array.\<close>

lemma loaded_compact:
  assumes "i < n" and "n \<le> length ms"
  shows "mset (take (n - 1) (if i < n - 1 then ms[i := ms ! (n - 1), n - 1 := z] else ms[i := y])) = mset (take n ms) - {#ms ! i#}"
proof -
  obtain k where n: "n = Suc k" using assms(1) by (cases n) auto
  have tk: "take n ms = take k ms @ [ms ! k]" using assms n by (simp add: take_Suc_conv_app_nth)
  show ?thesis
  proof (cases "i < k")
    case True
    then have "take k (ms[i := ms ! k, k := z]) = (take k ms)[i := ms ! k]" by (simp add: take_update_swap list_update_beyond)
    moreover have "mset ((take k ms)[i := ms ! k]) = add_mset (ms ! k) (mset (take k ms) - {#ms ! i#})"
      using True assms n by (subst mset_update) simp_all
    moreover have "ms ! i \<in># mset (take k ms)" using True assms n by (auto simp: in_set_conv_nth intro!: exI [of _ i])
    ultimately show ?thesis using True n tk by (simp add: mset_update)
  next
    case False
    then have "i = k" using assms n by simp
    then show ?thesis using n tk by simp
  qed
qed

lemma module_load_effect:
  assumes "module_ok mgr" and "module_load dl name path mgr = (r, mgr', ev)"
  shows "module_ok mgr' \<and> opened ev + mset (map handle_path (loaded mgr)) = closed ev + mset (map handle_path (loaded mgr')) \<and>
    (r = 0 \<longrightarrow> (\<exists>m. loaded mgr' = loaded mgr @ [m] \<and> md_name m = take 63 name) \<and> name \<notin> set (map md_name (loaded mgr))) \<and>
    (r \<noteq> 0 \<longrightarrow> r = -1 \<and> loaded mgr' = loaded mgr)"
proof -
  have len: "length (mm_modules mgr) = MAX_MODULES" "mm_count mgr \<le> MAX_MODULES"
    and ok: "\<forall>m \<in> set (loaded mgr). md_loaded m \<and> md_handle m \<noteq> None" using assms(1) by (auto simp: module_ok_def)
  consider (same) "r = -1" "mgr' = mgr" "ev = []"
    | (opens) so where "dl path = Some so" "mm_count mgr < MAX_MODULES" "find_module name (loaded mgr) = None"
    using assms(2) by (auto simp: module_load_def loaded_def Let_def split: if_splits option.splits)
  then show ?thesis
  proof cases
    case same
    then show ?thesis using assms(1) by simp
  next
    case opens
    let ?md = "\<lparr>md_name = take 63 name, md_path = take 255 path, md_handle = Some (path, so), md_loaded = False\<rparr>"
    have nm: "name \<notin> set (map md_name (loaded mgr))" using find_module_None [OF opens(3)] ok by auto
    show ?thesis
    proof (cases "so_init so \<noteq> None \<and> so_init so \<noteq> Some 0")
      case True
      then have "mgr' = mgr\<lparr>mm_modules := (mm_modules mgr)[mm_count mgr := ?md]\<rparr>" "r = -1"
        "ev = [DlOpen path, ModInit path, DlClose path]"
        using assms(2) opens by (auto simp: module_load_def Let_def loaded_def strncpy0_def split: if_splits)
      then show ?thesis using len ok by (simp add: module_ok_def loaded_def)
    next
      case False
      then have e: "mgr' = mgr\<lparr>mm_modules := (mm_modules mgr)[mm_count mgr := ?md\<lparr>md_loaded := True\<rparr>], mm_count := mm_count mgr + 1\<rparr>"
        "r = 0" "opened ev = {#path#}" "closed ev = {#}"
        using assms(2) opens by (auto simp: module_load_def Let_def loaded_def strncpy0_def split: if_splits)
      have "loaded mgr' = loaded mgr @ [?md\<lparr>md_loaded := True\<rparr>]"
        using e(1) opens(2) len by (simp add: loaded_def take_Suc_conv_app_nth)
      then show ?thesis using e len ok opens(2) nm by (simp add: module_ok_def handle_path_def)
    qed
  qed
qed

lemma module_unload_effect:
  assumes "module_ok mgr" and "module_unload name mgr = (r, mgr', ev)"
  shows "module_ok mgr' \<and> opened ev = {#} \<and> mset (map handle_path (loaded mgr)) = closed ev + mset (map handle_path (loaded mgr')) \<and>
    (r = 0 \<longrightarrow> (\<exists>m \<in> set (loaded mgr). md_name m = name \<and> mset (loaded mgr') = mset (loaded mgr) - {#m#})) \<and>
    (r \<noteq> 0 \<longrightarrow> r = -1 \<and> mgr' = mgr \<and> name \<notin> set (map md_name (loaded mgr)))"
proof (cases "find_module name (loaded mgr)")
  case None
  then show ?thesis using assms find_module_None [OF None] by (auto simp: module_unload_def loaded_def module_ok_def)
next
  case (Some i)
  define ms n where "ms = mm_modules mgr" and "n = mm_count mgr"
  have len: "length ms = MAX_MODULES" "n \<le> length ms" and ok: "\<forall>m \<in> set (loaded mgr). md_loaded m \<and> md_handle m \<noteq> None"
    using assms(1) by (auto simp: module_ok_def ms_def n_def)
  have i: "i < n" "md_name (ms ! i) = name" "ms ! i \<in> set (loaded mgr)"
    using find_module_Some [OF Some] by (auto simp: loaded_def ms_def n_def in_set_conv_nth)
  define ms2 where "ms2 = (if i < n - 1 then ms[i := ms ! (n - 1), n - 1 := zero_module] else ms[i := (ms ! i)\<lparr>md_loaded := False\<rparr>])"
  have r: "r = 0" "mgr' = \<lparr>mm_modules = ms2, mm_count = n - 1\<rparr>" "ev = close_events (ms ! i)"
    using assms(2) Some by (auto simp: module_unload_def loaded_def Let_def ms_def n_def ms2_def)
  have ld: "mset (loaded mgr') = mset (loaded mgr) - {#ms ! i#}"
    unfolding r(2) loaded_def using loaded_compact [OF i(1) len(2)] by (simp add: ms2_def ms_def n_def)
  then have "set (loaded mgr') \<subseteq> set (loaded mgr)" by (metis in_diffD set_mset_mset subsetI)
  then have "module_ok mgr'" using len ok r(2) by (auto simp: module_ok_def ms2_def loaded_def)
  moreover have "mset (map handle_path (loaded mgr)) = add_mset (handle_path (ms ! i)) (mset (map handle_path (loaded mgr')))"
    using ld i(3) by (simp add: image_mset_Diff)
  ultimately show ?thesis using r i ld ok by auto
qed

lemma unload_from_effect:
  "n \<le> length ms \<Longrightarrow> \<forall>m \<in> set (take n ms). md_loaded m \<and> md_handle m \<noteq> None \<Longrightarrow> unload_from n ms = (ms', ev) \<Longrightarrow>
   length ms' = length ms \<and> opened ev = {#} \<and> closed ev = mset (map handle_path (take n ms))"
proof (induction n arbitrary: ms ev)
  case (Suc n)
  have m: "ms ! n \<in> set (take (Suc n) ms)" using Suc.prems(1) by (auto simp: in_set_conv_nth intro!: exI [of _ n])
  then have l: "md_loaded (ms ! n)" "md_handle (ms ! n) \<noteq> None" using Suc.prems(2) by auto
  obtain ev' where u: "unload_from n (ms[n := (ms ! n)\<lparr>md_loaded := False\<rparr>]) = (ms', ev')" "ev = close_events (ms ! n) @ ev'"
    using Suc.prems(3) l(1) by (auto split: prod.splits)
  have sub: "set (take n ms) \<subseteq> set (take (Suc n) ms)" by (rule set_take_subset_set_take) simp
  have "length ms' = length (ms[n := (ms ! n)\<lparr>md_loaded := False\<rparr>]) \<and> opened ev' = {#} \<and> closed ev' = mset (map handle_path (take n ms))"
    using Suc.IH [OF _ _ u(1)] Suc.prems(1,2) sub by (auto simp: subset_iff)
  then show ?case using u(2) l(2) Suc.prems(1) by (simp add: take_Suc_conv_app_nth)
qed simp

lemma module_unload_all_effect:
  assumes "module_ok mgr" and "module_unload_all mgr = (mgr', ev)"
  shows "module_ok mgr' \<and> loaded mgr' = [] \<and> opened ev = {#} \<and> closed ev = mset (map handle_path (loaded mgr))"
proof -
  obtain ms where u: "unload_from (mm_count mgr) (mm_modules mgr) = (ms, ev)" and m: "mgr' = \<lparr>mm_modules = ms, mm_count = 0\<rparr>"
    using assms(2) by (auto simp: module_unload_all_def split: prod.splits)
  show ?thesis using unload_from_effect [OF _ _ u] assms(1) m by (auto simp: module_ok_def loaded_def)
qed

lemma distinct_submset: "mset ys \<subseteq># mset xs \<Longrightarrow> distinct xs \<Longrightarrow> distinct ys"
  by (metis distinct_append ex_mset mset_append mset_eq_imp_distinct_iff subset_mset.le_iff_add)

subsection \<open>Properties\<close>

text \<open>The states reached by loading modules with names that fit their field, unloading one or all.\<close>

inductive module_step :: "module_manager \<times> dl_event list \<Rightarrow> module_manager \<times> dl_event list \<Rightarrow> bool" where
  load: "module_load dl name path mgr = (r, mgr', ev) \<Longrightarrow> length name \<le> 63 \<Longrightarrow> module_step (mgr, tr) (mgr', tr @ ev)"
| unload: "module_unload name mgr = (r, mgr', ev) \<Longrightarrow> module_step (mgr, tr) (mgr', tr @ ev)"
| unload_all: "module_unload_all mgr = (mgr', ev) \<Longrightarrow> module_step (mgr, tr) (mgr', tr @ ev)"

definition module_inv :: "module_manager \<times> dl_event list \<Rightarrow> bool" where
  "module_inv s \<longleftrightarrow> (case s of (mgr, tr) \<Rightarrow> module_ok mgr \<and> distinct (map md_name (loaded mgr)) \<and>
     opened tr = closed tr + mset (map handle_path (loaded mgr)))"

lemma module_step_inv: "module_step s s' \<Longrightarrow> module_inv s \<Longrightarrow> module_inv s'"
proof (induction rule: module_step.induct)
  case (load dl name path mgr r mgr' ev tr)
  have ok: "module_ok mgr" "distinct (map md_name (loaded mgr))" "opened tr = closed tr + mset (map handle_path (loaded mgr))"
    using load(3) by (auto simp: module_inv_def)
  note e = module_load_effect [OF ok(1) load(1)]
  have "distinct (map md_name (loaded mgr'))"
    using e ok(2) load(2) by (cases "r = 0") auto
  then show ?case using e ok by (auto simp: module_inv_def)
next
  case (unload name mgr r mgr' ev tr)
  have ok: "module_ok mgr" "distinct (map md_name (loaded mgr))" "opened tr = closed tr + mset (map handle_path (loaded mgr))"
    using unload(2) by (auto simp: module_inv_def)
  note e = module_unload_effect [OF ok(1) unload(1)]
  have "mset (loaded mgr') \<subseteq># mset (loaded mgr)" using e by (cases "r = 0") auto
  then have "mset (map md_name (loaded mgr')) \<subseteq># mset (map md_name (loaded mgr))" by (simp add: image_mset_subseteq_mono)
  from distinct_submset [OF this ok(2)] show ?case using e ok by (simp add: module_inv_def)
next
  case (unload_all mgr mgr' ev tr)
  then show ?case using module_unload_all_effect [OF _ unload_all(1)] by (simp add: module_inv_def)
qed



text \<open>
  The name is cut to 63 characters when it is stored but compared in full: a longer name can be loaded
  twice, and neither can be found again under it.
\<close>

lemma long_name_twice:
  assumes "module_ok mgr" and "63 < length name" and "mm_count mgr < MAX_MODULES" and "dl path = Some so"
    and "so_init so = None \<or> so_init so = Some 0" and "\<forall>m \<in> set (loaded mgr). length (md_name m) \<le> 63"
  shows "fst (module_load dl name path mgr) = 0" and "fst (module_unload name mgr) = -1"
proof -
  have f: "find_module name (take (mm_count mgr) (mm_modules mgr)) = None"
  proof (rule ccontr)
    assume "find_module name (take (mm_count mgr) (mm_modules mgr)) \<noteq> None"
    then obtain i where "find_module name (loaded mgr) = Some i" by (auto simp: loaded_def)
    from find_module_Some [OF this] have "loaded mgr ! i \<in> set (loaded mgr)" "md_name (loaded mgr ! i) = name" by simp_all
    then show False using assms(2,6) by auto
  qed
  show "fst (module_load dl name path mgr) = 0" using f assms by (auto simp: module_load_def Let_def)
  show "fst (module_unload name mgr) = -1" using f by (simp add: module_unload_def)
qed

text \<open>A command is handled exactly when some loaded module's handler takes it, and no handler runs after that one.\<close>

lemma dispatch_handled:
  "fst (dispatch_loop fd cmd arg ms) = 1 \<longleftrightarrow>
     (\<exists>m \<in> set ms. md_loaded m \<and> (\<exists>p so h. md_handle m = Some (p, so) \<and> so_on_command so = Some h \<and> h fd cmd arg \<noteq> 0))"
proof (induction ms)
  case (Cons m ms)
  show ?case
  proof (cases "if md_loaded m then Option.bind (md_handle m) (\<lambda>(_, so). so_on_command so) else None")
    case None
    then have "\<not> (md_loaded m \<and> (\<exists>p so h. md_handle m = Some (p, so) \<and> so_on_command so = Some h \<and> h fd cmd arg \<noteq> 0))"
      by (auto split: if_splits option.splits prod.splits simp: bind_eq_None_conv)
    moreover have "dispatch_loop fd cmd arg (m # ms) = dispatch_loop fd cmd arg ms" using None by simp
    ultimately show ?thesis using Cons by auto
  next
    case (Some h)
    then have "md_loaded m" "\<exists>p so. md_handle m = Some (p, so) \<and> so_on_command so = Some h"
      by (auto split: if_splits option.splits prod.splits simp: bind_eq_Some_conv)
    then show ?thesis using Some Cons by (auto split: prod.splits)
  qed
qed simp

text \<open>The listing never fills its buffer.\<close>

lemma module_list_bound:
  assumes "0 < sz"
  shows "length (fst (module_list mgr sz)) < sz \<and> snd (module_list mgr sz) \<le> length (fst (module_list mgr sz))"
proof -
  have "length acc < sz \<Longrightarrow> length (fst (list_loop sz ms acc)) < sz \<and> snd (list_loop sz ms acc) \<le> length (fst (list_loop sz ms acc))" for ms acc
    by (induction ms arbitrary: acc) auto
  then show ?thesis using assms by (simp add: module_list_def)
qed

end
