(* ===== verification/Fs_Watch.thy ===== *)
theory Fs_Watch
  imports Fs_Protocol Resources
begin

unbundle bit_operations_syntax

text \<open>
  Watching a directory (\<open>linux-file-server/src/file_watch.c\<close>): the walk over the buffer of \<open>inotify\<close> events,
  the thread that waits on the event queue and on a pipe that ends it, start and stop. A read before the
  end of the buffer's valid part that leaves it is \<^const>\<open>None\<close>.
\<close>

subsection \<open>Events\<close>

text \<open>\<open>struct inotify_event\<close>: watch, mask, cookie, length and the name, padded with \<open>NUL\<close>.\<close>

record inotify_event =
  ie_wd :: "32 word"
  ie_mask :: "32 word"
  ie_cookie :: "32 word"
  ie_name :: bytes

definition encode_event :: "inotify_event \<Rightarrow> bytes" where
  "encode_event e = u32 (ie_wd e) @ u32 (ie_mask e) @ u32 (ie_cookie e) @ u32 (word_of_nat (length (ie_name e))) @ ie_name e"

text \<open>
  The inner loop of \<open>watch_thread\<close>: the calls of the callback, with name and mask. \<open>sizeof(struct
  inotify_event)\<close> is 16.
\<close>

function watch_dispatch :: "bytes \<Rightarrow> (string \<times> 32 word) list option" where
  "watch_dispatch b =
     (if b = [] then Some []
      else if length b < 16 then None
      else let len = unat (get_u32 (take 4 (drop 12 b))); rest = watch_dispatch (drop (16 + len) b) in
        if len = 0 then rest
        else case array_str (take len (drop 16 b)) of
          None \<Rightarrow> None
        | Some name \<Rightarrow> map_option (\<lambda>cs. (name, get_u32 (take 4 (drop 4 b))) # cs) rest)"
  by pat_completeness auto
termination by (relation "measure length") auto

declare watch_dispatch.simps [simp del]

subsection \<open>The thread\<close>

text \<open>
  What one \<open>poll\<close> reports: interrupted, failed, or ready, with whether the stop pipe is readable and what
  \<open>read\<close> delivers from the event queue (\<^const>\<open>None\<close>: not readable; \<open>Some None\<close>: nothing or an error).
\<close>

datatype poll_result = PollIntr | PollErr | PollReady bool "bytes option option"

fun watch_thread :: "(bool \<times> poll_result) list \<Rightarrow> (string \<times> 32 word) list option" where
  "watch_thread [] = Some []"
| "watch_thread ((running, p) # ps) =
     (if \<not> running then Some []
      else case p of
        PollIntr \<Rightarrow> watch_thread ps
      | PollErr \<Rightarrow> Some []
      | PollReady stop data \<Rightarrow>
        if stop then Some []
        else (case data of
          None \<Rightarrow> watch_thread ps
        | Some None \<Rightarrow> Some []
        | Some (Some b) \<Rightarrow> (case watch_dispatch b of None \<Rightarrow> None
            | Some cs \<Rightarrow> map_option (\<lambda>ds. cs @ ds) (watch_thread ps))))"

subsection \<open>Start and stop\<close>

datatype watch_res = WMem | WInotify | WPipeRead | WPipeWrite | WThread

record watch_ok =
  wk_alloc :: bool
  wk_inotify :: bool
  wk_add :: bool
  wk_pipe :: bool
  wk_thread :: bool

text \<open>\<open>dir\<close> and the callback are not null when the flag \<open>args\<close> is set; the result is the stored directory.\<close>

definition file_watch_start :: "bool \<Rightarrow> watch_ok \<Rightarrow> string \<Rightarrow> string option \<times> watch_res res_event list" where
  "file_watch_start args ok dir =
     (if \<not> args \<or> \<not> wk_alloc ok then (None, [])
      else if \<not> wk_inotify ok then (None, [Acquire WMem, Release WMem])
      else if \<not> wk_add ok then (None, [Acquire WMem, Acquire WInotify, Release WInotify, Release WMem])
      else if \<not> wk_pipe ok then (None, [Acquire WMem, Acquire WInotify, Release WInotify, Release WMem])
      else if \<not> wk_thread ok then
        (None, [Acquire WMem, Acquire WInotify, Acquire WPipeRead, Acquire WPipeWrite,
                Release WPipeRead, Release WPipeWrite, Release WInotify, Release WMem])
      else (Some (strncpy0 255 dir), [Acquire WMem, Acquire WInotify, Acquire WPipeRead, Acquire WPipeWrite, Acquire WThread]))"

definition file_watch_stop :: "watch_res res_event list" where
  "file_watch_stop = [Release WThread, Release WPipeRead, Release WPipeWrite, Release WInotify, Release WMem]"

definition file_watch_event_name :: "32 word \<Rightarrow> string" where
  "file_watch_event_name m =
     (if m AND 0x100 \<noteq> 0 then ''CREATE''
      else if m AND 0x200 \<noteq> 0 then ''DELETE''
      else if m AND 0x2 \<noteq> 0 then ''MODIFY''
      else if m AND 0x80 \<noteq> 0 then ''MOVED_TO''
      else if m AND 0x40 \<noteq> 0 then ''MOVED_FROM''
      else if m AND 0x4 \<noteq> 0 then ''ATTRIB''
      else if m AND 0x8 \<noteq> 0 then ''CLOSE_WRITE''
      else if m AND 0x10 \<noteq> 0 then ''CLOSE_NOWRITE''
      else if m AND 0x20 \<noteq> 0 then ''OPEN''
      else ''UNKNOWN'')"

subsection \<open>Properties\<close>

text \<open>The kernel terminates a name with at least one \<open>NUL\<close>.\<close>

definition event_ok :: "inotify_event \<Rightarrow> bool" where
  "event_ok e \<longleftrightarrow> length (ie_name e) < 2 ^ 32 \<and> (ie_name e = [] \<or> NUL \<in> set (ie_name e))"

definition callbacks :: "inotify_event list \<Rightarrow> (string \<times> 32 word) list" where
  "callbacks es = map (\<lambda>e. (cstr (ie_name e), ie_mask e)) (filter (\<lambda>e. ie_name e \<noteq> []) es)"

lemma watch_dispatch_step:
  assumes "event_ok e"
  shows "watch_dispatch (encode_event e @ b) = map_option (\<lambda>cs. callbacks [e] @ cs) (watch_dispatch b)"
proof -
  let ?b = "encode_event e @ b"
  have len: "unat (get_u32 (take 4 (drop 12 ?b))) = length (ie_name e)"
    using assms by (simp add: encode_event_def event_ok_def unat_of_nat)
  have parts: "drop (16 + length (ie_name e)) ?b = b" "take (length (ie_name e)) (drop 16 ?b) = ie_name e"
    "get_u32 (take 4 (drop 4 ?b)) = ie_mask e" "16 \<le> length ?b"
    by (simp_all add: encode_event_def)
  have "?b \<noteq> []" by (rule notI) (use parts(4) in simp)
  moreover have "array_str (ie_name e) = Some (cstr (ie_name e))" if "ie_name e \<noteq> []"
    using assms that by (simp add: event_ok_def array_str_def)
  ultimately show ?thesis
    unfolding watch_dispatch.simps [of ?b] Let_def len parts(1-3)
    using parts(4) by (cases "ie_name e = []") (auto simp: callbacks_def option.map_ident)
qed

lemma watch_dispatch_all:
  "list_all event_ok es \<Longrightarrow> watch_dispatch (concat (map encode_event es)) = Some (callbacks es)"
proof (induction es)
  case Nil
  then show ?case by (simp add: watch_dispatch.simps callbacks_def)
next
  case (Cons e es)
  then show ?case using watch_dispatch_step [of e "concat (map encode_event es)"] by (simp add: callbacks_def)
qed

text \<open>
  C28. Every event of a watched directory that has a name reaches the callback, in order, with its name and
  mask, however the kernel groups the events into reads and however often waiting is interrupted, until the
  stop pipe becomes readable, after which nothing is reported.
\<close>

theorem watch_complete:
  assumes "list_all (\<lambda>(n, es). list_all event_ok es) polls"
  shows "watch_thread (concat (map (\<lambda>(n, es). replicate n (True, PollIntr) @ [(True, PollReady False (Some (Some (concat (map encode_event es)))))]) polls)
     @ [(True, PollReady True data)] @ later) = Some (callbacks (concat (map snd polls)))"
  using assms
proof (induction polls)
  case (Cons p polls)
  obtain n es where p: "p = (n, es)" by (cases p)
  have "watch_thread (replicate n (True, PollIntr) @ r) = watch_thread r" for r by (induction n) auto
  then show ?case using Cons p watch_dispatch_all [of es] by (simp add: callbacks_def)
qed (simp add: callbacks_def)

lemma watch_complete_witness:
  "watch_thread ([(True, PollIntr), (True, PollReady False (Some (Some (encode_event \<lparr>ie_wd = 1, ie_mask = 0x100, ie_cookie = 0, ie_name = ''a'' @ [NUL, NUL]\<rparr>))))]
     @ [(True, PollReady True None)]) = Some [(''a'', 0x100)]"
  using watch_complete [of "[(1, [\<lparr>ie_wd = 1, ie_mask = 0x100, ie_cookie = 0, ie_name = ''a'' @ [NUL, NUL]\<rparr>])]" None "[]"]
  by (simp add: event_ok_def callbacks_def cstr_def)

text \<open>A failed start holds nothing; a started watch gives back all of it when it is stopped.\<close>

lemma file_watch_no_leak:
  "file_watch_start args ok dir = (r, tr) \<Longrightarrow>
     (r = None \<longrightarrow> held tr = Some []) \<and> (r \<noteq> None \<longrightarrow> held (tr @ file_watch_stop) = Some [])"
  by (auto simp: file_watch_start_def file_watch_stop_def split: if_splits)

end
