(* ===== verification/Fs_Process.thy ===== *)
theory Fs_Process
  imports C_Stdio "HOL-Library.Multiset"
begin

text \<open>
  The process pool of the file server (\<open>linux-file-server/src/process_pool.c\<close>) and the statistics its workers
  share (\<open>shm_ipc.c\<close>). What \<open>fork\<close> returns in the parent, call by call, is a script; the events are the
  children started, the signals sent and the children waited for.
\<close>

subsection \<open>Shared statistics\<close>

record shm_stats =
  sh_client_count :: int
  sh_total_requests :: int
  sh_total_bytes_sent :: "64 word"
  sh_total_bytes_recv :: "64 word"

definition shm_zero :: shm_stats where
  "shm_zero = \<lparr>sh_client_count = 0, sh_total_requests = 0, sh_total_bytes_sent = 0, sh_total_bytes_recv = 0\<rparr>"

text \<open>The segments by name. \<open>shm_create\<close> resets a segment that exists already.\<close>

type_synonym shm_store = "string \<Rightarrow> shm_stats option"

definition shm_create :: "bool \<Rightarrow> bool \<Rightarrow> bool \<Rightarrow> string \<Rightarrow> shm_store \<Rightarrow> bool \<times> shm_store" where
  "shm_create open_ok truncate_ok map_ok name st =
     (if \<not> open_ok then (False, st)
      else if \<not> truncate_ok \<or> \<not> map_ok then (False, st(name := None))
      else (True, st(name \<mapsto> shm_zero)))"

definition shm_open_existing :: "bool \<Rightarrow> string \<Rightarrow> shm_store \<Rightarrow> shm_stats option" where
  "shm_open_existing map_ok name st = (if map_ok then st name else None)"

definition shm_cleanup :: "string \<Rightarrow> shm_store \<Rightarrow> shm_store" where
  "shm_cleanup name st = st(name := None)"

definition shm_inc_clients :: "shm_stats \<Rightarrow> shm_stats" where
  "shm_inc_clients s = s\<lparr>sh_client_count := sh_client_count s + 1\<rparr>"

definition shm_dec_clients :: "shm_stats \<Rightarrow> shm_stats" where
  "shm_dec_clients s = s\<lparr>sh_client_count := sh_client_count s - 1\<rparr>"

definition shm_add_bytes :: "64 word \<Rightarrow> 64 word \<Rightarrow> shm_stats \<Rightarrow> shm_stats" where
  "shm_add_bytes sent recv s = s\<lparr>sh_total_bytes_sent := sh_total_bytes_sent s + sent,
     sh_total_bytes_recv := sh_total_bytes_recv s + recv\<rparr>"

definition shm_inc_requests :: "shm_stats \<Rightarrow> shm_stats" where
  "shm_inc_requests s = s\<lparr>sh_total_requests := sh_total_requests s + 1\<rparr>"

definition shm_get_stats :: "shm_stats \<Rightarrow> int \<times> int \<times> 64 word \<times> 64 word" where
  "shm_get_stats s = (sh_client_count s, sh_total_requests s, sh_total_bytes_sent s, sh_total_bytes_recv s)"

text \<open>
  Each update runs under the write lock, so a run of several processes is a sequence of updates in some
  order. The totals depend only on which updates happened, not on their order.
\<close>

datatype shm_op = IncClients | DecClients | AddBytes "64 word" "64 word" | IncRequests

fun shm_apply :: "shm_op \<Rightarrow> shm_stats \<Rightarrow> shm_stats" where
  "shm_apply IncClients = shm_inc_clients"
| "shm_apply DecClients = shm_dec_clients"
| "shm_apply (AddBytes a b) = shm_add_bytes a b"
| "shm_apply IncRequests = shm_inc_requests"

lemmas shm_op_defs = shm_inc_clients_def shm_dec_clients_def shm_add_bytes_def shm_inc_requests_def

lemma shm_apply_commute: "shm_apply x \<circ> shm_apply y = shm_apply y \<circ> shm_apply x"
  by (cases x; cases y) (auto simp: fun_eq_iff shm_op_defs add_ac)

lemma shm_order_irrelevant: "mset xs = mset ys \<Longrightarrow> fold shm_apply xs s = fold shm_apply ys s"
  using fold_multiset_equiv [of xs shm_apply ys] shm_apply_commute by metis

subsection \<open>Processes\<close>

datatype proc_event = Forked int | Killed int | Waited int

text \<open>The loop of \<open>process_pool_create\<close>; past the end of the script every \<open>fork\<close> fails.\<close>

fun fork_loop :: "nat \<Rightarrow> int list \<Rightarrow> int list \<Rightarrow> int list option \<times> proc_event list" where
  "fork_loop 0 rs pids = (Some pids, [])"
| "fork_loop (Suc k) [] pids = (None, map Killed pids @ map Waited pids)"
| "fork_loop (Suc k) (r # rs) pids =
     (if r < 0 then (None, map Killed pids @ map Waited pids)
      else case fork_loop k rs (pids @ [r]) of (res, ev) \<Rightarrow> (res, Forked r # ev))"

definition process_pool_create :: "bool \<Rightarrow> bool \<Rightarrow> int \<Rightarrow> int list \<Rightarrow> int list option \<times> proc_event list" where
  "process_pool_create pool_ok pids_ok n forks =
     (if n \<le> 0 \<or> \<not> pool_ok \<or> \<not> pids_ok then (None, []) else fork_loop (nat n) forks [])"

definition process_pool_wait :: "int list \<Rightarrow> int list \<times> proc_event list" where
  "process_pool_wait pids = (map (\<lambda>p. if 0 < p then 0 else p) pids, map Waited (filter (\<lambda>p. 0 < p) pids))"

definition process_pool_destroy :: "int list option \<Rightarrow> proc_event list" where
  "process_pool_destroy pool = (case pool of None \<Rightarrow> []
     | Some pids \<Rightarrow> map Killed (filter (\<lambda>p. 0 < p) pids) @ snd (process_pool_wait pids))"

fun forked :: "proc_event list \<Rightarrow> int list" where
  "forked [] = []"
| "forked (Forked p # es) = p # forked es"
| "forked (_ # es) = forked es"

fun waited :: "proc_event list \<Rightarrow> int list" where
  "waited [] = []"
| "waited (Waited p # es) = p # waited es"
| "waited (_ # es) = waited es"

fun killed :: "proc_event list \<Rightarrow> int list" where
  "killed [] = []"
| "killed (Killed p # es) = p # killed es"
| "killed (_ # es) = killed es"

lemma proc_events_append [simp]:
  "forked (a @ b) = forked a @ forked b" "waited (a @ b) = waited a @ waited b" "killed (a @ b) = killed a @ killed b"
  by (induction a rule: forked.induct) simp_all

lemma proc_events_map [simp]:
  "forked (map Killed ps) = []" "forked (map Waited ps) = []" "waited (map Killed ps) = []" "waited (map Waited ps) = ps"
  "killed (map Killed ps) = ps" "killed (map Waited ps) = []"
  by (induction ps) simp_all

lemma fork_loop_effect:
  "fork_loop k rs pids = (res, ev) \<Longrightarrow>
   (case res of
      Some ps \<Rightarrow> ps = pids @ forked ev \<and> length (forked ev) = k \<and> waited ev = [] \<and> killed ev = []
    | None \<Rightarrow> waited ev = pids @ forked ev \<and> killed ev = pids @ forked ev)"
proof (induction k rs pids arbitrary: res ev rule: fork_loop.induct)
  case (3 k r rs pids)
  show ?case
  proof (cases "r < 0")
    case False
    then obtain ev' where "fork_loop k rs (pids @ [r]) = (res, ev')" "ev = Forked r # ev'"
      using 3(2) by (auto split: prod.splits)
    then show ?thesis using 3(1) [OF False, of res ev'] by (auto split: option.splits)
  qed (use 3(2) in auto)
qed auto

text \<open>
  No child outlives its pool: a pool has the requested number of children; when a \<open>fork\<close> fails, every child
  started so far is signalled and waited for, and no pool is returned; destroying a pool signals and waits
  for each of its children exactly once.
\<close>

lemma process_pool_reaps:
  assumes "process_pool_create pool_ok pids_ok n forks = (pool, ev)" and "\<forall>r \<in> set forks. r \<noteq> 0"
  shows "(case pool of Some ps \<Rightarrow> ps = forked ev \<and> int (length ps) = n | None \<Rightarrow> waited ev = forked ev \<and> killed ev = forked ev) \<and>
    waited (ev @ process_pool_destroy pool) = forked (ev @ process_pool_destroy pool) \<and>
    killed (ev @ process_pool_destroy pool) = forked (ev @ process_pool_destroy pool)"
proof (cases "n \<le> 0 \<or> \<not> pool_ok \<or> \<not> pids_ok")
  case True
  then show ?thesis using assms(1) by (auto simp: process_pool_create_def process_pool_destroy_def)
next
  case False
  then have f: "fork_loop (nat n) forks [] = (pool, ev)" using assms(1) by (simp add: process_pool_create_def)
  have pos: "\<forall>r \<in> set forks. r \<noteq> 0 \<Longrightarrow> fork_loop k forks pids = (pool, ev) \<Longrightarrow> \<forall>p \<in> set (forked ev). 0 < p" for k pids pool ev
    by (induction k forks pids arbitrary: ev rule: fork_loop.induct) (auto split: if_splits prod.splits)
  have "filter (\<lambda>p. 0 < p) (forked ev) = forked ev" using pos [OF assms(2) f] by simp
  then show ?thesis using fork_loop_effect [OF f] False
    by (auto simp: process_pool_destroy_def process_pool_wait_def split: option.splits)
qed

lemma process_pool_reaps_witness:
  "process_pool_create True True 3 [10, 11, -1] = (None, [Forked 10, Forked 11, Killed 10, Killed 11, Waited 10, Waited 11]) \<and>
   waited [Forked 10, Forked 11, Killed 10, Killed 11, Waited 10, Waited 11] = [10, 11]"
proof -
  have e: "process_pool_create True True 3 [10, 11, -1] = (None, [Forked 10, Forked 11, Killed 10, Killed 11, Waited 10, Waited 11])"
    by (simp add: process_pool_create_def numeral_eq_Suc)
  show ?thesis using process_pool_reaps [OF e] e by simp
qed

end
