(* ===== verification/Fs_Http.thy ===== *)
theory Fs_Http
  imports Fs_Server Fs_Process
begin

text \<open>
  The administration page of the file server (\<open>linux-file-server/src/http_server.c\<close>): the request parser, the
  replies, the three JSON documents, the routes, start and stop. \<open>ADMIN_HTML\<close>, a generated page, is a
  parameter.
\<close>

subsection \<open>Requests\<close>

record admin_request =
  aq_method :: string
  aq_path :: string
  aq_host :: string
  aq_content_length :: int
  aq_body :: "string option"

definition no_request :: admin_request where
  "no_request = \<lparr>aq_method = [], aq_path = [], aq_host = [], aq_content_length = 0, aq_body = None\<rparr>"

definition methods :: "string list" where
  "methods = [''GET'', ''POST'', ''HEAD'', ''PUT'', ''DELETE'']"

text \<open>One header line: \<open>pos\<close> is the rest of the buffer from its start, \<open>line\<close> the bytes before its line end.\<close>

definition host_value :: "bytes \<Rightarrow> string" where
  "host_value line =
     (let v = dropWhile (\<lambda>c. c = CHR '' '') (drop 5 line);
          w = (if v \<noteq> [] \<and> last v = CR then butlast v else v)
      in cstr (take 127 w))"

definition admin_header :: "bytes \<Rightarrow> bytes \<Rightarrow> admin_request \<Rightarrow> admin_request" where
  "admin_header pos line q =
     (let q1 = (if strncaseeq 5 (cstr pos) ''Host:'' then q\<lparr>aq_host := host_value line\<rparr> else q)
      in if strncaseeq 15 (cstr pos) ''Content-Length:'' then q1\<lparr>aq_content_length := atoi (cstr (drop 15 pos))\<rparr> else q1)"

text \<open>The loop over the lines: it ends without a line end and at a line of at most one character.\<close>

function admin_headers :: "bytes \<Rightarrow> admin_request \<Rightarrow> admin_request" where
  "admin_headers pos q =
     (let line = takeWhile (\<lambda>c. c \<noteq> LF) pos in
      if LF \<notin> set pos \<or> length line \<le> 1 then q
      else admin_headers (drop (Suc (length line)) pos) (admin_header pos line q))"
  by pat_completeness auto
termination by (relation "measure (\<lambda>(pos, q). length pos)") (auto intro!: diff_less simp: length_pos_if_in_set)

declare admin_headers.simps [simp del]

definition admin_body :: "bytes \<Rightarrow> string option" where
  "admin_body buf = (case strstr (cstr buf) (CRLF @ CRLF) of
     None \<Rightarrow> None
   | Some k \<Rightarrow> if drop (k + 4) (cstr buf) = [] then None else Some (drop (k + 4) (cstr buf)))"

definition parse_request_from_buf :: "bytes \<Rightarrow> admin_request option" where
  "parse_request_from_buf buf =
     (if LF \<notin> set buf then None
      else case scan_s 7 (cstr buf) of
        None \<Rightarrow> None
      | Some (m, r) \<Rightarrow> (case scan_s 255 r of
          None \<Rightarrow> None
        | Some (p, _) \<Rightarrow>
          if m \<notin> set methods then None
          else Some ((admin_headers (drop (Suc (length (takeWhile (\<lambda>c. c \<noteq> LF) buf))) buf)
                 (no_request\<lparr>aq_method := m, aq_path := p\<rparr>))\<lparr>aq_body := admin_body buf\<rparr>)))"

definition http_parse_request :: "nat \<Rightarrow> conn \<Rightarrow> admin_request option \<times> conn" where
  "http_parse_request buf_size s =
     (case sock_recv (buf_size - 1) s of (b, s') \<Rightarrow> (if b = [] then None else parse_request_from_buf b, s'))"

subsection \<open>Replies\<close>

definition reply_text :: "int \<Rightarrow> string" where
  "reply_text st = (if st = 200 then ''OK'' else if st = 400 then ''Bad Request'' else if st = 404 then ''Not Found''
     else if st = 500 then ''Internal Server Error'' else ''OK'')"

definition reply_header :: "int \<Rightarrow> string \<Rightarrow> nat \<Rightarrow> string" where
  "reply_header st ctype len = ''HTTP/1.1 '' @ dec_int st @ '' '' @ reply_text st @ CRLF @ ''Content-Type: '' @ ctype @ CRLF
     @ ''Content-Length: '' @ dec_nat len @ CRLF @ ''Connection: close'' @ CRLF @ CRLF"

definition http_send_response :: "int \<Rightarrow> string \<Rightarrow> string option \<Rightarrow> conn \<Rightarrow> int \<times> conn" where
  "http_send_response st ctype body s =
     (let b = (case body of None \<Rightarrow> [] | Some x \<Rightarrow> x); h = reply_header st ctype (length b) in
      if 512 \<le> length h then (-1, s)
      else case conn_send_all h s of (r, s1) \<Rightarrow>
        if r \<noteq> 0 then (-1, s1) else if b = [] then (0, s1) else conn_send_all b s1)"

definition http_send_json :: "int \<Rightarrow> string option \<Rightarrow> conn \<Rightarrow> int \<times> conn" where
  "http_send_json st json s = http_send_response st (strncpy0 63 ''application/json'') json s"

definition http_send_html :: "int \<Rightarrow> string option \<Rightarrow> conn \<Rightarrow> int \<times> conn" where
  "http_send_html st html s = http_send_response st (strncpy0 63 ''text/html'') html s"

subsection \<open>Documents\<close>

abbreviation DQ :: char where "DQ \<equiv> CHR 0x22"

definition json_key :: "string \<Rightarrow> string" where
  "json_key k = [DQ] @ k @ [DQ] @ '':''"

text \<open>\<open>shm\<close> is the shared segment if it can be opened, \<open>ctx\<close> the server context.\<close>

definition build_stats_json :: "nat \<Rightarrow> shm_stats option \<Rightarrow> server_context option \<Rightarrow> string" where
  "build_stats_json sz shm ctx =
     (let (cc, tr, bs, br) = (case shm of Some st \<Rightarrow> shm_get_stats st
          | None \<Rightarrow> (case ctx of Some c \<Rightarrow> (srv_client_count c, 0, 0, 0) | None \<Rightarrow> (0, 0, 0, 0)))
      in take (sz - 1) (''{'' @ json_key ''client_count'' @ dec_int cc @ '','' @ json_key ''total_requests'' @ dec_int tr @ '',''
           @ json_key ''total_bytes_sent'' @ dec_nat (unat bs) @ '','' @ json_key ''total_bytes_recv'' @ dec_nat (unat br) @ ''}''))"

definition file_json :: "string \<Rightarrow> nat \<Rightarrow> string" where
  "file_json name sz = ''{'' @ json_key ''name'' @ [DQ] @ name @ [DQ] @ '','' @ json_key ''size'' @ dec_nat sz @ ''}''"

definition listed_json :: "path \<Rightarrow> disk \<Rightarrow> string \<Rightarrow> string option" where
  "listed_json dir d name =
     (if take 1 name = ''.'' then None
      else case dfiles d (take 511 (dir @ ''/'' @ name)) of None \<Rightarrow> None | Some c \<Rightarrow> Some (file_json name (length c)))"

text \<open>
  The loop over the entries: a piece that does not fit ends it, and \<open>offset\<close> is not moved past that piece.
  The text so far is what stands before \<open>offset\<close>.
\<close>

fun files_loop :: "nat \<Rightarrow> bool \<Rightarrow> string \<Rightarrow> string list \<Rightarrow> string" where
  "files_loop sz first p [] = p"
| "files_loop sz first p (e # es) =
     (if \<not> first \<and> sz \<le> length p + 1 then p
      else let p1 = (if first then p else p @ '','') in
        if sz \<le> length p1 + length e then p1 else files_loop sz False (p1 @ e) es)"

definition files_open :: string where
  "files_open = ''{'' @ json_key ''files'' @ ''[''"

definition build_files_json :: "nat \<Rightarrow> os_env \<Rightarrow> disk \<Rightarrow> path \<Rightarrow> string" where
  "build_files_json sz e d dir =
     (if sz \<le> length files_open then take (sz - 1) files_open
      else let p = (case os_readdir e d dir of None \<Rightarrow> files_open
             | Some names \<Rightarrow> files_loop sz True files_open (List.map_filter (listed_json dir d) names))
        in p @ take (sz - length p - 1) '']}'')"

definition build_config_json :: "nat \<Rightarrow> server_context option \<Rightarrow> string" where
  "build_config_json sz ctx = take (sz - 1)
     (case ctx of None \<Rightarrow> ''{}''
      | Some c \<Rightarrow> (let g = srv_config c in
          ''{'' @ json_key ''port'' @ dec_int (cfg_port g) @ '','' @ json_key ''threads'' @ dec_int (cfg_thread_num g) @ '',''
          @ json_key ''max_clients'' @ dec_int (cfg_max_clients g) @ '','' @ json_key ''buffer_size'' @ dec_int (cfg_buffer_size g)
          @ '','' @ json_key ''shared_dir'' @ [DQ] @ cfg_shared_dir g @ [DQ] @ '','' @ json_key ''ssl_enabled'' @ dec_int (cfg_ssl_enabled g) @ ''}''))"

subsection \<open>Routes\<close>

record admin_env =
  ae_html :: string
  ae_shm :: "shm_stats option"
  ae_os :: os_env
  ae_disk :: disk

text \<open>What \<open>handle_http_connection\<close> sends for a request, as a call of \<open>http_send_html\<close> or \<open>http_send_json\<close>.\<close>

definition error_json :: "string \<Rightarrow> string" where
  "error_json msg = ''{'' @ json_key ''error'' @ [DQ] @ msg @ [DQ] @ ''}''"

definition admin_route :: "admin_env \<Rightarrow> server_context option \<Rightarrow> admin_request \<Rightarrow> conn \<Rightarrow> int \<times> conn" where
  "admin_route e ctx q =
     (if aq_method q = ''GET'' \<and> aq_path q = ''/'' then http_send_html 200 (Some (ae_html e))
      else if aq_method q = ''GET'' \<and> aq_path q = ''/api/stats'' then http_send_json 200 (Some (build_stats_json 256 (ae_shm e) ctx))
      else if aq_method q = ''GET'' \<and> aq_path q = ''/api/files'' then
        http_send_json 200 (Some (build_files_json 8192 (ae_os e) (ae_disk e)
          (case ctx of None \<Rightarrow> ''./shared'' | Some c \<Rightarrow> cfg_shared_dir (srv_config c))))
      else if aq_method q = ''GET'' \<and> aq_path q = ''/api/config'' then http_send_json 200 (Some (build_config_json 512 ctx))
      else http_send_json 404 (Some (error_json ''Not found'')))"

text \<open>The connection is closed on every path; the flag says that it was.\<close>

definition handle_http_connection :: "admin_env \<Rightarrow> server_context option \<Rightarrow> conn \<Rightarrow> bool \<times> conn" where
  "handle_http_connection e ctx s =
     (case http_parse_request 4096 s of
        (None, s1) \<Rightarrow> (True, snd (http_send_json 400 (Some (error_json ''Bad request'')) s1))
      | (Some q, s1) \<Rightarrow> (True, snd (admin_route e ctx q s1)))"

text \<open>
  The accept loop: whether \<open>running\<close> is set at each turn and the connection, if \<open>accept\<close> delivers one. The
  result lists the connections after they were served.
\<close>

fun http_server_thread :: "admin_env \<Rightarrow> server_context option \<Rightarrow> (bool \<times> conn option) list \<Rightarrow> (bool \<times> conn) list" where
  "http_server_thread e ctx [] = []"
| "http_server_thread e ctx ((running, a) # as) =
     (if \<not> running then []
      else case a of
        None \<Rightarrow> http_server_thread e ctx as
      | Some s \<Rightarrow> handle_http_connection e ctx s # http_server_thread e ctx as)"

datatype http_res = HMem | HListen | HThread

record http_ok =
  hk_alloc :: bool
  hk_socket :: bool
  hk_bind :: bool
  hk_listen :: bool
  hk_thread :: bool

definition http_server_start :: "http_ok \<Rightarrow> bool \<times> http_res res_event list" where
  "http_server_start ok =
     (if \<not> hk_alloc ok then (False, [])
      else if \<not> hk_socket ok then (False, [Acquire HMem, Release HMem])
      else if \<not> hk_bind ok \<or> \<not> hk_listen ok \<or> \<not> hk_thread ok
      then (False, [Acquire HMem, Acquire HListen, Release HListen, Release HMem])
      else (True, [Acquire HMem, Acquire HListen, Acquire HThread]))"

definition http_server_stop :: "http_res res_event list" where
  "http_server_stop = [Release HListen, Release HThread, Release HMem]"

subsection \<open>Properties of the parser\<close>

lemma admin_headers_end: "LF \<notin> set pos \<or> length (takeWhile (\<lambda>c. c \<noteq> LF) pos) \<le> 1 \<Longrightarrow> admin_headers pos q = q"
  by (subst admin_headers.simps) (simp add: Let_def)

lemma takeWhile_line: "LF \<notin> set a \<Longrightarrow> takeWhile (\<lambda>c. c \<noteq> LF) (a @ LF # b) = a"
  by (induction a) auto

lemma admin_headers_line:
  assumes "LF \<notin> set a" and "1 < length a"
  shows "admin_headers (a @ LF # b) q = admin_headers b (admin_header (a @ LF # b) a q)"
  using assms by (subst admin_headers.simps) (simp add: Let_def takeWhile_line)

definition is_int32 :: "int \<Rightarrow> bool" where
  "is_int32 i \<longleftrightarrow> - (2 ^ 31) \<le> i \<and> i < 2 ^ 31"

text \<open>A parsed request: a known method of at most 7 characters, a path of at most 255, a host of at most 127.\<close>

lemma admin_headers_keeps:
  "aq_method (admin_headers pos q) = aq_method q \<and> aq_path (admin_headers pos q) = aq_path q \<and>
   (length (aq_host q) \<le> 127 \<longrightarrow> length (aq_host (admin_headers pos q)) \<le> 127) \<and>
   (is_int32 (aq_content_length q) \<longrightarrow> is_int32 (aq_content_length (admin_headers pos q)))"
proof (induction pos q rule: admin_headers.induct)
  case (1 pos q)
  let ?line = "takeWhile (\<lambda>c. c \<noteq> LF) pos"
  show ?case
  proof (cases "LF \<notin> set pos \<or> length ?line \<le> 1")
    case True
    then show ?thesis by (simp add: admin_headers_end)
  next
    case False
    have "length (host_value ?line) \<le> 127" using length_cstr by (fastforce simp: host_value_def Let_def intro: le_trans)
    then have "aq_method (admin_header pos ?line q) = aq_method q \<and> aq_path (admin_header pos ?line q) = aq_path q \<and>
        (length (aq_host q) \<le> 127 \<longrightarrow> length (aq_host (admin_header pos ?line q)) \<le> 127) \<and>
        (is_int32 (aq_content_length q) \<longrightarrow> is_int32 (aq_content_length (admin_header pos ?line q)))"
      using to_int32_range by (simp add: admin_header_def Let_def is_int32_def atoi_def)
    moreover have "admin_headers pos q = admin_headers (drop (Suc (length ?line)) pos) (admin_header pos ?line q)"
      using False by (subst admin_headers.simps) (auto simp: Let_def)
    ultimately show ?thesis using 1 [OF refl False] by simp
  qed
qed

text \<open>
  C25. Every request the parser accepts is within the fields of \<open>http_request_t\<close>: the method is one of the five
  known ones, the path has between 1 and 255 characters without white space, the host at most 127, and the
  length is a 32-bit integer.
\<close>

theorem admin_request_typed:
  assumes "parse_request_from_buf buf = Some q"
  shows "aq_method q \<in> set methods \<and> 0 < length (aq_path q) \<and> length (aq_path q) \<le> 255 \<and>
    (\<forall>c \<in> set (aq_path q). \<not> c_isspace c) \<and> length (aq_host q) \<le> 127 \<and> is_int32 (aq_content_length q) \<and> aq_body q \<noteq> Some []"
proof -
  obtain m r p r' where s: "scan_s 7 (cstr buf) = Some (m, r)" "scan_s 255 r = Some (p, r')" "m \<in> set methods"
    and q: "q = (admin_headers (drop (Suc (length (takeWhile (\<lambda>c. c \<noteq> LF) buf))) buf)
        (no_request\<lparr>aq_method := m, aq_path := p\<rparr>))\<lparr>aq_body := admin_body buf\<rparr>"
    using assms by (auto simp: parse_request_from_buf_def split: if_splits option.splits prod.splits)
  have "aq_body q \<noteq> Some []" using q by (auto simp: admin_body_def split: option.splits if_splits)
  then show ?thesis using q s scan_s_bound [OF s(2)] scan_s_nospace [OF s(2)]
      admin_headers_keeps [of "drop (Suc (length (takeWhile (\<lambda>c. c \<noteq> LF) buf))) buf" "no_request\<lparr>aq_method := m, aq_path := p\<rparr>"]
    by (simp add: no_request_def is_int32_def)
qed

lemma admin_request_typed_witness:
  "\<exists>q. parse_request_from_buf (''HEAD /x'' @ [LF]) = Some q \<and> aq_method q \<in> set methods \<and> is_int32 (aq_content_length q)"
proof -
  have "parse_request_from_buf (''HEAD /x'' @ [LF]) = Some (no_request\<lparr>aq_method := ''HEAD'', aq_path := ''/x''\<rparr>)"
    by (simp add: parse_request_from_buf_def cstr_def scan_s_def c_isspace_def methods_def admin_headers_end admin_body_def no_request_def Let_def)
  from this admin_request_typed [OF this] show ?thesis by blast
qed

subsection \<open>Properties of the replies\<close>

lemma dec_int_small: "is_int32 i \<Longrightarrow> length (dec_int i) \<le> 11"
proof -
  assume "is_int32 i"
  then have "nat (- i) < 10 ^ 10" "nat i < 10 ^ 10" by (auto simp: is_int32_def)
  then show ?thesis using dec_nat_length [of "nat (- i)" 10] dec_nat_length [of "nat i" 10] by (simp add: dec_int_def)
qed

text \<open>The statistics and the configuration always fit into their buffers.\<close>

lemma stats_json_whole:
  assumes "shm_get_stats st = (cc, tr, bs, br)" and "is_int32 cc" and "is_int32 tr"
  shows "build_stats_json 256 (Some st) ctx = ''{'' @ json_key ''client_count'' @ dec_int cc @ '','' @ json_key ''total_requests'' @ dec_int tr @ '',''
           @ json_key ''total_bytes_sent'' @ dec_nat (unat bs) @ '','' @ json_key ''total_bytes_recv'' @ dec_nat (unat br) @ ''}''"
proof -
  have w: "length (dec_nat (unat (w :: 64 word))) \<le> 20" for w
  proof -
    have "unat w < 2 ^ 64" using unsigned_less [of w] by simp
    then show ?thesis by (intro dec_nat_length) simp_all
  qed
  show ?thesis using assms dec_int_small [OF assms(2)] dec_int_small [OF assms(3)] w [of bs] w [of br]
    by (simp add: build_stats_json_def json_key_def)
qed

lemma config_json_whole:
  assumes "list_all is_int32 [cfg_port g, cfg_thread_num g, cfg_max_clients g, cfg_buffer_size g, cfg_ssl_enabled g]"
    and "length (cfg_shared_dir g) \<le> 255" and "srv_config c = g"
  shows "last (build_config_json 512 (Some c)) = CHR ''}'' \<and> length (build_config_json 512 (Some c)) < 512"
proof -
  have "length (dec_int (cfg_port g)) \<le> 11" "length (dec_int (cfg_thread_num g)) \<le> 11" "length (dec_int (cfg_max_clients g)) \<le> 11"
    "length (dec_int (cfg_buffer_size g)) \<le> 11" "length (dec_int (cfg_ssl_enabled g)) \<le> 11"
    using assms(1) dec_int_small by simp_all
  then show ?thesis using assms(2,3) by (simp add: build_config_json_def json_key_def Let_def)
qed

definition comma_list :: "string list \<Rightarrow> string" where
  "comma_list es = (case es of [] \<Rightarrow> [] | e # es' \<Rightarrow> e @ concat (map (\<lambda>x. CHR '','' # x) es'))"

lemma files_loop_rest:
  "length p + length (concat (map (\<lambda>x. CHR '','' # x) es)) < sz \<Longrightarrow> files_loop sz False p es = p @ concat (map (\<lambda>x. CHR '','' # x) es)"
  by (induction es arbitrary: p) (auto simp: Let_def)

lemma files_json_complete:
  assumes "os_readdir e d dir = Some names" and "es = List.map_filter (listed_json dir d) names"
    and "length (files_open @ comma_list es @ '']}'') < sz"
  shows "build_files_json sz e d dir = files_open @ comma_list es @ '']}''"
proof -
  have "files_loop sz True files_open es = files_open @ comma_list es"
  proof (cases es)
    case (Cons x xs)
    then show ?thesis using assms(3) files_loop_rest [of "files_open @ x" xs sz] by (simp add: comma_list_def Let_def)
  qed (simp add: comma_list_def)
  then show ?thesis using assms by (simp add: build_files_json_def Let_def)
qed

text \<open>An entry that does not fit after its comma leaves the comma behind, so the document is not JSON.\<close>

lemma files_json_comma:
  assumes "length p + 1 < sz" and "sz \<le> length p + 1 + length x"
  shows "files_loop sz False p (x # es) = p @ '',''"
  using assms by (simp add: Let_def)

lemma http_send_response_whole:
  assumes "live_conn w s" and "length (reply_header st ctype (length b)) < 512"
  shows "\<exists>s'. http_send_response st ctype (Some b) s = (0, s') \<and> outp s' = outp s @ reply_header st ctype (length b) @ b \<and> inp s' = inp s"
proof -
  obtain s1 where s1: "conn_send_all (reply_header st ctype (length b)) s = (0, s1)"
    "outp s1 = outp s @ reply_header st ctype (length b)" "inp s1 = inp s" "live_conn w s1"
    using conn_send_all_live [OF assms(1)] by blast
  then obtain s2 where "conn_send_all b s1 = (0, s2)" "outp s2 = outp s1 @ b" "inp s2 = inp s1"
    using conn_send_all_live [OF s1(4)] by blast
  then show ?thesis using s1 assms(2) by (auto simp: http_send_response_def Let_def)
qed

subsection \<open>From request to reply\<close>

definition get_request :: "string \<Rightarrow> string \<Rightarrow> bytes" where
  "get_request path host = ''GET '' @ path @ '' HTTP/1.1'' @ CRLF @ ''Host: '' @ host @ CRLF @ CRLF"

definition plain_path :: "string \<Rightarrow> bool" where
  "plain_path path \<longleftrightarrow> path \<noteq> [] \<and> length path \<le> 255 \<and> is_cstr path \<and> (\<forall>c \<in> set path. \<not> c_isspace c)"

definition plain_host :: "string \<Rightarrow> bool" where
  "plain_host host \<longleftrightarrow> length host \<le> 127 \<and> is_cstr host \<and> (\<forall>c \<in> set host. \<not> c_isspace c)"

lemma not_space_facts: "\<forall>c \<in> set a. \<not> c_isspace c \<Longrightarrow> LF \<notin> set a \<and> CR \<notin> set a \<and> CHR '' '' \<notin> set a"
proof -
  have "c_isspace LF" "c_isspace CR" "c_isspace (CHR '' '')" by (simp_all add: c_isspace_def)
  then show "\<forall>c \<in> set a. \<not> c_isspace c \<Longrightarrow> ?thesis" by blast
qed

lemma host_prefix: "strncaseeq 5 (''Host: '' @ x) ''Host:'' = True" "strncaseeq 15 (''Host: '' @ x) ''Content-Length:'' = False"
  by (simp_all add: strncaseeq_def c_tolower_def c_isupper_def)

lemma host_line:
  assumes "plain_host host"
  shows "admin_headers (''Host: '' @ host @ CRLF @ CRLF) q = q\<lparr>aq_host := host\<rparr>"
proof -
  have ns: "LF \<notin> set host" "CHR '' '' \<notin> set host" using assms not_space_facts by (auto simp: plain_host_def)
  have "dropWhile (\<lambda>c. c = CHR '' '') (host @ [CR]) = host @ [CR]" using ns(2) by (cases host) auto
  then have v: "host_value (''Host: '' @ host @ [CR]) = host"
    using assms by (simp add: host_value_def Let_def plain_host_def)
  have "cstr (''Host: '' @ host @ CRLF @ CRLF) = ''Host: '' @ host @ CRLF @ CRLF"
    using assms by (intro cstr_ident) (simp add: plain_host_def)
  then have "admin_header (''Host: '' @ host @ CRLF @ CRLF) (''Host: '' @ host @ [CR]) q = q\<lparr>aq_host := host\<rparr>"
    by (simp only: admin_header_def Let_def v host_prefix if_True if_False)
  moreover have "admin_headers ((''Host: '' @ host @ [CR]) @ LF # CRLF) q =
      admin_headers CRLF (admin_header ((''Host: '' @ host @ [CR]) @ LF # CRLF) (''Host: '' @ host @ [CR]) q)"
    using ns(1) by (intro admin_headers_line) auto
  ultimately show ?thesis by (simp add: admin_headers_end)
qed

lemma parse_get:
  assumes "plain_path path" and "plain_host host"
  shows "\<exists>q. parse_request_from_buf (get_request path host) = Some q \<and> aq_method q = ''GET'' \<and> aq_path q = path \<and> aq_host q = host"
proof -
  let ?tail = "'' HTTP/1.1'' @ CRLF @ ''Host: '' @ host @ CRLF @ CRLF"
  have c: "cstr (get_request path host) = ''GET'' @ '' '' @ path @ ?tail"
    unfolding get_request_def using assms by (subst cstr_ident) (auto simp: plain_path_def plain_host_def)
  have "scan_s 7 (''GET'' @ '' '' @ path @ ?tail) = Some (''GET'', '' '' @ path @ ?tail)"
    by (rule scan_s_token) (simp_all add: c_isspace_def)
  moreover have "scan_s 255 ('' '' @ path @ ?tail) = Some (path, ?tail)"
  proof -
    have "scan_s 255 (path @ ?tail) = Some (path, ?tail)" using assms by (intro scan_s_token) (auto simp: plain_path_def c_isspace_def)
    then show ?thesis using scan_s_skip [of "CHR '' ''" 255 "path @ ?tail"] by (simp add: c_isspace_def)
  qed
  moreover have l: "takeWhile (\<lambda>c. c \<noteq> LF) (get_request path host) = ''GET '' @ path @ '' HTTP/1.1'' @ [CR]"
    using takeWhile_line [of "''GET '' @ path @ '' HTTP/1.1'' @ [CR]" "''Host: '' @ host @ CRLF @ CRLF"] not_space_facts [of path] assms(1)
    by (simp add: get_request_def plain_path_def)
  moreover have "drop (Suc (length (takeWhile (\<lambda>c. c \<noteq> LF) (get_request path host)))) (get_request path host) = ''Host: '' @ host @ CRLF @ CRLF"
    unfolding l by (simp add: get_request_def)
  moreover have "LF \<in> set (get_request path host)" by (simp add: get_request_def)
  ultimately show ?thesis using host_line [OF assms(2)] by (simp add: parse_request_from_buf_def c methods_def)
qed

lemma reply_header_small: "st \<in> {200, 400, 404} \<Longrightarrow> length ctype \<le> 63 \<Longrightarrow> n < 10 ^ 10 \<Longrightarrow> length (reply_header st ctype n) < 512"
  using dec_nat_length [of n 10] dec_int_small [of st]
  by (auto simp: reply_header_def reply_text_def is_int32_def)

text \<open>
  The listing over HTTP: a \<open>GET /api/files\<close> that arrives in one piece is answered with status 200, the exact
  length and the list of every regular file of the shared directory, if it fits into 8191 bytes; a path
  of no route is answered with 404; and the connection is closed each time.
\<close>

lemma admin_files_listed:
  assumes "live_conn w s" and "rscript s = []" and "inp s = get_request path host" and "plain_path path" and "plain_host host"
  shows "(path = ''/api/files'' \<and> os_readdir (ae_os e) (ae_disk e) (cfg_shared_dir (srv_config c)) = Some names \<and>
      doc = files_open @ comma_list (List.map_filter (listed_json (cfg_shared_dir (srv_config c)) (ae_disk e)) names) @ '']}'' \<and>
      length doc < 8192 \<longrightarrow>
      (\<exists>s'. handle_http_connection e (Some c) s = (True, s') \<and>
         outp s' = outp s @ reply_header 200 ''application/json'' (length doc) @ doc)) \<and>
    (path \<notin> {''/'', ''/api/stats'', ''/api/files'', ''/api/config''} \<longrightarrow>
      (\<exists>s'. handle_http_connection e ctx s = (True, s') \<and>
         outp s' = outp s @ reply_header 404 ''application/json'' 21 @ error_json ''Not found''))"
proof -
  obtain q where q: "parse_request_from_buf (get_request path host) = Some q" "aq_method q = ''GET''" "aq_path q = path"
    using parse_get [OF assms(4,5)] by blast
  have len: "length (get_request path host) \<le> 4095" "get_request path host \<noteq> []"
    using assms(4,5) by (simp_all add: get_request_def plain_path_def plain_host_def)
  define s1 where "s1 = s\<lparr>inp := []\<rparr>"
  have p: "http_parse_request 4096 s = (Some q, s1)"
    using assms(2,3) len q(1) by (simp add: http_parse_request_def sock_recv_def s1_def)
  have s1: "live_conn w s1" "outp s1 = outp s" using assms(1) by (simp_all add: s1_def live_conn_def)
  have "\<exists>s'. handle_http_connection e (Some c) s = (True, s') \<and> outp s' = outp s @ reply_header 200 ''application/json'' (length doc) @ doc"
    if "path = ''/api/files''" "os_readdir (ae_os e) (ae_disk e) (cfg_shared_dir (srv_config c)) = Some names"
      "doc = files_open @ comma_list (List.map_filter (listed_json (cfg_shared_dir (srv_config c)) (ae_disk e)) names) @ '']}''" "length doc < 8192"
  proof -
    have d: "build_files_json 8192 (ae_os e) (ae_disk e) (cfg_shared_dir (srv_config c)) = doc"
      using files_json_complete [OF that(2) refl] that(3,4) by simp
    have "length (reply_header 200 ''application/json'' (length doc)) < 512" using that(4) by (intro reply_header_small) simp_all
    from http_send_response_whole [OF s1(1) this] show ?thesis using p q that(1) d s1(2)
      by (auto simp: handle_http_connection_def admin_route_def http_send_json_def strncpy0_def)
  qed
  moreover have "\<exists>s'. handle_http_connection e ctx s = (True, s') \<and> outp s' = outp s @ reply_header 404 ''application/json'' 21 @ error_json ''Not found''"
    if "path \<notin> {''/'', ''/api/stats'', ''/api/files'', ''/api/config''}"
  proof -
    have n: "length (error_json ''Not found'') = 21" by (simp add: error_json_def json_key_def)
    have "length (reply_header 404 ''application/json'' (length (error_json ''Not found''))) < 512"
      unfolding n by (intro reply_header_small) simp_all
    from http_send_response_whole [OF s1(1) this] show ?thesis using p q that s1(2) unfolding n
      by (auto simp: handle_http_connection_def admin_route_def http_send_json_def strncpy0_def)
  qed
  ultimately show ?thesis by blast
qed

definition admin_demo_env :: admin_env where
  "admin_demo_env = \<lparr>ae_html = [], ae_shm = None,
     ae_os = \<lparr>os_open = \<lambda>_ _. True, os_readdir = \<lambda>_ _. Some [''.'', ''a''], os_dir_size = 0, os_mkdir = \<lambda>_ _. None,
       os_rmdir = \<lambda>_ _. None, os_unlink = \<lambda>_. True\<rparr>,
     ae_disk = \<lparr>dfiles = [''./shared/a'' \<mapsto> ''xyz''], ddirs = \<lambda>_. False, dreads = [], dwrites = []\<rparr>\<rparr>"

definition admin_demo_ctx :: server_context where
  "admin_demo_ctx = \<lparr>srv_config = default_config, srv_clients = [], srv_client_count = 0, srv_running = True, srv_listen_fd = 3,
     srv_epfd = 4, srv_closed = []\<rparr>"

lemma admin_files_listed_witness:
  "\<exists>s'. handle_http_connection admin_demo_env (Some admin_demo_ctx)
       \<lparr>inp = get_request ''/api/files'' ''h'', rscript = [], sscript = [9], outp = []\<rparr> = (True, s') \<and>
     outp s' = reply_header 200 ''application/json'' 33 @ files_open @ file_json ''a'' 3 @ '']}''"
proof -
  let ?s = "\<lparr>inp = get_request ''/api/files'' ''h'', rscript = [], sscript = [9], outp = []\<rparr>"
  let ?doc = "files_open @ file_json ''a'' 3 @ '']}''"
  have d: "?doc = files_open @ comma_list (List.map_filter (listed_json (cfg_shared_dir (srv_config admin_demo_ctx)) (ae_disk admin_demo_env)) [''.'', ''a'']) @ '']}''"
    by (simp add: comma_list_def listed_json_def admin_demo_env_def admin_demo_ctx_def default_config_def List.map_filter_def numeral_3_eq_3)
  have l: "length ?doc = 33" by (simp add: files_open_def file_json_def json_key_def dec_nat.simps)
  have "os_readdir (ae_os admin_demo_env) (ae_disk admin_demo_env) (cfg_shared_dir (srv_config admin_demo_ctx)) = Some [''.'', ''a'']"
    by (simp add: admin_demo_env_def)
  moreover have "live_conn 9 ?s" "plain_path ''/api/files''" "plain_host ''h''"
    by (simp_all add: live_conn_def plain_path_def plain_host_def c_isspace_def)
  ultimately show ?thesis
    using admin_files_listed [of 9 ?s "''/api/files''" "''h''" admin_demo_env admin_demo_ctx "[''.'', ''a'']" ?doc None] d l by simp
qed

text \<open>
  The request is read with a single \<open>recv\<close>: one that arrives in two pieces, the first without a line end, is
  answered with 400.
\<close>

lemma split_request_refused:
  assumes "live_conn w s" and "rscript s = [int n]" and "LF \<notin> set (take n (inp s))"
  shows "\<exists>s'. handle_http_connection e ctx s = (True, s') \<and>
    outp s' = outp s @ reply_header 400 ''application/json'' (length (error_json ''Bad request'')) @ error_json ''Bad request''"
proof -
  obtain b s1 where r: "sock_recv 4095 s = (b, s1)" by fastforce
  have "0 < n" using assms(1,2) by (simp add: live_conn_def)
  then have e: "b = take (min 4095 n) (inp s)" "s1 = s\<lparr>inp := drop (min 4095 n) (inp s), rscript := []\<rparr>"
    using r assms(2) by (auto simp: sock_recv_def)
  have "set b \<subseteq> set (take n (inp s))" unfolding e(1) by (rule set_take_subset_set_take) simp
  then have b: "LF \<notin> set b" "live_conn w s1" "outp s1 = outp s" using assms(1,3) e(2) by (auto simp: live_conn_def)
  have "http_parse_request 4096 s = (None, s1)" using r b(1) by (simp add: http_parse_request_def parse_request_from_buf_def)
  moreover have "length (reply_header 400 ''application/json'' (length (error_json ''Bad request''))) < 512"
    by (intro reply_header_small) (simp_all add: error_json_def json_key_def)
  ultimately show ?thesis using http_send_response_whole [OF b(2)] b(3)
    by (fastforce simp: handle_http_connection_def http_send_json_def strncpy0_def)
qed

lemma http_server_no_leak:
  "http_server_start ok = (started, tr) \<Longrightarrow>
     (\<not> started \<longrightarrow> held tr = Some []) \<and> (started \<longrightarrow> held (tr @ http_server_stop) = Some [])"
  by (auto simp: http_server_start_def http_server_stop_def split: if_splits)

end
