(* ===== verification/Fs_Main.thy ===== *)
theory Fs_Main
  imports Fs_Server Fs_Client
begin

text \<open>
  The two programs of the file server (\<open>linux-file-server/src/main_server.c\<close>, \<open>main_client.c\<close>): options over
  configuration file over defaults, and the order of start-up and shutdown. What \<open>getopt_long\<close> finds in the
  arguments is a list of options; the search for \<open>-c\<close> before it works on the arguments themselves. Messages
  to the log and to the terminal are left out.
\<close>

subsection \<open>The server\<close>

datatype server_opt = OptPort string | OptThreads string | OptDaemon | OptConfig string | OptVerbose | OptHelp | OptUnknown

text \<open>The argument after the first \<open>-c\<close> or \<open>--config\<close> that is not the last argument.\<close>

fun config_arg :: "string list \<Rightarrow> string option" where
  "config_arg (a # b # as) = (if a = ''-c'' \<or> a = ''--config'' then Some b else config_arg (b # as))"
| "config_arg _ = None"

definition config_path :: "string list \<Rightarrow> server_config \<Rightarrow> server_config" where
  "config_path argv c = (case config_arg (drop 1 argv) of None \<Rightarrow> c | Some p \<Rightarrow> c\<lparr>cfg_config_file := strncpy0 255 p\<rparr>)"

text \<open>The loop over the options: an exit code, or the configuration and whether to become a daemon.\<close>

fun apply_opts :: "server_opt list \<Rightarrow> server_config \<times> bool \<Rightarrow> int + server_config \<times> bool" where
  "apply_opts [] (c, dm) = Inr (c, dm)"
| "apply_opts (OptPort v # os) (c, dm) = apply_opts os (c\<lparr>cfg_port := atoi v\<rparr>, dm)"
| "apply_opts (OptThreads v # os) (c, dm) = apply_opts os (c\<lparr>cfg_thread_num := atoi v\<rparr>, dm)"
| "apply_opts (OptDaemon # os) (c, dm) = apply_opts os (c, True)"
| "apply_opts (OptConfig v # os) (c, dm) = apply_opts os (c, dm)"
| "apply_opts (OptVerbose # os) (c, dm) = apply_opts os (c\<lparr>cfg_log_level := LOG_DEBUG\<rparr>, dm)"
| "apply_opts (OptHelp # os) (c, dm) = Inl 0"
| "apply_opts (OptUnknown # os) (c, dm) = Inl 1"

definition server_settings :: "(path \<Rightarrow> bytes option) \<Rightarrow> string list \<Rightarrow> server_opt list \<Rightarrow> int + server_config \<times> bool" where
  "server_settings read argv opts =
     (let c1 = config_path argv default_config; c2 = snd (parse_config_file (read (cfg_config_file c1)) c1)
      in apply_opts opts (c2, False))"

record main_env =
  me_read :: "path \<Rightarrow> bytes option"
  me_log_ok :: "string \<Rightarrow> bool"
  me_daemon_ok :: bool
  me_have_dir :: "path \<Rightarrow> bool"
  me_mkdir_ok :: "path \<Rightarrow> bool"
  me_init_ok :: "init_step \<Rightarrow> bool"
  me_pool_oks :: "bool list"
  me_started :: int
  me_listen_fd :: int
  me_epfd :: int
  me_turns :: "start_turn list"

datatype main_event = LogOpened | LogClosed | Daemonized | DirMade path | Served "accept_event list"

text \<open>\<open>main\<close> of the server: exit code, events in order, and the context when it stopped.\<close>

definition server_main :: "main_env \<Rightarrow> string list \<Rightarrow> server_opt list \<Rightarrow> int \<times> main_event list \<times> server_context option" where
  "server_main e argv opts =
     (case server_settings (me_read e) argv opts of
        Inl code \<Rightarrow> (code, [], None)
      | Inr (c, dm) \<Rightarrow>
        if \<not> me_log_ok e (cfg_log_dir c) then (1, [], None)
        else if dm \<and> \<not> me_daemon_ok e then (1, [LogOpened, LogClosed], None)
        else
          (let ev1 = LogOpened # (if dm then [Daemonized] else []) in
           if \<not> me_have_dir e (cfg_shared_dir c) \<and> \<not> me_mkdir_ok e (cfg_shared_dir c) then (1, ev1 @ [LogClosed], None)
           else
             (let ev2 = ev1 @ (if me_have_dir e (cfg_shared_dir c) then [] else [DirMade (cfg_shared_dir c)]) in
              case server_init (me_init_ok e) (me_pool_oks e) (me_started e) (me_listen_fd e) (me_epfd e) c of
                (_, None, _) \<Rightarrow> (1, ev2 @ [LogClosed], None)
              | (_, Some (ctx, pool), _) \<Rightarrow>
                (case server_start (me_turns e) (cfg_log_level c) ctx of (evs, l, ctx1) \<Rightarrow>
                   (0, ev2 @ [Served evs, LogClosed], Some (server_stop ctx1))))))"

subsection \<open>The client\<close>

datatype client_opt = COptServer string | COptPort string | COptHelp | COptUnknown

fun client_opts :: "client_opt list \<Rightarrow> string \<times> int \<Rightarrow> int + string \<times> int" where
  "client_opts [] (ip, port) = Inr (ip, port)"
| "client_opts (COptServer v # os) (ip, port) = client_opts os (v, port)"
| "client_opts (COptPort v # os) (ip, port) = client_opts os (ip, atoi v)"
| "client_opts (COptHelp # os) (ip, port) = Inl 0"
| "client_opts (COptUnknown # os) (ip, port) = Inl 1"

text \<open>
  \<open>main\<close> of the client: \<open>None\<close> is undefined behaviour in a command, otherwise the exit code and the client at
  the end. What \<open>socket\<close>, \<open>inet_pton\<close> and \<open>connect\<close> do and what arrives on the connection are inputs.
\<close>

definition client_main ::
  "os_env \<Rightarrow> bool \<Rightarrow> int \<Rightarrow> (string \<Rightarrow> bool) \<Rightarrow> bool \<Rightarrow> conn \<Rightarrow> disk \<Rightarrow> bytes \<Rightarrow> client_opt list \<Rightarrow> (int \<times> client option) option" where
  "client_main e alloc sock pton ok s d stdin opts =
     (case client_opts opts (''127.0.0.1'', 8888) of
        Inl code \<Rightarrow> Some (code, None)
      | Inr (ip, port) \<Rightarrow>
        (case client_init (Some ip) port of (r1, cc) \<Rightarrow>
         if r1 \<noteq> SUCCESS then Some (1, None)
         else case client_connect sock pton ok cc of (r2, cc') \<Rightarrow>
           if r2 \<noteq> SUCCESS then Some (1, None)
           else case cc' of
             None \<Rightarrow> Some (1, None)
           | Some c \<Rightarrow> map_option (\<lambda>cl. (0, Some (client_disconnect cl)))
               (client_interactive e alloc stdin \<lparr>cl_ctx = c, cl_conn = s, cl_disk = d, cl_out = []\<rparr>)))"

subsection \<open>Properties\<close>

fun port_opts :: "server_opt list \<Rightarrow> string list" where
  "port_opts [] = []"
| "port_opts (OptPort v # os) = v # port_opts os"
| "port_opts (_ # os) = port_opts os"

fun thread_opts :: "server_opt list \<Rightarrow> string list" where
  "thread_opts [] = []"
| "thread_opts (OptThreads v # os) = v # thread_opts os"
| "thread_opts (_ # os) = thread_opts os"

definition last_or :: "int \<Rightarrow> string list \<Rightarrow> int" where
  "last_or d vs = (if vs = [] then d else atoi (last vs))"

lemma apply_opts_result:
  "apply_opts opts (c, dm) = Inr (c', dm') \<Longrightarrow>
     c' = c\<lparr>cfg_port := last_or (cfg_port c) (port_opts opts), cfg_thread_num := last_or (cfg_thread_num c) (thread_opts opts),
            cfg_log_level := if OptVerbose \<in> set opts then LOG_DEBUG else cfg_log_level c\<rparr> \<and>
     (dm' \<longleftrightarrow> dm \<or> OptDaemon \<in> set opts) \<and> OptHelp \<notin> set opts \<and> OptUnknown \<notin> set opts"
proof (induction opts "(c, dm)" arbitrary: c dm rule: apply_opts.induct)
  case (2 v os c dm)
  then show ?case using 2 by (auto simp: last_or_def)
next
  case (3 v os c dm)
  then show ?case using 3 by (auto simp: last_or_def)
qed (auto simp: last_or_def)

text \<open>
  The settings of the server: a port or a thread number on the command line, the last one if it is given
  more than once, wins over the configuration file, and the file over the defaults; \<open>-v\<close> sets the debug
  level; everything else comes from the file; \<open>-h\<close> or an unknown option ends the program instead.
\<close>

lemma settings_precedence:
  assumes "server_settings read argv opts = Inr (c, dm)"
  shows "\<exists>f. f = snd (parse_config_file (read (cfg_config_file (config_path argv default_config))) (config_path argv default_config)) \<and>
    cfg_port c = last_or (cfg_port f) (port_opts opts) \<and> cfg_thread_num c = last_or (cfg_thread_num f) (thread_opts opts) \<and>
    cfg_log_level c = (if OptVerbose \<in> set opts then LOG_DEBUG else cfg_log_level f) \<and>
    cfg_shared_dir c = cfg_shared_dir f \<and> cfg_log_dir c = cfg_log_dir f \<and> cfg_max_clients c = cfg_max_clients f \<and>
    (dm \<longleftrightarrow> OptDaemon \<in> set opts) \<and> OptHelp \<notin> set opts \<and> OptUnknown \<notin> set opts"
  using apply_opts_result [OF assms [unfolded server_settings_def Let_def]] by simp

lemma settings_precedence_witness:
  "\<exists>c. server_settings (\<lambda>p. if p = ''x.conf'' then Some (''port=70'' @ [LF] @ ''threads=8'' @ [LF]) else None)
      [''server'', ''-c'', ''x.conf'', ''-p'', ''80''] [OptConfig ''x.conf'', OptPort ''80''] = Inr (c, False) \<and> cfg_port c = 80"
proof -
  let ?r = "\<lambda>p. if p = ''x.conf'' then Some (''port=70'' @ [LF] @ ''threads=8'' @ [LF]) else None"
  obtain c where s: "server_settings ?r [''server'', ''-c'', ''x.conf'', ''-p'', ''80''] [OptConfig ''x.conf'', OptPort ''80''] = Inr (c, False)"
    by (simp add: server_settings_def Let_def)
  have "cfg_port c = 80" using settings_precedence [OF s] by (auto simp: last_or_def atoi_def strtol10_def digit_val_def to_int32_def c_isspace_def Let_def of_char_def)
  then show ?thesis using s by blast
qed

text \<open>
  Only \<open>-c file\<close> and \<open>--config file\<close> are seen by the search before \<open>getopt_long\<close>: with \<open>--config=file\<close> or
  \<open>-cfile\<close>, which \<open>getopt_long\<close> accepts, the default file is read.
\<close>

lemma config_equals_ignored: "config_path [prog, ''--config='' @ p] c = c" "config_path [prog, ''-c'' @ p] c = c"
  by (simp_all add: config_path_def)

text \<open>
  The program closes the log exactly when it opened it, as the last thing it does, and returns 0 only after
  serving or for \<open>-h\<close>; the context it leaves has no active client.
\<close>

lemma server_main_lifecycle:
  assumes "server_main e argv opts = (code, ev, ctx)"
  shows "(ev \<noteq> [] \<longrightarrow> hd ev = LogOpened \<and> last ev = LogClosed \<and> count_list ev LogClosed = 1) \<and>
    (code = 0 \<longrightarrow> (ev = [] \<and> ctx = None) \<or> (\<exists>c. ctx = Some c \<and> active_fds (srv_clients c) = [])) \<and> (code = 0 \<or> code = 1)"
proof -
  have stop: "active_fds (srv_clients (server_stop c)) = []" for c
    by (auto simp: server_stop_def Let_def active_fds_def filter_empty_conv)
  have codes: "apply_opts os x = Inl k \<Longrightarrow> k = 0 \<or> k = 1" for os x k
    by (induction os x rule: apply_opts.induct) auto
  show ?thesis using assms stop codes
    by (auto simp: server_main_def server_settings_def Let_def split: sum.splits prod.splits if_splits option.splits)
qed

end
