(* ===== verification/Sysmon.thy ===== *)
theory Sysmon
  imports C_Stdio Float_Text
begin

text \<open>
  The system monitor (\<open>sys-monitor/src\<close>): the readers of \<open>/proc\<close>, the usage and rate computations and the
  keyboard. A reader gets the bytes of its file, \<^const>\<open>None\<close> when it cannot be opened; counters are 64-bit
  words, \<open>double\<close> is \<^typ>\<open>rat\<close>. The screen (the rest of \<open>ui.c\<close>) is the theory \<open>Sysmon_Ui\<close>.
\<close>

subsection \<open>Scanning\<close>

text \<open>\<open>%llu\<close>: white space, a sign, at least one digit; the value is cut off at \<open>2\<^sup>6\<^sup>4 - 1\<close>.\<close>

definition scan_llu :: "string \<Rightarrow> (64 word \<times> string) option" where
  "scan_llu s =
     (let r = dropWhile c_isspace s;
          neg = (r \<noteq> [] \<and> hd r = CHR ''-'');
          d = (if r \<noteq> [] \<and> (hd r = CHR ''-'' \<or> hd r = CHR ''+'') then tl r else r);
          ds = takeWhile c_isdigit d;
          v = (of_nat (min (digits_val 10 0 ds) (2 ^ 64 - 1)) :: 64 word)
      in if ds = [] then None else Some (if neg then - v else v, drop (length ds) d))"

text \<open>As many of \<open>k\<close> numbers as convert.\<close>

fun scan_llus :: "nat \<Rightarrow> string \<Rightarrow> 64 word list" where
  "scan_llus 0 s = []"
| "scan_llus (Suc k) s = (case scan_llu s of None \<Rightarrow> [] | Some (v, r) \<Rightarrow> v # scan_llus k r)"

lemma dec_nat_isdigit: "c \<in> set (dec_nat n) \<Longrightarrow> c_isdigit c \<and> \<not> c_isspace c \<and> c \<noteq> CHR ''-'' \<and> c \<noteq> CHR ''+''"
proof -
  assume "c \<in> set (dec_nat n)"
  then obtain d where "digit_val c = Some d" "d < 10" using dec_nat_digits [of n] by auto
  from digit_char_plain [OF this] show ?thesis by simp
qed

lemma scan_llu_dec:
  assumes "\<forall>c \<in> set ws. c_isspace c" and "n < 2 ^ 64" and "r = [] \<or> \<not> c_isdigit (hd r)"
  shows "scan_llu (ws @ dec_nat n @ r) = Some (of_nat n, r)"
proof -
  obtain c t where ct: "dec_nat n = c # t" by (cases "dec_nat n") auto
  have c: "c_isdigit c" "\<not> c_isspace c" "c \<noteq> CHR ''-''" "c \<noteq> CHR ''+''" using dec_nat_isdigit [of c n] ct by auto
  have dw: "dropWhile c_isspace (ws @ dec_nat n @ r) = dec_nat n @ r"
    using assms(1) c(2) by (simp add: ct dropWhile_append2)
  have "takeWhile c_isdigit r = []" using assms(3) by (cases r) auto
  then have tw: "takeWhile c_isdigit (dec_nat n @ r) = dec_nat n"
    using dec_nat_isdigit by (subst takeWhile_append2) auto
  have "hd (dec_nat n @ r) = c" "dec_nat n @ r \<noteq> []" using ct by simp_all
  then show ?thesis using assms(2) c
    by (simp add: scan_llu_def Let_def dw tw digits_val_dec_nat min_def)
qed

text \<open>Numbers separated by white space are all read.\<close>

lemma scan_llus_dec:
  assumes "list_all (\<lambda>(ws, n). ws \<noteq> [] \<and> (\<forall>c \<in> set ws. c_isspace c) \<and> n < 2 ^ 64) xs"
    and "r = [] \<or> \<not> c_isdigit (hd r)" and "k = length xs"
  shows "scan_llus k (concat (map (\<lambda>(ws, n). ws @ dec_nat n) xs) @ r) = map (\<lambda>(ws, n). of_nat n) xs"
  using assms
proof (induction xs arbitrary: k)
  case (Cons x xs)
  obtain ws n where x: "x = (ws, n)" by (cases x)
  let ?rest = "concat (map (\<lambda>(ws, n). ws @ dec_nat n) xs) @ r"
  have "?rest = [] \<or> \<not> c_isdigit (hd ?rest)"
  proof (cases xs)
    case (Cons y ys)
    obtain ws' n' where "y = (ws', n')" by (cases y)
    then have "hd ?rest \<in> set ws'" "\<forall>c \<in> set ws'. c_isspace c" using Cons.prems(1) Cons by auto
    then have "c_isspace (hd ?rest)" by blast
    then show ?thesis by (auto simp: c_isspace_def c_isdigit_def)
  qed (use Cons.prems(2) in simp)
  then have "scan_llu (ws @ dec_nat n @ ?rest) = Some (of_nat n, ?rest)"
    using Cons.prems(1) x by (intro scan_llu_dec) auto
  then show ?case using Cons x by simp
qed simp

subsection \<open>CPU\<close>

text \<open>The eight counters in the order of the file: user, nice, system, idle, iowait, irq, softirq, steal.\<close>

record cpu_info =
  cpu_name :: string
  cpu_vals :: "64 word list"
  cpu_total :: "64 word"
  cpu_usage :: rat

record sys_cpu =
  sy_num_cpus :: nat
  sy_cpus :: "cpu_info list"
  sy_cpu_total :: cpu_info
  sy_loadavg :: "rat list"
  sy_uptime :: rat

definition MAX_CPUS :: nat where [c_limits]: "MAX_CPUS = 32"

definition zero_cpu :: cpu_info where
  "zero_cpu = \<lparr>cpu_name = [], cpu_vals = replicate 8 0, cpu_total = 0, cpu_usage = 0\<rparr>"

definition zero_sys_cpu :: sys_cpu where
  "zero_sys_cpu = \<lparr>sy_num_cpus = 0, sy_cpus = replicate MAX_CPUS zero_cpu, sy_cpu_total = zero_cpu, sy_loadavg = [0, 0, 0], sy_uptime = 0\<rparr>"

text \<open>A conversion that fails leaves the remaining counters as they were.\<close>

definition set_vals :: "64 word list \<Rightarrow> cpu_info \<Rightarrow> cpu_info" where
  "set_vals vs c = (let ws = vs @ drop (length vs) (cpu_vals c) in c\<lparr>cpu_vals := ws, cpu_total := sum_list ws\<rparr>)"

definition cpu_line :: "bytes \<Rightarrow> sys_cpu \<Rightarrow> sys_cpu" where
  "cpu_line line sy =
     (if take 4 (cstr line) = ''cpu '' then sy\<lparr>sy_cpu_total := set_vals (scan_llus 8 (drop 4 (cstr line))) (sy_cpu_total sy)\<rparr>
      else if take 3 (cstr line) = ''cpu'' \<and> (case drop 3 (cstr line) of [] \<Rightarrow> False | c # _ \<Rightarrow> c_isdigit c) then
        (let i = sy_num_cpus sy in
         case scan_s 15 (cstr line) of
           None \<Rightarrow> sy
         | Some (nm, r) \<Rightarrow> sy\<lparr>sy_cpus := (sy_cpus sy)[i := set_vals (scan_llus 8 r) ((sy_cpus sy ! i)\<lparr>cpu_name := nm\<rparr>)],
             sy_num_cpus := i + 1\<rparr>)
      else sy)"

fun cpu_loop :: "bytes list \<Rightarrow> sys_cpu \<Rightarrow> sys_cpu" where
  "cpu_loop [] sy = sy"
| "cpu_loop (l # ls) sy = (if MAX_CPUS \<le> sy_num_cpus sy then sy else cpu_loop ls (cpu_line l sy))"

text \<open>
  \<open>load\<close> and \<open>up\<close>: the numbers \<open>fscanf\<close> reads from \<open>/proc/loadavg\<close> and \<open>/proc/uptime\<close>, \<^const>\<open>None\<close> when
  the file cannot be opened.
\<close>

definition cpu_read :: "bytes option \<Rightarrow> rat list option \<Rightarrow> rat list option \<Rightarrow> sys_cpu \<Rightarrow> int \<times> sys_cpu" where
  "cpu_read stat load up sy =
     (case stat of None \<Rightarrow> (-1, sy)
      | Some b \<Rightarrow>
        (let s1 = cpu_loop (fgets_lines 512 b) (sy\<lparr>sy_num_cpus := 0\<rparr>);
             s2 = (case load of None \<Rightarrow> s1 | Some vs \<Rightarrow> s1\<lparr>sy_loadavg := if length vs = 3 then vs else [0, 0, 0]\<rparr>);
             s3 = (case up of None \<Rightarrow> s2 | Some vs \<Rightarrow> s2\<lparr>sy_uptime := if length vs = 1 then hd vs else 0\<rparr>)
         in (0, s3)))"

definition usage_of :: "cpu_info \<Rightarrow> cpu_info \<Rightarrow> cpu_info" where
  "usage_of c p =
     (let t = cpu_total c - cpu_total p; d = cpu_vals c ! 3 - cpu_vals p ! 3
      in if 0 < t then c\<lparr>cpu_usage := 100 * (1 - of_nat (unat d) / of_nat (unat t))\<rparr> else c)"

definition cpu_calculate_usage :: "sys_cpu \<Rightarrow> sys_cpu \<Rightarrow> sys_cpu" where
  "cpu_calculate_usage sy prev =
     sy\<lparr>sy_cpu_total := usage_of (sy_cpu_total sy) (sy_cpu_total prev),
        sy_cpus := map2 usage_of (take (sy_num_cpus sy) (sy_cpus sy)) (take (sy_num_cpus sy) (sy_cpus prev))
                   @ drop (sy_num_cpus sy) (sy_cpus sy)\<rparr>"

subsection \<open>Memory\<close>

record mem_info =
  mi_total :: "64 word"
  mi_free :: "64 word"
  mi_available :: "64 word"
  mi_buffers :: "64 word"
  mi_cached :: "64 word"
  mi_swap_total :: "64 word"
  mi_swap_free :: "64 word"
  mi_used_percent :: rat

text \<open>\<open>sscanf(line, "Key: %llu kB", &v) == 1\<close>.\<close>

definition scan_key :: "string \<Rightarrow> string \<Rightarrow> 64 word option" where
  "scan_key key line = (if take (length key) line = key then map_option fst (scan_llu (drop (length key) line)) else None)"

definition mem_line :: "bytes \<Rightarrow> mem_info \<Rightarrow> mem_info" where
  "mem_line line m =
     (case scan_key ''MemTotal:'' (cstr line) of Some v \<Rightarrow> m\<lparr>mi_total := v\<rparr>
    | None \<Rightarrow> (case scan_key ''MemFree:'' (cstr line) of Some v \<Rightarrow> m\<lparr>mi_free := v\<rparr>
    | None \<Rightarrow> (case scan_key ''MemAvailable:'' (cstr line) of Some v \<Rightarrow> m\<lparr>mi_available := v\<rparr>
    | None \<Rightarrow> (case scan_key ''Buffers:'' (cstr line) of Some v \<Rightarrow> m\<lparr>mi_buffers := v\<rparr>
    | None \<Rightarrow> (case scan_key ''Cached:'' (cstr line) of Some v \<Rightarrow> m\<lparr>mi_cached := v\<rparr>
    | None \<Rightarrow> (case scan_key ''SwapTotal:'' (cstr line) of Some v \<Rightarrow> m\<lparr>mi_swap_total := v\<rparr>
    | None \<Rightarrow> (case scan_key ''SwapFree:'' (cstr line) of Some v \<Rightarrow> m\<lparr>mi_swap_free := v\<rparr>
    | None \<Rightarrow> m)))))))"

definition memory_read :: "bytes option \<Rightarrow> mem_info \<Rightarrow> int \<times> mem_info" where
  "memory_read fp m =
     (case fp of None \<Rightarrow> (-1, m)
      | Some b \<Rightarrow>
        (let m1 = fold mem_line (fgets_lines 256 b) \<lparr>mi_total = 0, mi_free = 0, mi_available = 0, mi_buffers = 0, mi_cached = 0,
               mi_swap_total = 0, mi_swap_free = 0, mi_used_percent = mi_used_percent m\<rparr>
         in (0, if 0 < mi_total m1
                then m1\<lparr>mi_used_percent := 100 * of_nat (unat (mi_total m1 - mi_available m1)) / of_nat (unat (mi_total m1))\<rparr>
                else m1)))"

subsection \<open>Network\<close>

record net_info =
  ni_name :: string
  ni_rx_bytes :: "64 word"
  ni_tx_bytes :: "64 word"
  ni_rx_packets :: "64 word"
  ni_tx_packets :: "64 word"
  ni_rx_rate :: nat
  ni_tx_rate :: nat

definition MAX_NET_IFACES :: nat where [c_limits]: "MAX_NET_IFACES = 16"

text \<open>
  What stands after the colon when the numbers are scanned: \<open>name_start[31] = '\0'\<close> has cut the line 31
  characters after the start \<open>s\<close> of the name, unless the colon, at \<open>k\<close>, is there or comes later.
\<close>

definition after_colon :: "string \<Rightarrow> nat \<Rightarrow> nat \<Rightarrow> string" where
  "after_colon line s k = (if k < s + 31 then take (s + 31 - (k + 1)) (drop (k + 1) line) else drop (k + 1) line)"

text \<open>One line: \<^const>\<open>None\<close> is a write past the line buffer, \<open>Some None\<close> a line that is skipped.\<close>

definition net_line :: "bytes \<Rightarrow> net_info option option" where
  "net_line raw =
     (let line = cstr raw; k = length (takeWhile (\<lambda>c. c \<noteq> CHR '':'') line);
          s = length (takeWhile (\<lambda>c. c = CHR '' '') (take k line)) in
      if k = length line then Some None
      else if 512 \<le> s + 31 then None
      else
        (let name = take 31 (drop s (take k line)); nums = scan_llus 16 (after_colon line s k) in
         if name = ''lo'' \<or> length nums < 10 then Some None
         else Some (Some \<lparr>ni_name = name, ni_rx_bytes = nums ! 0, ni_tx_bytes = nums ! 8, ni_rx_packets = nums ! 1,
                ni_tx_packets = nums ! 9, ni_rx_rate = 0, ni_tx_rate = 0\<rparr>)))"

fun net_loop :: "bytes list \<Rightarrow> net_info list \<Rightarrow> net_info list option" where
  "net_loop [] acc = Some acc"
| "net_loop (l # ls) acc =
     (if MAX_NET_IFACES \<le> length acc then Some acc
      else case net_line l of None \<Rightarrow> None | Some None \<Rightarrow> net_loop ls acc | Some (Some n) \<Rightarrow> net_loop ls (acc @ [n]))"

definition network_read :: "bytes option \<Rightarrow> net_info list \<Rightarrow> (int \<times> net_info list) option" where
  "network_read fp old =
     (case fp of None \<Rightarrow> Some (-1, old)
      | Some b \<Rightarrow> (let ls = fgets_lines 512 b in
          if length ls < 2 then Some (-1, []) else map_option (\<lambda>ns. (0, ns)) (net_loop (drop 2 ls) [])))"

definition net_rate :: "net_info list \<Rightarrow> rat \<Rightarrow> net_info \<Rightarrow> net_info" where
  "net_rate prev elapsed n =
     (case find (\<lambda>p. ni_name p = ni_name n) prev of
        None \<Rightarrow> n
      | Some p \<Rightarrow> n\<lparr>ni_rx_rate := nat \<lfloor>of_nat (unat (ni_rx_bytes n - ni_rx_bytes p)) / elapsed\<rfloor>,
                    ni_tx_rate := nat \<lfloor>of_nat (unat (ni_tx_bytes n - ni_tx_bytes p)) / elapsed\<rfloor>\<rparr>)"

definition network_calculate_rate :: "net_info list \<Rightarrow> net_info list \<Rightarrow> rat \<Rightarrow> net_info list" where
  "network_calculate_rate ns prev elapsed = (if elapsed \<le> 0 then ns else map (net_rate prev elapsed) ns)"

subsection \<open>Disks\<close>

record disk_info =
  di_device :: string
  di_mount :: string
  di_fs_type :: string
  di_total :: "64 word"
  di_used :: "64 word"
  di_available :: "64 word"
  di_used_percent :: rat

record statvfs =
  vf_frsize :: "64 word"
  vf_bsize :: "64 word"
  vf_blocks :: "64 word"
  vf_bfree :: "64 word"
  vf_bavail :: "64 word"

definition MAX_MOUNTS :: nat where [c_limits]: "MAX_MOUNTS = 16"

definition pseudo_fs :: "string list" where
  "pseudo_fs = [''proc'', ''sysfs'', ''devpts'', ''tmpfs'', ''devtmpfs'', ''cgroup'', ''cgroup2'', ''pstore'', ''securityfs'', ''debugfs'',
     ''tracefs'', ''fusectl'', ''configfs'', ''hugetlbfs'', ''mqueue'', ''binfmt_misc'', ''autofs'']"

text \<open>\<open>%d\<close>: the rest after a number, if there is one.\<close>

definition scan_d :: "string \<Rightarrow> string option" where
  "scan_d s = map_option snd (scan_llu s)"

text \<open>\<open>sscanf(line, "%63s %127s %31s %255s %d %d", ...) == 6\<close>: the first three fields.\<close>

definition mount_fields :: "string \<Rightarrow> (string \<times> string \<times> string) option" where
  "mount_fields line =
     (case scan_s 63 line of None \<Rightarrow> None | Some (a, r1) \<Rightarrow> (case scan_s 127 r1 of None \<Rightarrow> None | Some (b, r2) \<Rightarrow>
      (case scan_s 31 r2 of None \<Rightarrow> None | Some (c, r3) \<Rightarrow> (case scan_s 255 r3 of None \<Rightarrow> None | Some (_, r4) \<Rightarrow>
      (case scan_d r4 of None \<Rightarrow> None | Some r5 \<Rightarrow> (case scan_d r5 of None \<Rightarrow> None | Some _ \<Rightarrow> Some (a, b, c)))))))"

definition disk_line :: "(string \<Rightarrow> statvfs option) \<Rightarrow> bytes \<Rightarrow> disk_info option" where
  "disk_line vfs line =
     (case mount_fields (cstr line) of
        None \<Rightarrow> None
      | Some (device, mount, fs_type) \<Rightarrow>
        if fs_type \<in> set pseudo_fs \<or> take 9 device = ''/dev/loop'' then None
        else case vfs mount of
          None \<Rightarrow> None
        | Some v \<Rightarrow>
          (let bs = (if vf_frsize v = 0 then vf_bsize v else vf_frsize v);
               tot = vf_blocks v * bs; used = tot - vf_bfree v * bs
           in Some \<lparr>di_device = device, di_mount = mount, di_fs_type = fs_type, di_total = tot, di_used = used,
                di_available = vf_bavail v * bs,
                di_used_percent = (if 0 < tot then 100 * of_nat (unat used) / of_nat (unat tot) else 0)\<rparr>))"

fun disk_loop :: "(string \<Rightarrow> statvfs option) \<Rightarrow> bytes list \<Rightarrow> disk_info list \<Rightarrow> disk_info list" where
  "disk_loop vfs [] acc = acc"
| "disk_loop vfs (l # ls) acc =
     (if MAX_MOUNTS \<le> length acc then acc
      else disk_loop vfs ls (case disk_line vfs l of None \<Rightarrow> acc | Some d \<Rightarrow> acc @ [d]))"

definition disk_read :: "(string \<Rightarrow> statvfs option) \<Rightarrow> bytes option \<Rightarrow> disk_info list \<Rightarrow> int \<times> disk_info list" where
  "disk_read vfs fp old = (case fp of None \<Rightarrow> (-1, old) | Some b \<Rightarrow> (0, disk_loop vfs (fgets_lines 1024 b) []))"

subsection \<open>Processes\<close>

record proc_info =
  pr_pid :: int
  pr_ppid :: int
  pr_user :: string
  pr_state :: char
  pr_vm_rss :: "64 word"
  pr_vm_size :: "64 word"
  pr_cpu_percent :: rat
  pr_mem_percent :: rat
  pr_command :: string
  pr_name :: string
  pr_nice :: int

definition MAX_PROCESSES :: nat where [c_limits]: "MAX_PROCESSES = 1024"

text \<open>\<open>strtok(s, " ")\<close> until it returns null: the words between blanks.\<close>

fun split_blank :: "string \<Rightarrow> string list" where
  "split_blank [] = [[]]"
| "split_blank (x # xs) = (if x = CHR '' '' then [] # split_blank xs
     else case split_blank xs of [] \<Rightarrow> [[x]] | w # ws \<Rightarrow> (x # w) # ws)"

definition blank_words :: "string \<Rightarrow> string list" where
  "blank_words s = filter (\<lambda>w. w \<noteq> []) (split_blank s)"

definition strtoul10 :: "string \<Rightarrow> 64 word" where
  "strtoul10 s = (case scan_llu s of None \<Rightarrow> 0 | Some (v, _) \<Rightarrow> v)"

text \<open>\<open>sscanf(stat_line, "%d (%255[^)])", ...)\<close>: the name, if it converts.\<close>

definition proc_comm :: "string \<Rightarrow> string option" where
  "proc_comm line =
     (case scan_d line of None \<Rightarrow> None
      | Some r \<Rightarrow> (case dropWhile c_isspace r of
          c # t \<Rightarrow> if c = CHR ''('' then map_option fst (scan_set 255 (\<lambda>x. x \<noteq> CHR '')'') t) else None
        | [] \<Rightarrow> None))"

text \<open>The loop over the words after the last parenthesis: state, parent, and five numbers by position.\<close>

record stat_vals =
  sv_state :: char
  sv_ppid :: int
  sv_utime :: "64 word"
  sv_stime :: "64 word"
  sv_nice :: int
  sv_vsize :: "64 word"
  sv_rss :: "64 word"

definition stat_word :: "nat \<Rightarrow> string \<Rightarrow> stat_vals \<Rightarrow> stat_vals" where
  "stat_word field token v =
     (if field = 1 then v\<lparr>sv_state := hd token\<rparr>
      else if field = 2 then v\<lparr>sv_ppid := atoi token\<rparr>
      else if field = 14 then v\<lparr>sv_utime := strtoul10 token\<rparr>
      else if field = 15 then v\<lparr>sv_stime := strtoul10 token\<rparr>
      else if field = 18 then v\<lparr>sv_nice := atoi token\<rparr>
      else if field = 23 then v\<lparr>sv_vsize := strtoul10 token\<rparr>
      else if field = 24 then v\<lparr>sv_rss := word_of_int (strtol10 token)\<rparr>
      else v)"

fun stat_words :: "nat \<Rightarrow> string list \<Rightarrow> stat_vals \<Rightarrow> stat_vals" where
  "stat_words field [] v = v"
| "stat_words field (t # ts) v = (if 39 \<le> field then v else stat_words (Suc field) ts (stat_word (Suc field) t v))"

definition no_stat :: stat_vals where
  "no_stat = \<lparr>sv_state = NUL, sv_ppid = 0, sv_utime = 0, sv_stime = 0, sv_nice = 0, sv_vsize = 0, sv_rss = 0\<rparr>"

text \<open>
  \<open>stat\<close>, \<open>status\<close> and \<open>cmdline\<close> are the files of a process, \<open>getpw\<close> is the user data base.
\<close>

record proc_files =
  pf_stat :: "bytes option"
  pf_status :: "bytes option"
  pf_cmdline :: "bytes option"

record proc_env =
  pe_page_size :: "64 word"
  pe_clock_ticks :: nat
  pe_getpw :: "nat \<Rightarrow> string option"
  pe_uptime :: rat
  pe_total_mem :: "64 word"

definition get_username :: "(nat \<Rightarrow> string option) \<Rightarrow> nat \<Rightarrow> string" where
  "get_username getpw uid = take 31 (case getpw uid of Some n \<Rightarrow> n | None \<Rightarrow> dec_nat uid)"

definition status_user :: "proc_env \<Rightarrow> bytes option \<Rightarrow> string" where
  "status_user e fp =
     (case fp of None \<Rightarrow> []
      | Some b \<Rightarrow> (case List.map_filter (\<lambda>l. scan_key ''Uid:'' (cstr l)) (fgets_lines 256 b) of
          [] \<Rightarrow> [] | u # _ \<Rightarrow> get_username (pe_getpw e) (unat u)))"

definition proc_command :: "string \<Rightarrow> bytes option \<Rightarrow> string" where
  "proc_command name fp =
     (let c = (case fp of None \<Rightarrow> [] | Some b \<Rightarrow> map (\<lambda>x. if x = NUL then CHR '' '' else x) (take 255 b))
      in if c = [] then take 63 (''['' @ name @ '']'') else c)"

text \<open>One entry of \<open>/proc\<close>: \<^const>\<open>None\<close> is the use of an uninitialised name, \<open>Some None\<close> a skipped entry.\<close>

definition process_entry :: "proc_env \<Rightarrow> (int \<Rightarrow> proc_files) \<Rightarrow> string \<Rightarrow> proc_info option option" where
  "process_entry e files d_name =
     (let pid = atoi d_name in
      if pid \<le> 0 then Some None
      else case pf_stat (files pid) of
        None \<Rightarrow> Some None
      | Some b \<Rightarrow>
        (case fgets_lines 1024 b of
           [] \<Rightarrow> Some None
         | raw # _ \<Rightarrow>
           (case strrchr (cstr raw) (CHR '')'') of
              None \<Rightarrow> Some None
            | Some rparen \<Rightarrow>
              (case proc_comm (cstr raw) of
                 None \<Rightarrow> None
               | Some comm \<Rightarrow>
                 (let v = stat_words 0 (blank_words (drop 2 rparen)) no_stat;
                      rss = sv_rss v * pe_page_size e div 1024
                  in Some (Some \<lparr>pr_pid = atoi (cstr raw), pr_ppid = sv_ppid v, pr_user = status_user e (pf_status (files pid)),
                       pr_state = sv_state v, pr_vm_rss = rss, pr_vm_size = sv_vsize v div 1024,
                       pr_cpu_percent = (if 0 < pe_uptime e \<and> 0 < pe_clock_ticks e
                          then 100 * (of_nat (unat (sv_utime v + sv_stime v)) / of_nat (pe_clock_ticks e)) / pe_uptime e else 0),
                       pr_mem_percent = (if 0 < pe_total_mem e then 100 * of_nat (unat rss) / of_nat (unat (pe_total_mem e)) else 0),
                       pr_command = proc_command (take 63 comm) (pf_cmdline (files pid)), pr_name = take 63 comm, pr_nice = sv_nice v\<rparr>))))))"

definition process_compare_cpu :: "proc_info \<Rightarrow> proc_info \<Rightarrow> int" where
  "process_compare_cpu a b = (if pr_cpu_percent a < pr_cpu_percent b then 1 else if pr_cpu_percent b < pr_cpu_percent a then -1 else 0)"

definition process_compare_mem :: "proc_info \<Rightarrow> proc_info \<Rightarrow> int" where
  "process_compare_mem a b = (if pr_mem_percent a < pr_mem_percent b then 1 else if pr_mem_percent b < pr_mem_percent a then -1 else 0)"

fun process_loop :: "proc_env \<Rightarrow> (int \<Rightarrow> proc_files) \<Rightarrow> string list \<Rightarrow> proc_info list \<Rightarrow> proc_info list option" where
  "process_loop e files [] acc = Some acc"
| "process_loop e files (n # ns) acc =
     (if MAX_PROCESSES \<le> length acc then Some acc
      else case process_entry e files n of
        None \<Rightarrow> None | Some None \<Rightarrow> process_loop e files ns acc | Some (Some p) \<Rightarrow> process_loop e files ns (acc @ [p]))"

text \<open>\<open>qsort\<close> with \<open>process_compare_cpu\<close>, here the stable sort with that order.\<close>

definition process_read :: "proc_env \<Rightarrow> (int \<Rightarrow> proc_files) \<Rightarrow> string list option \<Rightarrow> (int \<times> proc_info list) option" where
  "process_read e files entries =
     (case entries of None \<Rightarrow> Some (-1, [])
      | Some ns \<Rightarrow> map_option (\<lambda>ps. (0, sort_key (\<lambda>p. - pr_cpu_percent p) ps)) (process_loop e files ns []))"

subsection \<open>Keyboard and bars\<close>

text \<open>\<open>KEY_NONE\<close> is the \<open>ERR\<close> that \<open>getch\<close> returns when no key comes within the two seconds.\<close>

datatype ui_key = KEY_TAB | KEY_RIGHT | KEY_BTAB | KEY_LEFT | KEY_DOWN | KEY_UP | KEY_PPAGE | KEY_NPAGE | KEY_HOME | KEY_OTHER char | KEY_NONE

definition NUM_TABS :: int where "NUM_TABS = 5"

fun ui_handle_input :: "ui_key \<Rightarrow> int \<times> int \<Rightarrow> int \<times> int" where
  "ui_handle_input KEY_TAB (tab, off) = ((tab + 1) mod NUM_TABS, 0)"
| "ui_handle_input KEY_RIGHT (tab, off) = ((tab + 1) mod NUM_TABS, 0)"
| "ui_handle_input KEY_BTAB (tab, off) = ((tab - 1 + NUM_TABS) mod NUM_TABS, 0)"
| "ui_handle_input KEY_LEFT (tab, off) = ((tab - 1 + NUM_TABS) mod NUM_TABS, 0)"
| "ui_handle_input KEY_DOWN (tab, off) = (tab, off + 1)"
| "ui_handle_input KEY_UP (tab, off) = (tab, if 0 < off then off - 1 else off)"
| "ui_handle_input KEY_PPAGE (tab, off) = (tab, if off - 10 < 0 then 0 else off - 10)"
| "ui_handle_input KEY_NPAGE (tab, off) = (tab, off + 10)"
| "ui_handle_input KEY_HOME (tab, off) = (tab, 0)"
| "ui_handle_input (KEY_OTHER c) (tab, off) = (tab, off)"
| "ui_handle_input KEY_NONE (tab, off) = (tab, off)"

text \<open>The filled part of a bar.\<close>

definition bar_filled :: "int \<Rightarrow> rat \<Rightarrow> int" where
  "bar_filled width percent =
     (let f = c_trunc (percent / 100 * of_int width); g = (if width < f then width else f)
      in if g < 0 then 0 else g)"

subsection \<open>A round of the main loop\<close>

text \<open>
  \<open>sys_info_t\<close> as the readers fill it, and what one round reads from the system. The readers' return codes are
  ignored; \<^const>\<open>None\<close> is undefined behaviour of one of them.
\<close>

record sys_info =
  si_hostname :: string
  si_kernel :: string
  si_cpu :: sys_cpu
  si_memory :: mem_info
  si_processes :: "proc_info list"
  si_disks :: "disk_info list"
  si_net :: "net_info list"

record proc_fs =
  fs_stat :: "bytes option"
  fs_loadavg :: "rat list option"
  fs_uptime :: "rat list option"
  fs_meminfo :: "bytes option"
  fs_pids :: "string list option"
  fs_proc :: "int \<Rightarrow> proc_files"
  fs_mounts :: "bytes option"
  fs_statvfs :: "string \<Rightarrow> statvfs option"
  fs_net_dev :: "bytes option"
  fs_page_size :: "64 word"
  fs_clock_ticks :: nat
  fs_getpw :: "nat \<Rightarrow> string option"

definition monitor_round :: "proc_fs \<Rightarrow> sys_info \<Rightarrow> sys_info option" where
  "monitor_round k si =
     (let c = cpu_calculate_usage (snd (cpu_read (fs_stat k) (fs_loadavg k) (fs_uptime k) (si_cpu si))) (si_cpu si);
          m = snd (memory_read (fs_meminfo k) (si_memory si));
          e = \<lparr>pe_page_size = fs_page_size k, pe_clock_ticks = fs_clock_ticks k, pe_getpw = fs_getpw k,
               pe_uptime = sy_uptime c, pe_total_mem = mi_total m\<rparr>
      in case process_read e (fs_proc k) (fs_pids k) of
           None \<Rightarrow> None
         | Some (rc, ps) \<Rightarrow>
           (case network_read (fs_net_dev k) (si_net si) of
              None \<Rightarrow> None
            | Some (rn, ns) \<Rightarrow> Some (si\<lparr>si_cpu := c, si_memory := m, si_processes := (if rc = 0 then ps else si_processes si),
                 si_disks := snd (disk_read (fs_statvfs k) (fs_mounts k) (si_disks si)),
                 si_net := network_calculate_rate ns (si_net si) 2\<rparr>)))"

subsection \<open>Usage and input\<close>

text \<open>
  When the counters have grown and the idle time by no more than the sum, the usage is a percentage; it is 0
  when all of the time was idle.
\<close>

lemma usage_percentage:
  assumes "unat (cpu_vals c ! 3 - cpu_vals p ! 3) \<le> unat (cpu_total c - cpu_total p)" and "cpu_total c \<noteq> cpu_total p"
  shows "0 \<le> cpu_usage (usage_of c p) \<and> cpu_usage (usage_of c p) \<le> 100"
proof -
  let ?t = "unat (cpu_total c - cpu_total p)" and ?d = "unat (cpu_vals c ! 3 - cpu_vals p ! 3)"
  have t: "0 < cpu_total c - cpu_total p" using assms(2) by (simp add: word_neq_0_conv [symmetric])
  have "cpu_total c - cpu_total p \<noteq> 0" using assms(2) by simp
  then have tp: "0 < ?t" by (metis gr0I unsigned_eq_0_iff)
  have "(of_nat a :: rat) / of_nat b \<le> 1" if "a \<le> b" "0 < b" for a b :: nat using that by (simp add: divide_le_eq_1)
  from this [OF assms(1) tp] have "(of_nat ?d :: rat) / of_nat ?t \<le> 1" .
  moreover have "0 \<le> (of_nat ?d :: rat) / of_nat ?t" by (intro divide_nonneg_nonneg of_nat_0_le_iff)
  moreover have "cpu_usage (usage_of c p) = 100 * (1 - of_nat ?d / of_nat ?t)" using t by (simp add: usage_of_def Let_def)
  ultimately have "\<exists>q. 0 \<le> q \<and> q \<le> 1 \<and> cpu_usage (usage_of c p) = 100 * (1 - q)" by blast
  then obtain q where "0 \<le> q" "q \<le> 1" "cpu_usage (usage_of c p) = 100 * (1 - q)" by blast
  then show ?thesis by simp
qed

lemma ui_input_range:
  "0 \<le> tab \<and> tab < NUM_TABS \<and> 0 \<le> off \<Longrightarrow> ui_handle_input k (tab, off) = (tab', off') \<Longrightarrow> 0 \<le> tab' \<and> tab' < NUM_TABS \<and> 0 \<le> off'"
  by (cases k) (auto simp: NUM_TABS_def)

lemma bar_filled_range: "0 \<le> width \<Longrightarrow> 0 \<le> bar_filled width pc \<and> bar_filled width pc \<le> width"
  by (simp add: bar_filled_def Let_def)

lemma process_read_sorted:
  assumes "process_read e files (Some ns) = Some (0, ps)"
  shows "sorted_wrt (\<lambda>a b. process_compare_cpu a b \<le> 0) ps"
proof -
  obtain qs where "ps = sort_key (\<lambda>p. - pr_cpu_percent p) qs" using assms by (auto simp: process_read_def)
  then have "sorted (map (\<lambda>p. - pr_cpu_percent p) ps)" by simp
  then show ?thesis by (auto simp: sorted_wrt_map process_compare_cpu_def elim: sorted_wrt_mono_rel [rotated])
qed

subsection \<open>The fields of a process\<close>

lemma stat_words_field:
  assumes "\<And>i t v. i \<noteq> k \<Longrightarrow> g (stat_word i t v) = g v" and "\<And>t v. g (stat_word k t v) = h t" and "k \<le> 39"
  shows "g (stat_words f ts v) = (if f < k \<and> k \<le> f + length ts then h (ts ! (k - Suc f)) else g v)"
proof (induction ts arbitrary: f v)
  case (Cons t ts)
  show ?case
  proof (cases "39 \<le> f")
    case True
    then show ?thesis using assms(3) by simp
  next
    case False
    have "g (stat_words f (t # ts) v) = (if Suc f < k \<and> k \<le> Suc f + length ts then h (ts ! (k - Suc (Suc f))) else g (stat_word (Suc f) t v))"
      using False Cons by simp
    moreover have "g (stat_word (Suc f) t v) = (if Suc f = k then h t else g v)" using assms(1,2) by simp
    moreover have "(t # ts) ! (k - Suc f) = ts ! (k - Suc (Suc f))" if "Suc f < k" using that by (simp add: nth_Cons')
    ultimately show ?thesis by (auto simp: nth_Cons')
  qed
qed auto

lemma stat_words_values:
  assumes "24 \<le> length ts"
  shows "sv_ppid (stat_words 0 ts v) = atoi (ts ! 1)" and "sv_utime (stat_words 0 ts v) = strtoul10 (ts ! 13)"
    and "sv_stime (stat_words 0 ts v) = strtoul10 (ts ! 14)" and "sv_nice (stat_words 0 ts v) = atoi (ts ! 17)"
    and "sv_vsize (stat_words 0 ts v) = strtoul10 (ts ! 22)" and "sv_rss (stat_words 0 ts v) = word_of_int (strtol10 (ts ! 23))"
  using assms stat_words_field [of 2 sv_ppid atoi 0 ts v] stat_words_field [of 14 sv_utime strtoul10 0 ts v]
    stat_words_field [of 15 sv_stime strtoul10 0 ts v] stat_words_field [of 18 sv_nice atoi 0 ts v]
    stat_words_field [of 23 sv_vsize strtoul10 0 ts v] stat_words_field [of 24 sv_rss "\<lambda>t. word_of_int (strtol10 t)" 0 ts v]
  by (simp_all add: stat_word_def)

fun blank_join :: "string list \<Rightarrow> string" where
  "blank_join [] = []"
| "blank_join [w] = w"
| "blank_join (w # ws) = w @ '' '' @ blank_join ws"

lemma split_blank_word: "CHR '' '' \<notin> set w \<Longrightarrow> split_blank (w @ CHR '' '' # s) = w # split_blank s"
  by (induction w) auto

lemma split_blank_last: "CHR '' '' \<notin> set w \<Longrightarrow> split_blank w = [w]"
  by (induction w) auto

lemma blank_words_join:
  "list_all (\<lambda>w. w \<noteq> [] \<and> CHR '' '' \<notin> set w) ws \<Longrightarrow> blank_words (blank_join ws) = ws"
proof (induction ws rule: blank_join.induct)
  case (2 w)
  then show ?case by (simp add: blank_words_def split_blank_last)
next
  case (3 w w' ws)
  then show ?case using split_blank_word [of w "blank_join (w' # ws)"] by (simp add: blank_words_def)
qed (simp add: blank_words_def)

lemma blank_join_snoc: "ws \<noteq> [] \<Longrightarrow> blank_join (butlast ws @ [last ws @ x]) = blank_join ws @ x"
proof (induction ws rule: blank_join.induct)
  case (3 w w' ws)
  obtain a as where "butlast (w' # ws) @ [last (w' # ws) @ x] = a # as" by (cases "butlast (w' # ws)") auto
  then show ?case using 3 by simp
qed auto

lemma strrchr_last: "c \<notin> set b \<Longrightarrow> strrchr (a @ c # b) c = Some (c # b)"
proof -
  assume c: "c \<notin> set b"
  have "takeWhile (\<lambda>x. x \<noteq> c) (rev b @ c # rev a) = rev b" using c by (subst takeWhile_append2) auto
  then show ?thesis by (simp add: strrchr_def)
qed

text \<open>The field of \<open>/proc/<pid>/stat\<close> that \<open>proc(5)\<close> lists under number \<open>n\<close>; \<open>F\<close> are the fields from the third on.\<close>

definition proc5 :: "nat \<Rightarrow> string list \<Rightarrow> string" where
  "proc5 n F = F ! (n - 3)"

definition stat_text :: "nat \<Rightarrow> string \<Rightarrow> string list \<Rightarrow> bytes" where
  "stat_text pid comm F = dec_nat pid @ '' ('' @ comm @ '') '' @ blank_join F @ [LF]"

definition stat_ok :: "nat \<Rightarrow> string \<Rightarrow> string list \<Rightarrow> bool" where
  "stat_ok pid comm F \<longleftrightarrow> 0 < pid \<and> pid < 2 ^ 31 \<and> comm \<noteq> [] \<and> length comm \<le> 63 \<and> CHR '')'' \<notin> set comm \<and> 25 \<le> length F \<and>
     list_all (\<lambda>w. w \<noteq> [] \<and> CHR '' '' \<notin> set w \<and> CHR '')'' \<notin> set w) F \<and> is_cstr (stat_text pid comm F) \<and>
     LF \<notin> set (butlast (stat_text pid comm F)) \<and> length (stat_text pid comm F) < 1024"

lemma set_blank_join: "set (blank_join ws) \<subseteq> (\<Union>w \<in> set ws. set w) \<union> {CHR '' ''}"
  by (induction ws rule: blank_join.induct) auto

lemma proc_comm_text:
  assumes "stat_ok pid comm F"
  shows "proc_comm (stat_text pid comm F) = Some comm"
proof -
  have "scan_llu ([] @ dec_nat pid @ ('' ('' @ comm @ '') '' @ blank_join F @ [LF])) = Some (of_nat pid, '' ('' @ comm @ '') '' @ blank_join F @ [LF])"
    using assms by (intro scan_llu_dec) (auto simp: stat_ok_def c_isdigit_def)
  then have d: "scan_d (stat_text pid comm F) = Some ('' ('' @ comm @ '') '' @ blank_join F @ [LF])" by (simp add: scan_d_def stat_text_def)
  have "takeWhile (\<lambda>x. x \<noteq> CHR '')'') (comm @ CHR '')'' # r) = comm" for r
    using assms by (subst takeWhile_append2) (auto simp: stat_ok_def)
  then have "scan_set 255 (\<lambda>x. x \<noteq> CHR '')'') (comm @ '') '' @ blank_join F @ [LF]) = Some (comm, '') '' @ blank_join F @ [LF])"
    using assms by (simp add: scan_set_def stat_ok_def)
  then show ?thesis using d by (simp add: proc_comm_def c_isspace_def)
qed

lemma stat_rparen:
  assumes "stat_ok pid comm F"
  shows "strrchr (stat_text pid comm F) (CHR '')'') = Some ('') '' @ blank_join F @ [LF])"
proof -
  have "CHR '')'' \<notin> set ('' '' @ blank_join F @ [LF])"
    using assms set_blank_join [of F] by (auto simp: stat_ok_def list_all_iff)
  from strrchr_last [OF this, of "dec_nat pid @ '' ('' @ comm"] show ?thesis by (simp add: stat_text_def)
qed

lemma stat_words_text:
  assumes "stat_ok pid comm F"
  shows "blank_words (blank_join F @ [LF]) = butlast F @ [last F @ [LF]]"
proof -
  have ne: "F \<noteq> []" using assms by (auto simp: stat_ok_def)
  have "list_all (\<lambda>w. w \<noteq> [] \<and> CHR '' '' \<notin> set w) F" using assms by (auto simp: stat_ok_def list_all_iff)
  then have "list_all (\<lambda>w. w \<noteq> [] \<and> CHR '' '' \<notin> set w) (butlast F @ [last F @ [LF]])"
    using ne by (auto simp: list_all_iff dest: in_set_butlastD)
  from blank_words_join [OF this] show ?thesis using blank_join_snoc [OF ne] by simp
qed

lemma atoi_stat: "stat_ok pid comm F \<Longrightarrow> atoi (stat_text pid comm F) = int pid"
proof -
  assume ok: "stat_ok pid comm F"
  obtain c t where ct: "dec_nat pid = c # t" by (cases "dec_nat pid") auto
  have c: "\<not> c_isspace c" "c \<noteq> CHR ''-''" "c \<noteq> CHR ''+''" using dec_nat_isdigit [of c pid] ct by auto
  have "digits_val 10 0 (dec_nat pid @ CHR '' '' # r) = pid" for r
    using dec_nat_digits [of pid] by (subst digits_val_append) (auto simp: digits_val_dec_nat digit_val_def)
  then have "strtol10 (stat_text pid comm F) = int pid" using c ct ok
    by (simp add: strtol10_def stat_text_def Let_def stat_ok_def)
  then show ?thesis using ok by (simp add: atoi_def to_int32_id stat_ok_def)
qed

lemma stat_text_line: "stat_ok pid comm F \<Longrightarrow> fgets_lines 1024 (stat_text pid comm F) = [stat_text pid comm F]"
proof -
  assume ok: "stat_ok pid comm F"
  let ?t = "stat_text pid comm F"
  have "?t = butlast ?t @ LF # []" by (simp add: stat_text_def butlast_append)
  moreover have "LF \<notin> set (butlast ?t)" "length (butlast ?t) + 1 < 1024" using ok by (auto simp: stat_ok_def)
  ultimately show ?thesis by (metis fgets_lines_line fgets_lines_nil)
qed

lemma process_entry_found:
  assumes "stat_ok pid comm F" and "pf_stat (files (int pid)) = Some (stat_text pid comm F)"
  shows "\<exists>p. process_entry e files (dec_nat pid) = Some (Some p) \<and> pr_pid p = int pid"
proof -
  have "atoi (dec_nat pid) = int pid" using assms(1) by (intro atoi_dec_nat) (simp add: stat_ok_def)
  moreover have "cstr (stat_text pid comm F) = stat_text pid comm F" "0 < pid" using assms(1) by (simp_all add: stat_ok_def)
  ultimately show ?thesis
    using assms stat_text_line [OF assms(1)] stat_rparen [OF assms(1)] proc_comm_text [OF assms(1)] atoi_stat [OF assms(1)]
    by (simp add: process_entry_def Let_def)
qed

text \<open>
  The process list shows the wrong columns: the words after the name are numbered from 1 where \<open>proc(5)\<close>
  numbers them from 3, so for every process the CPU share is computed from the times of its children
  (fields 16 and 17) instead of its own (14 and 15), the nice value is its number of threads (20, not 19), the
  virtual size is the limit of the resident size (25, not 23) and the resident size is the address of its code
  (26, not 24). Process, parent and name are right.
\<close>

lemma stat_fields_shifted:
  assumes "stat_ok pid comm F" and "pf_stat (files (int pid)) = Some (stat_text pid comm F)" and "0 < pe_uptime e" and "0 < pe_clock_ticks e"
  shows "\<exists>p. process_entry e files (dec_nat pid) = Some (Some p) \<and> pr_pid p = int pid \<and> pr_ppid p = atoi (proc5 4 F) \<and> pr_name p = comm \<and>
    pr_cpu_percent p = 100 * (of_nat (unat (strtoul10 (proc5 16 F) + strtoul10 (proc5 17 F))) / of_nat (pe_clock_ticks e)) / pe_uptime e \<and>
    pr_nice p = atoi (proc5 20 F) \<and> pr_vm_size p = strtoul10 (proc5 25 F) div 1024 \<and>
    pr_vm_rss p = word_of_int (strtol10 (proc5 26 F)) * pe_page_size e div 1024"
proof -
  let ?t = "stat_text pid comm F"
  have a: "atoi (dec_nat pid) = int pid" using assms(1) by (intro atoi_dec_nat) (simp add: stat_ok_def)
  have l: "fgets_lines 1024 ?t = [?t]" by (rule stat_text_line [OF assms(1)])
  have c: "cstr ?t = ?t" using assms(1) by (simp add: stat_ok_def)
  let ?W = "butlast F @ [last F @ [LF]]"
  have w: "blank_words (drop 2 ('') '' @ blank_join F @ [LF])) = ?W" using stat_words_text [OF assms(1)] by simp
  have len: "24 \<le> length ?W" "25 \<le> length F" using assms(1) by (auto simp: stat_ok_def)
  have nth: "?W ! i = F ! i" if "i < 24" for i
  proof -
    have "i < length (butlast F)" using that len by simp
    then show ?thesis by (simp add: nth_append nth_butlast)
  qed
  note v = stat_words_values [OF len(1), of no_stat]
  show ?thesis
    using assms a l c w v nth stat_rparen [OF assms(1)] proc_comm_text [OF assms(1)] atoi_stat [OF assms(1)]
    by (simp add: process_entry_def Let_def proc5_def stat_ok_def)
qed

text \<open>The first process of a machine: 40 ms of its own, 1.1 s of its children, 5 threads.\<close>

definition init_fields :: "string list" where
  "init_fields = [''S'', ''0'', ''1'', ''1'', ''0'', ''-1'', ''4194560'', ''100'', ''200'', ''3'', ''4'', ''1'', ''3'', ''50'', ''60'',
     ''20'', ''0'', ''5'', ''0'', ''9'', ''1000000'', ''250'', ''777777'', ''94000000'', ''94100000'']"

definition init_env :: proc_env where
  "init_env = \<lparr>pe_page_size = 4096, pe_clock_ticks = 100, pe_getpw = (\<lambda>_. None), pe_uptime = 1000, pe_total_mem = 1000\<rparr>"

definition init_files :: "int \<Rightarrow> proc_files" where
  "init_files i = \<lparr>pf_stat = (if i = 1 then Some (stat_text 1 ''init'' init_fields) else None), pf_status = None, pf_cmdline = None\<rparr>"

lemma init_stat_ok: "stat_ok 1 ''init'' init_fields"
proof -
  have "dec_nat 1 = ''1''" by code_simp
  then show ?thesis by (simp add: stat_ok_def stat_text_def init_fields_def)
qed

lemma stat_fields_shifted_witness:
  "\<exists>p. process_entry init_env init_files (dec_nat 1) = Some (Some p) \<and> pr_cpu_percent p = 11 / 100 \<and> pr_nice p = 5"
proof -
  have f: "pf_stat (init_files (int 1)) = Some (stat_text 1 ''init'' init_fields)" by (simp add: init_files_def)
  have e: "0 < pe_uptime init_env" "0 < pe_clock_ticks init_env" "pe_uptime init_env = 1000" "pe_clock_ticks init_env = 100"
    by (simp_all add: init_env_def)
  have n: "atoi (proc5 20 init_fields) = 5" "strtoul10 (proc5 16 init_fields) = 50" "strtoul10 (proc5 17 init_fields) = 60"
    by (simp_all add: proc5_def init_fields_def atoi_def strtol10_def strtoul10_def scan_llu_def c_isspace_def c_isdigit_def
          digit_val_def to_int32_def)
  from stat_fields_shifted [of 1 "''init''" init_fields init_files init_env, OF init_stat_ok f e(1,2)]
  show ?thesis by (auto simp: n e)
qed

subsection \<open>The interfaces of \<open>/proc/net/dev\<close>\<close>

text \<open>How many numbers a text holds: a digit that does not follow a digit starts one.\<close>

fun digit_groups :: "bool \<Rightarrow> string \<Rightarrow> nat" where
  "digit_groups p [] = 0"
| "digit_groups p (c # cs) = (if c_isdigit c \<and> \<not> p then 1 else 0) + digit_groups (c_isdigit c) cs"

lemma digit_groups_append: "digit_groups p (a @ b) = digit_groups p a + digit_groups (if a = [] then p else c_isdigit (last a)) b"
  by (induction a arbitrary: p) auto

lemma digit_groups_mono: "digit_groups True s \<le> digit_groups p s"
  by (cases s) auto

lemma digit_groups_take: "digit_groups p (take m s) \<le> digit_groups p s"
proof -
  have "digit_groups p s = digit_groups p (take m s @ drop m s)" by simp
  then show ?thesis by (simp only: digit_groups_append)
qed

lemma digit_groups_digits: "\<forall>c \<in> set ds. c_isdigit c \<Longrightarrow> digit_groups p ds = (if ds \<noteq> [] \<and> \<not> p then 1 else 0)"
  by (induction ds arbitrary: p) auto

lemma digit_groups_blanks: "\<forall>c \<in> set ws. \<not> c_isdigit c \<Longrightarrow> digit_groups p ws = 0"
  by (induction ws arbitrary: p) auto

lemma digit_groups_dropWhile: "digit_groups p (dropWhile c_isdigit d) = digit_groups q (dropWhile c_isdigit d)"
  by (induction d) auto

lemma scan_llu_group:
  assumes "scan_llu s = Some (v, r)"
  shows "Suc (digit_groups False r) \<le> digit_groups False s"
proof -
  define r1 where "r1 = dropWhile c_isspace s"
  define d where "d = (if r1 \<noteq> [] \<and> (hd r1 = CHR ''-'' \<or> hd r1 = CHR ''+'') then tl r1 else r1)"
  define ds where "ds = takeWhile c_isdigit d"
  have ds: "ds \<noteq> []" "r = drop (length ds) d"
    using assms by (auto simp: scan_llu_def Let_def r1_def d_def ds_def split: if_splits)
  then have r: "r = dropWhile c_isdigit d" by (simp add: ds_def dropWhile_eq_drop)
  have r2: "d = ds @ r" using takeWhile_dropWhile_id [of c_isdigit d] by (simp add: r ds_def)
  obtain sg where sg: "r1 = sg @ d" "\<forall>c \<in> set sg. \<not> c_isdigit c"
  proof (cases "r1 \<noteq> [] \<and> (hd r1 = CHR ''-'' \<or> hd r1 = CHR ''+'')")
    case True
    then show ?thesis by (intro that [of "[hd r1]"]) (auto simp: d_def c_isdigit_def)
  next
    case False
    then show ?thesis by (intro that [of "[]"]) (auto simp: d_def)
  qed
  have s: "s = (takeWhile c_isspace s @ sg) @ ds @ r" using r2 sg(1) takeWhile_dropWhile_id [of c_isspace s] by (simp add: r1_def)
  have nd: "\<forall>c \<in> set (takeWhile c_isspace s @ sg). \<not> c_isdigit c"
    using sg(2) by (auto dest!: set_takeWhileD simp: c_isspace_def c_isdigit_def)
  have dg: "\<forall>c \<in> set ds. c_isdigit c" by (auto simp: ds_def dest: set_takeWhileD)
  have "\<not> c_isdigit (last (takeWhile c_isspace s @ sg))" if "takeWhile c_isspace s @ sg \<noteq> []" using nd that last_in_set by blast
  then have "digit_groups False s = 1 + digit_groups True r"
    using nd dg ds(1) last_in_set [of ds]
    by (subst s) (simp only: digit_groups_append [of False "takeWhile c_isspace s @ sg"] digit_groups_append [of _ ds]
          digit_groups_blanks [OF nd] digit_groups_digits [OF dg], auto)
  moreover have "digit_groups True r = digit_groups False r" 
    unfolding r by (rule digit_groups_dropWhile)
  ultimately show ?thesis by simp
qed

lemma scan_llus_groups: "length (scan_llus k s) \<le> digit_groups False s"
proof (induction k arbitrary: s)
  case (Suc k)
  show ?case
  proof (cases "scan_llu s")
    case (Some p)
    obtain v r where p: "p = (v, r)" by (cases p)
    show ?thesis using Suc [of r] scan_llu_group [of s v r] Some p by simp
  qed simp
qed simp

text \<open>
  A line of the file as the kernel prints it: the name right-aligned in 6 columns, a colon, and 16 counters
  right-aligned in columns of fixed width.
\<close>

definition net_widths :: "nat list" where
  "net_widths = [7, 7, 4, 4, 4, 5, 10, 9, 8, 7, 4, 4, 4, 5, 7, 10]"

definition net_cell :: "nat \<times> nat \<Rightarrow> string" where
  "net_cell c = '' '' @ pad_left (fst c) (CHR '' '') (dec_nat (snd c))"

definition net_text :: "string \<times> nat list \<Rightarrow> string" where
  "net_text d = pad_left 6 (CHR '' '') (fst d) @ '':'' @ concat (map net_cell (zip net_widths (snd d)))"

definition net_dev_ok :: "string \<times> nat list \<Rightarrow> bool" where
  "net_dev_ok d \<longleftrightarrow> fst d \<noteq> [] \<and> length (fst d) < 16 \<and> list_all (\<lambda>c. c \<noteq> CHR '' '' \<and> c \<noteq> CHR '':'' \<and> c \<noteq> LF \<and> c \<noteq> NUL) (fst d) \<and>
     length (snd d) = 16 \<and> list_all (\<lambda>x. x < 2 ^ 64) (snd d)"

lemma net_cell_groups: "digit_groups p (net_cell c) \<le> 1"
proof -
  have "digit_groups p (('' '' @ replicate k (CHR '' '')) @ dec_nat x) \<le> 1" for k x
    using digit_groups_digits [of "dec_nat x"] dec_nat_isdigit
    by (subst digit_groups_append) (auto simp: digit_groups_blanks c_isdigit_def)
  then show ?thesis by (simp add: net_cell_def pad_left_def)
qed

lemma net_cells_groups: "digit_groups p (concat (map net_cell cs)) \<le> length cs"
proof (induction cs arbitrary: p)
  case (Cons c cs)
  show ?case using Cons net_cell_groups [of p c] by (simp add: digit_groups_append)
    (metis One_nat_def add_mono plus_1_eq_Suc le_SucI)
qed simp

lemma net_cell_length: "Suc (fst c) \<le> length (net_cell c)" "snd c < 2 ^ 64 \<Longrightarrow> fst c \<le> 10 \<Longrightarrow> length (net_cell c) \<le> 21"
  using dec_nat_length [of "snd c" 20] by (auto simp: net_cell_def)

text \<open>The first five columns take more than 30 characters.\<close>

lemma net_cells_split:
  assumes "length xs = 16"
  obtains A rest where "concat (map net_cell (zip net_widths xs)) = A @ rest" and "29 \<le> length A" and "digit_groups False A \<le> 5"
proof -
  have "xs = take 5 xs @ drop 5 xs" by simp
  moreover obtain a b c d e where "take 5 xs = [a, b, c, d, e]"
    using assms by (auto simp: length_Suc_conv numeral_eq_Suc)
  ultimately obtain ys where xs: "xs = a # b # c # d # e # ys" by (metis append_Cons append_Nil)
  let ?A = "concat (map net_cell (zip [7, 7, 4, 4, 4] xs))"
  show ?thesis
  proof (rule that [of ?A])
    show "concat (map net_cell (zip net_widths xs)) = ?A @ concat (map net_cell (zip (drop 5 net_widths) ys))"
      by (simp add: xs net_widths_def)
    show "29 \<le> length ?A"
      using net_cell_length(1) [of "(7, a)"] net_cell_length(1) [of "(7, b)"] net_cell_length(1) [of "(4, c)"]
        net_cell_length(1) [of "(4, d)"] net_cell_length(1) [of "(4, e)"] by (simp add: xs)
    show "digit_groups False ?A \<le> 5" using net_cells_groups [of False "zip [7, 7, 4, 4, 4] xs"] by (simp add: xs)
  qed
qed

lemma net_text_split: "net_text d = replicate (6 - length (fst d)) (CHR '' '') @ fst d @ CHR '':'' # concat (map net_cell (zip net_widths (snd d)))"
  by (simp add: net_text_def pad_left_def)

lemma net_cell_chars: "c \<in> set (net_cell x) \<Longrightarrow> c = CHR '' '' \<or> c_isdigit c"
  using dec_nat_isdigit by (auto simp: net_cell_def pad_left_def)

lemma net_text_chars:
  assumes "net_dev_ok d"
  shows "LF \<notin> set (net_text d)" and "is_cstr (net_text d)" and "length (net_text d) < 400"
proof -
  have "c \<noteq> LF \<and> c \<noteq> NUL" if "c \<in> set (net_text d)" for c
  proof -
    consider "c = CHR '' ''" | "c = CHR '':''" | "c \<in> set (fst d)" | x where "c \<in> set (net_cell x)"
      using \<open>c \<in> set (net_text d)\<close> by (auto simp: net_text_split)
    then show ?thesis
    proof cases
      case 3
      then show ?thesis using assms by (auto simp: net_dev_ok_def list_all_iff)
    next
      case (4 x)
      then show ?thesis using net_cell_chars [of c x] by (auto simp: c_isdigit_def)
    qed simp_all
  qed
  then show "LF \<notin> set (net_text d)" "is_cstr (net_text d)" by (auto simp: is_cstr_def)
  have "length (net_cell x) \<le> 21" if "x \<in> set (zip net_widths (snd d))" for x
  proof (rule net_cell_length(2))
    have "snd x \<in> set (snd d)" "fst x \<in> set net_widths" using that set_zip_leftD set_zip_rightD by (metis prod.collapse)+
    moreover have "\<forall>v \<in> set (snd d). v < 2 ^ 64" using assms unfolding net_dev_ok_def list_all_iff by blast
    moreover have "\<forall>w \<in> set net_widths. w \<le> 10" by (simp add: net_widths_def)
    ultimately show "snd x < 2 ^ 64" "fst x \<le> 10" by blast+
  qed
  then have "sum_list (map (length \<circ> net_cell) (zip net_widths (snd d))) \<le> sum_list (map (\<lambda>_. 21) (zip net_widths (snd d)))"
    by (intro sum_list_mono) simp
  also have "\<dots> \<le> 336" using assms by (simp add: net_widths_def net_dev_ok_def sum_list_triv)
  finally have "length (concat (map net_cell (zip net_widths (snd d)))) \<le> 336" by (simp add: length_concat comp_def)
  moreover have "length (fst d) < 16" using assms by (simp add: net_dev_ok_def)
  ultimately show "length (net_text d) < 400" by (simp add: net_text_split)
qed

lemma net_line_skips:
  assumes "net_dev_ok d"
  shows "net_line (net_text d @ [LF]) = Some None"
proof -
  let ?b = "replicate (6 - length (fst d)) (CHR '' '')" and ?n = "fst d" and ?c = "concat (map net_cell (zip net_widths (snd d)))"
  let ?l = "net_text d @ [LF]" and ?s = "length ?b" and ?k = "length ?b + length ?n"
  have n: "?n \<noteq> []" "length ?n < 16" "CHR '':'' \<notin> set ?n" "CHR '' '' \<notin> set ?n" using assms by (auto simp: net_dev_ok_def list_all_iff)
  have l: "?l = (?b @ ?n) @ CHR '':'' # ?c @ [LF]" by (simp add: net_text_split)
  have k: "length (takeWhile (\<lambda>c. c \<noteq> CHR '':'') ?l) = ?k" unfolding l using n(3) by (subst takeWhile_append2) auto
  have t: "take ?k ?l = ?b @ ?n" unfolding l by (subst take_append) simp
  have s: "length (takeWhile (\<lambda>c. c = CHR '' '') (?b @ ?n)) = ?s"
    using n(1,4) by (subst takeWhile_append2) (auto simp: takeWhile_eq_Nil_iff dest: hd_in_set)
  obtain A rest where A: "?c = A @ rest" "29 \<le> length A" "digit_groups False A \<le> 5"
    using net_cells_split [of "snd d"] assms by (auto simp: net_dev_ok_def)
  have "1 \<le> length ?n" using n(1) by (cases ?n) auto
  then have "after_colon ?l ?s ?k = take (30 - length ?n) A" using n(2) A(2) by (simp add: after_colon_def l A(1))
  then have len: "length (scan_llus 16 (after_colon ?l ?s ?k)) \<le> 5"
    using A(3) scan_llus_groups [of 16 "take (30 - length ?n) A"] digit_groups_take [of False "30 - length ?n" A] by simp
  have c: "cstr ?l = ?l" using net_text_chars(2) [OF assms] by simp
  have "\<not> 512 \<le> ?s + 31" "\<not> 10 \<le> length (scan_llus 16 (after_colon ?l ?s ?k))" using len by simp_all
  then show ?thesis unfolding net_line_def Let_def c k t s by (simp add: not_le)
qed

text \<open>
  The network page is always empty: for every \<open>/proc/net/dev\<close> in the format of the kernel, whatever the
  interfaces and their counters, \<open>network_read\<close> reports success and lists no interface. The
  terminating zero written 31 characters after the start of the name cuts the line in its fifth counter
  at the latest, and ten are needed.
\<close>

lemma network_never_listed:
  assumes "list_all (\<lambda>h. LF \<notin> set h \<and> length h + 1 < 512) [h1, h2]" and "list_all net_dev_ok devs"
  shows "network_read (Some (concat (map (\<lambda>l. l @ [LF]) (h1 # h2 # map net_text devs)))) old = Some (0, [])"
proof -
  have "list_all (\<lambda>l. LF \<notin> set l \<and> length l + 1 < 512) (h1 # h2 # map net_text devs)"
    using assms net_text_chars by (fastforce simp: list_all_iff)
  note ls = fgets_lines_lines [OF this]
  have "net_loop (map (\<lambda>l. l @ [LF]) (map net_text devs)) acc = Some acc" for acc
    using assms(2) by (induction devs) (simp_all add: net_line_skips)
  then show ?thesis unfolding network_read_def option.case ls Let_def by simp
qed

theorem network_never_listed_witness:
  "network_read (Some (concat (map (\<lambda>l. l @ [LF])
     [''Inter-|   Receive                   |  Transmit'', '' face |bytes    packets errs'',
      net_text (''eth0'', [1234, 5, 0, 0, 0, 0, 0, 0, 777, 4, 0, 0, 0, 0, 0, 0])]))) [] = Some (0, [])"
  using network_never_listed [of "''Inter-|   Receive                   |  Transmit''" "'' face |bytes    packets errs''"
    "[(''eth0'', [1234, 5, 0, 0, 0, 0, 0, 0, 777, 4, 0, 0, 0, 0, 0, 0])]" "[]"]
  by (simp add: net_dev_ok_def)

end
