(* ===== verification/Sysmon_Cpu.thy ===== *)
theory Sysmon_Cpu
  imports Sysmon
begin

text \<open>
  The CPU page of the system monitor: what \<open>cpu_read\<close> and \<open>cpu_calculate_usage\<close> make of two readings of
  \<open>/proc/stat\<close> in the format of the kernel.
\<close>

subsection \<open>The file\<close>

text \<open>A reading: the counters of all CPUs together, those of each CPU, and the other lines.\<close>

type_synonym cpu_counts = "nat list"
type_synonym cpu_reading = "cpu_counts \<times> cpu_counts list \<times> string list"

definition counter_text :: "cpu_counts \<Rightarrow> string" where
  "counter_text xs = concat (map (\<lambda>x. '' '' @ dec_nat x) xs)"

definition core_name :: "nat \<Rightarrow> string" where
  "core_name i = ''cpu'' @ dec_nat i"

definition reading_lines :: "cpu_reading \<Rightarrow> string list" where
  "reading_lines r = (case r of (t, cs, others) \<Rightarrow>
     (''cpu '' @ counter_text t) # map (\<lambda>(i, c). core_name i @ counter_text c) (List.enumerate 0 cs) @ others)"

definition reading_text :: "cpu_reading \<Rightarrow> bytes" where
  "reading_text r = concat (map (\<lambda>l. l @ [LF]) (reading_lines r))"

definition counts_ok :: "cpu_counts \<Rightarrow> bool" where
  "counts_ok xs \<longleftrightarrow> length xs = 10 \<and> sum_list (take 8 xs) < 2 ^ 64 \<and> list_all (\<lambda>x. x < 2 ^ 64) xs"

definition reading_ok :: "cpu_reading \<Rightarrow> bool" where
  "reading_ok r \<longleftrightarrow> (case r of (t, cs, others) \<Rightarrow> counts_ok t \<and> list_all counts_ok cs \<and> length cs < MAX_CPUS \<and>
     list_all (\<lambda>l. LF \<notin> set l \<and> length l + 1 < 512 \<and> take 3 (cstr (l @ [LF])) \<noteq> ''cpu'') others)"

subsection \<open>Lines\<close>

lemma counter_text_chars: "c \<in> set (counter_text xs) \<Longrightarrow> c = CHR '' '' \<or> c_isdigit c"
  using dec_nat_isdigit by (auto simp: counter_text_def split: if_splits)

lemma counter_text_append: "counter_text (a @ b) = counter_text a @ counter_text b"
  by (simp add: counter_text_def)

lemma is_cstr_counter_text: "is_cstr (counter_text xs)" "LF \<notin> set (counter_text xs)"
  using counter_text_chars by (fastforce simp: is_cstr_def c_isdigit_def)+

lemma is_cstr_dec_nat: "is_cstr (dec_nat n)" "LF \<notin> set (dec_nat n)"
  using dec_nat_isdigit by (fastforce simp: is_cstr_def c_isdigit_def)+

lemma counter_text_length: "list_all (\<lambda>x. x < 2 ^ 64) xs \<Longrightarrow> length (counter_text xs) \<le> 21 * length xs"
proof (induction xs)
  case (Cons x xs)
  have "x < 10 ^ 20" using Cons.prems by simp
  then have "length (dec_nat x) \<le> 20" by (rule dec_nat_length) simp
  then show ?case using Cons by (simp add: counter_text_def)
qed (simp add: counter_text_def)

lemma scan_counters:
  assumes "counts_ok xs"
  shows "scan_llus 8 (counter_text xs @ [LF]) = map of_nat (take 8 xs)"
proof -
  let ?a = "map (\<lambda>n. ('' '', n)) (take 8 xs)" and ?r = "counter_text (drop 8 xs) @ [LF]"
  have "counter_text xs = counter_text (take 8 xs) @ counter_text (drop 8 xs)"
    unfolding counter_text_append [symmetric] by simp
  then have t: "counter_text xs @ [LF] = concat (map (\<lambda>(ws, n). ws @ dec_nat n) ?a) @ ?r"
    by (simp add: counter_text_def [of "take 8 xs"] comp_def)
  have "list_all (\<lambda>(ws, n). ws \<noteq> [] \<and> (\<forall>c \<in> set ws. c_isspace c) \<and> n < 2 ^ 64) ?a"
    using assms by (auto simp: counts_ok_def list_all_iff c_isspace_def dest: in_set_takeD)
  moreover have "?r = [] \<or> \<not> c_isdigit (hd ?r)" by (cases "drop 8 xs") (simp_all add: counter_text_def c_isdigit_def)
  moreover have "8 = length ?a" using assms by (simp add: counts_ok_def)
  ultimately show ?thesis unfolding t by (simp only: scan_llus_dec) (simp add: comp_def)
qed

lemma sum_list_of_nat: "sum_list (map of_nat xs) = (of_nat (sum_list xs) :: 64 word)"
  by (induction xs) simp_all

text \<open>The counters as they are stored, and a state whose counters are complete.\<close>

definition counters_of :: "cpu_counts \<Rightarrow> cpu_info \<Rightarrow> bool" where
  "counters_of xs c \<longleftrightarrow> cpu_vals c = map of_nat (take 8 xs) \<and> cpu_total c = of_nat (sum_list (take 8 xs))"

definition sy_ok :: "sys_cpu \<Rightarrow> bool" where
  "sy_ok sy \<longleftrightarrow> length (sy_cpus sy) = MAX_CPUS \<and> list_all (\<lambda>c. length (cpu_vals c) = 8) (sy_cpu_total sy # sy_cpus sy)"

lemma set_vals_counters: "counts_ok xs \<Longrightarrow> length (cpu_vals c) = 8 \<Longrightarrow> counters_of xs (set_vals (map of_nat (take 8 xs)) c)"
  by (simp add: counters_of_def set_vals_def counts_ok_def sum_list_of_nat)

lemma cpu_line_total:
  assumes "counts_ok t"
  shows "cpu_line ((''cpu '' @ counter_text t) @ [LF]) sy = sy\<lparr>sy_cpu_total := set_vals (map of_nat (take 8 t)) (sy_cpu_total sy)\<rparr>"
proof -
  have "is_cstr ((''cpu '' @ counter_text t) @ [LF])" using is_cstr_counter_text(1) by simp
  then show ?thesis using scan_counters [OF assms] by (simp add: cpu_line_def)
qed

lemma cpu_line_core:
  assumes "counts_ok c" and "i < MAX_CPUS"
  shows "cpu_line ((core_name i @ counter_text c) @ [LF]) sy =
    sy\<lparr>sy_cpus := (sy_cpus sy)[sy_num_cpus sy := set_vals (map of_nat (take 8 c)) ((sy_cpus sy ! sy_num_cpus sy)\<lparr>cpu_name := core_name i\<rparr>)],
       sy_num_cpus := sy_num_cpus sy + 1\<rparr>"
proof -
  let ?l = "(core_name i @ counter_text c) @ [LF]"
  obtain d t where d: "dec_nat i = d # t" by (cases "dec_nat i") auto
  have dig: "c_isdigit d" "d \<noteq> CHR '' ''" using dec_nat_isdigit [of d i] d by (auto simp: c_isspace_def)
  have "length (dec_nat i) \<le> 2" using assms(2) by (intro dec_nat_length) (simp_all add: MAX_CPUS_def)
  then have w: "length (core_name i) \<le> 15" by (simp add: core_name_def)
  have ns: "\<forall>x \<in> set (core_name i). \<not> c_isspace x" using dec_nat_isdigit by (auto simp: core_name_def c_isspace_def)
  have "counter_text c @ [LF] = [] \<or> c_isspace (hd (counter_text c @ [LF]))" by (cases c) (simp_all add: counter_text_def c_isspace_def)
  with w ns have s: "scan_s 15 (core_name i @ counter_text c @ [LF]) = Some (core_name i, counter_text c @ [LF])"
    by (intro scan_s_token) (auto simp: core_name_def)
  have cs: "cstr ?l = ?l" using is_cstr_counter_text(1) is_cstr_dec_nat(1) by (simp add: core_name_def)
  have "take 4 ?l \<noteq> ''cpu ''" "take 3 ?l = ''cpu''" "drop 3 ?l = d # t @ counter_text c @ [LF]" using d dig by (auto simp: core_name_def)
  then show ?thesis unfolding cpu_line_def cs using s scan_counters [OF assms(1)] dig(1) by (simp add: Let_def)
qed

lemma cpu_line_other: "take 3 (cstr l) \<noteq> ''cpu'' \<Longrightarrow> cpu_line l sy = sy"
proof -
  assume n: "take 3 (cstr l) \<noteq> ''cpu''"
  have "take 3 x = ''cpu''" if "take 4 x = ''cpu ''" for x :: string
  proof -
    have "take 3 (take 4 x) = ''cpu''" unfolding that by simp
    then show ?thesis by (simp add: min_def)
  qed
  with n have "take 4 (cstr l) \<noteq> ''cpu ''" by blast
  with n show ?thesis by (simp add: cpu_line_def)
qed
subsection \<open>A reading\<close>

lemma cpu_loop_cores:
  assumes "list_all counts_ok cs" and "sy_ok sy" and "sy_num_cpus sy = k" and "k + length cs < MAX_CPUS"
  shows "\<exists>sy'. cpu_loop (map (\<lambda>(i, c). (core_name i @ counter_text c) @ [LF]) (List.enumerate k cs) @ rest) sy = cpu_loop rest sy' \<and>
    sy_ok sy' \<and> sy_num_cpus sy' = k + length cs \<and> sy_cpu_total sy' = sy_cpu_total sy \<and>
    (\<forall>i < k. sy_cpus sy' ! i = sy_cpus sy ! i) \<and> (\<forall>i < length cs. counters_of (cs ! i) (sy_cpus sy' ! (k + i)))"
  using assms
proof (induction cs arbitrary: k sy)
  case (Cons c cs)
  let ?l = "(core_name k @ counter_text c) @ [LF]"
  define s1 where "s1 = cpu_line ?l sy"
  have c: "counts_ok c" "k < MAX_CPUS" "k < length (sy_cpus sy)" using Cons.prems by (auto simp: sy_ok_def)
  have s1: "s1 = sy\<lparr>sy_cpus := (sy_cpus sy)[k := set_vals (map of_nat (take 8 c)) ((sy_cpus sy ! k)\<lparr>cpu_name := core_name k\<rparr>)], sy_num_cpus := k + 1\<rparr>"
    using cpu_line_core [OF c(1,2), of sy] Cons.prems(3) by (simp add: s1_def)
  have "length (cpu_vals (sy_cpus sy ! k)) = 8" using Cons.prems(2) c(3) by (auto simp: sy_ok_def list_all_iff)
  then have ck: "counters_of c (set_vals (map of_nat (take 8 c)) ((sy_cpus sy ! k)\<lparr>cpu_name := core_name k\<rparr>))"
    by (intro set_vals_counters c) simp
  then have "length (cpu_vals (set_vals (map of_nat (take 8 c)) ((sy_cpus sy ! k)\<lparr>cpu_name := core_name k\<rparr>))) = 8"
    using c(1) by (simp add: counters_of_def counts_ok_def)
  then have ok: "sy_ok s1" using Cons.prems(2) by (auto simp: s1 sy_ok_def list_all_iff dest!: set_update_subset_insert [THEN subsetD])
  from Cons.IH [OF _ ok, of "Suc k"] Cons.prems obtain sy' where
    sy': "cpu_loop (map (\<lambda>(i, c). (core_name i @ counter_text c) @ [LF]) (List.enumerate (Suc k) cs) @ rest) s1 = cpu_loop rest sy'"
      "sy_ok sy'" "sy_num_cpus sy' = Suc k + length cs" "sy_cpu_total sy' = sy_cpu_total s1"
      "\<forall>i < Suc k. sy_cpus sy' ! i = sy_cpus s1 ! i" "\<forall>i < length cs. counters_of (cs ! i) (sy_cpus sy' ! (Suc k + i))"
    by (auto simp: s1)
  have "counters_of ((c # cs) ! i) (sy_cpus sy' ! (k + i))" if "i < length (c # cs)" for i
    using that sy'(5,6) ck c(3) by (cases i) (simp_all add: s1)
  moreover have "sy_cpus sy' ! i = sy_cpus sy ! i" if "i < k" for i using that sy'(5) by (simp add: s1)
  moreover have "cpu_loop (map (\<lambda>(i, c). (core_name i @ counter_text c) @ [LF]) (List.enumerate k (c # cs)) @ rest) sy = cpu_loop rest sy'"
    using sy'(1) Cons.prems(3) c(2) by (simp add: s1_def [symmetric] not_le del: append_assoc)
  ultimately show ?case using sy'(2,3,4) by (auto simp: s1)
qed auto

lemma cpu_loop_others:
  "list_all (\<lambda>l. take 3 (cstr l) \<noteq> ''cpu'') ls \<Longrightarrow> cpu_loop ls sy = sy"
  by (induction ls) (simp_all add: cpu_line_other)

lemma reading_lines_ok: "reading_ok r \<Longrightarrow> list_all (\<lambda>l. LF \<notin> set l \<and> length l + 1 < 512) (reading_lines r)"
proof -
  assume ok: "reading_ok r"
  obtain t cs others where r: "r = (t, cs, others)" by (cases r)
  have len: "length (counter_text c) \<le> 210" if "counts_ok c" for c
    using that counter_text_length [of c] by (simp add: counts_ok_def)
  have t: "counts_ok t" "\<forall>c \<in> set cs. counts_ok c" "length cs < MAX_CPUS"
    "list_all (\<lambda>l. LF \<notin> set l \<and> length l + 1 < 512) others" using ok by (auto simp: r reading_ok_def list_all_iff)
  have "LF \<notin> set l \<and> length l + 1 < 512" if l: "l = core_name i @ counter_text c" "(i, c) \<in> set (List.enumerate 0 cs)" for i c l
  proof -
    have i: "i < length cs" "c = cs ! i" using l(2) by (auto simp: in_set_enumerate_eq)
    then have "length (dec_nat i) \<le> 2" using t(3) by (intro dec_nat_length) (simp_all add: MAX_CPUS_def)
    moreover have "length (counter_text c) \<le> 210" using i t(2) by (intro len) simp
    ultimately show ?thesis using is_cstr_counter_text(2) is_cstr_dec_nat(2) by (simp add: l(1) core_name_def)
  qed
  then have "list_all (\<lambda>l. LF \<notin> set l \<and> length l + 1 < 512) (map (\<lambda>(i, c). core_name i @ counter_text c) (List.enumerate 0 cs))"
    unfolding list_all_iff by fastforce
  then show ?thesis using t len [OF t(1)] is_cstr_counter_text(2) by (simp add: r reading_lines_def)
qed

text \<open>A reading of the file stores exactly its counters, for all CPUs together and for each of them.\<close>

lemma cpu_read_counters:
  assumes "reading_ok (t, cs, others)" and "sy_ok sy"
  shows "\<exists>sy'. cpu_read (Some (reading_text (t, cs, others))) load up sy = (0, sy') \<and> sy_ok sy' \<and> counters_of t (sy_cpu_total sy') \<and>
    sy_num_cpus sy' = length cs \<and> (\<forall>i < length cs. counters_of (cs ! i) (sy_cpus sy' ! i))"
proof -
  have ok: "counts_ok t" "list_all counts_ok cs" "length cs < MAX_CPUS" "list_all (\<lambda>l. take 3 (cstr l) \<noteq> ''cpu'') (map (\<lambda>l. l @ [LF]) others)"
    using assms(1) by (auto simp: reading_ok_def list_all_iff)
  let ?s0 = "sy\<lparr>sy_num_cpus := 0, sy_cpu_total := set_vals (map of_nat (take 8 t)) (sy_cpu_total sy)\<rparr>"
  have tot: "counters_of t (sy_cpu_total ?s0)" using ok(1) assms(2) by (simp add: set_vals_counters sy_ok_def)
  then have s0: "sy_ok ?s0" using assms(2) ok(1) by (simp add: sy_ok_def counters_of_def counts_ok_def)
  let ?cores = "map (\<lambda>(i, c). (core_name i @ counter_text c) @ [LF]) (List.enumerate 0 cs)"
  from cpu_loop_cores [OF ok(2) s0 _, of 0 "map (\<lambda>l. l @ [LF]) others"] ok(3) obtain s1 where
    s1: "cpu_loop (?cores @ map (\<lambda>l. l @ [LF]) others) ?s0 = cpu_loop (map (\<lambda>l. l @ [LF]) others) s1" "sy_ok s1"
      "sy_num_cpus s1 = length cs" "sy_cpu_total s1 = sy_cpu_total ?s0" "\<forall>i < length cs. counters_of (cs ! i) (sy_cpus s1 ! i)"
    by auto
  have "fgets_lines 512 (reading_text (t, cs, others)) = map (\<lambda>l. l @ [LF]) (reading_lines (t, cs, others))"
    using fgets_lines_lines [OF reading_lines_ok [OF assms(1)]] by (simp add: reading_text_def)
  also have "\<dots> = ((''cpu '' @ counter_text t) @ [LF]) # ?cores @ map (\<lambda>l. l @ [LF]) others"
    by (simp add: reading_lines_def comp_def case_prod_unfold)
  finally have ls: "fgets_lines 512 (reading_text (t, cs, others)) = ((''cpu '' @ counter_text t) @ [LF]) # ?cores @ map (\<lambda>l. l @ [LF]) others" .
  have "cpu_loop (fgets_lines 512 (reading_text (t, cs, others))) (sy\<lparr>sy_num_cpus := 0\<rparr>) = s1"
    unfolding ls cpu_loop.simps cpu_line_total [OF ok(1)] using s1(1) cpu_loop_others [OF ok(4)] by (simp add: MAX_CPUS_def)
  then show ?thesis using s1 tot by (auto simp: cpu_read_def Let_def sy_ok_def split: option.splits)
qed

subsection \<open>Usage\<close>

definition usage :: "cpu_counts \<Rightarrow> cpu_counts \<Rightarrow> rat" where
  "usage a b = 100 * (1 - of_nat (b ! 3 - a ! 3) / of_nat (sum_list (take 8 b) - sum_list (take 8 a)))"

text \<open>The counters of a CPU that has run for a while between two readings.\<close>

definition advanced :: "cpu_counts \<Rightarrow> cpu_counts \<Rightarrow> bool" where
  "advanced a b \<longleftrightarrow> list_all2 (\<le>) (take 8 a) (take 8 b) \<and> sum_list (take 8 a) < sum_list (take 8 b)"

lemma idle_within_total:
  "list_all2 (\<le>) xs ys \<Longrightarrow> i < length xs \<Longrightarrow> sum_list xs \<le> sum_list ys \<and> ys ! i - xs ! i \<le> sum_list ys - sum_list (xs :: nat list)"
proof (induction xs ys arbitrary: i rule: list_all2_induct)
  case (Cons x xs y ys)
  have "sum_list xs \<le> sum_list ys" using Cons(2) by (induction xs ys rule: list_all2_induct) auto
  then show ?case using Cons(1) Cons(3) [of "i - 1"] Cons(4) by (cases i) auto
qed simp

lemma usage_range: "advanced a b \<Longrightarrow> length a = 10 \<Longrightarrow> length b = 10 \<Longrightarrow> 0 \<le> usage a b \<and> usage a b \<le> 100"
proof -
  assume a: "advanced a b" "length a = 10" "length b = 10"
  let ?d = "b ! 3 - a ! 3" and ?t = "sum_list (take 8 b) - sum_list (take 8 a)"
  have "?d \<le> ?t" "0 < ?t" using a idle_within_total [of "take 8 a" "take 8 b" 3] by (auto simp: advanced_def)
  then have "0 \<le> (of_nat ?d :: rat) / of_nat ?t" "(of_nat ?d :: rat) / of_nat ?t \<le> 1" by (simp_all only: divide_le_eq_1 of_nat_le_iff of_nat_0_le_iff of_nat_0_less_iff zero_le_divide_iff simp_thms)
  moreover have "0 \<le> 100 * (1 - q) \<and> 100 * (1 - q) \<le> 100" if "0 \<le> q" "q \<le> 1" for q :: rat using that by simp
  ultimately show ?thesis unfolding usage_def by blast
qed

lemma usage_of_counters:
  assumes "counters_of a p" and "counters_of b c" and "counts_ok a" and "counts_ok b" and "advanced a b"
  shows "cpu_usage (usage_of c p) = usage a b"
proof -
  let ?d = "b ! 3 - a ! 3" and ?t = "sum_list (take 8 b) - sum_list (take 8 a)"
  have len: "length a = 10" "length b = 10" using assms(3,4) by (simp_all add: counts_ok_def)
  have le: "?d \<le> ?t" "a ! 3 \<le> b ! 3" "sum_list (take 8 a) \<le> sum_list (take 8 b)" "0 < ?t" "?t < 2 ^ 64"
    using assms(4,5) len idle_within_total [of "take 8 a" "take 8 b" 3] list_all2_nthD [of "(\<le>)" "take 8 a" "take 8 b" 3]
    by (auto simp: advanced_def counts_ok_def)
  have "cpu_total c - cpu_total p = of_nat ?t" using assms(1,2) le(3) by (simp add: counters_of_def of_nat_diff)
  moreover have "cpu_vals c ! 3 - cpu_vals p ! 3 = of_nat ?d" using assms(1,2) len le(2) by (simp add: counters_of_def of_nat_diff)
  moreover have "unat (of_nat n :: 64 word) = n" if "n < 2 ^ 64" for n using that by (simp add: unat_of_nat)
  then have "unat (of_nat ?t :: 64 word) = ?t" "unat (of_nat ?d :: 64 word) = ?d" using le(1,5) by (blast intro: le_less_trans)+
  moreover have "0 < (of_nat ?t :: 64 word)" using calculation(3) le(4) by (metis word_neq_0_conv unsigned_0 less_irrefl)
  ultimately show ?thesis by (simp add: usage_of_def Let_def usage_def)
qed

lemma usage_of_keeps: "counters_of xs (usage_of c p) = counters_of xs c" "length (cpu_vals (usage_of c p)) = length (cpu_vals c)"
  by (simp_all add: usage_of_def Let_def counters_of_def)

lemma calculate_keeps:
  assumes "sy_ok sy" and "sy_ok p" and "sy_num_cpus sy \<le> MAX_CPUS"
  shows "sy_ok (cpu_calculate_usage sy p)" and "sy_cpu_total (cpu_calculate_usage sy p) = usage_of (sy_cpu_total sy) (sy_cpu_total p)"
    and "i < sy_num_cpus sy \<Longrightarrow> sy_cpus (cpu_calculate_usage sy p) ! i = usage_of (sy_cpus sy ! i) (sy_cpus p ! i)"
    and "sy_num_cpus (cpu_calculate_usage sy p) = sy_num_cpus sy"
  using assms
  by (auto simp: cpu_calculate_usage_def sy_ok_def list_all_iff usage_of_keeps nth_append set_zip dest: in_set_dropD)

text \<open>
  The CPU page: after two readings of \<open>/proc/stat\<close> in the format of the kernel, in whatever state the monitor
  was, the displayed usage, of all CPUs together and of each CPU whose counters have advanced, is
  100 times one minus the share of the idle time in the elapsed time, between 0 and 100.
\<close>

lemma cpu_usage_exact:
  assumes "reading_ok (t1, cs1, o1)" and "reading_ok (t2, cs2, o2)" and "length cs1 = length cs2" and "advanced t1 t2"
    and "sy_ok sy0" and "sy_ok p0"
  shows "\<exists>sy1 sy2 sy3. cpu_read (Some (reading_text (t1, cs1, o1))) l1 u1 sy0 = (0, sy1) \<and>
    cpu_read (Some (reading_text (t2, cs2, o2))) l2 u2 (cpu_calculate_usage sy1 p0) = (0, sy2) \<and>
    sy3 = cpu_calculate_usage sy2 (cpu_calculate_usage sy1 p0) \<and>
    sy_ok sy3 \<and> cpu_usage (sy_cpu_total sy3) = usage t1 t2 \<and> 0 \<le> usage t1 t2 \<and> usage t1 t2 \<le> 100 \<and> sy_num_cpus sy3 = length cs2 \<and>
    (\<forall>i < length cs2. advanced (cs1 ! i) (cs2 ! i) \<longrightarrow> cpu_usage (sy_cpus sy3 ! i) = usage (cs1 ! i) (cs2 ! i))"
proof -
  have ok: "counts_ok t1" "counts_ok t2" "list_all counts_ok cs1" "list_all counts_ok cs2" "length cs2 < MAX_CPUS"
    using assms(1,2) by (simp_all add: reading_ok_def)
  obtain sy1 where s1: "cpu_read (Some (reading_text (t1, cs1, o1))) l1 u1 sy0 = (0, sy1)" "sy_ok sy1" "counters_of t1 (sy_cpu_total sy1)"
    "sy_num_cpus sy1 = length cs2" "\<forall>i < length cs2. counters_of (cs1 ! i) (sy_cpus sy1 ! i)"
    using cpu_read_counters [OF assms(1,5)] assms(3) by metis
  let ?p = "cpu_calculate_usage sy1 p0"
  have n1: "sy_num_cpus sy1 \<le> MAX_CPUS" using s1(4) ok(5) by simp
  note k1 = calculate_keeps [OF s1(2) assms(6) n1]
  obtain sy2 where s2: "cpu_read (Some (reading_text (t2, cs2, o2))) l2 u2 ?p = (0, sy2)" "sy_ok sy2" "counters_of t2 (sy_cpu_total sy2)"
    "sy_num_cpus sy2 = length cs2" "\<forall>i < length cs2. counters_of (cs2 ! i) (sy_cpus sy2 ! i)"
    using cpu_read_counters [OF assms(2) k1(1)] by blast
  have n2: "sy_num_cpus sy2 \<le> MAX_CPUS" using s2(4) ok(5) by simp
  note k2 = calculate_keeps [OF s2(2) k1(1) n2]
  have "counters_of t1 (sy_cpu_total ?p)" using s1(3) by (simp add: k1(2) usage_of_keeps)
  then have "cpu_usage (sy_cpu_total (cpu_calculate_usage sy2 ?p)) = usage t1 t2"
    using usage_of_counters [OF _ s2(3) ok(1,2) assms(4)] by (simp add: k2(2))
  moreover have "cpu_usage (sy_cpus (cpu_calculate_usage sy2 ?p) ! i) = usage (cs1 ! i) (cs2 ! i)"
    if i: "i < length cs2" "advanced (cs1 ! i) (cs2 ! i)" for i
  proof -
    have "counters_of (cs1 ! i) (sy_cpus ?p ! i)" using s1(4,5) i(1) by (simp add: k1(3) usage_of_keeps)
    moreover have "counts_ok (cs1 ! i)" "counts_ok (cs2 ! i)" using ok(3,4) assms(3) i(1) by (simp_all add: list_all_length)
    ultimately show ?thesis using usage_of_counters [OF _ _ _ _ i(2)] s2(4,5) i(1) by (simp add: k2(3))
  qed
  moreover have "0 \<le> usage t1 t2 \<and> usage t1 t2 \<le> 100" using ok(1,2) by (intro usage_range assms(4)) (simp_all add: counts_ok_def)
  ultimately show ?thesis using s1(1) s2(1,4) k2(1,4) by auto
qed

lemma cpu_usage_exact_witness:
  "\<exists>sy1 sy2. cpu_read (Some (reading_text ([1, 0, 2, 50, 0, 0, 0, 0, 0, 0], [[1, 0, 2, 50, 0, 0, 0, 0, 0, 0]], [''ctxt 9'']))) None None zero_sys_cpu = (0, sy1) \<and>
     cpu_read (Some (reading_text ([11, 0, 12, 130, 0, 0, 0, 0, 0, 0], [[11, 0, 12, 130, 0, 0, 0, 0, 0, 0]], [''ctxt 30'']))) None None
       (cpu_calculate_usage sy1 zero_sys_cpu) = (0, sy2) \<and>
     cpu_usage (sy_cpu_total (cpu_calculate_usage sy2 (cpu_calculate_usage sy1 zero_sys_cpu))) = 20"
proof -
  let ?a = "[1, 0, 2, 50, 0, 0, 0, 0, 0, 0] :: nat list" and ?b = "[11, 0, 12, 130, 0, 0, 0, 0, 0, 0] :: nat list"
  have ok: "reading_ok (?a, [?a], [''ctxt 9''])" "reading_ok (?b, [?b], [''ctxt 30''])"
    by (simp_all add: reading_ok_def counts_ok_def MAX_CPUS_def cstr_def)
  have z: "sy_ok zero_sys_cpu" by (simp add: sy_ok_def zero_sys_cpu_def zero_cpu_def list_all_iff)
  have "length [?a] = length [?b]" "advanced ?a ?b" by (simp_all add: advanced_def)
  from cpu_usage_exact [OF ok this z z, of None None None None] have u: "\<exists>sy1 sy2.
     cpu_read (Some (reading_text (?a, [?a], [''ctxt 9'']))) None None zero_sys_cpu = (0, sy1) \<and>
     cpu_read (Some (reading_text (?b, [?b], [''ctxt 30'']))) None None (cpu_calculate_usage sy1 zero_sys_cpu) = (0, sy2) \<and>
     cpu_usage (sy_cpu_total (cpu_calculate_usage sy2 (cpu_calculate_usage sy1 zero_sys_cpu))) = usage ?a ?b" by blast
  moreover have "usage ?a ?b = 20" by (simp add: usage_def)
  ultimately show ?thesis by (simp only:)
qed

end
