(* ===== verification/Sysmon_Ui.thy ===== *)
theory Sysmon_Ui
  imports Sysmon
begin

text \<open>
  The screen of the system monitor (\<open>sys-monitor/src/ui.c\<close>) and its program (\<open>main.c\<close>). The window is a library of
  its own: a function that draws is the list of the calls it makes, with their texts, and the size of the window
  is an argument, \<open>max_y\<close> rows by \<open>max_x\<close> columns.
\<close>

subsection \<open>Calls of the window library\<close>

datatype glyph = Ch char | ACS_CKBOARD | ACS_HLINE

text \<open>\<open>Attron\<close> and \<open>Attroff\<close> have a colour pair, 0 for none, and whether \<open>A_BOLD\<close> is meant too.\<close>

datatype curses_call =
    Initscr | Cbreak | Noecho | Keypad bool | Curs_set nat | Start_color | Use_default_colors | Init_pair nat int int | Endwin
  | Erase | Refresh | Timeout nat
  | Attron nat bool | Attroff nat bool
  | Mvprintw int int string | Printw string | Mvaddch int int glyph | Mvhline int int glyph int

definition COLOR_BAR_GREEN :: nat where "COLOR_BAR_GREEN = 1"
definition COLOR_BAR_YELLOW :: nat where "COLOR_BAR_YELLOW = 2"
definition COLOR_BAR_RED :: nat where "COLOR_BAR_RED = 3"
definition COLOR_HEADER :: nat where "COLOR_HEADER = 4"
definition COLOR_TAB_ACTIVE :: nat where "COLOR_TAB_ACTIVE = 5"
definition COLOR_TAB_IDLE :: nat where "COLOR_TAB_IDLE = 6"
definition COLOR_LABEL :: nat where "COLOR_LABEL = 7"

lemmas color_defs = COLOR_BAR_GREEN_def COLOR_BAR_YELLOW_def COLOR_BAR_RED_def COLOR_HEADER_def COLOR_TAB_ACTIVE_def
  COLOR_TAB_IDLE_def COLOR_LABEL_def

definition tab_names :: "string list" where
  "tab_names = [''CPU'', ''Memory'', ''Processes'', ''Disk'', ''Network'']"

text \<open>The colours are numbered as in \<open>curses.h\<close>: black 0, red 1, green 2, yellow 3, blue 4, cyan 6, white 7; -1 is the default.\<close>

definition ui_init :: "bool \<Rightarrow> int \<times> curses_call list" where
  "ui_init has_colors =
     (0, [Initscr, Cbreak, Noecho, Keypad True, Curs_set 0] @
         (if has_colors then
            [Start_color, Use_default_colors, Init_pair COLOR_BAR_GREEN 2 2, Init_pair COLOR_BAR_YELLOW 3 3, Init_pair COLOR_BAR_RED 1 1,
             Init_pair COLOR_HEADER 0 6, Init_pair COLOR_TAB_ACTIVE 7 4, Init_pair COLOR_TAB_IDLE 7 0, Init_pair COLOR_LABEL 6 (-1)]
          else []))"

definition ui_cleanup :: "curses_call list" where
  "ui_cleanup = [Endwin]"

subsection \<open>Texts\<close>

text \<open>\<open>%ws\<close>, \<open>%-ws\<close>, \<open>%-*s\<close> (a negative width counts with its absolute value) and \<open>%.*s\<close> (a negative precision is ignored).\<close>

abbreviation fmt_r :: "nat \<Rightarrow> string \<Rightarrow> string" where
  "fmt_r w s \<equiv> pad_left w (CHR '' '') s"

abbreviation fmt_l :: "nat \<Rightarrow> string \<Rightarrow> string" where
  "fmt_l w s \<equiv> pad_right w s"

definition fmt_prec :: "int \<Rightarrow> string \<Rightarrow> string" where
  "fmt_prec p s = (if p < 0 then s else take (nat p) s)"

definition format_bytes :: "64 word \<Rightarrow> nat \<Rightarrow> string" where
  "format_bytes bytes buflen =
     take (buflen - 1)
       (let b = of_nat (unat bytes) :: rat in
        if 1099511627776 \<le> bytes then fmt_fixed 1 (b / 1099511627776) @ '' TB''
        else if 1073741824 \<le> bytes then fmt_fixed 1 (b / 1073741824) @ '' GB''
        else if 1048576 \<le> bytes then fmt_fixed 1 (b / 1048576) @ '' MB''
        else if 1024 \<le> bytes then fmt_fixed 1 (b / 1024) @ '' KB''
        else dec_nat (unat bytes) @ '' B'')"

text \<open>The three numbers of \<open>format_uptime\<close>, of an uptime whose days fit into an \<open>int\<close>.\<close>

definition uptime_parts :: "rat \<Rightarrow> int \<times> int \<times> int" where
  "uptime_parts seconds =
     (let days = c_trunc (seconds / 86400);
          hours = c_trunc ((seconds - of_int (days * 86400)) / 3600);
          mins = c_trunc ((seconds - of_int (days * 86400) - of_int (hours * 3600)) / 60)
      in (days, hours, mins))"

definition format_uptime :: "rat \<Rightarrow> nat \<Rightarrow> string" where
  "format_uptime seconds buflen =
     (case uptime_parts seconds of (days, hours, mins) \<Rightarrow>
        take (buflen - 1)
          (if 0 < days then dec_int days @ ''d '' @ dec_int hours @ ''h '' @ dec_int mins @ ''m''
           else if 0 < hours then dec_int hours @ ''h '' @ dec_int mins @ ''m''
           else dec_int mins @ ''m''))"

subsection \<open>Drawing\<close>

definition bar_pair :: "rat \<Rightarrow> nat" where
  "bar_pair percent = (if percent < 60 then COLOR_BAR_GREEN else if percent < 80 then COLOR_BAR_YELLOW else COLOR_BAR_RED)"

definition ui_draw_bar :: "int \<Rightarrow> int \<Rightarrow> int \<Rightarrow> rat \<Rightarrow> curses_call list" where
  "ui_draw_bar y x width percent =
     [Attron (bar_pair percent) False] @ map (\<lambda>i. Mvaddch y (x + i) (Ch (CHR '' ''))) [0..bar_filled width percent - 1] @
     [Attroff (bar_pair percent) False] @ map (\<lambda>i. Mvaddch y (x + i) ACS_CKBOARD) [bar_filled width percent..width - 1]"

definition bar_width_of :: "int \<Rightarrow> int" where
  "bar_width_of w = (if w < 10 then 10 else w)"

fun cpu_rows :: "int \<Rightarrow> int \<Rightarrow> cpu_info list \<Rightarrow> int \<Rightarrow> curses_call list" where
  "cpu_rows max_y bar_width [] y = []"
| "cpu_rows max_y bar_width (c # cs) y =
     (if y < max_y - 2 then
        [Attron COLOR_LABEL False, Mvprintw y 2 (fmt_l 6 (cpu_name c) @ '':''), Attroff COLOR_LABEL False,
         Printw ('' '' @ fmt_r 5 (fmt_fixed 1 (cpu_usage c)) @ ''%'')] @
        ui_draw_bar y 20 (bar_width - 18) (cpu_usage c) @ cpu_rows max_y bar_width cs (y + 1)
      else [])"

definition ui_draw_cpu :: "int \<Rightarrow> int \<Rightarrow> sys_info \<Rightarrow> int \<Rightarrow> curses_call list" where
  "ui_draw_cpu max_y max_x sys y =
     (let c = si_cpu sys; bar_width = bar_width_of (max_x - 20) in
      [Attron COLOR_LABEL True, Mvprintw y 2 ''CPU Total:'', Attroff COLOR_LABEL True,
       Printw ('' '' @ fmt_r 5 (fmt_fixed 1 (cpu_usage (sy_cpu_total c))) @ ''%  Load: '' @ fmt_fixed 2 (sy_loadavg c ! 0) @ ''  '' @
               fmt_fixed 2 (sy_loadavg c ! 1) @ ''  '' @ fmt_fixed 2 (sy_loadavg c ! 2))] @
      ui_draw_bar (y + 1) 2 bar_width (cpu_usage (sy_cpu_total c)) @
      cpu_rows max_y bar_width (take (sy_num_cpus c) (sy_cpus c)) (y + 3))"

text \<open>Products with 1024 are computed in 64 bits.\<close>

definition ui_draw_memory :: "int \<Rightarrow> sys_info \<Rightarrow> int \<Rightarrow> curses_call list" where
  "ui_draw_memory max_x sys y =
     (let mem = si_memory sys;
          total_str = format_bytes (mi_total mem * 1024) 32;
          used_str = format_bytes ((mi_total mem - mi_available mem) * 1024) 32;
          free_str = format_bytes (mi_free mem * 1024) 32;
          avail_str = format_bytes (mi_available mem * 1024) 32;
          buf_str = format_bytes (mi_buffers mem * 1024) 32;
          cache_str = format_bytes (mi_cached mem * 1024) 32;
          bar_width = bar_width_of (max_x - 20);
          swap_used_pct = 100 * (1 - of_nat (unat (mi_swap_free mem)) / of_nat (unat (mi_swap_total mem))) :: rat;
          swap_total_str = format_bytes (mi_swap_total mem * 1024) 32;
          swap_free_str = format_bytes ((mi_swap_total mem - mi_swap_free mem) * 1024) 32
      in [Attron COLOR_LABEL True, Mvprintw y 2 ''Memory:'', Attroff COLOR_LABEL True,
          Printw ('' '' @ used_str @ '' used / '' @ total_str @ '' total ('' @ fmt_fixed 1 (mi_used_percent mem) @ ''%)'')] @
         ui_draw_bar (y + 1) 2 bar_width (mi_used_percent mem) @
         [Mvprintw (y + 3) 2 (''  Free: '' @ fmt_l 10 free_str @ ''  Available: '' @ fmt_l 10 avail_str @ ''  Buffers: '' @
                              fmt_l 10 buf_str @ ''  Cached: '' @ cache_str)] @
         (if 0 < mi_swap_total mem then
            [Attron COLOR_LABEL True, Mvprintw (y + 5) 2 ''Swap:'', Attroff COLOR_LABEL True,
             Printw ('' '' @ swap_free_str @ '' used / '' @ swap_total_str @ '' total ('' @ fmt_fixed 1 swap_used_pct @ ''%)'')] @
            ui_draw_bar (y + 6) 2 bar_width swap_used_pct
          else [Mvprintw (y + 5) 2 ''Swap: not available'']))"

text \<open>
  A row of the process list. The text ends at a NUL, which \<open>%5c\<close> prints for a process without a state.
\<close>

definition process_text :: "int \<Rightarrow> proc_info \<Rightarrow> string" where
  "process_text max_x p =
     cstr (fmt_l 7 (dec_int (pr_pid p)) @ '' '' @ fmt_l 10 (pr_user p) @ '' '' @ fmt_r 5 [pr_state p] @ '' '' @
           fmt_r 5 (fmt_fixed 1 (pr_cpu_percent p)) @ ''% '' @ fmt_r 5 (fmt_fixed 1 (pr_mem_percent p)) @ ''%  '' @
           fmt_prec (max_x - 42) (pr_command p))"

definition process_row :: "int \<Rightarrow> int \<Rightarrow> proc_info \<Rightarrow> curses_call list" where
  "process_row max_x row p =
     (if 50 < pr_cpu_percent p then [Attron 0 True] else []) @ [Mvprintw row 2 (process_text max_x p)] @
     (if 50 < pr_cpu_percent p then [Attroff 0 True] else [])"

definition process_start :: "int \<Rightarrow> int \<Rightarrow> int \<Rightarrow> int" where
  "process_start num display_rows scroll_offset =
     (let start = (if num - display_rows < scroll_offset then num - display_rows else scroll_offset)
      in if start < 0 then 0 else start)"

fun process_rows :: "int \<Rightarrow> int \<Rightarrow> int \<Rightarrow> int \<Rightarrow> proc_info list \<Rightarrow> curses_call list" where
  "process_rows max_x display_rows y k [] = []"
| "process_rows max_x display_rows y k (p # ps) =
     (if k < display_rows then process_row max_x (y + k) p @ process_rows max_x display_rows y (k + 1) ps else [])"

definition display_rows_of :: "int \<Rightarrow> int \<Rightarrow> int" where
  "display_rows_of max_y y = (if max_y - y - 2 < 1 then 1 else max_y - y - 2)"

definition process_footer :: "nat \<Rightarrow> string" where
  "process_footer n = ''Processes: '' @ dec_nat n @ ''  |  Use UP/DOWN to scroll, '' @ [CHR 0x27] @ ''c'' @ [CHR 0x27] @ '' sort by CPU, '' @
     [CHR 0x27] @ ''m'' @ [CHR 0x27] @ '' sort by Memory''"

definition ui_draw_processes :: "int \<Rightarrow> int \<Rightarrow> sys_info \<Rightarrow> int \<Rightarrow> int \<Rightarrow> curses_call list" where
  "ui_draw_processes max_y max_x sys y scroll_offset =
     (let ps = si_processes sys; display_rows = display_rows_of max_y (y + 1);
          start = process_start (int (length ps)) display_rows scroll_offset
      in [Attron COLOR_HEADER True, Mvhline y 0 (Ch (CHR '' '')) max_x,
          Mvprintw y 2 (fmt_l 7 ''PID'' @ '' '' @ fmt_l 10 ''USER'' @ '' '' @ fmt_r 5 ''STATE'' @ '' '' @ fmt_r 6 ''CPU%'' @ '' '' @
                        fmt_r 6 ''MEM%'' @ ''  '' @ fmt_l (nat \<bar>max_x - 40\<bar>) ''COMMAND''),
          Attroff COLOR_HEADER True] @
         process_rows max_x display_rows (y + 1) 0 (drop (nat start) ps) @
         [Mvprintw (max_y - 1) 2 (process_footer (length ps))])"

fun disk_rows :: "int \<Rightarrow> int \<Rightarrow> disk_info list \<Rightarrow> int \<Rightarrow> curses_call list" where
  "disk_rows max_y bar_width [] y = []"
| "disk_rows max_y bar_width (d # ds) y =
     (if y < max_y - 2 then
        [Mvprintw y 2 (fmt_l 20 (di_device d) @ '' '' @ fmt_l 16 (di_mount d) @ '' '' @ fmt_r 10 (format_bytes (di_total d) 32) @ '' '' @
                       fmt_r 10 (format_bytes (di_used d) 32) @ '' '' @ fmt_r 10 (format_bytes (di_available d) 32) @ ''  '' @
                       fmt_r 5 (fmt_fixed 1 (di_used_percent d)) @ ''%'')] @
        ui_draw_bar (y + 1) 2 bar_width (di_used_percent d) @ disk_rows max_y bar_width ds (y + 3)
      else [])"

definition ui_draw_disks :: "int \<Rightarrow> int \<Rightarrow> sys_info \<Rightarrow> int \<Rightarrow> curses_call list" where
  "ui_draw_disks max_y max_x sys y =
     [Attron COLOR_HEADER True, Mvhline y 0 (Ch (CHR '' '')) max_x,
      Mvprintw y 2 (fmt_l 20 ''Device'' @ '' '' @ fmt_l 16 ''Mount'' @ '' '' @ fmt_r 10 ''Total'' @ '' '' @ fmt_r 10 ''Used'' @ '' '' @
                    fmt_r 10 ''Avail'' @ ''  '' @ fmt_l 6 ''Use%''),
      Attroff COLOR_HEADER True] @
     disk_rows max_y (bar_width_of (max_x - 40)) (si_disks sys) (y + 1)"

text \<open>The rates are \<open>unsigned long\<close>, here numbers below \<open>2\<^sup>6\<^sup>4\<close>.\<close>

fun net_rows :: "int \<Rightarrow> net_info list \<Rightarrow> int \<Rightarrow> curses_call list" where
  "net_rows max_y [] y = []"
| "net_rows max_y (n # ns) y =
     (if y < max_y - 2 then
        Mvprintw y 2 (fmt_l 16 (ni_name n) @ '' '' @ fmt_r 12 (format_bytes (of_nat (ni_rx_rate n)) 32) @ ''/s '' @
                      fmt_r 12 (format_bytes (of_nat (ni_tx_rate n)) 32) @ ''/s '' @ fmt_r 12 (format_bytes (ni_rx_bytes n) 32) @ '' '' @
                      fmt_r 12 (format_bytes (ni_tx_bytes n) 32)) # net_rows max_y ns (y + 1)
      else [])"

definition ui_draw_network :: "int \<Rightarrow> int \<Rightarrow> sys_info \<Rightarrow> int \<Rightarrow> curses_call list" where
  "ui_draw_network max_y max_x sys y =
     [Attron COLOR_HEADER True, Mvhline y 0 (Ch (CHR '' '')) max_x,
      Mvprintw y 2 (fmt_l 16 ''Interface'' @ '' '' @ fmt_r 12 ''RX Rate'' @ '' '' @ fmt_r 12 ''TX Rate'' @ '' '' @ fmt_r 12 ''RX Total'' @ '' '' @
                    fmt_r 12 ''TX Total''),
      Attroff COLOR_HEADER True] @
     net_rows max_y (si_net sys) (y + 1) @
     (if si_net sys = [] then [Mvprintw (y + 1) 2 ''No network interfaces found''] else [])"

fun tab_bar :: "int \<Rightarrow> int \<Rightarrow> int \<Rightarrow> string list \<Rightarrow> curses_call list" where
  "tab_bar selected_tab i tab_x [] = []"
| "tab_bar selected_tab i tab_x (n # ns) =
     (if i = selected_tab then [Attron COLOR_TAB_ACTIVE True] else [Attron COLOR_TAB_IDLE False]) @
     [Mvprintw 1 tab_x ('' '' @ n @ '' '')] @
     (if i = selected_tab then [Attroff COLOR_TAB_ACTIVE True] else [Attroff COLOR_TAB_IDLE False]) @
     tab_bar selected_tab (i + 1) (tab_x + int (length n) + 3) ns"

definition ui_footer :: string where
  "ui_footer = ''Press '' @ [CHR 0x27] @ ''q'' @ [CHR 0x27] @ '' to quit | TAB: switch view | Refresh: 2s''"

definition ui_content :: "int \<Rightarrow> int \<Rightarrow> sys_info \<Rightarrow> int \<Rightarrow> int \<Rightarrow> curses_call list" where
  "ui_content max_y max_x sys selected_tab scroll_offset =
     (if selected_tab = 0 then ui_draw_cpu max_y max_x sys 3
      else if selected_tab = 1 then ui_draw_memory max_x sys 3
      else if selected_tab = 2 then ui_draw_processes max_y max_x sys 3 scroll_offset
      else if selected_tab = 3 then ui_draw_disks max_y max_x sys 3
      else if selected_tab = 4 then ui_draw_network max_y max_x sys 3
      else [])"

definition ui_draw :: "int \<Rightarrow> int \<Rightarrow> sys_info \<Rightarrow> int \<Rightarrow> int \<Rightarrow> curses_call list" where
  "ui_draw max_y max_x sys selected_tab scroll_offset =
     (let load = sy_loadavg (si_cpu sys) in
      [Erase, Attron COLOR_HEADER True, Mvhline 0 0 (Ch (CHR '' '')) max_x,
       Mvprintw 0 2 (''sysmon - '' @ si_hostname sys @ '' | Kernel: '' @ si_kernel sys @ '' | Uptime: '' @ format_uptime (sy_uptime (si_cpu sys)) 64 @
                     '' | Load: '' @ fmt_fixed 2 (load ! 0) @ '' '' @ fmt_fixed 2 (load ! 1) @ '' '' @ fmt_fixed 2 (load ! 2)),
       Attroff COLOR_HEADER True] @
      tab_bar selected_tab 0 2 tab_names @
      [Mvhline 2 0 ACS_HLINE max_x] @
      ui_content max_y max_x sys selected_tab scroll_offset @
      [Attron COLOR_LABEL False, Mvprintw (max_y - 1) 2 ui_footer, Attroff COLOR_LABEL False, Refresh])"

subsection \<open>The program\<close>

definition read_kernel :: "bytes option \<Rightarrow> string" where
  "read_kernel version =
     (case version of None \<Rightarrow> [] | Some b \<Rightarrow> (case scan_s 127 b of None \<Rightarrow> ''unknown'' | Some (w, _) \<Rightarrow> cstr w))"

definition zero_mem :: mem_info where
  "zero_mem = \<lparr>mi_total = 0, mi_free = 0, mi_available = 0, mi_buffers = 0, mi_cached = 0, mi_swap_total = 0, mi_swap_free = 0, mi_used_percent = 0\<rparr>"

definition zero_sys :: sys_info where
  "zero_sys = \<lparr>si_hostname = [], si_kernel = [], si_cpu = zero_sys_cpu, si_memory = zero_mem, si_processes = [], si_disks = [], si_net = []\<rparr>"

text \<open>
  What a round of the loop meets: the files, the size of the window, the key \<open>getch\<close> returns and whether the
  interrupt signal has arrived when \<open>running\<close> is tested again.
\<close>

record monitor_in =
  mo_fs :: proc_fs
  mo_max_y :: int
  mo_max_x :: int
  mo_key :: ui_key
  mo_sigint :: bool

definition quit_key :: "ui_key \<Rightarrow> bool" where
  "quit_key k \<longleftrightarrow> k = KEY_OTHER (CHR ''q'') \<or> k = KEY_OTHER (CHR ''Q'')"

text \<open>Whether the loop has ended after these rounds, and what it drew; \<^const>\<open>None\<close> is undefined behaviour of a reader.\<close>

fun monitor_loop :: "bool \<Rightarrow> monitor_in list \<Rightarrow> sys_info \<Rightarrow> int \<Rightarrow> int \<Rightarrow> (bool \<times> curses_call list) option" where
  "monitor_loop running ms si tab off =
     (if \<not> running then Some (True, [])
      else case ms of
        [] \<Rightarrow> Some (False, [])
      | m # ms' \<Rightarrow>
          (case monitor_round (mo_fs m) si of
             None \<Rightarrow> None
           | Some si' \<Rightarrow>
               let cs = ui_draw (mo_max_y m) (mo_max_x m) si' tab off @ [Timeout 2000]
               in if quit_key (mo_key m) then Some (True, cs)
                  else case ui_handle_input (mo_key m) (tab, off) of (tab', off') \<Rightarrow>
                    map_option (\<lambda>(e, tr). (e, cs @ tr)) (monitor_loop (\<not> mo_sigint m) ms' si' tab' off')))"

declare monitor_loop.simps [simp del]

text \<open>\<open>main\<close>: the exit status when it has ended. \<open>early\<close>: the signal comes before the loop.\<close>

definition monitor_main :: "string \<Rightarrow> bytes option \<Rightarrow> bool \<Rightarrow> bool \<Rightarrow> monitor_in list \<Rightarrow> (int option \<times> curses_call list) option" where
  "monitor_main hostname version has_colors early ms =
     (case ui_init has_colors of (rc, ini) \<Rightarrow>
        if rc \<noteq> 0 then Some (Some 1, ini)
        else case monitor_loop (\<not> early) ms (zero_sys\<lparr>si_hostname := hostname, si_kernel := read_kernel version\<rparr>) 0 0 of
          None \<Rightarrow> None
        | Some (ended, tr) \<Rightarrow> Some (if ended then (Some 0, ini @ tr @ ui_cleanup) else (None, ini @ tr)))"

subsection \<open>Texts of numbers and times\<close>

lemma c_trunc_nonneg: "0 \<le> x \<Longrightarrow> c_trunc x = \<lfloor>x\<rfloor>"
  by (simp add: c_trunc_def)

lemma floor_step:
  fixes r m :: rat
  assumes "0 \<le> r" and "0 < m"
  shows "0 \<le> c_trunc (r / m) \<and> of_int (c_trunc (r / m)) * m \<le> r \<and> r < of_int (c_trunc (r / m)) * m + m"
proof -
  let ?k = "\<lfloor>r / m\<rfloor>"
  have q: "0 \<le> r / m" using assms by simp
  have lo: "of_int ?k * m \<le> r" using of_int_floor_le [of "r / m"] assms(2) by (simp only: pos_le_divide_eq)
  have "r / m < of_int ?k + 1" by linarith
  then have "r < (of_int ?k + 1) * m" using assms(2) by (simp add: pos_divide_less_eq)
  then have hi: "r < of_int ?k * m + m" by (simp add: distrib_right)
  have "0 \<le> ?k" using q by simp
  then show ?thesis using lo hi by (simp add: c_trunc_nonneg [OF q])
qed

text \<open>The uptime is shown in whole minutes, rounded down, with fewer than 60 minutes and 24 hours.\<close>

lemma uptime_exact:
  assumes "0 \<le> s" and "uptime_parts s = (d, h, m)"
  shows "0 \<le> d \<and> 0 \<le> h \<and> h < 24 \<and> 0 \<le> m \<and> m < 60 \<and>
    of_int (d * 86400 + h * 3600 + m * 60) \<le> s \<and> s < of_int (d * 86400 + h * 3600 + m * 60) + 60"
proof -
  let ?r = "s - of_int (d * 86400)"
  let ?q = "?r - of_int (h * 3600)"
  have eq: "d = c_trunc (s / 86400)" "h = c_trunc (?r / 3600)" "m = c_trunc (?q / 60)"
    using assms(2) by (auto simp: uptime_parts_def Let_def)
  have d: "0 \<le> d" "0 \<le> ?r" "?r < 86400" using floor_step [of s 86400, folded eq(1)] assms(1) by auto
  have h: "0 \<le> h" "0 \<le> ?q" "?q < 3600" using floor_step [of ?r 3600, folded eq(2)] d(2) by auto
  have m: "0 \<le> m" "of_int m * 60 \<le> ?q" "?q < of_int m * 60 + 60" using floor_step [of ?q 60, folded eq(3)] h(2) by auto
  have "of_int h * 3600 < (86400 :: rat)" using h(2) d(3) by simp
  then have "of_int h < (24 :: rat)" by simp
  then have "h < 24" by simp
  moreover have "of_int m * 60 < (3600 :: rat)" using m(2) h(3) by linarith
  then have "of_int m < (60 :: rat)" by simp
  then have "m < 60" by simp
  ultimately show ?thesis using d(1) h(1) m by simp
qed

subsection \<open>Bars\<close>

lemma bar_filled_floor:
  assumes "0 \<le> w" and "0 \<le> pc" and "pc \<le> 100"
  shows "bar_filled w pc = \<lfloor>pc * of_int w / 100\<rfloor>"
proof -
  have nn: "0 \<le> pc / 100 * of_int w" using assms by simp
  have "pc * of_int w \<le> 100 * of_int w" using assms by (intro mult_right_mono) auto
  then have "pc / 100 * of_int w \<le> of_int w" by simp
  then have "\<lfloor>pc / 100 * of_int w\<rfloor> \<le> w" by (simp only: floor_le_iff)
  moreover have "0 \<le> \<lfloor>pc / 100 * of_int w\<rfloor>" using nn by (simp only: zero_le_floor)
  ultimately have "bar_filled w pc = \<lfloor>pc / 100 * of_int w\<rfloor>" using c_trunc_nonneg [OF nn] by (simp only: bar_filled_def Let_def) auto
  then show ?thesis by simp
qed

text \<open>The cells a bar writes: one per column, from left to right.\<close>

definition bar_cells :: "curses_call list \<Rightarrow> (int \<times> int \<times> glyph) list" where
  "bar_cells cs = List.map_filter (\<lambda>c. case c of Mvaddch y x g \<Rightarrow> Some (y, x, g) | _ \<Rightarrow> None) cs"

lemma bar_cells_simps [simp]:
  "bar_cells [] = []" "bar_cells (a @ b) = bar_cells a @ bar_cells b"
  "bar_cells (c # cs) = (case c of Mvaddch y x g \<Rightarrow> [(y, x, g)] | _ \<Rightarrow> []) @ bar_cells cs"
  by (auto simp: bar_cells_def List.map_filter_def split: curses_call.splits)

lemma bar_cells_map [simp]: "bar_cells (map (\<lambda>i. Mvaddch y (x + i) g) is) = map (\<lambda>i. (y, x + i, g)) is"
  by (induction "is") auto

lemma draw_bar_exact:
  assumes "0 \<le> w"
  shows "bar_cells (ui_draw_bar y x w pc) =
    map (\<lambda>i. (y, x + i, if i < bar_filled w pc then Ch (CHR '' '') else ACS_CKBOARD)) [0..w - 1]"
proof -
  let ?f = "bar_filled w pc"
  have "0 \<le> ?f" "?f \<le> w" using bar_filled_range [OF assms] by auto
  then have sp: "[0..w - 1] = [0..?f - 1] @ [?f..w - 1]" using upto_split1 [of 0 "?f" "w - 1"] by (cases "?f = w") simp_all
  have "map (\<lambda>i. (y, x + i, if i < ?f then Ch (CHR '' '') else ACS_CKBOARD)) [0..?f - 1] = map (\<lambda>i. (y, x + i, Ch (CHR '' ''))) [0..?f - 1]"
    by (intro map_cong) auto
  moreover have "map (\<lambda>i. (y, x + i, if i < ?f then Ch (CHR '' '') else ACS_CKBOARD)) [?f..w - 1] = map (\<lambda>i. (y, x + i, ACS_CKBOARD)) [?f..w - 1]"
    by (intro map_cong) auto
  ultimately show ?thesis by (simp only: sp map_append) (simp add: ui_draw_bar_def)
qed

subsection \<open>Attributes and positions\<close>

text \<open>
  The attributes after a list of calls, \<^const>\<open>None\<close> when one is switched on while another is, or switched off
  without being on.
\<close>

fun attrs :: "(nat \<times> bool) option \<Rightarrow> curses_call list \<Rightarrow> (nat \<times> bool) option option" where
  "attrs a [] = Some a"
| "attrs a (Attron p b # cs) = (if a = None then attrs (Some (p, b)) cs else None)"
| "attrs a (Attroff p b # cs) = (if a = Some (p, b) then attrs None cs else None)"
| "attrs a (c # cs) = attrs a cs"

lemma attrs_append: "attrs a (xs @ ys) = Option.bind (attrs a xs) (\<lambda>b. attrs b ys)"
  by (induction a xs rule: attrs.induct) auto

lemma attrs_chars [simp]: "attrs a (map (\<lambda>i. Mvaddch y (x + i) g) is) = Some a"
  by (induction "is") auto

text \<open>The position a call moves to.\<close>

fun call_pos :: "curses_call \<Rightarrow> (int \<times> int) option" where
  "call_pos (Mvprintw y x s) = Some (y, x)"
| "call_pos (Mvaddch y x g) = Some (y, x)"
| "call_pos (Mvhline y x g n) = Some (y, x)"
| "call_pos c = None"

text \<open>
  A group of calls that leaves the attributes as they were and stays in rows \<open>lo\<close> to \<open>hi\<close>, columns \<open>0\<close> to \<open>w - 1\<close>.
\<close>

definition drawn :: "int \<Rightarrow> int \<Rightarrow> int \<Rightarrow> curses_call list \<Rightarrow> bool" where
  "drawn lo hi w cs \<longleftrightarrow> attrs None cs = Some None \<and>
     list_all (\<lambda>c. case call_pos c of None \<Rightarrow> True | Some (y, x) \<Rightarrow> lo \<le> y \<and> y \<le> hi \<and> 0 \<le> x \<and> x < w) cs"

lemma drawn_append: "drawn lo hi w a \<Longrightarrow> drawn lo hi w b \<Longrightarrow> drawn lo hi w (a @ b)"
  by (simp add: drawn_def attrs_append)

lemma drawn_nil [simp]: "drawn lo hi w []"
  by (simp add: drawn_def)

lemma drawn_mono: "drawn lo hi w cs \<Longrightarrow> lo' \<le> lo \<Longrightarrow> hi \<le> hi' \<Longrightarrow> drawn lo' hi' w cs"
  unfolding drawn_def by (auto simp: list_all_iff split: option.splits)

lemma drawn_bar:
  assumes "lo \<le> y" and "y \<le> hi" and "0 \<le> x" and "x + bw \<le> w"
  shows "drawn lo hi w (ui_draw_bar y x bw pc)"
proof -
  have "0 \<le> bar_filled bw pc" by (simp add: bar_filled_def Let_def)
  moreover have "bar_filled bw pc \<le> max 0 bw" by (simp add: bar_filled_def Let_def)
  ultimately show ?thesis using assms by (auto simp: drawn_def ui_draw_bar_def attrs_append list_all_iff)
qed

lemma drawn_text:
  "lo \<le> y \<Longrightarrow> y \<le> hi \<Longrightarrow> 2 < w \<Longrightarrow> drawn lo hi w [Mvprintw y 2 s]"
  "lo \<le> y \<Longrightarrow> y \<le> hi \<Longrightarrow> 2 < w \<Longrightarrow> drawn lo hi w [Attron p b, Mvprintw y 2 s, Attroff p b]"
  "lo \<le> y \<Longrightarrow> y \<le> hi \<Longrightarrow> 2 < w \<Longrightarrow> drawn lo hi w [Attron p b, Mvprintw y 2 s, Attroff p b, Printw t]"
  "lo \<le> y \<Longrightarrow> y \<le> hi \<Longrightarrow> 2 < w \<Longrightarrow> drawn lo hi w [Attron p b, Mvhline y 0 g n, Mvprintw y 2 s, Attroff p b]"
  by (auto simp: drawn_def)

lemma drawn_cpu_rows:
  "lo \<le> y \<Longrightarrow> 2 < w \<Longrightarrow> 2 + bw \<le> w \<Longrightarrow> drawn lo (max_y - 3) w (cpu_rows max_y bw cs y)"
proof (induction cs arbitrary: y)
  case (Cons c cs)
  have r: "drawn lo (max_y - 3) w (cpu_rows max_y bw cs (y + 1))" using Cons by simp
  have t: "drawn lo (max_y - 3) w [Attron COLOR_LABEL False, Mvprintw y 2 (fmt_l 6 (cpu_name c) @ '':''), Attroff COLOR_LABEL False,
     Printw ('' '' @ fmt_r 5 (fmt_fixed 1 (cpu_usage c)) @ ''%'')]" if "y < max_y - 2"
    using Cons.prems that by (intro drawn_text) auto
  have b: "drawn lo (max_y - 3) w (ui_draw_bar y 20 (bw - 18) (cpu_usage c))" if "y < max_y - 2"
    using Cons.prems that by (intro drawn_bar) auto
  show ?case
  proof (cases "y < max_y - 2")
    case True
    from drawn_append [OF t [OF True] drawn_append [OF b [OF True] r]] True show ?thesis by simp
  qed simp
qed simp

lemma drawn_disk_rows:
  "lo \<le> y \<Longrightarrow> 2 < w \<Longrightarrow> 2 + bw \<le> w \<Longrightarrow> drawn lo (max_y - 2) w (disk_rows max_y bw ds y)"
proof (induction ds arbitrary: y)
  case (Cons d ds)
  have r: "drawn lo (max_y - 2) w (disk_rows max_y bw ds (y + 3))" using Cons by simp
  show ?case
  proof (cases "y < max_y - 2")
    case True
    have b: "drawn lo (max_y - 2) w (ui_draw_bar (y + 1) 2 bw (di_used_percent d))"
      using Cons.prems True by (intro drawn_bar) auto
    have t: "drawn lo (max_y - 2) w [Mvprintw y 2 s]" for s using Cons.prems True by (intro drawn_text) auto
    show ?thesis using True drawn_append [OF t drawn_append [OF b r]] by simp
  qed simp
qed simp

lemma drawn_net_rows: "lo \<le> y \<Longrightarrow> 2 < w \<Longrightarrow> drawn lo (max_y - 3) w (net_rows max_y ns y)"
proof (induction ns arbitrary: y)
  case (Cons n ns)
  then have "drawn lo (max_y - 3) w (net_rows max_y ns (y + 1))" by simp
  then show ?case using Cons.prems by (auto simp: drawn_def)
qed simp

lemma drawn_process_rows:
  "lo \<le> y \<Longrightarrow> 0 \<le> k \<Longrightarrow> 2 < w \<Longrightarrow> drawn lo (y + rows - 1) w (process_rows mx rows y k ps)"
proof (induction ps arbitrary: k)
  case (Cons p ps)
  have r: "drawn lo (y + rows - 1) w (process_rows mx rows y (k + 1) ps)" using Cons by simp
  have "drawn lo (y + rows - 1) w (process_row mx (y + k) p)" if "k < rows"
    using Cons.prems that by (auto simp: process_row_def drawn_def)
  from drawn_append [OF this r] show ?case by simp
qed simp

subsection \<open>The layout of the screen\<close>

lemma drawn_content:
  assumes "11 \<le> max_y" and "37 \<le> max_x" and "0 \<le> tab" and "tab < NUM_TABS"
  shows "\<exists>cs. drawn 3 (max_y - 2) max_x cs \<and> ui_content max_y max_x sys tab off =
    cs @ (if tab = 2 then [Mvprintw (max_y - 1) 2 (process_footer (length (si_processes sys)))] else [])"
proof -
  have bw: "2 + bar_width_of (max_x - 20) \<le> max_x" "2 + bar_width_of (max_x - 40) \<le> max_x" using assms(2) by (auto simp: bar_width_of_def)
  note parts = drawn_append drawn_bar drawn_text drawn_cpu_rows [THEN drawn_mono] drawn_disk_rows
    drawn_net_rows [THEN drawn_mono] drawn_process_rows [THEN drawn_mono]
  have cpu: "drawn 3 (max_y - 2) max_x (ui_draw_cpu max_y max_x sys 3)"
    unfolding ui_draw_cpu_def Let_def using assms bw by (intro parts) auto
  have mem: "drawn 3 (max_y - 2) max_x (ui_draw_memory max_x sys 3)"
  proof (cases "0 < mi_swap_total (si_memory sys)")
    case True
    show ?thesis unfolding ui_draw_memory_def Let_def if_P [OF True] using assms bw by (intro parts) auto
  next
    case False
    show ?thesis unfolding ui_draw_memory_def Let_def if_not_P [OF False] using assms bw by (intro parts) auto
  qed
  have disk: "drawn 3 (max_y - 2) max_x (ui_draw_disks max_y max_x sys 3)"
    unfolding ui_draw_disks_def using assms bw by (intro parts) auto
  have none: "drawn 3 (max_y - 2) max_x (if b then [Mvprintw (3 + 1) 2 s] else [])" for b s using assms by (simp add: drawn_text(1))
  have net: "drawn 3 (max_y - 2) max_x (ui_draw_network max_y max_x sys 3)"
    unfolding ui_draw_network_def using assms by (intro parts none) auto
  have rows: "display_rows_of max_y 4 = max_y - 6" using assms(1) by (simp add: display_rows_of_def)
  have e: "(3 :: int) + 1 = 4" by simp
  have page: "drawn 3 (max_y - 2) max_x ([Attron p b, Mvhline 3 0 g n, Mvprintw 3 2 s, Attroff p b] @ process_rows max_x (max_y - 6) 4 0 ps)"
    for p b g n s ps using assms by (intro parts) auto
  have procs: "\<exists>cs. drawn 3 (max_y - 2) max_x cs \<and> ui_draw_processes max_y max_x sys 3 off =
    cs @ [Mvprintw (max_y - 1) 2 (process_footer (length (si_processes sys)))]"
    unfolding ui_draw_processes_def Let_def append_assoc [symmetric] e rows using page by blast
  have "tab = 0 \<or> tab = 1 \<or> tab = 2 \<or> tab = 3 \<or> tab = 4" using assms(3,4) by (auto simp: NUM_TABS_def)
  then show ?thesis using cpu mem disk net procs by (elim disjE) (simp_all add: ui_content_def)
qed

lemma drawn_tab_bar:
  "0 \<le> tx \<Longrightarrow> tx + int (sum_list (map (\<lambda>n. length n + 3) ns)) \<le> w + int (length (last ns)) + 2 \<Longrightarrow> 1 \<le> hi \<Longrightarrow> ns \<noteq> [] \<Longrightarrow>
   drawn 0 hi w (tab_bar sel i tx ns)"
proof (induction ns arbitrary: i tx)
  case (Cons n ns)
  have lt: "int (sum_list (map (\<lambda>n. length n + 3) ns)) \<ge> (if ns = [] then 0 else int (length (last ns)) + 3)"
    by (induction ns rule: rev_induct) auto
  have tail: "drawn 0 hi w (tab_bar sel (i + 1) (tx + int (length n) + 3) ns)"
    using Cons.IH [of "tx + int (length n) + 3" "i + 1"] Cons.prems by (cases "ns = []") (auto simp: algebra_simps)
  have "drawn 0 hi w ((if i = sel then [Attron COLOR_TAB_ACTIVE True] else [Attron COLOR_TAB_IDLE False]) @ [Mvprintw 1 tx ('' '' @ n @ '' '')] @
     (if i = sel then [Attroff COLOR_TAB_ACTIVE True] else [Attroff COLOR_TAB_IDLE False]))"
    using Cons.prems lt by (auto simp: drawn_def split: if_splits)
  from drawn_append [OF this tail] show ?case by simp
qed simp

text \<open>
  In a window of at least 11 rows and 37 columns every page is drawn inside the window and leaves no attribute
  switched on, and the page itself stays between the three rows of the heading and the last row, except that the
  process page writes its own last row.
\<close>

lemma ui_draw_layout:
  assumes "11 \<le> max_y" and "37 \<le> max_x" and "0 \<le> tab" and "tab < NUM_TABS"
  shows "drawn 0 (max_y - 1) max_x (ui_draw max_y max_x sys tab off) \<and>
    (\<exists>cs. drawn 3 (max_y - 2) max_x cs \<and> ui_content max_y max_x sys tab off =
       cs @ (if tab = 2 then [Mvprintw (max_y - 1) 2 (process_footer (length (si_processes sys)))] else []))"
proof -
  obtain cs where cs: "drawn 3 (max_y - 2) max_x cs" "ui_content max_y max_x sys tab off =
      cs @ (if tab = 2 then [Mvprintw (max_y - 1) 2 (process_footer (length (si_processes sys)))] else [])"
    using drawn_content [OF assms] by blast
  have "drawn 0 (max_y - 1) max_x cs" by (rule drawn_mono [OF cs(1)]) auto
  moreover have "drawn 0 (max_y - 1) max_x (if tab = 2 then [Mvprintw (max_y - 1) 2 (process_footer (length (si_processes sys)))] else [])"
    using assms by (simp add: drawn_text(1))
  ultimately have content: "drawn 0 (max_y - 1) max_x (ui_content max_y max_x sys tab off)" unfolding cs(2) by (rule drawn_append)
  have tabs: "drawn 0 (max_y - 1) max_x (tab_bar tab 0 2 tab_names)" using assms by (intro drawn_tab_bar) (auto simp: tab_names_def)
  have head: "drawn 0 (max_y - 1) max_x [Erase, Attron p b, Mvhline 0 0 g n, Mvprintw 0 2 s, Attroff p b]" for p b g n s
    using assms by (auto simp: drawn_def)
  have line: "drawn 0 (max_y - 1) max_x [Mvhline 2 0 g n]" for g n using assms by (auto simp: drawn_def)
  have foot: "drawn 0 (max_y - 1) max_x [Attron p b, Mvprintw (max_y - 1) 2 s, Attroff p b, Refresh]" for p b s
    using assms by (auto simp: drawn_def)
  have "drawn 0 (max_y - 1) max_x (ui_draw max_y max_x sys tab off)"
    unfolding ui_draw_def Let_def by (intro drawn_append head tabs line content foot)
  then show ?thesis using cs by blast
qed

definition demo_sys :: sys_info where
  "demo_sys = zero_sys\<lparr>si_hostname := ''host''\<rparr>"

theorem ui_draw_layout_witness:
  "drawn 0 23 80 (ui_draw 24 80 demo_sys 2 5) \<and> 0 < length (ui_draw 24 80 demo_sys 2 5)"
proof
  show "drawn 0 23 80 (ui_draw 24 80 demo_sys 2 5)"
    using ui_draw_layout [of 24 80 2 demo_sys 5] by (simp add: NUM_TABS_def)
  show "0 < length (ui_draw 24 80 demo_sys 2 5)" by (simp add: ui_draw_def Let_def)
qed

subsection \<open>The process page\<close>

text \<open>The rows of a page with their texts.\<close>

definition screen_texts :: "curses_call list \<Rightarrow> (int \<times> string) list" where
  "screen_texts cs = List.map_filter (\<lambda>c. case c of Mvprintw y x s \<Rightarrow> Some (y, s) | _ \<Rightarrow> None) cs"

lemma screen_texts_simps [simp]:
  "screen_texts [] = []" "screen_texts (a @ b) = screen_texts a @ screen_texts b"
  "screen_texts (c # cs) = (case c of Mvprintw y x s \<Rightarrow> [(y, s)] | _ \<Rightarrow> []) @ screen_texts cs"
  by (auto simp: screen_texts_def List.map_filter_def split: curses_call.splits)

lemma process_rows_texts:
  "0 \<le> k \<Longrightarrow> screen_texts (process_rows mx rows y k ps) =
     map (\<lambda>i. (y + k + int i, process_text mx (ps ! i))) [0..<min (nat (rows - k)) (length ps)]"
proof (induction ps arbitrary: k)
  case (Cons p ps)
  have row: "screen_texts (process_row mx (y + k) p) = [(y + k, process_text mx p)]" by (simp add: process_row_def)
  show ?case
  proof (cases "k < rows")
    case True
    then have n: "min (nat (rows - k)) (length (p # ps)) = Suc (min (nat (rows - (k + 1))) (length ps))" by simp
    have "screen_texts (process_rows mx rows y k (p # ps)) = (y + k, process_text mx p) #
        map (\<lambda>i. (y + (k + 1) + int i, process_text mx (ps ! i))) [0..<min (nat (rows - (k + 1))) (length ps)]"
      using True row Cons.IH [of "k + 1"] Cons.prems by simp
    also have "\<dots> = map (\<lambda>i. (y + k + int i, process_text mx ((p # ps) ! i))) [0..<min (nat (rows - k)) (length (p # ps))]"
      unfolding n by (simp only: upt_conv_Cons zero_less_Suc list.map map_Suc_upt [symmetric] map_map o_def) (simp add: add.assoc)
    finally show ?thesis .
  qed simp
qed simp

lemma process_start_range:
  "0 \<le> n \<Longrightarrow> 0 \<le> off \<Longrightarrow> 0 < rows \<Longrightarrow> process_start n rows off = max 0 (min off (n - rows))"
  by (auto simp: process_start_def Let_def max_def min_def)

lemma process_page_texts:
  fixes sys :: sys_info
  assumes "7 \<le> max_y" and "0 \<le> off"
  defines "ps \<equiv> si_processes sys" and "rows \<equiv> nat (max_y - 6)"
  defines "start \<equiv> min (nat off) (length ps - rows)"
  shows "\<exists>heading. screen_texts (ui_draw_processes max_y max_x sys 3 off) =
    (3, heading) # map (\<lambda>i. (4 + int i, process_text max_x (ps ! (start + i)))) [0..<min rows (length ps - start)] @
    [(max_y - 1, process_footer (length ps))]"
proof -
  have r: "display_rows_of max_y 4 = max_y - 6" using assms(1) by (simp add: display_rows_of_def)
  have s: "nat (process_start (int (length ps)) (max_y - 6) off) = start"
    using assms(1,2) by (subst process_start_range) (auto simp: start_def rows_def nat_diff_distrib' min_def max_def)
  have i: "drop start ps ! i = ps ! (start + i)" if "i < length ps - start" for i using that by simp
  have "screen_texts (process_rows max_x (max_y - 6) 4 0 (drop start ps)) =
      map (\<lambda>i. (4 + int i, process_text max_x (ps ! (start + i)))) [0..<min rows (length ps - start)]"
    by (subst process_rows_texts) (auto simp: rows_def i)
  then show ?thesis by (simp add: ui_draw_processes_def Let_def ps_def [symmetric] r s)
qed

text \<open>With short fields a row ends at the right margin at the latest.\<close>

lemma process_text_fits:
  assumes "0 \<le> pr_pid p" and "pr_pid p < 10 ^ 7" and "length (pr_user p) \<le> 10" and "42 \<le> max_x"
    and "0 \<le> pr_cpu_percent p" and "pr_cpu_percent p < 999" and "0 \<le> pr_mem_percent p" and "pr_mem_percent p < 999"
  shows "2 + int (length (process_text max_x p)) \<le> max_x"
proof -
  have "length (dec_nat (nat (pr_pid p))) \<le> 7" using assms(1,2) by (intro dec_nat_length) auto
  then have pid: "length (dec_int (pr_pid p)) \<le> 7" using assms(1) by (simp add: dec_int_def)
  have pct: "length (fmt_fixed 1 (pr_cpu_percent p)) \<le> 5" "length (fmt_fixed 1 (pr_mem_percent p)) \<le> 5"
    using assms(5-8) by (intro fmt_fixed_1_length; simp)+
  have "length (process_text max_x p) \<le> 40 + nat (max_x - 42)"
    unfolding process_text_def using pid pct assms(3,4)
    by (intro order_trans [OF length_cstr]) (simp add: fmt_prec_def)
  then show ?thesis using assms(4) by simp
qed


text \<open>A machine with one process, and a directory entry of another kind.\<close>

definition demo_fs :: proc_fs where
  "demo_fs = \<lparr>fs_stat = None, fs_loadavg = None, fs_uptime = None, fs_meminfo = None, fs_pids = Some [''self'', dec_nat 1],
     fs_proc = init_files, fs_mounts = None, fs_statvfs = (\<lambda>_. None), fs_net_dev = None, fs_page_size = 4096, fs_clock_ticks = 100,
     fs_getpw = (\<lambda>_. None)\<rparr>"

lemma demo_round: "\<exists>si' p. monitor_round demo_fs si = Some si' \<and> si_processes si' = [p] \<and> pr_pid p = 1"
proof -
  have "pf_stat (init_files (int 1)) = Some (stat_text 1 ''init'' init_fields)" by (simp add: init_files_def)
  from process_entry_found [of 1 "''init''" init_fields init_files, OF init_stat_ok this]
  obtain f where f: "process_entry e init_files (dec_nat 1) = Some (Some (f e)) \<and> pr_pid (f e) = 1" for e by (metis of_nat_1)
  have "atoi ''self'' = 0" by (simp add: atoi_def strtol10_def c_isspace_def c_isdigit_def digit_val_def to_int32_def)
  then have "process_entry e init_files ''self'' = Some None" for e by (simp add: process_entry_def)
  then have "process_read e init_files (Some [''self'', dec_nat 1]) = Some (0, [f e])" for e
    using f by (simp add: process_read_def MAX_PROCESSES_def del: dec_nat.simps)
  then show ?thesis using f by (simp add: monitor_round_def Let_def demo_fs_def network_read_def del: dec_nat.simps)
qed


text \<open>
  Scrolling past the end is counted: beyond the last page the offset still grows, and as many steps back show
  the same page.
\<close>

lemma keys_down: "fold ui_handle_input (replicate n KEY_DOWN) (tab, off) = (tab, off + int n)"
  by (induction n arbitrary: off) auto

lemma keys_up: "int n \<le> off \<Longrightarrow> fold ui_handle_input (replicate n KEY_UP) (tab, off) = (tab, off - int n)"
  by (induction n arbitrary: off) auto

lemma overscroll_same_page:
  assumes "7 \<le> max_y" and "int (length (si_processes sys)) \<le> off" and "m \<le> n"
    and "fold ui_handle_input (replicate n KEY_DOWN @ replicate m KEY_UP) (2, off) = (tab, off')"
  shows "tab = 2 \<and> ui_draw max_y max_x sys tab off' = ui_draw max_y max_x sys 2 off"
proof -
  have "int m \<le> off + int n" using assms(2,3) by linarith
  then have t: "tab = 2" "off' = off + int n - int m" using assms(4) by (simp_all add: keys_down keys_up del: fold_replicate)
  have "0 < display_rows_of max_y 4" by (simp add: display_rows_of_def)
  then have start: "process_start l (display_rows_of max_y 4) x = process_start l (display_rows_of max_y 4) y" if "l \<le> x" "l \<le> y" for l x y
    using that by (simp add: process_start_def Let_def)
  have "int (length (si_processes sys)) \<le> off'" using t(2) assms(2,3) by simp
  from start [OF this assms(2)] have "ui_draw_processes max_y max_x sys 3 off' = ui_draw_processes max_y max_x sys 3 off"
    by (simp add: ui_draw_processes_def)
  then show ?thesis using t(1) by (simp add: ui_draw_def ui_content_def)
qed

text \<open>
  Both last rows of the process page start at column 2 of the same row, and the second, shorter one is written
  over the first: the end of the process row remains behind the general one.
\<close>

lemma footers_mixed:
  "\<exists>a b. ui_draw max_y max_x sys 2 off = a @ [Mvprintw (max_y - 1) 2 (process_footer (length (si_processes sys))), Attron COLOR_LABEL False,
       Mvprintw (max_y - 1) 2 ui_footer] @ b" (is ?A)
  "length ui_footer < length (process_footer n)" (is ?B)
proof -
  let ?f = "[Mvprintw (max_y - 1) 2 (process_footer (length (si_processes sys)))]"
    and ?g = "[Attron COLOR_LABEL False, Mvprintw (max_y - 1) 2 ui_footer, Attroff COLOR_LABEL False, Refresh]"
  obtain a where a: "ui_content max_y max_x sys 2 off = a @ ?f"
    unfolding ui_content_def ui_draw_processes_def Let_def append_assoc [symmetric] by fastforce
  obtain h where "ui_draw max_y max_x sys 2 off = h @ ui_content max_y max_x sys 2 off @ ?g"
    unfolding ui_draw_def Let_def append_assoc [symmetric] by blast
  then have "ui_draw max_y max_x sys 2 off = (h @ a) @ (?f @ take 2 ?g) @ drop 2 ?g" by (simp add: a)
  then show ?A by (simp only: append_Cons append_Nil take_Suc_Cons numeral_2_eq_2 take_0) blast
  have "0 < length (dec_nat n)" by simp
  then show ?B by (simp add: ui_footer_def process_footer_def)
qed

text \<open>The kernel shown is the first word of \<open>/proc/version\<close>, which is the name of the system and not its version.\<close>

lemma kernel_first_word: "read_kernel (Some (''Linux version 6.1.0'' @ rest)) = ''Linux''"
  by (simp add: read_kernel_def scan_s_def c_isspace_def cstr_def Let_def)

subsection \<open>The program from start to end\<close>

lemma monitor_loop_step:
  "monitor_loop True (m # ms) si tab off =
     (case monitor_round (mo_fs m) si of None \<Rightarrow> None
      | Some si' \<Rightarrow>
          let cs = ui_draw (mo_max_y m) (mo_max_x m) si' tab off @ [Timeout 2000]
          in if quit_key (mo_key m) then Some (True, cs)
             else case ui_handle_input (mo_key m) (tab, off) of (tab', off') \<Rightarrow>
               map_option (\<lambda>(e, tr). (e, cs @ tr)) (monitor_loop (\<not> mo_sigint m) ms si' tab' off'))"
  "monitor_loop True [] si tab off = Some (False, [])"
  "monitor_loop False ms si tab off = Some (True, [])"
  by (subst monitor_loop.simps, simp)+

text \<open>
  The rounds that are run, up to and with the first that ends the loop, what is known of the system after a number
  of them, and the page and offset after as many keys.
\<close>

definition stops :: "monitor_in \<Rightarrow> bool" where
  "stops m \<longleftrightarrow> quit_key (mo_key m) \<or> mo_sigint m"

fun rounds_run :: "monitor_in list \<Rightarrow> nat" where
  "rounds_run [] = 0"
| "rounds_run (m # ms) = (if stops m then 1 else Suc (rounds_run ms))"

fun sys_after :: "sys_info \<Rightarrow> monitor_in list \<Rightarrow> sys_info option" where
  "sys_after si [] = Some si"
| "sys_after si (m # ms) = Option.bind (monitor_round (mo_fs m) si) (\<lambda>si'. sys_after si' ms)"

definition view_after :: "int \<times> int \<Rightarrow> monitor_in list \<Rightarrow> int \<times> int" where
  "view_after v ms = fold ui_handle_input (map mo_key ms) v"

definition screen_of :: "monitor_in \<Rightarrow> sys_info \<Rightarrow> int \<times> int \<Rightarrow> curses_call list" where
  "screen_of m si v = ui_draw (mo_max_y m) (mo_max_x m) si (fst v) (snd v) @ [Timeout 2000]"

definition screens :: "sys_info \<Rightarrow> int \<times> int \<Rightarrow> monitor_in list \<Rightarrow> nat \<Rightarrow> curses_call list" where
  "screens si v ms n = concat (map (\<lambda>i. screen_of (ms ! i) (the (sys_after si (take (Suc i) ms))) (view_after v (take i ms))) [0..<n])"

lemma screens_Cons:
  assumes "monitor_round (mo_fs m) si = Some si'"
  shows "screens si v (m # ms) (Suc n) = screen_of m si' v @ screens si' (ui_handle_input (mo_key m) v) ms n"
  using assms by (simp add: screens_def upt_conv_Cons view_after_def del: upt_Suc flip: map_Suc_upt) (simp add: comp_def)

lemma monitor_loop_screens:
  assumes "monitor_loop True ms si tab off = Some (e, tr)"
  shows "(e \<longleftrightarrow> list_ex stops ms) \<and> tr = screens si (tab, off) ms (rounds_run ms) \<and> (\<forall>i \<le> rounds_run ms. sys_after si (take i ms) \<noteq> None)"
  using assms
proof (induction ms arbitrary: si tab off tr)
  case Nil
  then show ?case by (simp add: monitor_loop_step screens_def)
next
  case (Cons m ms)
  obtain si' where si': "monitor_round (mo_fs m) si = Some si'" using Cons.prems(1) by (auto simp: monitor_loop_step split: option.splits)
  note cons = screens_Cons [OF si', of "(tab, off)" ms]
  have one: "\<forall>i \<le> Suc 0. sys_after si (take i (m # ms)) \<noteq> None" by (auto simp: si' le_Suc_eq)
  show ?case
  proof (cases "stops m")
    case True
    then have "tr = screen_of m si' (tab, off)" "e"
      using Cons.prems si' by (auto simp: monitor_loop_step stops_def screen_of_def Let_def split: if_splits prod.splits)
    then show ?thesis using True cons [of 0] one by (simp add: screens_def)
  next
    case False
    obtain tab' off' where v: "ui_handle_input (mo_key m) (tab, off) = (tab', off')" by (cases "ui_handle_input (mo_key m) (tab, off)")
    obtain tr' where tr': "monitor_loop True ms si' tab' off' = Some (e, tr')" "tr = screen_of m si' (tab, off) @ tr'"
      using Cons.prems si' v False by (auto simp: monitor_loop_step stops_def screen_of_def Let_def)
    have "sys_after si (take i (m # ms)) \<noteq> None" if "i \<le> Suc (rounds_run ms)" for i
      using Cons.IH [OF tr'(1)] si' that by (cases i) auto
    then show ?thesis using Cons.IH [OF tr'(1)] False tr'(2) cons [of "rounds_run ms"] v by simp
  qed
qed

lemma view_after_range:
  assumes "0 \<le> fst v \<and> fst v < NUM_TABS \<and> 0 \<le> snd v"
  shows "0 \<le> fst (view_after v ms) \<and> fst (view_after v ms) < NUM_TABS \<and> 0 \<le> snd (view_after v ms)"
  using assms
proof (induction ms arbitrary: v)
  case (Cons m ms)
  obtain t u where "ui_handle_input (mo_key m) (fst v, snd v) = (t, u)" by (cases "ui_handle_input (mo_key m) (fst v, snd v)")
  then show ?case using Cons.IH [of "(t, u)"] ui_input_range [OF Cons.prems] by (simp add: view_after_def)
qed (simp add: view_after_def)


definition demo_rounds :: "monitor_in list" where
  "demo_rounds = [\<lparr>mo_fs = demo_fs, mo_max_y = 24, mo_max_x = 80, mo_key = KEY_TAB, mo_sigint = False\<rparr>,
     \<lparr>mo_fs = demo_fs, mo_max_y = 24, mo_max_x = 80, mo_key = KEY_OTHER (CHR ''q''), mo_sigint = False\<rparr>]"


subsection \<open>Sizes\<close>

lemma fmt_fixed_1_bound:
  assumes "0 \<le> v" and "v \<le> 10 ^ k" and "0 < k"
  shows "length (fmt_fixed 1 v) \<le> k + 3"
proof -
  have "round_even (v * 10) \<le> 10 ^ (k + 1)" using assms(2) by (intro round_even_mono_int) (simp add: mult.commute)
  then have "nat (round_even (v * 10)) \<le> 10 ^ k * 10" by (simp add: nat_le_iff mult.commute)
  then have "nat (round_even (v * 10)) div 10 \<le> 10 ^ k" using div_le_mono [of "nat (round_even (v * 10))" "10 ^ k * 10" 10] by simp
  then have "nat (round_even (v * 10)) div 10 < 10 ^ (k + 1)" by (rule le_less_trans) simp
  then have "length (dec_nat (nat (round_even (v * 10)) div 10)) \<le> k + 1" by (rule dec_nat_length) simp
  moreover have "length (dec_nat (nat (round_even (v * 10)) mod 10)) \<le> 1" by (rule dec_nat_length) simp_all
  ultimately show ?thesis using assms(1) by (simp add: fmt_fixed_def Let_def pad_left_def)
qed

definition byte_units :: "string list" where
  "byte_units = ['' KB'', '' MB'', '' GB'', '' TB'']"

text \<open>
  A size is shown with the largest unit that does not exceed it, rounded to a tenth of it, and the text is never cut.
\<close>

lemma format_bytes_unit:
  assumes "1024 \<le> b"
  shows "\<exists>k < 4. format_bytes b 32 = fmt_fixed 1 (of_nat (unat b) / 1024 ^ (k + 1)) @ byte_units ! k \<and>
    (1 :: rat) \<le> of_nat (unat b) / 1024 ^ (k + 1) \<and> (k < 3 \<longrightarrow> (of_nat (unat b) :: rat) / 1024 ^ (k + 1) < 1024)"
proof -
  define n where "n = unat b"
  have cast: "numeral w \<le> (of_nat m :: rat) \<longleftrightarrow> numeral w \<le> m" "(of_nat m :: rat) < numeral w \<longleftrightarrow> m < numeral w" for w m
    by (metis of_nat_le_iff of_nat_numeral, metis of_nat_less_iff of_nat_numeral)
  have "n < 2 ^ 64" using unsigned_less [of b] by (simp add: n_def)
  then have top: "(of_nat n :: rat) \<le> 10 ^ 20" by (simp add: cast(2) [THEN iffD2, THEN less_imp_le])
  have cut: "take (32 - 1) (fmt_fixed 1 (of_nat n / numeral w) @ u) = fmt_fixed 1 (of_nat n / numeral w) @ u" if "length u = 3" for w u
  proof -
    have "(of_nat n :: rat) / numeral w \<le> of_nat n / 1" by (intro divide_left_mono) auto
    also have "\<dots> \<le> 10 ^ 20" using top by (simp only: div_by_1)
    finally have "length (fmt_fixed 1 (of_nat n / numeral w)) \<le> 20 + 3" by (intro fmt_fixed_1_bound) auto
    then show ?thesis using that by simp
  qed
  have le: "1099511627776 \<le> b \<longleftrightarrow> 1099511627776 \<le> n" "1073741824 \<le> b \<longleftrightarrow> 1073741824 \<le> n" "1048576 \<le> b \<longleftrightarrow> 1048576 \<le> n"
    "1024 \<le> b \<longleftrightarrow> 1024 \<le> n" by (simp_all add: word_le_nat_alt n_def)
  have f: "format_bytes b 32 = (if 1099511627776 \<le> n then fmt_fixed 1 (of_nat n / 1099511627776) @ '' TB''
     else if 1073741824 \<le> n then fmt_fixed 1 (of_nat n / 1073741824) @ '' GB'' else if 1048576 \<le> n then fmt_fixed 1 (of_nat n / 1048576) @ '' MB''
     else fmt_fixed 1 (of_nat n / 1024) @ '' KB'')"
    using assms by (simp add: format_bytes_def Let_def n_def [symmetric] le cut [simplified])
  have ge: "1024 \<le> n" using assms by (simp add: le)
  consider "1099511627776 \<le> n" | "1073741824 \<le> n" "n < 1099511627776" | "1048576 \<le> n" "n < 1073741824" | "n < 1048576" by linarith
  then show ?thesis
  proof cases
    case 1
    then show ?thesis by (intro exI [of _ 3]) (simp add: f n_def [symmetric] byte_units_def cast)
  next
    case 2
    then show ?thesis by (intro exI [of _ 2]) (simp add: f n_def [symmetric] byte_units_def cast)
  next
    case 3
    then show ?thesis by (intro exI [of _ 1]) (simp add: f n_def [symmetric] byte_units_def cast)
  next
    case 4
    then show ?thesis using ge by (intro exI [of _ 0]) (simp add: f n_def [symmetric] byte_units_def cast)
  qed
qed

end
