(* ===== verification/Sysmon_Page.thy ===== *)
theory Sysmon_Page
  imports Sysmon_Cpu Sysmon_Ui
begin

text \<open>
  From \<open>/proc/stat\<close> to the screen: the readers (\<open>cpu.c\<close>), a round of \<open>main\<close> and the CPU page (\<open>ui.c\<close>) together.
\<close>

lemma monitor_round_cpu:
  assumes "monitor_round k si = Some si'"
  shows "si_cpu si' = cpu_calculate_usage (snd (cpu_read (fs_stat k) (fs_loadavg k) (fs_uptime k) (si_cpu si))) (si_cpu si)"
  using assms by (auto simp: monitor_round_def Let_def split: option.splits)

text \<open>The calls of the row of a core.\<close>

definition core_row :: "int \<Rightarrow> cpu_info \<Rightarrow> curses_call list" where
  "core_row y c = [Mvprintw y 2 (fmt_l 6 (cpu_name c) @ '':''), Attroff COLOR_LABEL False, Printw ('' '' @ fmt_r 5 (fmt_fixed 1 (cpu_usage c)) @ ''%'')]"

lemma cpu_rows_row:
  assumes "i < length cs" and "y + int i < max_y - 2"
  shows "\<exists>a b. cpu_rows max_y bw cs y = a @ core_row (y + int i) (cs ! i) @ b"
  using assms
proof (induction cs arbitrary: i y)
  case (Cons c cs)
  show ?case
  proof (cases i)
    case 0
    have "cpu_rows max_y bw (c # cs) y = [Attron COLOR_LABEL False] @ core_row (y + int i) ((c # cs) ! i) @
        ui_draw_bar y 20 (bw - 18) (cpu_usage c) @ cpu_rows max_y bw cs (y + 1)" using 0 Cons.prems by (simp add: core_row_def)
    then show ?thesis by blast
  next
    case (Suc j)
    then obtain a b where "cpu_rows max_y bw cs (y + 1) = a @ core_row (y + 1 + int j) (cs ! j) @ b"
      using Cons.IH [of j "y + 1"] Cons.prems by auto
    then have "cpu_rows max_y bw (c # cs) y = ([Attron COLOR_LABEL False] @ core_row y c @ ui_draw_bar y 20 (bw - 18) (cpu_usage c) @ a) @
        core_row (y + int i) ((c # cs) ! i) @ b" using Suc Cons.prems by (simp add: core_row_def add.assoc)
    then show ?thesis by blast
  qed
qed simp


definition stat_fs :: "nat list \<Rightarrow> proc_fs" where
  "stat_fs t = demo_fs\<lparr>fs_pids := None, fs_stat := Some (reading_text (t, [t], [''ctxt 9'']))\<rparr>"

lemma stat_round: "\<exists>si'. monitor_round (stat_fs t) si = Some si'"
  by (simp add: monitor_round_def Let_def stat_fs_def demo_fs_def process_read_def network_read_def)


end
