(* ===== verification/Serial.thy ===== *)
theory Serial
  imports C_Stdio
begin

text \<open>
  The serial port of the serial tool (\<open>serial-tool/src/serial.c\<close>) and its two displays (\<open>hexdump.c\<close>). The
  device is a record of its settings, of what it lets each \<open>write\<close> take and of what each wait for input
  finds, and of the bytes that have gone out. Writes to the log file are complete; the pointers of the
  C interface are never null here.
\<close>

subsection \<open>Terminal settings\<close>

datatype iflag = IGNBRK | BRKINT | PARMRK | ISTRIP | INLCR | IGNCR | ICRNL | IXON | IXOFF | IXANY | INPCK
datatype oflag = OPOST
datatype cflag = PARENB | PARODD | CSTOPB | CRTSCTS | CREAD | CLOCAL
datatype lflag = ECHO | ECHONL | ICANON | ISIG | IEXTEN

text \<open>The two bits of \<open>CSIZE\<close> hold the number of data bits, \<open>CS5\<close> being zero.\<close>

record termios =
  c_iflag :: "iflag set"
  c_oflag :: "oflag set"
  c_cflag :: "cflag set"
  c_csize :: nat
  c_lflag :: "lflag set"
  c_vmin :: nat
  c_vtime :: nat
  c_ospeed :: int
  c_ispeed :: int

definition baud_rates :: "int list" where
  "baud_rates = [50, 75, 110, 134, 150, 200, 300, 600, 1200, 1800, 2400, 4800, 9600, 19200, 38400, 57600, 115200, 230400,
     460800, 500000, 576000, 921600, 1000000, 1500000, 2000000]"

definition serial_baud_const :: "int \<Rightarrow> int" where
  "serial_baud_const baud = (if baud \<in> set baud_rates then baud else 115200)"

subsection \<open>The port and the device\<close>

record serial_port =
  sp_fd_open :: bool
  sp_device :: string
  sp_baud_rate :: int
  sp_data_bits :: int
  sp_stop_bits :: int
  sp_parity :: char
  sp_old_termios :: termios
  sp_is_open :: bool
  sp_hex_mode :: bool
  sp_timestamp :: bool
  sp_log_fd :: "path option"

text \<open>
  \<open>Took n\<close> takes at most \<open>n\<close> bytes, \<open>Again\<close> is an interrupted or refused attempt that is repeated; when the
  script is at its end everything is taken. A wait for input ends without data (time-out, interrupted or
  spurious), in an error, or with bytes.
\<close>

datatype write_event = Took nat | Again | WriteError
datatype read_event = NoData | ReadFailed | Incoming bytes

record serial_line =
  ln_tty :: termios
  ln_writes :: "write_event list"
  ln_reads :: "read_event list"
  ln_sent :: bytes
  ln_logs :: "path \<Rightarrow> bytes"

definition zero_termios :: termios where
  "zero_termios = \<lparr>c_iflag = {}, c_oflag = {}, c_cflag = {}, c_csize = 5, c_lflag = {}, c_vmin = 0, c_vtime = 0, c_ospeed = 0, c_ispeed = 0\<rparr>"

definition closed_port :: serial_port where
  "closed_port = \<lparr>sp_fd_open = False, sp_device = [], sp_baud_rate = 0, sp_data_bits = 0, sp_stop_bits = 0, sp_parity = NUL,
     sp_old_termios = zero_termios, sp_is_open = False, sp_hex_mode = False, sp_timestamp = False, sp_log_fd = None\<rparr>"

text \<open>\<open>open_ok\<close> and \<open>get_ok\<close>: whether \<open>open\<close> and \<open>tcgetattr\<close> succeed.\<close>

definition serial_open :: "bool \<Rightarrow> bool \<Rightarrow> string \<Rightarrow> int \<Rightarrow> serial_line \<Rightarrow> int \<times> serial_port" where
  "serial_open open_ok get_ok device baud ln =
     (if \<not> open_ok \<or> \<not> get_ok then (-1, closed_port)
      else (0, closed_port\<lparr>sp_fd_open := True, sp_old_termios := ln_tty ln, sp_device := take 255 device, sp_baud_rate := baud,
             sp_is_open := True\<rparr>))"

definition raw_termios :: "int \<Rightarrow> int \<Rightarrow> int \<Rightarrow> char \<Rightarrow> termios \<Rightarrow> termios" where
  "raw_termios baud data_bits stop_bits parity t =
     t\<lparr>c_ispeed := serial_baud_const baud, c_ospeed := serial_baud_const baud,
       c_iflag := c_iflag t - {IGNBRK, BRKINT, PARMRK, ISTRIP, INLCR, IGNCR, ICRNL, IXON, IXOFF, IXANY},
       c_oflag := c_oflag t - {OPOST},
       c_cflag := (c_cflag t - {PARENB, PARODD, CSTOPB, CRTSCTS}) \<union> {CREAD, CLOCAL} \<union> (if stop_bits = 2 then {CSTOPB} else {})
         \<union> (if c_toupper parity = CHR ''E'' then {PARENB} else if c_toupper parity = CHR ''O'' then {PARENB, PARODD} else {}),
       c_csize := (if 5 \<le> data_bits \<and> data_bits \<le> 8 then nat data_bits else 8),
       c_lflag := c_lflag t - {ECHO, ECHONL, ICANON, ISIG, IEXTEN}, c_vmin := 0, c_vtime := 0\<rparr>"

definition serial_configure ::
  "bool \<Rightarrow> bool \<Rightarrow> int \<Rightarrow> int \<Rightarrow> int \<Rightarrow> char \<Rightarrow> serial_port \<Rightarrow> serial_line \<Rightarrow> int \<times> serial_port \<times> serial_line" where
  "serial_configure get_ok set_ok baud data_bits stop_bits parity port ln =
     (if \<not> sp_is_open port \<or> \<not> get_ok \<or> \<not> set_ok then (-1, port, ln)
      else (0, port\<lparr>sp_baud_rate := baud, sp_data_bits := (if 5 \<le> data_bits \<and> data_bits \<le> 8 then data_bits else 8),
                 sp_stop_bits := stop_bits, sp_parity := c_toupper parity\<rparr>,
            ln\<lparr>ln_tty := raw_termios baud data_bits stop_bits parity (ln_tty ln)\<rparr>))"

definition serial_flush :: "int \<Rightarrow> serial_port \<Rightarrow> int" where
  "serial_flush rc port = (if sp_is_open port then rc else -1)"

definition serial_close :: "serial_port \<Rightarrow> serial_line \<Rightarrow> serial_port \<times> serial_line" where
  "serial_close port ln =
     (port\<lparr>sp_fd_open := False, sp_log_fd := None, sp_is_open := False\<rparr>,
      if sp_is_open port \<and> sp_fd_open port then ln\<lparr>ln_tty := sp_old_termios port\<rparr> else ln)"

subsection \<open>Sending and receiving\<close>

fun send_loop :: "write_event list \<Rightarrow> bytes \<Rightarrow> bool \<times> bytes \<times> write_event list" where
  "send_loop ws [] = (True, [], ws)"
| "send_loop [] b = (True, b, [])"
| "send_loop (Took n # ws) b = (case send_loop ws (drop n b) of (ok, out, ws') \<Rightarrow> (ok, take n b @ out, ws'))"
| "send_loop (Again # ws) b = send_loop ws b"
| "send_loop (WriteError # ws) b = (False, [], ws)"

definition log_write3 :: "string \<Rightarrow> bytes \<Rightarrow> serial_port \<Rightarrow> serial_line \<Rightarrow> serial_line" where
  "log_write3 prefix b port ln =
     (case sp_log_fd port of None \<Rightarrow> ln
      | Some f \<Rightarrow> ln\<lparr>ln_logs := (ln_logs ln)(f := ln_logs ln f @ prefix @ b @ [LF])\<rparr>)"

definition serial_send :: "bytes \<Rightarrow> serial_port \<Rightarrow> serial_line \<Rightarrow> int \<times> serial_line" where
  "serial_send b port ln =
     (if \<not> sp_is_open port then (-1, ln)
      else case send_loop (ln_writes ln) b of (ok, out, ws) \<Rightarrow>
        (let ln1 = ln\<lparr>ln_writes := ws, ln_sent := ln_sent ln @ out\<rparr> in
         if ok then (to_int32 (int (length b)), log_write3 ''>> '' b port ln1) else (-1, ln1)))"

definition serial_send_str :: "string \<Rightarrow> serial_port \<Rightarrow> serial_line \<Rightarrow> int \<times> serial_line" where
  "serial_send_str s = serial_send (cstr s)"

definition is_blank :: "char \<Rightarrow> bool" where
  "is_blank c \<longleftrightarrow> c = CHR '' '' \<or> c = TAB"

text \<open>Whether \<open>strtol(hex, &end, 16)\<close> consumes anything.\<close>

definition hex_parses :: "string \<Rightarrow> bool" where
  "hex_parses s =
     (let r = dropWhile c_isspace s; d = (if r \<noteq> [] \<and> (hd r = CHR ''-'' \<or> hd r = CHR ''+'') then tl r else r)
      in d \<noteq> [] \<and> is_hex (hd d))"

text \<open>The next one or two characters that are not blanks.\<close>

fun hex_pair :: "string \<Rightarrow> string \<times> string" where
  "hex_pair [] = ([], [])"
| "hex_pair [a] = ([a], [])"
| "hex_pair (a # b # r) = (if is_blank b then ([a], b # r) else ([a, b], r))"

lemma hex_pair_length: "s \<noteq> [] \<Longrightarrow> length (snd (hex_pair s)) < length s"
  by (cases s rule: hex_pair.cases) auto

function hex_loop :: "nat \<Rightarrow> string \<Rightarrow> bytes option" where
  "hex_loop room p =
     (let q = dropWhile is_blank p in
      if room = 0 \<or> q = [] then Some []
      else if \<not> hex_parses (fst (hex_pair q)) then None
      else map_option (\<lambda>r. to_char (strtol16 (fst (hex_pair q))) # r) (hex_loop (room - 1) (snd (hex_pair q))))"
  by pat_completeness auto
termination by (relation "measure fst") auto

declare hex_loop.simps [simp del]

definition serial_send_hex :: "string \<Rightarrow> serial_port \<Rightarrow> serial_line \<Rightarrow> int \<times> serial_line" where
  "serial_send_hex s port ln =
     (case hex_loop 4096 (cstr s) of None \<Rightarrow> (-1, ln)
      | Some b \<Rightarrow> if b = [] then (0, ln) else serial_send b port ln)"

text \<open>What does not fit into the caller's buffer stays in the device.\<close>

definition serial_recv :: "nat \<Rightarrow> serial_port \<Rightarrow> serial_line \<Rightarrow> int \<times> bytes \<times> serial_line" where
  "serial_recv max_len port ln =
     (if \<not> sp_is_open port then (-1, [], ln)
      else case ln_reads ln of
        [] \<Rightarrow> (0, [], ln)
      | NoData # rs \<Rightarrow> (0, [], ln\<lparr>ln_reads := rs\<rparr>)
      | ReadFailed # rs \<Rightarrow> (-1, [], ln\<lparr>ln_reads := rs\<rparr>)
      | Incoming b # rs \<Rightarrow>
          (int (length (take max_len b)), take max_len b,
           ln\<lparr>ln_reads := (if length b \<le> max_len then rs else Incoming (drop max_len b) # rs)\<rparr>))"

subsection \<open>The list of ports\<close>

definition port_patterns :: "string list" where
  "port_patterns = [''ttyUSB'', ''ttyACM'', ''ttyS'']"

text \<open>One directory scan: \<open>can\<close> tells which devices can be opened.\<close>

fun scan_dev :: "(string \<Rightarrow> bool) \<Rightarrow> string \<Rightarrow> int \<Rightarrow> string list \<Rightarrow> string list \<Rightarrow> string list" where
  "scan_dev can pat max_ports [] acc = acc"
| "scan_dev can pat max_ports (n # ns) acc =
     (if max_ports \<le> int (length acc) then acc
      else let full = take 255 (''/dev/'' @ n) in
        scan_dev can pat max_ports ns (if take (length pat) n = pat \<and> can full then acc @ [full] else acc))"

text \<open>\<open>dirs\<close>: the entries of \<open>/dev\<close> at each scan, \<^const>\<open>None\<close> when it cannot be opened.\<close>

fun scan_patterns :: "(string \<Rightarrow> bool) \<Rightarrow> int \<Rightarrow> string list \<Rightarrow> string list option list \<Rightarrow> string list \<Rightarrow> string list" where
  "scan_patterns can max_ports (pat # pats) (d # dirs) acc =
     (if max_ports \<le> int (length acc) then acc
      else scan_patterns can max_ports pats dirs (case d of None \<Rightarrow> acc | Some ns \<Rightarrow> scan_dev can pat max_ports ns acc))"
| "scan_patterns can max_ports _ _ acc = acc"

definition serial_list_ports :: "(string \<Rightarrow> bool) \<Rightarrow> string list option list \<Rightarrow> int \<Rightarrow> string list" where
  "serial_list_ports can dirs max_ports = scan_patterns can max_ports port_patterns dirs []"

subsection \<open>Displays\<close>

text \<open>The hexadecimal columns of a row, with a blank after the eighth, and a whole row.\<close>

definition dump_columns :: "bytes \<Rightarrow> string" where
  "dump_columns b =
     concat (map (\<lambda>j. (if j < length b then hex2 (b ! j) @ '' '' else ''   '') @ (if j = 7 then '' '' else [])) [0..<16])"

definition dump_row :: "nat \<Rightarrow> bytes \<Rightarrow> string" where
  "dump_row off b = pad_left 8 (CHR ''0'') (hex_nat (off mod 2 ^ 64)) @ '': '' @ dump_columns b @ '' |''
     @ map (\<lambda>c. if c_isprint c then c else CHR ''.'') b @ ''|'' @ [LF]"

function hexdump_print :: "nat \<Rightarrow> bytes \<Rightarrow> string" where
  "hexdump_print off b = (if b = [] then [] else dump_row off (take 16 b) @ hexdump_print (off + 16) (drop 16 b))"
  by pat_completeness auto
termination by (relation "measure (\<lambda>(off, b). length b)") auto

declare hexdump_print.simps [simp del]

text \<open>\<open>stamp k\<close> is the text of the \<open>k\<close>-th reading of the clock, in brackets and with a blank.\<close>

fun stamp_loop :: "(nat \<Rightarrow> string) \<Rightarrow> nat \<Rightarrow> bytes \<Rightarrow> string" where
  "stamp_loop stamp k [] = []"
| "stamp_loop stamp k (c # cs) =
     (if c = LF then LF # (if cs \<noteq> [] then stamp k @ stamp_loop stamp (Suc k) cs else [])
      else if c = CR then stamp_loop stamp k cs
      else if c_isprint c then c # stamp_loop stamp k cs
      else CHR 0x5C # CHR ''x'' # hex2 c @ stamp_loop stamp k cs)"

definition hexdump_timestamp :: "(nat \<Rightarrow> string) \<Rightarrow> bytes \<Rightarrow> string" where
  "hexdump_timestamp stamp b = (if b = [] then [] else stamp 0 @ stamp_loop stamp 1 b)"

subsection \<open>What is sent\<close>

lemma send_loop_sent: "send_loop ws b = (ok, out, ws') \<Longrightarrow> (\<exists>rest. b = out @ rest) \<and> (ok \<longrightarrow> out = b)"
proof (induction ws b arbitrary: out rule: send_loop.induct)
  case (3 n ws c b)
  then obtain out' where o: "send_loop ws (drop n (c # b)) = (ok, out', ws')" "out = take n (c # b) @ out'"
    by (auto split: prod.splits)
  from 3(1) [OF o(1)] obtain rest where r: "drop n (c # b) = out' @ rest" "ok \<longrightarrow> out' = drop n (c # b)" by blast
  have "c # b = out @ rest" using r(1) o(2) by (metis append.assoc append_take_drop_id)
  moreover have "ok \<longrightarrow> out = c # b" using r(2) o(2) append_take_drop_id by blast
  ultimately show ?case by blast
qed (auto split: prod.splits)

lemma send_loop_ok: "WriteError \<notin> set ws \<Longrightarrow> \<exists>ws'. send_loop ws b = (True, b, ws')"
proof (induction ws b rule: send_loop.induct)
  case (3 n ws c b)
  then obtain ws' where "send_loop ws (drop n (c # b)) = (True, drop n (c # b), ws')" by auto
  then show ?case using append_take_drop_id [of n "c # b"] by simp
qed auto

text \<open>Whatever \<open>write\<close> takes at a time, everything goes out in order, unless it fails.\<close>

lemma serial_send_complete:
  assumes "sp_is_open port" and "WriteError \<notin> set (ln_writes ln)" and "length b < 2 ^ 31"
  shows "\<exists>ln'. serial_send b port ln = (int (length b), ln') \<and> ln_sent ln' = ln_sent ln @ b \<and> ln_reads ln' = ln_reads ln \<and>
    ln_tty ln' = ln_tty ln \<and> WriteError \<notin> set (ln_writes ln') \<and>
    ln_logs ln' = (case sp_log_fd port of None \<Rightarrow> ln_logs ln | Some f \<Rightarrow> (ln_logs ln)(f := ln_logs ln f @ ''>> '' @ b @ [LF]))"
proof -
  obtain ws' where w: "send_loop (ln_writes ln) b = (True, b, ws')" using send_loop_ok [OF assms(2)] by blast
  have "send_loop ws b = (ok, out, ws') \<Longrightarrow> set ws' \<subseteq> set ws" for ws b ok out ws'
    by (induction ws b arbitrary: out rule: send_loop.induct) (auto split: prod.splits)
  from this [OF w] show ?thesis using assms w
    by (auto simp: serial_send_def log_write3_def to_int32_id split: option.splits)
qed

subsection \<open>Hexadecimal text\<close>

text \<open>A byte as text: blanks before it and two hexadecimal digits.\<close>

definition hex_val :: "char \<Rightarrow> nat" where
  "hex_val c = (case digit_val c of None \<Rightarrow> 0 | Some d \<Rightarrow> d)"

definition hex_cell :: "string \<times> char \<times> char \<Rightarrow> string" where
  "hex_cell x = (case x of (ws, a, b) \<Rightarrow> ws @ [a, b])"

definition hex_byte :: "string \<times> char \<times> char \<Rightarrow> char" where
  "hex_byte x = (case x of (ws, a, b) \<Rightarrow> char_of (16 * hex_val a + hex_val b))"

definition hex_cell_ok :: "string \<times> char \<times> char \<Rightarrow> bool" where
  "hex_cell_ok x \<longleftrightarrow> (case x of (ws, a, b) \<Rightarrow> list_all is_blank ws \<and> is_hex a \<and> is_hex b)"

lemma is_hex_facts:
  assumes "is_hex c"
  shows "\<not> c_isspace c" "c \<noteq> CHR ''-''" "c \<noteq> CHR ''+''" "\<not> is_blank c" "digit_val c = Some (hex_val c)" "hex_val c < 16" "c \<noteq> NUL"
proof -
  obtain d where d: "digit_val c = Some d" "d < 16" using assms by (auto simp: is_hex_def split: option.splits)
  then show "digit_val c = Some (hex_val c)" "hex_val c < 16" by (simp_all add: hex_val_def)
  show "c \<noteq> CHR ''-''" "c \<noteq> CHR ''+''" "c \<noteq> NUL" using d by (auto simp: digit_val_def)
  show "\<not> c_isspace c" using d by (auto simp: digit_val_def c_isspace_def Let_def split: if_splits)
  then show "\<not> is_blank c" by (auto simp: is_blank_def c_isspace_def)
qed

lemma strtol16_digits:
  assumes "is_hex a" and "is_hex b"
  shows "hex_parses [a, b]" and "to_char (strtol16 [a, b]) = char_of (16 * hex_val a + hex_val b)"
proof -
  note a = is_hex_facts [OF assms(1)] and b = is_hex_facts [OF assms(2)]
  show "hex_parses [a, b]" using a assms(1) by (simp add: hex_parses_def)
  have "strtol16 [a, b] = int (16 * hex_val a + hex_val b)" using a b by (simp add: strtol16_def Let_def)
  moreover have "16 * hex_val a + hex_val b < 256" using a(6) b(6) by simp
  then have "int (16 * hex_val a + hex_val b) mod 256 = int (16 * hex_val a + hex_val b)" by simp
  ultimately show "to_char (strtol16 [a, b]) = char_of (16 * hex_val a + hex_val b)"
    unfolding to_char_def by (simp only: nat_int)
qed

lemma hex_loop_cell:
  assumes "hex_cell_ok x" and "0 < room"
  shows "hex_loop room (hex_cell x @ r) = map_option (\<lambda>bs. hex_byte x # bs) (hex_loop (room - 1) r)"
proof -
  obtain ws a b where x: "x = (ws, a, b)" by (cases x)
  have ok: "list_all is_blank ws" "is_hex a" "is_hex b" using assms(1) by (simp_all add: hex_cell_ok_def x)
  have d: "dropWhile is_blank (hex_cell x @ r) = a # b # r"
    using ok is_hex_facts(4) [OF ok(2)] by (simp add: x hex_cell_def dropWhile_append2 list_all_iff)
  show ?thesis using assms(2) ok strtol16_digits [OF ok(2,3)] is_hex_facts(4) [OF ok(3)]
    by (subst hex_loop.simps) (simp only: d Let_def, simp add: x hex_byte_def)
qed

lemma is_cstr_blanks: "list_all is_blank ws \<Longrightarrow> is_cstr ws"
  by (induction ws) (auto simp: is_blank_def)

lemma is_cstr_hex_cell: "hex_cell_ok x \<Longrightarrow> is_cstr (hex_cell x)"
  using is_hex_facts(7) by (cases x) (simp add: hex_cell_ok_def hex_cell_def is_cstr_blanks)

lemma hex_loop_blank: "list_all is_blank ws \<Longrightarrow> hex_loop room ws = Some []"
  by (subst hex_loop.simps) (auto simp: list_all_iff Let_def)

lemma hex_loop_cells:
  "list_all hex_cell_ok xs \<Longrightarrow> list_all is_blank ws \<Longrightarrow> length xs \<le> room \<Longrightarrow> hex_loop room (concat (map hex_cell xs) @ ws) = Some (map hex_byte xs)"
proof (induction xs arbitrary: room)
  case (Cons x xs)
  then show ?case using hex_loop_cell [of x room "concat (map hex_cell xs) @ ws"] by (auto simp: le_diff_conv)
qed (simp add: hex_loop_blank)

text \<open>
  Hexadecimal input is what it says: for any bytes, at most 4096, written as pairs of upper or lower case
  digits with any blanks and tabs between and around them, \<open>serial_send_hex\<close> sends exactly these bytes, however
  the device divides the writes, and returns their number; no bytes send nothing.
\<close>

lemma send_hex_exact:
  assumes "sp_is_open port" and "WriteError \<notin> set (ln_writes ln)" and "list_all hex_cell_ok xs" and "list_all is_blank ws"
    and "length xs \<le> 4096"
  shows "\<exists>ln'. serial_send_hex (concat (map hex_cell xs) @ ws) port ln = (int (length xs), ln') \<and>
    ln_sent ln' = ln_sent ln @ map hex_byte xs \<and> ln_reads ln' = ln_reads ln"
proof -
  have "is_cstr (concat (map hex_cell xs))" using assms(3) by (induction xs) (simp_all add: is_cstr_hex_cell)
  then have "is_cstr (concat (map hex_cell xs) @ ws)" using is_cstr_blanks [OF assms(4)] by simp
  then have h: "hex_loop 4096 (cstr (concat (map hex_cell xs) @ ws)) = Some (map hex_byte xs)"
    using hex_loop_cells [OF assms(3,4,5)] by simp
  have "length (map hex_byte xs) < 2 ^ 31" using assms(5) by simp
  from serial_send_complete [OF assms(1,2) this] show ?thesis
    unfolding serial_send_hex_def h by (cases "xs = []") auto
qed

lemma send_hex_exact_witness:
  "\<exists>ln'. serial_send_hex ''FF 01a3'' (closed_port\<lparr>sp_is_open := True\<rparr>)
      \<lparr>ln_tty = zero_termios, ln_writes = [Took 1, Again], ln_reads = [], ln_sent = [], ln_logs = \<lambda>_. []\<rparr> = (3, ln') \<and>
     ln_sent ln' = [CHR 0xFF, CHR 0x01, CHR 0xA3]"
proof -
  let ?xs = "[([], CHR ''F'', CHR ''F''), ('' '', CHR ''0'', CHR ''1''), ([], CHR ''a'', CHR ''3'')]"
  let ?ln = "\<lparr>ln_tty = zero_termios, ln_writes = [Took 1, Again], ln_reads = [], ln_sent = [], ln_logs = \<lambda>_. []\<rparr>"
  have ok: "list_all hex_cell_ok ?xs" by (simp add: hex_cell_ok_def is_blank_def is_hex_def digit_val_def)
  have "sp_is_open (closed_port\<lparr>sp_is_open := True\<rparr>)" "WriteError \<notin> set (ln_writes ?ln)" "list_all is_blank []" "length ?xs \<le> 4096"
    by simp_all
  from send_hex_exact [OF this(1,2) ok this(3,4)] show ?thesis
    by (auto simp: hex_cell_def hex_byte_def hex_val_def digit_val_def char_of_def bit_0)
qed

text \<open>A second character that is no digit is dropped without notice: \<open>1G\<close> sends the byte 1.\<close>

lemma hex_garbage_accepted: "hex_loop 4096 ''1G'' = Some [CHR 0x01]"
proof -
  have "hex_loop 4096 ''1G'' = map_option (\<lambda>r. to_char (strtol16 ''1G'') # r) (hex_loop 4095 [])"
    by (subst hex_loop.simps) (simp add: is_blank_def hex_parses_def is_hex_def digit_val_def c_isspace_def)
  then show ?thesis by (simp add: hex_loop_blank strtol16_def digit_val_def c_isspace_def to_char_def char_of_def bit_0)
qed

subsection \<open>Displayed bytes\<close>

lemma hex_loop_skip: "list_all is_blank ws \<Longrightarrow> hex_loop room (ws @ r) = hex_loop room r"
proof -
  assume "list_all is_blank ws"
  then have "dropWhile is_blank (ws @ r) = dropWhile is_blank r" by (simp add: dropWhile_append2 list_all_iff)
  then show ?thesis by (subst (1 2) hex_loop.simps) (simp only:)
qed

lemma hex_digit_val: "n < 16 \<Longrightarrow> is_hex (hex_digit n) \<and> hex_val (hex_digit n) = n"
proof -
  have "\<forall>n \<in> set [0..<16]. is_hex (hex_digit n) \<and> hex_val (hex_digit n) = n" by code_simp
  then show "n < 16 \<Longrightarrow> ?thesis" by simp
qed

lemma hex_loop_hex2: "0 < room \<Longrightarrow> hex_loop room (hex2 c @ r) = map_option (\<lambda>bs. c # bs) (hex_loop (room - 1) r)"
proof -
  assume room: "0 < room"
  let ?x = "([], hex_digit ((of_char c :: nat) div 16), hex_digit ((of_char c :: nat) mod 16))"
  have "hex_cell_ok ?x" "hex_cell ?x = hex2 c" "hex_byte ?x = c"
    using hex_digit_val [OF char_high_nibble [of c]] hex_digit_val [of "(of_char c :: nat) mod 16"]
    by (simp_all add: hex_cell_ok_def hex_cell_def hex2_def hex_byte_def)
  with hex_loop_cell [OF _ room, of ?x r] show ?thesis by simp
qed

text \<open>
  The columns of a row read as hexadecimal input are the bytes of the row: what is displayed can be
  sent again.
\<close>

lemma dump_columns_readable:
  assumes "length b \<le> room" and "length b \<le> 16"
  shows "hex_loop room (dump_columns b) = Some b"
proof -
  let ?f = "\<lambda>j. (if j < length b then hex2 (b ! j) @ '' '' else ''   '') @ (if j = 7 then '' '' else [])"
  have "hex_loop r (concat (map ?f [i..<16])) = Some (drop i b)" if "length b \<le> r + i" "i \<le> 16" for i r
    using that
  proof (induction "16 - i" arbitrary: i r)
    case 0
    then show ?case using assms(2) by (simp add: hex_loop_blank)
  next
    case (Suc n)
    let ?ws = "(if i < length b then '' '' else ''   '') @ (if i = 7 then '' '' else [])"
    have i: "[i..<16] = i # [Suc i..<16]" using Suc(2) by (simp add: upt_conv_Cons)
    have ws: "list_all is_blank ?ws" by (simp add: is_blank_def)
    have ih: "hex_loop r' (concat (map ?f [Suc i..<16])) = Some (drop (Suc i) b)" if "length b \<le> r' + Suc i" for r'
      using Suc(1) [of "Suc i" r'] Suc(2) that by simp
    show ?case
    proof (cases "i < length b")
      case True
      have "concat (map ?f [i..<16]) = hex2 (b ! i) @ ?ws @ concat (map ?f [Suc i..<16])" using True by (simp add: i)
      moreover have "0 < r" "length b \<le> (r - 1) + Suc i" using True Suc(3) by simp_all
      ultimately show ?thesis using hex_loop_skip [OF ws] ih [of "r - 1"] Cons_nth_drop_Suc [OF True]
        by (simp add: hex_loop_hex2)
    next
      case False
      have "concat (map ?f [i..<16]) = ?ws @ concat (map ?f [Suc i..<16])" using False by (simp add: i)
      then show ?thesis using hex_loop_skip [OF ws] ih [of r] Suc(3) False by simp
    qed
  qed
  from this [of room 0] show ?thesis using assms(1) by (simp add: dump_columns_def)
qed

subsection \<open>Settings and ports\<close>

text \<open>The settings of the device are those found when it was opened once the port is closed again.\<close>

lemma serial_session_restores:
  assumes "serial_open True True dev baud ln = (0, port)"
    and "serial_configure get_ok set_ok baud db sb par port ln = (r, port', ln')"
  shows "ln_tty (snd (serial_close port' ln')) = ln_tty ln" and "\<not> sp_is_open (fst (serial_close port' ln'))"
  using assms by (auto simp: serial_open_def serial_configure_def serial_close_def split: if_splits)

text \<open>A configured device passes every byte as it is: no translation, no editing, no signals.\<close>

lemma serial_configure_raw:
  assumes "serial_configure get_ok set_ok baud db sb par port ln = (0, port', ln')"
  shows "c_iflag (ln_tty ln') \<subseteq> {INPCK} \<and> c_oflag (ln_tty ln') = {} \<and> c_lflag (ln_tty ln') = {} \<and> CREAD \<in> c_cflag (ln_tty ln') \<and>
    5 \<le> c_csize (ln_tty ln') \<and> c_csize (ln_tty ln') \<le> 8 \<and> int (c_csize (ln_tty ln')) = sp_data_bits port' \<and>
    c_ospeed (ln_tty ln') \<in> set baud_rates"
proof -
  have ln': "ln_tty ln' = raw_termios baud db sb par (ln_tty ln)" "sp_data_bits port' = (if 5 \<le> db \<and> db \<le> 8 then db else 8)"
    using assms by (auto simp: serial_configure_def split: if_splits)
  have i: "x \<in> {IGNBRK, BRKINT, PARMRK, ISTRIP, INLCR, IGNCR, ICRNL, IXON, IXOFF, IXANY, INPCK}" for x by (cases x) auto
  have l: "x \<in> {ECHO, ECHONL, ICANON, ISIG, IEXTEN}" for x by (cases x) auto
  have o1: "x = OPOST" for x by (cases x) auto
  have "c_iflag (ln_tty ln') \<subseteq> {INPCK}" using i by (auto simp: ln' raw_termios_def)
  moreover have "c_lflag (ln_tty ln') = {}" using l by (auto simp: ln' raw_termios_def)
  moreover have "c_oflag (ln_tty ln') = {}" using o1 by (auto simp: ln' raw_termios_def)
  moreover have "c_ospeed (ln_tty ln') \<in> set baud_rates" by (simp add: ln' raw_termios_def serial_baud_const_def baud_rates_def)
  ultimately show ?thesis by (auto simp: ln' raw_termios_def)
qed

text \<open>The list of ports is the first \<open>max_ports\<close> of all matching names that can be opened.\<close>

definition dev_ports :: "(string \<Rightarrow> bool) \<Rightarrow> string \<Rightarrow> string list \<Rightarrow> string list" where
  "dev_ports can pat ns = filter can (map (\<lambda>n. take 255 (''/dev/'' @ n)) (filter (\<lambda>n. take (length pat) n = pat) ns))"

lemma dev_ports_Cons:
  "dev_ports can pat (n # ns) =
     (if take (length pat) n = pat \<and> can (take 255 (''/dev/'' @ n)) then [take 255 (''/dev/'' @ n)] else []) @ dev_ports can pat ns"
  by (simp add: dev_ports_def)

lemma scan_dev_take:
  "int (length acc) \<le> max_ports \<Longrightarrow> scan_dev can pat max_ports ns acc = take (nat max_ports) (acc @ dev_ports can pat ns)"
proof (induction ns arbitrary: acc)
  case (Cons n ns)
  let ?full = "take 255 (''/dev/'' @ n)"
  let ?acc = "if take (length pat) n = pat \<and> can ?full then acc @ [?full] else acc"
  show ?case
  proof (cases "max_ports \<le> int (length acc)")
    case False
    then have "scan_dev can pat max_ports (n # ns) acc = scan_dev can pat max_ports ns ?acc" unfolding scan_dev.simps Let_def by simp
    also have "\<dots> = take (nat max_ports) (?acc @ dev_ports can pat ns)" using False Cons.prems by (intro Cons.IH) auto
    also have "?acc @ dev_ports can pat ns = acc @ dev_ports can pat (n # ns)" unfolding dev_ports_Cons by simp
    finally show ?thesis .
  qed (use Cons.prems in auto)
qed (auto simp: dev_ports_def)

lemma take_of_take: "take n (take n x @ y) = take n (x @ y)"
  by (cases "n \<le> length x") auto

lemma serial_list_ports_spec:
  assumes "0 \<le> max_ports"
  shows "serial_list_ports can [d1, d2, d3] max_ports = take (nat max_ports)
    (concat (map2 (\<lambda>pat d. case d of None \<Rightarrow> [] | Some ns \<Rightarrow> dev_ports can pat ns) port_patterns [d1, d2, d3]))"
proof -
  have "scan_patterns can max_ports pats ds acc = take (nat max_ports) (acc @ concat (map2 (\<lambda>pat d. case d of None \<Rightarrow> [] | Some ns \<Rightarrow> dev_ports can pat ns) pats ds))"
    if "length ds = length pats" "int (length acc) \<le> max_ports" for pats ds acc
    using that
  proof (induction pats ds arbitrary: acc rule: list_induct2')
    case (4 pat pats d ds)
    show ?case
    proof (cases "max_ports \<le> int (length acc)")
      case False
      let ?acc = "case d of None \<Rightarrow> acc | Some ns \<Rightarrow> scan_dev can pat max_ports ns acc"
      have "?acc = take (nat max_ports) (acc @ (case d of None \<Rightarrow> [] | Some ns \<Rightarrow> dev_ports can pat ns))"
        using 4(3) by (auto simp: scan_dev_take split: option.splits)
      moreover have "int (length ?acc) \<le> max_ports" using 4(3) unfolding calculation by (simp add: min_def) linarith
      ultimately show ?thesis using False 4(1) [of ?acc] 4(2)
        by (simp add: take_of_take del: take_append)
    qed (use 4 in auto)
  qed auto
  from this [of "[d1, d2, d3]" port_patterns "[]"] show ?thesis using assms by (simp add: serial_list_ports_def port_patterns_def)
qed

end
