(* ===== verification/Serial_Script.thy ===== *)
theory Serial_Script
  imports Serial
begin

text \<open>
  Scripts of the serial tool (\<open>serial-tool/src/script.c\<close>): the commands, waiting for a pattern in steps of
  100 ms, and the run of a file. What is printed is not modelled; an outcome \<^const>\<open>None\<close> is the overflow of
  the time counter.
\<close>

subsection \<open>Words of a line\<close>

definition QUOT :: char where "QUOT = CHR 0x22"
definition BSLASH :: char where "BSLASH = CHR 0x5C"

definition trim :: "string \<Rightarrow> string" where
  "trim s = rev (dropWhile c_isspace (rev (dropWhile c_isspace s)))"

definition extract_quoted :: "nat \<Rightarrow> string \<Rightarrow> string option" where
  "extract_quoted buf_size line =
     (case strchr line QUOT of None \<Rightarrow> None
      | Some r \<Rightarrow> (case strchr (tl r) QUOT of None \<Rightarrow> None
          | Some e \<Rightarrow> Some (take (buf_size - 1) (takeWhile (\<lambda>c. c \<noteq> QUOT) (tl r)))))"

text \<open>What follows the second quote.\<close>

definition after_quoted :: "string \<Rightarrow> string" where
  "after_quoted line = (case strchr line QUOT of None \<Rightarrow> []
     | Some r \<Rightarrow> (case strchr (tl r) QUOT of None \<Rightarrow> [] | Some e \<Rightarrow> tl e))"

definition timeout_of :: "string \<Rightarrow> int" where
  "timeout_of after = (let t = dropWhile c_isspace after in if t = [] then 5000 else atoi t)"

text \<open>\<open>quot\<close>: whether the loop knows the escaped quote, as that of \<open>send\<close> does and that of \<open>send_recv\<close> does not.\<close>

fun unescape :: "bool \<Rightarrow> nat \<Rightarrow> string \<Rightarrow> string" where
  "unescape quot 0 s = []"
| "unescape quot (Suc n) [] = []"
| "unescape quot (Suc n) [c] = [c]"
| "unescape quot (Suc n) (c # d # s) =
     (if c = BSLASH then
        (if d = CHR ''n'' then LF # unescape quot n s
         else if d = CHR ''r'' then CR # unescape quot n s
         else if d = CHR ''t'' then TAB # unescape quot n s
         else if d = BSLASH then BSLASH # unescape quot n s
         else if quot \<and> d = QUOT then QUOT # unescape quot n s
         else c # unescape quot n (d # s))
      else c # unescape quot n (d # s))"

subsection \<open>Waiting for a pattern\<close>

function recv_loop ::
  "serial_port \<Rightarrow> nat \<Rightarrow> string \<Rightarrow> int \<Rightarrow> int \<Rightarrow> bytes \<Rightarrow> serial_line \<Rightarrow> (bool \<times> bytes \<times> serial_line) option" where
  "recv_loop port room expected timeout elapsed got ln =
     (if elapsed < timeout \<and> length got < room then
        (case serial_recv (room - length got) port ln of (n, b, ln1) \<Rightarrow>
           let got1 = (if 0 < n then got @ b else got) in
           if 0 < n \<and> expected \<noteq> [] \<and> strstr (cstr got1) expected \<noteq> None then Some (True, got1, ln1)
           else if 2 ^ 31 - 1 < elapsed + 100 then None
           else recv_loop port room expected timeout (elapsed + 100) got1 ln1)
      else Some (False, got, ln))"
  by pat_completeness auto
termination by (relation "measure (\<lambda>(port, room, expected, timeout, elapsed, got, ln). nat (timeout - elapsed))") auto

declare recv_loop.simps [simp del]

definition script_send_recv ::
  "string \<Rightarrow> nat \<Rightarrow> string \<Rightarrow> int \<Rightarrow> serial_port \<Rightarrow> serial_line \<Rightarrow> (int \<times> bytes \<times> serial_line) option" where
  "script_send_recv send recv_size expected timeout port ln =
     (case (if send \<noteq> [] then serial_send_str send port ln else (0, ln)) of (r, ln1) \<Rightarrow>
        if r < 0 then Some (-1, [], ln1)
        else if recv_size = 0 then Some (0, [], ln1)
        else (case recv_loop port (recv_size - 1) expected timeout 0 [] ln1 of
          None \<Rightarrow> None
        | Some (found, got, ln2) \<Rightarrow>
            if found then Some (int (length got), got, ln2)
            else if expected \<noteq> [] \<and> strstr (cstr got) expected = None then Some (-2, got, ln2)
            else Some (int (length got), got, ln2)))"

subsection \<open>Commands\<close>

text \<open>
  One command; the flag says whether it counts as an error. \<open>can\<close> tells which log files can be opened. An
  unknown command is only reported.
\<close>

definition script_send :: "string \<Rightarrow> serial_port \<Rightarrow> serial_line \<Rightarrow> (bool \<times> serial_port \<times> serial_line) option" where
  "script_send t port ln =
     (case serial_send_str (case extract_quoted 2048 (drop 5 t) of Some x \<Rightarrow> unescape True 2047 x | None \<Rightarrow> drop 5 t) port ln of
        (r, ln1) \<Rightarrow> Some (r < 0, port, ln1))"

definition script_send_hex :: "string \<Rightarrow> serial_port \<Rightarrow> serial_line \<Rightarrow> (bool \<times> serial_port \<times> serial_line) option" where
  "script_send_hex t port ln =
     (case serial_send_hex (case extract_quoted 2048 (drop 9 t) of Some x \<Rightarrow> x | None \<Rightarrow> drop 9 t) port ln of
        (r, ln1) \<Rightarrow> Some (r < 0, port, ln1))"

definition script_expect :: "string \<Rightarrow> serial_port \<Rightarrow> serial_line \<Rightarrow> (bool \<times> serial_port \<times> serial_line) option" where
  "script_expect t port ln =
     (case extract_quoted 2048 (drop 7 t) of
        None \<Rightarrow> Some (True, port, ln)
      | Some pattern \<Rightarrow>
          map_option (\<lambda>(n, got, ln1). (n < 0, port, ln1))
            (script_send_recv [] 4096 pattern (timeout_of (after_quoted (drop 7 t))) port ln))"

definition script_exchange :: "string \<Rightarrow> serial_port \<Rightarrow> serial_line \<Rightarrow> (bool \<times> serial_port \<times> serial_line) option" where
  "script_exchange t port ln =
     (case extract_quoted 2048 (drop 10 t) of
        None \<Rightarrow> Some (True, port, ln)
      | Some x \<Rightarrow>
        (case extract_quoted 2048 (after_quoted (drop 10 t)) of
           None \<Rightarrow> Some (True, port, ln)
         | Some pattern \<Rightarrow>
             map_option (\<lambda>(n, got, ln1). (n < 0, port, ln1))
               (script_send_recv (unescape False 2047 x) 4096 pattern (timeout_of (after_quoted (after_quoted (drop 10 t)))) port ln)))"

definition script_log :: "(path \<Rightarrow> bool) \<Rightarrow> string \<Rightarrow> serial_port \<Rightarrow> serial_line \<Rightarrow> (bool \<times> serial_port \<times> serial_line) option" where
  "script_log can t port ln =
     (if strstr t ''off'' \<noteq> None then Some (False, port\<lparr>sp_log_fd := None\<rparr>, ln)
      else case extract_quoted 256 (drop 4 t) of
          None \<Rightarrow> Some (False, port, ln)
        | Some f \<Rightarrow> if can f then Some (False, port\<lparr>sp_log_fd := Some f\<rparr>, ln) else Some (True, port\<lparr>sp_log_fd := None\<rparr>, ln))"

text \<open>The command of a line; \<open>wait\<close> only takes time, and an unknown command is reported and passed over.\<close>

definition script_command :: "(path \<Rightarrow> bool) \<Rightarrow> string \<Rightarrow> serial_port \<Rightarrow> serial_line \<Rightarrow> (bool \<times> serial_port \<times> serial_line) option" where
  "script_command can t port ln =
     (if take 5 t = ''send '' then script_send t port ln
      else if take 9 t = ''send_hex '' then script_send_hex t port ln
      else if take 7 t = ''expect '' then script_expect t port ln
      else if take 5 t = ''wait '' then Some (False, port, ln)
      else if take 10 t = ''send_recv '' then script_exchange t port ln
      else if take 4 t = ''log '' then script_log can t port ln
      else Some (False, port, ln))"

definition script_line :: "(path \<Rightarrow> bool) \<Rightarrow> bytes \<Rightarrow> serial_port \<Rightarrow> serial_line \<Rightarrow> (bool \<times> serial_port \<times> serial_line) option" where
  "script_line can line port ln =
     (let t = trim (cstr line) in
      if t = [] \<or> hd t = CHR ''#'' \<or> hd t = CHR '';'' then Some (False, port, ln) else script_command can t port ln)"

fun script_loop :: "(path \<Rightarrow> bool) \<Rightarrow> bytes list \<Rightarrow> nat \<Rightarrow> serial_port \<Rightarrow> serial_line \<Rightarrow> (nat \<times> serial_port \<times> serial_line) option" where
  "script_loop can [] errors port ln = Some (errors, port, ln)"
| "script_loop can (l # ls) errors port ln =
     (case script_line can l port ln of None \<Rightarrow> None
      | Some (e, port1, ln1) \<Rightarrow> script_loop can ls (if e then Suc errors else errors) port1 ln1)"

definition script_run :: "(path \<Rightarrow> bool) \<Rightarrow> bytes option \<Rightarrow> serial_port \<Rightarrow> serial_line \<Rightarrow> (int \<times> serial_port \<times> serial_line) option" where
  "script_run can fp port ln =
     (case fp of None \<Rightarrow> Some (-1, port, ln)
      | Some b \<Rightarrow> map_option (\<lambda>(errors, port1, ln1). (if 0 < errors then -1 else 0, port1, ln1))
          (script_loop can (fgets_lines 4096 b) 0 port ln))"

subsection \<open>Texts are sent as they are meant\<close>

text \<open>How a text is written between the quotes of a script.\<close>

definition escape_char :: "char \<Rightarrow> string" where
  "escape_char c = (if c = LF then [BSLASH, CHR ''n''] else if c = CR then [BSLASH, CHR ''r'']
     else if c = TAB then [BSLASH, CHR ''t''] else if c = BSLASH then [BSLASH, BSLASH] else [c])"

definition escape :: "string \<Rightarrow> string" where
  "escape t = concat (map escape_char t)"

definition send_text :: "string \<Rightarrow> string" where
  "send_text t = ''send '' @ QUOT # escape t @ [QUOT]"

definition text_ok :: "string \<Rightarrow> bool" where
  "text_ok t \<longleftrightarrow> QUOT \<notin> set t \<and> NUL \<notin> set t \<and> length (escape t) \<le> 2047"

lemma unescape_escape: "length t \<le> n \<Longrightarrow> unescape quot n (escape t) = t"
proof (induction t arbitrary: n)
  case Nil
  then show ?case by (cases n) (simp_all add: escape_def)
next
  case (Cons c t)
  then obtain m where n: "n = Suc m" "length t \<le> m" by (cases n) auto
  show ?case
  proof (cases "c \<in> {LF, CR, TAB, BSLASH}")
    case True
    then show ?thesis using Cons.IH [OF n(2)] by (auto simp: n escape_def escape_char_def BSLASH_def)
  next
    case False
    then have c: "escape (c # t) = c # escape t" by (simp add: escape_def escape_char_def)
    show ?thesis
    proof (cases "escape t")
      case Nil
      then have "t = []" by (cases t) (auto simp: escape_def escape_char_def split: if_splits)
      then show ?thesis using c Nil by (simp add: n)
    next
      case (Cons d s)
      then show ?thesis using c False Cons.IH Cons \<open>length t \<le> m\<close> n by simp
    qed
  qed
qed

lemma escape_chars:
  assumes "QUOT \<notin> set t" and "NUL \<notin> set t"
  shows "QUOT \<notin> set (escape t)" and "NUL \<notin> set (escape t)" and "LF \<notin> set (escape t)"
  using assms by (induction t) (auto simp: escape_def escape_char_def BSLASH_def QUOT_def)

lemma length_escape: "length t \<le> length (escape t)"
  by (induction t) (auto simp: escape_def escape_char_def)

lemma trim_line: "x \<noteq> [] \<Longrightarrow> \<not> c_isspace (hd x) \<Longrightarrow> \<not> c_isspace (last x) \<Longrightarrow> trim (x @ [LF]) = x"
proof -
  assume x: "x \<noteq> []" "\<not> c_isspace (hd x)" "\<not> c_isspace (last x)"
  then have "dropWhile c_isspace (x @ [LF]) = x @ [LF]" by (cases x) auto
  moreover have "dropWhile c_isspace (rev x) = rev x" using x by (cases "rev x") (auto simp: hd_rev [symmetric])
  moreover have "c_isspace LF" by (simp add: c_isspace_def)
  ultimately show ?thesis by (simp add: trim_def)
qed

lemma extract_quoted_text: "QUOT \<notin> set s \<Longrightarrow> length s < n \<Longrightarrow> extract_quoted n (QUOT # s @ QUOT # r) = Some s"
proof -
  assume s: "QUOT \<notin> set s" "length s < n"
  from s(1) have "takeWhile (\<lambda>c. c \<noteq> QUOT) (s @ QUOT # r) = s" by (induction s) auto
  moreover from s(1) have "dropWhile (\<lambda>c. c \<noteq> QUOT) (s @ QUOT # r) = QUOT # r" by (induction s) auto
  ultimately show ?thesis using s(2) by (simp add: extract_quoted_def strchr_def)
qed

lemma send_line:
  assumes "text_ok t"
  shows "script_line can (send_text t @ [LF]) port ln = (case serial_send t port ln of (r, ln1) \<Rightarrow> Some (r < 0, port, ln1))"
proof -
  have t: "QUOT \<notin> set t" "NUL \<notin> set t" "length (escape t) \<le> 2047" using assms by (simp_all add: text_ok_def)
  note e = escape_chars [OF t(1,2)]
  have "is_cstr (send_text t @ [LF])" using e(2) by (auto simp: is_cstr_def send_text_def QUOT_def)
  moreover have "trim (send_text t @ [LF]) = send_text t"
    by (rule trim_line) (simp_all add: send_text_def c_isspace_def QUOT_def)
  moreover have "extract_quoted 2048 (drop 5 (send_text t)) = Some (escape t)"
    using extract_quoted_text [OF e(1), of 2048 "[]"] t(3) by (simp add: send_text_def)
  moreover have "unescape True 2047 (escape t) = t" using t(3) length_escape [of t] by (intro unescape_escape) simp
  moreover have "cstr t = t" using t(2) by (simp add: is_cstr_def)
  ultimately show ?thesis by (simp add: script_line_def Let_def script_command_def script_send_def serial_send_str_def send_text_def)
qed

text \<open>
  C29. A script of \<open>send\<close> commands sends exactly its texts: for any texts without quotes and zero bytes whose
  escaped form fits the buffer, control characters and backslashes included, the run succeeds, the device has
  received the texts one after the other however it divided the writes, and nothing was read.
\<close>

theorem script_sends_exact:
  assumes "sp_is_open port" and "WriteError \<notin> set (ln_writes ln)" and "list_all text_ok ts"
  shows "\<exists>ln'. script_run can (Some (concat (map (\<lambda>t. send_text t @ [LF]) ts))) port ln = Some (0, port, ln') \<and>
    ln_sent ln' = ln_sent ln @ concat ts \<and> ln_reads ln' = ln_reads ln"
proof -
  have "list_all (\<lambda>l. LF \<notin> set l \<and> length l + 1 < 4096) (map send_text ts)"
    using assms(3) escape_chars(3) by (auto simp: list_all_iff text_ok_def send_text_def QUOT_def)
  from fgets_lines_lines [OF this] have ls: "fgets_lines 4096 (concat (map (\<lambda>t. send_text t @ [LF]) ts)) = map (\<lambda>t. send_text t @ [LF]) ts"
    by (simp add: comp_def)
  have "\<exists>ln'. script_loop can (map (\<lambda>t. send_text t @ [LF]) ts) 0 port ln = Some (0, port, ln') \<and>
      ln_sent ln' = ln_sent ln @ concat ts \<and> ln_reads ln' = ln_reads ln"
    using assms(2,3)
  proof (induction ts arbitrary: ln)
    case (Cons t ts)
    have t: "text_ok t" "length t < 2 ^ 31" using Cons.prems(2) length_escape [of t] by (auto simp: text_ok_def)
    from serial_send_complete [OF assms(1) Cons.prems(1) t(2)] obtain ln1 where
      ln1: "serial_send t port ln = (int (length t), ln1)" "ln_sent ln1 = ln_sent ln @ t" "ln_reads ln1 = ln_reads ln"
        "WriteError \<notin> set (ln_writes ln1)" by blast
    with Cons.IH [of ln1] Cons.prems(2) show ?case by (auto simp: send_line [OF t(1)])
  qed simp
  then show ?thesis by (auto simp: script_run_def ls)
qed

lemma script_sends_exact_witness:
  "\<exists>ln'. script_run (\<lambda>_. True) (Some (''send '' @ [QUOT] @ ''AT'' @ [BSLASH, CHR ''r'', QUOT, LF])) (closed_port\<lparr>sp_is_open := True\<rparr>)
      \<lparr>ln_tty = zero_termios, ln_writes = [Again, Took 2], ln_reads = [], ln_sent = [], ln_logs = \<lambda>_. []\<rparr> =
        Some (0, closed_port\<lparr>sp_is_open := True\<rparr>, ln') \<and> ln_sent ln' = ''AT'' @ [CR]"
proof -
  let ?ln = "\<lparr>ln_tty = zero_termios, ln_writes = [Again, Took 2], ln_reads = [], ln_sent = [], ln_logs = \<lambda>_. []\<rparr>"
  have ok: "sp_is_open (closed_port\<lparr>sp_is_open := True\<rparr>)" "WriteError \<notin> set (ln_writes ?ln)" "list_all text_ok [''AT'' @ [CR]]"
    by (simp_all add: text_ok_def escape_def escape_char_def QUOT_def BSLASH_def)
  have l: "concat (map (\<lambda>t. send_text t @ [LF]) [''AT'' @ [CR]]) = ''send '' @ [QUOT] @ ''AT'' @ [BSLASH, CHR ''r'', QUOT, LF]"
    by (simp add: send_text_def escape_def escape_char_def BSLASH_def)
  from script_sends_exact [OF ok, of "\<lambda>_. True", unfolded l] show ?thesis by auto
qed

subsection \<open>Waiting\<close>

text \<open>The bytes that a sequence of waits brings.\<close>

fun arrived :: "read_event list \<Rightarrow> bytes" where
  "arrived [] = []"
| "arrived (Incoming b # rs) = b @ arrived rs"
| "arrived (r # rs) = arrived rs"

lemma strstr_append: "strstr s p \<noteq> None \<Longrightarrow> strstr (s @ t) p \<noteq> None"
proof -
  assume "strstr s p \<noteq> None"
  then obtain n where "take (length p) (drop n s) = p" "n + length p \<le> length s" using strstr_take by blast
  then have "s @ t = take n s @ p @ (drop (length p) (drop n s) @ t)" by (metis append.assoc append_take_drop_id)
  then show ?thesis using strstr_None by blast
qed

lemma cstr_prefix: "\<exists>t. cstr (a @ b) = cstr a @ t"
  by (induction a) (auto simp: cstr_def)

lemma strstr_cstr_append: "strstr (cstr a) p \<noteq> None \<Longrightarrow> strstr (cstr (a @ b)) p \<noteq> None"
  using cstr_prefix [of a b] strstr_append by metis

lemma strstr_nil: "p \<noteq> [] \<Longrightarrow> strstr (cstr []) p = None"
  by (simp add: cstr_def)

lemma recv_loop_step:
  assumes "elapsed < timeout" and "timeout + 100 < 2 ^ 31" and "length got < room"
  shows "recv_loop port room expected timeout elapsed got ln =
     (case serial_recv (room - length got) port ln of (n, b, ln1) \<Rightarrow>
        let got1 = (if 0 < n then got @ b else got) in
        if 0 < n \<and> expected \<noteq> [] \<and> strstr (cstr got1) expected \<noteq> None then Some (True, got1, ln1)
        else recv_loop port room expected timeout (elapsed + 100) got1 ln1)"
proof -
  have "\<not> 2 ^ 31 - 1 < elapsed + 100" using assms(1,2) by simp
  then show ?thesis using assms(1,3) by (subst recv_loop.simps) (simp add: Let_def split: prod.splits)
qed

text \<open>What the loop has found, in terms of what was there and what arrived.\<close>

definition recv_outcome :: "string \<Rightarrow> bytes \<Rightarrow> serial_line \<Rightarrow> (bool \<times> bytes \<times> serial_line) option \<Rightarrow> bool" where
  "recv_outcome expected all ln res \<longleftrightarrow> (\<exists>f got' rest ln'. res = Some (f, got', ln') \<and>
    (f \<longleftrightarrow> strstr (cstr all) expected \<noteq> None) \<and> all = got' @ rest \<and> (\<not> f \<longrightarrow> rest = []) \<and> ln_sent ln' = ln_sent ln)"

lemma recv_outcome_arrives:
  assumes step: "\<And>n b ln1. serial_recv (room - length got) port ln = (n, b, ln1) \<Longrightarrow> recv_loop port room expected timeout elapsed got ln =
      (let got1 = (if 0 < n then got @ b else got) in
        if 0 < n \<and> expected \<noteq> [] \<and> strstr (cstr got1) expected \<noteq> None then Some (True, got1, ln1)
        else recv_loop port room expected timeout (elapsed + 100) got1 ln1)"
    and "sp_is_open port" and "expected \<noteq> []" and "ln_reads ln = Incoming b # rs" and "length b \<le> room - length got"
    and "strstr (cstr got) expected = None"
    and IH: "strstr (cstr (got @ b)) expected = None \<Longrightarrow>
      recv_outcome expected (got @ b @ rest) ln (recv_loop port room expected timeout (elapsed + 100) (got @ b) (ln\<lparr>ln_reads := rs\<rparr>))"
  shows "recv_outcome expected (got @ b @ rest) ln (recv_loop port room expected timeout elapsed got ln)"
proof -
  have "serial_recv (room - length got) port ln = (int (length b), b, ln\<lparr>ln_reads := rs\<rparr>)"
    using assms(2,4,5) by (simp add: serial_recv_def)
  note step = step [OF this]
  show ?thesis
  proof (cases "b \<noteq> [] \<and> strstr (cstr (got @ b)) expected \<noteq> None")
    case True
    then have "strstr (cstr ((got @ b) @ rest)) expected \<noteq> None" using strstr_cstr_append [of "got @ b" expected rest] by blast
    then show ?thesis using True assms(3) by (auto simp: step recv_outcome_def)
  next
    case False
    then have n: "strstr (cstr (got @ b)) expected = None" using assms(6) by auto
    then have "recv_loop port room expected timeout elapsed got ln = recv_loop port room expected timeout (elapsed + 100) (got @ b) (ln\<lparr>ln_reads := rs\<rparr>)"
      by (simp add: step)
    then show ?thesis using IH [OF n] by simp
  qed
qed

lemma recv_loop_found:
  assumes "sp_is_open port" and "expected \<noteq> []" and "timeout + 100 < 2 ^ 31"
    and "k = nat ((timeout - elapsed + 99) div 100)" and "length got + length (arrived (take k (ln_reads ln))) \<le> room"
    and "strstr (cstr got) expected = None"
  shows "recv_outcome expected (got @ arrived (take k (ln_reads ln))) ln (recv_loop port room expected timeout elapsed got ln)"
  using assms(4,5,6)
proof (induction k arbitrary: elapsed got ln)
  case 0
  then have "\<not> elapsed < timeout" by simp
  then show ?case using 0 by (subst recv_loop.simps) (auto simp: recv_outcome_def)
next
  case (Suc j)
  have lt: "elapsed < timeout" and j: "j = nat ((timeout - (elapsed + 100) + 99) div 100)" using Suc.prems(1) by linarith+
  note IH = Suc.IH [OF j]
  show ?case
  proof (cases "length got < room")
    case False
    then have "length (arrived (take (Suc j) (ln_reads ln))) = 0" using Suc.prems(2) by linarith
    then have "arrived (take (Suc j) (ln_reads ln)) = []" by simp
    then show ?thesis using False Suc.prems(3) by (subst recv_loop.simps) (auto simp: recv_outcome_def)
  next
    case True
    note step = recv_loop_step [OF lt assms(3) True, of port expected ln]
    show ?thesis
    proof (cases "ln_reads ln")
      case Nil
      then show ?thesis using IH [of got ln] Suc.prems(2,3) assms(1) by (simp add: step serial_recv_def)
    next
      case (Cons r rs)
      show ?thesis
      proof (cases r)
        case (Incoming b)
        have "recv_outcome expected ((got @ b) @ arrived (take j rs)) ln (recv_loop port room expected timeout (elapsed + 100) (got @ b) (ln\<lparr>ln_reads := rs\<rparr>))"
          if "strstr (cstr (got @ b)) expected = None"
          using IH [of "got @ b" "ln\<lparr>ln_reads := rs\<rparr>"] that Suc.prems(2) Cons Incoming by (simp add: recv_outcome_def)
        then have "recv_outcome expected (got @ b @ arrived (take j rs)) ln (recv_loop port room expected timeout elapsed got ln)"
          using Suc.prems(2,3) assms(1,2) Cons Incoming by (intro recv_outcome_arrives) (simp_all add: step)
        then show ?thesis using Cons Incoming by simp
      qed (use IH [of got "ln\<lparr>ln_reads := rs\<rparr>"] Suc.prems(2,3) assms(1) Cons in \<open>simp_all add: step serial_recv_def recv_outcome_def\<close>)
    qed
  qed
qed



text \<open>
  What a wait has read behind its pattern is gone for the next one: of an answer that arrives in one piece the
  second of two patterns is never found.
\<close>

definition demo_line :: "read_event list \<Rightarrow> serial_line" where
  "demo_line rs = \<lparr>ln_tty = zero_termios, ln_writes = [], ln_reads = rs, ln_sent = [], ln_logs = \<lambda>_. []\<rparr>"

definition demo_port :: serial_port where
  "demo_port = closed_port\<lparr>sp_is_open := True\<rparr>"

lemma expect_loses_rest:
  "\<exists>n got ln. script_send_recv [] 4096 ''OK'' 100 demo_port (demo_line [Incoming ''OK READY'']) = Some (n, got, ln) \<and> 0 \<le> n \<and>
     (\<exists>n' got' ln'. script_send_recv [] 4096 ''READY'' 100 demo_port ln = Some (n', got', ln') \<and> n' = -2)"
proof -
  have "script_send_recv [] 4096 ''OK'' 100 demo_port (demo_line [Incoming ''OK READY'']) = Some (8, ''OK READY'', demo_line [])"
    by (simp add: script_send_recv_def recv_loop.simps serial_recv_def demo_line_def demo_port_def cstr_def)
  moreover have "script_send_recv [] 4096 ''READY'' 100 demo_port (demo_line []) = Some (-2, [], demo_line [])"
    by (simp add: script_send_recv_def recv_loop.simps serial_recv_def demo_line_def demo_port_def cstr_def)
  ultimately show ?thesis by auto
qed

text \<open>A log file whose name contains \<open>off\<close> is never opened: the command ends logging instead.\<close>

lemma log_name_off: "script_command can (''log '' @ [QUOT] @ ''offset.txt'' @ [QUOT]) port ln = Some (False, port\<lparr>sp_log_fd := None\<rparr>, ln)"
  by (simp add: script_command_def script_log_def QUOT_def)

text \<open>An escaped quote ends the text: what is sent is cut there, with the backslash.\<close>

lemma escaped_quote_ends: "extract_quoted 2048 ([QUOT] @ ''a'' @ [BSLASH, QUOT] @ ''b'' @ [QUOT]) = Some (''a'' @ [BSLASH])"
  by (simp add: extract_quoted_def strchr_def QUOT_def BSLASH_def)

end
