(* ===== verification/Serial_Term.thy ===== *)
theory Serial_Term
  imports Serial_Script
begin

text \<open>
  The interactive terminal of the serial tool (\<open>serial-tool/src/terminal.c\<close>) and its program (\<open>main.c\<close>). The
  state holds the settings of standard input, the flags, the line being edited, the port with its device
  and what is displayed; notices and the help text are left out. When standard input is no terminal the calls
  that change its settings do nothing.
\<close>

subsection \<open>State\<close>

record terminal =
  tr_running :: bool
  tr_escape :: bool
  tr_echo :: bool
  tr_line_mode :: bool
  tr_line :: bytes
  tr_tty :: termios
  tr_port :: serial_port
  tr_ln :: serial_line
  tr_out :: bytes

text \<open>\<open>te_stamp\<close> are the time texts; \<open>te_files\<close> the files that can be opened for reading.\<close>

record term_env =
  te_tty :: bool
  te_files :: "path \<Rightarrow> bytes option"
  te_stamp :: "nat \<Rightarrow> string"

text \<open>Return code, saved settings and new settings.\<close>

definition set_raw_mode :: "bool \<Rightarrow> termios \<Rightarrow> int \<times> termios option \<times> termios" where
  "set_raw_mode tty t =
     (if \<not> tty then (-1, None, t)
      else (0, Some t, t\<lparr>c_iflag := c_iflag t - {BRKINT, ICRNL, INPCK, ISTRIP, IXON}, c_oflag := c_oflag t - {OPOST},
              c_csize := 8, c_lflag := c_lflag t - {ECHO, ICANON, IEXTEN, ISIG}, c_vmin := 1, c_vtime := 0\<rparr>))"

definition put :: "bytes \<Rightarrow> terminal \<Rightarrow> terminal" where
  "put b st = st\<lparr>tr_out := tr_out st @ b\<rparr>"

definition term_send :: "bytes \<Rightarrow> terminal \<Rightarrow> terminal" where
  "term_send b st = st\<lparr>tr_ln := snd (serial_send b (tr_port st) (tr_ln st))\<rparr>"

function file_loop :: "bytes \<Rightarrow> nat \<Rightarrow> serial_port \<Rightarrow> serial_line \<Rightarrow> int \<times> serial_line" where
  "file_loop b sent port ln =
     (if b = [] then (to_int32 (int sent), ln)
      else case serial_send (take 1024 b) port ln of (r, ln1) \<Rightarrow>
        if r < 0 then (-1, ln1) else file_loop (drop 1024 b) (sent + nat r) port ln1)"
  by pat_completeness auto
termination by (relation "measure (\<lambda>(b, sent, port, ln). length b)") auto

declare file_loop.simps [simp del]

definition send_file :: "(path \<Rightarrow> bytes option) \<Rightarrow> path \<Rightarrow> serial_port \<Rightarrow> serial_line \<Rightarrow> int \<times> serial_line" where
  "send_file files name port ln = (case files name of None \<Rightarrow> (-1, ln) | Some b \<Rightarrow> file_loop b 0 port ln)"

definition display_data :: "(nat \<Rightarrow> string) \<Rightarrow> bytes \<Rightarrow> terminal \<Rightarrow> terminal" where
  "display_data stamp b st =
     (put (if sp_hex_mode (tr_port st) then hexdump_print 0 b else if sp_timestamp (tr_port st) then hexdump_timestamp stamp b else b) st)
       \<lparr>tr_ln := log_write3 ''<< '' b (tr_port st) (tr_ln st)\<rparr>"

subsection \<open>Keys\<close>

definition trim_newline :: "string \<Rightarrow> string" where
  "trim_newline s = rev (dropWhile (\<lambda>c. c = LF \<or> c = CR) (rev s))"

text \<open>
  The prompt for a file name: the settings saved before the prompt are overwritten by \<open>set_raw_mode\<close>, which
  saves those of the prompt. \<open>orig\<close> are the settings found at the start.
\<close>

definition prompt_file :: "term_env \<Rightarrow> termios \<Rightarrow> bytes option \<Rightarrow> terminal \<Rightarrow> terminal" where
  "prompt_file e orig entry st =
     (let name = (case entry of None \<Rightarrow> [] | Some l \<Rightarrow> trim_newline (cstr (fgets1 256 l)));
          ln = (if name = [] then tr_ln st else snd (send_file (te_files e) name (tr_port st) (tr_ln st)));
          saved = (case set_raw_mode (te_tty e) orig of (_, Some s, _) \<Rightarrow> s | _ \<Rightarrow> tr_tty st)
      in st\<lparr>tr_ln := ln, tr_tty := (if te_tty e then saved else tr_tty st)\<rparr>)"

definition term_escape :: "term_env \<Rightarrow> termios \<Rightarrow> char \<Rightarrow> bytes option \<Rightarrow> terminal \<Rightarrow> terminal" where
  "term_escape e orig ch entry st =
     (let c = c_tolower ch; s = st\<lparr>tr_escape := False\<rparr>; p = tr_port st in
      if c = CHR ''q'' then s\<lparr>tr_running := False\<rparr>
      else if c = CHR ''h'' then s\<lparr>tr_port := p\<lparr>sp_hex_mode := \<not> sp_hex_mode p\<rparr>\<rparr>
      else if c = CHR ''t'' then s\<lparr>tr_port := p\<lparr>sp_timestamp := \<not> sp_timestamp p\<rparr>\<rparr>
      else if c = CHR ''e'' then s\<lparr>tr_echo := \<not> tr_echo s\<rparr>
      else if c = CHR ''l'' then s\<lparr>tr_line_mode := \<not> tr_line_mode s\<rparr>
      else if c = CHR ''s'' then prompt_file e orig entry s
      else if c = CHR ''c'' then (let s1 = term_send [CHR 0x03] s in if tr_echo s1 then put ''^C'' s1 else s1)
      else if c = CHR ''d'' then (let s1 = term_send [CHR 0x04] s in if tr_echo s1 then put ''^D'' s1 else s1)
      else if c = CHR ''a'' then term_send [ch] s
      else s)"

definition term_line_key :: "char \<Rightarrow> terminal \<Rightarrow> terminal" where
  "term_line_key ch st =
     (if ch = CR \<or> ch = LF then
        (let s1 = (term_send (tr_line st @ [LF]) st)\<lparr>tr_line := []\<rparr> in if tr_echo st then put CRLF s1 else s1)
      else if ch = CHR 0x7F \<or> ch = CHR 0x08 then
        (if tr_line st \<noteq> [] then (let s1 = st\<lparr>tr_line := butlast (tr_line st)\<rparr> in if tr_echo st then put [CHR 0x08, CHR '' '', CHR 0x08] s1 else s1) else st)
      else if length (tr_line st) < 1023 then
        (let s1 = st\<lparr>tr_line := tr_line st @ [ch]\<rparr> in if tr_echo st then put [ch] s1 else s1)
      else st)"

definition term_raw_key :: "char \<Rightarrow> terminal \<Rightarrow> terminal" where
  "term_raw_key ch st =
     (let s1 = term_send [ch] st in
      if tr_echo st then
        put (if ch = CR then CRLF else if (of_char ch :: nat) < 32 then [CHR ''^'', char_of ((of_char ch :: nat) + 64)] else [ch]) s1
      else s1)"

definition term_key :: "term_env \<Rightarrow> termios \<Rightarrow> char \<Rightarrow> bytes option \<Rightarrow> terminal \<Rightarrow> terminal" where
  "term_key e orig ch entry st =
     (if tr_escape st then term_escape e orig ch entry st
      else if ch = CHR 0x01 then st\<lparr>tr_escape := True\<rparr>
      else if tr_line_mode st then term_line_key ch st
      else term_raw_key ch st)"

subsection \<open>The loop\<close>

text \<open>
  One \<open>select\<close>: interrupted, failed, or with what is ready: the port, and a key, the failure to read it being
  \<open>Some None\<close>. The second component of a key is the line entered when it asks for a file.
\<close>

datatype term_event = SelectIntr | SelectError | Turn bool "(char \<times> bytes option) option option"

text \<open>Data from the port; the flag is false when the port has failed.\<close>

definition term_recv :: "term_env \<Rightarrow> terminal \<Rightarrow> bool \<times> terminal" where
  "term_recv e st =
     (case serial_recv 4096 (tr_port st) (tr_ln st) of (n, b, ln) \<Rightarrow>
        let s1 = st\<lparr>tr_ln := ln\<rparr> in (0 \<le> n, if 0 < n then display_data (te_stamp e) b s1 else s1))"

fun term_loop :: "term_env \<Rightarrow> termios \<Rightarrow> term_event list \<Rightarrow> terminal \<Rightarrow> terminal" where
  "term_loop e orig [] st = st"
| "term_loop e orig (ev # evs) st =
     (if \<not> tr_running st then st
      else case ev of
        SelectIntr \<Rightarrow> term_loop e orig evs st
      | SelectError \<Rightarrow> st
      | Turn ready key \<Rightarrow>
        (case (if ready then term_recv e st else (True, st)) of (ok, s1) \<Rightarrow>
           if \<not> ok then s1
           else term_loop e orig evs
             (if te_tty e then (case key of Some (Some (ch, entry)) \<Rightarrow> term_key e orig ch entry s1 | _ \<Rightarrow> s1) else s1)))"

definition terminal_run :: "term_env \<Rightarrow> term_event list \<Rightarrow> terminal \<Rightarrow> int \<times> terminal" where
  "terminal_run e evs st =
     (if \<not> sp_is_open (tr_port st) then (-1, st)
      else case set_raw_mode (te_tty e) (tr_tty st) of (_, _, raw) \<Rightarrow>
        let s1 = term_loop e (tr_tty st) evs (st\<lparr>tr_tty := raw\<rparr>)
        in (0, if te_tty e then s1\<lparr>tr_tty := tr_tty st\<rparr> else s1))"

subsection \<open>The program\<close>

datatype serial_opt = OptDevice string | OptBaud string | OptDataBits string | OptStopBits string | OptParity string | OptHex
  | OptTimestamp | OptLog string | OptExecute string | OptSend string | OptList | OptHelp | OptUnknown

record serial_args =
  sa_device :: string
  sa_baud :: int
  sa_databits :: int
  sa_stopbits :: int
  sa_parity :: char
  sa_hex :: bool
  sa_stamp :: bool
  sa_log :: "string option"
  sa_script :: "string option"
  sa_send :: "string option"
  sa_list :: bool

definition default_args :: serial_args where
  "default_args = \<lparr>sa_device = ''/dev/ttyUSB0'', sa_baud = 115200, sa_databits = 8, sa_stopbits = 1, sa_parity = CHR ''N'',
     sa_hex = False, sa_stamp = False, sa_log = None, sa_script = None, sa_send = None, sa_list = False\<rparr>"

fun serial_opts :: "serial_opt list \<Rightarrow> serial_args \<Rightarrow> int + serial_args" where
  "serial_opts [] a = Inr a"
| "serial_opts (OptDevice v # os) a = serial_opts os (a\<lparr>sa_device := v\<rparr>)"
| "serial_opts (OptBaud v # os) a = serial_opts os (a\<lparr>sa_baud := atoi v\<rparr>)"
| "serial_opts (OptDataBits v # os) a = serial_opts os (a\<lparr>sa_databits := atoi v\<rparr>)"
| "serial_opts (OptStopBits v # os) a = serial_opts os (a\<lparr>sa_stopbits := atoi v\<rparr>)"
| "serial_opts (OptParity v # os) a = serial_opts os (a\<lparr>sa_parity := (case v of [] \<Rightarrow> NUL | c # _ \<Rightarrow> c)\<rparr>)"
| "serial_opts (OptHex # os) a = serial_opts os (a\<lparr>sa_hex := True\<rparr>)"
| "serial_opts (OptTimestamp # os) a = serial_opts os (a\<lparr>sa_stamp := True\<rparr>)"
| "serial_opts (OptLog v # os) a = serial_opts os (a\<lparr>sa_log := Some v\<rparr>)"
| "serial_opts (OptExecute v # os) a = serial_opts os (a\<lparr>sa_script := Some v\<rparr>)"
| "serial_opts (OptSend v # os) a = serial_opts os (a\<lparr>sa_send := Some v\<rparr>)"
| "serial_opts (OptList # os) a = serial_opts os (a\<lparr>sa_list := True\<rparr>)"
| "serial_opts (OptHelp # os) a = Inl 0"
| "serial_opts (OptUnknown # os) a = Inl 1"

record main_world =
  mw_open :: bool
  mw_get :: bool
  mw_conf_get :: bool
  mw_conf_set :: bool
  mw_can_log :: "path \<Rightarrow> bool"
  mw_dev :: "string list option list"
  mw_can_dev :: "string \<Rightarrow> bool"
  mw_term :: term_env
  mw_events :: "term_event list"
  mw_tty :: termios

text \<open>Return code, printed data and the device at the end; \<^const>\<open>None\<close> as for scripts.\<close>

definition serial_main :: "main_world \<Rightarrow> serial_opt list \<Rightarrow> serial_line \<Rightarrow> (int \<times> bytes \<times> serial_line) option" where
  "serial_main w opts ln =
     (case serial_opts opts default_args of
        Inl r \<Rightarrow> Some (r, [], ln)
      | Inr a \<Rightarrow>
        if sa_list a then Some (0, concat (map (\<lambda>p. ''  '' @ p @ [LF]) (serial_list_ports (mw_can_dev w) (mw_dev w) 32)), ln)
        else (case serial_open (mw_open w) (mw_get w) (sa_device a) (sa_baud a) ln of (r, port0) \<Rightarrow>
          if r \<noteq> 0 then Some (1, [], ln)
          else (case serial_configure (mw_conf_get w) (mw_conf_set w) (sa_baud a) (sa_databits a) (sa_stopbits a) (sa_parity a) port0 ln of
            (_, port1, ln1) \<Rightarrow>
              let port = port1\<lparr>sp_hex_mode := sa_hex a, sp_timestamp := sa_stamp a,
                    sp_log_fd := (case sa_log a of Some f \<Rightarrow> if mw_can_log w f then Some f else None | None \<Rightarrow> None)\<rparr>
              in map_option (\<lambda>(out, port2, ln2). (0, out, snd (serial_close port2 ln2)))
                (case sa_send a of
                   Some d \<Rightarrow> (let ln2 = snd (serial_send_str d port ln1) in
                     case serial_recv 4096 port ln2 of (n, b, ln3) \<Rightarrow> Some (if 0 < n then (if sa_hex a then hexdump_print 0 b else b) else [], port, ln3))
                 | None \<Rightarrow> (case sa_script a of
                     Some f \<Rightarrow> map_option (\<lambda>(r, port2, ln2). ([], port2, ln2)) (script_run (mw_can_log w) (te_files (mw_term w) f) port ln1)
                   | None \<Rightarrow>
                     (case terminal_run (mw_term w) (mw_events w)
                        \<lparr>tr_running = True, tr_escape = False, tr_echo = False, tr_line_mode = False, tr_line = [], tr_tty = mw_tty w,
                         tr_port = port, tr_ln = ln1, tr_out = []\<rparr> of (_, st) \<Rightarrow> Some (tr_out st, tr_port st, tr_ln st)))))))"

subsection \<open>Sessions\<close>

text \<open>Steps that keep the port open and the device without write errors.\<close>

definition term_ok :: "terminal \<Rightarrow> bool" where
  "term_ok st \<longleftrightarrow> sp_is_open (tr_port st) \<and> WriteError \<notin> set (ln_writes (tr_ln st))"

lemma term_send_effect:
  assumes "term_ok st" and "length b < 2 ^ 31"
  shows "term_ok (term_send b st)" "ln_sent (tr_ln (term_send b st)) = ln_sent (tr_ln st) @ b"
    "ln_reads (tr_ln (term_send b st)) = ln_reads (tr_ln st)" "tr_out (term_send b st) = tr_out st" "tr_port (term_send b st) = tr_port st"
    "tr_line (term_send b st) = tr_line st" "tr_running (term_send b st) = tr_running st" "tr_escape (term_send b st) = tr_escape st"
    "tr_echo (term_send b st) = tr_echo st" "tr_line_mode (term_send b st) = tr_line_mode st" "tr_tty (term_send b st) = tr_tty st"
proof -
  from serial_send_complete [OF _ _ assms(2), of "tr_port st" "tr_ln st"] assms(1) obtain ln where
    "serial_send b (tr_port st) (tr_ln st) = (int (length b), ln)" "ln_sent ln = ln_sent (tr_ln st) @ b" "ln_reads ln = ln_reads (tr_ln st)"
    "WriteError \<notin> set (ln_writes ln)" by (auto simp: term_ok_def)
  then show "term_ok (term_send b st)" "ln_sent (tr_ln (term_send b st)) = ln_sent (tr_ln st) @ b"
    "ln_reads (tr_ln (term_send b st)) = ln_reads (tr_ln st)" "tr_out (term_send b st) = tr_out st" "tr_port (term_send b st) = tr_port st"
    "tr_line (term_send b st) = tr_line st" "tr_running (term_send b st) = tr_running st" "tr_escape (term_send b st) = tr_escape st"
    "tr_echo (term_send b st) = tr_echo st" "tr_line_mode (term_send b st) = tr_line_mode st" "tr_tty (term_send b st) = tr_tty st"
    using assms(1) by (simp_all add: term_send_def term_ok_def)
qed

text \<open>
  A plain session: each turn brings some bytes, a key or both. \<open>reads\<close> is what the device delivers for it.
\<close>

type_synonym plain_turn = "bytes option \<times> char option"

definition turn_event :: "plain_turn \<Rightarrow> term_event" where
  "turn_event t = Turn (fst t \<noteq> None) (map_option (\<lambda>c. Some (c, None)) (snd t))"

definition turn_reads :: "plain_turn list \<Rightarrow> read_event list" where
  "turn_reads ts = map Incoming (List.map_filter fst ts)"

definition turn_ok :: "plain_turn \<Rightarrow> bool" where
  "turn_ok t \<longleftrightarrow> (case fst t of None \<Rightarrow> True | Some b \<Rightarrow> b \<noteq> [] \<and> length b \<le> 4096) \<and> snd t \<noteq> Some (CHR 0x01)"

definition plain_state :: "terminal \<Rightarrow> bool" where
  "plain_state st \<longleftrightarrow> term_ok st \<and> tr_running st \<and> \<not> tr_escape st \<and> \<not> tr_echo st \<and> \<not> tr_line_mode st \<and>
     \<not> sp_hex_mode (tr_port st) \<and> \<not> sp_timestamp (tr_port st) \<and> sp_log_fd (tr_port st) = None"

lemma plain_recv:
  assumes "plain_state st" and "ln_reads (tr_ln st) = Incoming b # rs" and "b \<noteq> []" and "length b \<le> 4096"
  shows "\<exists>s1. term_recv e st = (True, s1) \<and> plain_state s1 \<and> ln_reads (tr_ln s1) = rs \<and> ln_sent (tr_ln s1) = ln_sent (tr_ln st) \<and>
    tr_out s1 = tr_out st @ b \<and> tr_tty s1 = tr_tty st"
  using assms by (simp add: term_recv_def serial_recv_def plain_state_def term_ok_def display_data_def put_def log_write3_def)

lemma plain_key:
  assumes "plain_state st" and "c \<noteq> CHR 0x01"
  shows "plain_state (term_key e orig c None st) \<and> ln_reads (tr_ln (term_key e orig c None st)) = ln_reads (tr_ln st) \<and>
    ln_sent (tr_ln (term_key e orig c None st)) = ln_sent (tr_ln st) @ [c] \<and> tr_out (term_key e orig c None st) = tr_out st \<and>
    tr_tty (term_key e orig c None st) = tr_tty st"
proof -
  have "term_key e orig c None st = term_send [c] st" using assms by (simp add: term_key_def plain_state_def term_raw_key_def)
  then show ?thesis using assms(1) term_send_effect [of st "[c]"] by (simp add: plain_state_def)
qed

lemma plain_loop:
  assumes "te_tty e" and "list_all turn_ok ts" and "plain_state st" and "ln_reads (tr_ln st) = turn_reads ts @ rs"
  shows "\<exists>s1. term_loop e orig (map turn_event ts @ evs) st = term_loop e orig evs s1 \<and> plain_state s1 \<and> ln_reads (tr_ln s1) = rs \<and>
    ln_sent (tr_ln s1) = ln_sent (tr_ln st) @ List.map_filter snd ts \<and> tr_out s1 = tr_out st @ concat (List.map_filter fst ts)"
  using assms(2-4)
proof (induction ts arbitrary: st)
  case Nil
  then show ?case by (auto simp: turn_reads_def map_filter_simps)
next
  case (Cons t ts)
  have run: "tr_running st" using Cons.prems(2) by (simp add: plain_state_def)
  obtain s1 where s1: "(if fst t \<noteq> None then term_recv e st else (True, st)) = (True, s1)" "plain_state s1" "ln_reads (tr_ln s1) = turn_reads ts @ rs"
    "ln_sent (tr_ln s1) = ln_sent (tr_ln st)" "tr_out s1 = tr_out st @ (case fst t of None \<Rightarrow> [] | Some b \<Rightarrow> b)"
  proof (cases "fst t")
    case None
    then show ?thesis using Cons.prems by (intro that [of st]) (auto simp: turn_reads_def map_filter_simps)
  next
    case (Some b)
    have "ln_reads (tr_ln st) = Incoming b # turn_reads ts @ rs" using Cons.prems(3) Some by (simp add: turn_reads_def map_filter_simps)
    from plain_recv [OF Cons.prems(2) this, of e] Some Cons.prems(1) show ?thesis by (auto simp: turn_ok_def intro: that)
  qed
  obtain s2 where s2: "(case map_option (\<lambda>c. Some (c, None)) (snd t) of Some (Some (ch, entry)) \<Rightarrow> term_key e orig ch entry s1 | _ \<Rightarrow> s1) = s2"
    "plain_state s2" "ln_reads (tr_ln s2) = ln_reads (tr_ln s1)" "tr_out s2 = tr_out s1"
    "ln_sent (tr_ln s2) = ln_sent (tr_ln s1) @ (case snd t of None \<Rightarrow> [] | Some c \<Rightarrow> [c])"
  proof (cases "snd t")
    case None
    then show ?thesis using s1(2) by (intro that [of s1]) auto
  next
    case (Some c)
    have "c \<noteq> CHR 0x01" using Some Cons.prems(1) by (auto simp: turn_ok_def)
    from plain_key [OF s1(2) this, of e orig] Some show ?thesis by (intro that [of "term_key e orig c None s1"]) auto
  qed
  have "term_loop e orig (map turn_event (t # ts) @ evs) st = term_loop e orig (map turn_event ts @ evs) s2"
    using run s1(1) s2(1) assms(1) by (simp add: turn_event_def)
  moreover have "list_all turn_ok ts" "ln_reads (tr_ln s2) = turn_reads ts @ rs" using Cons.prems(1) s1(3) s2(3) by simp_all
  ultimately show ?case using Cons.IH [of s2] s1 s2
    by (auto simp: map_filter_simps split: option.splits)
qed

text \<open>
  C31. The terminal is transparent: whatever the order in which bytes arrive and keys other than Ctrl-A are typed,
  in character mode without echo, every key is sent and every received byte displayed, each in order and exactly
  once, until Ctrl-A q ends the session; then standard input has its settings of before again and nothing
  more is read.
\<close>

theorem terminal_transparent:
  assumes "te_tty e" and "list_all turn_ok ts" and "plain_state st" and "ln_reads (tr_ln st) = turn_reads ts @ rs"
  shows "\<exists>st'. terminal_run e (map turn_event ts @
        [Turn False (Some (Some (CHR 0x01, None))), Turn False (Some (Some (CHR ''q'', None)))] @ later) st = (0, st') \<and>
    ln_sent (tr_ln st') = ln_sent (tr_ln st) @ List.map_filter snd ts \<and> tr_out st' = tr_out st @ concat (List.map_filter fst ts) \<and>
    tr_tty st' = tr_tty st \<and> ln_reads (tr_ln st') = rs"
proof -
  let ?q = "[Turn False (Some (Some (CHR 0x01, None))), Turn False (Some (Some (CHR ''q'', None)))] @ later"
  obtain raw where raw: "set_raw_mode True (tr_tty st) = (0, Some (tr_tty st), raw)" by (simp add: set_raw_mode_def)
  have "plain_state (st\<lparr>tr_tty := raw\<rparr>)" "ln_reads (tr_ln (st\<lparr>tr_tty := raw\<rparr>)) = turn_reads ts @ rs"
    using assms(3,4) by (simp_all add: plain_state_def term_ok_def)
  from plain_loop [OF assms(1,2) this, of "tr_tty st" ?q] obtain s1 where
    s1: "term_loop e (tr_tty st) (map turn_event ts @ ?q) (st\<lparr>tr_tty := raw\<rparr>) = term_loop e (tr_tty st) ?q s1" "plain_state s1"
      "ln_reads (tr_ln s1) = rs" "ln_sent (tr_ln s1) = ln_sent (tr_ln st) @ List.map_filter snd ts"
      "tr_out s1 = tr_out st @ concat (List.map_filter fst ts)" by auto
  have "term_loop e (tr_tty st) ?q s1 = s1\<lparr>tr_escape := False, tr_running := False\<rparr>"
    using s1(2) assms(1) by (cases later) (simp_all add: plain_state_def term_key_def term_escape_def c_tolower_def c_isupper_def)
  then show ?thesis using s1 assms(1,3) by (simp add: terminal_run_def raw plain_state_def term_ok_def)
qed

lemma terminal_transparent_witness:
  "\<exists>st'. terminal_run \<lparr>te_tty = True, te_files = \<lambda>_. None, te_stamp = \<lambda>_. []\<rparr>
      [Turn True (Some (Some (CHR ''a'', None))), Turn False (Some (Some (CHR 0x01, None))), Turn False (Some (Some (CHR ''q'', None)))]
      \<lparr>tr_running = True, tr_escape = False, tr_echo = False, tr_line_mode = False, tr_line = [], tr_tty = zero_termios,
       tr_port = demo_port, tr_ln = demo_line [Incoming ''hi''], tr_out = []\<rparr> = (0, st') \<and> ln_sent (tr_ln st') = ''a'' \<and> tr_out st' = ''hi''"
proof -
  let ?e = "\<lparr>te_tty = True, te_files = \<lambda>_. None, te_stamp = \<lambda>_. []\<rparr>" and ?ts = "[(Some ''hi'', Some (CHR ''a''))]"
  let ?st = "\<lparr>tr_running = True, tr_escape = False, tr_echo = False, tr_line_mode = False, tr_line = [], tr_tty = zero_termios,
       tr_port = demo_port, tr_ln = demo_line [Incoming ''hi''], tr_out = []\<rparr>"
  have "te_tty ?e" "list_all turn_ok ?ts" "plain_state ?st" "ln_reads (tr_ln ?st) = turn_reads ?ts @ []"
    by (simp_all add: turn_ok_def plain_state_def term_ok_def demo_port_def demo_line_def closed_port_def turn_reads_def map_filter_simps)
  from terminal_transparent [OF this, of "[]"] show ?thesis by (auto simp: turn_event_def map_filter_simps demo_line_def)
qed

subsection \<open>Line editing\<close>

text \<open>The line that the keys leave.\<close>

definition edit_key :: "bytes \<Rightarrow> char \<Rightarrow> bytes" where
  "edit_key l c = (if c = CHR 0x7F \<or> c = CHR 0x08 then butlast l else if length l < 1023 then l @ [c] else l)"

definition edit_ok :: "char \<Rightarrow> bool" where
  "edit_ok c \<longleftrightarrow> c \<noteq> CR \<and> c \<noteq> LF \<and> c \<noteq> CHR 0x01"

lemma line_keys:
  assumes "list_all edit_ok ks" and "tr_line_mode st" and "\<not> tr_escape st"
  shows "\<exists>st'. fold (\<lambda>c. term_key e orig c None) ks st = st' \<and> tr_line st' = foldl edit_key (tr_line st) ks \<and> tr_ln st' = tr_ln st \<and>
    tr_port st' = tr_port st \<and> tr_line_mode st' \<and> \<not> tr_escape st' \<and> tr_echo st' = tr_echo st"
  using assms
proof (induction ks arbitrary: st)
  case (Cons c ks)
  have c: "c \<noteq> CR" "c \<noteq> LF" "c \<noteq> CHR 0x01" using Cons.prems(1) by (simp_all add: edit_ok_def)
  define s1 where "s1 = term_key e orig c None st"
  have "tr_line s1 = edit_key (tr_line st) c" "tr_ln s1 = tr_ln st" "tr_port s1 = tr_port st" "tr_line_mode s1" "\<not> tr_escape s1" "tr_echo s1 = tr_echo st"
    using c Cons.prems(2,3) by (simp_all add: s1_def term_key_def term_line_key_def edit_key_def put_def Let_def)
  then show ?case using Cons.IH [of s1] Cons.prems(1) by (simp add: s1_def [symmetric])
qed simp

text \<open>In line mode Enter sends what the editing keys have left, with one line feed, and the next line starts empty.\<close>

lemma line_mode_sends:
  assumes "list_all edit_ok ks" and "tr_line_mode st" and "\<not> tr_escape st" and "term_ok st" and "tr_line st = []" and "k = CR \<or> k = LF"
  shows "ln_sent (tr_ln (fold (\<lambda>c. term_key e orig c None) (ks @ [k]) st)) = ln_sent (tr_ln st) @ foldl edit_key [] ks @ [LF] \<and>
    tr_line (fold (\<lambda>c. term_key e orig c None) (ks @ [k]) st) = []"
proof -
  obtain s1 where s1: "fold (\<lambda>c. term_key e orig c None) ks st = s1" "tr_line s1 = foldl edit_key [] ks" "tr_ln s1 = tr_ln st"
    "tr_port s1 = tr_port st" "tr_line_mode s1" "\<not> tr_escape s1"
    using line_keys [OF assms(1,2,3)] assms(5) by metis
  have "length l \<le> 1023 \<Longrightarrow> length (edit_key l c) \<le> 1023" for l c by (auto simp: edit_key_def)
  then have len: "length l \<le> 1023 \<Longrightarrow> length (foldl edit_key l ks) \<le> 1023" for l
    by (induction ks arbitrary: l) simp_all
  have "term_ok s1" using assms(4) s1 by (simp add: term_ok_def)
  moreover have "length (foldl edit_key [] ks @ [LF]) < 2 ^ 31" using len [of "[]"] by simp
  ultimately show ?thesis using s1 assms(6) term_send_effect(2) [of s1 "foldl edit_key [] ks @ [LF]"]
    by (auto simp: term_key_def term_line_key_def Let_def put_def)
qed

text \<open>
  After a file has been sent standard input has the settings of before the session, not the raw ones: keys are
  no longer delivered one by one.
\<close>

lemma prompt_leaves_cooked: "te_tty e \<Longrightarrow> tr_tty (term_escape e orig (CHR ''s'') entry st) = orig"
  by (simp add: term_escape_def prompt_file_def set_raw_mode_def Let_def c_tolower_def c_isupper_def split: option.splits)

text \<open>Ctrl-A a sends the letter, not Ctrl-A.\<close>

lemma ctrl_a_sends_letter:
  "term_ok st \<Longrightarrow> ln_sent (tr_ln (term_escape e orig (CHR ''a'') entry st)) = ln_sent (tr_ln st) @ ''a''"
  using term_send_effect(2) [of "st\<lparr>tr_escape := False\<rparr>" "''a''"]
  by (simp add: term_escape_def c_tolower_def c_isupper_def term_ok_def)

text \<open>A file is sent whole, in pieces of 1024 bytes.\<close>

lemma send_file_complete:
  assumes "sp_is_open port" and "WriteError \<notin> set (ln_writes ln)" and "files name = Some b"
  shows "ln_sent (snd (send_file files name port ln)) = ln_sent ln @ b"
proof -
  have "ln_sent (snd (file_loop b n port ln)) = ln_sent ln @ b" if "sp_is_open port" "WriteError \<notin> set (ln_writes ln)" for b n port ln
    using that
  proof (induction b n port ln rule: file_loop.induct)
    case (1 b n port ln)
    show ?case
    proof (cases "b = []")
      case False
      have "length (take 1024 b) < 2 ^ 31" by simp
      from serial_send_complete [OF 1(2,3) this] obtain ln1 where "serial_send (take 1024 b) port ln = (int (length (take 1024 b)), ln1)"
        "ln_sent ln1 = ln_sent ln @ take 1024 b" "WriteError \<notin> set (ln_writes ln1)" by blast
      then show ?thesis using 1 False by (subst file_loop.simps) simp
    qed (simp add: file_loop.simps)
  qed
  then show ?thesis using assms by (simp add: send_file_def)
qed

end
