(* ===== verification/Two_Process.thy ===== *)
theory Two_Process
  imports Main
begin

text \<open>
  Two processes that take turns: every step is a call of one of them, chosen by the scheduler, and a call that
  blocks is no step. The locale \<open>two_process\<close> is the contract of a protocol that always completes: an invariant that
  counts the calls, a bound of the calls, and that both block only at the end. Its lemmas hold for every schedule.
  It is interpreted by the exchanges of the IPC benchmarks: semaphores, the opening of named pipes, message queues
  and datagrams.
\<close>

inductive either_step :: "('s \<Rightarrow> 's option) \<Rightarrow> ('s \<Rightarrow> 's option) \<Rightarrow> 's \<Rightarrow> 's \<Rightarrow> bool" for a b where
  either_left: "a s = Some s' \<Longrightarrow> either_step a b s s'"
| either_right: "b s = Some s' \<Longrightarrow> either_step a b s s'"

inductive_simps either_step_iff: "either_step a b s s'"

lemma either_blocked: "(\<nexists>s'. either_step a b s s') \<longleftrightarrow> a s = None \<and> b s = None"
  by (cases "a s"; cases "b s") (auto simp: either_step_iff)

locale two_process =
  fixes ok :: "'p \<Rightarrow> bool" and init :: "'p \<Rightarrow> 's" and left right :: "'p \<Rightarrow> 's \<Rightarrow> 's option"
    and inv :: "'p \<Rightarrow> nat \<Rightarrow> 's \<Rightarrow> bool" and final :: "'p \<Rightarrow> 's \<Rightarrow> bool" and calls_of :: "'p \<Rightarrow> nat"
  assumes init_inv: "ok p \<Longrightarrow> inv p 0 (init p)"
    and left_inv: "ok p \<Longrightarrow> inv p c s \<Longrightarrow> left p s = Some s' \<Longrightarrow> inv p (Suc c) s'"
    and right_inv: "ok p \<Longrightarrow> inv p c s \<Longrightarrow> right p s = Some s' \<Longrightarrow> inv p (Suc c) s'"
    and inv_calls: "ok p \<Longrightarrow> inv p c s \<Longrightarrow> c \<le> calls_of p"
    and blocked_final: "ok p \<Longrightarrow> inv p c s \<Longrightarrow> left p s = None \<Longrightarrow> right p s = None \<Longrightarrow> final p s \<and> c = calls_of p"
begin

lemma run_inv: "ok p \<Longrightarrow> inv p k s \<Longrightarrow> (either_step (left p) (right p) ^^ c) s t \<Longrightarrow> inv p (k + c) t"
proof (induction c arbitrary: t)
  case (Suc c)
  then obtain u where u: "(either_step (left p) (right p) ^^ c) s u" "either_step (left p) (right p) u t" by (auto elim: relpowp_Suc_E)
  have i: "inv p (k + c) u" by (rule Suc.IH [OF Suc.prems(1,2) u(1)])
  from u(2) show ?case
  proof cases
    case either_left
    then show ?thesis using left_inv [OF Suc.prems(1) i] by simp
  next
    case either_right
    then show ?thesis using right_inv [OF Suc.prems(1) i] by simp
  qed
qed simp

lemma run_reaches_inv: "ok p \<Longrightarrow> (either_step (left p) (right p) ^^ c) (init p) s \<Longrightarrow> inv p c s"
  using run_inv [of p 0 "init p" c s] init_inv by simp

text \<open>No schedule makes more calls, and one that has not made them all can go on or is at the end.\<close>

lemma run_progress:
  assumes "ok p" and "(either_step (left p) (right p) ^^ c) (init p) s"
  shows "c \<le> calls_of p \<and> ((\<exists>s'. either_step (left p) (right p) s s') \<or> final p s \<and> c = calls_of p)"
proof -
  have i: "inv p c s" by (rule run_reaches_inv [OF assms])
  show ?thesis
  proof (cases "left p s = None \<and> right p s = None")
    case True
    then show ?thesis using inv_calls [OF assms(1) i] blocked_final [OF assms(1) i] by blast
  next
    case False
    then show ?thesis using inv_calls [OF assms(1) i] either_blocked [of "left p" "right p" s] by blast
  qed
qed

text \<open>Whatever was scheduled so far, the rest of the calls leads to the end.\<close>

lemma run_completes:
  assumes "ok p" and "(either_step (left p) (right p) ^^ c) (init p) s"
  shows "\<exists>k t. (either_step (left p) (right p) ^^ k) s t \<and> final p t \<and> c + k = calls_of p"
  using assms(2)
proof (induction "calls_of p - c" arbitrary: c s rule: less_induct)
  case less
  note pr = run_progress [OF assms(1) less.prems]
  show ?case
  proof (cases "\<exists>s'. either_step (left p) (right p) s s'")
    case True
    then obtain s' where s': "either_step (left p) (right p) s s'" by blast
    then have r: "(either_step (left p) (right p) ^^ Suc c) (init p) s'" using less.prems by auto
    then have "calls_of p - Suc c < calls_of p - c" using run_progress [OF assms(1) r] by linarith
    from less.hyps [OF this r] obtain k t where "(either_step (left p) (right p) ^^ k) s' t" "final p t" "Suc c + k = calls_of p" by blast
    moreover from this(1) s' have "(either_step (left p) (right p) ^^ Suc k) s t" by (rule relpowp_Suc_I2 [rotated])
    ultimately show ?thesis by (intro exI [of _ "Suc k"] exI [of _ t]) simp
  next
    case False
    then have "final p s" "c = calls_of p" using pr by auto
    then show ?thesis by (intro exI [of _ 0] exI [of _ s]) simp
  qed
qed

end

end
