(* ===== verification/Bench.thy ===== *)
theory Bench
  imports Prelude Complex_Main Two_Process
begin

text \<open>
  The IPC benchmarks (\<open>ipc-bench/src\<close>): the latency statistics (\<open>utils.c\<close>), the exchange of messages over a byte
  stream that the pipe, FIFO, Unix and TCP benchmarks share, and the two handshakes over shared memory
  (\<open>bench_shm.c\<close>). Parent and child are processes that take turns in any order. \<open>double\<close> is \<^typ>\<open>rat\<close>. The kernel
  objects around the loops are the matter of \<open>Bench_Main\<close>, the exchanges of whole messages of \<open>Bench_Msg\<close>; reading the clock is not modelled.
\<close>

subsection \<open>Statistics\<close>

record latency_collector =
  lc_data :: "rat list"
  lc_capacity :: int

record bench_result =
  br_latency_us :: rat
  br_throughput_mbps :: rat
  br_min_us :: rat
  br_max_us :: rat
  br_p50_us :: rat
  br_p99_us :: rat
  br_iterations :: int
  br_msg_size :: int

text \<open>Seconds and nanoseconds of two clock readings.\<close>

definition time_diff_us :: "int \<times> int \<Rightarrow> int \<times> int \<Rightarrow> rat" where
  "time_diff_us start stop = of_int (fst stop - fst start) * 1000000 + of_int (snd stop - snd start) / 1000"

definition generate_test_data :: "nat \<Rightarrow> bytes" where
  "generate_test_data len = map (\<lambda>i. char_of (i mod 256)) [0..<len]"

definition compare_double :: "rat \<Rightarrow> rat \<Rightarrow> int" where
  "compare_double a b = (if a < b then -1 else if b < a then 1 else 0)"

text \<open>\<open>qsort\<close> with \<open>compare_double\<close>.\<close>

definition sort_doubles :: "rat list \<Rightarrow> rat list" where
  "sort_doubles = sort"

definition collector_new :: "bool \<Rightarrow> bool \<Rightarrow> int \<Rightarrow> latency_collector option" where
  "collector_new ok1 ok2 capacity = (if ok1 \<and> ok2 then Some \<lparr>lc_data = [], lc_capacity = capacity\<rparr> else None)"

definition collector_record :: "rat \<Rightarrow> latency_collector \<Rightarrow> latency_collector" where
  "collector_record us c = (if int (length (lc_data c)) < lc_capacity c then c\<lparr>lc_data := lc_data c @ [us]\<rparr> else c)"

text \<open>The index of the 99th percentile: the product with 0.99, cut off.\<close>

definition p99_index :: "nat \<Rightarrow> nat" where
  "p99_index n = n * 99 div 100"

definition collector_compute_stats :: "latency_collector \<Rightarrow> bench_result \<Rightarrow> bench_result" where
  "collector_compute_stats c r =
     (let d = sort_doubles (lc_data c); n = length d in
      if n = 0 then r
      else r\<lparr>br_iterations := int n, br_latency_us := sum_list d / of_nat n, br_min_us := d ! 0, br_max_us := d ! (n - 1),
             br_p50_us := d ! (n div 2), br_p99_us := d ! p99_index n,
             br_throughput_mbps := of_int (br_msg_size r) / (sum_list d / of_nat n)\<rparr>)"

text \<open>
  The figures are in order, are those of samples, and at least 99 of 100 samples are at most the 99th percentile.
\<close>

lemma stats_ordered:
  assumes "lc_data c \<noteq> []" and "r' = collector_compute_stats c r"
  shows "br_min_us r' \<le> br_p50_us r'" "br_p50_us r' \<le> br_p99_us r'" "br_p99_us r' \<le> br_max_us r'"
    and "\<forall>x \<in> set (lc_data c). br_min_us r' \<le> x \<and> x \<le> br_max_us r'"
    and "br_min_us r' \<le> br_latency_us r'" "br_latency_us r' \<le> br_max_us r'"
    and "99 * length (lc_data c) \<le> 100 * length (filter (\<lambda>x. x \<le> br_p99_us r') (lc_data c))"
proof -
  let ?d = "sort (lc_data c)" and ?n = "length (lc_data c)"
  have n: "0 < ?n" using assms(1) by simp
  have ne: "?d \<noteq> []" using assms(1) by (metis length_0_conv length_sort)
  have k: "?n div 2 \<le> p99_index ?n" "p99_index ?n < ?n" using n unfolding p99_index_def by linarith+
  have r': "br_min_us r' = ?d ! 0" "br_max_us r' = ?d ! (?n - 1)" "br_p50_us r' = ?d ! (?n div 2)" "br_p99_us r' = ?d ! p99_index ?n"
    "br_latency_us r' = sum_list ?d / of_nat ?n"
    using ne assms(2) by (simp_all add: collector_compute_stats_def Let_def sort_doubles_def)
  have mono: "?d ! i \<le> ?d ! j" if "i \<le> j" "j < ?n" for i j using that sorted_nth_mono [of ?d i j] by simp
  show "br_min_us r' \<le> br_p50_us r'" "br_p50_us r' \<le> br_p99_us r'" "br_p99_us r' \<le> br_max_us r'"
    using k n by (auto simp: r' intro!: mono)
  have all: "?d ! 0 \<le> x \<and> x \<le> ?d ! (?n - 1)" if x: "x \<in> set (lc_data c)" for x
  proof -
    obtain i where "i < ?n" "x = ?d ! i" using x by (metis in_set_conv_nth length_sort set_sort)
    then show ?thesis using n by (auto intro: mono)
  qed
  then show "\<forall>x \<in> set (lc_data c). br_min_us r' \<le> x \<and> x \<le> br_max_us r'" by (simp add: r')
  have "of_nat (length xs) * a \<le> sum_list xs \<and> sum_list xs \<le> of_nat (length xs) * b" if "\<forall>x \<in> set xs. a \<le> x \<and> x \<le> b" for xs :: "rat list" and a b
    using that by (induction xs) (auto simp: algebra_simps intro: add_mono)
  from this [of ?d "?d ! 0" "?d ! (?n - 1)"] all n show "br_min_us r' \<le> br_latency_us r'" "br_latency_us r' \<le> br_max_us r'"
    by (simp_all add: r' pos_le_divide_eq pos_divide_le_eq mult.commute)
  have "filter (\<lambda>x. x \<le> ?d ! p99_index ?n) (take (Suc (p99_index ?n)) ?d) = take (Suc (p99_index ?n)) ?d"
    using k(2) by (intro filter_True) (auto simp: in_set_conv_nth intro!: mono)
  then have "Suc (p99_index ?n) \<le> length (filter (\<lambda>x. x \<le> ?d ! p99_index ?n) ?d)"
    using k(2) by (metis append_take_drop_id filter_append length_append length_sort length_take le_add1 min_absorb2 Suc_leI)
  moreover have "length (filter P ?d) = length (filter P (lc_data c))" for P by (simp add: filter_sort)
  ultimately have "Suc (p99_index ?n) \<le> length (filter (\<lambda>x. x \<le> br_p99_us r') (lc_data c))" by (simp add: r')
  moreover have "99 * ?n \<le> 100 * Suc (p99_index ?n)" using dividend_less_times_div [of 100 "?n * 99"] by (simp add: p99_index_def)
  ultimately show "99 * ?n \<le> 100 * length (filter (\<lambda>x. x \<le> br_p99_us r') (lc_data c))"
    by (meson le_trans mult_le_mono2)
qed

subsection \<open>Messages over a byte stream\<close>

text \<open>
  The loops of parent and child: the phase with the bytes of the message written or read so far, the iterations
  left including the current one, the buffers, and the two channels, each of which holds at most \<open>cap\<close> bytes.
  \<open>pp_samples\<close> counts the latencies recorded.
\<close>

datatype phase = Wr nat | Rd nat | Finished

record pingpong =
  pp_parent :: phase
  pp_child :: phase
  pp_pleft :: nat
  pp_cleft :: nat
  pp_pbuf :: bytes
  pp_cbuf :: bytes
  pp_up :: bytes
  pp_down :: bytes
  pp_samples :: nat

definition pp_init :: "nat \<Rightarrow> nat \<Rightarrow> bytes \<Rightarrow> pingpong" where
  "pp_init msg_size iterations cbuf =
     \<lparr>pp_parent = (if iterations = 0 then Finished else Wr 0), pp_child = (if iterations = 0 then Finished else Rd 0),
      pp_pleft = iterations, pp_cleft = iterations, pp_pbuf = generate_test_data msg_size, pp_cbuf = cbuf, pp_up = [], pp_down = [], pp_samples = 0\<rparr>"

text \<open>Bytes read to a position of a buffer.\<close>

definition store_at :: "nat \<Rightarrow> bytes \<Rightarrow> bytes \<Rightarrow> bytes" where
  "store_at pos b buf = take pos buf @ b @ drop (pos + length b) buf"

text \<open>
  One system call of one process, transferring \<open>k\<close> bytes; it blocks while nothing can be transferred. With the
  last byte of a message the process goes to its next loop.
\<close>

definition parent_write :: "nat \<Rightarrow> nat \<Rightarrow> nat \<Rightarrow> pingpong \<Rightarrow> pingpong option" where
  "parent_write cap m k s = (case pp_parent s of
     Wr w \<Rightarrow> if 0 < k \<and> w + k \<le> m \<and> length (pp_up s) + k \<le> cap
       then Some (s\<lparr>pp_up := pp_up s @ take k (drop w (pp_pbuf s)), pp_parent := (if w + k = m then Rd 0 else Wr (w + k))\<rparr>) else None
   | _ \<Rightarrow> None)"

definition parent_read :: "nat \<Rightarrow> nat \<Rightarrow> pingpong \<Rightarrow> pingpong option" where
  "parent_read m k s = (case pp_parent s of
     Rd r \<Rightarrow> if 0 < k \<and> r + k \<le> m \<and> k \<le> length (pp_down s)
       then (let s1 = s\<lparr>pp_pbuf := store_at r (take k (pp_down s)) (pp_pbuf s), pp_down := drop k (pp_down s)\<rparr> in
         Some (if r + k < m then s1\<lparr>pp_parent := Rd (r + k)\<rparr>
               else s1\<lparr>pp_samples := pp_samples s + 1, pp_pleft := pp_pleft s - 1, pp_parent := (if pp_pleft s = 1 then Finished else Wr 0)\<rparr>)) else None
   | _ \<Rightarrow> None)"

definition child_read :: "nat \<Rightarrow> nat \<Rightarrow> pingpong \<Rightarrow> pingpong option" where
  "child_read m k s = (case pp_child s of
     Rd r \<Rightarrow> if 0 < k \<and> r + k \<le> m \<and> k \<le> length (pp_up s)
       then Some (s\<lparr>pp_cbuf := store_at r (take k (pp_up s)) (pp_cbuf s), pp_up := drop k (pp_up s),
              pp_child := (if r + k = m then Wr 0 else Rd (r + k))\<rparr>) else None
   | _ \<Rightarrow> None)"

definition child_write :: "nat \<Rightarrow> nat \<Rightarrow> nat \<Rightarrow> pingpong \<Rightarrow> pingpong option" where
  "child_write cap m k s = (case pp_child s of
     Wr w \<Rightarrow> if 0 < k \<and> w + k \<le> m \<and> length (pp_down s) + k \<le> cap
       then (let s1 = s\<lparr>pp_down := pp_down s @ take k (drop w (pp_cbuf s))\<rparr> in
         Some (if w + k < m then s1\<lparr>pp_child := Wr (w + k)\<rparr>
               else s1\<lparr>pp_cleft := pp_cleft s - 1, pp_child := (if pp_cleft s = 1 then Finished else Rd 0)\<rparr>)) else None
   | _ \<Rightarrow> None)"

inductive pp_step :: "nat \<Rightarrow> nat \<Rightarrow> pingpong \<Rightarrow> pingpong \<Rightarrow> bool" for cap m where
  p_write: "parent_write cap m k s = Some s' \<Longrightarrow> pp_step cap m s s'"
| p_read: "parent_read m k s = Some s' \<Longrightarrow> pp_step cap m s s'"
| c_read: "child_read m k s = Some s' \<Longrightarrow> pp_step cap m s s'"
| c_write: "child_write cap m k s = Some s' \<Longrightarrow> pp_step cap m s s'"

inductive_simps pp_step_iff: "pp_step cap m s s'"

text \<open>The bytes between two positions.\<close>

definition seg :: "nat \<Rightarrow> nat \<Rightarrow> bytes \<Rightarrow> bytes" where
  "seg a b D = take (b - a) (drop a D)"

lemma seg_simps [simp]:
  "b \<le> length D \<Longrightarrow> length (seg a b D) = b - a" "seg a a D = []" "drop k (seg a b D) = seg (a + k) b D"
  "a + k \<le> b \<Longrightarrow> take k (seg a b D) = seg a (a + k) D"
  by (auto simp: seg_def drop_take min_def add.commute)

lemma seg_append: "a \<le> b \<Longrightarrow> b \<le> c \<Longrightarrow> c \<le> length D \<Longrightarrow> seg a b D @ seg b c D = seg a c D"
proof -
  assume a: "a \<le> b" "b \<le> c" "c \<le> length D"
  have "take ((b - a) + (c - b)) (drop a D) = take (b - a) (drop a D) @ take (c - b) (drop (b - a) (drop a D))" by (rule take_add)
  then show ?thesis using a by (simp add: seg_def)
qed

lemma store_at_seg:
  assumes "take r buf = take r D" and "r + k \<le> length D" and "length buf = length D"
  shows "take (r + k) (store_at r (seg r (r + k) D) buf) = take (r + k) D" "length (store_at r (seg r (r + k) D) buf) = length D"
proof -
  have "store_at r (seg r (r + k) D) buf = take (r + k) D @ drop (r + k) buf"
    using assms by (simp add: store_at_def seg_def take_add)
  then show "take (r + k) (store_at r (seg r (r + k) D) buf) = take (r + k) D" "length (store_at r (seg r (r + k) D) buf) = length D"
    using assms by simp_all
qed

text \<open>Where the two processes can stand to each other; \<open>D\<close> is the message.\<close>

definition pp_inv :: "bytes \<Rightarrow> nat \<Rightarrow> pingpong \<Rightarrow> bool" where
  "pp_inv D iterations s \<longleftrightarrow> pp_pbuf s = D \<and> length (pp_cbuf s) = length D \<and> pp_samples s + pp_pleft s = iterations \<and>
     (case pp_parent s of
        Wr w \<Rightarrow> 0 < pp_pleft s \<and> w < length D \<and> pp_cleft s = pp_pleft s \<and> pp_down s = [] \<and>
          (\<exists>r. pp_child s = Rd r \<and> r \<le> w \<and> take r (pp_cbuf s) = take r D \<and> pp_up s = seg r w D)
      | Rd q \<Rightarrow> 0 < pp_pleft s \<and> q < length D \<and>
          (case pp_child s of
             Rd r \<Rightarrow> (pp_cleft s = pp_pleft s \<and> q = 0 \<and> r < length D \<and> take r (pp_cbuf s) = take r D \<and> pp_up s = seg r (length D) D \<and> pp_down s = []) \<or>
                     (Suc (pp_cleft s) = pp_pleft s \<and> 0 < pp_cleft s \<and> r = 0 \<and> pp_up s = [] \<and> pp_down s = seg q (length D) D)
           | Wr w \<Rightarrow> pp_cleft s = pp_pleft s \<and> q \<le> w \<and> w < length D \<and> pp_cbuf s = D \<and> pp_up s = [] \<and> pp_down s = seg q w D
           | Finished \<Rightarrow> pp_pleft s = 1 \<and> pp_cleft s = 0 \<and> pp_up s = [] \<and> pp_down s = seg q (length D) D)
      | Finished \<Rightarrow> pp_child s = Finished \<and> pp_pleft s = 0 \<and> pp_cleft s = 0)"

lemma parent_write_inv:
  assumes "pp_inv D n s" and "parent_write cap (length D) k s = Some s'"
  shows "pp_inv D n s'"
proof -
  obtain w where w: "pp_parent s = Wr w" "0 < k" "w + k \<le> length D"
    and s': "s' = s\<lparr>pp_up := pp_up s @ take k (drop w (pp_pbuf s)), pp_parent := (if w + k = length D then Rd 0 else Wr (w + k))\<rparr>"
    using assms(2) by (auto simp: parent_write_def split: phase.splits if_splits)
  obtain r where r: "pp_child s = Rd r" "r \<le> w" "take r (pp_cbuf s) = take r D" "pp_up s = seg r w D"
    using assms(1) w(1) by (auto simp: pp_inv_def)
  have "take k (drop w (pp_pbuf s)) = seg w (w + k) D" using assms(1) by (simp add: seg_def pp_inv_def)
  then have "pp_up s @ take k (drop w (pp_pbuf s)) = seg r (w + k) D" using r w by (simp add: seg_append)
  then show ?thesis using assms(1) w r by (auto simp: pp_inv_def s')
qed

lemma child_read_inv:
  assumes "pp_inv D n s" and "child_read (length D) k s = Some s'"
  shows "pp_inv D n s'"
proof -
  obtain r where r: "pp_child s = Rd r" "0 < k" "r + k \<le> length D" "k \<le> length (pp_up s)"
    and s': "s' = s\<lparr>pp_cbuf := store_at r (take k (pp_up s)) (pp_cbuf s), pp_up := drop k (pp_up s), pp_child := (if r + k = length D then Wr 0 else Rd (r + k))\<rparr>"
    using assms(2) by (auto simp: child_read_def split: phase.splits if_splits)
  obtain e where e: "pp_up s = seg r e D" "r \<le> e" "e \<le> length D" "take r (pp_cbuf s) = take r D" "pp_cleft s = pp_pleft s" "0 < pp_pleft s" "pp_down s = []"
      "pp_parent s = Wr e \<and> e < length D \<or> pp_parent s = Rd 0 \<and> e = length D"
    using assms(1) r by (auto simp: pp_inv_def split: phase.splits)
  have b: "pp_pbuf s = D" "length (pp_cbuf s) = length D" "pp_samples s + pp_pleft s = n" using assms(1) by (simp_all add: pp_inv_def)
  have k: "r + k \<le> e" using r(2,4) e(1,2,3) by auto
  note st = store_at_seg [OF e(4) r(3) b(2)]
  have c: "take k (pp_up s) = seg r (r + k) D" "drop k (pp_up s) = seg (r + k) e D" using k by (simp_all add: e(1))
  show ?thesis
  proof (cases "r + k = length D")
    case True
    then have "e = length D" "pp_parent s = Rd 0" using k e(3,8) by auto
    moreover have "store_at r (seg r (r + k) D) (pp_cbuf s) = D" using st True by simp
    ultimately show ?thesis using True b e r by (auto simp: pp_inv_def s' c)
  next
    case False
    then show ?thesis using b e st k r by (auto simp: pp_inv_def s' c)
  qed
qed

lemma child_write_inv:
  assumes "pp_inv D n s" and "child_write cap (length D) k s = Some s'"
  shows "pp_inv D n s'"
proof -
  obtain w where w: "pp_child s = Wr w" "0 < k" "w + k \<le> length D"
    and s': "s' = (let s1 = s\<lparr>pp_down := pp_down s @ take k (drop w (pp_cbuf s))\<rparr> in
         if w + k < length D then s1\<lparr>pp_child := Wr (w + k)\<rparr>
         else s1\<lparr>pp_cleft := pp_cleft s - 1, pp_child := (if pp_cleft s = 1 then Finished else Rd 0)\<rparr>)"
    using assms(2) by (auto simp: child_write_def Let_def split: phase.splits if_splits)
  obtain q where q: "pp_parent s = Rd q" "q \<le> w" "q < length D" "pp_cbuf s = D" "pp_up s = []" "pp_down s = seg q w D" "pp_cleft s = pp_pleft s" "0 < pp_pleft s"
    using assms(1) w(1) by (auto simp: pp_inv_def split: phase.splits)
  have b: "pp_pbuf s = D" "pp_samples s + pp_pleft s = n" using assms(1) by (simp_all add: pp_inv_def)
  have "take k (drop w (pp_cbuf s)) = seg w (w + k) D" using q(4) by (simp add: seg_def)
  then have d: "pp_down s @ take k (drop w (pp_cbuf s)) = seg q (w + k) D" using q w by (simp add: seg_append)
  show ?thesis
  proof (cases "w + k < length D")
    case True
    then show ?thesis using b q d by (simp add: pp_inv_def s')
  next
    case False
    then have "w + k = length D" using w(3) by simp
    then show ?thesis using False b q d by (auto simp: pp_inv_def s' Let_def)
  qed
qed

lemma parent_read_inv:
  assumes "pp_inv D n s" and "parent_read (length D) k s = Some s'"
  shows "pp_inv D n s'"
proof -
  obtain q where q: "pp_parent s = Rd q" "0 < k" "q + k \<le> length D" "k \<le> length (pp_down s)"
    and s': "s' = (let s1 = s\<lparr>pp_pbuf := store_at q (take k (pp_down s)) (pp_pbuf s), pp_down := drop k (pp_down s)\<rparr> in
         if q + k < length D then s1\<lparr>pp_parent := Rd (q + k)\<rparr>
         else s1\<lparr>pp_samples := pp_samples s + 1, pp_pleft := pp_pleft s - 1, pp_parent := (if pp_pleft s = 1 then Finished else Wr 0)\<rparr>)"
    using assms(2) by (auto simp: parent_read_def Let_def split: phase.splits if_splits)
  have b: "pp_pbuf s = D" "length (pp_cbuf s) = length D" "pp_samples s + pp_pleft s = n" using assms(1) by (simp_all add: pp_inv_def)
  have "pp_down s \<noteq> []" using q by auto
  then obtain e where e: "pp_down s = seg q e D" "q \<le> e" "e \<le> length D" "pp_up s = []" "0 < pp_pleft s"
      "pp_child s = Wr e \<and> e < length D \<and> pp_cleft s = pp_pleft s \<and> pp_cbuf s = D \<or>
       e = length D \<and> Suc (pp_cleft s) = pp_pleft s \<and> (pp_child s = Rd 0 \<and> 0 < pp_cleft s \<or> pp_child s = Finished \<and> pp_cleft s = 0)"
    using assms(1) q(1) by (auto simp: pp_inv_def split: phase.splits)
  have k: "q + k \<le> e" using q(2,4) e(1,2,3) by auto
  have c: "take k (pp_down s) = seg q (q + k) D" "drop k (pp_down s) = seg (q + k) e D" using k by (simp_all add: e(1))
  have st: "store_at q (seg q (q + k) D) D = D" using q(3) by (simp add: store_at_def seg_def) (metis append_take_drop_id take_add append.assoc)
  show ?thesis
  proof (cases "q + k < length D")
    case True
    then show ?thesis using b e k by (auto simp: pp_inv_def s' c st)
  next
    case False
    then have f: "e = length D" "q + k = length D" using k e(3) q(3) by simp_all
    have "store_at q (seg q (length D) D) D = D" using st by (simp add: f(2))
    moreover have "0 < length D" using q(2,3) by linarith
    ultimately show ?thesis using f b e by (auto simp: pp_inv_def s' c Let_def)
  qed
qed

lemma pp_step_inv: "pp_step cap (length D) s s' \<Longrightarrow> pp_inv D n s \<Longrightarrow> pp_inv D n s'"
  by (cases rule: pp_step.cases) (auto intro: parent_write_inv parent_read_inv child_read_inv child_write_inv)

text \<open>The bytes that the four loops still have to transfer.\<close>

fun parent_todo :: "nat \<Rightarrow> phase \<Rightarrow> nat \<Rightarrow> nat" where
  "parent_todo m (Wr w) n = 2 * (m * n) - w"
| "parent_todo m (Rd r) n = 2 * (m * n) - m - r"
| "parent_todo m Finished n = 0"

fun child_todo :: "nat \<Rightarrow> phase \<Rightarrow> nat \<Rightarrow> nat" where
  "child_todo m (Rd r) n = 2 * (m * n) - r"
| "child_todo m (Wr w) n = 2 * (m * n) - m - w"
| "child_todo m Finished n = 0"

definition pp_todo :: "nat \<Rightarrow> pingpong \<Rightarrow> nat" where
  "pp_todo m s = parent_todo m (pp_parent s) (pp_pleft s) + child_todo m (pp_child s) (pp_cleft s)"

lemma first_leg: "0 < (n::nat) \<Longrightarrow> 0 < k \<Longrightarrow> w + k \<le> m \<Longrightarrow> t = (if w + k = m then 2 * (m * n) - m else 2 * (m * n) - (w + k)) \<Longrightarrow> t < 2 * (m * n) - w"
proof -
  assume a: "0 < n" "0 < k" "w + k \<le> m" "t = (if w + k = m then 2 * (m * n) - m else 2 * (m * n) - (w + k))"
  have "m \<le> m * n" using a(1) by simp
  then obtain A where "m * n = A" "m \<le> A" by blast
  then show ?thesis using a(2,3,4) by (auto split: if_splits)
qed

lemma second_leg:
  assumes "0 < (n::nat)" and "0 < k" and "r + k \<le> m"
    and "r + k < m \<Longrightarrow> t = 2 * (m * n) - m - (r + k)" and "r + k = m \<Longrightarrow> t \<le> 2 * (m * (n - 1))"
  shows "t < 2 * (m * n) - m - r"
proof -
  have "m \<le> m * n" using assms(1) by simp
  then obtain A where A: "m * n = A" "m \<le> A" by blast
  have "m * (n - 1) = A - m" using A(1) by (simp add: right_diff_distrib')
  then show ?thesis using assms(2-5) A by (cases "r + k < m") auto
qed

lemma pp_step_todo:
  assumes "pp_step cap m s s'" and "0 < pp_pleft s \<or> pp_parent s = Finished" and "0 < pp_cleft s \<or> pp_child s = Finished"
  shows "pp_todo m s' < pp_todo m s"
  using assms(1)
proof cases
  case (p_write k)
  then obtain w where w: "pp_parent s = Wr w" "0 < k" "w + k \<le> m" "pp_child s' = pp_child s" "pp_cleft s' = pp_cleft s"
    "pp_pleft s' = pp_pleft s" "pp_parent s' = (if w + k = m then Rd 0 else Wr (w + k))"
    by (auto simp: parent_write_def split: phase.splits if_splits)
  have "parent_todo m (pp_parent s') (pp_pleft s') < 2 * (m * pp_pleft s) - w"
    using assms(2) w(1,2,3,6,7) by (intro first_leg [where k = k]) auto
  then show ?thesis using w(1,4,5) by (simp add: pp_todo_def)
next
  case (p_read k)
  then obtain r where r: "pp_parent s = Rd r" "0 < k" "r + k \<le> m" "pp_child s' = pp_child s" "pp_cleft s' = pp_cleft s"
    "r + k < m \<Longrightarrow> pp_parent s' = Rd (r + k) \<and> pp_pleft s' = pp_pleft s"
    "r + k = m \<Longrightarrow> pp_parent s' \<in> {Finished, Wr 0} \<and> pp_pleft s' = pp_pleft s - 1"
    by (auto simp: parent_read_def Let_def split: phase.splits if_splits)
  have "parent_todo m (pp_parent s') (pp_pleft s') < 2 * (m * pp_pleft s) - m - r"
    using assms(2) r(1,2,3,6,7) by (intro second_leg [where k = k]) auto
  then show ?thesis using r(1,4,5) by (simp add: pp_todo_def)
next
  case (c_read k)
  then obtain r where r: "pp_child s = Rd r" "0 < k" "r + k \<le> m" "pp_parent s' = pp_parent s" "pp_pleft s' = pp_pleft s"
    "pp_cleft s' = pp_cleft s" "pp_child s' = (if r + k = m then Wr 0 else Rd (r + k))"
    by (auto simp: child_read_def split: phase.splits if_splits)
  have "child_todo m (pp_child s') (pp_cleft s') < 2 * (m * pp_cleft s) - r"
    using assms(3) r(1,2,3,6,7) by (intro first_leg [where k = k]) auto
  then show ?thesis using r(1,4,5) by (simp add: pp_todo_def)
next
  case (c_write k)
  then obtain w where w: "pp_child s = Wr w" "0 < k" "w + k \<le> m" "pp_parent s' = pp_parent s" "pp_pleft s' = pp_pleft s"
    "w + k < m \<Longrightarrow> pp_child s' = Wr (w + k) \<and> pp_cleft s' = pp_cleft s"
    "w + k = m \<Longrightarrow> pp_child s' \<in> {Finished, Rd 0} \<and> pp_cleft s' = pp_cleft s - 1"
    by (auto simp: child_write_def Let_def split: phase.splits if_splits)
  have "child_todo m (pp_child s') (pp_cleft s') < 2 * (m * pp_cleft s) - m - w"
    using assms(3) w(1,2,3,6,7) by (intro second_leg [where k = k]) auto
  then show ?thesis using w(1,4,5) by (simp add: pp_todo_def)
qed

lemma pp_inv_left: "pp_inv D n s \<Longrightarrow> (0 < pp_pleft s \<or> pp_parent s = Finished) \<and> (0 < pp_cleft s \<or> pp_child s = Finished)"
  by (auto simp: pp_inv_def split: phase.splits)

lemma pp_progress:
  assumes "pp_inv D n s" and "0 < cap"
  shows "(pp_parent s = Finished \<and> pp_child s = Finished) \<or> (\<exists>s'. pp_step cap (length D) s s')"
proof (cases "pp_parent s")
  case (Wr w)
  then obtain r where r: "w < length D" "pp_child s = Rd r" "r \<le> w" "pp_up s = seg r w D" using assms(1) by (auto simp: pp_inv_def)
  show ?thesis
  proof (cases "length (pp_up s) < cap")
    case True
    then have "parent_write cap (length D) 1 s \<noteq> None" using Wr r by (simp add: parent_write_def)
    then show ?thesis using p_write by blast
  next
    case False
    then have "child_read (length D) 1 s \<noteq> None" using r assms(2) by (simp add: child_read_def)
    then show ?thesis using c_read by blast
  qed
next
  case (Rd q)
  show ?thesis
  proof (cases "pp_down s = []")
    case False
    then have "parent_read (length D) 1 s \<noteq> None" using Rd assms(1) by (cases "pp_down s") (auto simp: parent_read_def pp_inv_def Let_def)
    then show ?thesis using p_read by blast
  next
    case True
    show ?thesis
    proof (cases "pp_child s")
      case (Rd r)
      then have "r < length D" "pp_up s = seg r (length D) D" using True \<open>pp_parent s = Rd q\<close> assms(1) by (auto simp: pp_inv_def seg_def)
      then have "child_read (length D) 1 s \<noteq> None" using Rd by (simp add: child_read_def)
      then show ?thesis using c_read by blast
    next
      case (Wr w)
      then have "w < length D" using \<open>pp_parent s = Rd q\<close> assms(1) by (simp add: pp_inv_def)
      then have "child_write cap (length D) 1 s \<noteq> None" using Wr True assms(2) by (simp add: child_write_def Let_def)
      then show ?thesis using c_write by blast
    next
      case Finished
      then have "q < length D" "pp_down s = seg q (length D) D" using \<open>pp_parent s = Rd q\<close> assms(1) by (auto simp: pp_inv_def)
      then show ?thesis using True by (metis seg_simps(1) le_refl length_greater_0_conv zero_less_diff)
    qed
  qed
next
  case Finished
  then show ?thesis using assms(1) by (simp add: pp_inv_def)
qed

lemma pp_init_inv: "length cbuf = m \<Longrightarrow> 0 < m \<Longrightarrow> pp_inv (generate_test_data m) n (pp_init m n cbuf)"
  by (simp add: pp_inv_def pp_init_def generate_test_data_def)

text \<open>
  C32. The stream benchmarks end for every schedule: over channels of any capacity, whatever each system call
  transfers and whoever runs, parent and child together make at most four steps per byte and iteration, they are
  never both blocked before they are finished, the parent's buffer is the test message all the time, so
  every echo is exact, and when they are finished one latency per iteration was recorded.
\<close>

theorem pingpong_completes:
  assumes "0 < cap" and "0 < m" and "length cbuf = m" and "(pp_step cap m ^^ steps) (pp_init m iterations cbuf) s"
  shows "steps \<le> 4 * m * iterations \<and> pp_pbuf s = generate_test_data m \<and>
    ((\<exists>s'. pp_step cap m s s') \<or> (pp_parent s = Finished \<and> pp_child s = Finished \<and> pp_samples s = iterations))"
proof -
  have len: "length (generate_test_data m) = m" by (simp add: generate_test_data_def)
  have "pp_inv (generate_test_data m) iterations s \<and> steps + pp_todo m s \<le> pp_todo m (pp_init m iterations cbuf)"
    using assms(4)
  proof (induction steps arbitrary: s)
    case 0
    then show ?case using pp_init_inv [OF assms(3,2)] by auto
  next
    case (Suc k)
    then obtain t where t: "(pp_step cap m ^^ k) (pp_init m iterations cbuf) t" "pp_step cap m t s" by (auto elim: relpowp_Suc_E)
    from Suc.IH [OF t(1)] have i: "pp_inv (generate_test_data m) iterations t" "k + pp_todo m t \<le> pp_todo m (pp_init m iterations cbuf)" by blast+
    show ?case using pp_step_inv [OF _ i(1)] t(2) pp_step_todo [OF t(2)] pp_inv_left [OF i(1)] i(2) len by auto
  qed
  moreover have "pp_todo m (pp_init m iterations cbuf) \<le> 4 * m * iterations" by (simp add: pp_todo_def pp_init_def)
  ultimately have i: "pp_inv (generate_test_data m) iterations s" "steps \<le> 4 * m * iterations" by simp_all
  have "pp_parent s = Finished \<Longrightarrow> pp_samples s = iterations" using i(1) by (simp add: pp_inv_def)
  then show ?thesis using i pp_progress [OF i(1) assms(1)] len by (auto simp: pp_inv_def)
qed

theorem pingpong_completes_witness:
  "\<exists>s. (pp_step 1 2 ^^ 1) (pp_init 2 3 ''ab'') s \<and> pp_up s = [char_of (0::nat)] \<and> pp_pbuf s = generate_test_data 2 \<and> (\<exists>s'. pp_step 1 2 s s')"
proof -
  let ?i = "pp_init 2 3 ''ab''"
  obtain s where s: "parent_write 1 2 1 ?i = Some s" by (simp add: parent_write_def pp_init_def)
  then have st: "(pp_step 1 2 ^^ 1) ?i s" unfolding relpowp_1 by (rule p_write)
  have "pp_up s = [char_of (0::nat)]" "pp_parent s = Wr 1" using s
    by (auto simp: parent_write_def pp_init_def generate_test_data_def upt_rec)
  then show ?thesis using pingpong_completes [OF _ _ _ st] st by auto
qed

subsection \<open>The handshake over shared memory\<close>

text \<open>
  The two flags of the region, with the place of either process in its loop: the next store or the flag it spins
  on. Every access is followed by a full barrier, so the accesses of the two processes interleave; a read of the flag
  that finds it clear leaves the process where it is.
\<close>

datatype shm_parent = PReady | PSpin | PClear | PEnd
datatype shm_child = CSpin | CDone | CReset | CEnd

record shm_state =
  sh_ready :: bool
  sh_done :: bool
  sh_parent :: shm_parent
  sh_child :: shm_child
  sh_pleft :: nat
  sh_cleft :: nat
  sh_samples :: nat

definition shm_init :: "nat \<Rightarrow> shm_state" where
  "shm_init iterations = \<lparr>sh_ready = False, sh_done = False, sh_parent = (if iterations = 0 then PEnd else PReady),
     sh_child = (if iterations = 0 then CEnd else CSpin), sh_pleft = iterations, sh_cleft = iterations, sh_samples = 0\<rparr>"

definition shm_parent_step :: "shm_state \<Rightarrow> shm_state" where
  "shm_parent_step s = (case sh_parent s of
     PReady \<Rightarrow> s\<lparr>sh_ready := True, sh_parent := PSpin\<rparr>
   | PSpin \<Rightarrow> if sh_done s then s\<lparr>sh_parent := PClear\<rparr> else s
   | PClear \<Rightarrow> s\<lparr>sh_done := False, sh_samples := sh_samples s + 1, sh_pleft := sh_pleft s - 1,
                 sh_parent := (if sh_pleft s = 1 then PEnd else PReady)\<rparr>
   | PEnd \<Rightarrow> s)"

definition shm_child_step :: "shm_state \<Rightarrow> shm_state" where
  "shm_child_step s = (case sh_child s of
     CSpin \<Rightarrow> if sh_ready s then s\<lparr>sh_child := CDone\<rparr> else s
   | CDone \<Rightarrow> s\<lparr>sh_done := True, sh_child := CReset\<rparr>
   | CReset \<Rightarrow> s\<lparr>sh_ready := False, sh_cleft := sh_cleft s - 1, sh_child := (if sh_cleft s = 1 then CEnd else CSpin)\<rparr>
   | CEnd \<Rightarrow> s)"

text \<open>A schedule says who makes the next access; \<open>True\<close> is the parent.\<close>

definition shm_run :: "bool list \<Rightarrow> shm_state \<Rightarrow> shm_state" where
  "shm_run sched s = fold (\<lambda>p. if p then shm_parent_step else shm_child_step) sched s"

text \<open>With the child's reset before the parent's clear an iteration leaves the flags as it found them.\<close>

lemma shm_iteration:
  assumes "\<not> sh_ready s" "\<not> sh_done s" "sh_parent s = PReady" "sh_child s = CSpin" "sh_pleft s = Suc (Suc n)" "sh_cleft s = Suc (Suc n)"
  shows "shm_run [True, False, False, False, True, True] s = s\<lparr>sh_pleft := Suc n, sh_cleft := Suc n, sh_samples := sh_samples s + 1\<rparr>"
  using assms by (cases s) (simp add: shm_run_def shm_parent_step_def shm_child_step_def)

lemma shm_stuck:
  assumes "\<not> sh_ready s" "\<not> sh_done s" "sh_parent s = PSpin" "sh_child s = CSpin"
  shows "shm_run sched s = s"
  using assms by (induction sched) (simp_all add: shm_run_def shm_parent_step_def shm_child_step_def)

text \<open>
  C34. The busy-wait benchmark can hang: with two or more iterations there is a schedule in which the child's late
  \<open>ready = 0\<close> of an iteration erases the parent's \<open>ready = 1\<close> of the next one. Then both processes spin for ever,
  whatever is scheduled next, with one of the latencies measured.
\<close>

theorem shm_busy_wait_hangs:
  assumes "2 \<le> iterations"
  shows "\<exists>sched. let s = shm_run sched (shm_init iterations) in
    sh_parent s = PSpin \<and> sh_child s = CSpin \<and> sh_samples s = 1 \<and> (\<forall>more_steps. shm_run more_steps s = s)"
proof -
  let ?sched = "[True, False, False, True, True, True, False]"
  obtain n where n: "iterations = Suc (Suc n)" using assms by (metis add_2_eq_Suc le_Suc_ex)
  have s: "shm_run ?sched (shm_init iterations) = \<lparr>sh_ready = False, sh_done = False, sh_parent = PSpin, sh_child = CSpin,
      sh_pleft = Suc n, sh_cleft = Suc n, sh_samples = 1\<rparr>"
    by (simp add: n shm_run_def shm_init_def shm_parent_step_def shm_child_step_def)
  show ?thesis unfolding Let_def by (rule exI [of _ ?sched]) (simp add: s shm_stuck)
qed

theorem shm_busy_wait_hangs_witness:
  "\<exists>sched. let s = shm_run sched (shm_init 10000) in
    sh_parent s = PSpin \<and> sh_child s = CSpin \<and> sh_samples s = 1 \<and> (\<forall>more_steps. shm_run more_steps s = s)"
  by (rule shm_busy_wait_hangs) simp

text \<open>The same with two semaphores (\<open>bench_shm_semaphore\<close>): \<open>None\<close> is a \<open>sem_wait\<close> that blocks.\<close>

datatype sem_pc = Post | Wait | Exit

record sem_state =
  se_prod :: nat
  se_cons :: nat
  se_parent :: sem_pc
  se_child :: sem_pc
  se_pleft :: nat
  se_cleft :: nat
  se_samples :: nat

definition sem_init :: "nat \<Rightarrow> sem_state" where
  "sem_init iterations = \<lparr>se_prod = 0, se_cons = 0, se_parent = (if iterations = 0 then Exit else Post),
     se_child = (if iterations = 0 then Exit else Wait), se_pleft = iterations, se_cleft = iterations, se_samples = 0\<rparr>"

definition sem_parent_step :: "sem_state \<Rightarrow> sem_state option" where
  "sem_parent_step s = (case se_parent s of
     Post \<Rightarrow> Some (s\<lparr>se_prod := se_prod s + 1, se_parent := Wait\<rparr>)
   | Wait \<Rightarrow> if se_cons s = 0 then None
       else Some (s\<lparr>se_cons := se_cons s - 1, se_samples := se_samples s + 1, se_pleft := se_pleft s - 1,
                    se_parent := (if se_pleft s = 1 then Exit else Post)\<rparr>)
   | Exit \<Rightarrow> None)"

definition sem_child_step :: "sem_state \<Rightarrow> sem_state option" where
  "sem_child_step s = (case se_child s of
     Wait \<Rightarrow> if se_prod s = 0 then None else Some (s\<lparr>se_prod := se_prod s - 1, se_child := Post\<rparr>)
   | Post \<Rightarrow> Some (s\<lparr>se_cons := se_cons s + 1, se_cleft := se_cleft s - 1, se_child := (if se_cleft s = 1 then Exit else Wait)\<rparr>)
   | Exit \<Rightarrow> None)"

abbreviation sem_step :: "sem_state \<Rightarrow> sem_state \<Rightarrow> bool" where
  "sem_step \<equiv> either_step sem_parent_step sem_child_step"

text \<open>The states of the handshake, each with the number of calls made in it.\<close>

definition sem_inv :: "nat \<Rightarrow> nat \<Rightarrow> sem_state \<Rightarrow> bool" where
  "sem_inv iterations calls s \<longleftrightarrow> se_samples s + se_pleft s = iterations \<and>
     (case se_parent s of
        Post \<Rightarrow> 0 < se_pleft s \<and> se_child s = Wait \<and> se_cleft s = se_pleft s \<and> se_prod s = 0 \<and> se_cons s = 0 \<and> calls = 4 * se_samples s
      | Wait \<Rightarrow> 0 < se_pleft s \<and>
          (se_child s = Wait \<and> se_cleft s = se_pleft s \<and> se_prod s = 1 \<and> se_cons s = 0 \<and> calls = 4 * se_samples s + 1 \<or>
           se_child s = Post \<and> se_cleft s = se_pleft s \<and> se_prod s = 0 \<and> se_cons s = 0 \<and> calls = 4 * se_samples s + 2 \<or>
           se_child s = (if se_cleft s = 0 then Exit else Wait) \<and> Suc (se_cleft s) = se_pleft s \<and> se_prod s = 0 \<and> se_cons s = 1 \<and> calls = 4 * se_samples s + 3)
      | Exit \<Rightarrow> se_child s = Exit \<and> se_pleft s = 0 \<and> calls = 4 * se_samples s)"

lemma sem_progress:
  assumes "sem_inv n c s" and "sem_parent_step s = None" and "sem_child_step s = None"
  shows "se_parent s = Exit \<and> se_child s = Exit"
  using assms by (cases "se_parent s"; cases "se_child s") (auto simp: sem_inv_def sem_parent_step_def sem_child_step_def split: if_splits)

lemma sem_inv_calls: "sem_inv n c s \<Longrightarrow> c \<le> 4 * n \<and> (se_parent s = Exit \<longrightarrow> se_samples s = n \<and> c = 4 * n)"
  by (cases "se_parent s") (auto simp: sem_inv_def)

lemma sem_parent_inv: "sem_inv n c s \<Longrightarrow> sem_parent_step s = Some s' \<Longrightarrow> sem_inv n (Suc c) s'"
  by (cases "se_parent s"; cases "se_child s") (auto simp: sem_inv_def sem_parent_step_def split: if_splits)

lemma sem_child_inv: "sem_inv n c s \<Longrightarrow> sem_child_step s = Some s' \<Longrightarrow> sem_inv n (Suc c) s'"
  by (cases "se_parent s"; cases "se_child s") (auto simp: sem_inv_def sem_child_step_def split: if_splits)

lemma sem_init_inv: "sem_inv n 0 (sem_init n)"
  by (auto simp: sem_inv_def sem_init_def)

interpretation sem: two_process "\<lambda>_. True" sem_init "\<lambda>_. sem_parent_step" "\<lambda>_. sem_child_step" sem_inv
  "\<lambda>n s. se_parent s = Exit \<and> se_child s = Exit \<and> se_samples s = n" "\<lambda>n. 4 * n"
proof (unfold_locales, goal_cases)
  case (1 n)
  show ?case by (rule sem_init_inv)
next
  case (2 n c s s')
  then show ?case by (blast intro: sem_parent_inv)
next
  case (3 n c s s')
  then show ?case by (blast intro: sem_child_inv)
next
  case (4 n c s)
  then show ?case using sem_inv_calls by blast
next
  case (5 n c s)
  then show ?case using sem_progress sem_inv_calls by metis
qed

text \<open>
  The semaphore benchmark always completes: after any number of calls, in any order the scheduler chooses, either
  some process can go on or both have left their loops with exactly four calls and one latency per iteration,
  and no run makes more calls than that.
\<close>

lemma semaphores_complete:
  assumes "(sem_step ^^ calls) (sem_init iterations) s"
  shows "calls \<le> 4 * iterations \<and>
    ((\<exists>s'. sem_step s s') \<or> se_parent s = Exit \<and> se_child s = Exit \<and> se_samples s = iterations \<and> calls = 4 * iterations)"
  using sem.run_progress [OF TrueI assms] by blast

theorem semaphores_complete_witness:
  "\<exists>s. (sem_step ^^ 1) (sem_init 2) s \<and> se_prod s = 1 \<and> (\<exists>s'. sem_step s s')"
proof -
  obtain s where s: "sem_parent_step (sem_init 2) = Some s" by (simp add: sem_parent_step_def sem_init_def)
  then have st: "(sem_step ^^ 1) (sem_init 2) s" unfolding relpowp_1 by (rule either_left)
  have "se_prod s = 1" using s by (auto simp: sem_parent_step_def sem_init_def)
  then show ?thesis using st semaphores_complete [OF st] by auto
qed

end
