(* ===== verification/Bench_Main.thy ===== *)
theory Bench_Main
  imports Bench Resources Float_Text
begin

text \<open>
  The benchmarks around their loops: what the parent process of each benchmark acquires and gives back on every path
  (\<open>bench_pipe.c\<close>, \<open>bench_fifo.c\<close>, \<open>bench_mqueue.c\<close>, \<open>bench_shm.c\<close>, \<open>bench_unix.c\<close>, \<open>bench_tcp.c\<close>), and the program that
  selects and reports them (\<open>main.c\<close>).
\<close>

subsection \<open>Acquiring and releasing\<close>

text \<open>
  A benchmark is a sequence of steps: \<open>Try rs fs\<close> is a call that acquires \<open>rs\<close> or fails, after which the function
  releases \<open>fs\<close> and returns -1; \<open>TryBoth\<close> is two calls whose results are tested together, after a failure of which
  \<open>fs\<close> and, of a call that succeeded, \<open>us\<close> or \<open>vs\<close> are released; \<open>Do\<close> is what always happens. The last argument
  of a path is the outcome of the calls. Removing a name that does not exist has no effect and is left out.
\<close>

datatype bench_res = PipeP2CRead | PipeP2CWrite | PipeC2PRead | PipeC2PWrite | Child | Buf | FifoP2C | FifoC2P | FifoWrite | FifoRead
  | NameP2C | NameC2P | QueueSend | QueueRecv | QueueParent | ShmName | ShmFd | Mapping | SemProd | SemCons | SemProdName | SemConsName
  | ServerFd | SockPath | ConnFd | ChildRecvQ | ChildSendQ | ClientFd | ClientPath

datatype bench_step = Try "bench_res list" "bench_res list" | Do "bench_res list"
  | TryBoth "bench_res list" "bench_res list" "bench_res list" "bench_res list" "bench_res list"

fun bench_path :: "bench_step list \<Rightarrow> bool list \<Rightarrow> int \<times> bench_res res_event list" where
  "bench_path [] oks = (0, [])"
| "bench_path (Do rs # st) oks = (case bench_path st oks of (rc, tr) \<Rightarrow> (rc, map Release rs @ tr))"
| "bench_path (Try rs fs # st) [] = (case bench_path st [] of (rc, tr) \<Rightarrow> (rc, map Acquire rs @ tr))"
| "bench_path (Try rs fs # st) (ok # oks) =
     (if \<not> ok then (-1, map Release fs)
      else case bench_path st oks of (rc, tr) \<Rightarrow> (rc, map Acquire rs @ tr))"
| "bench_path (TryBoth rs us ss vs fs # st) oks =
     (case oks of
        a # b # oks' \<Rightarrow>
          if a \<and> b then (case bench_path st oks' of (rc, tr) \<Rightarrow> (rc, map Acquire (rs @ ss) @ tr))
          else (-1, map Acquire ((if a then rs else []) @ (if b then ss else [])) @
                    map Release (fs @ (if a then us else []) @ (if b then vs else [])))
      | _ \<Rightarrow> (case bench_path st [] of (rc, tr) \<Rightarrow> (rc, map Acquire (rs @ ss) @ tr)))"

text \<open>Pipes; the fifth call stands for the loop of the messages.\<close>

definition pipe_setup :: "bench_step list" where
  "pipe_setup =
     [Try [PipeP2CRead, PipeP2CWrite] [],
      Try [PipeC2PRead, PipeC2PWrite] [PipeP2CRead, PipeP2CWrite],
      Try [Child] [PipeP2CRead, PipeP2CWrite, PipeC2PRead, PipeC2PWrite]]"

definition pipe_parent :: "bench_step list" where
  "pipe_parent =
     [Do [PipeP2CRead, PipeC2PWrite],
      Try [Buf] [],
      Try [] [Buf],
      Do [Buf, PipeP2CWrite, PipeC2PRead, Child]]"

definition pipe_steps :: "bench_step list" where
  "pipe_steps = pipe_setup @ pipe_parent"

definition fifo_setup :: "bench_step list" where
  "fifo_setup =
     [Try [FifoP2C] [],
      Try [FifoC2P] [FifoP2C],
      Try [Child] [FifoP2C, FifoC2P]]"

definition fifo_parent :: "bench_step list" where
  "fifo_parent =
     [Try [FifoWrite] [FifoP2C, FifoC2P],
      Try [FifoRead] [FifoWrite, FifoP2C, FifoC2P],
      Try [Buf] [FifoWrite, FifoRead],
      Try [] [Buf],
      Do [Buf, FifoWrite, FifoRead, Child, FifoP2C, FifoC2P]]"

definition fifo_steps :: "bench_step list" where
  "fifo_steps = fifo_setup @ fifo_parent"

definition mqueue_setup :: "bench_step list" where
  "mqueue_setup =
     [Try [NameP2C, QueueSend] [],
      Try [NameC2P, QueueRecv] [QueueSend, NameP2C],
      Try [Child] [QueueSend, QueueRecv, NameP2C, NameC2P]]"

definition mqueue_parent :: "bench_step list" where
  "mqueue_parent =
     [Do [QueueRecv],
      Try [QueueParent] [],
      Try [Buf] [],
      Try [] [Buf],
      Do [Buf, QueueSend, QueueParent, Child, NameP2C, NameC2P]]"

definition mqueue_steps :: "bench_step list" where
  "mqueue_steps = mqueue_setup @ mqueue_parent"

text \<open>The loop of the busy wait has no failing call; whether it ends is the matter of \<open>shm_busy_wait_hangs\<close>.\<close>

definition shm_setup :: "bench_step list" where
  "shm_setup =
     [Try [ShmName, ShmFd] [],
      Try [] [ShmFd, ShmName],
      Try [Mapping] [ShmFd, ShmName],
      Try [Child] [Mapping, ShmFd, ShmName]]"

definition shm_parent :: "bench_step list" where
  "shm_parent =
     [Try [Buf] [],
      Do [Buf, Child, Mapping, ShmFd, ShmName]]"

definition shm_steps :: "bench_step list" where
  "shm_steps = shm_setup @ shm_parent"

definition shm_semaphore_setup :: "bench_step list" where
  "shm_semaphore_setup =
     [Try [ShmName, ShmFd] [],
      Try [] [ShmFd, ShmName],
      Try [Mapping] [ShmFd, ShmName],
      TryBoth [SemProdName, SemProd] [SemProdName] [SemConsName, SemCons] [SemConsName] [Mapping, ShmFd, ShmName],
      Try [Child] [Mapping, ShmFd, ShmName, SemProdName, SemConsName]]"

definition shm_semaphore_parent :: "bench_step list" where
  "shm_semaphore_parent =
     [Try [Buf] [],
      Do [Buf, Child, SemProd, SemCons, SemProdName, SemConsName, Mapping, ShmFd, ShmName]]"

definition shm_semaphore_steps :: "bench_step list" where
  "shm_semaphore_steps = shm_semaphore_setup @ shm_semaphore_parent"

definition unix_stream_setup :: "bench_step list" where
  "unix_stream_setup =
     [Try [ServerFd] [],
      Try [SockPath] [ServerFd],
      Try [] [ServerFd, SockPath],
      Try [Child] [ServerFd, SockPath]]"

definition unix_stream_parent :: "bench_step list" where
  "unix_stream_parent =
     [Try [ConnFd] [ServerFd, SockPath],
      Try [Buf] [ConnFd],
      Try [] [Buf],
      Do [Buf, ConnFd, ServerFd, Child, SockPath]]"

definition unix_stream_steps :: "bench_step list" where
  "unix_stream_steps = unix_stream_setup @ unix_stream_parent"

definition unix_dgram_setup :: "bench_step list" where
  "unix_dgram_setup =
     [Try [ServerFd] [],
      Try [SockPath] [ServerFd],
      Try [Child] [ServerFd, SockPath]]"

definition unix_dgram_parent :: "bench_step list" where
  "unix_dgram_parent =
     [Try [Buf] [],
      Try [] [Buf],
      Do [Buf, ServerFd, Child, SockPath]]"

definition unix_dgram_steps :: "bench_step list" where
  "unix_dgram_steps = unix_dgram_setup @ unix_dgram_parent"

definition tcp_setup :: "bench_step list" where
  "tcp_setup =
     [Try [ServerFd] [],
      Try [] [ServerFd],
      Try [] [ServerFd],
      Try [Child] [ServerFd]]"

definition tcp_parent :: "bench_step list" where
  "tcp_parent =
     [Try [ConnFd] [ServerFd],
      Try [Buf] [ConnFd],
      Try [] [Buf],
      Do [Buf, ConnFd, ServerFd, Child]]"

definition tcp_steps :: "bench_step list" where
  "tcp_steps = tcp_setup @ tcp_parent"

lemmas bench_steps = pipe_steps_def pipe_setup_def pipe_parent_def fifo_steps_def fifo_setup_def fifo_parent_def
  mqueue_steps_def mqueue_setup_def mqueue_parent_def shm_steps_def shm_setup_def shm_parent_def
  shm_semaphore_steps_def shm_semaphore_setup_def shm_semaphore_parent_def unix_stream_steps_def unix_stream_setup_def unix_stream_parent_def
  unix_dgram_steps_def unix_dgram_setup_def unix_dgram_parent_def tcp_steps_def tcp_setup_def tcp_parent_def

text \<open>What a path leaves behind; every release must be of something held.\<close>

fun path_left :: "bench_step list \<Rightarrow> bool list \<Rightarrow> bench_res list \<Rightarrow> bench_res list option" where
  "path_left st oks hs = run_trace hs (snd (bench_path st oks))"

text \<open>When every call succeeds, all eight benchmarks give back everything, the child included.\<close>

lemma benchmarks_balanced:
  assumes "st \<in> {pipe_steps, fifo_steps, mqueue_steps, shm_steps, shm_semaphore_steps, unix_stream_steps, unix_dgram_steps, tcp_steps}"
  shows "path_left st [] [] = Some []"
  using assms by (elim insertE emptyE) (simp_all add: bench_steps split: prod.splits)

text \<open>
  Set-up that fails before the fork, or the fork itself, leaves nothing, except that the shared-memory benchmark
  with semaphores does not close the semaphores it has opened.
\<close>

lemma failed_setup_balanced:
  "i < 3 \<Longrightarrow> st \<in> {pipe_steps, fifo_steps, mqueue_steps, shm_steps, unix_stream_steps, unix_dgram_steps, tcp_steps} \<Longrightarrow>
     path_left st (replicate i True @ [False]) [] = Some []"
  by (auto simp: less_Suc_eq numeral_3_eq_3 bench_steps split: prod.splits)

lemma semaphores_not_closed:
  "path_left shm_semaphore_steps [True, True, True, True, False] [] = Some [SemProd]"
  "path_left shm_semaphore_steps [True, True, True, True, True, False] [] = Some [SemCons, SemProd]"
  by (simp_all add: bench_steps split: prod.splits)

text \<open>An error in the loop returns at once: descriptors, names and the child stay behind.\<close>

lemma failed_loop_leaks:
  "path_left pipe_steps [True, True, True, True, False] [] = Some [Child, PipeC2PRead, PipeP2CWrite]"
  "path_left fifo_steps [True, True, True, True, True, True, False] [] = Some [FifoRead, FifoWrite, Child, FifoC2P, FifoP2C]"
  "path_left mqueue_steps [True, True, True, True, True, False] [] = Some [QueueParent, Child, NameC2P, QueueSend, NameP2C]"
  "path_left tcp_steps [True, True, True, True, True, True, False] [] = Some [ConnFd, Child, ServerFd]"
  by (simp_all add: bench_steps split: prod.splits)

subsection \<open>The program\<close>

definition BENCH_MSG_SIZE :: int where "BENCH_MSG_SIZE = 4096"
definition BENCH_ITERATIONS :: int where "BENCH_ITERATIONS = 10000"
definition BENCH_WARMUP :: int where "BENCH_WARMUP = 1000"

definition tests :: "(string \<times> string) list" where
  "tests =
     [(''pipe'', ''Pipe (parent-child)''), (''fifo'', ''FIFO (named pipe)''), (''mqueue'', ''POSIX Message Queue''),
      (''shm'', ''Shared Memory (busy wait)''), (''shm-sem'', ''Shared Memory + Semaphore''),
      (''unix-stream'', ''Unix Domain Socket (stream)''), (''unix-dgram'', ''Unix Domain Socket (dgram)''), (''tcp'', ''TCP Loopback'')]"

abbreviation fmt2 :: "rat \<Rightarrow> string" where
  "fmt2 v \<equiv> fmt_fixed 2 v"

definition bench_print_header :: string where
  "bench_print_header =
     pad_right 16 ''Test'' @ concat (map (\<lambda>s. '' '' @ pad_left 12 (CHR '' '') s) [''Avg(us)'', ''Min(us)'', ''Max(us)'', ''P50(us)'', ''P99(us)'']) @ [LF] @
     pad_right 16 ''----------------'' @ concat (replicate 5 ('' '' @ pad_left 12 (CHR '' '') ''------------'')) @ [LF]"

definition bench_print_result :: "string \<Rightarrow> bench_result \<Rightarrow> string" where
  "bench_print_result name r =
     pad_right 16 name @ concat (map (\<lambda>v. '' '' @ pad_left 12 (CHR '' '') (fmt2 v)) [br_latency_us r, br_min_us r, br_max_us r, br_p50_us r, br_p99_us r]) @ [LF]"

definition json_field :: "string \<Rightarrow> rat \<Rightarrow> string" where
  "json_field k v = [CHR 0x22] @ k @ [CHR 0x22] @ '':'' @ fmt2 v"

definition json_result :: "string \<Rightarrow> bench_result \<Rightarrow> string" where
  "json_result name r =
     ''  {'' @ [CHR 0x22] @ ''name'' @ [CHR 0x22] @ '':'' @ [CHR 0x22] @ name @ [CHR 0x22] @ '','' @ json_field ''latency_us'' (br_latency_us r) @ '','' @
     json_field ''throughput_mbps'' (br_throughput_mbps r) @ '','' @ json_field ''min_us'' (br_min_us r) @ '','' @ json_field ''max_us'' (br_max_us r) @ '','' @
     json_field ''p50_us'' (br_p50_us r) @ '','' @ json_field ''p99_us'' (br_p99_us r) @ ''}''"

definition zero_result :: bench_result where
  "zero_result = \<lparr>br_latency_us = 0, br_throughput_mbps = 0, br_min_us = 0, br_max_us = 0, br_p50_us = 0, br_p99_us = 0, br_iterations = 0, br_msg_size = 0\<rparr>"

text \<open>
  A benchmark is a function from its name and the number of iterations to the latencies it measures before it
  returns; its return value is not looked at. The warm-up run before it, of \<open>BENCH_WARMUP\<close> iterations without a
  collector, leaves no trace in the output. \<open>alloc\<close> says whether the collector of a test can be made.
\<close>

definition run_test :: "(string \<Rightarrow> int \<Rightarrow> rat list) \<Rightarrow> (string \<Rightarrow> bool) \<Rightarrow> int \<Rightarrow> int \<Rightarrow> bool \<Rightarrow> string \<Rightarrow> string" where
  "run_test run alloc msg_size iterations json name =
     (case collector_new (alloc name) (alloc name) iterations of
        None \<Rightarrow> []
      | Some c \<Rightarrow>
          let c1 = fold collector_record (run name iterations) c;
              r = collector_compute_stats c1 (zero_result\<lparr>br_msg_size := msg_size\<rparr>)
          in if json then json_result name r else bench_print_result name r)"

definition bench_usage :: "string \<Rightarrow> string" where
  "bench_usage prog =
     ''Usage: '' @ prog @ '' [options] [test...]'' @ [LF] @ [LF] @ ''IPC Performance Benchmark Tool'' @ [LF, LF] @ ''Options:'' @ [LF] @
     ''  -s, --size <bytes>    Message size (default: '' @ dec_int BENCH_MSG_SIZE @ '')'' @ [LF] @
     ''  -n, --count <num>     Iterations (default: '' @ dec_int BENCH_ITERATIONS @ '')'' @ [LF] @
     ''  -a, --all             Run all tests'' @ [LF] @ ''  -l, --list            List available tests'' @ [LF] @
     ''  -j, --json            Output JSON format'' @ [LF] @ ''  -h, --help            Show this help'' @ [LF] @
     [LF] @ ''Available tests:'' @ [LF] @ concat (map (\<lambda>(n, d). ''  '' @ pad_right 16 n @ '' '' @ d @ [LF]) tests)"

datatype bench_opt = OptSize string | OptCount string | OptAll | OptList | OptJson | OptBenchHelp | OptBenchUnknown

record bench_args =
  ba_size :: int
  ba_count :: int
  ba_all :: bool
  ba_json :: bool

fun bench_opts :: "string \<Rightarrow> bench_opt list \<Rightarrow> bench_args \<Rightarrow> (int \<times> string) + bench_args" where
  "bench_opts prog [] a = Inr a"
| "bench_opts prog (OptSize s # os) a = bench_opts prog os (a\<lparr>ba_size := atoi s\<rparr>)"
| "bench_opts prog (OptCount s # os) a = bench_opts prog os (a\<lparr>ba_count := atoi s\<rparr>)"
| "bench_opts prog (OptAll # os) a = bench_opts prog os (a\<lparr>ba_all := True\<rparr>)"
| "bench_opts prog (OptList # os) a = Inl (0, concat (map (\<lambda>(n, d). pad_right 16 n @ '' '' @ d @ [LF]) tests))"
| "bench_opts prog (OptJson # os) a = bench_opts prog os (a\<lparr>ba_json := True\<rparr>)"
| "bench_opts prog (OptBenchHelp # os) a = Inl (0, bench_usage prog)"
| "bench_opts prog (OptBenchUnknown # os) a = Inl (1, bench_usage prog)"

text \<open>The tests in order, with commas before all but the first in JSON.\<close>

fun run_list :: "bool \<Rightarrow> (string \<Rightarrow> string) \<Rightarrow> bool \<Rightarrow> string list \<Rightarrow> string" where
  "run_list json run first [] = []"
| "run_list json run first (n # ns) = (if json \<and> \<not> first then '','' @ [LF] else []) @ run n @ run_list json run False ns"

text \<open>\<open>main\<close>: the exit status, standard output and the names reported as unknown.\<close>

definition bench_main ::
  "(int \<Rightarrow> string \<Rightarrow> int \<Rightarrow> rat list) \<Rightarrow> (string \<Rightarrow> bool) \<Rightarrow> string \<Rightarrow> bench_opt list \<Rightarrow> string list \<Rightarrow> int \<times> string \<times> string list" where
  "bench_main run alloc prog opts names =
     (case bench_opts prog opts \<lparr>ba_size = BENCH_MSG_SIZE, ba_count = BENCH_ITERATIONS, ba_all = False, ba_json = False\<rparr> of
        Inl (rc, out) \<Rightarrow> (rc, out, [])
      | Inr a \<Rightarrow>
          if ba_size a \<le> 0 then (1, [], [])
          else if ba_count a \<le> 0 then (1, [], [])
          else
            let head = (if ba_json a then []
                        else ''IPC Performance Benchmark'' @ [LF] @ ''Message size: '' @ dec_int (ba_size a) @ '' bytes, Iterations: '' @ dec_int (ba_count a) @ [LF, LF] @ bench_print_header);
                chosen = (if ba_all a \<or> names = [] then map fst tests else filter (\<lambda>n. n \<in> fst ` set tests) names);
                unknown = (if ba_all a \<or> names = [] then [] else filter (\<lambda>n. n \<notin> fst ` set tests) names);
                body = run_list (ba_json a) (run_test (run (ba_size a)) alloc (ba_size a) (ba_count a) (ba_json a)) True chosen
            in (0, head @ (if ba_json a then ''['' @ [LF] @ body @ [LF] @ '']'' @ [LF] else body), unknown))"

text \<open>The collector keeps what the benchmark measures, as many as were asked for.\<close>

lemma collect_take:
  "lc_capacity c = cap \<Longrightarrow> lc_data (fold collector_record xs c) = take (max (nat cap) (length (lc_data c))) (lc_data c @ xs)"
proof (induction xs arbitrary: c)
  case (Cons x xs)
  show ?case
  proof (cases "int (length (lc_data c)) < lc_capacity c")
    case True
    then have "collector_record x c = c\<lparr>lc_data := lc_data c @ [x]\<rparr>" by (simp add: collector_record_def)
    moreover have "max (nat cap) (Suc (length (lc_data c))) = nat cap" "max (nat cap) (length (lc_data c)) = nat cap"
      using True Cons.prems by linarith+
    ultimately show ?thesis using Cons.IH [of "c\<lparr>lc_data := lc_data c @ [x]\<rparr>"] Cons.prems by simp
  next
    case False
    then have "collector_record x c = c" by (simp add: collector_record_def)
    then show ?thesis using Cons.IH [OF Cons.prems] Cons.prems False by (simp add: max_def)
  qed
qed simp

text \<open>
  A test that fails before its first message is reported as a measurement of zeros, and one whose collector cannot be
  made leaves two commas in a row.
\<close>

lemma failed_test_zero:
  "alloc n \<Longrightarrow> run n it = [] \<Longrightarrow> run_test run alloc sz it True n = json_result n (zero_result\<lparr>br_msg_size := sz\<rparr>)"
  by (simp add: run_test_def collector_new_def collector_compute_stats_def sort_doubles_def Let_def)

lemma missing_entry_commas:
  "\<not> alloc b \<Longrightarrow> run_list True (run_test run alloc sz it True) True [a, b, c] =
     run_test run alloc sz it True a @ '','' @ [LF] @ '','' @ [LF] @ run_test run alloc sz it True c"
  by (simp add: run_test_def [of _ _ _ _ _ b] collector_new_def)

end
