(* ===== verification/Bench_Msg.thy ===== *)
theory Bench_Msg
  imports Bench_Main C_Stdio
begin

text \<open>
  The IPC benchmarks that exchange whole messages, over two message queues (\<open>bench_mqueue.c\<close>) and over datagram sockets
  (\<open>bench_unix.c\<close>), the opening of the named pipes (\<open>bench_fifo.c\<close>), the transfer loops of the stream sockets
  (\<open>bench_unix.c\<close>, \<open>bench_tcp.c\<close>) and what the child of each benchmark acquires and gives back.
\<close>

subsection \<open>Message queues\<close>

text \<open>
  Where a process is in its loop; \<open>MFailed\<close> is a process that has left with an error. A call that blocks is
  \<^const>\<open>None\<close>; \<open>ok\<close> says whether the call succeeds.
\<close>

datatype msg_pc = MSend | MRecv | MDone | MFailed

definition MQ_MAXMSG :: nat where "MQ_MAXMSG = 10"

record mq_state =
  mq_p2c :: "bytes list"
  mq_c2p :: "bytes list"
  mq_parent :: msg_pc
  mq_child :: msg_pc
  mq_pleft :: nat
  mq_cleft :: nat
  mq_pbuf :: bytes
  mq_cbuf :: bytes
  mq_cn :: nat
  mq_samples :: nat

definition mq_init :: "nat \<Rightarrow> nat \<Rightarrow> bytes \<Rightarrow> mq_state" where
  "mq_init msg_size iterations cbuf =
     \<lparr>mq_p2c = [], mq_c2p = [], mq_parent = (if iterations = 0 then MDone else MSend), mq_child = (if iterations = 0 then MDone else MRecv),
      mq_pleft = iterations, mq_cleft = iterations, mq_pbuf = generate_test_data msg_size, mq_cbuf = cbuf, mq_cn = 0, mq_samples = 0\<rparr>"

definition mq_parent_step :: "nat \<Rightarrow> bool \<Rightarrow> mq_state \<Rightarrow> mq_state option" where
  "mq_parent_step msg_size ok s =
     (case mq_parent s of
        MSend \<Rightarrow> if \<not> ok then Some (s\<lparr>mq_parent := MFailed\<rparr>)
          else if MQ_MAXMSG \<le> length (mq_p2c s) then None
          else Some (s\<lparr>mq_p2c := mq_p2c s @ [take msg_size (mq_pbuf s)], mq_parent := MRecv\<rparr>)
      | MRecv \<Rightarrow> if \<not> ok then Some (s\<lparr>mq_parent := MFailed\<rparr>)
          else (case mq_c2p s of
             [] \<Rightarrow> None
           | m # ms \<Rightarrow> Some (s\<lparr>mq_c2p := ms, mq_pbuf := store_at 0 m (mq_pbuf s), mq_samples := mq_samples s + 1,
                                mq_pleft := mq_pleft s - 1, mq_parent := (if mq_pleft s = 1 then MDone else MSend)\<rparr>))
      | _ \<Rightarrow> None)"

definition mq_child_step :: "nat \<Rightarrow> bool \<Rightarrow> mq_state \<Rightarrow> mq_state option" where
  "mq_child_step msg_size ok s =
     (case mq_child s of
        MRecv \<Rightarrow> if \<not> ok then Some (s\<lparr>mq_child := MFailed\<rparr>)
          else (case mq_p2c s of
             [] \<Rightarrow> None
           | m # ms \<Rightarrow> Some (s\<lparr>mq_p2c := ms, mq_cbuf := store_at 0 m (mq_cbuf s), mq_cn := length m, mq_child := MSend\<rparr>))
      | MSend \<Rightarrow> if \<not> ok then Some (s\<lparr>mq_child := MFailed\<rparr>)
          else if MQ_MAXMSG \<le> length (mq_c2p s) then None
          else Some (s\<lparr>mq_c2p := mq_c2p s @ [take (mq_cn s) (mq_cbuf s)], mq_cleft := mq_cleft s - 1,
                       mq_child := (if mq_cleft s = 1 then MDone else MRecv)\<rparr>)
      | _ \<Rightarrow> None)"

subsection \<open>Datagrams\<close>

text \<open>
  Here the child leads, with a buffer it has not filled, and the parent answers. \<open>qlen\<close> is the number of datagrams a
  socket holds before a sender blocks. Both send \<open>msg_size\<close> bytes.
\<close>

record dg_state =
  dg_server :: "bytes list"
  dg_client :: "bytes list"
  dg_parent :: msg_pc
  dg_child :: msg_pc
  dg_pleft :: nat
  dg_cleft :: nat
  dg_pbuf :: bytes
  dg_cbuf :: bytes
  dg_samples :: nat

definition dg_init :: "nat \<Rightarrow> nat \<Rightarrow> bytes \<Rightarrow> dg_state" where
  "dg_init msg_size iterations cbuf =
     \<lparr>dg_server = [], dg_client = [], dg_parent = (if iterations = 0 then MDone else MRecv), dg_child = (if iterations = 0 then MDone else MSend),
      dg_pleft = iterations, dg_cleft = iterations, dg_pbuf = generate_test_data msg_size, dg_cbuf = cbuf, dg_samples = 0\<rparr>"

definition dg_child_step :: "nat \<Rightarrow> nat \<Rightarrow> bool \<Rightarrow> dg_state \<Rightarrow> dg_state option" where
  "dg_child_step qlen msg_size ok s =
     (case dg_child s of
        MSend \<Rightarrow> if \<not> ok then Some (s\<lparr>dg_child := MFailed\<rparr>)
          else if qlen \<le> length (dg_server s) then None
          else Some (s\<lparr>dg_server := dg_server s @ [take msg_size (dg_cbuf s)], dg_child := MRecv\<rparr>)
      | MRecv \<Rightarrow> if \<not> ok then Some (s\<lparr>dg_child := MFailed\<rparr>)
          else (case dg_client s of
             [] \<Rightarrow> None
           | m # ms \<Rightarrow> Some (s\<lparr>dg_client := ms, dg_cbuf := store_at 0 (take msg_size m) (dg_cbuf s), dg_cleft := dg_cleft s - 1,
                                dg_child := (if dg_cleft s = 1 then MDone else MSend)\<rparr>))
      | _ \<Rightarrow> None)"

definition dg_parent_step :: "nat \<Rightarrow> nat \<Rightarrow> bool \<Rightarrow> dg_state \<Rightarrow> dg_state option" where
  "dg_parent_step qlen msg_size ok s =
     (case dg_parent s of
        MRecv \<Rightarrow> if \<not> ok then Some (s\<lparr>dg_parent := MFailed\<rparr>)
          else (case dg_server s of
             [] \<Rightarrow> None
           | m # ms \<Rightarrow> Some (s\<lparr>dg_server := ms, dg_pbuf := store_at 0 (take msg_size m) (dg_pbuf s), dg_parent := MSend\<rparr>))
      | MSend \<Rightarrow> if \<not> ok then Some (s\<lparr>dg_parent := MFailed\<rparr>)
          else if qlen \<le> length (dg_client s) then None
          else Some (s\<lparr>dg_client := dg_client s @ [take msg_size (dg_pbuf s)], dg_samples := dg_samples s + 1, dg_pleft := dg_pleft s - 1,
                       dg_parent := (if dg_pleft s = 1 then MDone else MRecv)\<rparr>)
      | _ \<Rightarrow> None)"

subsection \<open>Opening the named pipes\<close>

text \<open>
  \<open>open\<close> of a named pipe blocks until the other end is open or being opened. A process has completed some of its
  opens and may be inside the next one.
\<close>

datatype fifo_end = FifoReader | FifoWriter

definition parent_opens :: "(bench_res \<times> fifo_end) list" where
  "parent_opens = [(FifoP2C, FifoWriter), (FifoC2P, FifoReader)]"

definition child_opens :: "(bench_res \<times> fifo_end) list" where
  "child_opens = [(FifoP2C, FifoReader), (FifoC2P, FifoWriter)]"

record opener =
  op_done :: nat
  op_inside :: bool

fun other_end :: "fifo_end \<Rightarrow> fifo_end" where
  "other_end FifoReader = FifoWriter"
| "other_end FifoWriter = FifoReader"

text \<open>One process: it enters its next open, or leaves it when the peer has arrived at the other end.\<close>

definition open_step :: "(bench_res \<times> fifo_end) list \<Rightarrow> (bench_res \<times> fifo_end) list \<Rightarrow> opener \<Rightarrow> opener \<Rightarrow> opener option" where
  "open_step mine theirs peer me =
     (if op_done me < length mine then
        if op_inside me then
          (case mine ! op_done me of (f, e) \<Rightarrow>
             if (f, other_end e) \<in> set (take (op_done peer + (if op_inside peer then 1 else 0)) theirs)
             then Some \<lparr>op_done = op_done me + 1, op_inside = False\<rparr> else None)
        else Some (me\<lparr>op_inside := True\<rparr>)
      else None)"

subsection \<open>Transfers over a stream\<close>

text \<open>
  \<open>do_read_all\<close> and \<open>tcp_read_all\<close>: \<open>cs\<close> are the results of the \<open>read\<close> calls, empty for an error or the end of the stream;
  no result is longer than what is asked for. Past the end of the list nothing comes any more. The same for writing
  is \<open>send_all\<close> of the theory \<open>C_Stdio\<close>.
\<close>

fun do_read_all :: "nat \<Rightarrow> bytes list \<Rightarrow> bytes \<Rightarrow> int \<times> bytes" where
  "do_read_all len cs buf =
     (if len \<le> length buf then (0, buf)
      else case cs of
        [] \<Rightarrow> (-1, buf)
      | c # cs' \<Rightarrow> if c = [] then (-1, buf) else do_read_all len cs' (buf @ take (len - length buf) c))"

declare do_read_all.simps [simp del]

definition do_write_all :: "int list \<Rightarrow> bytes \<Rightarrow> int \<times> bytes" where
  "do_write_all ns buf = send_all ns buf"

subsection \<open>The child processes\<close>

text \<open>
  What a child acquires and gives back, as for the parents. At its exit the kernel closes what is left of its
  descriptors; a name in the file system stays.
\<close>

definition pipe_child :: "bench_step list" where
  "pipe_child = [Do [PipeP2CWrite, PipeC2PRead], Try [Buf] [], Try [] [], Do [Buf, PipeP2CRead, PipeC2PWrite]]"

definition fifo_child :: "bench_step list" where
  "fifo_child = [Try [FifoRead] [], Try [FifoWrite] [FifoRead], Try [Buf] [FifoRead, FifoWrite], Try [] [], Do [Buf, FifoRead, FifoWrite]]"

definition mqueue_child :: "bench_step list" where
  "mqueue_child = [Do [QueueRecv], TryBoth [ChildRecvQ] [] [ChildSendQ] [] [], Try [Buf] [], Try [] [], Do [Buf, ChildRecvQ, ChildSendQ]]"

definition unix_stream_child :: "bench_step list" where
  "unix_stream_child = [Do [ServerFd], Try [ClientFd] [], Try [] [ClientFd], Try [Buf] [ClientFd], Try [] [], Do [Buf, ClientFd]]"

definition unix_dgram_child :: "bench_step list" where
  "unix_dgram_child = [Do [ServerFd], Try [ClientFd] [], Try [ClientPath] [ClientFd], Try [Buf] [], Try [] [], Do [Buf, ClientFd, ClientPath]]"

definition tcp_child :: "bench_step list" where
  "tcp_child = [Do [ServerFd], Try [ClientFd] [], Try [] [ClientFd], Try [Buf] [ClientFd], Try [] [], Do [Buf, ClientFd]]"

lemmas child_steps = pipe_child_def fifo_child_def mqueue_child_def unix_stream_child_def unix_dgram_child_def tcp_child_def

text \<open>
  When every call succeeds a child gives back what it opened, beyond the descriptors it does not use; an error in
  the loop of the datagram benchmark leaves the name of its socket behind.
\<close>

lemma children_balanced:
  "path_left pipe_child [] [PipeP2CRead, PipeP2CWrite, PipeC2PRead, PipeC2PWrite] = Some []"
  "path_left fifo_child [] [] = Some []" "path_left mqueue_child [] [QueueSend, QueueRecv] = Some [QueueSend]"
  "path_left unix_stream_child [] [ServerFd] = Some []" "path_left unix_dgram_child [] [ServerFd] = Some []"
  "path_left tcp_child [] [ServerFd] = Some []"
  by (simp_all add: child_steps split: prod.splits)

lemma dgram_name_left:
  "path_left unix_dgram_child [True, True, False] [ServerFd] = Some [ClientPath, ClientFd]"
  "path_left unix_dgram_child [True, True, True, False] [ServerFd] = Some [Buf, ClientPath, ClientFd]"
  by (simp_all add: unix_dgram_child_def split: prod.splits)

subsection \<open>Message queues complete\<close>

text \<open>The states of the exchange, each with the number of calls made in it.\<close>

definition mq_inv :: "nat \<times> nat \<times> bytes \<Rightarrow> nat \<Rightarrow> mq_state \<Rightarrow> bool" where
  "mq_inv p c s \<longleftrightarrow> (case p of (m, n, cbuf) \<Rightarrow> let d = generate_test_data m in
     mq_samples s + mq_pleft s = n \<and> mq_pbuf s = d \<and> length (mq_cbuf s) = m \<and>
     (case mq_parent s of
        MSend \<Rightarrow> 0 < mq_pleft s \<and> mq_child s = MRecv \<and> mq_cleft s = mq_pleft s \<and> mq_p2c s = [] \<and> mq_c2p s = [] \<and> c = 4 * mq_samples s
      | MRecv \<Rightarrow> 0 < mq_pleft s \<and>
          (mq_child s = MRecv \<and> mq_cleft s = mq_pleft s \<and> mq_p2c s = [d] \<and> mq_c2p s = [] \<and> c = 4 * mq_samples s + 1 \<or>
           mq_child s = MSend \<and> mq_cleft s = mq_pleft s \<and> mq_p2c s = [] \<and> mq_c2p s = [] \<and> mq_cbuf s = d \<and> mq_cn s = m \<and> c = 4 * mq_samples s + 2 \<or>
           mq_child s = (if mq_cleft s = 0 then MDone else MRecv) \<and> Suc (mq_cleft s) = mq_pleft s \<and> mq_p2c s = [] \<and> mq_c2p s = [d] \<and>
             c = 4 * mq_samples s + 3)
      | MDone \<Rightarrow> mq_child s = MDone \<and> mq_pleft s = 0 \<and> c = 4 * mq_samples s
      | MFailed \<Rightarrow> False))"

lemma length_test_data [simp]: "length (generate_test_data m) = m"
  by (simp add: generate_test_data_def)

lemma store_at_0 [simp]: "length b = length buf \<Longrightarrow> store_at 0 b buf = b"
  by (simp add: store_at_def)

lemma mq_parent_inv: "mq_inv (m, n, cb) c s \<Longrightarrow> mq_parent_step m True s = Some s' \<Longrightarrow> mq_inv (m, n, cb) (Suc c) s'"
  by (cases "mq_parent s"; cases "mq_child s") (auto simp: mq_inv_def mq_parent_step_def Let_def MQ_MAXMSG_def split: if_splits)

lemma mq_child_inv: "mq_inv (m, n, cb) c s \<Longrightarrow> mq_child_step m True s = Some s' \<Longrightarrow> mq_inv (m, n, cb) (Suc c) s'"
  by (cases "mq_parent s"; cases "mq_child s") (auto simp: mq_inv_def mq_child_step_def Let_def MQ_MAXMSG_def split: if_splits)

lemma mq_calls: "mq_inv (m, n, cb) c s \<Longrightarrow> c \<le> 4 * n \<and> (mq_parent s = MDone \<longrightarrow> mq_samples s = n \<and> c = 4 * n)"
  by (cases "mq_parent s") (auto simp: mq_inv_def Let_def)

lemma mq_progress:
  assumes "mq_inv (m, n, cb) c s" and "mq_parent_step m True s = None" and "mq_child_step m True s = None"
  shows "mq_parent s = MDone \<and> mq_child s = MDone"
  using assms by (cases "mq_parent s"; cases "mq_child s")
    (auto simp: mq_inv_def mq_parent_step_def mq_child_step_def Let_def MQ_MAXMSG_def split: if_splits)

abbreviation mq_run :: "nat \<Rightarrow> mq_state \<Rightarrow> mq_state \<Rightarrow> bool" where
  "mq_run m \<equiv> either_step (mq_parent_step m True) (mq_child_step m True)"

interpretation mq: two_process "\<lambda>(m, n, cb). length cb = m" "\<lambda>(m, n, cb). mq_init m n cb" "\<lambda>(m, n, cb). mq_parent_step m True"
  "\<lambda>(m, n, cb). mq_child_step m True" mq_inv "\<lambda>(m, n, cb) s. mq_parent s = MDone \<and> mq_child s = MDone \<and> mq_samples s = n" "\<lambda>(m, n, cb). 4 * n"
proof (unfold_locales, goal_cases)
  case (1 p)
  then show ?case by (cases p) (auto simp: mq_inv_def mq_init_def Let_def)
next
  case (2 p c s s')
  then show ?case by (cases p) (auto intro: mq_parent_inv)
next
  case (3 p c s s')
  then show ?case by (cases p) (auto intro: mq_child_inv)
next
  case (4 p c s)
  then show ?case by (cases p) (auto dest: mq_calls)
next
  case (5 p c s)
  then show ?case by (cases p) (use mq_progress mq_calls in fastforce)
qed

subsection \<open>Datagrams complete\<close>

definition dg_inv :: "nat \<times> nat \<times> nat \<times> bytes \<Rightarrow> nat \<Rightarrow> dg_state \<Rightarrow> bool" where
  "dg_inv p c s \<longleftrightarrow> (case p of (q, m, n, d) \<Rightarrow>
     dg_samples s + dg_pleft s = n \<and> dg_cleft s \<le> n \<and> dg_cbuf s = d \<and> length (dg_pbuf s) = m \<and> length d = m \<and>
     (case dg_child s of
        MSend \<Rightarrow> 0 < dg_cleft s \<and> dg_parent s = MRecv \<and> dg_pleft s = dg_cleft s \<and> dg_server s = [] \<and> dg_client s = [] \<and> c + 4 * dg_cleft s = 4 * n
      | MRecv \<Rightarrow> 0 < dg_cleft s \<and>
          (dg_parent s = MRecv \<and> dg_pleft s = dg_cleft s \<and> dg_server s = [d] \<and> dg_client s = [] \<and> c + 4 * dg_cleft s = 4 * n + 1 \<or>
           dg_parent s = MSend \<and> dg_pleft s = dg_cleft s \<and> dg_server s = [] \<and> dg_client s = [] \<and> dg_pbuf s = d \<and> c + 4 * dg_cleft s = 4 * n + 2 \<or>
           dg_parent s = (if dg_pleft s = 0 then MDone else MRecv) \<and> dg_cleft s = Suc (dg_pleft s) \<and> dg_server s = [] \<and> dg_client s = [d] \<and>
             c + 4 * dg_cleft s = 4 * n + 3)
      | MDone \<Rightarrow> dg_parent s = MDone \<and> dg_cleft s = 0 \<and> dg_pleft s = 0 \<and> c = 4 * n
      | MFailed \<Rightarrow> False))"

lemma dg_parent_inv: "0 < q \<Longrightarrow> dg_inv (q, m, n, d) c s \<Longrightarrow> dg_parent_step q m True s = Some s' \<Longrightarrow> dg_inv (q, m, n, d) (Suc c) s'"
  by (cases "dg_child s"; cases "dg_parent s") (auto simp: dg_inv_def dg_parent_step_def split: if_splits)

lemma dg_child_inv: "0 < q \<Longrightarrow> dg_inv (q, m, n, d) c s \<Longrightarrow> dg_child_step q m True s = Some s' \<Longrightarrow> dg_inv (q, m, n, d) (Suc c) s'"
  by (cases "dg_child s"; cases "dg_parent s") (auto simp: dg_inv_def dg_child_step_def split: if_splits)

lemma dg_calls: "dg_inv (q, m, n, d) c s \<Longrightarrow> c \<le> 4 * n \<and> (dg_child s = MDone \<longrightarrow> dg_samples s = n \<and> c = 4 * n)"
  by (cases "dg_child s"; simp only: dg_inv_def prod.case msg_pc.case msg_pc.simps; (elim conjE disjE)?; linarith?; simp)

lemma dg_progress:
  assumes "0 < q" and "dg_inv (q, m, n, d) c s" and "dg_parent_step q m True s = None" and "dg_child_step q m True s = None"
  shows "dg_parent s = MDone \<and> dg_child s = MDone"
proof (cases "dg_child s")
  case MRecv
  then have "dg_client s = []" using assms(4) by (simp add: dg_child_step_def split: list.splits)
  then have "dg_parent s = MRecv \<and> dg_server s \<noteq> [] \<or> dg_parent s = MSend \<and> dg_client s = []" using assms(2) MRecv by (simp add: dg_inv_def) (elim conjE disjE; simp)
  then show ?thesis using assms(1,3) by (auto simp: dg_parent_step_def split: list.splits)
qed (use assms in \<open>simp_all add: dg_inv_def dg_child_step_def\<close>)

abbreviation dg_run :: "nat \<Rightarrow> nat \<Rightarrow> dg_state \<Rightarrow> dg_state \<Rightarrow> bool" where
  "dg_run q m \<equiv> either_step (dg_parent_step q m True) (dg_child_step q m True)"

interpretation dg: two_process "\<lambda>(q, m, n, d). 0 < q \<and> length d = m" "\<lambda>(q, m, n, d). dg_init m n d" "\<lambda>(q, m, n, d). dg_parent_step q m True"
  "\<lambda>(q, m, n, d). dg_child_step q m True" dg_inv "\<lambda>(q, m, n, d) s. dg_parent s = MDone \<and> dg_child s = MDone \<and> dg_samples s = n" "\<lambda>(q, m, n, d). 4 * n"
proof (unfold_locales, goal_cases)
  case (1 p)
  then show ?case by (cases p) (auto simp: dg_inv_def dg_init_def)
next
  case (2 p c s s')
  then show ?case by (cases p) (auto intro: dg_parent_inv)
next
  case (3 p c s s')
  then show ?case by (cases p) (auto intro: dg_child_inv)
next
  case (4 p c s)
  then show ?case by (cases p) (auto dest: dg_calls)
next
  case (5 p c s)
  then show ?case by (cases p) (use dg_progress dg_calls in fastforce)
qed

subsection \<open>The exchanges from start to end\<close>

text \<open>
  C33. The benchmarks over message queues and over datagrams always complete when their calls succeed: however the
  scheduler orders the calls, no run makes more than four per iteration, at no point are both processes blocked
  before the end, and from every point the remaining calls lead to the end, where both loops are finished and one
  latency per iteration is recorded; every message comes back as it was sent.
\<close>

theorem messages_complete:
  assumes "length cbuf = m" and "0 < qlen"
  shows "((mq_run m ^^ c) (mq_init m n cbuf) s \<longrightarrow> c \<le> 4 * n \<and> mq_pbuf s = generate_test_data m \<and>
      (\<exists>k t. (mq_run m ^^ k) s t \<and> mq_parent t = MDone \<and> mq_child t = MDone \<and> mq_samples t = n \<and> c + k = 4 * n)) \<and>
    ((dg_run qlen m ^^ c) (dg_init m n cbuf) u \<longrightarrow> c \<le> 4 * n \<and> dg_cbuf u = cbuf \<and>
      (\<exists>k t. (dg_run qlen m ^^ k) u t \<and> dg_parent t = MDone \<and> dg_child t = MDone \<and> dg_samples t = n \<and> c + k = 4 * n))"
proof (intro conjI impI)
  assume r: "(mq_run m ^^ c) (mq_init m n cbuf) s"
  have i: "mq_inv (m, n, cbuf) c s" using mq.run_reaches_inv [of "(m, n, cbuf)" c s] r assms by simp
  then show "c \<le> 4 * n" by (simp add: mq_calls)
  show "mq_pbuf s = generate_test_data m" using i by (simp add: mq_inv_def Let_def)
  show "\<exists>k t. (mq_run m ^^ k) s t \<and> mq_parent t = MDone \<and> mq_child t = MDone \<and> mq_samples t = n \<and> c + k = 4 * n"
    using mq.run_completes [of "(m, n, cbuf)" c s] r assms by auto
next
  assume r: "(dg_run qlen m ^^ c) (dg_init m n cbuf) u"
  have i: "dg_inv (qlen, m, n, cbuf) c u" using dg.run_reaches_inv [of "(qlen, m, n, cbuf)" c u] r assms by simp
  then show "c \<le> 4 * n" using dg_calls by blast
  show "dg_cbuf u = cbuf" using i by (simp add: dg_inv_def)
  show "\<exists>k t. (dg_run qlen m ^^ k) u t \<and> dg_parent t = MDone \<and> dg_child t = MDone \<and> dg_samples t = n \<and> c + k = 4 * n"
    using dg.run_completes [of "(qlen, m, n, cbuf)" c u] r assms by auto
qed

theorem messages_complete_witness:
  "\<exists>s t. mq_run 3 (mq_init 3 2 ''xyz'') s \<and> mq_p2c s = [generate_test_data 3] \<and> (mq_run 3 ^^ 7) s t \<and> mq_samples t = 2"
proof -
  obtain s where s: "mq_parent_step 3 True (mq_init 3 2 ''xyz'') = Some s" "mq_p2c s = [generate_test_data 3]"
    by (simp add: mq_parent_step_def mq_init_def MQ_MAXMSG_def)
  have st: "mq_run 3 (mq_init 3 2 ''xyz'') s" using s(1) by (rule either_left)
  then have "(mq_run 3 ^^ 1) (mq_init 3 2 ''xyz'') s" unfolding relpowp_1 .
  moreover have "length ''xyz'' = 3" "0 < (1 :: nat)" by simp_all
  note messages_complete [OF this, of 1 2 s undefined, THEN conjunct1]
  ultimately obtain k t where "(mq_run 3 ^^ k) s t" "mq_samples t = 2" "1 + k = 4 * 2" by blast
  moreover have "k = 7" using calculation(3) by simp
  ultimately show ?thesis using st s(2) by blast
qed

text \<open>
  A child that fails is not noticed: when it has left, by an error of a call or before its loop, a parent that waits for
  a message waits for ever. In the datagram benchmark one message that the socket refuses is enough.
\<close>

lemma lost_child_blocks:
  "mq_parent s = MRecv \<Longrightarrow> mq_c2p s = [] \<Longrightarrow> mq_child s = MFailed \<Longrightarrow> (mq_run m)\<^sup>*\<^sup>* s t \<Longrightarrow> t = s"
  "dg_parent u = MRecv \<Longrightarrow> dg_server u = [] \<Longrightarrow> dg_child u = MFailed \<Longrightarrow> (dg_run q m)\<^sup>*\<^sup>* u v \<Longrightarrow> v = u"
  by (erule converse_rtranclpE; simp add: either_step_iff mq_parent_step_def mq_child_step_def dg_parent_step_def dg_child_step_def)+

lemma dgram_refused_hangs:
  assumes "0 < n"
  shows "\<exists>u. dg_child_step q m False (dg_init m n d) = Some u \<and> (\<forall>v. (dg_run q m)\<^sup>*\<^sup>* u v \<longrightarrow> v = u) \<and> dg_parent u = MRecv"
proof -
  let ?u = "(dg_init m n d)\<lparr>dg_child := MFailed\<rparr>"
  have "dg_child_step q m False (dg_init m n d) = Some ?u" "dg_parent ?u = MRecv" "dg_server ?u = []" "dg_child ?u = MFailed"
    using assms by (simp_all add: dg_child_step_def dg_init_def)
  then show ?thesis using lost_child_blocks(2) by blast
qed

subsection \<open>Opening and reading\<close>

definition opener_init :: opener where
  "opener_init = \<lparr>op_done = 0, op_inside = False\<rparr>"

definition parent_open :: "opener \<times> opener \<Rightarrow> (opener \<times> opener) option" where
  "parent_open s = map_option (\<lambda>p. (p, snd s)) (open_step parent_opens child_opens (snd s) (fst s))"

definition child_open :: "opener \<times> opener \<Rightarrow> (opener \<times> opener) option" where
  "child_open s = map_option (\<lambda>c. (fst s, c)) (open_step child_opens parent_opens (fst s) (snd s))"

text \<open>Entering and completing an open, counted; the positions of the two processes differ by at most one open.\<close>

definition open_pos :: "opener \<Rightarrow> nat" where
  "open_pos p = 2 * op_done p + (if op_inside p then 1 else 0)"

definition open_inv :: "unit \<Rightarrow> nat \<Rightarrow> opener \<times> opener \<Rightarrow> bool" where
  "open_inv _ c s \<longleftrightarrow> c = open_pos (fst s) + open_pos (snd s) \<and> open_pos (fst s) \<le> 4 \<and> open_pos (snd s) \<le> 4"

lemma opener_cases:
  assumes "open_pos p \<le> 4"
  obtains "p = \<lparr>op_done = 0, op_inside = False\<rparr>" | "p = \<lparr>op_done = 0, op_inside = True\<rparr>" | "p = \<lparr>op_done = 1, op_inside = False\<rparr>"
    | "p = \<lparr>op_done = 1, op_inside = True\<rparr>" | "p = \<lparr>op_done = 2, op_inside = False\<rparr>"
proof -
  obtain d i where p: "p = \<lparr>op_done = d, op_inside = i\<rparr>" by (cases p) auto
  have "d = 0 \<or> d = 1 \<or> d = 2 \<and> \<not> i" using assms by (cases i) (auto simp: p open_pos_def)
  then show ?thesis using that by (cases i) (auto simp: p)
qed

lemmas open_defs = open_inv_def parent_open_def child_open_def open_step_def parent_opens_def child_opens_def open_pos_def

interpretation op: two_process "\<lambda>_. True" "\<lambda>_. (opener_init, opener_init)" "\<lambda>_. parent_open" "\<lambda>_. child_open" open_inv
  "\<lambda>_ s. op_done (fst s) = 2 \<and> op_done (snd s) = 2" "\<lambda>_. 8"
proof (unfold_locales, goal_cases)
  case 1
  show ?case by (simp add: open_inv_def opener_init_def open_pos_def)
next
  case (2 p c s s')
  then show ?case by (auto simp: open_defs split: if_splits prod.splits)
next
  case (3 p c s s')
  then show ?case by (auto simp: open_defs split: if_splits prod.splits)
next
  case (4 p c s)
  then show ?case by (simp add: open_inv_def)
next
  case (5 p c s)
  then have "open_pos (fst s) \<le> 4" "open_pos (snd s) \<le> 4" by (simp_all add: open_inv_def)
  then show ?case using 5 by (elim opener_cases) (simp_all add: open_defs prod_eq_iff)
qed

text \<open>The parent and the child open the two named pipes without a deadlock, whichever comes first at each of them.\<close>

lemma fifo_opens_complete:
  assumes "(either_step parent_open child_open ^^ c) (opener_init, opener_init) s"
  shows "\<exists>k t. (either_step parent_open child_open ^^ k) s t \<and> op_done (fst t) = 2 \<and> op_done (snd t) = 2 \<and> c + k = 8"
  using op.run_completes [OF TrueI assms] by simp

lemma do_read_all_step:
  "do_read_all len cs buf = (if len \<le> length buf then (0, buf) else case cs of [] \<Rightarrow> (-1, buf)
     | c # cs' \<Rightarrow> if c = [] then (-1, buf) else do_read_all len cs' (buf @ take (len - length buf) c))"
  by (rule do_read_all.simps)

text \<open>Reading succeeds exactly when enough arrives before an error or the end of the stream, with the first bytes.\<close>

lemma do_read_all_exact:
  assumes "[] \<notin> set cs" and "length buf \<le> len"
  shows "do_read_all len cs buf = (if len \<le> length buf + length (concat cs) then 0 else -1, take len (buf @ concat cs))"
  using assms
proof (induction cs arbitrary: buf)
  case Nil
  then show ?case by (subst do_read_all_step) auto
next
  case (Cons c cs)
  show ?case
  proof (cases "len \<le> length buf")
    case True
    then show ?thesis using Cons.prems(2) by (subst do_read_all_step) simp
  next
    case False
    let ?b = "buf @ take (len - length buf) c"
    have "do_read_all len (c # cs) buf = do_read_all len cs ?b" using False Cons.prems(1) by (subst do_read_all_step) auto
    also have "\<dots> = (if len \<le> length ?b + length (concat cs) then 0 else -1, take len (?b @ concat cs))"
      using Cons.prems False by (intro Cons.IH) auto
    also have "\<dots> = (if len \<le> length buf + length (concat (c # cs)) then 0 else -1, take len (buf @ concat (c # cs)))"
      using False by (auto simp: min_def)
    finally show ?thesis .
  qed
qed

end
