(* ===== verification/Fs_Metadata.thy ===== *)
theory Fs_Metadata
  imports C_Stdio
begin

text \<open>
  The metadata store of the file server (\<open>linux-file-server/src/metadata.c\<close>). SQLite is a parameter: what
  \<open>sqlite3_open\<close>, \<open>sqlite3_exec\<close>, \<open>sqlite3_prepare_v2\<close>, the steps of a statement and \<open>sqlite3_changes\<close> answer for a database of
  any type. The code passes it the SQL texts and the bound values and turns its answers into results.
\<close>

subsection \<open>The interface of SQLite\<close>

datatype sql_val = SqlNull | SqlInt int | SqlText string

text \<open>
  \<open>sq_run\<close> gives the rows that successive steps of a prepared statement return, whether the step after them is
  \<open>SQLITE_DONE\<close>, and the database afterwards.
\<close>

record 'db sqlite =
  sq_open :: "string \<Rightarrow> 'db option"
  sq_exec :: "'db \<Rightarrow> string \<Rightarrow> bool \<times> 'db"
  sq_prepare :: "'db \<Rightarrow> string \<Rightarrow> bool"
  sq_run :: "'db \<Rightarrow> string \<Rightarrow> sql_val list \<Rightarrow> sql_val list list \<times> bool \<times> 'db"
  sq_changes :: "'db \<Rightarrow> int"

text \<open>The conversions of \<open>sqlite3_column_text\<close>, \<open>_int64\<close> and \<open>_int\<close>, and of 64-bit integers with and without sign.\<close>

definition column_text :: "sql_val list \<Rightarrow> nat \<Rightarrow> string option" where
  "column_text r i = (case r ! i of SqlNull \<Rightarrow> None | SqlInt v \<Rightarrow> Some (dec_int v) | SqlText s \<Rightarrow> Some s)"

definition column_int64 :: "sql_val list \<Rightarrow> nat \<Rightarrow> int" where
  "column_int64 r i = (case r ! i of SqlNull \<Rightarrow> 0 | SqlInt v \<Rightarrow> v | SqlText s \<Rightarrow> strtol10 s)"

definition column_int :: "sql_val list \<Rightarrow> nat \<Rightarrow> int" where
  "column_int r i = to_int32 (column_int64 r i)"

definition to_int64 :: "int \<Rightarrow> int" where
  "to_int64 v = (v + 2 ^ 63) mod 2 ^ 64 - 2 ^ 63"

definition or_empty :: "string option \<Rightarrow> string" where
  "or_empty s = (case s of None \<Rightarrow> [] | Some s \<Rightarrow> s)"

subsection \<open>The statements\<close>

definition SCHEMA_SQL :: string where
  "SCHEMA_SQL =
     ''CREATE TABLE IF NOT EXISTS files ('' @
     ''    id INTEGER PRIMARY KEY AUTOINCREMENT,'' @
     ''    filename TEXT UNIQUE NOT NULL,'' @
     ''    size INTEGER NOT NULL,'' @
     ''    md5 TEXT,'' @
     ''    upload_time TEXT DEFAULT (datetime('' @ [CHR 0x27] @ ''now'' @ [CHR 0x27] @ '')),'' @
     ''    upload_user TEXT,'' @
     ''    permissions INTEGER DEFAULT 644'' @
     '');'' @
     ''CREATE TABLE IF NOT EXISTS transfers ('' @
     ''    id INTEGER PRIMARY KEY AUTOINCREMENT,'' @
     ''    filename TEXT NOT NULL,'' @
     ''    user TEXT,'' @
     ''    direction TEXT CHECK(direction IN ('' @ [CHR 0x27] @ ''upload'' @ [CHR 0x27] @ '','' @ [CHR 0x27] @ ''download'' @ [CHR 0x27] @ '')),'' @
     ''    bytes INTEGER,'' @
     ''    start_time TEXT DEFAULT (datetime('' @ [CHR 0x27] @ ''now'' @ [CHR 0x27] @ '')),'' @
     ''    status TEXT DEFAULT '' @ [CHR 0x27] @ ''ok'' @ [CHR 0x27] @
     '');'' @
     ''CREATE TABLE IF NOT EXISTS users ('' @
     ''    id INTEGER PRIMARY KEY AUTOINCREMENT,'' @
     ''    username TEXT UNIQUE NOT NULL,'' @
     ''    password_hash TEXT NOT NULL,'' @
     ''    salt TEXT NOT NULL,'' @
     ''    permissions INTEGER DEFAULT 1,'' @
     ''    created_at TEXT DEFAULT (datetime('' @ [CHR 0x27] @ ''now'' @ [CHR 0x27] @ '')),'' @
     ''    last_login TEXT'' @
     '');''"

definition SQL_ADD_FILE :: string where
  "SQL_ADD_FILE = ''INSERT INTO files (filename, size, md5, upload_user) VALUES (?, ?, ?, ?);''"

definition SQL_REMOVE_FILE :: string where
  "SQL_REMOVE_FILE = ''DELETE FROM files WHERE filename = ?;''"

definition SQL_LIST_FILES :: string where
  "SQL_LIST_FILES = ''SELECT filename, size, upload_time, upload_user FROM files ORDER BY upload_time DESC;''"

definition SQL_LOG_TRANSFER :: string where
  "SQL_LOG_TRANSFER = ''INSERT INTO transfers (filename, user, direction, bytes) VALUES (?, ?, ?, ?);''"

definition SQL_ADD_USER :: string where
  "SQL_ADD_USER = ''INSERT INTO users (username, password_hash, salt, permissions) VALUES (?, ?, ?, ?);''"

definition SQL_GET_USER :: string where
  "SQL_GET_USER = ''SELECT password_hash, salt, permissions FROM users WHERE username = ?;''"

definition SQL_FILE_COUNT :: string where
  "SQL_FILE_COUNT = ''SELECT COUNT(*) FROM files;''"

definition SQL_TRANSFER_COUNT :: string where
  "SQL_TRANSFER_COUNT = ''SELECT COUNT(*) FROM transfers;''"

definition SQL_TOTAL_BYTES :: string where
  "SQL_TOTAL_BYTES = ''SELECT COALESCE(SUM(bytes), 0) FROM transfers;''"

subsection \<open>Operations\<close>

record 'db metadata =
  md_db :: "'db option"
  md_path :: string

definition exec_sql :: "'db sqlite \<Rightarrow> 'db \<Rightarrow> string \<Rightarrow> int \<times> 'db" where
  "exec_sql q db sql = (case sq_exec q db sql of (ok, db') \<Rightarrow> (if ok then 0 else -1, db'))"

definition metadata_init :: "'db sqlite \<Rightarrow> string option \<Rightarrow> 'db metadata \<Rightarrow> int \<times> 'db metadata" where
  "metadata_init q path meta =
     (case path of
        None \<Rightarrow> (-1, meta)
      | Some p \<Rightarrow>
          let m0 = \<lparr>md_db = None, md_path = take 255 p\<rparr> in
          case sq_open q p of
            None \<Rightarrow> (-1, m0)
          | Some db \<Rightarrow>
              let (_, db1) = exec_sql q db ''PRAGMA journal_mode=WAL;'' in
              case exec_sql q db1 SCHEMA_SQL of (rc, db2) \<Rightarrow>
                if rc \<noteq> 0 then (-1, m0) else (0, m0\<lparr>md_db := Some db2\<rparr>))"

definition metadata_close :: "'db metadata \<Rightarrow> 'db metadata" where
  "metadata_close meta = meta\<lparr>md_db := None\<rparr>"

text \<open>Prepare, bind, one step that must be \<open>SQLITE_DONE\<close>, finalize: the middle of four operations.\<close>

definition run_update :: "'db sqlite \<Rightarrow> string \<Rightarrow> sql_val list \<Rightarrow> 'db \<Rightarrow> bool \<times> 'db" where
  "run_update q sql vals db =
     (if \<not> sq_prepare q db sql then (False, db)
      else case sq_run q db sql vals of (rows, ok, db') \<Rightarrow> (rows = [] \<and> ok, db'))"

definition metadata_add_file ::
  "'db sqlite \<Rightarrow> string option \<Rightarrow> int \<Rightarrow> string option \<Rightarrow> string option \<Rightarrow> 'db metadata \<Rightarrow> int \<times> 'db metadata" where
  "metadata_add_file q filename sz md5 user meta =
     (case (md_db meta, filename) of
        (Some db, Some f) \<Rightarrow>
          (case run_update q SQL_ADD_FILE [SqlText f, SqlInt (to_int64 sz), SqlText (or_empty md5), SqlText (or_empty user)] db of
             (ok, db') \<Rightarrow> (if ok then 0 else -1, meta\<lparr>md_db := Some db'\<rparr>))
      | _ \<Rightarrow> (-1, meta))"

definition metadata_remove_file :: "'db sqlite \<Rightarrow> string option \<Rightarrow> 'db metadata \<Rightarrow> int \<times> 'db metadata" where
  "metadata_remove_file q filename meta =
     (case (md_db meta, filename) of
        (Some db, Some f) \<Rightarrow>
          (case run_update q SQL_REMOVE_FILE [SqlText f] db of
             (ok, db') \<Rightarrow> (if \<not> ok \<or> sq_changes q db' = 0 then -1 else 0, meta\<lparr>md_db := Some db'\<rparr>))
      | _ \<Rightarrow> (-1, meta))"

definition list_row :: "string \<Rightarrow> string \<Rightarrow> string \<Rightarrow> string \<Rightarrow> string" where
  "list_row a b c d = pad_right 32 a @ '' '' @ pad_right 12 b @ '' '' @ pad_right 20 c @ '' '' @ pad_right 16 d @ [LF]"

definition list_header :: string where
  "list_header = list_row ''FILENAME'' ''SIZE'' ''UPLOAD_TIME'' ''USER'' @ list_row ''--------'' ''----'' ''------------'' ''----''"

definition file_row :: "sql_val list \<Rightarrow> string" where
  "file_row r = list_row (or_empty (column_text r 0)) (dec_nat (nat (column_int64 r 1 mod 2 ^ 64))) (or_empty (column_text r 2)) (or_empty (column_text r 3))"

text \<open>The buffer as a string; a row that does not fit is written as far as it goes and ends the loop.\<close>

fun list_rows :: "nat \<Rightarrow> sql_val list list \<Rightarrow> string \<Rightarrow> string" where
  "list_rows buf_size [] buf = buf"
| "list_rows buf_size (r # rs) buf =
     (if length (file_row r) \<ge> buf_size - length buf then buf @ take (buf_size - length buf - 1) (file_row r)
      else list_rows buf_size rs (buf @ file_row r))"

text \<open>The second part of the result is what is in the buffer, if anything was written.\<close>

definition metadata_list_files :: "'db sqlite \<Rightarrow> nat \<Rightarrow> 'db metadata \<Rightarrow> int \<times> string option \<times> 'db metadata" where
  "metadata_list_files q buf_size meta =
     (case md_db meta of
        None \<Rightarrow> (-1, None, meta)
      | Some db \<Rightarrow>
          if buf_size = 0 then (-1, None, meta)
          else if \<not> sq_prepare q db SQL_LIST_FILES then (-1, None, meta)
          else if length list_header \<ge> buf_size then (-1, Some (take (buf_size - 1) list_header), meta)
          else case sq_run q db SQL_LIST_FILES [] of (rows, _, db') \<Rightarrow>
            (0, Some (list_rows buf_size rows list_header), meta\<lparr>md_db := Some db'\<rparr>))"

definition metadata_log_transfer ::
  "'db sqlite \<Rightarrow> string option \<Rightarrow> string option \<Rightarrow> string option \<Rightarrow> int \<Rightarrow> 'db metadata \<Rightarrow> int \<times> 'db metadata" where
  "metadata_log_transfer q filename user direction bytes meta =
     (case (md_db meta, filename, direction) of
        (Some db, Some f, Some d) \<Rightarrow>
          (case run_update q SQL_LOG_TRANSFER [SqlText f, SqlText (or_empty user), SqlText d, SqlInt (to_int64 bytes)] db of
             (ok, db') \<Rightarrow> (if ok then 0 else -1, meta\<lparr>md_db := Some db'\<rparr>))
      | _ \<Rightarrow> (-1, meta))"

definition metadata_add_user ::
  "'db sqlite \<Rightarrow> string option \<Rightarrow> string option \<Rightarrow> string option \<Rightarrow> int \<Rightarrow> 'db metadata \<Rightarrow> int \<times> 'db metadata" where
  "metadata_add_user q username hash salt perms meta =
     (case (md_db meta, username, hash, salt) of
        (Some db, Some u, Some h, Some s) \<Rightarrow>
          (case run_update q SQL_ADD_USER [SqlText u, SqlText h, SqlText s, SqlInt perms] db of
             (ok, db') \<Rightarrow> (if ok then 0 else -1, meta\<lparr>md_db := Some db'\<rparr>))
      | _ \<Rightarrow> (-1, meta))"

text \<open>On success the strings in the two buffers and the permissions; the sizes are those of the buffers, not zero.\<close>

definition metadata_get_user ::
  "'db sqlite \<Rightarrow> string option \<Rightarrow> nat \<Rightarrow> nat \<Rightarrow> 'db metadata \<Rightarrow> (string \<times> string \<times> int) option \<times> 'db metadata" where
  "metadata_get_user q username hash_size salt_size meta =
     (case (md_db meta, username) of
        (Some db, Some u) \<Rightarrow>
          if \<not> sq_prepare q db SQL_GET_USER then (None, meta)
          else (case sq_run q db SQL_GET_USER [SqlText u] of
             ([], _, db') \<Rightarrow> (None, meta\<lparr>md_db := Some db'\<rparr>)
           | (r # _, _, db') \<Rightarrow>
               (Some (take (hash_size - 1) (or_empty (column_text r 0)), take (salt_size - 1) (or_empty (column_text r 1)), column_int r 2),
                meta\<lparr>md_db := Some db'\<rparr>))
      | _ \<Rightarrow> (None, meta))"

text \<open>One of the three figures: \<open>None\<close> when the statement cannot be prepared, 0 when there is no row.\<close>

definition stat_value :: "'db sqlite \<Rightarrow> string \<Rightarrow> (sql_val list \<Rightarrow> nat \<Rightarrow> int) \<Rightarrow> 'db \<Rightarrow> int option \<times> 'db" where
  "stat_value q sql col db =
     (if \<not> sq_prepare q db sql then (None, db)
      else case sq_run q db sql [] of
        ([], _, db') \<Rightarrow> (Some 0, db')
      | (r # _, _, db') \<Rightarrow> (Some (col r 0), db'))"

text \<open>Which figures are asked for, the return value and what is stored.\<close>

definition metadata_get_stats ::
  "'db sqlite \<Rightarrow> bool \<Rightarrow> bool \<Rightarrow> bool \<Rightarrow> 'db metadata \<Rightarrow> int \<times> int option \<times> int option \<times> int option" where
  "metadata_get_stats q want_files want_transfers want_bytes meta =
     (case md_db meta of
        None \<Rightarrow> (-1, None, None, None)
      | Some db \<Rightarrow>
          let (f, db1) = (if want_files then stat_value q SQL_FILE_COUNT column_int db else (None, db)) in
          if want_files \<and> f = None then (-1, None, None, None)
          else let (t, db2) = (if want_transfers then stat_value q SQL_TRANSFER_COUNT column_int db1 else (None, db1)) in
          if want_transfers \<and> t = None then (-1, f, None, None)
          else let (b, db3) = (if want_bytes then stat_value q SQL_TOTAL_BYTES (\<lambda>r i. column_int64 r i mod 2 ^ 64) db2 else (None, db2)) in
          if want_bytes \<and> b = None then (-1, f, t, None) else (0, f, t, b))"

subsection \<open>The listing\<close>

lemma list_rows_take:
  "length buf < n \<Longrightarrow> list_rows n rows buf = take (n - 1) (buf @ concat (map file_row rows))"
proof (induction rows arbitrary: buf)
  case (Cons r rs)
  show ?case
  proof (cases "length (file_row r) \<ge> n - length buf")
    case True
    then have "take (n - 1 - length buf) (file_row r @ concat (map file_row rs)) = take (n - length buf - 1) (file_row r)"
      using Cons.prems by (simp add: diff_commute)
    then show ?thesis using True Cons.prems by simp
  next
    case False
    then show ?thesis using Cons.IH [of "buf @ file_row r"] Cons.prems by simp
  qed
qed simp

text \<open>
  The listing is the header followed by one line for every row of the query, as much of it as the buffer holds;
  it never passes the end of the buffer. A listing that was cut off is reported as a success; a buffer that does
  not hold the header is an error.
\<close>

lemma listing_exact:
  assumes "md_db meta = Some db" and "sq_prepare q db SQL_LIST_FILES" and "sq_run q db SQL_LIST_FILES [] = (rows, ok, db')" and "0 < n"
  shows "\<exists>rc buf meta'. metadata_list_files q n meta = (rc, Some buf, meta') \<and> length buf < n \<and>
    buf = take (n - 1) (list_header @ (if rc = 0 then concat (map file_row rows) else [])) \<and>
    (rc = 0 \<longleftrightarrow> length list_header < n)"
proof (cases "length list_header < n")
  case True
  then show ?thesis using assms list_rows_take [OF True] by (simp add: metadata_list_files_def)
next
  case False
  then show ?thesis using assms by (simp add: metadata_list_files_def min_def)
qed

text \<open>A file whose size was stored as a negative number is shown with its size again.\<close>

lemma size_shown: "0 \<le> sz \<Longrightarrow> sz < 2 ^ 64 \<Longrightarrow> to_int64 sz mod 2 ^ 64 = sz"
  by (simp add: to_int64_def mod_diff_left_eq)

subsection \<open>Any history of updates\<close>

text \<open>
  What the tables hold, and what the four updating statements do to them: the names of files and users are
  unique, and a direction is one of two words.
\<close>

record meta_tables =
  mt_files :: "(string \<times> int \<times> string \<times> string) list"
  mt_transfers :: "(string \<times> string \<times> string \<times> int) list"
  mt_users :: "(string \<times> string \<times> string \<times> int) list"

definition no_tables :: meta_tables where
  "no_tables = \<lparr>mt_files = [], mt_transfers = [], mt_users = []\<rparr>"

datatype sql_update = InsertFile string int string string | DeleteFile string
  | InsertTransfer string string string int | InsertUser string string string int

fun update_sql :: "sql_update \<Rightarrow> string \<times> sql_val list" where
  "update_sql (InsertFile f s m u) = (SQL_ADD_FILE, [SqlText f, SqlInt s, SqlText m, SqlText u])"
| "update_sql (DeleteFile f) = (SQL_REMOVE_FILE, [SqlText f])"
| "update_sql (InsertTransfer f u d b) = (SQL_LOG_TRANSFER, [SqlText f, SqlText u, SqlText d, SqlInt b])"
| "update_sql (InsertUser u h s p) = (SQL_ADD_USER, [SqlText u, SqlText h, SqlText s, SqlInt p])"

fun table_update :: "sql_update \<Rightarrow> meta_tables \<Rightarrow> meta_tables option" where
  "table_update (InsertFile f s m u) t =
     (if f \<in> fst ` set (mt_files t) then None else Some (t\<lparr>mt_files := mt_files t @ [(f, s, m, u)]\<rparr>))"
| "table_update (DeleteFile f) t = Some (t\<lparr>mt_files := filter (\<lambda>r. fst r \<noteq> f) (mt_files t)\<rparr>)"
| "table_update (InsertTransfer f u d b) t =
     (if d = ''upload'' \<or> d = ''download'' then Some (t\<lparr>mt_transfers := mt_transfers t @ [(f, u, d, b)]\<rparr>) else None)"
| "table_update (InsertUser u h s p) t =
     (if u \<in> fst ` set (mt_users t) then None else Some (t\<lparr>mt_users := mt_users t @ [(u, h, s, p)]\<rparr>))"

text \<open>
  What is relied on of SQLite: an update returns no rows and either succeeds with its effect on the tables or
  fails, for whatever reason, without any; the count of changes is that of the removed rows; a query changes
  nothing, and when it returns rows these are the selected ones.
\<close>

definition sqlite_laws :: "'db sqlite \<Rightarrow> ('db \<Rightarrow> meta_tables) \<Rightarrow> bool" where
  "sqlite_laws q tabs \<longleftrightarrow>
     (\<forall>db up. case sq_run q db (fst (update_sql up)) (snd (update_sql up)) of (rows, ok, db') \<Rightarrow>
        rows = [] \<and> (if ok then table_update up (tabs db) = Some (tabs db') else tabs db' = tabs db)) \<and>
     (\<forall>db f db'. sq_run q db SQL_REMOVE_FILE [SqlText f] = ([], True, db') \<longrightarrow>
        sq_changes q db' = int (length (filter (\<lambda>r. fst r = f) (mt_files (tabs db))))) \<and>
     (\<forall>db u. case sq_run q db SQL_GET_USER [SqlText u] of (rows, ok, db') \<Rightarrow> tabs db' = tabs db \<and>
        (rows \<noteq> [] \<longrightarrow> rows = map (\<lambda>(_, h, s, p). [SqlText h, SqlText s, SqlInt p]) (filter (\<lambda>r. fst r = u) (mt_users (tabs db)))))"

datatype meta_op = AddFile string int "string option" "string option" | RemoveFile string
  | LogTransfer string "string option" string int | AddUser string string string int

fun meta_do :: "'db sqlite \<Rightarrow> meta_op \<Rightarrow> 'db metadata \<Rightarrow> int \<times> 'db metadata" where
  "meta_do q (AddFile f s m u) meta = metadata_add_file q (Some f) s m u meta"
| "meta_do q (RemoveFile f) meta = metadata_remove_file q (Some f) meta"
| "meta_do q (LogTransfer f u d b) meta = metadata_log_transfer q (Some f) u (Some d) b meta"
| "meta_do q (AddUser u h s p) meta = metadata_add_user q (Some u) (Some h) (Some s) p meta"

text \<open>The operations that returned 0, and the store at the end.\<close>

fun meta_run :: "'db sqlite \<Rightarrow> meta_op list \<Rightarrow> 'db metadata \<Rightarrow> meta_op list \<times> 'db metadata" where
  "meta_run q [] meta = ([], meta)"
| "meta_run q (op # ops) meta =
     (case meta_do q op meta of (rc, m1) \<Rightarrow> case meta_run q ops m1 of (good, m2) \<Rightarrow> (if rc = 0 then op # good else good, m2))"

text \<open>What an operation that returned 0 did.\<close>

fun meta_spec :: "meta_op \<Rightarrow> meta_tables \<Rightarrow> meta_tables" where
  "meta_spec (AddFile f s m u) t = t\<lparr>mt_files := mt_files t @ [(f, to_int64 s, or_empty m, or_empty u)]\<rparr>"
| "meta_spec (RemoveFile f) t = t\<lparr>mt_files := filter (\<lambda>r. fst r \<noteq> f) (mt_files t)\<rparr>"
| "meta_spec (LogTransfer f u d b) t = t\<lparr>mt_transfers := mt_transfers t @ [(f, or_empty u, d, to_int64 b)]\<rparr>"
| "meta_spec (AddUser u h s p) t = t\<lparr>mt_users := mt_users t @ [(u, h, s, p)]\<rparr>"

lemma sqlite_laws_update:
  "sqlite_laws q tabs \<Longrightarrow> case sq_run q db (fst (update_sql up)) (snd (update_sql up)) of (rows, ok, db') \<Rightarrow>
     rows = [] \<and> (if ok then table_update up (tabs db) = Some (tabs db') else tabs db' = tabs db)"
  unfolding sqlite_laws_def by (elim conjE allE)

lemma sqlite_laws_user:
  "sqlite_laws q tabs \<Longrightarrow> case sq_run q db SQL_GET_USER [SqlText u] of (rows, ok, db') \<Rightarrow> tabs db' = tabs db \<and>
     (rows \<noteq> [] \<longrightarrow> rows = map (\<lambda>(_, h, s, p). [SqlText h, SqlText s, SqlInt p]) (filter (\<lambda>r. fst r = u) (mt_users (tabs db))))"
  unfolding sqlite_laws_def by (elim conjE allE)

text \<open>The invariant of the tables.\<close>

definition tables_ok :: "meta_tables \<Rightarrow> bool" where
  "tables_ok t \<longleftrightarrow> distinct (map fst (mt_files t)) \<and> distinct (map fst (mt_users t)) \<and>
     list_all (\<lambda>(_, _, d, _). d = ''upload'' \<or> d = ''download'') (mt_transfers t)"

lemma table_update_ok: "table_update up t = Some t' \<Longrightarrow> tables_ok t \<Longrightarrow> tables_ok t'"
proof -
  assume a: "table_update up t = Some t'" and ok: "tables_ok t"
  show "tables_ok t'"
  proof (cases up)
    case (InsertFile f s m u)
    then have "f \<notin> set (map fst (mt_files t))" "t' = t\<lparr>mt_files := mt_files t @ [(f, s, m, u)]\<rparr>" using a by (simp_all split: if_split_asm)
    then show ?thesis using ok by (simp add: tables_ok_def)
  next
    case (DeleteFile f)
    then have "t' = t\<lparr>mt_files := filter (\<lambda>r. fst r \<noteq> f) (mt_files t)\<rparr>" using a by simp
    then show ?thesis using ok by (simp add: tables_ok_def distinct_map_filter)
  next
    case (InsertTransfer f u d b)
    then have "d = ''upload'' \<or> d = ''download''" "t' = t\<lparr>mt_transfers := mt_transfers t @ [(f, u, d, b)]\<rparr>" using a by (simp_all split: if_split_asm)
    then show ?thesis using ok by (simp add: tables_ok_def)
  next
    case (InsertUser u h s p)
    then have "u \<notin> set (map fst (mt_users t))" "t' = t\<lparr>mt_users := mt_users t @ [(u, h, s, p)]\<rparr>" using a by (simp_all split: if_split_asm)
    then show ?thesis using ok by (simp add: tables_ok_def)
  qed
qed

lemma run_update_law:
  assumes "sqlite_laws q tabs" and "tables_ok (tabs db)"
  shows "\<exists>ok db'. run_update q (fst (update_sql up)) (snd (update_sql up)) db = (ok, db') \<and>
    (if ok then table_update up (tabs db) = Some (tabs db') else tabs db' = tabs db) \<and> tables_ok (tabs db')"
proof (cases "sq_prepare q db (fst (update_sql up))")
  case True
  obtain rows ok db' where r: "sq_run q db (fst (update_sql up)) (snd (update_sql up)) = (rows, ok, db')"
    by (cases "sq_run q db (fst (update_sql up)) (snd (update_sql up))") auto
  have "rows = [] \<and> (if ok then table_update up (tabs db) = Some (tabs db') else tabs db' = tabs db)"
    using sqlite_laws_update [OF assms(1), where db = db and up = up] r by simp
  then show ?thesis using True r table_update_ok [OF _ assms(2)] assms(2) by (auto simp: run_update_def split: if_splits)
qed (use assms(2) in \<open>simp add: run_update_def ex_bool_eq\<close>)

lemma run_update_removed:
  assumes "sqlite_laws q tabs" and "run_update q SQL_REMOVE_FILE [SqlText f] db = (True, db')" and "sq_changes q db' = 0"
  shows "filter (\<lambda>r. fst r \<noteq> f) (mt_files (tabs db)) = mt_files (tabs db)"
proof -
  have "sq_run q db SQL_REMOVE_FILE [SqlText f] = ([], True, db')"
    using assms(2) by (auto simp: run_update_def split: if_splits prod.splits)
  then have "filter (\<lambda>r. fst r = f) (mt_files (tabs db)) = []" using assms(1,3) by (auto simp: sqlite_laws_def)
  then show ?thesis by (auto simp: filter_empty_conv intro: filter_True)
qed

lemma meta_do_law:
  assumes "sqlite_laws q tabs" and "md_db meta = Some db" and "meta_do q op meta = (rc, meta')" and "tables_ok (tabs db)"
  shows "\<exists>db'. md_db meta' = Some db' \<and> tabs db' = (if rc = 0 then meta_spec op (tabs db) else tabs db) \<and> tables_ok (tabs db')"
proof -
  note law = run_update_law [OF assms(1,4)]
  show ?thesis
  proof (cases op)
    case (AddFile f s m u)
    then show ?thesis using assms(2,3) law [of "InsertFile f (to_int64 s) (or_empty m) (or_empty u)"]
      by (auto simp: metadata_add_file_def split: if_splits)
  next
    case (RemoveFile f)
    obtain ok db' where r: "run_update q SQL_REMOVE_FILE [SqlText f] db = (ok, db')" by fastforce
    then show ?thesis using assms(2,3) RemoveFile law [of "DeleteFile f"] run_update_removed [OF assms(1)]
      by (auto simp: metadata_remove_file_def split: if_splits)
  next
    case (LogTransfer f u d b)
    then show ?thesis using assms(2,3) law [of "InsertTransfer f (or_empty u) d (to_int64 b)"]
      by (auto simp: metadata_log_transfer_def split: if_splits)
  next
    case (AddUser u h s p)
    then show ?thesis using assms(2,3) law [of "InsertUser u h s p"]
      by (auto simp: metadata_add_user_def split: if_splits)
  qed
qed

lemma meta_run_law:
  assumes "sqlite_laws q tabs" and "md_db meta = Some db" and "tables_ok (tabs db)" and "meta_run q ops meta = (good, meta')"
  shows "\<exists>db'. md_db meta' = Some db' \<and> tabs db' = fold meta_spec good (tabs db) \<and> tables_ok (tabs db')"
  using assms(2-)
proof (induction ops arbitrary: meta db good)
  case (Cons op ops)
  obtain rc m1 where d: "meta_do q op meta = (rc, m1)" by fastforce
  obtain g where g: "meta_run q ops m1 = (g, meta')" "good = (if rc = 0 then op # g else g)"
    using Cons.prems(3) d by (auto split: prod.splits)
  obtain db1 where "md_db m1 = Some db1" "tabs db1 = (if rc = 0 then meta_spec op (tabs db) else tabs db)" "tables_ok (tabs db1)"
    using meta_do_law [OF assms(1) Cons.prems(1) d Cons.prems(2)] by blast
  then show ?case using Cons.IH [OF _ _ g(1), of db1] g(2) by auto
qed simp

lemma fold_meta_users:
  "AddUser u h s p \<in> set ops \<or> (u, h, s, p) \<in> set (mt_users t) \<Longrightarrow> (u, h, s, p) \<in> set (mt_users (fold meta_spec ops t))"
proof (induction ops arbitrary: t)
  case (Cons op ops)
  then have "AddUser u h s p \<in> set ops \<or> (u, h, s, p) \<in> set (mt_users (meta_spec op t))" by (cases op) auto
  then show ?case using Cons.IH by simp
qed simp

lemma unique_row:
  assumes "distinct (map fst xs)" and "(u, x) \<in> set xs"
  shows "filter (\<lambda>r. fst r = u) xs = [(u, x)]"
proof -
  obtain ys zs where s: "xs = ys @ (u, x) # zs" using assms(2) by (meson split_list)
  then have "filter (\<lambda>r. fst r = u) ys = []" "filter (\<lambda>r. fst r = u) zs = []" using assms(1) by (auto simp: filter_empty_conv image_iff)
  then show ?thesis by (simp add: s)
qed


text \<open>Tables in memory keep the promises.\<close>

definition mem_update :: "sql_update \<Rightarrow> meta_tables \<times> int \<Rightarrow> sql_val list list \<times> bool \<times> meta_tables \<times> int" where
  "mem_update up db = (case table_update up (fst db) of None \<Rightarrow> ([], False, db) | Some t \<Rightarrow> ([], True, t, int (length (mt_files (fst db))) - int (length (mt_files t))))"

definition mem_run :: "meta_tables \<times> int \<Rightarrow> string \<Rightarrow> sql_val list \<Rightarrow> sql_val list list \<times> bool \<times> meta_tables \<times> int" where
  "mem_run db sql vals =
     (case vals of
        [SqlText f] \<Rightarrow>
          if sql = SQL_REMOVE_FILE then mem_update (DeleteFile f) db
          else (map (\<lambda>(_, h, s, p). [SqlText h, SqlText s, SqlInt p]) (filter (\<lambda>r. fst r = f) (mt_users (fst db))), True, db)
      | [SqlText f, SqlInt s, SqlText m, SqlText u] \<Rightarrow> mem_update (InsertFile f s m u) db
      | [SqlText f, SqlText u, SqlText d, SqlInt b] \<Rightarrow>
          if sql = SQL_LOG_TRANSFER then mem_update (InsertTransfer f u d b) db else mem_update (InsertUser f u d b) db
      | _ \<Rightarrow> ([], False, db))"

definition mem_sqlite :: "(meta_tables \<times> int) sqlite" where
  "mem_sqlite = \<lparr>sq_open = \<lambda>_. Some (no_tables, 0), sq_exec = \<lambda>db _. (True, db), sq_prepare = \<lambda>_ _. True, sq_run = mem_run, sq_changes = snd\<rparr>"

lemma sql_distinct [simp]: "SQL_ADD_USER \<noteq> SQL_LOG_TRANSFER" "SQL_GET_USER \<noteq> SQL_REMOVE_FILE"
  by (simp_all add: SQL_LOG_TRANSFER_def SQL_ADD_USER_def SQL_REMOVE_FILE_def SQL_GET_USER_def)

lemma mem_run_update: "mem_run db (fst (update_sql up)) (snd (update_sql up)) = mem_update up db"
  by (cases up) (simp_all add: mem_run_def)

lemma mem_sqlite_laws: "sqlite_laws mem_sqlite fst"
  unfolding sqlite_laws_def
proof (intro conjI allI impI)
  show "case sq_run mem_sqlite db (fst (update_sql up)) (snd (update_sql up)) of (rows, ok, db') \<Rightarrow>
    rows = [] \<and> (if ok then table_update up (fst db) = Some (fst db') else fst db' = fst db)" for db up
    by (simp add: mem_sqlite_def mem_run_update) (simp add: mem_update_def split: option.split)
  fix db db' :: "meta_tables \<times> int" and f
  assume "sq_run mem_sqlite db SQL_REMOVE_FILE [SqlText f] = ([], True, db')"
  then have "snd db' = int (length (mt_files (fst db))) - int (length (filter (\<lambda>r. fst r \<noteq> f) (mt_files (fst db))))"
    by (auto simp: mem_sqlite_def mem_run_def mem_update_def)
  moreover have "length (mt_files (fst db)) = length (filter (\<lambda>r. fst r = f) (mt_files (fst db))) + length (filter (\<lambda>r. fst r \<noteq> f) (mt_files (fst db)))"
    by (rule sum_length_filter_compl [symmetric])
  ultimately show "sq_changes mem_sqlite db' = int (length (filter (\<lambda>r. fst r = f) (mt_files (fst db))))" by (simp add: mem_sqlite_def)
next
  show "case sq_run mem_sqlite db SQL_GET_USER [SqlText u] of (rows, ok, db') \<Rightarrow> fst db' = fst db \<and>
     (rows \<noteq> [] \<longrightarrow> rows = map (\<lambda>(_, h, s, p). [SqlText h, SqlText s, SqlInt p]) (filter (\<lambda>r. fst r = u) (mt_users (fst db))))" for db u
    by (simp add: mem_sqlite_def mem_run_def)
qed


theorem listing_exact_witness:
  "\<exists>rc buf meta'. metadata_list_files (mem_sqlite\<lparr>sq_run := \<lambda>db _ _. ([[SqlText ''a'', SqlInt 5, SqlText ''t'', SqlNull]], True, db)\<rparr>) 200
       \<lparr>md_db = Some (no_tables, 0), md_path = ''m.db''\<rparr> = (rc, Some buf, meta') \<and> length buf < 200"
  using listing_exact [of "\<lparr>md_db = Some (no_tables, 0), md_path = ''m.db''\<rparr>" "(no_tables, 0)"
      "mem_sqlite\<lparr>sq_run := \<lambda>db _ _. ([[SqlText ''a'', SqlInt 5, SqlText ''t'', SqlNull]], True, db)\<rparr>"
      "[[SqlText ''a'', SqlInt 5, SqlText ''t'', SqlNull]]" True "(no_tables, 0)" 200]
  by (auto simp: mem_sqlite_def)

text \<open>A query that fails is reported as a count of 0 with success.\<close>

lemma stats_error_zero:
  assumes "md_db meta = Some db" and "\<forall>d sql. sq_prepare q d sql" and "\<forall>d sql. sq_run q d sql [] = ([], False, d)"
  shows "metadata_get_stats q True True True meta = (0, Some 0, Some 0, Some 0)"
  using assms by (simp add: metadata_get_stats_def stat_value_def)

end
