(* ===== verification/Fs_Wrap.thy ===== *)
theory Fs_Wrap
  imports C_Stdio Resources
begin

text \<open>
  Three thin layers of the file server: TLS (\<open>linux-file-server/src/ssl_wrap.c\<close>), the event loop (\<open>epoll_wrap.c\<close>) and
  compression (\<open>compress.c\<close>). What OpenSSL, the kernel and zlib answer are arguments; modelled is what the code
  makes of the answers: the loops, the results and what is given back when a step fails.
\<close>

subsection \<open>TLS contexts and sessions\<close>

datatype tls_method = TLS_server_method | TLS_client_method
datatype tls_version = TLS1_0 | TLS1_1 | TLS1_2 | TLS1_3

record ssl_ctx =
  cx_method :: tls_method
  cx_min_version :: tls_version
  cx_verify :: bool
  cx_cert :: "string option"
  cx_key :: "string option"

datatype ssl_res = SslCtx | SslSession

text \<open>What the library answers: allocation, loading files, whether a key belongs to a certificate, the handshake.\<close>

record ssl_lib =
  sl_init_ok :: bool
  sl_ctx_ok :: bool
  sl_default_min :: tls_version
  sl_default_verify :: bool
  sl_cert_ok :: "string \<Rightarrow> bool"
  sl_key_ok :: "string \<Rightarrow> bool"
  sl_match :: "string \<Rightarrow> string \<Rightarrow> bool"
  sl_new_ok :: bool
  sl_set_fd_ok :: bool
  sl_handshake :: int

definition ssl_init_global :: "ssl_lib \<Rightarrow> int" where
  "ssl_init_global l = (if sl_init_ok l then 0 else -1)"

definition SSL_CTX_new :: "ssl_lib \<Rightarrow> tls_method \<Rightarrow> ssl_ctx" where
  "SSL_CTX_new l m = \<lparr>cx_method = m, cx_min_version = sl_default_min l, cx_verify = sl_default_verify l, cx_cert = None, cx_key = None\<rparr>"

definition ssl_create_server_ctx :: "ssl_lib \<Rightarrow> string option \<Rightarrow> string option \<Rightarrow> ssl_ctx option \<times> ssl_res res_event list" where
  "ssl_create_server_ctx l cert_file key_file =
     (case (cert_file, key_file) of
        (Some cert, Some key) \<Rightarrow>
          if \<not> sl_ctx_ok l then (None, [])
          else let ctx = (SSL_CTX_new l TLS_server_method)\<lparr>cx_min_version := TLS1_2\<rparr> in
          if \<not> sl_cert_ok l cert then (None, [Acquire SslCtx, Release SslCtx])
          else let ctx1 = ctx\<lparr>cx_cert := Some cert\<rparr> in
          if \<not> sl_key_ok l key then (None, [Acquire SslCtx, Release SslCtx])
          else let ctx2 = ctx1\<lparr>cx_key := Some key\<rparr> in
          if \<not> sl_match l cert key then (None, [Acquire SslCtx, Release SslCtx])
          else (Some ctx2, [Acquire SslCtx])
      | _ \<Rightarrow> (None, []))"

definition ssl_create_client_ctx :: "ssl_lib \<Rightarrow> ssl_ctx option \<times> ssl_res res_event list" where
  "ssl_create_client_ctx l =
     (if \<not> sl_ctx_ok l then (None, [])
      else (Some ((SSL_CTX_new l TLS_client_method)\<lparr>cx_min_version := TLS1_2, cx_verify := False\<rparr>), [Acquire SslCtx]))"

datatype ssl_state = Fresh | AcceptState | ConnectState

record ssl =
  ss_server :: bool
  ss_fd :: int
  ss_state :: ssl_state
  ss_up :: bool

text \<open>The state is set from the role of the session before the handshake.\<close>

definition ssl_do_handshake :: "ssl_lib \<Rightarrow> ssl option \<Rightarrow> int \<times> ssl option" where
  "ssl_do_handshake l sess =
     (case sess of
        None \<Rightarrow> (-1, None)
      | Some s \<Rightarrow>
          let s1 = s\<lparr>ss_state := (if ss_server s then AcceptState else ConnectState)\<rparr> in
          if sl_handshake l = 1 then (0, Some (s1\<lparr>ss_up := True\<rparr>)) else (-1, Some s1))"

definition ssl_wrap_fd :: "ssl_lib \<Rightarrow> ssl_ctx option \<Rightarrow> int \<Rightarrow> ssl option \<times> ssl_res res_event list" where
  "ssl_wrap_fd l ctx fd =
     (case ctx of
        None \<Rightarrow> (None, [])
      | Some c \<Rightarrow>
          if fd < 0 then (None, [])
          else if \<not> sl_new_ok l then (None, [])
          else if \<not> sl_set_fd_ok l then (None, [Acquire SslSession, Release SslSession])
          else case ssl_do_handshake l (Some \<lparr>ss_server = (cx_method c = TLS_server_method), ss_fd = fd, ss_state = Fresh, ss_up = False\<rparr>) of
            (rc, s) \<Rightarrow> if rc \<noteq> 0 then (None, [Acquire SslSession, Release SslSession]) else (s, [Acquire SslSession]))"

text \<open>
  Every path gives back what it does not return; a server context speaks TLS 1.2 or later with a certificate and
  the key that belongs to it, and a session that is returned has completed its handshake in the right role.
\<close>

lemma ssl_contexts_sound:
  "ssl_create_server_ctx l cert key = (r, tr) \<Longrightarrow>
     held tr = Some (if r = None then [] else [SslCtx]) \<and>
     (\<forall>c. r = Some c \<longrightarrow> cx_min_version c = TLS1_2 \<and> cx_method c = TLS_server_method \<and>
        (\<exists>ce ke. cx_cert c = Some ce \<and> cx_key c = Some ke \<and> cert = Some ce \<and> key = Some ke \<and> sl_match l ce ke))"
  "ssl_create_client_ctx l = (r, tr) \<Longrightarrow> held tr = Some (if r = None then [] else [SslCtx]) \<and> (\<forall>c. r = Some c \<longrightarrow> cx_min_version c = TLS1_2)"
  by (auto simp: ssl_create_server_ctx_def ssl_create_client_ctx_def Let_def SSL_CTX_new_def split: option.splits if_splits)

lemma ssl_wrap_fd_sound:
  "ssl_wrap_fd l ctx fd = (r, tr) \<Longrightarrow>
     held tr = Some (if r = None then [] else [SslSession]) \<and>
     (\<forall>s. r = Some s \<longrightarrow> ss_up s \<and> ss_fd s = fd \<and> 0 \<le> fd \<and>
        (\<exists>c. ctx = Some c \<and> ss_state s = (if cx_method c = TLS_server_method then AcceptState else ConnectState)))"
  by (cases ctx) (auto simp: ssl_wrap_fd_def ssl_do_handshake_def Let_def split: if_split_asm)

subsection \<open>Sending and receiving\<close>

text \<open>
  The answers of successive calls of \<open>SSL_write\<close> and \<open>SSL_read\<close>: \<open>Moved k\<close> transfers up to \<open>k + 1\<close> bytes, \<open>Want\<close> asks for
  another call, \<open>Failed\<close> is any other error. When no more answers are given the loop is still running (\<open>None\<close>). The
  length is cast to an \<open>int\<close>: one that is then not positive is refused by the library.
\<close>

datatype ssl_answer = Moved nat | Want | Failed

fun ssl_write_loop :: "ssl_answer list \<Rightarrow> bytes \<Rightarrow> int option \<times> bytes" where
  "ssl_write_loop as [] = (Some 0, [])"
| "ssl_write_loop [] (c # cs) = (None, [])"
| "ssl_write_loop (Want # as) (c # cs) = ssl_write_loop as (c # cs)"
| "ssl_write_loop (Failed # as) (c # cs) = (Some (-1), [])"
| "ssl_write_loop (Moved k # as) (c # cs) =
     (if to_int32 (int (length (c # cs))) \<le> 0 then (Some (-1), [])
      else case ssl_write_loop as (drop k cs) of (r, out) \<Rightarrow> (r, c # take k cs @ out))"

definition ssl_send_all :: "ssl_answer list \<Rightarrow> ssl option \<Rightarrow> bytes option \<Rightarrow> int option \<times> bytes" where
  "ssl_send_all as sess buf = (case (sess, buf) of (Some _, Some b) \<Rightarrow> ssl_write_loop as b | _ \<Rightarrow> (Some (-1), []))"

text \<open>The bytes of the peer not read yet; the peer closed the connection when there are none.\<close>

fun ssl_read_loop :: "ssl_answer list \<Rightarrow> nat \<Rightarrow> bytes \<Rightarrow> int option \<times> bytes \<times> bytes" where
  "ssl_read_loop as 0 inp = (Some 0, [], inp)"
| "ssl_read_loop [] (Suc n) inp = (None, [], inp)"
| "ssl_read_loop (Want # as) (Suc n) inp = ssl_read_loop as (Suc n) inp"
| "ssl_read_loop (Failed # as) (Suc n) inp = (Some (-1), [], inp)"
| "ssl_read_loop (Moved k # as) (Suc n) inp =
     (if to_int32 (int (Suc n)) \<le> 0 then (Some (-1), [], inp)
      else case inp of
        [] \<Rightarrow> (Some (-1), [], [])
      | _ \<Rightarrow> let got = take (min (Suc k) (Suc n)) inp in
          case ssl_read_loop as (Suc n - length got) (drop (length got) inp) of (r, b, rest) \<Rightarrow> (r, got @ b, rest))"

definition ssl_recv_all :: "ssl_answer list \<Rightarrow> ssl option \<Rightarrow> nat \<Rightarrow> bytes \<Rightarrow> int option \<times> bytes \<times> bytes" where
  "ssl_recv_all as sess n inp = (case sess of Some _ \<Rightarrow> ssl_read_loop as n inp | None \<Rightarrow> (Some (-1), [], inp))"

definition moves :: "ssl_answer list \<Rightarrow> nat" where
  "moves as = length (filter (\<lambda>a. a \<noteq> Want) as)"

lemma moves_simps [simp]: "moves [] = 0" "moves (Want # as) = moves as" "moves (Moved k # as) = Suc (moves as)"
  by (simp_all add: moves_def)

lemma to_int32_nat: "n < 2 ^ 31 \<Longrightarrow> to_int32 (int n) = int n"
  by (rule to_int32_id) simp_all

lemma ssl_write_complete:
  "Failed \<notin> set as \<Longrightarrow> length b < 2 ^ 31 \<Longrightarrow> length b \<le> moves as \<Longrightarrow> ssl_write_loop as b = (Some 0, b)"
proof (induction as b rule: ssl_write_loop.induct)
  case (5 k as c cs)
  then have "ssl_write_loop as (drop k cs) = (Some 0, drop k cs)" using to_int32_id [of "int (length (c # cs))"] by simp
  then show ?case using 5 to_int32_id [of "int (length (c # cs))"] by simp
qed simp_all

lemma ssl_write_any:
  "ssl_write_loop as b = (r, out) \<Longrightarrow> (\<exists>rest. b = out @ rest) \<and> (r = Some 0 \<longrightarrow> out = b) \<and> r \<in> {None, Some 0, Some (-1)}"
proof (induction as b arbitrary: r out rule: ssl_write_loop.induct)
  case (5 k as c cs)
  show ?case
  proof (cases "to_int32 (int (length (c # cs))) \<le> 0")
    case False
    obtain o1 where o1: "ssl_write_loop as (drop k cs) = (r, o1)" "out = c # take k cs @ o1" using 5(2) False by (auto split: prod.splits)
    then show ?thesis using 5(1) [OF False o1(1)] by (metis append.assoc append_Cons append_take_drop_id)
  qed (use 5(2) in auto)
qed auto

lemma ssl_read_complete:
  "Failed \<notin> set as \<Longrightarrow> n < 2 ^ 31 \<Longrightarrow> n \<le> moves as \<Longrightarrow> n \<le> length inp \<Longrightarrow> ssl_read_loop as n inp = (Some 0, take n inp, drop n inp)"
proof (induction as n inp rule: ssl_read_loop.induct)
  case (5 k as n inp)
  define g where "g = min (Suc k) (Suc n)"
  have g: "0 < g" "g \<le> Suc n" "g \<le> length inp" "length (take g inp) = g" using 5(5) by (auto simp: g_def)
  have p: "\<not> to_int32 (int (Suc n)) \<le> 0" using to_int32_nat [OF 5(3)] by simp
  obtain c cs where c: "inp = c # cs" using g by (cases inp) auto
  have "ssl_read_loop as (Suc n - g) (drop g inp) = (Some 0, take (Suc n - g) (drop g inp), drop (Suc n - g) (drop g inp))"
  proof -
    have "Failed \<notin> set as" "Suc n - g < 2 ^ 31" "Suc n - g \<le> moves as" "Suc n - g \<le> length (drop g inp)" using 5(2-5) g by auto
    then show ?thesis using 5(1) [OF p c refl] g(4) unfolding g_def [symmetric] by simp
  qed
  moreover have "take g inp @ take (Suc n - g) (drop g inp) = take (Suc n) inp" using take_add [of g "Suc n - g" inp] g(2) by simp
  moreover have "drop (Suc n - g) (drop g inp) = drop (Suc n) inp" using g(2) by simp
  moreover have "ssl_read_loop (Moved k # as) (Suc n) inp =
      (case ssl_read_loop as (Suc n - g) (drop g inp) of (r, b, rest) \<Rightarrow> (r, take g inp @ b, rest))"
    using p g(4) by (simp only: ssl_read_loop.simps c list.case Let_def if_False g_def)
  ultimately show ?case by simp
qed simp_all

text \<open>
  C39. A message over TLS: however the library divides the transfers and however often it asks for another call, a
  message of less than 2 GiB that \<open>ssl_send_all\<close> sends is what \<open>ssl_recv_all\<close> returns on the other side, with
  what was sent after it left unread; whatever the library answers, what was written is a prefix of the
  message, all of it when 0 is returned.
\<close>

theorem tls_message_exact:
  assumes "Failed \<notin> set ws" and "Failed \<notin> set rs" and "length b < 2 ^ 31" and "length b \<le> moves ws" and "length b \<le> moves rs"
  shows "ssl_send_all ws (Some s) (Some b) = (Some 0, b) \<and> ssl_recv_all rs (Some s') (length b) (b @ later) = (Some 0, b, later) \<and>
    (\<forall>as r out. ssl_send_all as (Some s) (Some b) = (r, out) \<longrightarrow> (\<exists>rest. b = out @ rest) \<and> (r = Some 0 \<longrightarrow> out = b))"
  using ssl_write_complete [OF assms(1,3,4)] ssl_read_complete [OF assms(2,3,5), of "b @ later"] ssl_write_any
  by (simp add: ssl_send_all_def ssl_recv_all_def)

theorem tls_message_exact_witness:
  "ssl_send_all [Moved 1, Want, Moved 0, Moved 4] (Some \<lparr>ss_server = True, ss_fd = 4, ss_state = AcceptState, ss_up = True\<rparr>) (Some ''abc'') = (Some 0, ''abc'') \<and>
   ssl_recv_all [Want, Moved 0, Moved 0, Moved 9] (Some \<lparr>ss_server = False, ss_fd = 5, ss_state = ConnectState, ss_up = True\<rparr>) 3 (''abc'' @ ''de'') = (Some 0, ''abc'', ''de'')"
  using tls_message_exact [of "[Moved 1, Want, Moved 0, Moved 4]" "[Want, Moved 0, Moved 0, Moved 9]" "''abc''"
      "\<lparr>ss_server = True, ss_fd = 4, ss_state = AcceptState, ss_up = True\<rparr>" "\<lparr>ss_server = False, ss_fd = 5, ss_state = ConnectState, ss_up = True\<rparr>" "''de''"]
  by (simp add: numeral_3_eq_3)

text \<open>From 2 GiB to 4 GiB the cast makes the length negative: nothing is sent.\<close>

lemma tls_large_refused:
  assumes "2 ^ 31 \<le> length b" and "length b < 2 ^ 32"
  shows "ssl_send_all (Moved k # as) (Some s) (Some b) = (Some (-1), [])"
proof -
  obtain c cs where b: "b = c # cs" using assms(1) by (cases b) auto
  have m: "(x + 2147483648) mod 4294967296 = x - 2147483648" if "2147483648 \<le> x" "x < 4294967296" for x :: int
    using that mod_add_self2 [of "x - 2147483648" 4294967296] by (simp add: add.commute)
  have "to_int32 (int (length b)) \<le> 0" using assms m [of "int (length b)"] by (simp add: to_int32_def)
  then show ?thesis by (simp add: ssl_send_all_def b)
qed

subsection \<open>The event loop\<close>

text \<open>
  The interest list of an epoll descriptor: events and user pointer by descriptor. The kernel refuses to add a
  descriptor twice and to change or remove one that is not there; it may also refuse for other reasons.
\<close>

type_synonym 'a interest = "int \<rightharpoonup> nat \<times> 'a option"

definition epoll_wrap_create :: "int \<Rightarrow> int" where
  "epoll_wrap_create epfd = (if epfd < 0 then -1 else epfd)"

definition epoll_wrap_add :: "bool \<Rightarrow> int \<Rightarrow> nat \<Rightarrow> 'a option \<Rightarrow> 'a interest \<Rightarrow> int \<times> 'a interest" where
  "epoll_wrap_add ok fd events arg ep = (if ok \<and> ep fd = None then (0, ep(fd \<mapsto> (events, arg))) else (-1, ep))"

definition epoll_wrap_mod :: "bool \<Rightarrow> int \<Rightarrow> nat \<Rightarrow> 'a option \<Rightarrow> 'a interest \<Rightarrow> int \<times> 'a interest" where
  "epoll_wrap_mod ok fd events arg ep = (if ok \<and> ep fd \<noteq> None then (0, ep(fd \<mapsto> (events, arg))) else (-1, ep))"

definition epoll_wrap_del :: "bool \<Rightarrow> int \<Rightarrow> 'a interest \<Rightarrow> int \<times> 'a interest" where
  "epoll_wrap_del ok fd ep = (if ok \<and> ep fd \<noteq> None then (0, ep(fd := None)) else (-1, ep))"

text \<open>The answer of \<open>epoll_wait\<close>: interrupted, another error, or events.\<close>

datatype 'a wait_answer = WaitIntr | WaitError | Ready "(nat \<times> 'a option) list"

definition epoll_wrap_wait :: "'a wait_answer \<Rightarrow> int \<times> (nat \<times> 'a option) list" where
  "epoll_wrap_wait a = (case a of WaitIntr \<Rightarrow> (0, []) | WaitError \<Rightarrow> (-1, []) | Ready evs \<Rightarrow> (int (length evs), evs))"

lemma epoll_add_del: "epoll_wrap_add ok fd ev arg ep = (0, ep') \<Longrightarrow> epoll_wrap_del True fd ep' = (0, ep)"
  by (auto simp: epoll_wrap_add_def epoll_wrap_del_def fun_upd_idem split: if_splits)

subsection \<open>Compression\<close>

text \<open>\<open>compress2\<close> at the default level and \<open>uncompress\<close>, each with the room at the destination, and \<open>compressBound\<close>.\<close>

record zlib =
  z_compress2 :: "bytes \<Rightarrow> nat \<Rightarrow> bytes option"
  z_uncompress :: "bytes \<Rightarrow> nat \<Rightarrow> bytes option"
  z_bound :: "nat \<Rightarrow> nat"

definition compress_data :: "zlib \<Rightarrow> bytes \<Rightarrow> nat \<Rightarrow> int \<times> bytes" where
  "compress_data z src dst_len = (case z_compress2 z src dst_len of None \<Rightarrow> (-1, []) | Some d \<Rightarrow> (to_int32 (int (length d)), d))"

definition decompress_data :: "zlib \<Rightarrow> bytes \<Rightarrow> nat \<Rightarrow> int \<times> bytes" where
  "decompress_data z src dst_len = (case z_uncompress z src dst_len of None \<Rightarrow> (-1, []) | Some d \<Rightarrow> (to_int32 (int (length d)), d))"

definition compress_bound_size :: "zlib \<Rightarrow> nat \<Rightarrow> nat" where
  "compress_bound_size z n = z_bound z n"

text \<open>With the promises of zlib, data of less than 2 GiB survive in buffers of the sizes the header asks for.\<close>

lemma compress_roundtrip:
  assumes "\<And>b n. z_bound z (length b) \<le> n \<Longrightarrow> \<exists>d. z_compress2 z b n = Some d"
    and "\<And>b n d m. z_compress2 z b n = Some d \<Longrightarrow> length b \<le> m \<Longrightarrow> z_uncompress z d m = Some b" and "length b < 2 ^ 31" and "length b \<le> m"
  shows "\<exists>d rc. compress_data z b (compress_bound_size z (length b)) = (rc, d) \<and> decompress_data z d m = (int (length b), b)"
proof -
  obtain d where d: "z_compress2 z b (z_bound z (length b)) = Some d" using assms(1) by blast
  then show ?thesis using assms(2) [OF d assms(4)] assms(3)
    by (simp add: compress_data_def decompress_data_def compress_bound_size_def to_int32_id)
qed

end
