(* ===== verification/Server_Run.thy ===== *)
theory Server_Run
  imports Http Proxy Resources "HOL-Library.Multiset"
begin

text \<open>
  The lives of the two threaded servers: creation, the worker threads, the accept loop, stopping and release of the
  web server (\<open>web-server/src/http.c\<close>, \<open>web-server/src/main.c\<close>) and of the proxy (\<open>network-proxy/src/proxy.c\<close>).
\<close>

text \<open>
  What happens while the accept loop runs: \<open>accept\<close> returns a connection, is interrupted or fails; the server is
  told to stop by another thread or a signal handler; a worker takes a connection. Without further events the
  loop is blocked in \<open>accept\<close>.
\<close>

datatype accept_event = Conn int | Intr | AcceptErr | StopFlag | WorkerTakes

datatype server_res = ServerMem | ListenFd | QueueMem | ThreadMem | ServerLocks | LogFile | AddrInfo | UpstreamFd

subsection \<open>The web server\<close>

definition HTTP_DEFAULT_CONFIG :: http_server_config where
  "HTTP_DEFAULT_CONFIG = \<lparr>sc_port = 8080, max_connections = 100, thread_pool_size = 4, document_root = ''./www'',
     index_file = ''index.html'', enable_directory_listing = False\<rparr>"

text \<open>What \<open>http_server_create\<close> acquires and gives back, for the five outcomes of its calls.\<close>

definition http_create_trace :: "bool \<times> bool \<times> bool \<times> bool \<times> bool \<Rightarrow> server_res res_event list" where
  "http_create_trace oks = (case oks of (mem, sock, bind_ok, queue, threads) \<Rightarrow>
     if \<not> mem then []
     else [Acquire ServerMem] @
       (if \<not> sock then [Release ServerMem]
        else [Acquire ListenFd] @
          (if \<not> bind_ok then [Release ListenFd, Release ServerMem]
           else if \<not> queue then [Release ListenFd, Release ServerMem]
           else [Acquire QueueMem] @
             (if \<not> threads then [Release QueueMem, Release ListenFd, Release ServerMem]
              else [Acquire ThreadMem, Acquire ServerLocks]))))"

definition http_destroy_trace :: "server_res res_event list" where
  "http_destroy_trace = [Release ListenFd, Release QueueMem, Release ThreadMem, Release ServerLocks, Release ServerMem]"

text \<open>One turn of a worker: it leaves its loop, waits for a connection or takes one.\<close>

datatype worker_turn = WorkerExits | WorkerWaits | WorkerServes int http_server

definition worker_turn_of :: "http_server \<Rightarrow> worker_turn" where
  "worker_turn_of s =
     (if \<not> sv_running s then WorkerExits
      else case http_dequeue s of None \<Rightarrow> WorkerWaits | Some (fd, s') \<Rightarrow> WorkerServes fd s')"

text \<open>
  The accept loop with the connections queued so far, taken by workers and refused with 503. The flag is tested
  after every call of \<open>accept\<close> that returns. A worker that is already waiting for the lock takes a connection even when
  the flag has been cleared.
\<close>

fun http_accept_loop :: "accept_event list \<Rightarrow> http_server \<Rightarrow> int list \<times> int list \<times> int list \<Rightarrow> int option \<times> http_server \<times> int list \<times> int list \<times> int list" where
  "http_accept_loop [] s l = (None, s, l)"
| "http_accept_loop (Conn fd # es) s (queued, taken, refused) =
     (case accept_step s fd of (s', out) \<Rightarrow>
        let l = (if out = [] then (queued @ [fd], taken, refused) else (queued, taken, refused @ [fd])) in
        if sv_running s' then http_accept_loop es s' l else (Some 0, s', l))"
| "http_accept_loop (Intr # es) s l = (if sv_running s then http_accept_loop es s l else (Some 0, s, l))"
| "http_accept_loop (AcceptErr # es) s l = (Some 0, s, l)"
| "http_accept_loop (StopFlag # es) s l = http_accept_loop es (s\<lparr>sv_running := False\<rparr>) l"
| "http_accept_loop (WorkerTakes # es) s (queued, taken, refused) =
     (case http_dequeue s of
        None \<Rightarrow> http_accept_loop es s (queued, taken, refused)
      | Some (fd, s') \<Rightarrow> http_accept_loop es s' (queued, taken @ [fd], refused))"

text \<open>The threads started, and whether all were.\<close>

definition start_threads :: "(nat \<Rightarrow> bool) \<Rightarrow> int \<Rightarrow> nat \<times> bool" where
  "start_threads ok n = (let k = length (takeWhile ok [0..<nat n]) in (k, k = nat n))"

definition http_server_start ::
  "bool \<Rightarrow> (nat \<Rightarrow> bool) \<Rightarrow> accept_event list \<Rightarrow> http_server option \<Rightarrow>
   int option \<times> http_server option \<times> nat \<times> int list \<times> int list \<times> int list" where
  "http_server_start listen_ok thread_ok es so =
     (case so of
        None \<Rightarrow> (Some (-1), None, 0, [], [], [])
      | Some s \<Rightarrow>
          if \<not> listen_ok then (Some (-1), Some s, 0, [], [], [])
          else case start_threads thread_ok (thread_pool_size (sv_config s)) of (k, every) \<Rightarrow>
            if \<not> every then (Some (-1), Some (s\<lparr>sv_running := False\<rparr>), k, [], [], [])
            else case http_accept_loop es (s\<lparr>sv_running := True\<rparr>) ([], [], []) of (rc, s', l) \<Rightarrow> (rc, Some s', k, l))"

text \<open>Size and time of change of a file, from what \<open>stat\<close> answers.\<close>

definition http_file_size :: "(path \<Rightarrow> (int \<times> int) option) \<Rightarrow> path \<Rightarrow> int" where
  "http_file_size stat p = (case stat p of None \<Rightarrow> -1 | Some (sz, mtime) \<Rightarrow> sz)"

definition http_file_mtime :: "(path \<Rightarrow> (int \<times> int) option) \<Rightarrow> path \<Rightarrow> int" where
  "http_file_mtime stat p = (case stat p of None \<Rightarrow> -1 | Some (sz, mtime) \<Rightarrow> mtime)"

subsection \<open>The program of the web server\<close>

definition handle_index :: "http_request \<Rightarrow> http_response \<Rightarrow> http_response" where
  "handle_index request response =
     (let b = ''<html><body><h1>Welcome to Simple HTTP Server</h1></body></html>'' in
      response\<lparr>rs_status := 200, rs_content_type := Some ''text/html'', rs_body := Some b, rs_body_length := length b\<rparr>)"

definition handle_api_status :: "http_request \<Rightarrow> http_response \<Rightarrow> http_response" where
  "handle_api_status request response =
     (let q = [CHR 0x22]; b = ''{'' @ q @ ''status'' @ q @ '':'' @ q @ ''ok'' @ q @ '','' @ q @ ''version'' @ q @ '':'' @ q @ ''1.0.0'' @ q @ ''}'' in
      response\<lparr>rs_status := 200, rs_content_type := Some ''application/json'', rs_body := Some b, rs_body_length := length b\<rparr>)"

datatype web_opt = WebPort string | WebRoot string | WebThreads string | WebVerbose | WebHelp | WebUnknown

text \<open>The options in order; the port is an \<open>uint16_t\<close>. \<open>Inl\<close> is the exit status after the usage text.\<close>

fun web_opts :: "web_opt list \<Rightarrow> http_server_config \<Rightarrow> int + http_server_config" where
  "web_opts [] c = Inr c"
| "web_opts (WebPort s # os) c = web_opts os (c\<lparr>sc_port := nat (atoi s mod 2 ^ 16)\<rparr>)"
| "web_opts (WebRoot s # os) c = web_opts os (c\<lparr>document_root := s\<rparr>)"
| "web_opts (WebThreads s # os) c = web_opts os (c\<lparr>thread_pool_size := atoi s\<rparr>)"
| "web_opts (WebVerbose # os) c = web_opts os c"
| "web_opts (WebHelp # os) c = Inl 0"
| "web_opts (WebUnknown # os) c = Inl 1"

text \<open>
  \<open>main\<close>: the exit status (\<open>None\<close> while the server runs), what was acquired and released, the threads still running
  when the server is released, and the log of connections.
\<close>

definition web_main ::
  "bool \<times> bool \<times> bool \<times> bool \<times> bool \<Rightarrow> bool \<Rightarrow> (nat \<Rightarrow> bool) \<Rightarrow> accept_event list \<Rightarrow> web_opt list \<Rightarrow>
   int option \<times> server_res res_event list \<times> nat" where
  "web_main oks listen_ok thread_ok es opts =
     (case web_opts opts HTTP_DEFAULT_CONFIG of
        Inl rc \<Rightarrow> (Some rc, [], 0)
      | Inr cfg \<Rightarrow>
          (case oks of (a, b, c, d, e) \<Rightarrow>
           case http_server_create [a, b, c, d, e] cfg of
             None \<Rightarrow> (Some 1, http_create_trace oks, 0)
           | Some s0 \<Rightarrow>
               let s1 = snd (http_server_add_route (Some s0) HTTP_METHOD_GET ''/'' handle_index);
                   s2 = snd (http_server_add_route s1 HTTP_METHOD_GET ''/api/status'' handle_api_status) in
               case http_server_start listen_ok thread_ok es s2 of (rc, so, k, _) \<Rightarrow>
                 case rc of
                   None \<Rightarrow> (None, http_create_trace oks, k)
                 | Some r \<Rightarrow> (Some (if r \<noteq> 0 then 1 else 0), http_create_trace oks @ http_destroy_trace, k)))"

subsection \<open>The proxy\<close>

definition proxy_create_trace :: "bool \<times> bool \<times> bool \<times> bool \<times> bool \<Rightarrow> bool \<Rightarrow> server_res res_event list" where
  "proxy_create_trace oks log_opened =
     http_create_trace oks @ (if oks = (True, True, True, True, True) \<and> log_opened then [Acquire LogFile] else [])"

definition proxy_destroy_trace :: "bool \<Rightarrow> server_res res_event list" where
  "proxy_destroy_trace log_opened =
     [Release ListenFd, Release QueueMem, Release ThreadMem] @ (if log_opened then [Release LogFile] else []) @ [Release ServerLocks, Release ServerMem]"

text \<open>The first address of the resolver, a socket, a connection.\<close>

definition proxy_connect_upstream ::
  "(string \<Rightarrow> string \<Rightarrow> 'a list option) \<Rightarrow> ('a \<Rightarrow> int) \<Rightarrow> ('a \<Rightarrow> bool) \<Rightarrow> string \<Rightarrow> nat \<Rightarrow> int \<times> server_res res_event list" where
  "proxy_connect_upstream resolve socket_of connects host port =
     (case resolve host (dec_nat port) of
        Some (a # _) \<Rightarrow>
          let fd = socket_of a in
          if fd < 0 then (-1, [Acquire AddrInfo, Release AddrInfo])
          else if \<not> connects a then (-1, [Acquire AddrInfo, Acquire UpstreamFd, Release UpstreamFd, Release AddrInfo])
          else (fd, [Acquire AddrInfo, Acquire UpstreamFd, Release AddrInfo])
      | _ \<Rightarrow> (-1, []))"

fun proxy_accept_loop :: "accept_event list \<Rightarrow> proxy_server \<Rightarrow> int list \<times> int list \<times> int list \<Rightarrow> int option \<times> proxy_server \<times> int list \<times> int list \<times> int list" where
  "proxy_accept_loop [] s l = (None, s, l)"
| "proxy_accept_loop (Conn fd # es) s (queued, taken, refused) =
     (case proxy_accept s fd of (s', out) \<Rightarrow>
        let l = (if out = [] then (queued @ [fd], taken, refused) else (queued, taken, refused @ [fd])) in
        if px_running s' then proxy_accept_loop es s' l else (Some 0, s', l))"
| "proxy_accept_loop (Intr # es) s l = (if px_running s then proxy_accept_loop es s l else (Some 0, s, l))"
| "proxy_accept_loop (AcceptErr # es) s l = (Some 0, s, l)"
| "proxy_accept_loop (StopFlag # es) s l = proxy_accept_loop es (s\<lparr>px_running := False\<rparr>) l"
| "proxy_accept_loop (WorkerTakes # es) s (queued, taken, refused) =
     (case proxy_dequeue s of
        None \<Rightarrow> proxy_accept_loop es s (queued, taken, refused)
      | Some (fd, s') \<Rightarrow> proxy_accept_loop es s' (queued, taken @ [fd], refused))"

definition proxy_start ::
  "bool \<Rightarrow> (nat \<Rightarrow> bool) \<Rightarrow> int \<Rightarrow> accept_event list \<Rightarrow> proxy_server option \<Rightarrow>
   int option \<times> proxy_server option \<times> nat \<times> int list \<times> int list \<times> int list" where
  "proxy_start listen_ok thread_ok thread_count es so =
     (case so of
        None \<Rightarrow> (Some (-1), None, 0, [], [], [])
      | Some s \<Rightarrow>
          if \<not> listen_ok then (Some (-1), Some s, 0, [], [], [])
          else case start_threads thread_ok thread_count of (k, every) \<Rightarrow>
            if \<not> every then (Some (-1), Some (s\<lparr>px_running := False\<rparr>), k, [], [], [])
            else case proxy_accept_loop es (s\<lparr>px_running := True\<rparr>) ([], [], []) of (rc, s', l) \<Rightarrow> (rc, Some s', k, l))"

subsection \<open>Properties\<close>

text \<open>Creation gives back everything on failure, and what destruction releases is what creation acquired.\<close>

lemma lifecycle_balanced:
  "held (http_create_trace oks) = Some (if oks = (True, True, True, True, True) then [ServerLocks, ThreadMem, QueueMem, ListenFd, ServerMem] else [])"
  "held (http_create_trace (True, True, True, True, True) @ http_destroy_trace) = Some []"
  "held (proxy_create_trace (True, True, True, True, True) lg @ proxy_destroy_trace lg) = Some []"
  by (cases oks; simp add: http_create_trace_def)
    (simp_all add: http_create_trace_def http_destroy_trace_def proxy_create_trace_def proxy_destroy_trace_def)

lemma connect_upstream_balanced:
  "proxy_connect_upstream resolve socket_of connects host port = (fd, tr) \<Longrightarrow>
     held tr = Some (if fd < 0 then [] else [UpstreamFd]) \<and> (0 \<le> fd \<longrightarrow> (\<exists>a as. resolve host (dec_nat port) = Some (a # as) \<and> connects a))"
  by (auto simp: proxy_connect_upstream_def Let_def split: option.splits list.splits if_splits)

text \<open>
  The bookkeeping of an accept loop: the connections of a first part of the events, all of them while the loop
  runs, are those that were queued and those that were refused.
\<close>

fun conns :: "accept_event list \<Rightarrow> int list" where
  "conns [] = []"
| "conns (e # es) = (case e of Conn fd \<Rightarrow> [fd] | _ \<Rightarrow> []) @ conns es"

definition accounts :: "accept_event list \<Rightarrow> int option \<Rightarrow> int list \<times> int list \<Rightarrow> int list \<times> int list \<Rightarrow> bool" where
  "accounts es rc before after \<longleftrightarrow>
     (\<exists>es1 es2. es = es1 @ es2 \<and> (rc = None \<longrightarrow> es2 = []) \<and>
        mset (fst after) + mset (snd after) = mset (fst before) + mset (snd before) + mset (conns es1))"

lemma accounts_simps [simp]: "accounts [] rc l l" "accounts es (Some r) l l"
  unfolding accounts_def by (auto intro: exI [of _ "[]"])

lemma accounts_step:
  assumes "mset (fst b) + mset (snd b) = mset (fst a) + mset (snd a) + mset (conns [e])" and "accounts es rc b c"
  shows "accounts (e # es) rc a c"
proof -
  obtain es1 es2 where "es = es1 @ es2" "rc = None \<longrightarrow> es2 = []" "mset (fst c) + mset (snd c) = mset (fst b) + mset (snd b) + mset (conns es1)"
    using assms(2) unfolding accounts_def by blast
  then show ?thesis unfolding accounts_def using assms(1) by (intro exI [of _ "e # es1"] exI [of _ es2]) simp
qed

lemma hq_running [simp]: "hq_inv (s\<lparr>sv_running := b\<rparr>) = hq_inv s" "hq_contents (s\<lparr>sv_running := b\<rparr>) = hq_contents s"
  by (simp_all add: hq_inv_def hq_contents_def)

lemma http_accept_accounts:
  assumes "hq_inv s" and "queued = taken @ hq_contents s" and "http_accept_loop es s (queued, taken, refused) = (rc, s', queued', taken', refused')"
  shows "hq_inv s' \<and> queued' = taken' @ hq_contents s' \<and> accounts es rc (queued, refused) (queued', refused')"
  using assms
proof (induction es arbitrary: s queued taken refused)
  case (Cons e es)
  show ?case
  proof (cases e)
    case (Conn fd)
    obtain s1 out where a: "accept_step s fd = (s1, out)" by fastforce
    define q1 r1 where "q1 = (if out = [] then queued @ [fd] else queued)" and "r1 = (if out = [] then refused else refused @ [fd])"
    have i: "hq_inv s1" "q1 = taken @ hq_contents s1" "mset q1 + mset r1 = mset queued + mset refused + mset (conns [e])"
      using a Cons.prems(1,2) hq.enq_ok [OF Cons.prems(1), of fd] Conn by (auto simp: accept_step_def q1_def r1_def split: option.splits)
    have "(if sv_running s1 then http_accept_loop es s1 (q1, taken, r1) else (Some 0, s1, q1, taken, r1)) = (rc, s', queued', taken', refused')"
      using Cons.prems(3) a by (simp add: Conn q1_def r1_def Let_def split: if_splits)
    then show ?thesis using Cons.IH [OF i(1,2), of r1] i accounts_step [of "(q1, r1)" "(queued, refused)" e es] by (auto split: if_splits)
  next
    case Intr
    then show ?thesis using Cons.prems Cons.IH [OF Cons.prems(1,2), of refused] accounts_step [of "(queued, refused)" "(queued, refused)" e es]
      by (auto split: if_splits)
  next
    case AcceptErr
    then show ?thesis using Cons.prems by auto
  next
    case StopFlag
    then show ?thesis using Cons.prems Cons.IH [of "s\<lparr>sv_running := False\<rparr>" queued taken refused] accounts_step [of "(queued, refused)" "(queued, refused)" e es]
      by auto
  next
    case WorkerTakes
    then show ?thesis
      using Cons.prems Cons.IH [of s queued taken refused] hq.deq_ok [OF Cons.prems(1)] accounts_step [of "(queued, refused)" "(queued, refused)" e es]
        Cons.IH [of _ queued "taken @ [fst (the (http_dequeue s))]" refused]
      by (auto split: option.splits prod.splits)
  qed
qed simp

lemma pq_running [simp]: "pq_inv (s\<lparr>px_running := b\<rparr>) = pq_inv s" "pq_contents (s\<lparr>px_running := b\<rparr>) = pq_contents s"
  by (simp_all add: pq_inv_def pq_contents_def)

lemma proxy_accept_accounts:
  assumes "pq_inv s" and "queued = taken @ pq_contents s" and "proxy_accept_loop es s (queued, taken, refused) = (rc, s', queued', taken', refused')"
  shows "pq_inv s' \<and> queued' = taken' @ pq_contents s' \<and> accounts es rc (queued, refused) (queued', refused')"
  using assms
proof (induction es arbitrary: s queued taken refused)
  case (Cons e es)
  show ?case
  proof (cases e)
    case (Conn fd)
    obtain s1 out where a: "proxy_accept s fd = (s1, out)" by fastforce
    define q1 r1 where "q1 = (if out = [] then queued @ [fd] else queued)" and "r1 = (if out = [] then refused else refused @ [fd])"
    have i: "pq_inv s1" "q1 = taken @ pq_contents s1" "mset q1 + mset r1 = mset queued + mset refused + mset (conns [e])"
      using a Cons.prems(1,2) pq.enq_ok [OF Cons.prems(1), of fd] Conn by (auto simp: proxy_accept_def q1_def r1_def split: option.splits)
    have "(if px_running s1 then proxy_accept_loop es s1 (q1, taken, r1) else (Some 0, s1, q1, taken, r1)) = (rc, s', queued', taken', refused')"
      using Cons.prems(3) a by (simp add: Conn q1_def r1_def Let_def split: if_splits)
    then show ?thesis using Cons.IH [OF i(1,2), of r1] i accounts_step [of "(q1, r1)" "(queued, refused)" e es] by (auto split: if_splits)
  next
    case Intr
    then show ?thesis using Cons.prems Cons.IH [OF Cons.prems(1,2), of refused] accounts_step [of "(queued, refused)" "(queued, refused)" e es]
      by (auto split: if_splits)
  next
    case AcceptErr
    then show ?thesis using Cons.prems by auto
  next
    case StopFlag
    then show ?thesis using Cons.prems Cons.IH [of "s\<lparr>px_running := False\<rparr>" queued taken refused] accounts_step [of "(queued, refused)" "(queued, refused)" e es]
      by auto
  next
    case WorkerTakes
    then show ?thesis
      using Cons.prems Cons.IH [of s queued taken refused] pq.deq_ok [OF Cons.prems(1)] accounts_step [of "(queued, refused)" "(queued, refused)" e es]
        Cons.IH [of _ queued "taken @ [fst (the (proxy_dequeue s))]" refused]
      by (auto split: option.splits prod.splits)
  qed
qed simp



text \<open>The same for the proxy.\<close>

lemma proxy_connections_accounted:
  assumes "0 < max_conn" and "proxy_create oks can max_conn logging lg = Some s0"
    and "proxy_start listen_ok thread_ok n es (Some s0) = (rc, Some s, threads, queued, taken, refused)"
  shows "queued = taken @ pq_contents s \<and>
    (if listen_ok \<and> threads = nat n then accounts es rc ([], []) (queued, refused) else rc = Some (-1) \<and> queued = [] \<and> refused = [])"
proof -
  have p: "pq_inv s0" "pq_contents s0 = []"
    using assms(1,2) by (auto simp: proxy_create_def pq_inv_def pq_contents_def ring_wf_def ring_list_def split: if_splits)
  show ?thesis using assms(3) p proxy_accept_accounts [of "s0\<lparr>px_running := True\<rparr>" "[]" "[]" es "[]"]
    by (auto simp: proxy_start_def start_threads_def Let_def split: if_splits prod.splits)
qed

text \<open>
  Stopping: the listening socket stays open and \<open>accept\<close> is not woken, so the loop ends only with the next
  connection, which is queued although every worker then leaves its loop.
\<close>

lemma stop_needs_connection:
  assumes "set es \<subseteq> {StopFlag, WorkerTakes}"
  shows "fst (http_accept_loop es s l) = None"
  using assms
proof (induction es arbitrary: s l)
  case (Cons e es)
  obtain q t r where "l = (q, t, r)" by (cases l) auto
  then show ?case using Cons by (cases e) (auto split: option.splits)
qed simp

lemma stop_strands_connection:
  assumes "int (queue_size s) < max_connections (sv_config s)"
  shows "\<exists>s'. http_accept_loop [StopFlag, Conn fd] s (q, t, r) = (Some 0, s', q @ [fd], t, r) \<and> worker_turn_of s' = WorkerExits"
  using assms by (simp add: accept_step_def http_enqueue_def worker_turn_of_def)

text \<open>
  When the last thread cannot be started the other workers are not joined, and \<open>main\<close> releases the server that
  they still use.
\<close>

lemma failed_start_frees_running:
  "web_main (True, True, True, True, True) True (\<lambda>i. i < 3) es [] =
     (Some 1, http_create_trace (True, True, True, True, True) @ http_destroy_trace, 3)"
proof -
  have "takeWhile (\<lambda>i. i < 3) [0..<4] = [0, 1, 2 :: nat]" by (simp add: upt_rec)
  then show ?thesis
    by (simp add: web_main_def HTTP_DEFAULT_CONFIG_def http_server_create_def http_server_add_route_def MAX_ROUTES_def http_server_start_def start_threads_def)
qed

text \<open>The two pages of the program.\<close>

lemma index_served:
  assumes "http_request_parse raw = Some rq" and "rq_method rq = HTTP_METHOD_GET" and "rq_path rq = ''/''" and "raw \<noteq> []"
    and "http_server_add_route (Some s) HTTP_METHOD_GET ''/'' handle_index = (0, Some s1)" and "sv_routes s = []"
  shows "handle_client net open_ok stat_ok fs cfg (sv_routes s1) (Some raw) =
    [Response (handle_index rq \<lparr>rs_status = 200, rs_content_type = None, rs_body = None, rs_body_length = 0\<rparr>), CloseFd]"
  using assms by (auto simp: http_server_add_route_def handle_client_def split: if_splits)

end
