(* ===== verification/Shell_Parser.thy ===== *)
theory Shell_Parser
  imports Prelude
begin

text \<open>
  The command line parser of \<open>mini-shell/src/parser.c\<close>: variable expansion, tokenizing with quotes
  and escapes, redirections, pipelines and the background mark. The environment is a map. A line
  holds no \<open>NUL\<close>. \<open>strdup\<close> is taken to succeed. When a token has filled its buffer the tokenizer no
  longer advances and never returns; that is \<^const>\<open>None\<close>.
\<close>

definition MAX_LINE :: nat where "MAX_LINE = 4096"
definition MAX_ARGS :: nat where "MAX_ARGS = 256"
definition MAX_PIPES :: nat where "MAX_PIPES = 16"

lemmas shell_limits [c_limits] = MAX_LINE_def MAX_ARGS_def MAX_PIPES_def

abbreviation (input) DOLLAR :: char where "DOLLAR \<equiv> CHR ''$''"
abbreviation (input) LBRACE :: char where "LBRACE \<equiv> CHR 0x7B"
abbreviation (input) RBRACE :: char where "RBRACE \<equiv> CHR 0x7D"
abbreviation (input) QUOTE :: char where "QUOTE \<equiv> CHR 0x27"
abbreviation (input) DQUOTE :: char where "DQUOTE \<equiv> CHR 0x22"
abbreviation (input) BACKSLASH :: char where "BACKSLASH \<equiv> CHR 0x5C"
abbreviation (input) PIPE :: char where "PIPE \<equiv> CHR ''|''"

definition blank :: "char \<Rightarrow> bool" where
  "blank c \<longleftrightarrow> c = CHR '' '' \<or> c = TAB"

subsection \<open>Variable expansion\<close>

definition name_char :: "char \<Rightarrow> bool" where
  "name_char c \<longleftrightarrow> c_isupper c \<or> c_islower c \<or> c_isdigit c \<or> c = CHR ''_''"

text \<open>The value is copied only if it leaves room for the terminator.\<close>

definition var_value :: "(string \<Rightarrow> string option) \<Rightarrow> nat \<Rightarrow> string \<Rightarrow> string" where
  "var_value env ri name =
     (case env name of None \<Rightarrow> [] | Some v \<Rightarrow> if ri + length v < MAX_LINE - 1 then v else [])"

text \<open>
  The loop of \<open>expand_variables\<close> on the rest of the token, with \<open>ri\<close> characters written. After
  \<open>${NAME}\<close> the index stands behind the brace and the loop's increment skips one more character.
\<close>

function expand_from :: "(string \<Rightarrow> string option) \<Rightarrow> nat \<Rightarrow> string \<Rightarrow> string" where
  "expand_from env ri [] = []"
| "expand_from env ri (c # s) =
     (if ri \<ge> MAX_LINE - 1 then []
      else if c = DOLLAR \<and> s \<noteq> [] then
        (if hd s = LBRACE then
           let name = take 255 (takeWhile (\<lambda>x. x \<noteq> RBRACE) (tl s));
               r = drop (length name) (tl s);
               r1 = (if r \<noteq> [] \<and> hd r = RBRACE then tl r else r);
               v = var_value env ri name
           in v @ expand_from env (ri + length v) (tl r1)
         else
           let name = take 255 (takeWhile name_char s);
               v = var_value env ri name
           in v @ expand_from env (ri + length v) (drop (length name) s))
      else c # expand_from env (ri + 1) s)"
  by pat_completeness auto
termination
proof (relation "measure (\<lambda>(env, ri, s). length s)", goal_cases)
  case (2 env ri c s name r r1 v)
  have "length (tl r1) \<le> length (tl s)" using 2 by (cases r) auto
  then show ?case by simp
qed auto

declare expand_from.simps [simp del]

definition expand_variables :: "(string \<Rightarrow> string option) \<Rightarrow> string \<Rightarrow> string" where
  "expand_variables env token = expand_from env 0 token"

subsection \<open>Tokens\<close>

fun cons_token :: "char \<Rightarrow> (string \<times> string) option \<Rightarrow> (string \<times> string) option" where
  "cons_token c None = None"
| "cons_token c (Some (t, r)) = Some (c # t, r)"

fun scan_token :: "bool \<Rightarrow> bool \<Rightarrow> nat \<Rightarrow> string \<Rightarrow> (string \<times> string) option" where
  "scan_token in_single in_double ti [] = Some ([], [])"
| "scan_token in_single in_double ti (c # s) =
     (if \<not> in_single \<and> \<not> in_double \<and> blank c then Some ([], c # s)
      else if c = QUOTE \<and> \<not> in_double then scan_token (\<not> in_single) in_double ti s
      else if c = DQUOTE \<and> \<not> in_single then scan_token in_single (\<not> in_double) ti s
      else if c = BACKSLASH \<and> \<not> in_single \<and> s \<noteq> [] then
        (if ti < MAX_LINE - 1
         then (case s of [] \<Rightarrow> None | d # s' \<Rightarrow> cons_token d (scan_token in_single in_double (ti + 1) s'))
         else scan_token in_single in_double ti s)
      else if ti < MAX_LINE - 1 then cons_token c (scan_token in_single in_double (ti + 1) s)
      else None)"

lemma cons_token_Some: "cons_token c x = Some (t, r) \<Longrightarrow> \<exists>t'. x = Some (t', r) \<and> t = c # t'"
  by (cases x) auto

lemma scan_token_rest: "scan_token a b ti s = Some (t, r) \<Longrightarrow> length r \<le> length s"
proof (induction a b ti s arbitrary: t rule: scan_token.induct)
  case (2 in_single in_double ti c s)
  then show ?case by (auto split: if_splits list.splits dest!: cons_token_Some) (meson le_SucI le_trans)+
qed simp

lemma scan_token_progress:
  assumes "scan_token False False ti (c # s) = Some (t, r)" and "\<not> blank c"
  shows "length r < length (c # s)"
  using assms by (auto split: if_splits list.splits dest!: cons_token_Some scan_token_rest)

function tokenize_from :: "(string \<Rightarrow> string option) \<Rightarrow> nat \<Rightarrow> nat \<Rightarrow> string \<Rightarrow> string list option" where
  "tokenize_from env max_args argc p =
     (if p = [] \<or> argc \<ge> max_args - 1 then Some []
      else case dropWhile blank p of
        [] \<Rightarrow> Some []
      | c # q \<Rightarrow>
          (case scan_token False False 0 (c # q) of
             None \<Rightarrow> None
           | Some (token, rest) \<Rightarrow>
               if token \<noteq> []
               then map_option (\<lambda>ts. expand_variables env token # ts) (tokenize_from env max_args (argc + 1) rest)
               else tokenize_from env max_args argc rest))"
  by pat_completeness auto
termination
proof (relation "measure (\<lambda>(env, m, n, p). length p)", goal_cases)
  case 1
  then show ?case by simp
next
  case (2 env m n p c q x token rest)
  have "\<not> blank c" using 2(2) by (metis dropWhile_eq_Cons_conv)
  then have "length rest < length (c # q)" using 2 scan_token_progress by fastforce
  moreover have "length (c # q) \<le> length p" using 2(2) by (metis length_dropWhile_le)
  ultimately show ?case by simp
next
  case (3 env m n p c q x token rest)
  have "\<not> blank c" using 3(2) by (metis dropWhile_eq_Cons_conv)
  then have "length rest < length (c # q)" using 3 scan_token_progress by fastforce
  moreover have "length (c # q) \<le> length p" using 3(2) by (metis length_dropWhile_le)
  ultimately show ?case by simp
qed

declare tokenize_from.simps [simp del]

definition tokenize :: "(string \<Rightarrow> string option) \<Rightarrow> string \<Rightarrow> nat \<Rightarrow> string list option" where
  "tokenize env str max_args = tokenize_from env max_args 0 str"

subsection \<open>Commands and pipelines\<close>

record command =
  cmd_argv :: "string list"
  input_file :: "string option"
  output_file :: "string option"
  cmd_append :: bool
  cmd_background :: bool

record pipeline =
  pl_commands :: "command list"
  pl_background :: bool

text \<open>Kept arguments are collected in front; an operator at the very end is an ordinary argument.\<close>

fun parse_redirections :: "string list \<Rightarrow> command \<Rightarrow> command" where
  "parse_redirections [] cmd = cmd"
| "parse_redirections [a] cmd = cmd\<lparr>cmd_argv := cmd_argv cmd @ [a]\<rparr>"
| "parse_redirections (a # b # as) cmd =
     (if a = ''<'' then parse_redirections as (cmd\<lparr>input_file := Some b\<rparr>)
      else if a = ''>>'' then parse_redirections as (cmd\<lparr>output_file := Some b, cmd_append := True\<rparr>)
      else if a = ''>'' then parse_redirections as (cmd\<lparr>output_file := Some b, cmd_append := False\<rparr>)
      else parse_redirections (b # as) (cmd\<lparr>cmd_argv := cmd_argv cmd @ [a]\<rparr>))"

definition empty_command :: command where
  "empty_command = \<lparr>cmd_argv = [], input_file = None, output_file = None, cmd_append = False, cmd_background = False\<rparr>"

text \<open>\<open>strtok_r\<close> with the delimiter \<open>|\<close>: the non-empty pieces between delimiters.\<close>

fun split_on :: "char \<Rightarrow> string \<Rightarrow> string list" where
  "split_on d [] = [[]]"
| "split_on d (c # s) =
     (if c = d then [] # split_on d s
      else (case split_on d s of [] \<Rightarrow> [[c]] | w # ws \<Rightarrow> (c # w) # ws))"

definition segments :: "string \<Rightarrow> string list" where
  "segments s = filter (\<lambda>w. w \<noteq> []) (split_on PIPE s)"

fun parse_segments :: "(string \<Rightarrow> string option) \<Rightarrow> nat \<Rightarrow> string list \<Rightarrow> command list option" where
  "parse_segments env n [] = Some []"
| "parse_segments env n (w # ws) =
     (if n \<ge> MAX_PIPES then Some []
      else case tokenize env w MAX_ARGS of
        None \<Rightarrow> None
      | Some args \<Rightarrow>
          if args = [] then parse_segments env n ws
          else map_option (\<lambda>cs. parse_redirections args empty_command # cs) (parse_segments env (n + 1) ws))"

definition trim_right :: "string \<Rightarrow> string" where
  "trim_right s = rev (dropWhile blank (rev s))"

fun set_last :: "('a \<Rightarrow> 'a) \<Rightarrow> 'a list \<Rightarrow> 'a list" where
  "set_last f [] = []"
| "set_last f [x] = [f x]"
| "set_last f (x # y # xs) = x # set_last f (y # xs)"

text \<open>The outer \<^const>\<open>None\<close>: the call does not return; \<^const>\<open>Inl\<close>: it returns -1.\<close>

definition parse_line :: "(string \<Rightarrow> string option) \<Rightarrow> string \<Rightarrow> (int + pipeline) option" where
  "parse_line env line =
     (let t = trim_right line;
          bg = (t \<noteq> [] \<and> last t = CHR ''&'');
          copy = (if bg then trim_right (butlast t) else line)
      in case parse_segments env 0 (segments copy) of
           None \<Rightarrow> None
         | Some cmds \<Rightarrow>
             if cmds = [] then Some (Inl (-1))
             else Some (Inr \<lparr>pl_commands = set_last (\<lambda>c. c\<lparr>cmd_background := bg\<rparr>) cmds, pl_background = bg\<rparr>))"

text \<open>The strings \<open>free_pipeline\<close> releases.\<close>

definition free_pipeline :: "pipeline \<Rightarrow> string list" where
  "free_pipeline p = concat (map (\<lambda>c. cmd_argv c @ (case input_file c of None \<Rightarrow> [] | Some f \<Rightarrow> [f]) @
     (case output_file c of None \<Rightarrow> [] | Some f \<Rightarrow> [f])) (pl_commands p))"

subsection \<open>Plain text and quoted words\<close>

lemma expand_plain: "DOLLAR \<notin> set s \<Longrightarrow> ri + length s \<le> MAX_LINE - 1 \<Longrightarrow> expand_from env ri s = s"
proof (induction s arbitrary: ri)
  case Nil
  then show ?case by (simp add: expand_from.simps)
next
  case (Cons c s)
  then show ?case by (subst expand_from.simps) (auto simp: shell_limits)
qed

text \<open>A character that stands for itself outside quotes.\<close>

definition plain :: "char \<Rightarrow> bool" where
  "plain c \<longleftrightarrow> \<not> blank c \<and> c \<noteq> QUOTE \<and> c \<noteq> DQUOTE \<and> c \<noteq> BACKSLASH \<and> c \<noteq> DOLLAR \<and> c \<noteq> PIPE"

lemma scan_plain:
  "list_all plain a \<Longrightarrow> ti + length a \<le> MAX_LINE - 1 \<Longrightarrow> scan_token False False (ti + length a) r = Some (t, q) \<Longrightarrow>
   scan_token False False ti (a @ r) = Some (a @ t, q)"
  by (induction a arbitrary: ti) (auto simp: plain_def)

lemma scan_quoted:
  "QUOTE \<notin> set a \<Longrightarrow> ti + length a \<le> MAX_LINE - 1 \<Longrightarrow>
   scan_token True False ti (a @ r) =
     map_option (\<lambda>(t, q). (a @ t, q)) (scan_token True False (ti + length a) r)"
proof (induction a arbitrary: ti)
  case Nil
  then show ?case by (cases "scan_token True False ti r") auto
next
  case (Cons c a)
  then show ?case by (cases "scan_token True False (Suc ti + length a) r") auto
qed

definition squote :: "string \<Rightarrow> string" where
  "squote a = QUOTE # a @ [QUOTE]"

lemma squote_not_Nil [simp]: "squote a \<noteq> []"
  by (simp add: squote_def)

abbreviation quotable :: "string \<Rightarrow> bool" where
  "quotable a \<equiv> a \<noteq> [] \<and> QUOTE \<notin> set a \<and> DOLLAR \<notin> set a \<and> length a < MAX_LINE"

lemma scan_squote:
  assumes "quotable a" and "r = [] \<or> blank (hd r)"
  shows "scan_token False False 0 (squote a @ r) = Some (a, r)"
proof -
  have r: "scan_token False False n r = Some ([], r)" for n using assms(2) by (cases r) auto
  have "scan_token True False 0 (a @ QUOTE # r) = map_option (\<lambda>(t, q). (a @ t, q)) (scan_token True False (length a) (QUOTE # r))"
    using assms(1) by (subst scan_quoted) (auto simp: shell_limits)
  also have "\<dots> = Some (a, r)" using r by simp
  finally show ?thesis by (simp add: squote_def blank_def)
qed

text \<open>Words written in single quotes, separated by blanks.\<close>

fun quoted_line :: "string list \<Rightarrow> string" where
  "quoted_line [] = []"
| "quoted_line [a] = squote a"
| "quoted_line (a # b # as) = squote a @ '' '' @ quoted_line (b # as)"

lemma dropWhile_squote: "dropWhile blank (squote a @ r) = squote a @ r"
  by (simp add: squote_def blank_def)

lemma tokenize_word:
  assumes "quotable a" and "argc < m - 1" and "r = [] \<or> blank (hd r)" and "sp = [] \<or> sp = '' ''"
  shows "tokenize_from env m argc (sp @ squote a @ r) = map_option (\<lambda>ts. a # ts) (tokenize_from env m (argc + 1) r)"
proof -
  have ex: "expand_variables env a = a" using assms(1) by (simp add: expand_variables_def expand_plain shell_limits)
  obtain q where q: "squote a @ r = QUOTE # q" by (simp add: squote_def)
  have d: "dropWhile blank (sp @ squote a @ r) = QUOTE # q"
    using assms(4) dropWhile_squote [of a r] q by (auto simp: blank_def)
  have sc: "scan_token False False 0 (QUOTE # q) = Some (a, r)" using scan_squote [OF assms(1,3)] q by simp
  show ?thesis unfolding tokenize_from.simps [of env m argc "sp @ squote a @ r"] d
    using assms(1,2) sc ex by (simp del: scan_token.simps)
qed

lemma tokenize_quoted:
  "list_all quotable as \<Longrightarrow> argc + length as < m \<Longrightarrow> sp = [] \<or> (sp = '' '' \<and> as \<noteq> []) \<Longrightarrow>
   tokenize_from env m argc (sp @ quoted_line as) = Some as"
proof (induction as arbitrary: argc sp rule: quoted_line.induct)
  case 1
  then show ?case by (subst tokenize_from.simps) simp
next
  case (2 a)
  have "tokenize_from env m (argc + 1) [] = Some []" by (subst tokenize_from.simps) simp
  with tokenize_word [of a argc m "[]" sp env] 2 show ?case by simp
next
  case (3 a b as)
  have sp: "sp = [] \<or> sp = '' ''" using 3(4) by blast
  have "tokenize_from env m (argc + 1) ('' '' @ quoted_line (b # as)) = Some (b # as)"
    using 3(2,3) by (intro 3(1)) auto
  with tokenize_word [of a argc m "'' '' @ quoted_line (b # as)" sp env] sp 3(2,3) show ?case
    by (simp add: blank_def)
qed

lemma split_on_none: "d \<notin> set s \<Longrightarrow> split_on d s = [s]"
  by (induction s) auto

lemma split_on_once: "d \<notin> set a \<Longrightarrow> split_on d (a @ d # b) = a # split_on d b"
  by (induction a) auto

lemma quoted_line_facts:
  assumes "as \<noteq> []"
  shows "quoted_line as \<noteq> []" and "last (quoted_line as) = QUOTE"
    and "c \<in> set (quoted_line as) \<Longrightarrow> c = QUOTE \<or> c = CHR '' '' \<or> (\<exists>a \<in> set as. c \<in> set a)"
proof -
  have n: "quoted_line as \<noteq> []" if "as \<noteq> []" for as using that by (cases as rule: quoted_line.cases) simp_all
  then show "quoted_line as \<noteq> []" using assms .
  show "last (quoted_line as) = QUOTE" using assms
    by (induction as rule: quoted_line.induct) (simp_all add: squote_def n)
  show "c = QUOTE \<or> c = CHR '' '' \<or> (\<exists>a \<in> set as. c \<in> set a)" if "c \<in> set (quoted_line as)"
    using that by (induction as rule: quoted_line.induct) (auto simp: squote_def)
qed

lemma parse_redirections_none:
  "list_all (\<lambda>a. a \<noteq> ''<'' \<and> a \<noteq> ''>'' \<and> a \<noteq> ''>>'') as \<Longrightarrow>
   parse_redirections as cmd = cmd\<lparr>cmd_argv := cmd_argv cmd @ as\<rparr>"
  by (induction as cmd rule: parse_redirections.induct) auto

lemma trim_right_id: "s \<noteq> [] \<Longrightarrow> \<not> blank (last s) \<Longrightarrow> trim_right s = s"
  by (cases s rule: rev_cases) (auto simp: trim_right_def)

lemma parse_line_foreground:
  assumes "line \<noteq> []" "\<not> blank (last line)" "last line \<noteq> CHR ''&''" and "cmds \<noteq> []"
    and "parse_segments env 0 (segments line) = Some cmds"
  shows "parse_line env line = Some (Inr \<lparr>pl_commands = set_last (\<lambda>c. c\<lparr>cmd_background := False\<rparr>) cmds, pl_background = False\<rparr>)"
  unfolding parse_line_def Let_def trim_right_id [OF assms(1,2)] using assms(3-5) by simp

lemma parse_quoted_line:
  assumes "as \<noteq> []" and "length as < MAX_ARGS"
    and "list_all (\<lambda>a. a \<noteq> [] \<and> QUOTE \<notin> set a \<and> DOLLAR \<notin> set a \<and> length a < MAX_LINE) as"
    and "list_all (\<lambda>a. PIPE \<notin> set a \<and> a \<noteq> ''<'' \<and> a \<noteq> ''>'' \<and> a \<noteq> ''>>'') as"
  shows "parse_line env (quoted_line as) = Some (Inr \<lparr>pl_commands = [empty_command\<lparr>cmd_argv := as\<rparr>], pl_background = False\<rparr>)"
proof -
  note q = quoted_line_facts [OF assms(1)]
  have "PIPE \<notin> set (quoted_line as)" using q(3) [of PIPE] assms(4) by (auto simp: list_all_iff)
  then have seg: "segments (quoted_line as) = [quoted_line as]" using q(1) by (simp add: segments_def split_on_none)
  have tok: "tokenize env (quoted_line as) MAX_ARGS = Some as"
    unfolding tokenize_def using tokenize_quoted [of as 0 MAX_ARGS "[]" env] assms(2,3) by simp
  have red: "parse_redirections as empty_command = empty_command\<lparr>cmd_argv := as\<rparr>"
    using parse_redirections_none [of as empty_command] assms(4) by (simp add: empty_command_def list_all_iff)
  have "parse_segments env 0 (segments (quoted_line as)) = Some [empty_command\<lparr>cmd_argv := as\<rparr>]"
    unfolding seg using assms(1) by (simp add: tok red MAX_PIPES_def)
  from parse_line_foreground [OF q(1) _ _ _ this] q(2) show ?thesis by (simp add: empty_command_def blank_def)
qed

subsection \<open>Properties\<close>

text \<open>
  Quoting: a line of single-quoted words separated by blanks parses into exactly one command
  with these words as arguments, blanks, double quotes and backslashes inside them kept, as long as
  no word holds a single quote, a dollar sign or a pipe and none is itself a redirection operator.
\<close>

lemma parse_line_quoted:
  assumes "as \<noteq> []" and "length as < MAX_ARGS"
    and "list_all (\<lambda>a. a \<noteq> [] \<and> QUOTE \<notin> set a \<and> DOLLAR \<notin> set a \<and> length a < MAX_LINE) as"
    and "list_all (\<lambda>a. PIPE \<notin> set a \<and> a \<noteq> ''<'' \<and> a \<noteq> ''>'' \<and> a \<noteq> ''>>'') as"
  shows "parse_line env (quoted_line as) = Some (Inr \<lparr>pl_commands = [empty_command\<lparr>cmd_argv := as\<rparr>], pl_background = False\<rparr>)"
  by (rule parse_quoted_line [OF assms])

lemma parse_line_quoted_witness:
  "parse_line Map.empty (quoted_line [''ls'', ''my file'']) =
     Some (Inr \<lparr>pl_commands = [empty_command\<lparr>cmd_argv := [''ls'', ''my file'']\<rparr>], pl_background = False\<rparr>)"
  by (rule parse_line_quoted) (simp_all add: shell_limits)

text \<open>
  Quotes do not protect a pipe: the line is split at every \<open>|\<close> before the quotes are looked at,
  so a command with the quoted argument \<open>a|b\<close> becomes two commands.
\<close>

lemma quoted_pipe_splits:
  assumes "list_all plain w" "list_all plain a" "list_all plain b" and "w \<noteq> []" "a \<noteq> []" "b \<noteq> []"
    and "length w < MAX_LINE" "length a < MAX_LINE" "length b < MAX_LINE"
    and "list_all (\<lambda>x. x \<noteq> ''<'' \<and> x \<noteq> ''>'' \<and> x \<noteq> ''>>'') [w, a, b]"
  shows "parse_line env (w @ '' '' @ QUOTE # a @ PIPE # b @ [QUOTE]) =
    Some (Inr \<lparr>pl_commands = [empty_command\<lparr>cmd_argv := [w, a]\<rparr>, empty_command\<lparr>cmd_argv := [b]\<rparr>], pl_background = False\<rparr>)"
proof -
  have nodollar: "DOLLAR \<notin> set x" "PIPE \<notin> set x" "QUOTE \<notin> set x" if "list_all plain x" for x
    using that by (auto simp: list_all_iff plain_def)
  have ex: "expand_variables env x = x" if "list_all plain x" "length x < MAX_LINE" for x
    using that nodollar(1) [OF that(1)] by (simp add: expand_variables_def expand_plain shell_limits)
  have word: "tokenize_from env m n (x @ r) = map_option (\<lambda>ts. x # ts) (tokenize_from env m (n + 1) r')"
    if x: "list_all plain x" "x \<noteq> []" "length x < MAX_LINE" "n < m - 1" and r: "scan_token False False (length x) r = Some ([], r')" for x m n r r'
  proof -
    obtain c y where cy: "x @ r = c # y" and nb: "\<not> blank c" using x(1,2) by (cases x) (auto simp: plain_def)
    have "scan_token False False 0 (c # y) = Some (x, r')"
      using scan_plain [of x 0 r "[]" r'] x r cy by (simp add: shell_limits)
    then show ?thesis unfolding cy tokenize_from.simps [of env m n "c # y"] using nb x ex [OF x(1,3)]
      by (simp del: scan_token.simps)
  qed
  have nil_ok: "tokenize_from env m n [] = Some []" for m n by (subst tokenize_from.simps) simp
  have qa: "tokenize_from env m n ('' '' @ QUOTE # a) = Some [a]" if "n < m - 1" for m n
  proof -
    have "scan_token True False 0 (a @ []) = Some (a, [])"
      using nodollar(3) [OF assms(2)] assms(8) by (subst scan_quoted) (simp_all add: shell_limits)
    then have "scan_token False False 0 (QUOTE # a) = Some (a, [])" by (simp add: blank_def)
    then show ?thesis unfolding tokenize_from.simps [of env m n "'' '' @ QUOTE # a"]
      using that assms(5) ex [OF assms(2,8)] nil_ok by (simp add: blank_def del: scan_token.simps)
  qed
  have t1: "tokenize env (w @ '' '' @ QUOTE # a) MAX_ARGS = Some [w, a]"
    unfolding tokenize_def
    by (subst word [OF assms(1,4,7), where r' = "'' '' @ QUOTE # a"]) (simp_all add: blank_def shell_limits qa [simplified])
  have t2: "tokenize env (b @ [QUOTE]) MAX_ARGS = Some [b]"
    unfolding tokenize_def
    by (subst word [OF assms(3,6,9), where r' = "[]"]) (simp_all add: blank_def shell_limits nil_ok)
  let ?l = "w @ '' '' @ QUOTE # a @ PIPE # b @ [QUOTE]"
  have "split_on PIPE ((w @ '' '' @ QUOTE # a) @ PIPE # (b @ [QUOTE])) = (w @ '' '' @ QUOTE # a) # split_on PIPE (b @ [QUOTE])"
    using nodollar(2) [OF assms(1)] nodollar(2) [OF assms(2)] by (intro split_on_once) simp
  moreover have "split_on PIPE (b @ [QUOTE]) = [b @ [QUOTE]]" using nodollar(2) [OF assms(3)] by (intro split_on_none) simp
  ultimately have seg: "segments ?l = [w @ '' '' @ QUOTE # a, b @ [QUOTE]]" by (simp add: segments_def)
  have red: "parse_redirections [w, a] empty_command = empty_command\<lparr>cmd_argv := [w, a]\<rparr>"
    "parse_redirections [b] empty_command = empty_command\<lparr>cmd_argv := [b]\<rparr>"
    using parse_redirections_none [of "[w, a]" empty_command] parse_redirections_none [of "[b]" empty_command] assms(10)
    by (simp_all add: empty_command_def)
  have "parse_segments env 0 (segments ?l) =
      Some [empty_command\<lparr>cmd_argv := [w, a]\<rparr>, empty_command\<lparr>cmd_argv := [b]\<rparr>]"
    unfolding seg parse_segments.simps t1 t2 option.case red by (simp add: shell_limits)
  from parse_line_foreground [OF _ _ _ _ this] show ?thesis by (simp add: empty_command_def blank_def)
qed

lemma quoted_pipe_splits_witness:
  "parse_line Map.empty (''echo'' @ '' '' @ QUOTE # ''a'' @ PIPE # ''b'' @ [QUOTE]) =
    Some (Inr \<lparr>pl_commands = [empty_command\<lparr>cmd_argv := [''echo'', ''a'']\<rparr>, empty_command\<lparr>cmd_argv := [''b'']\<rparr>], pl_background = False\<rparr>)"
  by (rule quoted_pipe_splits) (simp_all add: plain_def blank_def shell_limits)

text \<open>
  \<open>${NAME}\<close> swallows the character after the closing brace: whatever that character is, the
  expansion is the same.
\<close>

lemma brace_expansion_drops:
  assumes "RBRACE \<notin> set name" and "length name \<le> 255"
  shows "expand_variables env (DOLLAR # LBRACE # name @ RBRACE # c # s) =
    var_value env 0 name @ expand_from env (length (var_value env 0 name)) s"
proof -
  have tw: "takeWhile (\<lambda>x. x \<noteq> RBRACE) (name @ RBRACE # c # s) = name"
    using assms(1) by (subst takeWhile_append2) auto
  show ?thesis unfolding expand_variables_def expand_from.simps(2) using assms(2)
    by (simp add: tw shell_limits Let_def)
qed

lemma brace_expansion_drops_witness:
  "expand_variables [''HOME'' \<mapsto> ''/root''] (DOLLAR # LBRACE # ''HOME'' @ RBRACE # ''/bin'') = ''/rootbin''"
proof -
  have "expand_from [''HOME'' \<mapsto> ''/root''] (length ''/root'') ''bin'' = ''bin''" by (rule expand_plain) (simp_all add: shell_limits)
  then show ?thesis
    using brace_expansion_drops [of "''HOME''" "[''HOME'' \<mapsto> ''/root'']" "CHR ''/''" "''bin''"]
    by (simp add: var_value_def shell_limits)
qed

end
