(* ===== verification/Id_Table.thy ===== *)
theory Id_Table
  imports Main
begin

text \<open>
  The contract of a bounded table that hands out identifiers: a new entry gets a positive identifier
  no live entry has, a full table refuses with a negative one and stays as it is, removal frees
  exactly one identifier, and events from outside may change or end entries but never create one.
  The locale is interpreted by the job table of the shell.
\<close>

datatype ('x, 'e) table_op = TAdd 'x | TDel int | TEvent 'e

locale id_table =
  fixes lookup :: "'s \<Rightarrow> int \<Rightarrow> 'j option"
    and add :: "'x \<Rightarrow> 's \<Rightarrow> int \<times> 's"
    and del :: "int \<Rightarrow> 's \<Rightarrow> 's"
    and event :: "'e \<Rightarrow> 's \<Rightarrow> 's"
    and legal :: "'e \<Rightarrow> bool"
    and inv :: "'s \<Rightarrow> bool"
    and capacity :: nat
  assumes add_ok: "inv s \<Longrightarrow> card (dom (lookup s)) < capacity \<Longrightarrow> add x s = (n, s') \<Longrightarrow>
      0 < n \<and> n \<notin> dom (lookup s) \<and> inv s' \<and> dom (lookup s') = insert n (dom (lookup s))"
    and add_full: "inv s \<Longrightarrow> capacity \<le> card (dom (lookup s)) \<Longrightarrow> add x s = (n, s') \<Longrightarrow>
      n < 0 \<and> inv s' \<and> lookup s' = lookup s"
    and del_ok: "inv s \<Longrightarrow> i \<noteq> 0 \<Longrightarrow> inv (del i s) \<and> lookup (del i s) = (lookup s)(i := None)"
    and event_ok: "inv s \<Longrightarrow> legal e \<Longrightarrow> inv (event e s) \<and> dom (lookup (event e s)) \<subseteq> dom (lookup s)"
    and bounded: "inv s \<Longrightarrow> finite (dom (lookup s)) \<and> card (dom (lookup s)) \<le> capacity"
begin

text \<open>A history collects the identifiers handed out.\<close>

fun tstep :: "('x, 'e) table_op \<Rightarrow> int list \<times> 's \<Rightarrow> int list \<times> 's" where
  "tstep (TAdd x) (issued, s) = (case add x s of (n, s') \<Rightarrow> (if 0 < n then issued @ [n] else issued, s'))"
| "tstep (TDel i) (issued, s) = (issued, del i s)"
| "tstep (TEvent e) (issued, s) = (issued, event e s)"

fun legal_op :: "('x, 'e) table_op \<Rightarrow> bool" where
  "legal_op (TAdd x) = True"
| "legal_op (TDel i) = (i \<noteq> 0)"
| "legal_op (TEvent e) = legal e"

definition live_ok :: "int list \<times> 's \<Rightarrow> bool" where
  "live_ok h \<longleftrightarrow> inv (snd h) \<and> dom (lookup (snd h)) \<subseteq> set (fst h)"

lemma tstep_live: "live_ok h \<Longrightarrow> legal_op t \<Longrightarrow> live_ok (tstep t h)"
proof (cases t)
  case (TAdd x)
  assume h: "live_ok h"
  obtain issued s n s' where [simp]: "h = (issued, s)" "add x s = (n, s')" by (cases h, cases "add x (snd h)") auto
  show ?thesis
  proof (cases "card (dom (lookup s)) < capacity")
    case True
    then show ?thesis using h TAdd add_ok [of s x n s'] by (auto simp: live_ok_def)
  next
    case False
    then show ?thesis using h TAdd add_full [of s x n s'] by (auto simp: live_ok_def)
  qed
next
  case (TDel i)
  assume "live_ok h" "legal_op t"
  then show ?thesis using TDel del_ok [of "snd h" i] by (cases h) (auto simp: live_ok_def)
next
  case (TEvent e)
  assume "live_ok h" "legal_op t"
  then show ?thesis using TEvent event_ok [of "snd h" e] by (cases h) (simp add: live_ok_def, blast)
qed

lemma history_live: "live_ok h \<Longrightarrow> list_all legal_op ts \<Longrightarrow> live_ok (fold tstep ts h)"
  by (induction ts arbitrary: h) (auto simp: tstep_live)

end

end
