(* ===== verification/Shell_Jobs.thy ===== *)
theory Shell_Jobs
  imports Shell_Parser Id_Table
begin

text \<open>
  The job table of \<open>mini-shell/src/job.c\<close>. The kernel is a parameter of the operations: the reports of
  \<open>waitpid\<close>, the answers of \<open>kill\<close>. What the shell prints and the terminal and signal calls it makes
  are collected in \<open>trace\<close>; the descriptors of the shell process are a table from numbers to what
  they refer to. Job numbers are mathematical integers: an identifier is one more than the largest
  live one, and the table has 64 slots.
\<close>

definition MAX_JOBS :: nat where "MAX_JOBS = 64"

datatype job_state = JOB_RUNNING | JOB_STOPPED | JOB_DONE

record job =
  job_id :: int
  pgid :: int
  pids :: "int list"
  state :: job_state
  job_command :: string
  job_background :: bool

definition zero_job :: job where
  "zero_job = \<lparr>job_id = 0, pgid = 0, pids = [], state = JOB_RUNNING, job_command = [], job_background = False\<rparr>"

text \<open>What a descriptor refers to; what a forked child does before it runs a program or ends.\<close>

datatype endpoint = Inherited nat | PipeR nat | PipeW nat | ReadFile string | WriteFile string bool

type_synonym fdtable = "(int \<times> endpoint) list"

datatype child = ChildExits int | ChildRuns "string list" fdtable

datatype sh_event = Out "endpoint option" string | Err string | Perror string | Tcsetpgrp int | SigCont int
  | Forked int int child

record shell =
  jobs :: "job list"
  num_jobs :: int
  interactive :: bool
  shell_pgid :: int
  last_exit_status :: int
  cwd :: string
  environ :: "(string \<times> string) list"
  fds :: fdtable
  trace :: "sh_event list"

definition emit :: "sh_event \<Rightarrow> shell \<Rightarrow> shell" where
  "emit e sh = sh\<lparr>trace := trace sh @ [e]\<rparr>"

text \<open>\<open>printf\<close> goes to whatever descriptor 1 refers to.\<close>

definition print :: "string \<Rightarrow> shell \<Rightarrow> shell" where
  "print s sh = emit (Out (map_of (fds sh) 1) s) sh"

text \<open>The status word of \<open>waitpid\<close>.\<close>

datatype wstatus = WExited int | WSignaled int | WStopped int | WContinued

subsection \<open>The table\<close>

text \<open>The first slot with the given identifier; identifier 0 marks a free slot.\<close>

fun slot_of :: "int \<Rightarrow> job list \<Rightarrow> nat option" where
  "slot_of i [] = None"
| "slot_of i (j # js) = (if job_id j = i then Some 0 else map_option Suc (slot_of i js))"

fun max_id :: "int \<Rightarrow> job list \<Rightarrow> int" where
  "max_id m [] = m"
| "max_id m (j # js) = max_id (if job_id j > m then job_id j else m) js"

definition job_add :: "int \<Rightarrow> string \<Rightarrow> bool \<Rightarrow> shell \<Rightarrow> int \<times> shell" where
  "job_add pg cmd bg sh =
     (case slot_of 0 (jobs sh) of
        None \<Rightarrow> (-1, emit (Err (''job_add: too many jobs'' @ [LF])) sh)
      | Some slot \<Rightarrow>
          let n = max_id 0 (jobs sh) + 1
          in (n, sh\<lparr>jobs := (jobs sh)[slot := \<lparr>job_id = n, pgid = pg, pids = [], state = JOB_RUNNING,
                     job_command = take (MAX_LINE - 1) cmd, job_background = bg\<rparr>],
                    num_jobs := num_jobs sh + 1\<rparr>))"

definition job_find :: "int \<Rightarrow> shell \<Rightarrow> nat option" where
  "job_find i sh = slot_of i (jobs sh)"

definition job_remove :: "int \<Rightarrow> shell \<Rightarrow> shell" where
  "job_remove i sh =
     (case slot_of i (jobs sh) of
        None \<Rightarrow> sh
      | Some slot \<Rightarrow> sh\<lparr>jobs := (jobs sh)[slot := zero_job], num_jobs := num_jobs sh - 1\<rparr>)"

definition set_job :: "nat \<Rightarrow> job \<Rightarrow> shell \<Rightarrow> shell" where
  "set_job slot j sh = sh\<lparr>jobs := (jobs sh)[slot := j]\<rparr>"

subsection \<open>State changes reported by the kernel\<close>

text \<open>
  The loop that looks for a process still alive: it stops at the first one and marks the dead ones
  before it.
\<close>

fun reap_loop :: "(int \<Rightarrow> bool) \<Rightarrow> int list \<Rightarrow> int list \<times> bool" where
  "reap_loop alive [] = ([], True)"
| "reap_loop alive (p # ps) =
     (if p > 0 \<and> alive p then (p # ps, False)
      else case reap_loop alive ps of (qs, b) \<Rightarrow> ((if p > 0 then -1 else p) # qs, b))"

fun owner_of :: "int \<Rightarrow> job list \<Rightarrow> nat option" where
  "owner_of pid [] = None"
| "owner_of pid (j # js) =
     (if job_id j \<noteq> 0 \<and> (pgid j = pid \<or> pid \<in> set (pids j)) then Some 0 else map_option Suc (owner_of pid js))"

text \<open>One report: the process, its status, and which processes \<open>kill(pid, 0)\<close> finds at that moment.\<close>

type_synonym report = "int \<times> wstatus \<times> (int \<Rightarrow> bool)"

definition job_line :: "string \<Rightarrow> job \<Rightarrow> string" where
  "job_line what j = [LF] @ ''['' @ dec_int (job_id j) @ ''] '' @ what @ '': '' @ job_command j @ [LF]"

definition job_exited :: "int \<Rightarrow> (int \<Rightarrow> bool) \<Rightarrow> nat \<Rightarrow> job \<Rightarrow> shell \<Rightarrow> shell" where
  "job_exited pid alive slot j sh =
     (case reap_loop alive (map (\<lambda>p. if p = pid then -1 else p) (pids j)) of
        (ps, all_done) \<Rightarrow>
          if all_done then
            (let sh1 = set_job slot (j\<lparr>pids := ps, state := JOB_DONE\<rparr>) sh;
                 sh2 = (if job_background j then print (job_line ''Done'' j) sh1 else sh1)
             in job_remove (job_id j) sh2)
          else set_job slot (j\<lparr>pids := ps\<rparr>) sh)"

definition update_one :: "report \<Rightarrow> shell \<Rightarrow> shell" where
  "update_one r sh =
     (case r of (pid, status, alive) \<Rightarrow>
        (case owner_of pid (jobs sh) of
           None \<Rightarrow> sh
         | Some slot \<Rightarrow>
             let j = jobs sh ! slot
             in (case status of
                   WExited _ \<Rightarrow> job_exited pid alive slot j sh
                 | WSignaled _ \<Rightarrow> job_exited pid alive slot j sh
                 | WStopped _ \<Rightarrow>
                     let sh1 = set_job slot (j\<lparr>state := JOB_STOPPED\<rparr>) sh
                     in if job_background j then print (job_line ''Stopped'' j) sh1 else sh1
                 | WContinued \<Rightarrow> set_job slot (j\<lparr>state := JOB_RUNNING\<rparr>) sh)))"

definition job_update :: "report list \<Rightarrow> shell \<Rightarrow> shell" where
  "job_update rs sh = fold update_one rs sh"

fun state_str :: "job_state \<Rightarrow> string" where
  "state_str JOB_RUNNING = ''Running''" | "state_str JOB_STOPPED = ''Stopped''" | "state_str JOB_DONE = ''Done''"

definition job_print :: "shell \<Rightarrow> shell" where
  "job_print sh =
     fold (\<lambda>j. if job_id j = 0 then id
               else print (''['' @ dec_int (job_id j) @ ''] '' @ state_str (state j) @
                    (if job_background j then '' &'' else []) @ '' '' @ job_command j @ [LF]))
       (jobs sh) sh"

subsection \<open>Waiting for a job\<close>

text \<open>
  The wait loop over the processes: \<open>wait p\<close> is the status \<open>waitpid\<close> delivers, \<^const>\<open>None\<close> an error,
  which leaves the previous status word in place. Returned: the exit status, the job and what was
  printed.
\<close>

fun wait_pids :: "(int \<Rightarrow> wstatus option) \<Rightarrow> int list \<Rightarrow> wstatus \<Rightarrow> int \<Rightarrow> job \<Rightarrow> int \<times> job \<times> string list" where
  "wait_pids wait [] status lst j = (lst, j, [])"
| "wait_pids wait (p # ps) status lst j =
     (if p \<le> 0 then wait_pids wait ps status lst j
      else let st = (case wait p of None \<Rightarrow> status | Some s \<Rightarrow> s)
           in (case st of
                 WExited c \<Rightarrow> wait_pids wait ps st c j
               | WSignaled s \<Rightarrow> wait_pids wait ps st (128 + s) j
               | WStopped s \<Rightarrow>
                   (case wait_pids wait ps st (128 + s) (j\<lparr>state := JOB_STOPPED, job_background := True\<rparr>) of
                      (l, j', out) \<Rightarrow> (l, j', job_line ''Stopped'' j # out))
               | WContinued \<Rightarrow> wait_pids wait ps st lst j))"

definition job_wait :: "(int \<Rightarrow> wstatus option) \<Rightarrow> (int \<Rightarrow> bool) \<Rightarrow> int \<Rightarrow> shell \<Rightarrow> int \<times> shell" where
  "job_wait wait kill_ok i sh =
     (case job_find i sh of
        None \<Rightarrow> (1, emit (Err (''fg: job '' @ dec_int i @ '' not found'' @ [LF])) sh)
      | Some slot \<Rightarrow>
          let j = jobs sh ! slot;
              sh1 = (if interactive sh then emit (Tcsetpgrp (pgid j)) sh else sh);
              sh2 = (if state j = JOB_STOPPED
                     then (let s = emit (SigCont (pgid j)) sh1
                           in if kill_ok (pgid j) then s else emit (Perror ''fg: kill SIGCONT'') s)
                     else sh1);
              j1 = (if state j = JOB_STOPPED then j\<lparr>state := JOB_RUNNING\<rparr> else j)\<lparr>job_background := False\<rparr>
          in (case wait_pids wait (pids j1) (WExited 0) 0 j1 of
                (last_status, j2, out) \<Rightarrow>
                  let sh3 = fold print out (set_job slot j2 sh2);
                      sh4 = (if interactive sh then emit (Tcsetpgrp (shell_pgid sh)) sh3 else sh3);
                      sh5 = (if state j2 \<noteq> JOB_STOPPED then job_remove i sh4 else sh4)
                  in (last_status, sh5\<lparr>last_exit_status := last_status\<rparr>)))"

subsection \<open>The table as a partial map\<close>

definition ids :: "job list \<Rightarrow> int list" where
  "ids js = filter (\<lambda>i. i \<noteq> 0) (map job_id js)"

definition table_map :: "job list \<Rightarrow> int \<Rightarrow> job option" where
  "table_map js = map_of (map (\<lambda>j. (job_id j, j)) (filter (\<lambda>j. job_id j \<noteq> 0) js))"

definition job_map :: "shell \<Rightarrow> int \<Rightarrow> job option" where
  "job_map sh = table_map (jobs sh)"

definition shell_inv :: "shell \<Rightarrow> bool" where
  "shell_inv sh \<longleftrightarrow> length (jobs sh) = MAX_JOBS \<and> list_all (\<lambda>i. 0 \<le> i) (map job_id (jobs sh)) \<and>
     distinct (ids (jobs sh)) \<and> num_jobs sh = int (length (ids (jobs sh)))"

lemma zero_job_id [simp]: "job_id zero_job = 0"
  by (simp add: zero_job_def)

lemma ids_simps [simp]:
  "ids [] = []" "ids (j # js) = (if job_id j \<noteq> 0 then [job_id j] else []) @ ids js" "ids (as @ bs) = ids as @ ids bs"
  by (simp_all add: ids_def)

lemma zero_not_in_ids [simp]: "0 \<notin> set (ids js)"
  by (simp add: ids_def)

lemma table_map_simps [simp]:
  "table_map [] = Map.empty"
  "table_map (j # js) = (if job_id j = 0 then table_map js else (table_map js)(job_id j \<mapsto> j))"
  "table_map (as @ bs) = table_map bs ++ table_map as"
  by (simp_all add: table_map_def)

lemma dom_table_map: "dom (table_map js) = set (ids js)"
  by (induction js) auto

lemma table_map_None: "table_map js i = None \<longleftrightarrow> i \<notin> set (ids js)"
  by (metis dom_table_map domIff)

lemma slot_of_Some:
  "slot_of i js = Some k \<Longrightarrow> \<exists>as x bs. js = as @ x # bs \<and> length as = k \<and> job_id x = i \<and> i \<notin> job_id ` set as"
proof (induction js arbitrary: k)
  case (Cons j js)
  show ?case
  proof (cases "job_id j = i")
    case True
    then show ?thesis using Cons.prems by (intro exI [of _ "[]"]) simp
  next
    case False
    then obtain k' where k: "slot_of i js = Some k'" "k = Suc k'" using Cons.prems by auto
    from Cons.IH [OF k(1)] obtain as x bs where "js = as @ x # bs" "length as = k'" "job_id x = i" "i \<notin> job_id ` set as"
      by blast
    then show ?thesis using k(2) False by (intro exI [of _ "j # as"]) auto
  qed
qed simp

lemma slot_of_None: "slot_of i js = None \<longleftrightarrow> i \<notin> job_id ` set js"
  by (induction js) auto

lemma owner_of_Some:
  "owner_of pid js = Some k \<Longrightarrow> \<exists>as x bs. js = as @ x # bs \<and> length as = k \<and> job_id x \<noteq> 0"
proof (induction js arbitrary: k)
  case (Cons j js)
  show ?case
  proof (cases "job_id j \<noteq> 0 \<and> (pgid j = pid \<or> pid \<in> set (pids j))")
    case True
    then show ?thesis using Cons.prems by (intro exI [of _ "[]"]) auto
  next
    case False
    then obtain k' where k: "owner_of pid js = Some k'" "k = Suc k'" using Cons.prems by auto
    from Cons.IH [OF k(1)] obtain as x bs where "js = as @ x # bs" "length as = k'" "job_id x \<noteq> 0" by blast
    then show ?thesis using k(2) by (intro exI [of _ "j # as"]) auto
  qed
qed simp

lemma max_id_bound: "m \<le> max_id m js \<and> (\<forall>j \<in> set js. job_id j \<le> max_id m js)"
proof (induction js arbitrary: m)
  case (Cons j js)
  show ?case using Cons.IH [of "if job_id j > m then job_id j else m"] by auto
qed simp

lemma dom_job_map: "dom (job_map sh) = set (ids (jobs sh))"
  by (simp add: job_map_def dom_table_map)

text \<open>The map with one slot taken out; the slot itself adds its own binding.\<close>

lemma table_map_split:
  assumes "i \<notin> set (ids (as @ bs))" and "job_id x = i"
  shows "table_map (as @ x # bs) = (if i = 0 then table_map (as @ bs) else (table_map (as @ bs))(i \<mapsto> x))"
proof -
  have "table_map as i = None" using assms(1) by (simp add: table_map_None)
  then show ?thesis using assms(2) by (simp add: map_add_upd_left domIff)
qed

lemma shell_inv_split:
  assumes "jobs sh = as @ x # bs"
  shows "shell_inv sh \<longleftrightarrow> Suc (length as + length bs) = MAX_JOBS \<and> list_all (\<lambda>i. 0 \<le> i) (map job_id (as @ bs)) \<and> 0 \<le> job_id x \<and>
    distinct (ids (as @ bs)) \<and> job_id x \<notin> set (ids (as @ bs)) \<and>
    num_jobs sh = int (length (ids (as @ bs))) + (if job_id x = 0 then 0 else 1)"
  using assms by (cases "job_id x = 0") (auto simp: shell_inv_def)

text \<open>Rewriting one slot: to another job with the same number, to a free slot, from a free slot.\<close>

lemma slot_rewrite:
  assumes "shell_inv sh" and "jobs sh = as @ x # bs" and "jobs sh' = as @ y # bs"
    and "job_id y = job_id x \<or> job_id y = 0 \<or> (job_id x = 0 \<and> 0 < job_id y \<and> job_id y \<notin> set (ids (as @ bs)))"
    and "num_jobs sh' = num_jobs sh + (if job_id y = 0 then 0 else 1) - (if job_id x = 0 then 0 else 1)"
  shows "shell_inv sh'"
    and "job_map sh' = (let m = (job_map sh)(job_id x := None) in if job_id y = 0 then m else m(job_id y \<mapsto> y))"
proof -
  note old = assms(1) [unfolded shell_inv_split [OF assms(2)]]
  have ny: "job_id y \<notin> set (ids (as @ bs))" and pos: "0 \<le> job_id y" using assms(4) old zero_not_in_ids by (metis, linarith)
  show "shell_inv sh'" unfolding shell_inv_split [OF assms(3)] using old ny pos assms(5) by simp
  have nx: "job_id x \<notin> set (ids (as @ bs))" using old by blast
  then have "(table_map (as @ bs))(job_id x := None) = table_map (as @ bs)" by (intro fun_upd_idem) (subst table_map_None)
  then show "job_map sh' = (let m = (job_map sh)(job_id x := None) in if job_id y = 0 then m else m(job_id y \<mapsto> y))"
    unfolding job_map_def assms(2,3) table_map_split [OF nx refl] table_map_split [OF ny refl]
    by (cases "job_id x = 0") (simp_all add: Let_def del: table_map_simps)
qed

lemma nth_split: "js = as @ x # bs \<Longrightarrow> js ! length as = x" "js = as @ x # bs \<Longrightarrow> js[length as := y] = as @ y # bs"
  by simp_all

lemma emit_fields [simp]:
  "jobs (emit e sh) = jobs sh" "num_jobs (emit e sh) = num_jobs sh" "interactive (emit e sh) = interactive sh"
  "shell_pgid (emit e sh) = shell_pgid sh" "fds (emit e sh) = fds sh" "environ (emit e sh) = environ sh"
  "trace (emit e sh) = trace sh @ [e]" "last_exit_status (emit e sh) = last_exit_status sh" "cwd (emit e sh) = cwd sh"
  by (simp_all add: emit_def)

lemma print_fields [simp]:
  "jobs (print s sh) = jobs sh" "num_jobs (print s sh) = num_jobs sh" "interactive (print s sh) = interactive sh"
  "shell_pgid (print s sh) = shell_pgid sh" "fds (print s sh) = fds sh" "environ (print s sh) = environ sh"
  by (simp_all add: print_def)

lemma print_all_fields [simp]:
  "jobs (fold print ss sh) = jobs sh" "num_jobs (fold print ss sh) = num_jobs sh" "fds (fold print ss sh) = fds sh"
  by (induction ss arbitrary: sh) simp_all

lemma set_job_fields [simp]:
  "jobs (set_job k j sh) = (jobs sh)[k := j]" "num_jobs (set_job k j sh) = num_jobs sh" "fds (set_job k j sh) = fds sh"
  by (simp_all add: set_job_def)

lemma table_kept [simp]:
  "shell_inv (emit e sh) = shell_inv sh" "job_map (emit e sh) = job_map sh"
  "shell_inv (print s sh) = shell_inv sh" "job_map (print s sh) = job_map sh"
  "shell_inv (fold print ss sh) = shell_inv sh" "job_map (fold print ss sh) = job_map sh"
  "shell_inv (sh\<lparr>last_exit_status := v\<rparr>) = shell_inv sh" "job_map (sh\<lparr>last_exit_status := v\<rparr>) = job_map sh"
  by (simp_all add: shell_inv_def job_map_def)

lemma job_find_map:
  assumes "shell_inv sh" and "i \<noteq> 0"
  shows "job_map sh i = map_option (\<lambda>k. jobs sh ! k) (job_find i sh)"
proof (cases "job_find i sh")
  case None
  then have "i \<notin> set (ids (jobs sh))" by (auto simp: job_find_def slot_of_None ids_def)
  then show ?thesis using None by (simp add: job_map_def table_map_None)
next
  case (Some k)
  then obtain as x bs where s: "jobs sh = as @ x # bs" "length as = k" "job_id x = i"
    using slot_of_Some by (fastforce simp: job_find_def)
  have "i \<notin> set (ids (as @ bs))" using assms(1) s(3) shell_inv_split [OF s(1)] by blast
  from table_map_split [OF this s(3)] show ?thesis using s Some assms(2) by (auto simp: job_map_def)
qed

lemma job_count: "shell_inv sh \<Longrightarrow> num_jobs sh = int (card (dom (job_map sh))) \<and> card (dom (job_map sh)) \<le> MAX_JOBS"
proof -
  assume inv: "shell_inv sh"
  have "length (ids (jobs sh)) \<le> length (jobs sh)" by (simp add: ids_def le_trans [OF length_filter_le])
  then show ?thesis using inv by (simp add: dom_job_map shell_inv_def distinct_card)
qed

definition new_job :: "int \<times> string \<times> bool \<Rightarrow> int \<Rightarrow> job" where
  "new_job = (\<lambda>(pg, cmd, bg) n. \<lparr>job_id = n, pgid = pg, pids = [], state = JOB_RUNNING,
     job_command = take (MAX_LINE - 1) cmd, job_background = bg\<rparr>)"

lemma length_ids: "length (ids js) \<le> length js" "length (ids js) = length js \<longleftrightarrow> 0 \<notin> job_id ` set js"
proof -
  show le: "length (ids js) \<le> length js" for js by (induction js) simp_all
  show "length (ids js) = length js \<longleftrightarrow> 0 \<notin> job_id ` set js"
  proof (induction js)
    case (Cons j js)
    then show ?case using le [of js] by (cases "job_id j = 0") simp_all
  qed simp
qed

lemma free_slot:
  assumes "shell_inv sh"
  shows "slot_of 0 (jobs sh) = None \<longleftrightarrow> MAX_JOBS \<le> card (dom (job_map sh))"
proof -
  have "card (dom (job_map sh)) = length (ids (jobs sh))" "length (jobs sh) = MAX_JOBS"
    using assms by (simp_all add: shell_inv_def dom_job_map distinct_card)
  then show ?thesis using length_ids [of "jobs sh"] unfolding slot_of_None by linarith
qed

lemma job_add_ok:
  assumes "shell_inv sh" and "card (dom (job_map sh)) < MAX_JOBS"
  shows "\<exists>n sh'. job_add pg cmd bg sh = (n, sh') \<and> 0 < n \<and> n \<notin> dom (job_map sh) \<and> shell_inv sh' \<and>
    job_map sh' = (job_map sh)(n \<mapsto> new_job (pg, cmd, bg) n)"
proof -
  from assms obtain k where k: "slot_of 0 (jobs sh) = Some k" using free_slot by fastforce
  then obtain as x bs where s: "jobs sh = as @ x # bs" "length as = k" "job_id x = 0" using slot_of_Some by blast
  define n where "n = max_id 0 (jobs sh) + 1"
  define sh' where "sh' = sh\<lparr>jobs := (jobs sh)[k := new_job (pg, cmd, bg) n], num_jobs := num_jobs sh + 1\<rparr>"
  have add: "job_add pg cmd bg sh = (n, sh')" by (simp add: job_add_def k n_def sh'_def new_job_def Let_def)
  have pos: "0 < n" using max_id_bound [of 0 "jobs sh"] by (simp add: n_def)
  have big: "i < n" if "i \<in> set (ids (jobs sh))" for i
    using max_id_bound [of 0 "jobs sh"] that by (fastforce simp: ids_def n_def)
  then have fresh: "n \<notin> set (ids (as @ bs))" using s by fastforce
  have js': "jobs sh' = as @ new_job (pg, cmd, bg) n # bs" using s by (auto simp: sh'_def)
  have id: "job_id (new_job (pg, cmd, bg) n) = n" by (simp add: new_job_def)
  have num: "num_jobs sh' = num_jobs sh + (if n = 0 then 0 else 1) - (if job_id x = 0 then 0 else 1)"
    using pos s(3) by (simp add: sh'_def)
  note rw = slot_rewrite [OF assms(1) s(1) js', unfolded id, OF _ num]
  have inv: "shell_inv sh'" by (rule rw(1)) (use pos s(3) fresh in simp)
  have "job_map sh' = (let m = (job_map sh)(job_id x := None) in if n = 0 then m else m(n \<mapsto> new_job (pg, cmd, bg) n))"
    by (rule rw(2)) (use pos s(3) fresh in simp)
  moreover have "(job_map sh)(0 := None) = job_map sh" by (intro fun_upd_idem) (simp add: job_map_def table_map_None)
  ultimately have "job_map sh' = (job_map sh)(n \<mapsto> new_job (pg, cmd, bg) n)" using pos s(3) by simp
  then show ?thesis using add pos inv big by (auto simp: dom_job_map)
qed

lemma job_add_full:
  assumes "shell_inv sh" and "MAX_JOBS \<le> card (dom (job_map sh))"
  shows "fst (job_add pg cmd bg sh) = -1 \<and> shell_inv (snd (job_add pg cmd bg sh)) \<and>
    job_map (snd (job_add pg cmd bg sh)) = job_map sh"
  using assms free_slot [OF assms(1)] by (simp add: job_add_def job_map_def)

lemma job_remove_ok:
  assumes "shell_inv sh" and "i \<noteq> 0"
  shows "shell_inv (job_remove i sh) \<and> job_map (job_remove i sh) = (job_map sh)(i := None)"
proof (cases "slot_of i (jobs sh)")
  case None
  then have "job_map sh i = None" using job_find_map [OF assms] by (simp add: job_find_def)
  then show ?thesis using None assms by (simp add: job_remove_def fun_upd_idem)
next
  case (Some k)
  then obtain as x bs where s: "jobs sh = as @ x # bs" "length as = k" "job_id x = i" using slot_of_Some by blast
  have js': "jobs (job_remove i sh) = as @ zero_job # bs" using s Some by (auto simp: job_remove_def)
  show ?thesis
    using slot_rewrite [OF assms(1) s(1) js', unfolded zero_job_id] s(3) assms(2) Some by (simp add: job_remove_def)
qed

lemma set_job_ok:
  assumes "shell_inv sh" and "jobs sh = as @ x # bs" and "job_id x \<noteq> 0" and "job_id y = job_id x"
  shows "shell_inv (set_job (length as) y sh) \<and> job_map (set_job (length as) y sh) = (job_map sh)(job_id x \<mapsto> y)"
proof -
  have js': "jobs (set_job (length as) y sh) = as @ y # bs" using assms(2) by simp
  show ?thesis using slot_rewrite [OF assms(1,2) js'] assms(3,4) by simp
qed

subsection \<open>Events from the kernel\<close>

lemma job_exited_ok:
  assumes "shell_inv sh" and "jobs sh = as @ x # bs" and "job_id x \<noteq> 0"
  shows "shell_inv (job_exited pid alive (length as) x sh) \<and>
    dom (job_map (job_exited pid alive (length as) x sh)) \<subseteq> dom (job_map sh)"
proof -
  have xin: "job_id x \<in> dom (job_map sh)" using assms(2,3) by (simp add: dom_job_map)
  obtain ps d where [simp]: "reap_loop alive (map (\<lambda>p. if p = pid then -1 else p) (pids x)) = (ps, d)"
    by (cases "reap_loop alive (map (\<lambda>p. if p = pid then -1 else p) (pids x))")
  let ?y = "if d then x\<lparr>pids := ps, state := JOB_DONE\<rparr> else x\<lparr>pids := ps\<rparr>"
  define sh1 where "sh1 = set_job (length as) ?y sh"
  have s1: "shell_inv sh1 \<and> job_map sh1 = (job_map sh)(job_id x \<mapsto> ?y)"
    unfolding sh1_def by (rule set_job_ok [OF assms]) simp
  define sh2 where "sh2 = (if job_background x then print (job_line ''Done'' x) sh1 else sh1)"
  have s2: "shell_inv sh2" "job_map sh2 = job_map sh1" using s1 by (simp_all add: sh2_def)
  have eq: "job_exited pid alive (length as) x sh = (if d then job_remove (job_id x) sh2 else sh1)"
    by (simp add: job_exited_def sh1_def sh2_def Let_def)
  show ?thesis unfolding eq using job_remove_ok [OF s2(1) assms(3)] s1 s2 xin by auto
qed

lemma update_one_ok:
  assumes "shell_inv sh"
  shows "shell_inv (update_one r sh) \<and> dom (job_map (update_one r sh)) \<subseteq> dom (job_map sh)"
proof (cases "owner_of (fst r) (jobs sh)")
  case None
  then show ?thesis using assms by (cases r) (simp add: update_one_def)
next
  case (Some k)
  then obtain as x bs where s: "jobs sh = as @ x # bs" "length as = k" "job_id x \<noteq> 0" using owner_of_Some by blast
  have x: "jobs sh ! k = x" "job_id x \<in> dom (job_map sh)" using s by (auto simp: dom_job_map)
  have st: "shell_inv (set_job k y sh) \<and> dom (job_map (set_job k y sh)) \<subseteq> dom (job_map sh)" if "job_id y = job_id x" for y
    using set_job_ok [OF assms s(1,3) that] s(2) x(2) by auto
  have ex: "shell_inv (job_exited pid alive k x sh) \<and> dom (job_map (job_exited pid alive k x sh)) \<subseteq> dom (job_map sh)"
    for pid alive using job_exited_ok [OF assms s(1,3)] s(2) by simp
  obtain pid status alive where r: "r = (pid, status, alive)" by (cases r)
  show ?thesis
    using Some ex st [of "x\<lparr>state := JOB_STOPPED\<rparr>"] st [of "x\<lparr>state := JOB_RUNNING\<rparr>"]
    by (cases status) (simp_all add: r update_one_def x(1) Let_def)
qed

text \<open>The status a process leaves behind: its own, or the previous one if \<open>waitpid\<close> failed.\<close>

definition next_status :: "(int \<Rightarrow> wstatus option) \<Rightarrow> wstatus \<Rightarrow> int \<Rightarrow> wstatus" where
  "next_status wait st p = (case wait p of None \<Rightarrow> st | Some s \<Rightarrow> s)"

lemma wait_pids_Cons:
  "0 < p \<Longrightarrow> wait_pids wait (p # ps) st l j =
     (case next_status wait st p of
        WExited c \<Rightarrow> wait_pids wait ps (WExited c) c j
      | WSignaled s \<Rightarrow> wait_pids wait ps (WSignaled s) (128 + s) j
      | WStopped s \<Rightarrow>
          (case wait_pids wait ps (WStopped s) (128 + s) (j\<lparr>state := JOB_STOPPED, job_background := True\<rparr>) of
             (l', j', out) \<Rightarrow> (l', j', job_line ''Stopped'' j # out))
      | WContinued \<Rightarrow> wait_pids wait ps WContinued l j)"
  by (cases "next_status wait st p") (simp_all add: next_status_def)

lemma wait_pids_keeps_id: "job_id (fst (snd (wait_pids wait ps st l j))) = job_id j"
proof (induction ps arbitrary: st l j)
  case (Cons p ps)
  show ?case
  proof (cases "0 < p")
    case True
    show ?thesis unfolding wait_pids_Cons [OF True] using Cons.IH
      by (cases "next_status wait st p") (simp_all add: case_prod_unfold del: wait_pids.simps)
  next
    case False
    then show ?thesis using Cons.IH by simp
  qed
qed simp

lemma wait_pids_id: "wait_pids w ps st l j = (l', j', out) \<Longrightarrow> job_id j' = job_id j"
  using wait_pids_keeps_id [of w ps st l j] by simp

text \<open>The job as \<open>job_wait\<close> starts to wait for it, and the outcome of the wait for a live job.\<close>

definition foregrounded :: "job \<Rightarrow> job" where
  "foregrounded j = (if state j = JOB_STOPPED then j\<lparr>state := JOB_RUNNING\<rparr> else j)\<lparr>job_background := False\<rparr>"

lemma job_wait_outcome:
  assumes "shell_inv sh" and "i \<noteq> 0" and "job_map sh i = Some j"
    and "wait_pids wait (pids j) (WExited 0) 0 (foregrounded j) = (l, j2, out)"
  shows "fst (job_wait wait kill_ok i sh) = l \<and> last_exit_status (snd (job_wait wait kill_ok i sh)) = l \<and>
    shell_inv (snd (job_wait wait kill_ok i sh)) \<and>
    job_map (snd (job_wait wait kill_ok i sh)) =
      (if state j2 = JOB_STOPPED then (job_map sh)(i \<mapsto> j2) else (job_map sh)(i := None))"
proof -
  from assms(3) obtain k where k: "job_find i sh = Some k" "jobs sh ! k = j" using job_find_map [OF assms(1,2)] by auto
  then obtain as x bs where s: "jobs sh = as @ x # bs" "length as = k" "job_id x = i"
    using slot_of_Some by (fastforce simp: job_find_def)
  have x: "x = j" using k(2) s by auto
  have id2: "job_id j2 = job_id j" using wait_pids_id [OF assms(4)] by (simp add: foregrounded_def)
  have pids: "pids (foregrounded j) = pids j" by (simp add: foregrounded_def)
  define sh2 where "sh2 = (let sh1 = (if interactive sh then emit (Tcsetpgrp (pgid j)) sh else sh) in
    if state j = JOB_STOPPED
    then (let s = emit (SigCont (pgid j)) sh1 in if kill_ok (pgid j) then s else emit (Perror ''fg: kill SIGCONT'') s)
    else sh1)"
  define sh4 where "sh4 = (let sh3 = fold print out (set_job k j2 sh2) in
    if interactive sh then emit (Tcsetpgrp (shell_pgid sh)) sh3 else sh3)"
  have j2s: "jobs sh2 = as @ x # bs" using s(1) by (simp add: sh2_def Let_def)
  have inv2: "shell_inv sh2 \<and> job_map sh2 = job_map sh" using assms(1) by (simp add: sh2_def Let_def)
  have "shell_inv (set_job (length as) j2 sh2) \<and> job_map (set_job (length as) j2 sh2) = (job_map sh2)(job_id x \<mapsto> j2)"
    by (rule set_job_ok) (use inv2 j2s s(3) assms(2) id2 x in simp_all)
  then have inv4: "shell_inv sh4 \<and> job_map sh4 = (job_map sh)(i \<mapsto> j2)" using inv2 s(2,3) by (simp add: sh4_def Let_def)
  have "job_wait wait kill_ok i sh =
      (l, (if state j2 \<noteq> JOB_STOPPED then job_remove i sh4 else sh4)\<lparr>last_exit_status := l\<rparr>)"
    unfolding job_wait_def k(1) option.case k(2) Let_def foregrounded_def [symmetric] pids assms(4)
    by (simp add: sh4_def sh2_def Let_def)
  then show ?thesis using inv4 job_remove_ok [of sh4 i] assms(2) by simp
qed

lemma job_wait_ok:
  assumes "shell_inv sh" and "i \<noteq> 0"
  shows "shell_inv (snd (job_wait wait kill_ok i sh)) \<and> dom (job_map (snd (job_wait wait kill_ok i sh))) \<subseteq> dom (job_map sh)"
proof (cases "job_map sh i")
  case None
  then have "job_find i sh = None" using job_find_map [OF assms] by simp
  then show ?thesis using assms by (simp add: job_wait_def)
next
  case (Some j)
  obtain l j2 out where "wait_pids wait (pids j) (WExited 0) 0 (foregrounded j) = (l, j2, out)"
    by (cases "wait_pids wait (pids j) (WExited 0) 0 (foregrounded j)")
  from job_wait_outcome [OF assms Some this, of kill_ok] Some show ?thesis by auto
qed

datatype kernel_event = Report report | WaitFor int "int \<Rightarrow> wstatus option" "int \<Rightarrow> bool"

fun job_event :: "kernel_event \<Rightarrow> shell \<Rightarrow> shell" where
  "job_event (Report r) sh = job_update [r] sh"
| "job_event (WaitFor i wait kill_ok) sh = snd (job_wait wait kill_ok i sh)"

fun job_event_legal :: "kernel_event \<Rightarrow> bool" where
  "job_event_legal (Report r) = True"
| "job_event_legal (WaitFor i wait kill_ok) = (i \<noteq> 0)"

definition job_new :: "int \<times> string \<times> bool \<Rightarrow> shell \<Rightarrow> int \<times> shell" where
  "job_new = (\<lambda>(pg, cmd, bg) sh. job_add pg cmd bg sh)"

lemma job_new_eq [simp]: "job_new (pg, cmd, bg) sh = job_add pg cmd bg sh"
  by (simp add: job_new_def)

interpretation jt: id_table job_map job_new job_remove job_event job_event_legal shell_inv MAX_JOBS
proof (unfold_locales, goal_cases)
  case (1 s x n s')
  obtain pg cmd bg where x: "x = (pg, cmd, bg)" by (cases x)
  show ?case using job_add_ok [OF 1(1,2), of pg cmd bg] 1(3) by (auto simp: x job_new_def)
next
  case (2 s x n s')
  obtain pg cmd bg where x: "x = (pg, cmd, bg)" by (cases x)
  show ?case using job_add_full [OF 2(1,2), of pg cmd bg] 2(3) by (simp add: x job_new_def)
next
  case (3 s i)
  then show ?case by (rule job_remove_ok)
next
  case (4 s e)
  then show ?case using update_one_ok job_wait_ok by (cases e) (simp_all add: job_update_def)
next
  case (5 s)
  then show ?case using job_count by (simp add: dom_job_map)
qed

subsection \<open>Start of the shell and histories of the table\<close>

text \<open>
  \<open>shell_init\<close>: whether standard input is a terminal, the process number, the outcome of \<open>setpgid\<close>,
  what \<open>getcwd\<close> delivers, and the environment and descriptors the process starts with.
\<close>

definition shell_init ::
  "bool \<Rightarrow> int \<Rightarrow> bool \<Rightarrow> string option \<Rightarrow> (string \<times> string) list \<Rightarrow> fdtable \<Rightarrow> shell" where
  "shell_init tty pid setpgid_ok wd env tab =
     \<lparr>jobs = replicate MAX_JOBS zero_job, num_jobs = 0, interactive = tty, shell_pgid = (if tty then pid else 0),
      last_exit_status = 0, cwd = (case wd of None \<Rightarrow> ''/'' | Some d \<Rightarrow> d), environ = env, fds = tab,
      trace = (if tty then (if setpgid_ok then [] else [Perror ''setpgid'']) @ [Tcsetpgrp pid] else [])\<rparr>"

lemma ids_replicate_zero: "ids (replicate n zero_job) = []"
  by (induction n) simp_all

lemma shell_init_inv: "shell_inv (shell_init tty pid ok wd env tab)" "dom (job_map (shell_init tty pid ok wd env tab)) = {}"
  by (simp_all add: shell_inv_def dom_job_map shell_init_def ids_replicate_zero list_all_iff)

fun job_step :: "(int \<times> string \<times> bool, kernel_event) table_op \<Rightarrow> int list \<times> shell \<Rightarrow> int list \<times> shell" where
  "job_step (TAdd (pg, cmd, bg)) (issued, sh) =
     (case job_add pg cmd bg sh of (n, sh') \<Rightarrow> (if 0 < n then issued @ [n] else issued, sh'))"
| "job_step (TDel i) (issued, sh) = (issued, job_remove i sh)"
| "job_step (TEvent e) (issued, sh) = (issued, job_event e sh)"

fun job_step_legal :: "(int \<times> string \<times> bool, kernel_event) table_op \<Rightarrow> bool" where
  "job_step_legal (TAdd x) = True"
| "job_step_legal (TDel i) = (i \<noteq> 0)"
| "job_step_legal (TEvent e) = job_event_legal e"

lemma job_step_is_tstep: "job_step = jt.tstep" "job_step_legal = jt.legal_op"
proof -
  have "job_step t h = jt.tstep t h" for t h by (cases "(t, h)" rule: job_step.cases) simp_all
  then show "job_step = jt.tstep" by (intro ext)
  have "job_step_legal t = jt.legal_op t" for t by (cases t rule: job_step_legal.cases) simp_all
  then show "job_step_legal = jt.legal_op" by (intro ext)
qed

subsection \<open>Properties\<close>

text \<open>
  C14. The job table over a whole session: whatever sequence of new jobs, removals, reports of the
  kernel and waits it sees, as long as nothing addresses job 0, \<open>num_jobs\<close> is the number of live jobs
  and at most 64, no two live jobs share a number, every live number was handed out before, and the
  next \<open>job_add\<close> either creates exactly one job under a number no live job has, or finds the table
  full and changes nothing.
\<close>

theorem job_table_history:
  assumes "list_all job_step_legal ops"
  shows "case fold job_step ops ([], shell_init tty pid ok wd env tab) of (issued, sh) \<Rightarrow>
    num_jobs sh = int (card (dom (job_map sh))) \<and> num_jobs sh \<le> 64 \<and> distinct (ids (jobs sh)) \<and>
    dom (job_map sh) \<subseteq> set issued \<and>
    (case job_add pg cmd bg sh of (n, sh') \<Rightarrow>
       if num_jobs sh < 64
       then 0 < n \<and> n \<notin> dom (job_map sh) \<and> job_map sh' = (job_map sh)(n \<mapsto> new_job (pg, cmd, bg) n)
       else n = -1 \<and> job_map sh' = job_map sh)"
proof -
  obtain issued sh where h: "fold job_step ops ([], shell_init tty pid ok wd env tab) = (issued, sh)"
    by (cases "fold job_step ops ([], shell_init tty pid ok wd env tab)")
  have "jt.live_ok (fold job_step ops ([], shell_init tty pid ok wd env tab))"
    unfolding job_step_is_tstep(1) by (rule jt.history_live) (use assms shell_init_inv in \<open>simp_all add: jt.live_ok_def job_step_is_tstep(2)\<close>)
  then have inv: "shell_inv sh" and sub: "dom (job_map sh) \<subseteq> set issued" by (simp_all add: h jt.live_ok_def)
  have cnt: "num_jobs sh = int (card (dom (job_map sh)))" "card (dom (job_map sh)) \<le> 64"
    using job_count [OF inv] by (simp_all add: MAX_JOBS_def)
  have add: "case job_add pg cmd bg sh of (n, sh') \<Rightarrow>
       if num_jobs sh < 64
       then 0 < n \<and> n \<notin> dom (job_map sh) \<and> job_map sh' = (job_map sh)(n \<mapsto> new_job (pg, cmd, bg) n)
       else n = -1 \<and> job_map sh' = job_map sh"
  proof (cases "num_jobs sh < 64")
    case True
    then show ?thesis using job_add_ok [OF inv, of pg cmd bg] cnt(1) by (auto simp: MAX_JOBS_def)
  next
    case False
    then show ?thesis using job_add_full [OF inv, of pg cmd bg] cnt(1) by (auto simp: MAX_JOBS_def)
  qed
  have "distinct (ids (jobs sh))" using inv by (simp add: shell_inv_def)
  then show ?thesis unfolding h using cnt sub add by simp
qed

lemma job_table_history_witness:
  "case fold job_step [TAdd (100, ''sleep'', True), TEvent (Report (100, WExited 0, \<lambda>_. False))]
      ([], shell_init True 7 True None [] []) of (issued, sh) \<Rightarrow> num_jobs sh = int (card (dom (job_map sh)))"
  using job_table_history [of "[TAdd (100, ''sleep'', True), TEvent (Report (100, WExited 0, \<lambda>_. False))]" 0 "[]" False True 7 True None "[]" "[]"]
  by (simp add: case_prod_unfold)

lemma wait_pids_continued:
  "(\<forall>p \<in> set ps. wait p = Some WContinued) \<Longrightarrow> wait_pids wait ps st l j = (l, j, [])"
  by (induction ps arbitrary: st) simp_all

text \<open>
  \<open>fg\<close> on a stopped job forgets it at once: the \<open>SIGCONT\<close> it sends makes \<open>waitpid\<close>, called with
  \<open>WCONTINUED\<close>, report each process as continued; the wait loop takes that for its end, so the job is
  removed from the table with status 0 although none of its processes has ended.
\<close>

lemma fg_continued_forgets:
  assumes "shell_inv sh" and "job_map sh i = Some j" and "state j = JOB_STOPPED"
    and "\<forall>p \<in> set (pids j). wait p = Some WContinued"
  shows "fst (job_wait wait kill_ok i sh) = 0 \<and> job_map (snd (job_wait wait kill_ok i sh)) = (job_map sh)(i := None) \<and>
    SigCont (pgid j) \<in> set (trace (snd (job_wait wait kill_ok i sh)))"
proof -
  have i: "i \<noteq> 0" using assms(2) dom_job_map [of sh] zero_not_in_ids by (metis domI)
  have w: "wait_pids wait (pids j) (WExited 0) 0 (foregrounded j) = (0, foregrounded j, [])"
    using wait_pids_continued [OF assms(4)] .
  obtain k where k: "job_find i sh = Some k" "jobs sh ! k = j" using assms(2) job_find_map [OF assms(1) i] by auto
  have "SigCont (pgid j) \<in> set (trace (snd (job_wait wait kill_ok i sh)))"
    using k assms(3) wait_pids_continued [OF assms(4)]
    by (simp add: job_wait_def Let_def job_remove_def set_job_def split: option.split)
  then show ?thesis using job_wait_outcome [OF assms(1) i assms(2) w] assms(3) by (simp add: foregrounded_def)
qed

lemma fg_continued_forgets_witness:
  "\<exists>sh j. job_map sh 1 = Some j \<and> state j = JOB_STOPPED \<and>
     job_map (snd (job_wait (\<lambda>_. Some WContinued) (\<lambda>_. True) 1 sh)) = Map.empty"
proof -
  define j where "j = \<lparr>job_id = 1, pgid = 100, pids = [100], state = JOB_STOPPED, job_command = ''vi'', job_background = True\<rparr>"
  define sh where "sh = (shell_init True 7 True None [] [])\<lparr>jobs := j # replicate 63 zero_job, num_jobs := 1\<rparr>"
  have inv: "shell_inv sh" by (simp add: shell_inv_def sh_def j_def ids_replicate_zero MAX_JOBS_def list_all_iff)
  have none: "table_map (replicate 63 zero_job) = Map.empty"
    using dom_table_map [of "replicate 63 zero_job"] ids_replicate_zero [of 63] by simp
  have m: "job_map sh = [1 \<mapsto> j]" using none by (simp add: job_map_def sh_def j_def)
  have "job_map (snd (job_wait (\<lambda>_. Some WContinued) (\<lambda>_. True) 1 sh)) = (job_map sh)(1 := None)"
    using fg_continued_forgets [OF inv, of 1 j "\<lambda>_. Some WContinued" "\<lambda>_. True"] m by (simp add: j_def)
  then show ?thesis using m by (intro exI [of _ sh] exI [of _ j]) (simp add: j_def)
qed

end
