(* ===== verification/Shell_Exec.thy ===== *)
theory Shell_Exec
  imports Shell_Jobs
begin

text \<open>
  Built-in commands, pipelines and the command loop of the shell (\<open>mini-shell/src/builtin.c\<close>,
  \<open>executor.c\<close>, \<open>main.c\<close>). Descriptors are tables: \<open>open\<close>, \<open>dup\<close> and \<open>pipe\<close> take the lowest free number,
  \<open>dup2\<close> replaces the target. What the kernel answers is the record \<open>os\<close>. A forked child is described
  by what it does before \<open>execvp\<close>: its arguments and its descriptors.
\<close>

record os =
  os_chdir :: "string \<Rightarrow> bool"
  os_getcwd :: "string \<Rightarrow> string option"
  os_openr :: "string \<Rightarrow> bool"
  os_openw :: "string \<Rightarrow> bool"
  os_pipe :: "nat \<Rightarrow> bool"
  os_fork :: "nat \<Rightarrow> int"
  os_wait :: "int \<Rightarrow> wstatus option"
  os_kill :: "int \<Rightarrow> bool"
  os_jobs :: "report list"
  os_prompt :: "report list"

subsection \<open>Descriptors\<close>

definition fd_close :: "int \<Rightarrow> fdtable \<Rightarrow> fdtable" where
  "fd_close n t = filter (\<lambda>(k, e). k \<noteq> n) t"

definition fd_dup2 :: "int \<Rightarrow> int \<Rightarrow> fdtable \<Rightarrow> fdtable" where
  "fd_dup2 a b t = (case map_of t a of None \<Rightarrow> t | Some e \<Rightarrow> if a = b then t else (b, e) # fd_close b t)"

definition lowest_free :: "fdtable \<Rightarrow> int" where
  "lowest_free t = int (hd (filter (\<lambda>n. int n \<notin> set (map fst t)) [0..<Suc (length t)]))"

definition fd_open :: "endpoint \<Rightarrow> fdtable \<Rightarrow> int \<times> fdtable" where
  "fd_open e t = (lowest_free t, (lowest_free t, e) # t)"

definition fd_dup :: "int \<Rightarrow> fdtable \<Rightarrow> int \<times> fdtable" where
  "fd_dup a t = (case map_of t a of None \<Rightarrow> (-1, t) | Some e \<Rightarrow> fd_open e t)"

text \<open>Open a file and put it at a descriptor: \<open>open\<close>, \<open>dup2\<close>, \<open>close\<close>.\<close>

definition fd_redirect :: "endpoint \<Rightarrow> int \<Rightarrow> fdtable \<Rightarrow> fdtable" where
  "fd_redirect e b t = (case fd_open e t of (fd, t1) \<Rightarrow> fd_close fd (fd_dup2 fd b t1))"

subsection \<open>Environment\<close>

definition name_ok :: "string \<Rightarrow> bool" where
  "name_ok name \<longleftrightarrow> name \<noteq> [] \<and> CHR ''='' \<notin> set name"

definition setenv :: "string \<Rightarrow> string \<Rightarrow> bool \<Rightarrow> (string \<times> string) list \<Rightarrow> (string \<times> string) list option" where
  "setenv name v overwrite env =
     (if \<not> name_ok name then None
      else case map_of env name of
        None \<Rightarrow> Some (env @ [(name, v)])
      | Some _ \<Rightarrow> Some (if overwrite then map (\<lambda>(k, x). (k, if k = name then v else x)) env else env))"

definition unsetenv :: "string \<Rightarrow> (string \<times> string) list \<Rightarrow> (string \<times> string) list" where
  "unsetenv name env = (if name_ok name then filter (\<lambda>(k, x). k \<noteq> name) env else env)"

subsection \<open>Built-in commands\<close>

definition builtin_cd :: "os \<Rightarrow> string list \<Rightarrow> shell \<Rightarrow> int \<times> shell" where
  "builtin_cd k argv sh =
     (case (if length argv > 1 then Some (argv ! 1) else map_of (environ sh) ''HOME'') of
        None \<Rightarrow> (1, emit (Err (''cd: HOME not set'' @ [LF])) sh)
      | Some dir \<Rightarrow>
          if \<not> os_chdir k dir then (1, emit (Perror ''cd'') sh)
          else (0, sh\<lparr>cwd := (case os_getcwd k dir of None \<Rightarrow> ''/'' | Some d \<Rightarrow> d)\<rparr>))"

definition builtin_pwd :: "shell \<Rightarrow> int \<times> shell" where
  "builtin_pwd sh = (0, print (cwd sh @ [LF]) sh)"

fun join_blank :: "string list \<Rightarrow> string" where
  "join_blank [] = []"
| "join_blank [a] = a"
| "join_blank (a # b # as) = a @ '' '' @ join_blank (b # as)"

definition builtin_echo :: "string list \<Rightarrow> shell \<Rightarrow> int \<times> shell" where
  "builtin_echo argv sh = (0, print (join_blank (tl argv) @ [LF]) sh)"

fun export_vars :: "string list \<Rightarrow> shell \<Rightarrow> int \<times> shell" where
  "export_vars [] sh = (0, sh)"
| "export_vars (a # as) sh =
     (let name = takeWhile (\<lambda>c. c \<noteq> CHR ''='') a
      in case (if CHR ''='' \<in> set a then setenv name (drop (length name + 1) a) True (environ sh)
               else setenv a [] False (environ sh)) of
           None \<Rightarrow> (1, emit (Perror ''export'') sh)
         | Some env \<Rightarrow> export_vars as (sh\<lparr>environ := env\<rparr>))"

definition builtin_export :: "string list \<Rightarrow> shell \<Rightarrow> int \<times> shell" where
  "builtin_export argv sh =
     (if length argv < 2
      then (0, fold (\<lambda>(k, v). print (''declare -x '' @ k @ ''='' @ v @ [LF])) (environ sh) sh)
      else export_vars (tl argv) sh)"

definition builtin_unset :: "string list \<Rightarrow> shell \<Rightarrow> int \<times> shell" where
  "builtin_unset argv sh = (0, sh\<lparr>environ := fold unsetenv (tl argv) (environ sh)\<rparr>)"

text \<open>\<open>exit\<close> does not return: the status the process ends with.\<close>

datatype bresult = Ret int | Exits int

definition builtin_exit :: "string list \<Rightarrow> shell \<Rightarrow> bresult \<times> shell" where
  "builtin_exit argv sh =
     (Exits (if length argv > 1 then atoi (argv ! 1) else last_exit_status sh), print (''exit'' @ [LF]) sh)"

definition builtin_jobs :: "os \<Rightarrow> shell \<Rightarrow> int \<times> shell" where
  "builtin_jobs k sh = (0, job_print (job_update (os_jobs k) sh))"

text \<open>The job a numeric argument names, with or without the percent sign.\<close>

definition job_arg :: "string \<Rightarrow> int" where
  "job_arg a = atoi (if a \<noteq> [] \<and> hd a = CHR ''%'' then tl a else a)"

definition latest :: "(job \<Rightarrow> bool) \<Rightarrow> job list \<Rightarrow> int" where
  "latest ok js = (case filter (\<lambda>j. job_id j > 0 \<and> ok j) (rev js) of [] \<Rightarrow> -1 | j # _ \<Rightarrow> job_id j)"

definition builtin_fg :: "os \<Rightarrow> string list \<Rightarrow> shell \<Rightarrow> int \<times> shell" where
  "builtin_fg k argv sh =
     (let i = (if length argv > 1 then job_arg (argv ! 1) else latest (\<lambda>_. True) (jobs sh))
      in if i < 0 then (1, emit (Err (''fg: no current job'' @ [LF])) sh)
         else job_wait (os_wait k) (os_kill k) i sh)"

definition builtin_bg :: "os \<Rightarrow> string list \<Rightarrow> shell \<Rightarrow> int \<times> shell" where
  "builtin_bg k argv sh =
     (let i = (if length argv > 1 then job_arg (argv ! 1) else latest (\<lambda>j. state j = JOB_STOPPED) (jobs sh))
      in if i < 0 then (1, emit (Err (''bg: no current job'' @ [LF])) sh)
         else case job_find i sh of
           None \<Rightarrow> (1, emit (Err (''bg: job '' @ dec_int i @ '' not found'' @ [LF])) sh)
         | Some slot \<Rightarrow>
             let j = jobs sh ! slot; sh1 = emit (SigCont (pgid j)) sh
             in if \<not> os_kill k (pgid j) then (1, emit (Perror ''bg: kill'') sh1)
                else (0, print (''['' @ dec_int (job_id j) @ ''] Continued: '' @ job_command j @ '' &'' @ [LF])
                       (set_job slot (j\<lparr>state := JOB_RUNNING, job_background := True\<rparr>) sh1)))"

definition help_lines :: "string list" where
  "help_lines = map (\<lambda>l. l @ [LF])
     [''minishell v1.0 - Built-in commands:'',
      ''  cd [dir]       Change directory'',
      ''  pwd            Print working directory'',
      ''  echo [args]    Print arguments'',
      ''  export VAR=val Set environment variable'',
      ''  unset VAR      Remove environment variable'',
      ''  jobs           List background jobs'',
      ''  fg [%n]        Bring job to foreground'',
      ''  bg [%n]        Resume job in background'',
      ''  exit [n]       Exit shell with status n'',
      ''  help           Show this help'',
      [LF] @ ''Features:'',
      ''  Pipes:          cmd1 | cmd2 | cmd3'',
      ''  Redirection:    cmd < input > output >> append'',
      ''  Background:     cmd &'',
      ''  Variables:      echo $HOME $'' @ [LBRACE] @ ''USER'' @ [RBRACE],
      ''  Quotes:         '' @ [DQUOTE] @ ''double'' @ [DQUOTE] @ '' '' @ [QUOTE] @ ''single'' @ [QUOTE]]"

definition builtin_help :: "shell \<Rightarrow> int \<times> shell" where
  "builtin_help sh = (0, fold print help_lines sh)"

definition builtin_names :: "string list" where
  "builtin_names = [''cd'', ''pwd'', ''echo'', ''export'', ''unset'', ''exit'', ''jobs'', ''fg'', ''bg'', ''help'']"

definition builtin_check :: "string option \<Rightarrow> bool" where
  "builtin_check cmd = (case cmd of None \<Rightarrow> False | Some c \<Rightarrow> c \<in> set builtin_names)"

definition ret :: "int \<times> shell \<Rightarrow> bresult \<times> shell" where
  "ret r = (Ret (fst r), snd r)"

definition builtin_run :: "os \<Rightarrow> string list \<Rightarrow> shell \<Rightarrow> bresult \<times> shell" where
  "builtin_run k argv sh =
     (let c = hd argv
      in if c = ''cd'' then ret (builtin_cd k argv sh)
         else if c = ''pwd'' then ret (builtin_pwd sh)
         else if c = ''echo'' then ret (builtin_echo argv sh)
         else if c = ''export'' then ret (builtin_export argv sh)
         else if c = ''unset'' then ret (builtin_unset argv sh)
         else if c = ''exit'' then builtin_exit argv sh
         else if c = ''jobs'' then ret (builtin_jobs k sh)
         else if c = ''fg'' then ret (builtin_fg k argv sh)
         else if c = ''bg'' then ret (builtin_bg k argv sh)
         else if c = ''help'' then ret (builtin_help sh)
         else (Ret 0, sh))"

text \<open>
  Redirection of a built-in command: the old descriptor is saved with \<open>dup\<close>; \<^const>\<open>Inl\<close> is the early
  return after a failed \<open>open\<close>. A saved descriptor of -1 is not restored.
\<close>

definition fd_save :: "(string \<Rightarrow> bool) \<Rightarrow> endpoint \<Rightarrow> string \<Rightarrow> int \<Rightarrow> fdtable \<Rightarrow> (int \<times> fdtable) + (int \<times> fdtable)" where
  "fd_save open_ok e f b t =
     (case fd_dup b t of (saved, t1) \<Rightarrow>
        if open_ok f then Inr (saved, fd_redirect e b t1)
        else Inl (saved, if saved \<ge> 0 then fd_close saved t1 else t1))"

definition fd_restore :: "int \<Rightarrow> int \<Rightarrow> fdtable \<Rightarrow> fdtable" where
  "fd_restore saved b t = (if saved \<ge> 0 then fd_close saved (fd_dup2 saved b t) else t)"

definition redirect_input :: "os \<Rightarrow> command \<Rightarrow> fdtable \<Rightarrow> (int \<times> fdtable) + (int \<times> fdtable)" where
  "redirect_input k cmd t =
     (case input_file cmd of None \<Rightarrow> Inr (-1, t) | Some f \<Rightarrow> fd_save (os_openr k) (ReadFile f) f 0 t)"

definition redirect_output :: "os \<Rightarrow> command \<Rightarrow> fdtable \<Rightarrow> (int \<times> fdtable) + (int \<times> fdtable)" where
  "redirect_output k cmd t =
     (case output_file cmd of None \<Rightarrow> Inr (-1, t)
      | Some f \<Rightarrow> fd_save (os_openw k) (WriteFile f (cmd_append cmd)) f 1 t)"

definition builtin_execute :: "os \<Rightarrow> pipeline \<Rightarrow> shell \<Rightarrow> bresult \<times> shell" where
  "builtin_execute k p sh =
     (let cmd = hd (pl_commands p); argv = cmd_argv cmd
      in if argv = [] then (Ret 0, sh)
         else case redirect_input k cmd (fds sh) of
           Inl (_, t) \<Rightarrow> (Ret 1, emit (Perror (the (input_file cmd))) (sh\<lparr>fds := t\<rparr>))
         | Inr (saved_in, t1) \<Rightarrow>
             (case redirect_output k cmd t1 of
                Inl (_, t) \<Rightarrow> (Ret 1, emit (Perror (the (output_file cmd))) (sh\<lparr>fds := fd_restore saved_in 0 t\<rparr>))
              | Inr (saved_out, t2) \<Rightarrow>
                  (case builtin_run k argv (sh\<lparr>fds := t2\<rparr>) of
                     (Exits n, sh1) \<Rightarrow> (Exits n, sh1)
                   | (Ret r, sh1) \<Rightarrow>
                       (Ret r, sh1\<lparr>fds := fd_restore saved_out 1 (fd_restore saved_in 0 (fds sh1)),
                                   last_exit_status := r\<rparr>))))"

subsection \<open>Pipelines\<close>

definition close_pipes :: "(int \<times> int) list \<Rightarrow> fdtable \<Rightarrow> fdtable" where
  "close_pipes pipes t = fold (\<lambda>(r, w) t. fd_close w (fd_close r t)) pipes t"

text \<open>What the child does with its descriptors; \<^const>\<open>Inl\<close>: \<open>_exit\<close> after a failed \<open>open\<close>.\<close>

definition setup_io :: "os \<Rightarrow> command \<Rightarrow> (int \<times> int) list \<Rightarrow> nat \<Rightarrow> nat \<Rightarrow> fdtable \<Rightarrow> int + fdtable" where
  "setup_io k cmd pipes i total_commands t =
     (let t1 = (if i > 0 then fd_dup2 (fst (pipes ! (i - 1))) 0 t else t);
          t2 = (if i < total_commands - 1 then fd_dup2 (snd (pipes ! i)) 1 t1 else t1)
      in if (case input_file cmd of None \<Rightarrow> False | Some f \<Rightarrow> \<not> os_openr k f) then Inl 1
         else let t3 = (case input_file cmd of None \<Rightarrow> t2 | Some f \<Rightarrow> fd_redirect (ReadFile f) 0 t2)
         in if (case output_file cmd of None \<Rightarrow> False | Some f \<Rightarrow> \<not> os_openw k f) then Inl 1
            else let t4 = (case output_file cmd of None \<Rightarrow> t3
                           | Some f \<Rightarrow> fd_redirect (WriteFile f (cmd_append cmd)) 1 t3)
            in Inr (close_pipes pipes t4))"

definition execute_command :: "command \<Rightarrow> fdtable \<Rightarrow> child" where
  "execute_command cmd t = (if cmd_argv cmd = [] then ChildExits 0 else ChildRuns (cmd_argv cmd) t)"

definition run_child :: "os \<Rightarrow> command \<Rightarrow> (int \<times> int) list \<Rightarrow> nat \<Rightarrow> nat \<Rightarrow> fdtable \<Rightarrow> child" where
  "run_child k cmd pipes i n t =
     (case setup_io k cmd pipes i n t of Inl s \<Rightarrow> ChildExits s | Inr t' \<Rightarrow> execute_command cmd t')"

text \<open>The pipes; the flag is false if one could not be made, the earlier ones staying open.\<close>

fun make_pipes :: "(nat \<Rightarrow> bool) \<Rightarrow> nat \<Rightarrow> nat \<Rightarrow> fdtable \<Rightarrow> (int \<times> int) list \<times> fdtable \<times> bool" where
  "make_pipes ok i 0 t = ([], t, True)"
| "make_pipes ok i (Suc n) t =
     (if ok i then
        case fd_open (PipeR i) t of (r, t1) \<Rightarrow>
          case fd_open (PipeW i) t1 of (w, t2) \<Rightarrow>
            case make_pipes ok (Suc i) n t2 of (ps, t3, b) \<Rightarrow> ((r, w) # ps, t3, b)
      else ([], t, False))"

text \<open>The fork loop: process numbers so far, process group; \<^const>\<open>Inl\<close>: \<open>fork\<close> failed.\<close>

fun fork_all :: "os \<Rightarrow> (int \<times> int) list \<Rightarrow> nat \<Rightarrow> nat \<Rightarrow> command list \<Rightarrow> int list \<Rightarrow> int \<Rightarrow> shell \<Rightarrow> shell + (int list \<times> int \<times> shell)" where
  "fork_all k pipes n i [] ps pg sh = Inr (ps, pg, sh)"
| "fork_all k pipes n i (c # cs) ps pg sh =
     (let pid = os_fork k i; pg' = (if i = 0 then pid else pg)
      in if pid < 0 then Inl (emit (Perror ''fork'') sh)
         else fork_all k pipes n (Suc i) cs (ps @ [pid]) pg'
                (emit (Forked pid pg' (run_child k c pipes i n (fds sh))) sh))"

text \<open>
  The command string, in a buffer of \<open>MAX_LINE\<close> bytes: \<open>strcat\<close> writes on regardless (\<^const>\<open>None\<close>: past
  the end), \<open>strncat\<close> is bounded by the room left.
\<close>

definition c_strcat :: "string \<Rightarrow> string \<Rightarrow> string option" where
  "c_strcat buf s = (if length buf + length s \<le> MAX_LINE - 1 then Some (buf @ s) else None)"

definition c_strncat :: "string \<Rightarrow> string \<Rightarrow> string" where
  "c_strncat buf s = buf @ take (MAX_LINE - length buf - 1) s"

fun cat_args :: "bool \<Rightarrow> string list \<Rightarrow> string \<Rightarrow> string option" where
  "cat_args first [] buf = Some buf"
| "cat_args first (a # as) buf =
     (case (if first then Some buf else c_strcat buf '' '') of
        None \<Rightarrow> None | Some b \<Rightarrow> cat_args False as (c_strncat b a))"

fun cat_commands :: "bool \<Rightarrow> command list \<Rightarrow> string \<Rightarrow> string option" where
  "cat_commands first [] buf = Some buf"
| "cat_commands first (c # cs) buf =
     (case (if first then Some buf else c_strcat buf '' | '') of
        None \<Rightarrow> None
      | Some b \<Rightarrow> (case cat_args True (cmd_argv c) b of None \<Rightarrow> None | Some b' \<Rightarrow> cat_commands False cs b'))"

definition command_string :: "pipeline \<Rightarrow> string option" where
  "command_string p =
     (case cat_commands True (pl_commands p) [] of
        None \<Rightarrow> None
      | Some b \<Rightarrow> Some (if pl_background p then c_strncat b '' &'' else b))"

text \<open>A job for the processes of the pipeline, in the background or stopped.\<close>

definition register_job :: "int \<Rightarrow> string \<Rightarrow> bool \<Rightarrow> int list \<Rightarrow> job_state option \<Rightarrow> (int \<Rightarrow> string) \<Rightarrow> shell \<Rightarrow> shell" where
  "register_job pg cmd_str bg ps st message sh =
     (case job_add pg cmd_str bg sh of (n, sh1) \<Rightarrow>
        if n > 0 then
          print (message n)
            (case job_find n sh1 of
               None \<Rightarrow> sh1
             | Some slot \<Rightarrow>
                 let j = (jobs sh1 ! slot)\<lparr>pids := ps\<rparr>
                 in set_job slot (case st of None \<Rightarrow> j | Some s \<Rightarrow> j\<lparr>state := s\<rparr>) sh1)
        else sh1)"

fun wait_foreground :: "(int \<Rightarrow> wstatus option) \<Rightarrow> int \<Rightarrow> string \<Rightarrow> int list \<Rightarrow> int list \<Rightarrow> wstatus \<Rightarrow> int \<Rightarrow> shell \<Rightarrow> int \<times> shell" where
  "wait_foreground wait pg cmd_str ps [] status last_status sh = (last_status, sh)"
| "wait_foreground wait pg cmd_str ps (p # rest) status last_status sh =
     (let st = next_status wait status p
      in case st of
           WExited c \<Rightarrow> wait_foreground wait pg cmd_str ps rest st c sh
         | WSignaled s \<Rightarrow> wait_foreground wait pg cmd_str ps rest st (128 + s) sh
         | WStopped s \<Rightarrow>
             wait_foreground wait pg cmd_str ps rest st (128 + s)
               (register_job pg cmd_str False ps (Some JOB_STOPPED)
                  (\<lambda>n. [LF] @ ''['' @ dec_int n @ ''] Stopped: '' @ cmd_str @ [LF]) sh)
         | WContinued \<Rightarrow> wait_foreground wait pg cmd_str ps rest st last_status sh)"

text \<open>\<open>executor_run\<close>; \<^const>\<open>None\<close>: a write past the command string.\<close>

definition executor_run :: "os \<Rightarrow> pipeline \<Rightarrow> shell \<Rightarrow> (int \<times> shell) option" where
  "executor_run k p sh =
     (let n = length (pl_commands p)
      in if n = 0 then Some (0, sh)
         else case make_pipes (os_pipe k) 0 (n - 1) (fds sh) of (pipes, t, made) \<Rightarrow>
           if \<not> made then Some (1, emit (Perror ''pipe'') (sh\<lparr>fds := t\<rparr>))
           else (case fork_all k pipes n 0 (pl_commands p) [] 0 (sh\<lparr>fds := t\<rparr>) of
             Inl sh1 \<Rightarrow> Some (1, sh1)
           | Inr (ps, pg, sh1) \<Rightarrow>
               let sh2 = sh1\<lparr>fds := close_pipes pipes (fds sh1)\<rparr>
               in (case command_string p of
                     None \<Rightarrow> None
                   | Some cmd_str \<Rightarrow>
                       if pl_background p then
                         Some (0, (register_job pg cmd_str True ps None
                                    (\<lambda>i. ''['' @ dec_int i @ ''] '' @ dec_int pg @ [LF]) sh2)\<lparr>last_exit_status := 0\<rparr>)
                       else
                         let sh3 = (if interactive sh2 then emit (Tcsetpgrp pg) sh2 else sh2)
                         in (case wait_foreground (os_wait k) pg cmd_str ps ps (WExited 0) 0 sh3 of
                               (last_status, sh4) \<Rightarrow>
                                 let sh5 = (if interactive sh4 then emit (Tcsetpgrp (shell_pgid sh4)) sh4 else sh4)
                                 in Some (last_status, sh5\<lparr>last_exit_status := last_status\<rparr>)))))"

subsection \<open>One line of input\<close>

text \<open>
  One turn of the loop in \<open>main\<close>: \<^const>\<open>None\<close> if the parser does not return or the command string
  overruns; otherwise the exit status if the shell ends, and the state.
\<close>

definition shell_line :: "os \<Rightarrow> string \<Rightarrow> shell \<Rightarrow> (int option \<times> shell) option" where
  "shell_line k line sh =
     (if line = [] then Some (None, sh)
      else case parse_line (map_of (environ sh)) line of
        None \<Rightarrow> None
      | Some (Inl _) \<Rightarrow> Some (None, job_update (os_prompt k) sh)
      | Some (Inr p) \<Rightarrow>
          if length (pl_commands p) = 1 \<and>
             builtin_check (case cmd_argv (hd (pl_commands p)) of [] \<Rightarrow> None | a # _ \<Rightarrow> Some a)
          then (case builtin_execute k p sh of
                  (Exits n, sh1) \<Rightarrow> Some (Some n, sh1)
                | (Ret _, sh1) \<Rightarrow> Some (None, job_update (os_prompt k) sh1))
          else (case executor_run k p sh of
                  None \<Rightarrow> None
                | Some (_, sh1) \<Rightarrow> Some (None, job_update (os_prompt k) sh1)))"

subsection \<open>Descriptor tables as maps\<close>

lemma map_of_fd_close [simp]: "map_of (fd_close n t) = (map_of t)(n := None)"
  by (induction t) (auto simp: fd_close_def)

lemma map_of_fd_dup2 [simp]:
  "map_of (fd_dup2 a b t) = (case map_of t a of None \<Rightarrow> map_of t | Some e \<Rightarrow> (map_of t)(b \<mapsto> e))"
  by (auto simp: fd_dup2_def split: option.split)

lemma lowest_free_ok: "lowest_free t \<notin> fst ` set t" "0 \<le> lowest_free t"
proof -
  have "\<exists>n < Suc (length t). int n \<notin> set (map fst t)"
  proof (rule ccontr)
    assume "\<not> ?thesis"
    then have sub: "int ` {..<Suc (length t)} \<subseteq> set (map fst t)" by auto
    have "card (int ` {..<Suc (length t)}) = Suc (length t)" by (simp add: card_image)
    moreover have "card (set (map fst t)) \<le> length t" using card_length [of "map fst t"] by simp
    ultimately show False using card_mono [OF _ sub] by simp
  qed
  then have "filter (\<lambda>n. int n \<notin> set (map fst t)) [0..<Suc (length t)] \<noteq> []"
    by (auto simp: filter_empty_conv simp del: upt_Suc)
  from hd_in_set [OF this] show "lowest_free t \<notin> fst ` set t" by (auto simp: lowest_free_def simp del: upt_Suc)
  show "0 \<le> lowest_free t" by (simp add: lowest_free_def)
qed

lemma lowest_free_None [simp]: "map_of t (lowest_free t) = None"
  using lowest_free_ok(1) by (simp add: map_of_eq_None_iff)

lemma fd_open_ok:
  "fd_open e t = (n, t') \<Longrightarrow> map_of t n = None \<and> map_of t' = (map_of t)(n \<mapsto> e) \<and> 0 \<le> n"
  using lowest_free_ok(2) by (auto simp: fd_open_def)

lemma map_of_fd_redirect: "map_of t b \<noteq> None \<Longrightarrow> map_of (fd_redirect e b t) = (map_of t)(b \<mapsto> e)"
  using fd_open_ok [of e t] by (auto simp: fd_redirect_def fun_eq_iff split: prod.split)

definition pipe_fds :: "(int \<times> int) list \<Rightarrow> int set" where
  "pipe_fds pipes = fst ` set pipes \<union> snd ` set pipes"

lemma map_of_close_pipes: "map_of (close_pipes pipes t) = map_of t |` (- pipe_fds pipes)"
proof (induction pipes arbitrary: t)
  case Nil
  then show ?case by (simp add: close_pipes_def pipe_fds_def restrict_map_def)
next
  case (Cons rw pipes)
  obtain r w where rw: "rw = (r, w)" by (cases rw)
  have step: "close_pipes (rw # pipes) t = close_pipes pipes (fd_close w (fd_close r t))" by (simp add: close_pipes_def rw)
  show ?case unfolding step Cons.IH by (auto simp: rw pipe_fds_def restrict_map_def fun_eq_iff)
qed

text \<open>New pipes use fresh descriptors, everything else stays as it was.\<close>

lemma make_pipes_ok:
  assumes "make_pipes ok i n t = (pipes, t', True)"
  shows "length pipes = n" "pipe_fds pipes \<inter> dom (map_of t) = {}" "map_of t' |` (- pipe_fds pipes) = map_of t"
    and "j < n \<Longrightarrow> map_of t' (fst (pipes ! j)) = Some (PipeR (i + j)) \<and> map_of t' (snd (pipes ! j)) = Some (PipeW (i + j))"
proof -
  have "length pipes = n \<and> pipe_fds pipes \<inter> dom (map_of t) = {} \<and> map_of t' |` (- pipe_fds pipes) = map_of t \<and>
      map_of t \<subseteq>\<^sub>m map_of t' \<and>
      (\<forall>j < n. map_of t' (fst (pipes ! j)) = Some (PipeR (i + j)) \<and> map_of t' (snd (pipes ! j)) = Some (PipeW (i + j)))"
    using assms
  proof (induction n arbitrary: i t pipes)
    case 0
    then show ?case by (auto simp: pipe_fds_def restrict_map_def)
  next
    case (Suc n)
    obtain r t1 w t2 ps where o: "fd_open (PipeR i) t = (r, t1)" "fd_open (PipeW i) t1 = (w, t2)"
      "make_pipes ok (Suc i) n t2 = (ps, t', True)" "pipes = (r, w) # ps" "ok i"
      using Suc.prems by (auto split: if_splits prod.splits)
    have t1: "map_of t r = None" "map_of t1 = (map_of t)(r \<mapsto> PipeR i)" using fd_open_ok [OF o(1)] by auto
    have t2: "map_of t1 w = None" "map_of t2 = (map_of t1)(w \<mapsto> PipeW i)" using fd_open_ok [OF o(2)] by auto
    have rw: "r \<noteq> w" "map_of t w = None" using t1 t2(1) by (auto split: if_splits)
    have m2: "map_of t2 = (map_of t)(r \<mapsto> PipeR i, w \<mapsto> PipeW i)" using t1 t2 by simp
    from Suc.IH [OF o(3)] have IH: "length ps = n" "pipe_fds ps \<inter> dom (map_of t2) = {}"
      "map_of t' |` (- pipe_fds ps) = map_of t2" "map_of t2 \<subseteq>\<^sub>m map_of t'"
      "\<And>j. j < n \<Longrightarrow> map_of t' (fst (ps ! j)) = Some (PipeR (Suc i + j)) \<and> map_of t' (snd (ps ! j)) = Some (PipeW (Suc i + j))"
      by auto
    have fds: "pipe_fds pipes = insert r (insert w (pipe_fds ps))" by (auto simp: o(4) pipe_fds_def)
    have "pipe_fds pipes \<inter> dom (map_of t) = {}" using IH(2) t1(1) rw m2 by (auto simp: fds)
    moreover have "map_of t' |` (- pipe_fds pipes) = map_of t"
    proof -
      have "map_of t' |` (- pipe_fds pipes) = (map_of t' |` (- pipe_fds ps)) |` (- {r, w})"
        unfolding fds restrict_restrict by (rule arg_cong [where f = "\<lambda>A. map_of t' |` A"]) blast
      also have "\<dots> = map_of t" unfolding IH(3) m2 using t1(1) rw by (auto simp: restrict_map_def fun_eq_iff)
      finally show ?thesis .
    qed
    moreover have "map_of t \<subseteq>\<^sub>m map_of t'"
      by (rule map_le_trans [OF _ IH(4)]) (use t1(1) rw in \<open>auto simp: map_le_def m2\<close>)
    moreover have "map_of t' r = Some (PipeR i)" "map_of t' w = Some (PipeW i)"
      using IH(4) rw by (auto simp: map_le_def m2 dom_def)
    ultimately show ?case using IH(1,5) o(4) by (auto simp: less_Suc_eq_0_disj)
  qed
  then show "length pipes = n" "pipe_fds pipes \<inter> dom (map_of t) = {}" "map_of t' |` (- pipe_fds pipes) = map_of t"
    "j < n \<Longrightarrow> map_of t' (fst (pipes ! j)) = Some (PipeR (i + j)) \<and> map_of t' (snd (pipes ! j)) = Some (PipeW (i + j))"
    by auto
qed

text \<open>The descriptors command \<open>i\<close> of \<open>n\<close> should see, from those of the shell.\<close>

definition wired :: "command \<Rightarrow> nat \<Rightarrow> nat \<Rightarrow> (int \<Rightarrow> endpoint option) \<Rightarrow> (int \<Rightarrow> endpoint option)" where
  "wired cmd i n m = m(0 \<mapsto> (case input_file cmd of Some f \<Rightarrow> ReadFile f
                              | None \<Rightarrow> if i = 0 then the (m 0) else PipeR (i - 1)),
                       1 \<mapsto> (case output_file cmd of Some f \<Rightarrow> WriteFile f (cmd_append cmd)
                              | None \<Rightarrow> if i = n - 1 then the (m 1) else PipeW i))"

definition files_open :: "os \<Rightarrow> command \<Rightarrow> bool" where
  "files_open k cmd \<longleftrightarrow> (case input_file cmd of None \<Rightarrow> True | Some f \<Rightarrow> os_openr k f) \<and>
     (case output_file cmd of None \<Rightarrow> True | Some f \<Rightarrow> os_openw k f)"

lemma setup_io_wired:
  assumes "make_pipes ok 0 (n - 1) t = (pipes, t', True)" and "i < n" and "files_open k cmd"
    and "map_of t 0 \<noteq> None" and "map_of t 1 \<noteq> None"
  shows "\<exists>t''. setup_io k cmd pipes i n t' = Inr t'' \<and> map_of t'' = wired cmd i n (map_of t)"
proof -
  note mp = make_pipes_ok [OF assms(1)]
  have std: "0 \<notin> pipe_fds pipes" "1 \<notin> pipe_fds pipes" using mp(2) assms(4,5) by auto
  have base: "map_of t' 0 = map_of t 0" "map_of t' 1 = map_of t 1"
    using std fun_cong [OF mp(3), of 0] fun_cong [OF mp(3), of 1] by (simp_all add: restrict_map_def)
  define t1 where "t1 = (if i > 0 then fd_dup2 (fst (pipes ! (i - 1))) 0 t' else t')"
  define t2 where "t2 = (if i < n - 1 then fd_dup2 (snd (pipes ! i)) 1 t1 else t1)"
  define t3 where "t3 = (case input_file cmd of None \<Rightarrow> t2 | Some f \<Rightarrow> fd_redirect (ReadFile f) 0 t2)"
  define t4 where "t4 = (case output_file cmd of None \<Rightarrow> t3 | Some f \<Rightarrow> fd_redirect (WriteFile f (cmd_append cmd)) 1 t3)"
  have io: "setup_io k cmd pipes i n t' = Inr (close_pipes pipes t4)"
    using assms(3) by (simp add: setup_io_def files_open_def Let_def t1_def t2_def t3_def t4_def split: option.splits)
  have m1: "map_of t1 = (map_of t')(0 \<mapsto> (if i = 0 then the (map_of t 0) else PipeR (i - 1)))"
    using mp(4) [of "i - 1"] assms(2,4) base(1) by (auto simp: t1_def)
  have w: "snd (pipes ! i) \<noteq> 0" if "i < n - 1"
    using std(1) mp(1) that by (force simp: pipe_fds_def)
  have m2: "map_of t2 = (map_of t1)(1 \<mapsto> (if i = n - 1 then the (map_of t 1) else PipeW i))"
    using mp(4) [of i] assms(2,5) base(2) w by (auto simp: t2_def m1)
  have m3: "map_of t3 = (map_of t2)(0 \<mapsto> (case input_file cmd of Some f \<Rightarrow> ReadFile f
      | None \<Rightarrow> if i = 0 then the (map_of t 0) else PipeR (i - 1)))"
    by (auto simp: t3_def m1 m2 map_of_fd_redirect split: option.split)
  have m4: "map_of t4 = (map_of t3)(1 \<mapsto> (case output_file cmd of Some f \<Rightarrow> WriteFile f (cmd_append cmd)
      | None \<Rightarrow> if i = n - 1 then the (map_of t 1) else PipeW i))"
    by (auto simp: t4_def m1 m2 m3 map_of_fd_redirect split: option.split)
  have "map_of (close_pipes pipes t4) = wired cmd i n (map_of t)"
  proof
    fix x
    have "(map_of t' |` (- pipe_fds pipes)) x = map_of t x" using mp(3) by simp
    then show "map_of (close_pipes pipes t4) x = wired cmd i n (map_of t) x"
      unfolding map_of_close_pipes m4 m3 m2 m1 wired_def using std by (auto simp: restrict_map_def split: if_splits)
  qed
  then show ?thesis using io by simp
qed

subsection \<open>Running a pipeline\<close>

lemma fork_all_ok:
  assumes "\<forall>j. 0 \<le> os_fork k j" and "i = 0 \<or> pg = os_fork k 0"
  shows "fork_all k pipes n i cs ps pg sh =
    Inr (ps @ map (os_fork k) [i..<i + length cs], if i = 0 \<and> cs = [] then pg else os_fork k 0,
      sh\<lparr>trace := trace sh @ map (\<lambda>(j, c). Forked (os_fork k j) (os_fork k 0) (run_child k c pipes j n (fds sh))) (enumerate i cs)\<rparr>)"
  using assms(2)
proof (induction cs arbitrary: i ps pg sh)
  case Nil
  then show ?case by auto
next
  case (Cons c cs)
  have "\<not> os_fork k i < 0" using assms(1) by (simp add: not_less)
  moreover have "[i..<i + length (c # cs)] = i # [Suc i..<Suc i + length cs]" by (subst upt_conv_Cons) simp_all
  moreover have "(if i = 0 then os_fork k i else pg) = os_fork k 0" using Cons.prems by auto
  ultimately show ?case using Cons.IH [of "Suc i" "os_fork k 0"] by (simp add: Let_def emit_def)
qed

definition forks :: "sh_event list \<Rightarrow> sh_event list" where
  "forks es = filter (\<lambda>e. case e of Forked _ _ _ \<Rightarrow> True | _ \<Rightarrow> False) es"

lemma forks_simps [simp]:
  "forks (as @ bs) = forks as @ forks bs" "forks [] = []" "forks [Tcsetpgrp i] = []"
  by (simp_all add: forks_def)

lemma forks_map_Forked: "forks (map (\<lambda>(j, c). Forked (f j) g (h j c)) xs) = map (\<lambda>(j, c). Forked (f j) g (h j c)) xs"
  by (induction xs) (auto simp: forks_def)

text \<open>The state when the shell starts to wait for a foreground pipeline.\<close>

lemma executor_foreground:
  assumes "pl_commands p \<noteq> []" and "\<not> pl_background p" and "\<forall>j. os_pipe k j" and "\<forall>j. 0 \<le> os_fork k j"
    and "command_string p = Some str" and "n = length (pl_commands p)" and "ps = map (os_fork k) [0..<n]"
  obtains sh3 pipes t where "executor_run k p sh =
      (case wait_foreground (os_wait k) (os_fork k 0) str ps ps (WExited 0) 0 sh3 of
         (l, sh4) \<Rightarrow> Some (l, (if interactive sh4 then emit (Tcsetpgrp (shell_pgid sh4)) sh4 else sh4)\<lparr>last_exit_status := l\<rparr>))"
    and "make_pipes (os_pipe k) 0 (n - 1) (fds sh) = (pipes, t, True)"
    and "map_of (fds sh3) = map_of (fds sh)" and "jobs sh3 = jobs sh" and "num_jobs sh3 = num_jobs sh"
    and "forks (trace sh3) = forks (trace sh) @
      map (\<lambda>(j, c). Forked (os_fork k j) (os_fork k 0) (run_child k c pipes j n t)) (enumerate 0 (pl_commands p))"
proof -
  have n0: "n \<noteq> 0" using assms(1,6) by simp
  have made: "snd (snd (make_pipes (os_pipe k) i m t)) = True" for i m t
    using assms(3) by (induction m arbitrary: i t) (simp_all add: case_prod_unfold)
  obtain pipes t where mp: "make_pipes (os_pipe k) 0 (n - 1) (fds sh) = (pipes, t, True)"
    using made [of 0 "n - 1" "fds sh"] by (metis prod.collapse)
  define ev where "ev = map (\<lambda>(j, c). Forked (os_fork k j) (os_fork k 0) (run_child k c pipes j n t)) (enumerate 0 (pl_commands p))"
  define sh2 where "sh2 = sh\<lparr>trace := trace sh @ ev, fds := close_pipes pipes t\<rparr>"
  define sh3 where "sh3 = (if interactive sh2 then emit (Tcsetpgrp (os_fork k 0)) sh2 else sh2)"
  have fa: "fork_all k pipes n 0 (pl_commands p) [] 0 (sh\<lparr>fds := t\<rparr>) = Inr (ps, os_fork k 0, (sh\<lparr>fds := t\<rparr>)\<lparr>trace := trace sh @ ev\<rparr>)"
    using fork_all_ok [OF assms(4), of 0 0 pipes n "pl_commands p" "[]" "sh\<lparr>fds := t\<rparr>"] assms(1,6,7) by (simp add: ev_def)
  have run: "executor_run k p sh =
      (case wait_foreground (os_wait k) (os_fork k 0) str ps ps (WExited 0) 0 sh3 of
         (l, sh4) \<Rightarrow> Some (l, (if interactive sh4 then emit (Tcsetpgrp (shell_pgid sh4)) sh4 else sh4)\<lparr>last_exit_status := l\<rparr>))"
    unfolding executor_run_def Let_def assms(6) [symmetric] mp prod.case fa sum.case
    using n0 assms(2,5) by (simp add: sh3_def sh2_def)
  have "map_of (fds sh3) = map_of (fds sh)"
    using make_pipes_ok(3) [OF mp] by (simp add: sh3_def sh2_def map_of_close_pipes)
  moreover have "forks (trace sh3) = forks (trace sh) @ ev"
    by (simp add: sh3_def sh2_def ev_def forks_map_Forked)
  ultimately show thesis using that [OF run mp] by (simp add: sh3_def sh2_def ev_def)
qed

lemma wait_foreground_exits:
  assumes "\<forall>p \<in> set rest. wait p = Some (WExited (code p))"
  shows "wait_foreground wait pg s ps rest st l sh = (if rest = [] then l else code (last rest), sh)"
  using assms by (induction rest arbitrary: st l) (auto simp: next_status_def)

text \<open>
  C6. A foreground pipeline of \<open>n\<close> commands is wired as written: every command is started once, in
  order and in the process group of the first, sees exactly the shell's descriptors with standard
  input from the previous pipe (or its file) and standard output to the next pipe (or its file), and
  no other end of any pipe, so end of file propagates. The shell closes its own pipe ends, leaves the
  job table alone, and the result is the exit status of the last command.
\<close>

theorem pipeline_wired:
  assumes "pl_commands p \<noteq> []" and "\<not> pl_background p" and "\<forall>j. os_pipe k j" and "\<forall>j. 0 \<le> os_fork k j"
    and "command_string p = Some str" and "map_of (fds sh) 0 \<noteq> None" and "map_of (fds sh) 1 \<noteq> None"
    and "list_all (\<lambda>c. cmd_argv c \<noteq> [] \<and> files_open k c) (pl_commands p)"
    and "\<forall>j. os_wait k (os_fork k j) = Some (WExited (code (os_fork k j)))"
  shows "\<exists>sh' tab. executor_run k p sh = Some (code (os_fork k (length (pl_commands p) - 1)), sh') \<and>
    map_of (fds sh') = map_of (fds sh) \<and> jobs sh' = jobs sh \<and>
    forks (trace sh') = forks (trace sh) @
      map (\<lambda>(i, c). Forked (os_fork k i) (os_fork k 0) (ChildRuns (cmd_argv c) (tab i))) (enumerate 0 (pl_commands p)) \<and>
    (\<forall>i < length (pl_commands p). map_of (tab i) = wired (pl_commands p ! i) i (length (pl_commands p)) (map_of (fds sh)))"
proof -
  define n where "n = length (pl_commands p)"
  define ps where "ps = map (os_fork k) [0..<n]"
  obtain sh3 pipes t where e: "executor_run k p sh =
      (case wait_foreground (os_wait k) (os_fork k 0) str ps ps (WExited 0) 0 sh3 of
         (l, sh4) \<Rightarrow> Some (l, (if interactive sh4 then emit (Tcsetpgrp (shell_pgid sh4)) sh4 else sh4)\<lparr>last_exit_status := l\<rparr>))"
    "make_pipes (os_pipe k) 0 (n - 1) (fds sh) = (pipes, t, True)"
    "map_of (fds sh3) = map_of (fds sh)" "jobs sh3 = jobs sh" "num_jobs sh3 = num_jobs sh"
    "forks (trace sh3) = forks (trace sh) @
      map (\<lambda>(j, c). Forked (os_fork k j) (os_fork k 0) (run_child k c pipes j n t)) (enumerate 0 (pl_commands p))"
    by (rule executor_foreground [OF assms(1-5) n_def ps_def])
  have n: "0 < n" using assms(1) by (simp add: n_def)
  have w: "wait_foreground (os_wait k) (os_fork k 0) str ps ps (WExited 0) 0 sh3 = (code (os_fork k (n - 1)), sh3)"
  proof -
    have "wait_foreground (os_wait k) (os_fork k 0) str ps ps (WExited 0) 0 sh3 = (if ps = [] then 0 else code (last ps), sh3)"
      by (rule wait_foreground_exits) (use assms(9) in \<open>auto simp: ps_def\<close>)
    then show ?thesis using n by (simp add: ps_def last_map)
  qed
  have cmd: "cmd_argv (pl_commands p ! i) \<noteq> []" "files_open k (pl_commands p ! i)" if "i < n" for i
    using assms(8) that by (simp_all add: list_all_length n_def)
  have "\<exists>tab. \<forall>i < n. setup_io k (pl_commands p ! i) pipes i n t = Inr (tab i) \<and>
      map_of (tab i) = wired (pl_commands p ! i) i n (map_of (fds sh))"
    using setup_io_wired [OF e(2) _ cmd(2) assms(6,7)] by (intro choice) simp
  then obtain tab where tab: "\<And>i. i < n \<Longrightarrow> setup_io k (pl_commands p ! i) pipes i n t = Inr (tab i)"
    "\<And>i. i < n \<Longrightarrow> map_of (tab i) = wired (pl_commands p ! i) i n (map_of (fds sh))" by blast
  have "map (\<lambda>(j, c). Forked (os_fork k j) (os_fork k 0) (run_child k c pipes j n t)) (enumerate 0 (pl_commands p)) =
      map (\<lambda>(i, c). Forked (os_fork k i) (os_fork k 0) (ChildRuns (cmd_argv c) (tab i))) (enumerate 0 (pl_commands p))"
  proof (rule map_cong [OF refl], simp only: split_paired_all prod.case)
    fix i c
    assume "(i, c) \<in> set (enumerate 0 (pl_commands p))"
    then have "i < n" "c = pl_commands p ! i" by (auto simp: in_set_enumerate_eq n_def)
    then show "Forked (os_fork k i) (os_fork k 0) (run_child k c pipes i n t) =
        Forked (os_fork k i) (os_fork k 0) (ChildRuns (cmd_argv c) (tab i))"
      using cmd(1) tab(1) by (simp add: run_child_def execute_command_def)
  qed
  then show ?thesis using e w tab(2)
    by (intro exI [of _ "(if interactive sh3 then emit (Tcsetpgrp (shell_pgid sh3)) sh3 else sh3)\<lparr>last_exit_status := code (os_fork k (n - 1))\<rparr>"]
          exI [of _ tab]) (simp add: n_def)
qed

definition two_commands :: pipeline where
  "two_commands = \<lparr>pl_commands = [empty_command\<lparr>cmd_argv := [''ls'']\<rparr>, empty_command\<lparr>cmd_argv := [''wc'']\<rparr>], pl_background = False\<rparr>"

definition calm_os :: os where
  "calm_os = \<lparr>os_chdir = \<lambda>_. True, os_getcwd = \<lambda>d. Some d, os_openr = \<lambda>_. True, os_openw = \<lambda>_. True, os_pipe = \<lambda>_. True,
     os_fork = \<lambda>i. 100 + int i, os_wait = \<lambda>p. Some (WExited (p - 100)), os_kill = \<lambda>_. True, os_jobs = [], os_prompt = []\<rparr>"

definition tty_fds :: fdtable where
  "tty_fds = [(0, Inherited 0), (1, Inherited 1), (2, Inherited 2)]"

lemma two_commands_string: "command_string two_commands = Some ''ls | wc''"
  by (simp add: command_string_def two_commands_def empty_command_def c_strcat_def c_strncat_def shell_limits)

lemma pipeline_wired_witness:
  "\<exists>sh' tab. executor_run calm_os two_commands (shell_init True 7 True None [] tty_fds) = Some (1, sh') \<and>
     forks (trace sh') = [Forked 100 100 (ChildRuns [''ls''] (tab (0 :: nat))), Forked 101 100 (ChildRuns [''wc''] (tab 1))] \<and>
     map_of (tab 0) = [0 \<mapsto> Inherited 0, 1 \<mapsto> PipeW 0, 2 \<mapsto> Inherited 2] \<and>
     map_of (tab 1) = [0 \<mapsto> PipeR 0, 1 \<mapsto> Inherited 1, 2 \<mapsto> Inherited 2]"
proof -
  let ?sh = "shell_init True 7 True None [] tty_fds"
  have "\<exists>sh' tab. executor_run calm_os two_commands ?sh = Some ((\<lambda>p. p - 100) (os_fork calm_os (length (pl_commands two_commands) - 1)), sh') \<and>
      map_of (fds sh') = map_of (fds ?sh) \<and> jobs sh' = jobs ?sh \<and>
      forks (trace sh') = forks (trace ?sh) @
        map (\<lambda>(i, c). Forked (os_fork calm_os i) (os_fork calm_os 0) (ChildRuns (cmd_argv c) (tab i))) (enumerate 0 (pl_commands two_commands)) \<and>
      (\<forall>i < length (pl_commands two_commands).
        map_of (tab i) = wired (pl_commands two_commands ! i) i (length (pl_commands two_commands)) (map_of (fds ?sh)))"
    by (rule pipeline_wired [OF _ _ _ _ two_commands_string])
      (simp_all add: two_commands_def calm_os_def tty_fds_def shell_init_def empty_command_def files_open_def)
  then obtain sh' tab where r: "executor_run calm_os two_commands ?sh = Some (1, sh')"
    "forks (trace sh') = [Forked 100 100 (ChildRuns [''ls''] (tab 0)), Forked 101 100 (ChildRuns [''wc''] (tab 1))]"
    "\<And>i. i < 2 \<Longrightarrow> map_of (tab i) = wired (pl_commands two_commands ! i) i 2 (map_of tty_fds)"
    by (auto simp: two_commands_def calm_os_def shell_init_def empty_command_def numeral_2_eq_2)
  have "map_of (tab 0) = [0 \<mapsto> Inherited 0, 1 \<mapsto> PipeW 0, 2 \<mapsto> Inherited 2]"
    "map_of (tab 1) = [0 \<mapsto> PipeR 0, 1 \<mapsto> Inherited 1, 2 \<mapsto> Inherited 2]"
    using r(3) [of 0] r(3) [of 1] by (auto simp: wired_def two_commands_def empty_command_def tty_fds_def fun_eq_iff)
  then show ?thesis using r(1,2) by blast
qed

subsection \<open>Stopped pipelines\<close>

lemma register_job_ok:
  assumes "shell_inv sh" and "card (dom (job_map sh)) < MAX_JOBS"
  shows "\<exists>n j. 0 < n \<and> n \<notin> dom (job_map sh) \<and> shell_inv (register_job pg str bg ps st msg sh) \<and>
    job_map (register_job pg str bg ps st msg sh) = (job_map sh)(n \<mapsto> j) \<and> pids j = ps \<and> pgid j = pg"
proof -
  obtain n sh1 where a: "job_add pg str bg sh = (n, sh1)" "0 < n" "n \<notin> dom (job_map sh)" "shell_inv sh1"
    "job_map sh1 = (job_map sh)(n \<mapsto> new_job (pg, str, bg) n)" using job_add_ok [OF assms] by blast
  have "map_option (\<lambda>i. jobs sh1 ! i) (job_find n sh1) = Some (new_job (pg, str, bg) n)"
    using job_find_map [OF a(4), of n] a(2,5) by simp
  then obtain slot where s: "job_find n sh1 = Some slot" "jobs sh1 ! slot = new_job (pg, str, bg) n" by auto
  obtain as x bs where x: "jobs sh1 = as @ x # bs" "length as = slot" "job_id x = n"
    using s(1) slot_of_Some by (fastforce simp: job_find_def)
  let ?j = "(new_job (pg, str, bg) n)\<lparr>pids := ps\<rparr>"
  let ?y = "case st of None \<Rightarrow> ?j | Some s \<Rightarrow> ?j\<lparr>state := s\<rparr>"
  have y: "job_id ?y = n" "pids ?y = ps" "pgid ?y = pg" by (simp_all add: new_job_def split: option.split)
  have "shell_inv (set_job (length as) ?y sh1) \<and> job_map (set_job (length as) ?y sh1) = (job_map sh1)(job_id x \<mapsto> ?y)"
    by (rule set_job_ok [OF a(4) x(1)]) (use x(3) a(2) y in simp_all)
  then show ?thesis using a s x y by (intro exI [of _ n] exI [of _ ?y]) (simp add: register_job_def Let_def)
qed

lemma wait_foreground_stopped:
  assumes "\<forall>p \<in> set rest. wait p = Some (WStopped s)" and "shell_inv sh" and "card (dom (job_map sh)) + length rest \<le> MAX_JOBS"
  shows "shell_inv (snd (wait_foreground wait pg str ps rest st l sh)) \<and>
    card (dom (job_map (snd (wait_foreground wait pg str ps rest st l sh)))) = card (dom (job_map sh)) + length rest \<and>
    (\<forall>i j. job_map (snd (wait_foreground wait pg str ps rest st l sh)) i = Some j \<longrightarrow> job_map sh i = Some j \<or> pids j = ps \<and> pgid j = pg)"
  using assms
proof (induction rest arbitrary: st l sh)
  case (Cons p rest)
  define sh1 where "sh1 = register_job pg str False ps (Some JOB_STOPPED)
    (\<lambda>n. [LF] @ ''['' @ dec_int n @ ''] Stopped: '' @ str @ [LF]) sh"
  obtain n j where r: "0 < n" "n \<notin> dom (job_map sh)" "shell_inv sh1" "job_map sh1 = (job_map sh)(n \<mapsto> j)" "pids j = ps" "pgid j = pg"
    using register_job_ok [OF Cons.prems(2), of pg str False ps "Some JOB_STOPPED"] Cons.prems(3) unfolding sh1_def by force
  have fin: "finite (dom (job_map sh))" by (simp add: dom_job_map)
  have card: "card (dom (job_map sh1)) = card (dom (job_map sh)) + 1" using r(2,4) fin by simp
  have step: "wait_foreground wait pg str ps (p # rest) st l sh = wait_foreground wait pg str ps rest (WStopped s) (128 + s) sh1"
    using Cons.prems(1) by (simp add: next_status_def sh1_def)
  have "shell_inv (snd (wait_foreground wait pg str ps rest (WStopped s) (128 + s) sh1)) \<and>
    card (dom (job_map (snd (wait_foreground wait pg str ps rest (WStopped s) (128 + s) sh1)))) = card (dom (job_map sh1)) + length rest \<and>
    (\<forall>i j. job_map (snd (wait_foreground wait pg str ps rest (WStopped s) (128 + s) sh1)) i = Some j \<longrightarrow> job_map sh1 i = Some j \<or> pids j = ps \<and> pgid j = pg)"
    using Cons.prems(1,3) r(3) card by (intro Cons.IH) auto
  then show ?case unfolding step using card r by (simp add: r(4)) (metis option.inject)
qed simp

text \<open>
  Stopping a foreground pipeline (Ctrl-Z) of \<open>n\<close> commands enters \<open>n\<close> jobs into the table instead of
  one: each of its processes is reported as stopped and registers the whole pipeline again, with the
  same process group and the same processes.
\<close>

lemma stopped_pipeline_duplicates:
  assumes "shell_inv sh" and "pl_commands p \<noteq> []" and "\<not> pl_background p" and "\<forall>j. os_pipe k j" and "\<forall>j. 0 \<le> os_fork k j"
    and "command_string p = Some str" and "\<forall>j. os_wait k (os_fork k j) = Some (WStopped s)"
    and "num_jobs sh + int (length (pl_commands p)) \<le> 64"
  shows "\<exists>r sh'. executor_run k p sh = Some (r, sh') \<and> num_jobs sh' = num_jobs sh + int (length (pl_commands p)) \<and>
    (\<forall>i j. job_map sh' i = Some j \<longrightarrow>
      job_map sh i = Some j \<or> pids j = map (os_fork k) [0..<length (pl_commands p)] \<and> pgid j = os_fork k 0)"
proof -
  define n where "n = length (pl_commands p)"
  define ps where "ps = map (os_fork k) [0..<n]"
  obtain sh3 pipes t where e: "executor_run k p sh =
      (case wait_foreground (os_wait k) (os_fork k 0) str ps ps (WExited 0) 0 sh3 of
         (l, sh4) \<Rightarrow> Some (l, (if interactive sh4 then emit (Tcsetpgrp (shell_pgid sh4)) sh4 else sh4)\<lparr>last_exit_status := l\<rparr>))"
    "make_pipes (os_pipe k) 0 (n - 1) (fds sh) = (pipes, t, True)"
    "map_of (fds sh3) = map_of (fds sh)" "jobs sh3 = jobs sh" "num_jobs sh3 = num_jobs sh"
    "forks (trace sh3) = forks (trace sh) @
      map (\<lambda>(j, c). Forked (os_fork k j) (os_fork k 0) (run_child k c pipes j n t)) (enumerate 0 (pl_commands p))"
    by (rule executor_foreground [OF assms(2-6) n_def ps_def])
  have inv: "shell_inv sh3" and same: "job_map sh3 = job_map sh" using assms(1) e(4,5) by (simp_all add: shell_inv_def job_map_def)
  obtain l sh4 where w: "wait_foreground (os_wait k) (os_fork k 0) str ps ps (WExited 0) 0 sh3 = (l, sh4)"
    by (cases "wait_foreground (os_wait k) (os_fork k 0) str ps ps (WExited 0) 0 sh3")
  have room: "card (dom (job_map sh3)) + length ps \<le> MAX_JOBS"
    using job_count [OF assms(1)] assms(8) by (simp add: same ps_def n_def MAX_JOBS_def)
  have lps: "length ps = n" by (simp add: ps_def)
  have "\<forall>q \<in> set ps. os_wait k q = Some (WStopped s)" using assms(7) by (auto simp: ps_def)
  from wait_foreground_stopped [OF this inv room, of "os_fork k 0" str ps "WExited 0" 0]
  have r: "shell_inv sh4" "card (dom (job_map sh4)) = card (dom (job_map sh)) + n"
    "\<forall>i j. job_map sh4 i = Some j \<longrightarrow> job_map sh i = Some j \<or> pids j = ps \<and> pgid j = os_fork k 0"
    by (simp_all add: w same lps)
  have num: "num_jobs sh4 = num_jobs sh + int n" using job_count [OF r(1)] job_count [OF assms(1)] r(2) by simp
  show ?thesis unfolding e(1) w using num r(3) by (simp add: n_def ps_def)
qed

lemma stopped_pipeline_duplicates_witness:
  "\<exists>r sh'. executor_run (calm_os\<lparr>os_wait := \<lambda>_. Some (WStopped 20)\<rparr>) two_commands (shell_init True 7 True None [] tty_fds) = Some (r, sh') \<and>
     num_jobs sh' = 2"
proof -
  let ?k = "calm_os\<lparr>os_wait := \<lambda>_. Some (WStopped 20)\<rparr>"
  have "\<exists>r sh'. executor_run ?k two_commands (shell_init True 7 True None [] tty_fds) = Some (r, sh') \<and>
      num_jobs sh' = num_jobs (shell_init True 7 True None [] tty_fds) + int (length (pl_commands two_commands)) \<and>
      (\<forall>i j. job_map sh' i = Some j \<longrightarrow> job_map (shell_init True 7 True None [] tty_fds) i = Some j \<or>
        pids j = map (os_fork ?k) [0..<length (pl_commands two_commands)] \<and> pgid j = os_fork ?k 0)"
    by (rule stopped_pipeline_duplicates [OF shell_init_inv(1) _ _ _ _ two_commands_string])
      (simp_all add: two_commands_def calm_os_def shell_init_def)
  then show ?thesis by (auto simp: two_commands_def shell_init_def)
qed

subsection \<open>Job 0\<close>

text \<open>
  \<open>fg\<close> with an argument that is no number (or 0) addresses job 0, which \<open>job_find\<close> takes for the first
  free slot: the command succeeds, hands the terminal to process group 0, and removing that
  job makes \<open>num_jobs\<close> one less than the number of live jobs.
\<close>

lemma fg_zero_miscounts:
  assumes "shell_inv sh" and "num_jobs sh < 64" and "list_all (\<lambda>j. job_id j = 0 \<longrightarrow> j = zero_job) (jobs sh)"
    and "job_arg arg = 0" and "interactive sh"
  shows "\<exists>sh'. builtin_fg k [''fg'', arg] sh = (0, sh') \<and> jobs sh' = jobs sh \<and>
    num_jobs sh' = int (card (dom (job_map sh'))) - 1 \<and> trace sh' = trace sh @ [Tcsetpgrp 0, Tcsetpgrp (shell_pgid sh)]"
proof -
  have "card (dom (job_map sh)) < MAX_JOBS" using job_count [OF assms(1)] assms(2) by (simp add: MAX_JOBS_def)
  then obtain slot where slot: "slot_of 0 (jobs sh) = Some slot" using free_slot [OF assms(1)] by fastforce
  then obtain as x bs where x: "jobs sh = as @ x # bs" "length as = slot" "job_id x = 0" using slot_of_Some by blast
  then have z: "x = zero_job" "(zero_job\<lparr>job_background := False\<rparr>) = zero_job"
    using assms(3) by (simp_all add: zero_job_def)
  have js: "jobs sh ! slot = zero_job" "(jobs sh)[slot := zero_job] = jobs sh" using x z(1) by auto
  have run: "builtin_fg k [''fg'', arg] sh = job_wait (os_wait k) (os_kill k) 0 sh"
    using assms(4) by (simp add: builtin_fg_def Let_def)
  have zf: "pgid zero_job = 0" "state zero_job = JOB_RUNNING" "pids zero_job = []" by (simp_all add: zero_job_def)
  show ?thesis unfolding run job_wait_def job_find_def slot option.case Let_def js(1)
    using slot js assms(5) zf z(2) job_count [OF assms(1)]
    by (simp add: job_remove_def job_map_def set_job_def emit_def)
qed

lemma fg_zero_miscounts_witness:
  "\<exists>sh'. builtin_fg calm_os [''fg'', ''vi''] (shell_init True 7 True None [] tty_fds) = (0, sh') \<and> num_jobs sh' = -1"
proof -
  have a: "job_arg ''vi'' = 0" by code_simp
  have "\<exists>sh'. builtin_fg calm_os [''fg'', ''vi''] (shell_init True 7 True None [] tty_fds) = (0, sh') \<and>
      jobs sh' = jobs (shell_init True 7 True None [] tty_fds) \<and> num_jobs sh' = int (card (dom (job_map sh'))) - 1 \<and>
      trace sh' = trace (shell_init True 7 True None [] tty_fds) @ [Tcsetpgrp 0, Tcsetpgrp (shell_pgid (shell_init True 7 True None [] tty_fds))]"
    by (rule fg_zero_miscounts [OF shell_init_inv(1) _ _ a]) (simp_all add: shell_init_def list_all_iff)
  moreover have "dom (job_map sh') = {}" if "jobs sh' = jobs (shell_init True 7 True None [] tty_fds)" for sh'
    using that by (simp add: dom_job_map shell_init_def ids_replicate_zero)
  ultimately show ?thesis by fastforce
qed

subsection \<open>The command string\<close>

fun join_pipe :: "string list \<Rightarrow> string" where
  "join_pipe [] = []"
| "join_pipe [a] = a"
| "join_pipe (a # b # as) = a @ '' | '' @ join_pipe (b # as)"

definition command_text :: "pipeline \<Rightarrow> string" where
  "command_text p = join_pipe (map (\<lambda>c. join_blank (cmd_argv c)) (pl_commands p)) @ (if pl_background p then '' &'' else [])"

lemma cat_args_fits:
  "length buf + length (join_blank as) + (if first \<or> as = [] then 0 else 1) < MAX_LINE \<Longrightarrow>
   cat_args first as buf = Some (buf @ (if first \<or> as = [] then [] else '' '') @ join_blank as)"
proof (induction as arbitrary: first buf rule: join_blank.induct)
  case (3 a b as)
  have rest: "cat_args False (b # as) (buf @ x @ a) = Some ((buf @ x @ a) @ '' '' @ join_blank (b # as))"
    if "x = (if first then [] else '' '')" for x
    using 3(1) [of "buf @ x @ a" False] 3(2) that by (cases first) (simp_all del: cat_args.simps)
  have room: "length buf + (if first then 0 else 1) + length a < MAX_LINE" using 3(2) by simp
  have "cat_args first (a # b # as) buf = cat_args False (b # as) (buf @ (if first then [] else '' '') @ a)"
    unfolding cat_args.simps(2) [of first] using room
    by (cases first) (simp_all add: c_strcat_def c_strncat_def shell_limits del: cat_args.simps)
  then show ?case using rest [OF refl] by (cases first) simp_all
next
  case (2 a)
  then show ?case by (cases first) (simp_all add: c_strcat_def c_strncat_def shell_limits)
qed simp

lemma cat_commands_fits:
  "length buf + length (join_pipe (map (\<lambda>c. join_blank (cmd_argv c)) cs)) + (if first \<or> cs = [] then 0 else 3) < MAX_LINE \<Longrightarrow>
   cat_commands first cs buf = Some (buf @ (if first \<or> cs = [] then [] else '' | '') @ join_pipe (map (\<lambda>c. join_blank (cmd_argv c)) cs))"
proof (induction cs arbitrary: first buf)
  case (Cons c cs)
  let ?x = "if first then [] else '' | ''" and ?a = "join_blank (cmd_argv c)"
  have len: "length (join_pipe (map (\<lambda>c. join_blank (cmd_argv c)) (c # cs))) =
      length ?a + (if cs = [] then 0 else 3) + length (join_pipe (map (\<lambda>c. join_blank (cmd_argv c)) cs))"
    by (cases cs) simp_all
  have "cat_args True (cmd_argv c) (buf @ ?x) = Some ((buf @ ?x) @ ?a)"
    using cat_args_fits [of "buf @ ?x" "cmd_argv c" True] Cons.prems len by (auto split: if_splits)
  moreover have "cat_commands False cs ((buf @ ?x) @ ?a) =
      Some (((buf @ ?x) @ ?a) @ (if cs = [] then [] else '' | '') @ join_pipe (map (\<lambda>c. join_blank (cmd_argv c)) cs))"
    using Cons.IH [of "(buf @ ?x) @ ?a" False] Cons.prems len by (auto split: if_splits)
  moreover have "(if first then Some buf else c_strcat buf '' | '') = Some (buf @ ?x)"
    using Cons.prems len by (cases first) (simp_all add: c_strcat_def shell_limits)
  ultimately show ?case by (cases cs) simp_all
qed simp

text \<open>
  The text a job is listed under: as long as it is shorter than the buffer it is the commands of
  the pipeline, arguments separated by blanks, joined by bars, with the background mark. It is not
  guarded otherwise: a first argument that fills the buffer (variables expand to up to 4094
  characters per name) and any second argument make \<open>strcat\<close> write past its end.
\<close>

lemma command_string_exact:
  "(length (command_text p) < MAX_LINE \<longrightarrow> command_string p = Some (command_text p)) \<and>
   (pl_commands p = c # cs \<and> cmd_argv c = a # b # as \<and> MAX_LINE - 1 \<le> length a \<longrightarrow> command_string p = None)"
proof (intro conjI impI)
  assume len: "length (command_text p) < MAX_LINE"
  let ?j = "join_pipe (map (\<lambda>c. join_blank (cmd_argv c)) (pl_commands p))"
  have "cat_commands True (pl_commands p) [] = Some ?j"
    using cat_commands_fits [of "[]" "pl_commands p" True] len by (simp add: command_text_def)
  then show "command_string p = Some (command_text p)"
    using len by (cases "pl_background p") (simp_all add: command_string_def command_text_def c_strncat_def)
next
  assume a: "pl_commands p = c # cs \<and> cmd_argv c = a # b # as \<and> MAX_LINE - 1 \<le> length a"
  then show "command_string p = None"
    by (simp add: command_string_def c_strncat_def c_strcat_def)
qed

lemma command_string_exact_witness:
  "command_string two_commands = Some ''ls | wc'' \<and>
   command_string \<lparr>pl_commands = [empty_command\<lparr>cmd_argv := [replicate 4095 (CHR ''x''), ''y'']\<rparr>], pl_background = False\<rparr> = None"
proof -
  let ?p = "\<lparr>pl_commands = [empty_command\<lparr>cmd_argv := [replicate 4095 (CHR ''x''), ''y'']\<rparr>], pl_background = False\<rparr>"
  have "command_string two_commands = Some ''ls | wc''"
    using command_string_exact [of two_commands] by (simp add: command_text_def two_commands_def empty_command_def shell_limits)
  moreover have "command_string ?p = None"
    using command_string_exact [of ?p "empty_command\<lparr>cmd_argv := [replicate 4095 (CHR ''x''), ''y'']\<rparr>" "[]" "replicate 4095 (CHR ''x'')" "''y''" "[]"]
    by (simp add: shell_limits)
  ultimately show ?thesis by blast
qed

subsection \<open>Redirection of built-in commands\<close>

lemma fold_print_fds: "fds (fold (\<lambda>x. print (f x)) xs sh) = fds sh"
  by (induction xs arbitrary: sh) simp_all

lemma job_remove_fds [simp]: "fds (job_remove i sh) = fds sh"
  by (simp add: job_remove_def split: option.split)

lemma update_one_fds: "fds (update_one r sh) = fds sh"
  by (simp add: update_one_def job_exited_def Let_def split: prod.split option.split wstatus.split)

lemma job_update_fds [simp]: "fds (job_update rs sh) = fds sh"
  by (induction rs arbitrary: sh) (simp_all add: job_update_def update_one_fds)

lemma job_print_fds [simp]: "fds (job_print sh) = fds sh"
proof -
  have "fds (fold (\<lambda>j. if job_id j = 0 then id else print (f j)) js s) = fds s" for f js s
    by (induction js arbitrary: s) simp_all
  then show ?thesis by (simp add: job_print_def)
qed

lemma job_wait_fds [simp]: "fds (snd (job_wait w k i sh)) = fds sh"
  by (simp add: job_wait_def Let_def split: prod.split option.split)

lemma export_vars_fds [simp]: "fds (snd (export_vars as sh)) = fds sh"
  by (induction as sh rule: export_vars.induct) (simp_all add: Let_def split: option.split)

lemma builtin_run_fds: "fds (snd (builtin_run k argv sh)) = fds sh"
proof -
  have "fds (snd (builtin_cd k argv sh)) = fds sh" by (simp add: builtin_cd_def split: option.split)
  moreover have "fds (snd (builtin_export argv sh)) = fds sh"
    using fold_print_fds [of "\<lambda>(n, v). ''declare -x '' @ n @ ''='' @ v @ [LF]" "environ sh" sh]
    by (simp add: builtin_export_def case_prod_unfold)
  moreover have "fds (snd (builtin_bg k argv sh)) = fds sh" by (simp add: builtin_bg_def Let_def split: option.split)
  ultimately show ?thesis
    by (simp add: builtin_run_def Let_def ret_def builtin_pwd_def builtin_echo_def builtin_unset_def builtin_exit_def
        builtin_jobs_def builtin_fg_def builtin_help_def)
qed

lemma fd_save_ok:
  assumes "map_of t b = Some org" and "fd_save ok e f b t = Inr (saved, t')"
  shows "0 \<le> saved \<and> map_of t saved = None \<and> map_of t' = (map_of t)(saved \<mapsto> org, b \<mapsto> e)"
proof -
  obtain n t1 where d: "fd_open org t = (n, t1)" by (cases "fd_open org t")
  note op = fd_open_ok [OF d]
  have "saved = n" "t' = fd_redirect e b t1" using assms d by (auto simp: fd_save_def fd_dup_def split: if_splits)
  moreover have "map_of t1 b \<noteq> None" using op assms(1) by simp
  ultimately show ?thesis using op map_of_fd_redirect [of t1 b e] by simp
qed

lemma fd_save_fails:
  assumes "map_of t b = Some org" and "fd_save ok e f b t = Inl (saved, t')"
  shows "map_of t' = map_of t"
proof -
  obtain n t1 where d: "fd_open org t = (n, t1)" by (cases "fd_open org t")
  show ?thesis using fd_open_ok [OF d] assms d by (auto simp: fd_save_def fd_dup_def fun_eq_iff split: if_splits)
qed

lemma fd_restore_ok:
  "map_of t saved = Some org \<Longrightarrow> 0 \<le> saved \<Longrightarrow> map_of (fd_restore saved b t) = (map_of t)(b \<mapsto> org, saved := None)"
  by (simp add: fd_restore_def)

text \<open>Saving, redirecting and restoring one descriptor, with anything in between that keeps the table.\<close>

lemma redirect_cases:
  assumes "map_of t b = Some org" and "r = Inr (-1, t) \<or> (\<exists>f. r = fd_save ok (e f) f b t)"
  shows "(\<exists>v t'. r = Inl (v, t') \<and> map_of t' = map_of t) \<or>
    (\<exists>t'. r = Inr (-1, t') \<and> map_of t' = map_of t) \<or>
    (\<exists>s e' t'. r = Inr (s, t') \<and> 0 \<le> s \<and> map_of t s = None \<and> map_of t' = (map_of t)(s \<mapsto> org, b \<mapsto> e'))"
proof (cases r)
  case (Inl x)
  obtain v t' where x: "x = (v, t')" by (cases x)
  from Inl assms(2) obtain f where "fd_save ok (e f) f b t = Inl (v, t')" using x by auto
  from fd_save_fails [OF assms(1) this] show ?thesis using Inl x by blast
next
  case (Inr x)
  then show ?thesis using assms fd_save_ok [OF assms(1)] by (cases x) (metis Inr_inject)
qed

lemma restore_under:
  assumes "(s0 = -1 \<and> map_of t1 = m) \<or> (\<exists>e. 0 \<le> s0 \<and> m s0 = None \<and> map_of t1 = m(s0 \<mapsto> o0, 0 \<mapsto> e))"
    and "0 \<le> s1" and "map_of t1 s1 = None" and "map_of t2 = (map_of t1)(s1 \<mapsto> o1, 1 \<mapsto> e1)"
    and "m 0 = Some o0" and "m 1 = Some o1"
  shows "map_of (fd_restore s0 0 t2) = m(s1 \<mapsto> o1, 1 \<mapsto> e1)"
proof (cases "s0 = -1")
  case True
  then show ?thesis using assms by (auto simp: fd_restore_def)
next
  case False
  then obtain e where e: "0 \<le> s0" "m s0 = None" "map_of t1 = m(s0 \<mapsto> o0, 0 \<mapsto> e)" using assms(1) by auto
  have ne: "s0 \<noteq> 0" "s0 \<noteq> 1" "s1 \<noteq> s0" "s1 \<noteq> 0" using e assms(3,5,6) by (metis fun_upd_apply option.distinct(1))+
  have "map_of t2 s0 = Some o0" unfolding assms(4) e(3) using ne by simp
  from fd_restore_ok [OF this e(1)] show ?thesis unfolding assms(4) e(3) using ne e(2) assms(5) by (auto simp: fun_eq_iff)
qed

lemma redirect_input_cases:
  assumes "map_of t 0 = Some o0"
  shows "redirect_input k cmd t = Inl (v, t') \<Longrightarrow> map_of t' = map_of t"
    and "redirect_input k cmd t = Inr (s0, t1) \<Longrightarrow> (s0 = -1 \<and> map_of t1 = map_of t) \<or>
      (\<exists>e. 0 \<le> s0 \<and> map_of t s0 = None \<and> map_of t1 = (map_of t)(s0 \<mapsto> o0, 0 \<mapsto> e))"
proof -
  have "redirect_input k cmd t = Inr (-1, t) \<or> (\<exists>f. redirect_input k cmd t = fd_save (os_openr k) (ReadFile f) f 0 t)"
    by (cases "input_file cmd") (auto simp: redirect_input_def)
  note rc = redirect_cases [OF assms this]
  show "redirect_input k cmd t = Inl (v, t') \<Longrightarrow> map_of t' = map_of t" using rc by auto
  show "redirect_input k cmd t = Inr (s0, t1) \<Longrightarrow> (s0 = -1 \<and> map_of t1 = map_of t) \<or>
      (\<exists>e. 0 \<le> s0 \<and> map_of t s0 = None \<and> map_of t1 = (map_of t)(s0 \<mapsto> o0, 0 \<mapsto> e))" using rc by auto
qed

lemma redirect_output_cases:
  assumes "map_of t 1 = Some o1"
  shows "redirect_output k cmd t = Inl (v, t') \<Longrightarrow> map_of t' = map_of t"
    and "redirect_output k cmd t = Inr (s1, t2) \<Longrightarrow> (s1 = -1 \<and> map_of t2 = map_of t) \<or>
      (\<exists>e. 0 \<le> s1 \<and> map_of t s1 = None \<and> map_of t2 = (map_of t)(s1 \<mapsto> o1, 1 \<mapsto> e))"
proof -
  have "redirect_output k cmd t = Inr (-1, t) \<or>
      (\<exists>f. redirect_output k cmd t = fd_save (os_openw k) (WriteFile f (cmd_append cmd)) f 1 t)"
    by (cases "output_file cmd") (auto simp: redirect_output_def)
  note rc = redirect_cases [OF assms this]
  show "redirect_output k cmd t = Inl (v, t') \<Longrightarrow> map_of t' = map_of t" using rc by auto
  show "redirect_output k cmd t = Inr (s1, t2) \<Longrightarrow> (s1 = -1 \<and> map_of t2 = map_of t) \<or>
      (\<exists>e. 0 \<le> s1 \<and> map_of t s1 = None \<and> map_of t2 = (map_of t)(s1 \<mapsto> o1, 1 \<mapsto> e))" using rc by auto
qed

lemma input_restored:
  assumes "map_of t 0 = Some o0" and "redirect_input k cmd t = Inr (s0, t1)" and "map_of t2 = map_of t1"
  shows "map_of (fd_restore s0 0 t2) = map_of t"
  using redirect_input_cases(2) [OF assms(1,2)] assms(1,3) fd_restore_ok [of t2 s0 o0 0]
  by (auto simp: fd_restore_def fun_eq_iff)

lemma both_restored:
  assumes "map_of t 0 = Some o0" and "map_of t 1 = Some o1"
    and "redirect_input k cmd t = Inr (s0, t1)" and "redirect_output k cmd t1 = Inr (s1, t2)"
  shows "map_of (fd_restore s1 1 (fd_restore s0 0 t2)) = map_of t"
proof -
  note m1 = redirect_input_cases(2) [OF assms(1,3)]
  then have "map_of t1 1 = Some o1" using assms(1,2) by auto
  note m2 = redirect_output_cases(2) [OF this assms(4)]
  show ?thesis
  proof (cases "s1 = -1")
    case True
    then show ?thesis using m2 input_restored [OF assms(1,3)] by (auto simp: fd_restore_def)
  next
    case False
    then obtain e where s1: "0 \<le> s1" "map_of t1 s1 = None" "map_of t2 = (map_of t1)(s1 \<mapsto> o1, 1 \<mapsto> e)" using m2 by auto
    have r0: "map_of (fd_restore s0 0 t2) = (map_of t)(s1 \<mapsto> o1, 1 \<mapsto> e)"
      using m1 s1 assms(1,2) by (rule restore_under)
    have "s1 \<noteq> 1" "map_of t s1 = None" using m1 s1(2) assms(1,2) by (auto split: if_splits)
    then show ?thesis using fd_restore_ok [of "fd_restore s0 0 t2" s1 o1 1] r0 s1(1) assms(2)
      by (auto simp: fun_eq_iff)
  qed
qed

text \<open>
  A built-in command leaves the shell's descriptors as they were, whatever it is, whatever it is
  redirected to and whether or not the files can be opened; only \<open>exit\<close> does not come back.
\<close>

lemma builtin_restores_fds:
  assumes "map_of (fds sh) 0 \<noteq> None" and "map_of (fds sh) 1 \<noteq> None" and "builtin_execute k p sh = (Ret r, sh')"
  shows "map_of (fds sh') = map_of (fds sh)"
proof (cases "cmd_argv (hd (pl_commands p)) = []")
  case True
  then show ?thesis using assms(3) by (simp add: builtin_execute_def)
next
  case False
  let ?cmd = "hd (pl_commands p)" and ?t = "fds sh"
  obtain o0 o1 where o: "map_of ?t 0 = Some o0" "map_of ?t 1 = Some o1" using assms(1,2) by auto
  show ?thesis
  proof (cases "redirect_input k ?cmd ?t")
    case (Inl x)
    then show ?thesis using redirect_input_cases(1) [OF o(1)] assms(3) False
      by (cases x) (auto simp: builtin_execute_def Let_def)
  next
    case (Inr x)
    obtain s0 t1 where x: "redirect_input k ?cmd ?t = Inr (s0, t1)" using Inr by (cases x) auto
    have o1: "map_of t1 1 = Some o1" using redirect_input_cases(2) [OF o(1) x] o by auto
    show ?thesis
    proof (cases "redirect_output k ?cmd t1")
      case (Inl y)
      then show ?thesis
        using input_restored [OF o(1) x redirect_output_cases(1) [OF o1]] x assms(3) False
        by (cases y) (auto simp: builtin_execute_def Let_def)
    next
      case (Inr y)
      obtain s1 t2 where y: "redirect_output k ?cmd t1 = Inr (s1, t2)" using Inr by (cases y) auto
      have "fds sh' = fd_restore s1 1 (fd_restore s0 0 t2)"
        using assms(3) False x y builtin_run_fds [of k "cmd_argv ?cmd" "sh\<lparr>fds := t2\<rparr>"]
        by (auto simp: builtin_execute_def Let_def split: prod.splits bresult.splits)
      then show ?thesis using both_restored [OF o x y] by simp
    qed
  qed
qed

lemma builtin_restores_fds_witness:
  "\<exists>sh'. builtin_execute calm_os \<lparr>pl_commands = [empty_command\<lparr>cmd_argv := [''echo'', ''hi''], output_file := Some ''log''\<rparr>], pl_background = False\<rparr>
     (shell_init True 7 True None [] tty_fds) = (Ret 0, sh') \<and> map_of (fds sh') = map_of tty_fds"
proof -
  let ?p = "\<lparr>pl_commands = [empty_command\<lparr>cmd_argv := [''echo'', ''hi''], output_file := Some ''log''\<rparr>], pl_background = False\<rparr>"
  obtain sh' where r: "builtin_execute calm_os ?p (shell_init True 7 True None [] tty_fds) = (Ret 0, sh')"
    by (simp add: builtin_execute_def Let_def empty_command_def redirect_input_def redirect_output_def fd_save_def
        calm_os_def builtin_run_def ret_def builtin_echo_def fd_dup_def fd_open_def shell_init_def tty_fds_def)
  from builtin_restores_fds [OF _ _ r] have "map_of (fds sh') = map_of tty_fds"
    by (simp add: shell_init_def tty_fds_def)
  then show ?thesis using r by blast
qed

end
