(* ===== verification/Shell_Main.thy ===== *)
theory Shell_Main
  imports Shell_Exec C_Stdio
begin

text \<open>
  The shell as a program: signal dispositions (\<open>mini-shell/src/signal.c\<close>) and the loop of \<open>main.c\<close> over what standard
  input delivers.
\<close>

subsection \<open>Signals\<close>

datatype sig = SIGINT | SIGTSTP | SIGTTOU | SIGTTIN | SIGCHLD | OtherSig int

datatype disposition = SIG_DFL | SIG_IGN | SigchldHandler | SigintHandler

record sigact =
  sa_handler :: disposition
  sa_restart :: bool
  sa_nocldstop :: bool

type_synonym sigtable = "sig \<Rightarrow> sigact"

definition sigaction :: "sig \<Rightarrow> disposition \<Rightarrow> bool \<Rightarrow> bool \<Rightarrow> sigtable \<Rightarrow> sigtable" where
  "sigaction s h restart nocldstop t = t(s := \<lparr>sa_handler = h, sa_restart = restart, sa_nocldstop = nocldstop\<rparr>)"

definition signal_init :: "sigtable \<Rightarrow> sigtable" where
  "signal_init t =
     sigaction SIGTTIN SIG_IGN False False
       (sigaction SIGTTOU SIG_IGN False False
         (sigaction SIGTSTP SIG_IGN False False
           (sigaction SIGINT SigintHandler False False
             (sigaction SIGCHLD SigchldHandler True True t))))"

definition signal_reset_child :: "sigtable \<Rightarrow> sigtable" where
  "signal_reset_child t =
     sigaction SIGCHLD SIG_DFL False False
       (sigaction SIGTTIN SIG_DFL False False
         (sigaction SIGTTOU SIG_DFL False False
           (sigaction SIGTSTP SIG_DFL False False
             (sigaction SIGINT SIG_DFL False False t))))"

text \<open>What a handler does to the state: \<open>sigint_handler\<close> writes a line end, \<open>sigchld_handler\<close> sets a flag nobody reads.\<close>

definition run_handler :: "disposition \<Rightarrow> shell \<Rightarrow> shell" where
  "run_handler h sh = (if h = SigintHandler then print [LF] sh else sh)"

text \<open>
  A child that resets its signals has the dispositions a program expects, whatever the shell had changed; the
  shell itself is neither stopped by the terminal nor by its own \<open>tcsetpgrp\<close>.
\<close>

lemma child_signals_default:
  "sa_handler (signal_reset_child (signal_init t) s) = (if s \<in> {SIGINT, SIGTSTP, SIGTTOU, SIGTTIN, SIGCHLD} then SIG_DFL else sa_handler (t s))"
  "s \<in> {SIGTSTP, SIGTTOU, SIGTTIN} \<Longrightarrow> sa_handler (signal_init t s) = SIG_IGN"
  "signal_reset_child (signal_reset_child t) = signal_reset_child t"
  by (auto simp: signal_reset_child_def signal_init_def sigaction_def fun_eq_iff)

subsection \<open>The command loop\<close>

text \<open>What reading a line brings: bytes for \<open>fgets\<close>, the end of the input, or Ctrl-C while waiting.\<close>

datatype shell_input = InLine bytes | InEof | InCtrlC

definition prompt_text :: "shell \<Rightarrow> string" where
  "prompt_text sh = take (MAX_LINE + 63)
     ([CHR 0x1B] @ ''[1;32mminishell'' @ [CHR 0x1B] @ ''[0m:'' @ [CHR 0x1B] @ ''[1;34m'' @ cwd sh @ [CHR 0x1B] @ ''[0m$ '')"

definition show_prompt :: "shell \<Rightarrow> shell" where
  "show_prompt sh = (if interactive sh then print (prompt_text sh) sh else sh)"

definition strip_line :: "bytes \<Rightarrow> string" where
  "strip_line raw = takeWhile (\<lambda>c. c \<noteq> LF) (cstr raw)"

text \<open>
  The loop with the answers of the system for each turn. A read that a handler interrupts is restarted only when
  the handler was installed so; otherwise \<open>fgets\<close> returns a null pointer, which the loop takes for the end. \<open>None\<close>
  outside: a turn does not return; \<open>None\<close> as exit status: the loop waits for input.
\<close>

fun shell_loop :: "sigtable \<Rightarrow> (os \<times> shell_input) list \<Rightarrow> shell \<Rightarrow> (int option \<times> shell) option" where
  "shell_loop t [] sh = Some (None, sh)"
| "shell_loop t ((k, InEof) # es) sh = Some (Some 0, print [LF] (show_prompt sh))"
| "shell_loop t ((k, InCtrlC) # es) sh =
     (let sh1 = run_handler (sa_handler (t SIGINT)) (show_prompt sh) in
      if sa_restart (t SIGINT) then shell_loop t es sh1 else Some (Some 0, print [LF] sh1))"
| "shell_loop t ((k, InLine raw) # es) sh =
     (case shell_line k (strip_line raw) (show_prompt sh) of
        None \<Rightarrow> None
      | Some (Some n, sh1) \<Rightarrow> Some (Some n, sh1)
      | Some (None, sh1) \<Rightarrow> shell_loop t es sh1)"

definition shell_main ::
  "bool \<Rightarrow> int \<Rightarrow> bool \<Rightarrow> string option \<Rightarrow> (string \<times> string) list \<Rightarrow> fdtable \<Rightarrow> sigtable \<Rightarrow> (os \<times> shell_input) list \<Rightarrow> (int option \<times> shell) option" where
  "shell_main tty pid setpgid_ok wd env tab t es =
     shell_loop (signal_init t) es
       (print (''minishell v1.0 - Type '' @ [QUOTE] @ ''help'' @ [QUOTE] @ '' for commands, '' @ [QUOTE] @ ''exit'' @ [QUOTE] @ '' to quit'' @ [LF])
         (shell_init tty pid setpgid_ok wd env tab))"

text \<open>Standard input that is a file: the pieces \<open>fgets\<close> delivers, then the end.\<close>

definition batch_input :: "os \<Rightarrow> bytes \<Rightarrow> (os \<times> shell_input) list" where
  "batch_input k b = map (\<lambda>l. (k, InLine l)) (fgets_lines MAX_LINE b) @ [(k, InEof)]"

text \<open>Ctrl-C at the prompt ends the shell: the handler is installed without \<open>SA_RESTART\<close>.\<close>

lemma ctrl_c_ends_shell:
  "\<exists>sh. shell_main tty pid ok wd env tab t ((k, InCtrlC) # es) = Some (Some 0, sh)"
  by (simp add: shell_main_def Let_def signal_init_def sigaction_def)

text \<open>A shell that got no input has only shown its banner and a prompt on a terminal.\<close>

lemma empty_session:
  "\<exists>sh. shell_main False pid ok wd env tab t [(k, InEof)] = Some (Some 0, sh) \<and> length (trace sh) = 2"
  by (simp add: shell_main_def show_prompt_def shell_init_def print_def emit_def)

subsection \<open>Sessions of echo lines\<close>

text \<open>The words of an \<open>echo\<close> line that arrive as written.\<close>

definition echo_ok :: "string list \<Rightarrow> bool" where
  "echo_ok as \<longleftrightarrow> length as + 1 < MAX_ARGS \<and> length (quoted_line (''echo'' # as)) + 1 < MAX_LINE \<and>
     list_all (\<lambda>a. a \<noteq> [] \<and> QUOTE \<notin> set a \<and> DOLLAR \<notin> set a \<and> length a < MAX_LINE) as \<and>
     list_all (\<lambda>a. PIPE \<notin> set a \<and> a \<noteq> ''<'' \<and> a \<noteq> ''>'' \<and> a \<noteq> ''>>'') as \<and> list_all (\<lambda>a. LF \<notin> set a \<and> NUL \<notin> set a) as"

text \<open>One line: parsed, dispatched to the built-in command, printed.\<close>

lemma echo_line:
  assumes "length as + 1 < MAX_ARGS"
    and "list_all (\<lambda>a. a \<noteq> [] \<and> QUOTE \<notin> set a \<and> DOLLAR \<notin> set a \<and> length a < MAX_LINE) as"
    and "list_all (\<lambda>a. PIPE \<notin> set a \<and> a \<noteq> ''<'' \<and> a \<noteq> ''>'' \<and> a \<noteq> ''>>'') as"
  shows "shell_line k (quoted_line (''echo'' # as)) sh =
    Some (None, job_update (os_prompt k) ((print (join_blank as @ [LF]) sh)\<lparr>last_exit_status := 0\<rparr>))"
proof -
  have ne: "quoted_line (''echo'' # as) \<noteq> []" by (rule quoted_line_facts(1)) simp
  have parsed: "parse_line (map_of (environ sh)) (quoted_line (''echo'' # as)) =
      Some (Inr \<lparr>pl_commands = [empty_command\<lparr>cmd_argv := ''echo'' # as\<rparr>], pl_background = False\<rparr>)"
    using assms by (intro parse_quoted_line) (simp_all add: c_limits)
  have run: "builtin_execute k \<lparr>pl_commands = [empty_command\<lparr>cmd_argv := ''echo'' # as\<rparr>], pl_background = False\<rparr> sh =
      (Ret 0, (print (join_blank as @ [LF]) sh)\<lparr>last_exit_status := 0\<rparr>)"
    by (simp add: builtin_execute_def Let_def empty_command_def redirect_input_def redirect_output_def builtin_run_def
        ret_def builtin_echo_def fd_restore_def print_def emit_def)
  show ?thesis using ne by (simp add: shell_line_def parsed run builtin_check_def builtin_names_def)
qed

lemma echo_loop:
  assumes "list_all (\<lambda>as. echo_ok as) ls" and "os_prompt k = []" and "\<not> interactive sh"
  shows "\<exists>sh'. shell_loop t (map (\<lambda>as. (k, InLine (quoted_line (''echo'' # as) @ [LF]))) ls @ es) sh = shell_loop t es sh' \<and>
    \<not> interactive sh' \<and> fds sh' = fds sh \<and> trace sh' = trace sh @ map (\<lambda>as. Out (map_of (fds sh) 1) (join_blank as @ [LF])) ls"
  using assms(1,3)
proof (induction ls arbitrary: sh)
  case (Cons as ls)
  have ok: "echo_ok as" using Cons.prems(1) by simp
  have clean: "LF \<notin> set (quoted_line (''echo'' # as))" "is_cstr (quoted_line (''echo'' # as))"
    using ok quoted_line_facts(3) [of "''echo'' # as"] by (auto simp: echo_ok_def list_all_iff is_cstr_def)
  have "strip_line (quoted_line (''echo'' # as) @ [LF]) = quoted_line (''echo'' # as)"
    unfolding strip_line_def using clean by (subst cstr_ident) (auto simp: takeWhile_tail)
  moreover have "shell_line k (quoted_line (''echo'' # as)) sh = Some (None, (print (join_blank as @ [LF]) sh)\<lparr>last_exit_status := 0\<rparr>)"
    using echo_line [of as k sh] ok assms(2) by (simp add: echo_ok_def job_update_def)
  ultimately have step: "shell_loop t (map (\<lambda>as. (k, InLine (quoted_line (''echo'' # as) @ [LF]))) (as # ls) @ es) sh =
      shell_loop t (map (\<lambda>as. (k, InLine (quoted_line (''echo'' # as) @ [LF]))) ls @ es) ((print (join_blank as @ [LF]) sh)\<lparr>last_exit_status := 0\<rparr>)"
    using Cons.prems(2) by (simp add: show_prompt_def)
  show ?case using Cons.IH [of "(print (join_blank as @ [LF]) sh)\<lparr>last_exit_status := 0\<rparr>"] Cons.prems
    unfolding step by (auto simp: print_def emit_def)
qed auto

end
