(* ===== verification/Spec2Isabelle.thy ===== *)
theory Spec2Isabelle
  imports Kvdb Mempool Log_System Http Proxy Fs_System Fs_Auth Fs_Rate Fs_Pool Fs_Log Fs_Hash Fs_Module
    Fs_Watch Fs_Http Fs_Main Sysmon_Page Serial_Term Bench_Msg Fs_Metadata Fs_Wrap Server_Run Shell_Main
begin

text \<open>
  A verification development for the C programs of this repository.

  \<^bold>\<open>The program.\<close> The repository is a set of Linux system programs and the libraries they are made of: a
  key-value database (\<open>kv-database\<close>), a block allocator (\<open>memory-pool\<close>), a logging library
  (\<open>log-system\<close>), a web server (\<open>web-server\<close>), an HTTP proxy (\<open>network-proxy\<close>), a file server
  (\<open>linux-file-server\<close>), a shell (\<open>mini-shell\<close>), a serial terminal (\<open>serial-tool\<close>), a system
  monitor (\<open>sys-monitor\<close>) and IPC benchmarks (\<open>ipc-bench\<close>). Each library keeps its own state behind
  a few operations; the servers hand accepted connections from an accept loop to worker threads
  through a bounded queue; the shell turns a line into a pipeline and tracks its processes in a job
  table.

  \<^bold>\<open>Shared theories.\<close>
  \<^item> \<open>Prelude\<close>: bytes, C strings and character classes, \<open>strstr\<close>, \<open>atoi\<close>, decimal and hexadecimal text.
  \<^item> \<open>C_Stdio\<close>: allocation outcomes, \<open>fopen\<close> on a store of files, little-endian integers, \<open>strncpy\<close>,
    accumulating \<open>snprintf\<close>, the \<open>sscanf\<close> conversions in use, the \<open>send\<close> loop.
  \<^item> \<open>Map_Store\<close>: the contract of a key-value table (locale \<open>map_store\<close>), interpreted by the hash table
    of the database.
  \<^item> \<open>Ring_Queue\<close>: ring buffer arithmetic and the contract of a bounded queue (locale \<open>bounded_queue\<close>),
    interpreted by the ring buffer of the log and by the connection queues of both servers.
  \<^item> \<open>Id_Table\<close>: the contract of a bounded table that hands out identifiers (locale \<open>id_table\<close>),
    interpreted by the job table of the shell.
  \<^item> \<open>File_Service\<close>: what the client of the file server relies on (locale \<open>file_service\<close>), interpreted in
    \<open>Fs_System\<close> by the connection loop of the server.
  \<^item> \<open>Resources\<close>: traces of what start-up code acquires and gives back.
  \<^item> \<open>Two_Process\<close>: the contract of two processes that take turns until both are done (locale \<open>two_process\<close>),
    interpreted by the semaphores, the named pipes, the message queues and the datagrams of the benchmarks.
  \<^item> \<open>Float_Text\<close>: the decimal text of a floating-point number (\<open>%.nf\<close>) and that it is the nearest one.

  \<^bold>\<open>Components.\<close>
  \<^item> \<open>Kvdb\<close> (\<open>kv-database/src/kvdb.c\<close>). State: \<open>kvdb\<close>, with the bucket array as a list of chains.
    \<open>hash_string\<close> is on 32-bit words. Shown: the outcome of \<open>kvdb_set\<close> on every branch, lookups after
    updates, that any run of updates is the same run on a partial map with \<open>kvdb_count\<close> its size, and
    that closing and opening again restores every binding; and that a key of the largest accepted
    size overruns the buffer of the loader.
  \<^item> \<open>Mempool\<close> (\<open>memory-pool/src/mempool.c\<close>). State: block headers and user bytes by address, the pool
    record with its free list and statistics. Undefined behaviour is an explicit outcome. Shown: the
    invariant of the region and the free list and that every operation keeps it, double frees
    included, so \<open>mempool_check\<close> succeeds in every reachable state; the effect of each operation; the
    layout; and what an overflowing size does.
  \<^item> \<open>Log_System\<close> (\<open>log-system/src/log.c\<close>). State: \<open>g_log\<close> and \<open>g_ring\<close> in one record. Shown: records written
    asynchronously arrive complete and in order; rotation in the worker keeps its counters; the
    formatted entry stays in its buffer; a synchronous write that rotates deadlocks. The worker's
    final loop \<open>async_drain\<close> takes fuel; \<open>log_close\<close> gives it the number of entries in the ring, which
    is what the loop takes, one entry per turn.
  \<^item> \<open>Http\<close> (\<open>web-server/src/http.c\<close>). Shown: URL coding and requests are read back as written, every
    connection is closed once, files are sent whole, the connection queue is first-in first-out.
  \<^item> \<open>Proxy\<close> (\<open>network-proxy/src/proxy.c\<close>). Shown: URLs are read back, requests are forwarded with their
    first line rewritten, the tunnel copies both directions exactly, connections are accounted for;
    and the buffer overruns of the rewriting and of \<open>CONNECT\<close>.
  \<^item> \<open>Server_Run\<close> (both of them and \<open>web-server/src/main.c\<close>). The life of a server: creation, threads, the accept loop over
    any order of events, stopping and release. Shown: every accepted connection is taken, queued or refused;
    what is acquired is given back; and that stopping waits for one more connection and strands it.
  \<^item> \<open>Thread_Pool\<close> (\<open>linux-file-server/src/thread_pool.c\<close>). A transition system whose steps are the critical
    sections of producers, workers and \<open>thread_pool_destroy\<close>. Shown: order and bounds in every reachable
    state, that shutdown ends for every schedule, and that it drains the queue.
  \<^item> \<open>Fs_Protocol\<close>, \<open>Fs_Transfer\<close>, \<open>Fs_Config\<close>, \<open>Fs_Server\<close>, \<open>Fs_Client\<close>, \<open>Fs_System\<close>
    (\<open>linux-file-server/src/protocol.c\<close>, \<open>server.c\<close>, \<open>client.c\<close>, \<open>include/common.h\<close> and the configuration reader
    of \<open>main_server.c\<close>). A connection is a record of what is still to be received, what was sent and how
    the kernel divides the transfers; the disk is a map from paths to bytes. Shown: headers survive the
    sockets; whatever a client sends, only entries of the shared directory change; the table of clients over
    any interleaving of accepts and handlers; uploads, downloads and resumed transfers of client and server
    run against each other end with equal files; and where a refused upload, a file of 4 GiB or a long
    listing goes wrong.
  \<^item> \<open>Fs_Main\<close> (\<open>main_server.c\<close>, \<open>main_client.c\<close>): the options, their precedence over the file, and the order
    of start-up and clean-up.
  \<^item> \<open>Fs_Http\<close> (\<open>http_server.c\<close>): the request parser, the three JSON documents, routing and the thread. Shown:
    accepted requests fit their structure, the listing is complete when it fits, nothing leaks.
  \<^item> \<open>Fs_Auth\<close>, \<open>Fs_Rate\<close>, \<open>Fs_Pool\<close>, \<open>Fs_Log\<close>, \<open>Fs_Hash\<close>, \<open>Fs_Module\<close>, \<open>Fs_Watch\<close>, \<open>Fs_Process\<close> (\<open>auth.c\<close>,
    \<open>rate_limit.c\<close>, \<open>mempool.c\<close>, \<open>log.c\<close>, \<open>hash_util.c\<close>, \<open>module.c\<close> with \<open>plugins/echo_module.c\<close>, \<open>file_watch.c\<close>,
    \<open>process_pool.c\<close> with \<open>shm_ipc.c\<close>). Shown: who may log in and which tokens are accepted; the bound on
    granted bytes and when a wait ends; the free list over any history; that rotated log files are the
    end of what was written; that hashing in pieces is hashing the whole; that every opened module is
    closed once; that every named event reaches its callback; that every forked worker is reaped.
  \<^item> \<open>Fs_Metadata\<close>, \<open>Fs_Wrap\<close> (\<open>metadata.c\<close>; \<open>ssl_wrap.c\<close>, \<open>epoll_wrap.c\<close>, \<open>compress.c\<close>). The libraries below are parameters.
    Shown: under the laws of SQLite the tables are the effects of the operations that succeeded; the listing is
    the rows as far as the buffer goes; a message over TLS arrives as sent; contexts and sessions are freed on
    every failing path.
  \<^item> \<open>Sysmon\<close> (\<open>sys-monitor/src\<close>): the readers of \<open>/proc\<close>, usage and rates, the process table, the keyboard and
    one round of \<open>main\<close>. Shown: usage is a percentage, the process list is sorted, the selected tab stays in
    range; and that the kernel's format makes the network page empty and shifts the columns of processes.
    \<open>Sysmon_Cpu\<close> shows that for the kernel's \<open>/proc/stat\<close> the CPU page is the share of busy time.
  \<^item> \<open>Sysmon_Ui\<close> (\<open>ui.c\<close>, \<open>main.c\<close>): the pages as lists of calls to the window library, with their texts, and the program
    from its start to the end of its loop. Shown: every page stays inside the window and switches off what it
    switches on; bars, sizes and uptime are exact; the process page shows the right processes for every offset; each
    round draws the page the keys have chosen, and the screen is given back once; and where the last row of the
    process page, scrolling past its end and the kernel version go wrong. \<open>Sysmon_Page\<close> follows the CPU usage from
    \<open>/proc/stat\<close> to the figures, bars and rows on the screen.
  \<^item> \<open>Serial\<close>, \<open>Serial_Script\<close>, \<open>Serial_Term\<close> (\<open>serial-tool/src/serial.c\<close> and \<open>hexdump.c\<close>, \<open>script.c\<close>, \<open>terminal.c\<close> and
    \<open>main.c\<close>). A line is a record of what the driver takes of each write, what it delivers to each read, and
    what has been sent. Shown: hexadecimal and escaped text is sent as the bytes it denotes; when waiting for a
    pattern succeeds; that the terminal passes keys and data through unchanged and restores its settings; and
    that it leaves raw mode after sending a file.
  \<^item> \<open>Bench\<close>, \<open>Bench_Main\<close>, \<open>Bench_Msg\<close> (\<open>ipc-bench/src/utils.c\<close>, \<open>bench_*.c\<close>, \<open>main.c\<close>). The statistics, and the loops of parent and
    child as transition systems over all schedules. Shown: the figures are in order; the exchange over byte
    streams, the semaphores, the message queues, the datagrams and the opening of the named pipes end for every
    schedule; the busy-wait handshake can hang, and so can a parent whose child has failed; every benchmark that
    succeeds gives back what it acquired, and which of them leak when a call fails.
  \<^item> \<open>Shell_Parser\<close>, \<open>Shell_Jobs\<close>, \<open>Shell_Exec\<close> (\<open>mini-shell/src/parser.c\<close>, \<open>job.c\<close>, \<open>builtin.c\<close>,
    \<open>executor.c\<close>, \<open>main.c\<close>). State: \<open>shell\<close>, with the job slots, the environment, the descriptor table and
    a trace of what is printed and of the calls that reach the kernel. Shown: quoted words survive
    parsing; the job table is a partial map with fresh identifiers over any session; pipelines are
    wired as written with no stray pipe end; redirected built-in commands restore the descriptors;
    and the places where job numbers, continued processes, stopped pipelines, the command string and
    brace expansion go wrong. \<open>Shell_Main\<close> (\<open>main.c\<close>, \<open>signal.c\<close>) adds the dispositions and the loop over standard
    input; this theory adds a session of \<open>echo\<close> lines through all of it.

  \<^bold>\<open>Conventions.\<close> A byte is a character; buffers and strings are lists; an integer is a machine word
  where wrap-around matters and a mathematical integer where the code keeps it in range. Writes past a
  buffer, reads of unterminated ones, locks taken twice and loops that do not end are outcomes of the
  model, never left out. What the kernel and the C library decide (allocation, opening files, clocks,
  process numbers, what arrives on a socket) is an argument. Critical sections under one mutex are
  atomic steps. Loops are structural or well-founded recursions.

  \<^bold>\<open>Not modelled.\<close> The vendored headers of SQLite, OpenSSL and ncurses and the embedded web page are third-party or
  generated; SQLite, OpenSSL and zlib themselves are parameters, and of ncurses only the calls made to it are
  recorded. Of the shell the variant with readline is left out, of the programs the texts of their usage messages.
  \<open>signal_handler\<close> of the servers only clears a flag that is an input of the loops. Reading the clock is a parameter. Floating-point numbers are rationals: of their rounding only
  that of printing is modelled. Memory models weaker than the mutexes guarantee are not considered.
\<close>

section \<open>Properties across components\<close>



end
